(* ===== verification/Prelude.thy ===== *)
theory Prelude
  imports Main "HOL-Library.Word" "HOL-Library.Monad_Syntax"
begin

unbundle bit_operations_syntax

section \<open>Shared vocabulary of the development\<close>

text \<open>
  Types and generic facts every component uses. Machine integers are words of the
  width the C declarations give them. A block of C memory (a page buffer, the data
  of a record) is a list of bytes; a pointer into it is an integer offset, so pointer
  arithmetic such as \<open>cells_offset - 8\<close> may leave the block. A C expression with no
  defined meaning (an access outside its block, a null or dangling pointer, a division
  by zero), and a call that does not return, is the value \<open>None\<close> of an option; defined
  executions are \<open>Some\<close> of the result, which holds the C return code and the changed
  state. The option monad's do-notation is the C sequencing.
\<close>

type_synonym u8 = "8 word"
type_synonym u16 = "16 word"
type_synonym u32 = "32 word"
type_synonym bytes = "8 word list"

named_theorems mem_simps \<open>reading and writing blocks of memory\<close>
named_theorems code_simps \<open>numeric values of the C constants\<close>

subsection \<open>Options\<close>

lemma bind_Some_conv: "Option.bind m f = Some y \<longleftrightarrow> (\<exists>x. m = Some x \<and> f x = Some y)"
  by (cases m) auto

lemma case_sum_Some:
  "(case r of Inl a \<Rightarrow> f a | Inr b \<Rightarrow> g b) = Some y \<longleftrightarrow>
   (\<exists>a. r = Inl a \<and> f a = Some y) \<or> (\<exists>b. r = Inr b \<and> g b = Some y)"
  by (cases r) auto

lemma bind_assoc_option [simp]:
  "Option.bind (Option.bind m f) g = Option.bind m (\<lambda>x. Option.bind (f x) g)"
  by (cases m) auto

subsection \<open>Blocks of memory\<close>

text \<open>\<open>rd\<close> and \<open>wr\<close> are the C accesses \<open>m[p]\<close> and \<open>m[p] = b\<close>.\<close>

definition rd :: "bytes \<Rightarrow> int \<Rightarrow> u8 option" where
  "rd m p = (if 0 \<le> p \<and> nat p < length m then Some (m ! nat p) else None)"

definition wr :: "bytes \<Rightarrow> int \<Rightarrow> u8 \<Rightarrow> bytes option" where
  "wr m p b = (if 0 \<le> p \<and> nat p < length m then Some (m[nat p := b]) else None)"

text \<open>
  \<open>mem_get m p n\<close> is the content of the \<open>n\<close> bytes at \<open>p\<close> (the source of a
  \<open>memcpy\<close>), \<open>mem_put m p bs\<close> the block after \<open>bs\<close> has been copied to \<open>p\<close>.
\<close>

definition mem_get :: "bytes \<Rightarrow> int \<Rightarrow> nat \<Rightarrow> bytes option" where
  "mem_get m p n =
     (if 0 \<le> p \<and> nat p + n \<le> length m then Some (take n (drop (nat p) m)) else None)"

definition mem_put :: "bytes \<Rightarrow> int \<Rightarrow> bytes \<Rightarrow> bytes option" where
  "mem_put m p bs =
     (if 0 \<le> p \<and> nat p + length bs \<le> length m
      then Some (take (nat p) m @ bs @ drop (nat p + length bs) m) else None)"

lemma mem_get_0 [simp]: "mem_get m p 0 = (if 0 \<le> p \<and> nat p \<le> length m then Some [] else None)"
  by (simp add: mem_get_def)

lemma mem_put_Nil: "mem_put m p [] = (if 0 \<le> p \<and> nat p \<le> length m then Some m else None)"
  by (simp add: mem_put_def)

lemma mem_put_length: "mem_put m p bs = Some m' \<Longrightarrow> length m' = length m"
  by (auto simp: mem_put_def split: if_splits)

lemma mem_put_nth:
  "mem_put m p bs = Some m' \<Longrightarrow> i < length m \<Longrightarrow>
   m' ! i = (if nat p \<le> i \<and> i < nat p + length bs then bs ! (i - nat p) else m ! i)"
  by (auto simp: mem_put_def nth_append split: if_splits)

lemma mem_get_nth:
  "mem_get m p n = Some bs \<Longrightarrow> i < n \<Longrightarrow> bs ! i = m ! (nat p + i)"
  by (auto simp: mem_get_def split: if_splits)

lemma mem_put_ok:
  "0 \<le> p \<Longrightarrow> p + int (length bs) \<le> int (length m) \<Longrightarrow>
   mem_put m p bs = Some (take (nat p) m @ bs @ drop (nat p + length bs) m)"
  by (auto simp: mem_put_def)

lemma mem_put_SomeD:
  "mem_put m p bs = Some m' \<Longrightarrow> 0 \<le> p \<and> p + int (length bs) \<le> int (length m)"
  by (auto simp: mem_put_def split: if_splits)

lemma mem_get_ok:
  "0 \<le> p \<Longrightarrow> p + int n \<le> int (length m) \<Longrightarrow> mem_get m p n = Some (take n (drop (nat p) m))"
  by (auto simp: mem_get_def)

lemma mem_get_SomeD:
  "mem_get m p n = Some bs \<Longrightarrow> 0 \<le> p \<and> p + int n \<le> int (length m) \<and> length bs = n"
  by (auto simp: mem_get_def split: if_splits)

text \<open>A block of bytes is determined by its length and its bytes.\<close>

lemma mem_get_eqI:
  assumes "0 \<le> p" and "p + int n \<le> int (length m)" and "length bs = n"
    and "\<And>i. i < n \<Longrightarrow> m ! (nat p + i) = bs ! i"
  shows "mem_get m p n = Some bs"
  using assms by (auto simp: mem_get_def intro!: nth_equalityI)

lemma mem_get_cong:
  assumes "length m' = length m"
    and "\<And>i. i < n \<Longrightarrow> 0 \<le> q \<Longrightarrow> nat q + i < length m \<Longrightarrow> m' ! (nat q + i) = m ! (nat q + i)"
  shows "mem_get m' q n = mem_get m q n"
  using assms by (auto simp: mem_get_def intro!: nth_equalityI)

lemma mem_get_put_same:
  assumes "mem_put m p bs = Some m'" and "n = length bs"
  shows "mem_get m' p n = Some bs"
proof (rule mem_get_eqI)
  show "0 \<le> p" "p + int n \<le> int (length m')" "length bs = n"
    using assms mem_put_SomeD [OF assms(1)] mem_put_length [OF assms(1)] by auto
  fix i assume "i < n"
  then show "m' ! (nat p + i) = bs ! i"
    using assms mem_put_SomeD [OF assms(1)] by (subst mem_put_nth [OF assms(1)]) auto
qed

lemma mem_get_put_disjoint:
  assumes "mem_put m p bs = Some m'"
    and "q + int n \<le> p \<or> p + int (length bs) \<le> q"
  shows "mem_get m' q n = mem_get m q n"
proof (rule mem_get_cong)
  show "length m' = length m" using assms(1) by (rule mem_put_length)
  fix i assume "i < n" "0 \<le> q" and i: "nat q + i < length m"
  then have "\<not> (nat p \<le> nat q + i \<and> nat q + i < nat p + length bs)"
    using assms(2) mem_put_SomeD [OF assms(1)] by auto
  then show "m' ! (nat q + i) = m ! (nat q + i)"
    using mem_put_nth [OF assms(1) i] by auto
qed

lemma mem_get_within:
  assumes g: "mem_get m p n = Some bs" and kj: "k + j \<le> n"
  shows "mem_get m (p + int k) j = Some (take j (drop k bs))"
proof (rule mem_get_eqI)
  show "0 \<le> p + int k" "p + int k + int j \<le> int (length m)" "length (take j (drop k bs)) = j"
    using mem_get_SomeD [OF g] kj by auto
  fix i assume "i < j"
  then show "m ! (nat (p + int k) + i) = take j (drop k bs) ! i"
    using mem_get_SomeD [OF g] kj mem_get_nth [OF g, of "k + i"]
    by (simp add: nat_add_distrib add.assoc)
qed

text \<open>Reading two neighbouring blocks.\<close>

lemma mem_get_append:
  "mem_get m p (length xs + length ys) = Some (xs @ ys) \<longleftrightarrow>
   mem_get m p (length xs) = Some xs \<and> mem_get m (p + int (length xs)) (length ys) = Some ys"
  (is "?l \<longleftrightarrow> ?r")
proof
  assume g: ?l
  show ?r
    using mem_get_within [OF g, of 0 "length xs"] mem_get_within [OF g, of "length xs" "length ys"]
    by simp
next
  assume ?r
  then show ?l
    by (auto simp: mem_get_def nat_add_distrib take_add drop_drop add.commute split: if_splits)
qed

lemma mem_get_Suc:
  "mem_get m p (Suc n) = do { b \<leftarrow> rd m p; bs \<leftarrow> mem_get m (p + 1) n; Some (b # bs) }"
proof (cases "0 \<le> p \<and> nat p + Suc n \<le> length m")
  case True
  then have "drop (nat p) m = m ! nat p # drop (Suc (nat p)) m"
    by (simp add: Cons_nth_drop_Suc)
  with True show ?thesis by (simp add: mem_get_def rd_def nat_add_distrib)
next
  case False
  then show ?thesis by (auto simp: mem_get_def rd_def nat_add_distrib)
qed

lemma mem_put_Cons:
  "mem_put m p (b # bs) = do { m' \<leftarrow> wr m p b; mem_put m' (p + 1) bs }"
proof (cases "0 \<le> p \<and> nat p < length m")
  case True
  then have "take (Suc (nat p)) (m[nat p := b]) = take (nat p) m @ [b]"
    by (simp add: take_Suc_conv_app_nth)
  with True show ?thesis by (simp add: mem_put_def wr_def nat_add_distrib)
next
  case False
  then show ?thesis by (auto simp: mem_put_def wr_def)
qed

lemma mem_put_append:
  "mem_put m p (xs @ ys) =
     do { m' \<leftarrow> mem_put m p xs; mem_put m' (p + int (length xs)) ys }"
proof (induction xs arbitrary: m p)
  case Nil
  show ?case by (auto simp: mem_put_Nil mem_put_def)
next
  case (Cons x xs)
  show ?case by (simp add: mem_put_Cons Cons.IH add.assoc)
qed

lemma wr_eq_mem_put: "wr m p b = mem_put m p [b]"
  by (auto simp: mem_put_Cons mem_put_Nil wr_def)

lemma rd_eq_mem_get: "rd m p = Option.bind (mem_get m p 1) (\<lambda>bs. Some (hd bs))"
  by (auto simp: mem_get_def rd_def hd_drop_conv_nth)

text \<open>Neighbouring writes may be done in either order; the C code stores a cell from its end.\<close>

lemma mem_put_append_rev:
  "mem_put m p (xs @ ys) =
     do { m' \<leftarrow> mem_put m (p + int (length xs)) ys; mem_put m' p xs }"
proof (cases "0 \<le> p \<and> nat p + length (xs @ ys) \<le> length m")
  case True
  then obtain a where a: "mem_put m (p + int (length xs)) ys = Some a"
    by (simp add: mem_put_def nat_add_distrib)
  then obtain b where b: "mem_put a p xs = Some b"
    using True mem_put_length [OF a] by (simp add: mem_put_def)
  obtain c where c: "mem_put m p (xs @ ys) = Some c"
    using True by (simp add: mem_put_def)
  have "c = b"
  proof (rule nth_equalityI)
    show len: "length c = length b"
      using mem_put_length [OF a] mem_put_length [OF b] mem_put_length [OF c] by simp
    fix i assume "i < length c"
    then have i: "i < length m" "i < length a"
      using mem_put_length [OF a] mem_put_length [OF c] by auto
    show "c ! i = b ! i"
      using True by (auto simp: mem_put_nth [OF c i(1)] mem_put_nth [OF b i(2)] mem_put_nth [OF a i(1)]
          nth_append nat_add_distrib)
  qed
  with a b c show ?thesis by simp
next
  case False
  then show ?thesis by (auto simp: mem_put_def)
qed

subsection \<open>Arithmetic\<close>

text \<open>The end of the \<open>a\<close>-th of \<open>b\<close> blocks of \<open>p\<close> bytes, counted from 1.\<close>

lemma block_end_le:
  fixes a b p :: nat
  assumes "0 < a" and "a \<le> b"
  shows "(a - 1) * p + p \<le> b * p"
proof -
  have "(a - 1) * p + p = a * p" using assms(1) by (cases a) auto
  then show ?thesis using assms(2) by simp
qed

lemma unat_pred: "0 < (n :: 'a::len word) \<Longrightarrow> unat (n - 1) = unat n - 1"
  by (rule unat_minus_one) auto

lemma unat_lt_u32: "unat (w :: u32) < 2 ^ 32"
  using unsigned_less [of w] by simp

lemma unat_lt_u16: "unat (w :: u16) < 2 ^ 16"
  using unsigned_less [of w] by simp

lemma sint_eq_unat:
  fixes w :: u32
  assumes "unat w < 2 ^ 31"
  shows "sint w = int (unat w)"
proof -
  have "int (unat w) < int (2 ^ 31)" using assms by (rule of_nat_less_iff [THEN iffD2])
  then have "uint w < 2 ^ 31" by (simp only: uint_nat of_nat_power of_nat_numeral)
  moreover have "- (2 ^ 31) \<le> uint w" by (rule order_trans [of _ 0]) simp_all
  ultimately show ?thesis by (simp add: sint_uint signed_take_bit_int_eq_self)
qed

lemma unat_of_nat_small: "n < 2 ^ LENGTH('a::len) \<Longrightarrow> unat (of_nat n :: 'a word) = n"
  by (simp add: unat_of_nat)

lemma uint_of_unat: "unat w = n \<Longrightarrow> uint w = int n"
  by auto

lemma uint_minus_nat:
  fixes w :: "'a::len word"
  assumes "int n \<le> uint w"
  shows "uint (w - of_nat n) = uint w - int n"
proof -
  have lt: "int n < 2 ^ LENGTH('a)"
    using assms uint_bounded [of w] by linarith
  then have u: "uint (of_nat n :: 'a word) = int n"
    by (simp add: unsigned_of_nat take_bit_nat_eq_self flip: of_nat_power)
  then have "(of_nat n :: 'a word) \<le> w" using assms by (simp add: word_le_def)
  then show ?thesis using u by (simp add: uint_minus_simple_alt)
qed

lemma sint_uint_nonneg:
  fixes w :: "'a::len word"
  assumes "0 \<le> sint w"
  shows "sint w = uint w"
proof -
  have "sint w < 2 ^ (LENGTH('a) - 1)" by (rule sint_lt)
  also have "(2::int) ^ (LENGTH('a) - 1) \<le> 2 ^ LENGTH('a)" by (rule power_increasing) auto
  finally show ?thesis using assms by (simp add: uint_sint take_bit_int_eq_self)
qed

lemma unat_ucast_up:
  fixes w :: "'a::len word"
  assumes "LENGTH('a) \<le> LENGTH('b)"
  shows "unat (ucast w :: 'b::len word) = unat w"
proof -
  have "unat w < 2 ^ LENGTH('a)" by (rule unsigned_less)
  also have "(2::nat) ^ LENGTH('a) \<le> 2 ^ LENGTH('b)" using assms by (rule power_increasing) simp
  finally show ?thesis by (simp add: unsigned_ucast_eq take_bit_nat_eq_self)
qed

subsection \<open>Decimal numbers\<close>

text \<open>The conversion \<open>%d\<close>.\<close>

fun show_nat :: "nat \<Rightarrow> string" where
  "show_nat n = (if n < 10 then [char_of (48 + n)] else show_nat (n div 10) @ [char_of (48 + n mod 10)])"

declare show_nat.simps [simp del]

definition show_int :: "u32 \<Rightarrow> string" where
  "show_int w = (if sint w < 0 then CHR ''-'' # show_nat (nat (- sint w)) else show_nat (nat (sint w)))"

lemma length_show_nat: "n < 10 ^ k \<Longrightarrow> 0 < k \<Longrightarrow> length (show_nat n) \<le> k"
proof (induction n arbitrary: k rule: show_nat.induct)
  case (1 n)
  show ?case
  proof (cases "n < 10")
    case True
    then show ?thesis using 1 by (subst show_nat.simps) simp
  next
    case False
    then obtain j where j: "k = Suc j" "0 < j" using 1 by (cases k; cases "k - 1") auto
    then have "n div 10 < 10 ^ j" using "1.prems" by (simp add: less_mult_imp_div_less mult.commute)
    then show ?thesis using "1.IH" [OF False _ j(2)] False j(1) by (subst show_nat.simps) simp
  qed
qed

lemma length_show_int: "length (show_int w) \<le> 11"
proof -
  have "- (2 ^ 31) \<le> sint w" "sint w < 2 ^ 31" using sint_ge [of w] sint_lt [of w] by simp_all
  then have "nat (sint w) < 10 ^ 10" "nat (- sint w) < 10 ^ 10" by auto
  then have "length (show_nat (nat (sint w))) \<le> 10" "length (show_nat (nat (- sint w))) \<le> 10"
    using length_show_nat [of _ 10] by auto
  then show ?thesis by (simp add: show_int_def)
qed

end
