(* ===== verification/Util.thy ===== *)
theory Util
  imports Prelude
begin

section \<open>util.c: big-endian integers, varints and tokens\<close>

text \<open>
  The byte-order routines of \<open>src/db/src/libchidb/util.c\<close> and the macros of
  \<open>util.h\<close>. A pointer argument is a block of memory with an offset; the routines
  access it byte by byte, as the C does, and \<open>get4byte_eq\<close>, \<open>put4byte_eq\<close> and their
  kin say that they are one access of a fixed-width field.
\<close>

subsection \<open>Definitions\<close>

definition get2byte :: "bytes \<Rightarrow> int \<Rightarrow> u16 option" where
  "get2byte m p = do {
     b0 \<leftarrow> rd m p; b1 \<leftarrow> rd m (p + 1);
     Some (push_bit 8 (ucast b0) OR ucast b1) }"

definition put2byte :: "bytes \<Rightarrow> int \<Rightarrow> u16 \<Rightarrow> bytes option" where
  "put2byte m p v = do {
     m \<leftarrow> wr m p (ucast (drop_bit 8 v));
     wr m (p + 1) (ucast v) }"

definition get4byte :: "bytes \<Rightarrow> int \<Rightarrow> u32 option" where
  "get4byte m p = do {
     b0 \<leftarrow> rd m p; b1 \<leftarrow> rd m (p + 1); b2 \<leftarrow> rd m (p + 2); b3 \<leftarrow> rd m (p + 3);
     Some (push_bit 24 (ucast b0) OR push_bit 16 (ucast b1) OR push_bit 8 (ucast b2) OR ucast b3) }"

definition put4byte :: "bytes \<Rightarrow> int \<Rightarrow> u32 \<Rightarrow> bytes option" where
  "put4byte m p v = do {
     m \<leftarrow> wr m p (ucast (drop_bit 24 v));
     m \<leftarrow> wr m (p + 1) (ucast (drop_bit 16 v));
     m \<leftarrow> wr m (p + 2) (ucast (drop_bit 8 v));
     wr m (p + 3) (ucast v) }"

text \<open>The C reads the least significant byte first.\<close>

definition getVarint32 :: "bytes \<Rightarrow> int \<Rightarrow> u32 option" where
  "getVarint32 m p = do {
     b3 \<leftarrow> rd m (p + 3);
     v \<leftarrow> Some (ucast (b3 AND 0x7F));
     b2 \<leftarrow> rd m (p + 2);
     v \<leftarrow> Some (v OR push_bit 7 (ucast (b2 AND 0x7F)));
     b1 \<leftarrow> rd m (p + 1);
     v \<leftarrow> Some (v OR push_bit 14 (ucast (b1 AND 0x7F)));
     b0 \<leftarrow> rd m p;
     Some (v OR push_bit 21 (ucast (b0 AND 0x7F))) }"

text \<open>The word \<open>aux\<close> that \<open>putVarint32\<close> builds before it stores its bytes.\<close>

definition varint_aux :: "u32 \<Rightarrow> u32" where
  "varint_aux v =
     (v AND 0x0000007F)
     OR (push_bit 1 (v AND 0x00003F80) OR 0x00008000)
     OR (push_bit 2 (v AND 0x001FC000) OR 0x00800000)
     OR (push_bit 3 (v AND 0x0FE00000) OR 0x80000000)"

definition putVarint32 :: "bytes \<Rightarrow> int \<Rightarrow> u32 \<Rightarrow> bytes option" where
  "putVarint32 m p v = do {
     aux \<leftarrow> Some (varint_aux v);
     m \<leftarrow> wr m (p + 3) (ucast aux);
     m \<leftarrow> wr m (p + 2) (ucast (drop_bit 8 aux));
     m \<leftarrow> wr m (p + 1) (ucast (drop_bit 16 aux));
     wr m p (ucast (drop_bit 24 aux)) }"

subsection \<open>Fixed-width fields\<close>

text \<open>The bytes of a field and their value; used in proofs only.\<close>

definition enc2 :: "u16 \<Rightarrow> bytes" where
  "enc2 v = [ucast (drop_bit 8 v), ucast v]"

definition enc4 :: "u32 \<Rightarrow> bytes" where
  "enc4 v = [ucast (drop_bit 24 v), ucast (drop_bit 16 v), ucast (drop_bit 8 v), ucast v]"

definition encV :: "u32 \<Rightarrow> bytes" where
  "encV v = enc4 (varint_aux v)"

fun dec2 :: "bytes \<Rightarrow> u16 option" where
  "dec2 [b0, b1] = Some (push_bit 8 (ucast b0) OR ucast b1)"
| "dec2 _ = None"

fun dec4 :: "bytes \<Rightarrow> u32 option" where
  "dec4 [b0, b1, b2, b3] =
     Some (push_bit 24 (ucast b0) OR push_bit 16 (ucast b1) OR push_bit 8 (ucast b2) OR ucast b3)"
| "dec4 _ = None"

fun decV :: "bytes \<Rightarrow> u32 option" where
  "decV [b0, b1, b2, b3] =
     Some (ucast (b3 AND 0x7F) OR push_bit 7 (ucast (b2 AND 0x7F))
           OR push_bit 14 (ucast (b1 AND 0x7F)) OR push_bit 21 (ucast (b0 AND 0x7F)))"
| "decV _ = None"

lemma length_enc [simp]: "length (enc2 v2) = 2" "length (enc4 v4) = 4" "length (encV v4) = 4"
  by (simp_all add: enc2_def enc4_def encV_def)

lemma dec2_enc2 [simp]: "dec2 (enc2 v) = Some v"
  by (auto simp: enc2_def intro!: bit_word_eqI) (auto simp: bit_simps)

text \<open>A bit index of a 32-bit word is in one of its four bytes, or one of five groups of seven bits.\<close>

lemma byte_cases:
  fixes n :: nat
  assumes "n < 32"
  obtains "n < 8" | "8 \<le> n" "n < 16" | "16 \<le> n" "n < 24" | "24 \<le> n" "n < 32"
  using assms by linarith

text \<open>The masks of \<open>putVarint32\<close>, as shifted runs of ones.\<close>

lemma varint_masks:
  "(0x7F :: u8) = mask 7" "(0x7F :: u32) = mask 7" "(0x00003F80 :: u32) = push_bit 7 (mask 7)"
  "(0x001FC000 :: u32) = push_bit 14 (mask 7)" "(0x0FE00000 :: u32) = push_bit 21 (mask 7)"
  "(0x00008000 :: u32) = push_bit 15 1" "(0x00800000 :: u32) = push_bit 23 1"
  "(0x80000000 :: u32) = push_bit 31 1"
  by (simp_all add: mask_eq_exp_minus_1 push_bit_eq_mult)

lemma dec4_enc4 [simp]: "dec4 (enc4 v) = Some v"
proof -
  have "push_bit 24 (ucast (ucast (drop_bit 24 v) :: u8)) OR push_bit 16 (ucast (ucast (drop_bit 16 v) :: u8))
      OR push_bit 8 (ucast (ucast (drop_bit 8 v) :: u8)) OR ucast (ucast v :: u8) = v" (is "?l = v")
  proof (rule bit_word_eqI)
    fix n assume "n < LENGTH(32)"
    then have "n < 32" by simp
    then show "bit ?l n = bit v n" by (cases rule: byte_cases) (auto simp: bit_simps)
  qed
  then show ?thesis by (simp add: enc4_def)
qed

text \<open>
  A varint field holds seven bits in each of its four bytes: the value is kept up to
  \<open>2 ^ 28\<close>, and the top four bits of a larger one are lost.
\<close>

lemma bit_varint_aux:
  assumes "m < 7"
  shows "bit (varint_aux v) m = bit v m" "bit (varint_aux v) (8 + m) = bit v (7 + m)"
    "bit (varint_aux v) (16 + m) = bit v (14 + m)" "bit (varint_aux v) (24 + m) = bit v (21 + m)"
  using assms unfolding varint_aux_def varint_masks
  by (simp_all only: bit_or_iff bit_push_bit_iff bit_and_iff bit_mask_iff bit_1_iff)
    (auto simp: bit_simps)

text \<open>The \<open>j\<close>-th group of seven bits, as \<open>getVarint32\<close> takes it from its byte.\<close>

lemma septet_bit:
  fixes a :: u32
  assumes "j \<le> 3"
  shows "bit (push_bit (7 * j) (ucast ((ucast (drop_bit (8 * j) a) :: u8) AND mask 7)) :: u32) n
    \<longleftrightarrow> 7 * j \<le> n \<and> n < 7 * j + 7 \<and> bit a (8 * j + (n - 7 * j))"
  using assms by (auto simp: bit_simps)

lemma septet_index:
  fixes n :: nat
  obtains m where "m < 7" "n = m" | m where "m < 7" "n = 7 + m" | m where "m < 7" "n = 14 + m"
    | m where "m < 7" "n = 21 + m" | "28 \<le> n"
proof -
  consider "n < 7" | "7 \<le> n" "n < 14" | "14 \<le> n" "n < 21" | "21 \<le> n" "n < 28" | "28 \<le> n"
    by linarith
  then show thesis
  proof cases
    case 1 then show ?thesis using that(1) by simp
  next
    case 2 then show ?thesis using that(2) [of "n - 7"] by simp
  next
    case 3 then show ?thesis using that(3) [of "n - 14"] by simp
  next
    case 4 then show ?thesis using that(4) [of "n - 21"] by simp
  next
    case 5 then show ?thesis using that(5) by simp
  qed
qed

lemma decV_encV: "decV (encV v) = Some (v AND mask 28)"
proof -
  let ?f = "\<lambda>j. push_bit (7 * j) (ucast ((ucast (drop_bit (8 * j) (varint_aux v)) :: u8) AND mask 7)) :: u32"
  have "?f 0 OR ?f 1 OR ?f 2 OR ?f 3 = v AND mask 28" (is "?l = ?r")
  proof (rule bit_word_eqI)
    fix n
    have "bit ?l n = (bit (?f 0) n \<or> bit (?f 1) n \<or> bit (?f 2) n \<or> bit (?f 3) n)"
      by (simp only: bit_or_iff)
    also have "\<dots> = bit ?r n"
      by (cases n rule: septet_index)
        (simp_all only: septet_bit, simp_all add: bit_varint_aux bit_simps)
    finally show "bit ?l n = bit ?r n" .
  qed
  then show ?thesis by (simp add: encV_def enc4_def varint_masks)
qed

lemma decV_encV_small [simp]:
  assumes "unat v < 2 ^ 28"
  shows "decV (encV v) = Some v"
proof -
  have "take_bit 28 v = v"
    using assms by (simp add: word_unat_eq_iff unsigned_take_bit_eq take_bit_nat_eq_self)
  then show ?thesis by (simp add: decV_encV flip: take_bit_eq_mask)
qed

subsection \<open>The routines as accesses of a field\<close>

lemma get2byte_eq: "get2byte m p = Option.bind (mem_get m p 2) dec2"
  by (simp add: get2byte_def eval_nat_numeral mem_get_Suc) (auto simp: rd_def Option.bind_eq_None_conv)

lemma get4byte_eq: "get4byte m p = Option.bind (mem_get m p 4) dec4"
  by (simp add: get4byte_def eval_nat_numeral mem_get_Suc add.assoc) (auto simp: rd_def)

lemma getVarint32_eq: "getVarint32 m p = Option.bind (mem_get m p 4) decV"
  by (simp add: getVarint32_def eval_nat_numeral mem_get_Suc add.assoc) (auto simp: rd_def ac_simps)

lemma put2byte_eq: "put2byte m p v = mem_put m p (enc2 v)"
  by (simp add: put2byte_def enc2_def mem_put_Cons mem_put_Nil) (auto simp: wr_def)

lemma put4byte_eq: "put4byte m p v = mem_put m p (enc4 v)"
  by (simp add: put4byte_def enc4_def mem_put_Cons mem_put_Nil add.assoc) (auto simp: wr_def)

lemma putVarint32_eq: "putVarint32 m p v = mem_put m p (encV v)"
proof (cases "0 \<le> p \<and> nat p + 4 \<le> length m")
  case True
  then show ?thesis
    by (simp add: putVarint32_def encV_def enc4_def mem_put_Cons mem_put_Nil wr_def nat_add_distrib)
      (auto simp: nth_list_update intro!: nth_equalityI)
next
  case False
  then show ?thesis by (auto simp: putVarint32_def encV_def enc4_def mem_put_def wr_def)
qed

lemmas field_eqs = get2byte_eq get4byte_eq getVarint32_eq put2byte_eq put4byte_eq putVarint32_eq

text \<open>What is stored in a field is read back, and the read of any other field is unchanged.\<close>

lemma get2byte_put2byte [mem_simps]: "put2byte m p v = Some m' \<Longrightarrow> get2byte m' p = Some v"
  by (simp add: field_eqs mem_get_put_same)

lemma get4byte_put4byte [mem_simps]: "put4byte m p v = Some m' \<Longrightarrow> get4byte m' p = Some v"
  by (simp add: field_eqs mem_get_put_same)

lemma getVarint32_putVarint32 [mem_simps]:
  "putVarint32 m p v = Some m' \<Longrightarrow> getVarint32 m' p = Some (v AND mask 28)"
  by (simp add: field_eqs mem_get_put_same decV_encV)

end
