(* ===== verification/Codes.thy ===== *)
theory Codes
  imports Prelude
begin

section \<open>chidb.h, chidbInt.h: return codes and sizes\<close>

text \<open>
  The public return codes of \<open>src/db/include/chidb/chidb.h\<close> and the private ones of
  \<open>src/db/src/libchidb/chidbInt.h\<close>. They are C macros, so several private codes share
  the number of a public one; the model keeps the numbers.
\<close>

definition CHIDB_OK :: int where [simp]: "CHIDB_OK = 0"
definition CHIDB_EINVALIDSQL :: int where [simp]: "CHIDB_EINVALIDSQL = 1"
definition CHIDB_ENOMEM :: int where [simp]: "CHIDB_ENOMEM = 2"
definition CHIDB_ECANTOPEN :: int where [simp]: "CHIDB_ECANTOPEN = 3"
definition CHIDB_ECORRUPT :: int where [simp]: "CHIDB_ECORRUPT = 4"
definition CHIDB_ECONSTRAINT :: int where [simp]: "CHIDB_ECONSTRAINT = 5"
definition CHIDB_EMISMATCH :: int where [simp]: "CHIDB_EMISMATCH = 6"
definition CHIDB_EIO :: int where [simp]: "CHIDB_EIO = 7"
definition CHIDB_EMISUSE :: int where [simp]: "CHIDB_EMISUSE = 8"
definition CHIDB_ROW :: int where [simp]: "CHIDB_ROW = 100"
definition CHIDB_DONE :: int where [simp]: "CHIDB_DONE = 101"

definition CHIDB_NOHEADER :: int where [simp]: "CHIDB_NOHEADER = 1"
definition CHIDB_EPAGENO :: int where [simp]: "CHIDB_EPAGENO = 4"
definition CHIDB_ECELLNO :: int where [simp]: "CHIDB_ECELLNO = 5"
definition CHIDB_ECORRUPTHEADER :: int where [simp]: "CHIDB_ECORRUPTHEADER = 6"
definition CHIDB_ENOTFOUND :: int where [simp]: "CHIDB_ENOTFOUND = 9"
definition CHIDB_EDUPLICATE :: int where [simp]: "CHIDB_EDUPLICATE = 8"
definition CHIDB_EPARSE :: int where [simp]: "CHIDB_EPARSE = 10"

definition DEFAULT_PAGE_SIZE :: nat where [simp]: "DEFAULT_PAGE_SIZE = 1024"

end
