(* ===== verification/Records.thy ===== *)
theory Records
  imports Util Codes
begin

section \<open>record.c: database records\<close>

text \<open>
  The records of \<open>src/db/src/libchidb/record.c\<close>: a builder (\<open>DBRecordBuffer\<close>), the packed
  byte format of a table row, and the accessors. \<open>malloc\<close> succeeds; the content of the
  memory it returns is the argument \<open>junk\<close>, so that no property can depend on it. A C
  string is the block that holds it, its terminating zero included.
\<close>

subsection \<open>State\<close>

definition SQL_NOTVALID :: int where [simp]: "SQL_NOTVALID = -1"
definition SQL_NULL :: u32 where [simp]: "SQL_NULL = 0"
definition SQL_INTEGER_1BYTE :: u32 where [simp]: "SQL_INTEGER_1BYTE = 1"
definition SQL_INTEGER_2BYTE :: u32 where [simp]: "SQL_INTEGER_2BYTE = 2"
definition SQL_INTEGER_4BYTE :: u32 where [simp]: "SQL_INTEGER_4BYTE = 4"
definition SQL_TEXT :: u32 where [simp]: "SQL_TEXT = 13"

record DBRecord =
  dr_data :: bytes
  dr_data_len :: u32
  dr_nfields :: u8
  dr_packed_len :: u32
  dr_types :: "u32 list"
  dr_offsets :: "u32 list"

record DBRecordBuffer =
  rb_dbr :: DBRecord
  rb_buf_size :: u16
  rb_field :: u8
  rb_offset :: u32
  rb_header_size :: u8

definition malloc :: "(nat \<Rightarrow> 'a) \<Rightarrow> nat \<Rightarrow> 'a list" where
  "malloc junk n = map junk [0..<n]"

definition realloc :: "(nat \<Rightarrow> 'a) \<Rightarrow> 'a list \<Rightarrow> nat \<Rightarrow> 'a list" where
  "realloc junk m n = take n m @ map junk [length m..<n]"

definition get_at :: "'a list \<Rightarrow> nat \<Rightarrow> 'a option" where
  "get_at xs i = (if i < length xs then Some (xs ! i) else None)"

definition set_at :: "'a list \<Rightarrow> nat \<Rightarrow> 'a \<Rightarrow> 'a list option" where
  "set_at xs i x = (if i < length xs then Some (xs[i := x]) else None)"

definition strlen :: "bytes \<Rightarrow> nat option" where
  "strlen s = (if 0 \<in> set s then Some (length (takeWhile (\<lambda>b. b \<noteq> 0) s)) else None)"

subsection \<open>Building a record\<close>

definition chidb_DBRecord_create_empty ::
  "(nat \<Rightarrow> u8) \<Rightarrow> (nat \<Rightarrow> u32) \<Rightarrow> DBRecord \<Rightarrow> u8 \<Rightarrow> int \<times> DBRecordBuffer" where
  "chidb_DBRecord_create_empty junk junk4 dbr nfields =
     (CHIDB_OK,
      \<lparr>rb_dbr = dbr\<lparr>dr_nfields := nfields, dr_types := malloc junk4 (unat nfields),
                    dr_offsets := malloc junk4 (unat nfields), dr_data := malloc junk 1024\<rparr>,
       rb_buf_size = 1024, rb_field = 0, rb_offset = 0, rb_header_size = 1\<rparr>)"

text \<open>The common steps of the append functions: note the offset of the next field, grow the
  buffer by 1024 bytes when \<open>n\<close> more do not fit, set the type of the field.\<close>

definition set_offset :: "u32 \<Rightarrow> DBRecordBuffer \<Rightarrow> DBRecordBuffer option" where
  "set_offset v b = do {
     offsets \<leftarrow> set_at (dr_offsets (rb_dbr b)) (unat (rb_field b)) v;
     Some (b\<lparr>rb_dbr := (rb_dbr b)\<lparr>dr_offsets := offsets\<rparr>\<rparr>) }"

definition set_type :: "u32 \<Rightarrow> DBRecordBuffer \<Rightarrow> DBRecordBuffer option" where
  "set_type v b = do {
     types \<leftarrow> set_at (dr_types (rb_dbr b)) (unat (rb_field b)) v;
     Some (b\<lparr>rb_dbr := (rb_dbr b)\<lparr>dr_types := types\<rparr>\<rparr>) }"

definition grow :: "(nat \<Rightarrow> u8) \<Rightarrow> u32 \<Rightarrow> DBRecordBuffer \<Rightarrow> DBRecordBuffer" where
  "grow junk n b =
     (if rb_offset b + n > ucast (rb_buf_size b)
      then let sz = rb_buf_size b + 1024
           in b\<lparr>rb_buf_size := sz,
                rb_dbr := (rb_dbr b)\<lparr>dr_data := realloc junk (dr_data (rb_dbr b)) (unat sz)\<rparr>\<rparr>
      else b)"

definition set_bytes :: "bytes \<Rightarrow> DBRecordBuffer \<Rightarrow> DBRecordBuffer" where
  "set_bytes m b = b\<lparr>rb_dbr := (rb_dbr b)\<lparr>dr_data := m\<rparr>\<rparr>"

definition chidb_DBRecord_appendInt8 ::
  "(nat \<Rightarrow> u8) \<Rightarrow> DBRecordBuffer \<Rightarrow> u8 \<Rightarrow> (int \<times> DBRecordBuffer) option" where
  "chidb_DBRecord_appendInt8 junk b v = do {
     b \<leftarrow> set_offset (rb_offset b) b;
     b \<leftarrow> set_type SQL_INTEGER_1BYTE b;
     let b = grow junk 1 b;
     m \<leftarrow> wr (dr_data (rb_dbr b)) (uint (rb_offset b)) v;
     let b = set_bytes m b;
     Some (CHIDB_OK, b\<lparr>rb_offset := rb_offset b + 1, rb_header_size := rb_header_size b + 1,
                      rb_field := rb_field b + 1\<rparr>) }"

definition chidb_DBRecord_appendInt16 ::
  "(nat \<Rightarrow> u8) \<Rightarrow> DBRecordBuffer \<Rightarrow> u16 \<Rightarrow> (int \<times> DBRecordBuffer) option" where
  "chidb_DBRecord_appendInt16 junk b v = do {
     b \<leftarrow> set_offset (rb_offset b) b;
     b \<leftarrow> set_type SQL_INTEGER_2BYTE b;
     let b = grow junk 2 b;
     m \<leftarrow> put2byte (dr_data (rb_dbr b)) (uint (rb_offset b)) v;
     let b = set_bytes m b;
     Some (CHIDB_OK, b\<lparr>rb_offset := rb_offset b + 2, rb_header_size := rb_header_size b + 1,
                      rb_field := rb_field b + 1\<rparr>) }"

definition chidb_DBRecord_appendInt32 ::
  "(nat \<Rightarrow> u8) \<Rightarrow> DBRecordBuffer \<Rightarrow> u32 \<Rightarrow> (int \<times> DBRecordBuffer) option" where
  "chidb_DBRecord_appendInt32 junk b v = do {
     b \<leftarrow> set_offset (rb_offset b) b;
     b \<leftarrow> set_type SQL_INTEGER_4BYTE b;
     let b = grow junk 4 b;
     m \<leftarrow> put4byte (dr_data (rb_dbr b)) (uint (rb_offset b)) v;
     let b = set_bytes m b;
     Some (CHIDB_OK, b\<lparr>rb_offset := rb_offset b + 4, rb_header_size := rb_header_size b + 1,
                      rb_field := rb_field b + 1\<rparr>) }"

definition chidb_DBRecord_appendNull :: "DBRecordBuffer \<Rightarrow> (int \<times> DBRecordBuffer) option" where
  "chidb_DBRecord_appendNull b = do {
     b \<leftarrow> set_offset 0 b;
     b \<leftarrow> set_type SQL_NULL b;
     Some (CHIDB_OK, b\<lparr>rb_field := rb_field b + 1, rb_header_size := rb_header_size b + 1\<rparr>) }"

definition chidb_DBRecord_appendString ::
  "(nat \<Rightarrow> u8) \<Rightarrow> DBRecordBuffer \<Rightarrow> bytes \<Rightarrow> (int \<times> DBRecordBuffer) option" where
  "chidb_DBRecord_appendString junk b v = do {
     b \<leftarrow> set_offset (rb_offset b) b;
     len \<leftarrow> strlen v;
     let b = grow junk (of_nat len) b;
     m \<leftarrow> mem_put (dr_data (rb_dbr b)) (uint (rb_offset b)) (take len v);
     let b = set_bytes m b;
     let b = b\<lparr>rb_offset := rb_offset b + of_nat len\<rparr>;
     b \<leftarrow> set_type (of_nat len * 2 + SQL_TEXT) b;
     Some (CHIDB_OK, b\<lparr>rb_field := rb_field b + 1, rb_header_size := rb_header_size b + 4\<rparr>) }"

definition chidb_DBRecord_finalize :: "(nat \<Rightarrow> u8) \<Rightarrow> DBRecordBuffer \<Rightarrow> int \<times> DBRecord" where
  "chidb_DBRecord_finalize junk b =
     (CHIDB_OK, (rb_dbr b)\<lparr>dr_nfields := rb_field b,
        dr_data := realloc junk (dr_data (rb_dbr b)) (unat (rb_offset b)),
        dr_data_len := rb_offset b, dr_packed_len := ucast (rb_header_size b) + rb_offset b\<rparr>)"

subsection \<open>Accessors\<close>

definition chidb_DBRecord_getType :: "DBRecord \<Rightarrow> u8 \<Rightarrow> int option" where
  "chidb_DBRecord_getType dbr field = do {
     t \<leftarrow> get_at (dr_types dbr) (unat field);
     Some (if t = SQL_NULL \<or> t = SQL_INTEGER_1BYTE \<or> t = SQL_INTEGER_2BYTE \<or> t = SQL_INTEGER_4BYTE
           then sint t
           else if (t - SQL_TEXT) mod 2 = 0 then sint SQL_TEXT
           else SQL_NOTVALID) }"

definition chidb_DBRecord_getInt8 :: "DBRecord \<Rightarrow> u8 \<Rightarrow> (int \<times> u8) option" where
  "chidb_DBRecord_getInt8 dbr field = do {
     off \<leftarrow> get_at (dr_offsets dbr) (unat field);
     v \<leftarrow> rd (dr_data dbr) (uint off);
     Some (CHIDB_OK, v) }"

definition chidb_DBRecord_getInt16 :: "DBRecord \<Rightarrow> u8 \<Rightarrow> (int \<times> u16) option" where
  "chidb_DBRecord_getInt16 dbr field = do {
     off \<leftarrow> get_at (dr_offsets dbr) (unat field);
     v \<leftarrow> get2byte (dr_data dbr) (uint off);
     Some (CHIDB_OK, v) }"

definition chidb_DBRecord_getInt32 :: "DBRecord \<Rightarrow> u8 \<Rightarrow> (int \<times> u32) option" where
  "chidb_DBRecord_getInt32 dbr field = do {
     off \<leftarrow> get_at (dr_offsets dbr) (unat field);
     v \<leftarrow> get4byte (dr_data dbr) (uint off);
     Some (CHIDB_OK, v) }"

text \<open>The length is computed in unsigned arithmetic and stored in an \<open>int\<close>.\<close>

definition chidb_DBRecord_getStringLength :: "DBRecord \<Rightarrow> u8 \<Rightarrow> (int \<times> int) option" where
  "chidb_DBRecord_getStringLength dbr field = do {
     t \<leftarrow> get_at (dr_types dbr) (unat field);
     Some (CHIDB_OK, sint ((t - 13) div 2)) }"

definition chidb_DBRecord_getString :: "DBRecord \<Rightarrow> u8 \<Rightarrow> (int \<times> bytes) option" where
  "chidb_DBRecord_getString dbr field = do {
     (_, len) \<leftarrow> chidb_DBRecord_getStringLength dbr field;
     off \<leftarrow> get_at (dr_offsets dbr) (unat field);
     s \<leftarrow> mem_get (dr_data dbr) (uint off) (nat len);
     Some (CHIDB_OK, s @ [0]) }"

subsection \<open>Packing and unpacking\<close>

text \<open>The loop over the fields that writes the header.\<close>

fun pack_header :: "DBRecord \<Rightarrow> nat list \<Rightarrow> u8 \<Rightarrow> bytes \<Rightarrow> bytes option" where
  "pack_header dbr [] header_pos p = Some p"
| "pack_header dbr (i # is) header_pos p = do {
     ty \<leftarrow> chidb_DBRecord_getType dbr (of_nat i);
     t \<leftarrow> get_at (dr_types dbr) i;
     if ty = sint SQL_TEXT then do {
       p \<leftarrow> putVarint32 p (uint header_pos) t;
       pack_header dbr is (header_pos + 4) p }
     else do {
       p \<leftarrow> wr p (uint header_pos) (ucast t);
       pack_header dbr is (header_pos + 1) p } }"

definition chidb_DBRecord_pack :: "(nat \<Rightarrow> u8) \<Rightarrow> DBRecord \<Rightarrow> (int \<times> bytes) option" where
  "chidb_DBRecord_pack junk dbr = do {
     let p = malloc junk (unat (dr_packed_len dbr));
     p \<leftarrow> wr p 0 (ucast (dr_packed_len dbr - dr_data_len dbr));
     p \<leftarrow> pack_header dbr [0..<unat (dr_nfields dbr)] 1 p;
     h \<leftarrow> rd p 0;
     d \<leftarrow> mem_get (dr_data dbr) 0 (unat (dr_data_len dbr));
     p \<leftarrow> mem_put p (uint h) d;
     Some (CHIDB_OK, p) }"

text \<open>The loop over the header. Its counters have eight bits, so a header near the largest
  size can send it around; it then runs out of the 255 types it has room for.\<close>

partial_function (option) unpack_header ::
  "bytes \<Rightarrow> u8 \<Rightarrow> u8 \<Rightarrow> u32 list \<Rightarrow> u8 \<Rightarrow> (u32 list \<times> u8) option" where
  "unpack_header raw header_size header_pos types nfields =
     (if header_pos < header_size then do {
        b \<leftarrow> rd raw (uint header_pos);
        if b AND 0x80 \<noteq> 0 then do {
          v \<leftarrow> getVarint32 raw (uint header_pos);
          types \<leftarrow> set_at types (unat nfields) v;
          unpack_header raw header_size (header_pos + 4) types (nfields + 1) }
        else do {
          types \<leftarrow> set_at types (unat nfields) (ucast b);
          unpack_header raw header_size (header_pos + 1) types (nfields + 1) } }
      else Some (types, nfields))"

declare unpack_header.simps [code]

text \<open>The loop that computes the offset of each field.\<close>

fun unpack_offsets :: "DBRecord \<Rightarrow> nat list \<Rightarrow> u32 \<Rightarrow> (DBRecord \<times> u32) option" where
  "unpack_offsets dbr [] offset = Some (dbr, offset)"
| "unpack_offsets dbr (i # is) offset = do {
     offsets \<leftarrow> set_at (dr_offsets dbr) i offset;
     let dbr = dbr\<lparr>dr_offsets := offsets\<rparr>;
     ty \<leftarrow> chidb_DBRecord_getType dbr (of_nat i);
     if ty = sint SQL_NULL then unpack_offsets dbr is offset
     else if ty = sint SQL_INTEGER_1BYTE then unpack_offsets dbr is (offset + 1)
     else if ty = sint SQL_INTEGER_2BYTE then unpack_offsets dbr is (offset + 2)
     else if ty = sint SQL_INTEGER_4BYTE then unpack_offsets dbr is (offset + 4)
     else if ty = sint SQL_TEXT then do {
       (_, len) \<leftarrow> chidb_DBRecord_getStringLength dbr (of_nat i);
       unpack_offsets dbr is (offset + word_of_int len) }
     else unpack_offsets dbr is offset }"

definition chidb_DBRecord_unpack :: "(nat \<Rightarrow> u32) \<Rightarrow> bytes \<Rightarrow> (int \<times> DBRecord) option" where
  "chidb_DBRecord_unpack junk4 raw = do {
     header_size \<leftarrow> rd raw 0;
     (types, nfields) \<leftarrow> unpack_header raw header_size 1 (malloc junk4 255) 0;
     let dbr = \<lparr>dr_data = [], dr_data_len = 0, dr_nfields = nfields, dr_packed_len = 0,
                dr_types = realloc junk4 types (unat nfields),
                dr_offsets = malloc junk4 (unat nfields)\<rparr>;
     (dbr, offset) \<leftarrow> unpack_offsets dbr [0..<unat nfields] 0;
     d \<leftarrow> mem_get raw (uint header_size) (unat offset);
     Some (CHIDB_OK, dbr\<lparr>dr_data_len := offset, dr_packed_len := ucast header_size + offset,
                        dr_data := d\<rparr>) }"

subsection \<open>Printing, and building from a specification\<close>

text \<open>What \<open>chidb_DBRecord_print\<close> prints for each field; the narrow integers are printed unsigned.\<close>

datatype printed = PrintNull | PrintInt int | PrintStr bytes

fun print_fields :: "DBRecord \<Rightarrow> nat list \<Rightarrow> printed list option" where
  "print_fields dbr [] = Some []"
| "print_fields dbr (i # is) = do {
     ty \<leftarrow> chidb_DBRecord_getType dbr (of_nat i);
     out \<leftarrow>
       (if ty = sint SQL_NULL then Some [PrintNull]
        else if ty = sint SQL_INTEGER_1BYTE then do {
          (_, v) \<leftarrow> chidb_DBRecord_getInt8 dbr (of_nat i); Some [PrintInt (uint v)] }
        else if ty = sint SQL_INTEGER_2BYTE then do {
          (_, v) \<leftarrow> chidb_DBRecord_getInt16 dbr (of_nat i); Some [PrintInt (uint v)] }
        else if ty = sint SQL_INTEGER_4BYTE then do {
          (_, v) \<leftarrow> chidb_DBRecord_getInt32 dbr (of_nat i); Some [PrintInt (sint v)] }
        else if ty = sint SQL_TEXT then do {
          (_, s) \<leftarrow> chidb_DBRecord_getString dbr (of_nat i);
          n \<leftarrow> strlen s;
          Some [PrintStr (take n s)] }
        else Some []);
     rest \<leftarrow> print_fields dbr is;
     Some (out @ rest) }"

definition chidb_DBRecord_print :: "DBRecord \<Rightarrow> (int \<times> printed list) option" where
  "chidb_DBRecord_print dbr = do {
     out \<leftarrow> print_fields dbr [0..<unat (dr_nfields dbr)];
     Some (CHIDB_OK, out) }"

text \<open>The variable arguments of \<open>chidb_DBRecord_create\<close>; reading one at another type than it
  was passed with is undefined.\<close>

datatype va_arg = VaInt int | VaStr bytes

fun create_loop ::
  "(nat \<Rightarrow> u8) \<Rightarrow> string \<Rightarrow> va_arg list \<Rightarrow> DBRecordBuffer \<Rightarrow> DBRecordBuffer option" where
  "create_loop junk [] args b = Some b"
| "create_loop junk (c # spec) args b =
     (if c = CHR ''i'' then
        (case spec of
           [] \<Rightarrow> None
         | intsize # spec \<Rightarrow>
             if intsize = CHR ''1'' then
               (case args of VaInt v # args \<Rightarrow> do {
                  (_, b) \<leftarrow> chidb_DBRecord_appendInt8 junk b (word_of_int v);
                  create_loop junk spec args b } | _ \<Rightarrow> None)
             else if intsize = CHR ''2'' then
               (case args of VaInt v # args \<Rightarrow> do {
                  (_, b) \<leftarrow> chidb_DBRecord_appendInt16 junk b (word_of_int v);
                  create_loop junk spec args b } | _ \<Rightarrow> None)
             else if intsize = CHR ''4'' then
               (case args of VaInt v # args \<Rightarrow> do {
                  (_, b) \<leftarrow> chidb_DBRecord_appendInt32 junk b (word_of_int v);
                  create_loop junk spec args b } | _ \<Rightarrow> None)
             else create_loop junk spec args b)
      else if c = CHR ''0'' then do {
        (_, b) \<leftarrow> chidb_DBRecord_appendNull b;
        create_loop junk spec args b }
      else if c = CHR ''s'' then
        (case args of VaStr s # args \<Rightarrow> do {
           (_, b) \<leftarrow> chidb_DBRecord_appendString junk b s;
           create_loop junk spec args b } | _ \<Rightarrow> None)
      else create_loop junk spec args b)"

definition chidb_DBRecord_create ::
  "(nat \<Rightarrow> u8) \<Rightarrow> (nat \<Rightarrow> u32) \<Rightarrow> DBRecord \<Rightarrow> string \<Rightarrow> va_arg list \<Rightarrow> (int \<times> DBRecord) option" where
  "chidb_DBRecord_create junk junk4 dbr spec args = do {
     let nfields = of_nat (length (filter (\<lambda>c. c = CHR ''|'') spec)) - 1;
     b \<leftarrow> create_loop junk spec args (snd (chidb_DBRecord_create_empty junk junk4 dbr nfields));
     Some (chidb_DBRecord_finalize junk b) }"

end
