(* ===== verification/RecordRep.thy ===== *)
theory RecordRep
  imports Records
begin

section \<open>A record as a list of values\<close>

text \<open>
  The abstraction of a record is the list of its values. \<open>rec_ok dbr vs\<close> relates the two;
  the builder establishes it, packing and unpacking keep it, and the accessors read the
  values back.
\<close>

datatype sqlvalue = VNull | VInt8 u8 | VInt16 u16 | VInt32 u32 | VText bytes

fun vtype :: "sqlvalue \<Rightarrow> u32" where
  "vtype VNull = SQL_NULL"
| "vtype (VInt8 _) = SQL_INTEGER_1BYTE"
| "vtype (VInt16 _) = SQL_INTEGER_2BYTE"
| "vtype (VInt32 _) = SQL_INTEGER_4BYTE"
| "vtype (VText s) = of_nat (length s) * 2 + SQL_TEXT"

fun venc :: "sqlvalue \<Rightarrow> bytes" where
  "venc VNull = []"
| "venc (VInt8 v) = [v]"
| "venc (VInt16 v) = enc2 v"
| "venc (VInt32 v) = enc4 v"
| "venc (VText s) = s"

fun vhdr :: "sqlvalue \<Rightarrow> bytes" where
  "vhdr (VText s) = encV (vtype (VText s))"
| "vhdr v = [ucast (vtype v)]"

definition data_of :: "sqlvalue list \<Rightarrow> bytes" where
  "data_of vs = concat (map venc vs)"

definition hdr_of :: "sqlvalue list \<Rightarrow> bytes" where
  "hdr_of vs = concat (map vhdr vs)"

text \<open>The text the builder can take in: no zero byte, and never more than it grows by.\<close>

fun value_ok :: "sqlvalue \<Rightarrow> bool" where
  "value_ok (VText s) \<longleftrightarrow> 0 \<notin> set s \<and> length s \<le> 1024"
| "value_ok _ \<longleftrightarrow> True"

definition values_ok :: "sqlvalue list \<Rightarrow> bool" where
  "values_ok vs \<longleftrightarrow> list_all value_ok vs \<and> length vs \<le> 255 \<and> length (hdr_of vs) < 255 \<and>
     length (data_of vs) \<le> 64512"

definition rec_ok :: "DBRecord \<Rightarrow> sqlvalue list \<Rightarrow> bool" where
  "rec_ok dbr vs \<longleftrightarrow> values_ok vs \<and> unat (dr_nfields dbr) = length vs \<and>
     dr_types dbr = map vtype vs \<and> dr_data dbr = data_of vs \<and> length (dr_offsets dbr) = length vs \<and>
     (\<forall>i < length vs. vs ! i \<noteq> VNull \<longrightarrow> dr_offsets dbr ! i = of_nat (length (data_of (take i vs)))) \<and>
     dr_data_len dbr = of_nat (length (data_of vs)) \<and>
     dr_packed_len dbr = of_nat (1 + length (hdr_of vs) + length (data_of vs))"

lemma data_of_simps [simp]:
  "data_of [] = []" "data_of (v # vs) = venc v @ data_of vs" "data_of (vs @ ws) = data_of vs @ data_of ws"
  by (simp_all add: data_of_def)

lemma hdr_of_simps [simp]:
  "hdr_of [] = []" "hdr_of (v # vs) = vhdr v @ hdr_of vs" "hdr_of (vs @ ws) = hdr_of vs @ hdr_of ws"
  by (simp_all add: hdr_of_def)

lemma vhdr_pos: "0 < length (vhdr v)"
  by (cases v) auto

lemma get_at_nth: "i < length xs \<Longrightarrow> get_at xs i = Some (xs ! i)"
  by (simp add: get_at_def)

lemma set_at_nth: "i < length xs \<Longrightarrow> set_at xs i x = Some (xs[i := x])"
  by (simp add: set_at_def)

lemma length_malloc [simp]: "length (malloc junk n) = n"
  by (simp add: malloc_def)

lemma strlen_cstring [simp]: "0 \<notin> set s \<Longrightarrow> strlen (s @ [0]) = Some (length s)"
  by (auto simp: strlen_def takeWhile_tail intro!: arg_cong [of _ _ length] takeWhile_eq_all_conv [THEN iffD2])

subsection \<open>The builder\<close>

definition append_value ::
  "(nat \<Rightarrow> u8) \<Rightarrow> DBRecordBuffer \<Rightarrow> sqlvalue \<Rightarrow> (int \<times> DBRecordBuffer) option" where
  "append_value junk b v = (case v of
     VNull \<Rightarrow> chidb_DBRecord_appendNull b
   | VInt8 x \<Rightarrow> chidb_DBRecord_appendInt8 junk b x
   | VInt16 x \<Rightarrow> chidb_DBRecord_appendInt16 junk b x
   | VInt32 x \<Rightarrow> chidb_DBRecord_appendInt32 junk b x
   | VText s \<Rightarrow> chidb_DBRecord_appendString junk b (s @ [0]))"

fun append_values :: "(nat \<Rightarrow> u8) \<Rightarrow> DBRecordBuffer \<Rightarrow> sqlvalue list \<Rightarrow> DBRecordBuffer option" where
  "append_values junk b [] = Some b"
| "append_values junk b (v # vs) = do {
     (_, b) \<leftarrow> append_value junk b v;
     append_values junk b vs }"

definition buffer_ok :: "nat \<Rightarrow> sqlvalue list \<Rightarrow> DBRecordBuffer \<Rightarrow> bool" where
  "buffer_ok n vs b \<longleftrightarrow> (let r = rb_dbr b; k = length vs; o' = length (data_of vs) in
     values_ok vs \<and> k \<le> n \<and> n \<le> 255 \<and> unat (rb_field b) = k \<and>
     length (dr_types r) = n \<and> length (dr_offsets r) = n \<and> take k (dr_types r) = map vtype vs \<and>
     (\<forall>i < k. vs ! i \<noteq> VNull \<longrightarrow> dr_offsets r ! i = of_nat (length (data_of (take i vs)))) \<and>
     unat (rb_offset b) = o' \<and> take o' (dr_data r) = data_of vs \<and>
     length (dr_data r) = unat (rb_buf_size b) \<and> o' \<le> unat (rb_buf_size b) \<and>
     rb_header_size b = of_nat (1 + length (hdr_of vs)))"

lemma create_empty_ok:
  "buffer_ok (unat n) [] (snd (chidb_DBRecord_create_empty junk junk4 dbr n))"
  using unsigned_less [of n, where ?'a = nat]
  by (simp add: buffer_ok_def chidb_DBRecord_create_empty_def values_ok_def Let_def)

text \<open>Growing the buffer makes room for one more value and keeps what it holds.\<close>

lemma grow_ok:
  assumes off: "unat (rb_offset b) = k" and len: "length (dr_data (rb_dbr b)) = unat (rb_buf_size b)"
    and k: "k \<le> unat (rb_buf_size b)" and s: "s \<le> 1024" and tot: "k + s \<le> 64512"
  obtains m sz where "\<And>b'. rb_offset b' = rb_offset b \<Longrightarrow> rb_buf_size b' = rb_buf_size b \<Longrightarrow>
      dr_data (rb_dbr b') = dr_data (rb_dbr b) \<Longrightarrow>
      grow junk (of_nat s) b' = b'\<lparr>rb_buf_size := sz, rb_dbr := (rb_dbr b')\<lparr>dr_data := m\<rparr>\<rparr>"
    and "take k m = take k (dr_data (rb_dbr b))" and "length m = unat sz" and "k + s \<le> unat sz"
proof -
  have sum: "unat (rb_offset b + of_nat s) = k + s"
    using off tot by (simp add: unat_word_ariths unat_of_nat)
  have cmp: "rb_offset b + of_nat s > ucast (rb_buf_size b) \<longleftrightarrow> unat (rb_buf_size b) < k + s"
    by (simp add: word_less_nat_alt sum unat_ucast_up)
  have same: "b'\<lparr>rb_buf_size := rb_buf_size b', rb_dbr := (rb_dbr b')\<lparr>dr_data := dr_data (rb_dbr b')\<rparr>\<rparr> = b'" for b'
    by simp
  show ?thesis
  proof (cases "unat (rb_buf_size b) < k + s")
    case False
    then show ?thesis
      using len cmp same by (intro that [where sz = "rb_buf_size b" and m = "dr_data (rb_dbr b)"]) (auto simp: grow_def)
  next
    case True
    have sz: "unat (rb_buf_size b + 1024) = unat (rb_buf_size b) + 1024"
      using True tot by (simp add: unat_word_ariths)
    show ?thesis
      using True cmp sz len k s
      by (intro that [where sz = "rb_buf_size b + 1024" and m = "realloc junk (dr_data (rb_dbr b)) (unat (rb_buf_size b + 1024))"])
        (auto simp: grow_def realloc_def Let_def)
  qed
qed

lemma take_list_update_snoc:
  "k < length xs \<Longrightarrow> take k xs = ys \<Longrightarrow> take (Suc k) (xs[k := y]) = ys @ [y]"
  by (simp add: take_Suc_conv_app_nth)

lemma mem_put_snoc:
  assumes "take k m = xs" and "k + length ys \<le> length m" and "length xs = k"
  obtains m' where "mem_put m (int k) ys = Some m'" and "take (k + length ys) m' = xs @ ys"
    and "length m' = length m"
  using assms that [of "take k m @ ys @ drop (k + length ys) m"] by (auto simp: mem_put_def)

lemma append_ok:
  assumes b: "buffer_ok n vs b" and vs: "values_ok (vs @ [v])" and n: "length vs < n"
  obtains b' where "append_value junk b v = Some (CHIDB_OK, b')" and "buffer_ok n (vs @ [v]) b'"
proof -
  let ?k = "length vs" and ?o = "length (data_of vs)" and ?s = "length (venc v)"
  note B = b [unfolded buffer_ok_def Let_def]
  have v: "value_ok v" and s: "?s \<le> 1024" and tot: "?o + ?s \<le> 64512"
    using vs by (cases v; simp add: values_ok_def)+
  have k: "?k < 255" using B n by simp
  have off: "uint (rb_offset b) = int ?o" using B by (simp add: uint_of_unat)
  have setoff: "set_offset x b = Some (b\<lparr>rb_dbr := (rb_dbr b)\<lparr>dr_offsets := (dr_offsets (rb_dbr b))[?k := x]\<rparr>\<rparr>)" for x
    using B n by (simp add: set_offset_def set_at_def)
  obtain m sz where g: "\<And>b'. rb_offset b' = rb_offset b \<Longrightarrow> rb_buf_size b' = rb_buf_size b \<Longrightarrow>
      dr_data (rb_dbr b') = dr_data (rb_dbr b) \<Longrightarrow>
      grow junk (of_nat ?s) b' = b'\<lparr>rb_buf_size := sz, rb_dbr := (rb_dbr b')\<lparr>dr_data := m\<rparr>\<rparr>"
    and m: "take ?o m = data_of vs" "length m = unat sz" "?o + ?s \<le> unat sz"
    using grow_ok [of b ?o ?s junk] B s tot by (metis (full_types))
  obtain m' where m': "mem_put m (int ?o) (venc v) = Some m'" "take (?o + ?s) m' = data_of vs @ venc v"
    "length m' = length m"
    using mem_put_snoc [OF m(1), of "venc v"] m by auto
  have ftake: "take (Suc ?k) ((dr_types (rb_dbr b))[?k := vtype v]) = map vtype (vs @ [v])"
    using B n take_list_update_snoc [of ?k "dr_types (rb_dbr b)" "map vtype vs" "vtype v"] by simp
  have field: "unat (rb_field b + 1) = Suc ?k" using B k by (simp add: unat_word_ariths)
  have noff: "unat (rb_offset b + of_nat ?s) = ?o + ?s"
    using B tot by (simp add: unat_word_ariths unat_of_nat)
  have offs: "i < Suc ?k \<Longrightarrow> (vs @ [v]) ! i \<noteq> VNull \<Longrightarrow>
      (dr_offsets (rb_dbr b))[?k := rb_offset b] ! i = of_nat (length (data_of (take i (vs @ [v]))))" for i
    using B n tot by (cases "i = ?k") (auto simp: nth_append word_unat_eq_iff unat_of_nat)
  let ?b3 = "b\<lparr>rb_buf_size := sz, rb_field := rb_field b + 1, rb_offset := rb_offset b + of_nat ?s,
      rb_header_size := rb_header_size b + of_nat (length (vhdr v)),
      rb_dbr := (rb_dbr b)\<lparr>dr_offsets := (dr_offsets (rb_dbr b))[?k := rb_offset b],
         dr_types := (dr_types (rb_dbr b))[?k := vtype v], dr_data := m'\<rparr>\<rparr>"
  have ok3: "buffer_ok n (vs @ [v]) ?b3"
    using B vs n k m m' ftake field noff offs unfolding buffer_ok_def Let_def
    by (simp add: add.assoc [symmetric])
  show ?thesis
  proof (cases "v = VNull")
    case True
    let ?b4 = "b\<lparr>rb_field := rb_field b + 1, rb_header_size := rb_header_size b + 1,
      rb_dbr := (rb_dbr b)\<lparr>dr_offsets := (dr_offsets (rb_dbr b))[?k := 0],
         dr_types := (dr_types (rb_dbr b))[?k := 0]\<rparr>\<rparr>"
    have "append_value junk b v = Some (CHIDB_OK, ?b4)"
      using True setoff B n
      by (simp add: append_value_def chidb_DBRecord_appendNull_def set_type_def set_at_def)
    moreover have "buffer_ok n (vs @ [v]) ?b4"
      using True B vs n k ftake field unfolding buffer_ok_def Let_def
      by (auto simp: nth_append less_Suc_eq)
    ultimately show ?thesis using that by blast
  next
    case False
    have "append_value junk b v = Some (CHIDB_OK, ?b3)"
    proof (cases v)
      case (VInt8 x)
      then show ?thesis
        using setoff g m' B n off
        by (simp add: append_value_def chidb_DBRecord_appendInt8_def set_type_def set_at_def wr_eq_mem_put
            set_bytes_def Let_def)
    next
      case (VInt16 x)
      then show ?thesis
        using setoff g m' B n off
        by (simp add: append_value_def chidb_DBRecord_appendInt16_def set_type_def set_at_def put2byte_eq
            set_bytes_def Let_def)
    next
      case (VInt32 x)
      then show ?thesis
        using setoff g m' B n off
        by (simp add: append_value_def chidb_DBRecord_appendInt32_def set_type_def set_at_def put4byte_eq
            set_bytes_def Let_def)
    next
      case (VText s)
      then show ?thesis
        using setoff g m' B n off v
        by (simp add: append_value_def chidb_DBRecord_appendString_def set_type_def set_at_def
            set_bytes_def Let_def)
    qed (use False in simp)
    with ok3 that show ?thesis by blast
  qed
qed

lemma hdr_append_lt: "values_ok (vs @ v # ws) \<Longrightarrow> values_ok (vs @ [v])"
  by (simp add: values_ok_def)

lemma append_values_ok:
  "buffer_ok n vs b \<Longrightarrow> values_ok (vs @ ws) \<Longrightarrow> length vs + length ws \<le> n \<Longrightarrow>
   \<exists>b'. append_values junk b ws = Some b' \<and> buffer_ok n (vs @ ws) b'"
proof (induction ws arbitrary: vs b)
  case Nil
  then show ?case by simp
next
  case (Cons w ws)
  obtain b1 where b1: "append_value junk b w = Some (CHIDB_OK, b1)" "buffer_ok n (vs @ [w]) b1"
    using append_ok [OF Cons.prems(1) hdr_append_lt [OF Cons.prems(2)]] Cons.prems(3) by auto
  then show ?case using Cons.IH [OF b1(2)] Cons.prems by simp
qed

lemma finalize_ok:
  assumes b: "buffer_ok (length vs) vs b"
  shows "rec_ok (snd (chidb_DBRecord_finalize junk b)) vs"
proof -
  note B = b [unfolded buffer_ok_def Let_def]
  have h: "length (hdr_of vs) < 255" using B by (simp add: values_ok_def)
  have u: "unat (1 + of_nat (length (hdr_of vs)) :: u8) = 1 + length (hdr_of vs)"
    using h by (simp add: unat_word_ariths unat_of_nat)
  have "(ucast (rb_header_size b) :: u32) = of_nat (1 + length (hdr_of vs))"
    using B u h by (simp add: word_unat_eq_iff unat_ucast_up unat_word_ariths unat_of_nat)
  moreover have "rb_offset b = of_nat (length (data_of vs))"
    using B by (simp add: word_unat_eq_iff unat_of_nat values_ok_def)
  moreover have "dr_types (rb_dbr b) = map vtype vs" using B by (metis order_refl take_all)
  ultimately show ?thesis
    using B unfolding rec_ok_def chidb_DBRecord_finalize_def
    by (simp add: realloc_def)
qed

lemma build_ok:
  assumes "values_ok vs"
  obtains b where
    "append_values junk (snd (chidb_DBRecord_create_empty junk junk4 dbr (of_nat (length vs)))) vs = Some b"
    "rec_ok (snd (chidb_DBRecord_finalize junk b)) vs"
proof -
  have "unat (of_nat (length vs) :: u8) = length vs"
    using assms by (intro unat_of_nat_small) (simp add: values_ok_def)
  then show ?thesis
    using append_values_ok [OF create_empty_ok [of "of_nat (length vs)" junk junk4 dbr], of vs junk]
      assms finalize_ok [of vs _ junk] that by auto
qed

subsection \<open>Types\<close>

lemma text_len_small: "values_ok vs \<Longrightarrow> VText s \<in> set vs \<Longrightarrow> length s \<le> 1024"
  by (auto simp: values_ok_def list_all_iff)

lemma vtype_text:
  assumes "length s \<le> 1024"
  shows "unat (vtype (VText s)) = 2 * length s + 13"
  using assms by (simp add: unat_word_ariths unat_of_nat)

lemma getType_ok:
  assumes "get_at (dr_types dbr) (unat i) = Some (vtype v)" and "value_ok v"
  shows "chidb_DBRecord_getType dbr i = Some (case v of VNull \<Rightarrow> 0 | VInt8 _ \<Rightarrow> 1 | VInt16 _ \<Rightarrow> 2
    | VInt32 _ \<Rightarrow> 4 | VText _ \<Rightarrow> 13)"
proof (cases v)
  case (VText s)
  then have u: "unat (vtype v) = 2 * length s + 13" using assms(2) vtype_text [of s] by simp
  have "vtype v \<noteq> 0" "vtype v \<noteq> 1" "vtype v \<noteq> 2" "vtype v \<noteq> 4" using u by auto
  moreover have "unat (vtype v - 13) = 2 * length s"
    using u by (subst unat_sub) (simp_all add: word_le_nat_alt)
  then have "(vtype v - 13) mod 2 = 0" by (simp add: word_unat_eq_iff unat_mod)
  ultimately show ?thesis using assms(1) VText by (simp add: chidb_DBRecord_getType_def)
qed (use assms in \<open>simp_all add: chidb_DBRecord_getType_def\<close>)

lemma getStringLength_ok:
  assumes "get_at (dr_types dbr) (unat i) = Some (vtype (VText s))" and "length s \<le> 1024"
  shows "chidb_DBRecord_getStringLength dbr i = Some (CHIDB_OK, int (length s))"
proof -
  have "unat (vtype (VText s) - 13) = 2 * length s"
    using vtype_text [OF assms(2)] by (subst unat_sub) (simp_all add: word_le_nat_alt del: vtype.simps)
  then have "(vtype (VText s) - 13) div 2 = of_nat (length s)"
    using assms(2) by (simp add: word_unat_eq_iff unat_div unat_of_nat del: vtype.simps)
  moreover have "sint (of_nat (length s) :: u32) = int (length s)"
    using assms(2) by (simp add: signed_of_nat signed_take_bit_int_eq_self)
  ultimately show ?thesis using assms(1) by (simp add: chidb_DBRecord_getStringLength_def)
qed

subsection \<open>Packing\<close>

text \<open>Every type that is not a text fits in one byte of the header.\<close>

lemma pack_header_ok:
  assumes ty: "dr_types dbr = map vtype vs" and ok: "list_all value_ok vs" and n: "length vs \<le> 255"
  shows "drop j vs = ds \<Longrightarrow> unat pos + length (hdr_of ds) \<le> 255 \<Longrightarrow> unat pos \<le> length p \<Longrightarrow>
    pack_header dbr [j..<length vs] pos p = mem_put p (uint pos) (hdr_of ds)"
proof (induction ds arbitrary: j pos p)
  case Nil
  then show ?case by (simp add: mem_put_Nil)
next
  case (Cons v ds)
  have j: "j < length vs" "vs ! j = v" "drop (Suc j) vs = ds"
    using Cons.prems(1) by (metis drop_eq_Nil list.distinct(1) list.inject not_le_imp_less Cons_nth_drop_Suc)+
  have vok: "value_ok v" using ok j by (auto simp: list_all_length)
  have uj: "unat (of_nat j :: u8) = j" using j n by (intro unat_of_nat_small) simp
  have t: "get_at (dr_types dbr) j = Some (vtype v)" using ty j by (simp add: get_at_def)
  have ty: "chidb_DBRecord_getType dbr (of_nat j) = Some (case v of VNull \<Rightarrow> 0 | VInt8 _ \<Rightarrow> 1 | VInt16 _ \<Rightarrow> 2
    | VInt32 _ \<Rightarrow> 4 | VText _ \<Rightarrow> 13)"
    using getType_ok [of dbr "of_nat j" v] t vok uj by simp
  let ?h = "vhdr v" and ?l = "of_nat (length (vhdr v)) :: u8"
  have up: "unat (pos + ?l) = unat pos + length ?h"
    using Cons.prems(2) by (simp add: unat_word_ariths unat_of_nat)
  then have up': "uint (pos + ?l) = uint pos + int (length ?h)"
    using uint_of_unat [OF up] by simp
  have step: "pack_header dbr [j..<length vs] pos p = do {
      p \<leftarrow> mem_put p (uint pos) ?h; pack_header dbr [Suc j..<length vs] (pos + ?l) p }"
  proof (cases v)
    case VNull
    show ?thesis by (simp add: upt_conv_Cons [OF j(1)] t ty VNull wr_eq_mem_put)
  next
    case (VInt8 x)
    show ?thesis by (simp add: upt_conv_Cons [OF j(1)] t ty VInt8 wr_eq_mem_put)
  next
    case (VInt16 x)
    show ?thesis by (simp add: upt_conv_Cons [OF j(1)] t ty VInt16 wr_eq_mem_put)
  next
    case (VInt32 x)
    show ?thesis by (simp add: upt_conv_Cons [OF j(1)] t ty VInt32 wr_eq_mem_put)
  next
    case (VText x)
    show ?thesis by (simp add: upt_conv_Cons [OF j(1)] t ty VText putVarint32_eq)
  qed
  show ?case
  proof (cases "mem_put p (uint pos) ?h")
    case None
    then show ?thesis using step by (simp add: mem_put_append)
  next
    case (Some p')
    then have "unat pos + length ?h \<le> length p'"
      using mem_put_SomeD [OF Some] mem_put_length [OF Some] uint_of_unat [of pos, OF refl] by linarith
    then have "pack_header dbr [Suc j..<length vs] (pos + ?l) p' = mem_put p' (uint (pos + ?l)) (hdr_of ds)"
      using Cons.prems(2) up by (intro Cons.IH [OF j(3)]) auto
    then show ?thesis using step Some up' by (simp add: mem_put_append)
  qed
qed

lemma is_down_u8: "is_down (ucast :: u32 \<Rightarrow> u8)"
  by (simp add: is_down)

lemma mem_put_all: "length bs = length m \<Longrightarrow> mem_put m 0 bs = Some bs"
  by (simp add: mem_put_def)

definition packed :: "sqlvalue list \<Rightarrow> bytes" where
  "packed vs = of_nat (1 + length (hdr_of vs)) # hdr_of vs @ data_of vs"

lemma pack_ok:
  assumes rec: "rec_ok dbr vs"
  shows "chidb_DBRecord_pack junk dbr = Some (CHIDB_OK, packed vs)"
proof -
  note R = rec [unfolded rec_ok_def]
  let ?hs = "of_nat (1 + length (hdr_of vs)) :: u8"
  have v: "list_all value_ok vs" "length vs \<le> 255" "length (hdr_of vs) < 255" "length (data_of vs) \<le> 64512"
    using R by (auto simp: values_ok_def)
  have pl: "unat (dr_packed_len dbr) = 1 + length (hdr_of vs) + length (data_of vs)"
    and dl: "unat (dr_data_len dbr) = length (data_of vs)"
    using R v by (simp_all add: unat_of_nat unat_word_ariths)
  have hs: "(ucast (dr_packed_len dbr - dr_data_len dbr) :: u8) = ?hs"
  proof -
    have "dr_packed_len dbr - dr_data_len dbr = word_of_int (int (1 + length (hdr_of vs)))" using R by simp
    then show ?thesis by (simp only: ucast_down_wi is_down_u8) simp
  qed
  have uhs: "uint ?hs = int (1 + length (hdr_of vs))"
    using v by (intro uint_of_unat unat_of_nat_small) simp
  let ?p = "malloc junk (unat (dr_packed_len dbr))"
  have "mem_put ?p 0 (packed vs) = Some (packed vs)"
    using pl by (intro mem_put_all) (simp add: packed_def)
  then obtain p1 p2 where p1: "wr ?p 0 ?hs = Some p1" and p2: "mem_put p1 1 (hdr_of vs) = Some p2"
    and p3: "mem_put p2 (1 + int (length (hdr_of vs))) (data_of vs) = Some (packed vs)"
    by (auto simp: packed_def mem_put_Cons mem_put_append bind_Some_conv)
  have "length p1 = unat (dr_packed_len dbr)"
    using mem_put_length [OF p1 [unfolded wr_eq_mem_put]] by simp
  then have l1: "1 \<le> length p1" using pl by linarith
  have hdr: "pack_header dbr [0..<length vs] 1 p1 = Some p2"
    using pack_header_ok [of dbr vs 0 vs 1 p1] R v l1 p2 by simp
  have "rd p1 0 = Some ?hs"
    using mem_get_put_same [OF p1 [unfolded wr_eq_mem_put], of 1] by (simp add: rd_eq_mem_get)
  then have "rd p2 0 = Some ?hs"
    using mem_get_put_disjoint [OF p2, of 0 1] by (simp add: rd_eq_mem_get)
  moreover have "mem_get (dr_data dbr) 0 (unat (dr_data_len dbr)) = Some (data_of vs)"
    using R dl by (simp add: mem_get_def)
  ultimately show ?thesis
    using R p1 hdr p3 uhs hs by (simp add: chidb_DBRecord_pack_def Let_def add.commute)
qed

subsection \<open>Unpacking\<close>

text \<open>The first byte of a header entry says how long it is.\<close>

lemma encV_hd: "encV v = b # bs \<Longrightarrow> b AND 0x80 \<noteq> 0"
proof -
  assume "encV v = b # bs"
  then have "b = ucast (drop_bit 24 (varint_aux v))" by (simp add: encV_def enc4_def)
  then have "bit b 7" by (simp add: bit_simps varint_aux_def)
  then have "bit (b AND 0x80) 7" by (simp add: bit_simps)
  then show ?thesis by auto
qed

lemma unpack_header_step:
  assumes hdr: "mem_get raw (uint pos) (length (vhdr v)) = Some (vhdr v)" and v: "value_ok v"
    and lt: "pos < hs" and n: "unat nf < length types"
  shows "unpack_header raw hs pos types nf =
    unpack_header raw hs (pos + of_nat (length (vhdr v))) (types[unat nf := vtype v]) (nf + 1)"
proof (cases v)
  case (VText s)
  have get: "getVarint32 raw (uint pos) = Some (vtype v)"
    using hdr VText v vtype_text [of s] by (simp add: getVarint32_eq del: vtype.simps)
  obtain b bs where b: "encV (vtype v) = b # bs" by (cases "encV (vtype v)") (auto dest: arg_cong [of _ _ length])
  have "rd raw (uint pos) = Some b"
    using hdr VText b mem_get_append [of raw "uint pos" "[b]" bs] length_enc(3) [of "vtype v"]
    by (auto simp: rd_eq_mem_get simp del: vtype.simps length_enc)
  then show ?thesis
    using get encV_hd [OF b] lt n VText
    by (subst unpack_header.simps) (simp add: set_at_def del: vtype.simps)
next
  case VNull
  have "rd raw (uint pos) = Some 0" using hdr VNull by (simp add: rd_eq_mem_get)
  then show ?thesis using lt n VNull by (subst unpack_header.simps) (simp add: set_at_def)
next
  case (VInt8 x)
  have "rd raw (uint pos) = Some 1" using hdr VInt8 by (simp add: rd_eq_mem_get)
  then show ?thesis using lt n VInt8 by (subst unpack_header.simps) (simp add: set_at_def)
next
  case (VInt16 x)
  have "rd raw (uint pos) = Some 2" using hdr VInt16 by (simp add: rd_eq_mem_get)
  then show ?thesis using lt n VInt16 by (subst unpack_header.simps) (simp add: set_at_def)
next
  case (VInt32 x)
  have "rd raw (uint pos) = Some 4" using hdr VInt32 by (simp add: rd_eq_mem_get)
  then show ?thesis using lt n VInt32 by (subst unpack_header.simps) (simp add: set_at_def)
qed

lemma unpack_header_ok:
  "mem_get raw (uint pos) (length (hdr_of ws)) = Some (hdr_of ws) \<Longrightarrow> list_all value_ok ws \<Longrightarrow>
   unat hs = unat pos + length (hdr_of ws) \<Longrightarrow> length vs + length ws \<le> 255 \<Longrightarrow> length types = 255 \<Longrightarrow>
   take (length vs) types = map vtype vs \<Longrightarrow> unat nf = length vs \<Longrightarrow>
   \<exists>types'. unpack_header raw hs pos types nf = Some (types', of_nat (length (vs @ ws))) \<and>
     length types' = 255 \<and> take (length (vs @ ws)) types' = map vtype (vs @ ws)"
proof (induction ws arbitrary: vs pos types nf)
  case Nil
  then have "\<not> pos < hs" "nf = of_nat (length vs)"
    by (simp_all add: word_less_nat_alt word_unat_eq_iff unat_of_nat)
  then show ?case using Nil by (subst unpack_header.simps) simp
next
  case (Cons w ws)
  let ?l = "of_nat (length (vhdr w)) :: u8"
  have parts: "mem_get raw (uint pos) (length (vhdr w)) = Some (vhdr w)"
    "mem_get raw (uint pos + int (length (vhdr w))) (length (hdr_of ws)) = Some (hdr_of ws)"
    using Cons.prems(1) mem_get_append [of raw "uint pos" "vhdr w" "hdr_of ws"] by simp_all
  have hlt: "unat pos + length (vhdr w) < 256"
    using Cons.prems(3) unsigned_less [of hs, where ?'a = nat] by simp
  then have up: "unat (pos + ?l) = unat pos + length (vhdr w)" by (simp add: unat_word_ariths unat_of_nat)
  have lt: "pos < hs" using Cons.prems(3) vhdr_pos [of w] by (simp add: word_less_nat_alt)
  have step: "unpack_header raw hs pos types nf =
      unpack_header raw hs (pos + ?l) (types[unat nf := vtype w]) (nf + 1)"
    using Cons.prems parts(1) lt by (intro unpack_header_step) auto
  have "\<exists>types'. unpack_header raw hs (pos + ?l) (types[unat nf := vtype w]) (nf + 1)
      = Some (types', of_nat (length ((vs @ [w]) @ ws))) \<and> length types' = 255 \<and>
      take (length ((vs @ [w]) @ ws)) types' = map vtype ((vs @ [w]) @ ws)"
  proof (rule Cons.IH)
    show "mem_get raw (uint (pos + ?l)) (length (hdr_of ws)) = Some (hdr_of ws)"
      using parts(2) uint_of_unat [OF up] by simp
    show "take (length (vs @ [w])) (types[unat nf := vtype w]) = map vtype (vs @ [w])"
      using Cons.prems take_list_update_snoc [of "length vs" types "map vtype vs" "vtype w"] by simp
    show "unat (nf + 1) = length (vs @ [w])" using Cons.prems by (simp add: unat_word_ariths)
  qed (use Cons.prems up in auto)
  then show ?case using step by simp
qed

lemma unpack_offsets_ok:
  "dr_types dbr = map vtype vs \<Longrightarrow> list_all value_ok vs \<Longrightarrow> length vs \<le> 255 \<Longrightarrow>
   length (dr_offsets dbr) = length vs \<Longrightarrow> drop j vs = ws \<Longrightarrow> j \<le> length vs \<Longrightarrow>
   \<forall>i < j. dr_offsets dbr ! i = of_nat (length (data_of (take i vs))) \<Longrightarrow>
   \<exists>offs. unpack_offsets dbr [j..<length vs] (of_nat (length (data_of (take j vs)))) =
     Some (dbr\<lparr>dr_offsets := offs\<rparr>, of_nat (length (data_of vs))) \<and> length offs = length vs \<and>
     (\<forall>i < length vs. offs ! i = of_nat (length (data_of (take i vs))))"
proof (induction ws arbitrary: j dbr)
  case Nil
  then show ?case by (auto intro!: exI [of _ "dr_offsets dbr"])
next
  case (Cons w ws)
  have j: "j < length vs" "vs ! j = w" "drop (Suc j) vs = ws"
    using Cons.prems(5) by (metis drop_eq_Nil list.distinct(1) list.inject not_le_imp_less Cons_nth_drop_Suc)+
  have w: "value_ok w" using Cons.prems(2) j by (auto simp: list_all_length)
  have uj: "unat (of_nat j :: u8) = j" using j Cons.prems(3) by (intro unat_of_nat_small) simp
  let ?o = "of_nat (length (data_of (take j vs))) :: u32"
  let ?d = "dbr\<lparr>dr_offsets := (dr_offsets dbr)[j := ?o]\<rparr>"
  have t: "get_at (dr_types ?d) (unat (of_nat j :: u8)) = Some (vtype w)"
    using Cons.prems(1) j uj by (simp add: get_at_def)
  have so: "set_at (dr_offsets dbr) j ?o = Some ((dr_offsets dbr)[j := ?o])"
    using Cons.prems(4) j by (simp add: set_at_def)
  have "unpack_offsets dbr [j..<length vs] ?o = unpack_offsets ?d [Suc j..<length vs] (?o + of_nat (length (venc w)))"
    using so getType_ok [OF t w] getStringLength_ok [of ?d "of_nat j"] t w unfolding upt_conv_Cons [OF j(1)]
    by (cases w) (simp_all del: vtype.simps)
  also have "?o + of_nat (length (venc w)) = of_nat (length (data_of (take (Suc j) vs)))"
    using j by (simp add: take_Suc_conv_app_nth)
  finally have step: "unpack_offsets dbr [j..<length vs] ?o =
      unpack_offsets ?d [Suc j..<length vs] (of_nat (length (data_of (take (Suc j) vs))))" .
  show ?case
    using Cons.IH [of ?d "Suc j"] Cons.prems j step by (auto simp: nth_list_update less_Suc_eq)
qed

lemma unpack_ok:
  assumes vs: "values_ok vs"
  obtains dbr where "chidb_DBRecord_unpack junk4 (packed vs @ rest) = Some (CHIDB_OK, dbr)"
    and "rec_ok dbr vs"
proof -
  let ?hs = "of_nat (1 + length (hdr_of vs)) :: u8" and ?raw = "packed vs @ rest"
  have v: "list_all value_ok vs" "length vs \<le> 255" "length (hdr_of vs) < 255" "length (data_of vs) \<le> 64512"
    using vs by (auto simp: values_ok_def)
  have uhs: "unat ?hs = 1 + length (hdr_of vs)" using v by (intro unat_of_nat_small) simp
  have rd0: "rd ?raw 0 = Some ?hs" by (simp add: rd_def packed_def)
  have hdr: "mem_get ?raw 1 (length (hdr_of vs)) = Some (hdr_of vs)"
    by (simp add: mem_get_def packed_def)
  have dat: "mem_get ?raw (uint ?hs) (length (data_of vs)) = Some (data_of vs)"
    using uint_of_unat [OF uhs] by (simp add: mem_get_def packed_def nat_add_distrib)
  obtain types where ty: "unpack_header ?raw ?hs 1 (malloc junk4 255) 0 = Some (types, of_nat (length vs))"
    "length types = 255" "take (length vs) types = map vtype vs"
    using unpack_header_ok [of ?raw 1 vs ?hs "[]" "malloc junk4 255" 0] hdr v uhs by auto
  have un: "unat (of_nat (length vs) :: u8) = length vs" using v by (intro unat_of_nat_small) simp
  let ?d = "\<lparr>dr_data = [], dr_data_len = 0, dr_nfields = of_nat (length vs), dr_packed_len = 0,
      dr_types = realloc junk4 types (length vs), dr_offsets = malloc junk4 (length vs)\<rparr>"
  have tyd: "dr_types ?d = map vtype vs" using ty v by (simp add: realloc_def)
  obtain offs where o: "unpack_offsets ?d [0..<length vs] 0 =
      Some (?d\<lparr>dr_offsets := offs\<rparr>, of_nat (length (data_of vs)))" "length offs = length vs"
      "\<forall>i < length vs. offs ! i = of_nat (length (data_of (take i vs)))"
    using unpack_offsets_ok [OF tyd v(1,2), of 0 vs] by auto
  have ud: "unat (of_nat (length (data_of vs)) :: u32) = length (data_of vs)"
    using v by (intro unat_of_nat_small) simp
  have "(ucast ?hs :: u32) = of_nat (1 + length (hdr_of vs))"
    using uhs v by (simp add: word_unat_eq_iff unat_ucast_up unat_word_ariths unat_of_nat)
  then show ?thesis
    using rd0 ty(1) un o dat ud vs tyd that [of "?d\<lparr>dr_offsets := offs, dr_data_len := of_nat (length (data_of vs)),
      dr_packed_len := of_nat (1 + length (hdr_of vs)) + of_nat (length (data_of vs)), dr_data := data_of vs\<rparr>"]
    by (simp add: chidb_DBRecord_unpack_def rec_ok_def)
qed

subsection \<open>Reading the values\<close>

text \<open>The value of a field, read the way a client does: by its type.\<close>

definition field_value :: "DBRecord \<Rightarrow> u8 \<Rightarrow> sqlvalue option" where
  "field_value dbr i = do {
     t \<leftarrow> chidb_DBRecord_getType dbr i;
     if t = 0 then Some VNull
     else if t = 1 then do { (_, v) \<leftarrow> chidb_DBRecord_getInt8 dbr i; Some (VInt8 v) }
     else if t = 2 then do { (_, v) \<leftarrow> chidb_DBRecord_getInt16 dbr i; Some (VInt16 v) }
     else if t = 4 then do { (_, v) \<leftarrow> chidb_DBRecord_getInt32 dbr i; Some (VInt32 v) }
     else if t = 13 then do { (_, s) \<leftarrow> chidb_DBRecord_getString dbr i; Some (VText (butlast s)) }
     else None }"

lemma data_of_nth:
  assumes "i < length vs"
  shows "mem_get (data_of vs) (int (length (data_of (take i vs)))) (length (venc (vs ! i))) = Some (venc (vs ! i))"
proof -
  have "data_of vs = data_of (take i vs) @ venc (vs ! i) @ data_of (drop (Suc i) vs)"
    using assms by (metis data_of_simps(2,3) append_take_drop_id Cons_nth_drop_Suc)
  then show ?thesis by (simp add: mem_get_def)
qed

lemma field_value_ok:
  assumes rec: "rec_ok dbr vs" and i: "unat i < length vs"
  shows "field_value dbr i = Some (vs ! unat i)"
proof -
  note R = rec [unfolded rec_ok_def values_ok_def]
  let ?v = "vs ! unat i"
  have v: "value_ok ?v" using R i by (auto simp: list_all_length)
  have t: "get_at (dr_types dbr) (unat i) = Some (vtype ?v)" using R i by (simp add: get_at_def)
  have d: "mem_get (dr_data dbr) (int (length (data_of (take (unat i) vs)))) (length (venc ?v)) = Some (venc ?v)"
    using data_of_nth [OF i] R by simp
  have "length (data_of (take (unat i) vs)) \<le> length (data_of vs)"
    by (metis append_take_drop_id data_of_simps(3) length_append le_add1)
  moreover have "length (data_of vs) \<le> 64512" using R by simp
  ultimately have small: "length (data_of (take (unat i) vs)) < 2 ^ 32" by simp
  have off: "?v \<noteq> VNull \<Longrightarrow> \<exists>off. get_at (dr_offsets dbr) (unat i) = Some off \<and>
      uint off = int (length (data_of (take (unat i) vs)))"
    using R i small uint_of_unat [OF unat_of_nat_small [of "length (data_of (take (unat i) vs))", where ?'a = 32]]
    by (simp add: get_at_def)
  show ?thesis
    using getType_ok [OF t v] off d getStringLength_ok [of dbr i] t v
    by (cases ?v) (auto simp: field_value_def chidb_DBRecord_getInt8_def chidb_DBRecord_getInt16_def
        chidb_DBRecord_getInt32_def chidb_DBRecord_getString_def rd_eq_mem_get field_eqs simp del: vtype.simps)
qed

end
