(* ===== verification/Pager.thy ===== *)
theory Pager
  imports Codes
begin

section \<open>pager.c: the file, one page at a time\<close>

text \<open>
  The pager of \<open>src/db/src/libchidb/pager.c\<close> over a model of the disk: the content of
  every file by name, the names that may be created, and the largest size a file can
  grow to (a write past it is short, the way \<open>fwrite\<close> reports a full device). A
  \<open>FILE*\<close> is the name of the open file, or \<open>None\<close> for the null pointer; several
  pagers may be open on one file. An in-memory page is the block the pager allocates.
\<close>

subsection \<open>The disk\<close>

record disk =
  files :: "string \<Rightarrow> bytes option"
  may_create :: "string \<Rightarrow> bool"
  room :: nat

text \<open>\<open>fseek\<close> to \<open>off\<close> and \<open>fread\<close> or \<open>fwrite\<close>: a read stops at the end of the file,
  a write past it fills the gap with zero bytes.\<close>

definition file_read :: "bytes \<Rightarrow> nat \<Rightarrow> nat \<Rightarrow> bytes" where
  "file_read c off n = take n (drop off c)"

definition file_write :: "bytes \<Rightarrow> nat \<Rightarrow> bytes \<Rightarrow> bytes" where
  "file_write c off bs =
     (if bs = [] then c
      else take off (c @ replicate (off - length c) 0) @ bs @ drop (off + length bs) c)"

subsection \<open>State\<close>

record MemPage =
  mp_npage :: u32
  mp_data :: bytes

record Pager =
  pg_f :: "string option"
  pg_n_pages :: u32
  pg_page_size :: u16

definition pager_content :: "disk \<Rightarrow> Pager \<Rightarrow> bytes option" where
  "pager_content d pg = Option.bind (pg_f pg) (files d)"

text \<open>The offset the C computes: \<open>(npage - 1) * page_size\<close> in 32-bit unsigned arithmetic.\<close>

definition page_off :: "Pager \<Rightarrow> u32 \<Rightarrow> nat" where
  "page_off pg n = unat ((n - 1) * ucast (pg_page_size pg) :: u32)"

subsection \<open>Operations\<close>

text \<open>\<open>junk\<close> is the content of the memory \<open>malloc\<close> returns. A file that cannot be opened
  for update is created.\<close>

definition chidb_Pager_open :: "Pager \<Rightarrow> disk \<Rightarrow> string \<Rightarrow> int \<times> disk \<times> Pager" where
  "chidb_Pager_open junk d filename =
     (if files d filename \<noteq> None then (CHIDB_OK, d, junk\<lparr>pg_f := Some filename\<rparr>)
      else if may_create d filename
      then (CHIDB_OK, d\<lparr>files := (files d)(filename \<mapsto> [])\<rparr>, junk\<lparr>pg_f := Some filename\<rparr>)
      else (CHIDB_EIO, d, junk\<lparr>pg_f := None\<rparr>))"

definition chidb_Pager_getRealDBSize :: "disk \<Rightarrow> Pager \<Rightarrow> (int \<times> u32) option" where
  "chidb_Pager_getRealDBSize d pg = do {
     c \<leftarrow> pager_content d pg;
     if pg_page_size pg = 0 then None
     else Some (CHIDB_OK, of_nat (length c div unat (pg_page_size pg))) }"

definition chidb_Pager_setPageSize :: "disk \<Rightarrow> Pager \<Rightarrow> u16 \<Rightarrow> (int \<times> Pager) option" where
  "chidb_Pager_setPageSize d pg pagesize = do {
     let pg = pg\<lparr>pg_page_size := pagesize\<rparr>;
     (_, n) \<leftarrow> chidb_Pager_getRealDBSize d pg;
     Some (CHIDB_OK, pg\<lparr>pg_n_pages := n\<rparr>) }"

text \<open>The caller's buffer is returned with the bytes read in front; it must have room for
  the 100 bytes of the header.\<close>

definition chidb_Pager_readHeader :: "disk \<Rightarrow> Pager \<Rightarrow> bytes \<Rightarrow> (int \<times> bytes) option" where
  "chidb_Pager_readHeader d pg header = do {
     c \<leftarrow> pager_content d pg;
     let got = file_read c 0 100;
     header' \<leftarrow> mem_put header 0 got;
     Some (if length got \<noteq> 100 then CHIDB_NOHEADER else CHIDB_OK, header') }"

definition chidb_Pager_allocatePage :: "Pager \<Rightarrow> int \<times> u32 \<times> Pager" where
  "chidb_Pager_allocatePage pg =
     (let n = pg_n_pages pg + 1 in (CHIDB_OK, n, pg\<lparr>pg_n_pages := n\<rparr>))"

text \<open>The page buffer is zeroed before it is read into, so a short read leaves zeros; the
  number of bytes read is not checked.\<close>

definition chidb_Pager_readPage :: "disk \<Rightarrow> Pager \<Rightarrow> u32 \<Rightarrow> (int \<times> MemPage option) option" where
  "chidb_Pager_readPage d pg npage =
     (if npage > pg_n_pages pg \<or> npage \<le> 0 then Some (CHIDB_EPAGENO, None)
      else do {
        c \<leftarrow> pager_content d pg;
        let n = unat (pg_page_size pg);
        let got = file_read c (page_off pg npage) n;
        Some (CHIDB_OK, Some \<lparr>mp_npage = npage, mp_data = got @ replicate (n - length got) 0\<rparr>) })"

definition chidb_Pager_writePage :: "disk \<Rightarrow> Pager \<Rightarrow> MemPage \<Rightarrow> (int \<times> disk) option" where
  "chidb_Pager_writePage d pg page =
     (if mp_npage page > pg_n_pages pg then Some (CHIDB_EPAGENO, d)
      else do {
        name \<leftarrow> pg_f pg;
        c \<leftarrow> files d name;
        let off = page_off pg (mp_npage page);
        bs \<leftarrow> mem_get (mp_data page) 0 (unat (pg_page_size pg));
        let n = min (length bs) (room d - off);
        let d' = d\<lparr>files := (files d)(name \<mapsto> file_write c off (take n bs))\<rparr>;
        Some (if n \<noteq> unat (pg_page_size pg) then CHIDB_EIO else CHIDB_OK, d') })"

text \<open>Releasing frees the page; only the range check has a visible result.\<close>

definition chidb_Pager_releaseMemPage :: "Pager \<Rightarrow> MemPage \<Rightarrow> int" where
  "chidb_Pager_releaseMemPage pg page =
     (if mp_npage page > pg_n_pages pg then CHIDB_EPAGENO else CHIDB_OK)"

definition chidb_Pager_close :: "Pager \<Rightarrow> int option" where
  "chidb_Pager_close pg = do { _ \<leftarrow> pg_f pg; Some CHIDB_OK }"

definition chidb_Pager_initMemPage :: "u32 \<Rightarrow> u16 \<Rightarrow> MemPage" where
  "chidb_Pager_initMemPage page_num pagesize =
     \<lparr>mp_npage = page_num, mp_data = replicate (unat pagesize) 0\<rparr>"

subsection \<open>The content of a page\<close>

text \<open>A file reads as zeros past its end, so a page is a window on an infinite string of
  bytes; reading and writing are a lookup and an update of that window.\<close>

definition file_byte :: "bytes \<Rightarrow> nat \<Rightarrow> u8" where
  "file_byte c k = (if k < length c then c ! k else 0)"

lemma file_byte_write:
  "file_byte (file_write c off bs) k =
     (if off \<le> k \<and> k < off + length bs then bs ! (k - off) else file_byte c k)"
  by (auto simp: file_byte_def file_write_def nth_append min_def)

lemma file_read_padded:
  "file_read c off n @ replicate (n - length (file_read c off n)) 0
     = map (\<lambda>i. file_byte c (off + i)) [0..<n]"
  by (rule nth_equalityI) (auto simp: file_read_def file_byte_def nth_append min_def)

text \<open>A pager in use: its file is open, its pages have a size, and neither the 32-bit
  offset computation nor the device limits the pages it has handed out.\<close>

definition pager_ok :: "disk \<Rightarrow> Pager \<Rightarrow> bool" where
  "pager_ok d pg \<longleftrightarrow>
     pager_content d pg \<noteq> None \<and> 0 < unat (pg_page_size pg) \<and>
     unat (pg_n_pages pg) * unat (pg_page_size pg) < 2 ^ 32 \<and>
     unat (pg_n_pages pg) * unat (pg_page_size pg) \<le> room d"

definition has_page :: "Pager \<Rightarrow> u32 \<Rightarrow> bool" where
  "has_page pg n \<longleftrightarrow> 0 < n \<and> n \<le> pg_n_pages pg"

definition page_data :: "disk \<Rightarrow> Pager \<Rightarrow> u32 \<Rightarrow> bytes" where
  "page_data d pg n =
     map (\<lambda>i. file_byte (the (pager_content d pg)) (page_off pg n + i)) [0..<unat (pg_page_size pg)]"

lemma length_page_data [simp]: "length (page_data d pg n) = unat (pg_page_size pg)"
  by (simp add: page_data_def)

lemma has_page_unat: "has_page pg n \<longleftrightarrow> 0 < unat n \<and> unat n \<le> unat (pg_n_pages pg)"
  by (simp add: has_page_def word_less_nat_alt word_le_nat_alt)

lemma page_off_eq:
  assumes "pager_ok d pg" and "has_page pg n"
  shows "page_off pg n = (unat n - 1) * unat (pg_page_size pg)"
proof -
  have "(unat n - 1) * unat (pg_page_size pg) + unat (pg_page_size pg)
      \<le> unat (pg_n_pages pg) * unat (pg_page_size pg)"
    using assms(2) by (intro block_end_le) (auto simp: has_page_unat)
  then have lt: "(unat n - 1) * unat (pg_page_size pg) < 2 ^ 32"
    using assms(1) unfolding pager_ok_def by linarith
  have "unat (ucast (pg_page_size pg) :: u32) = unat (pg_page_size pg)"
    by (simp add: unat_ucast_up)
  moreover have "unat (n - 1) = unat n - 1"
    using assms(2) by (intro unat_pred) (simp add: has_page_def)
  ultimately show ?thesis
    using lt by (simp add: page_off_def unat_word_ariths del: One_nat_def)
qed

text \<open>Pages are disjoint stretches of the file.\<close>

lemma page_off_disjoint:
  assumes "pager_ok d pg" and "has_page pg n" and "has_page pg m" and "n \<noteq> m"
  shows "page_off pg n + unat (pg_page_size pg) \<le> page_off pg m
       \<or> page_off pg m + unat (pg_page_size pg) \<le> page_off pg n"
proof -
  let ?p = "unat (pg_page_size pg)"
  have step: "(a - 1) * ?p + ?p \<le> (b - 1) * ?p" if "0 < a" "a < b" for a b :: nat
    using that by (intro block_end_le) auto
  have "0 < unat n" "0 < unat m" "unat n \<noteq> unat m"
    using assms by (auto simp: has_page_unat word_unat_eq_iff)
  then show ?thesis
    using step [of "unat n" "unat m"] step [of "unat m" "unat n"] assms
    by (simp add: page_off_eq del: One_nat_def) linarith
qed

lemma page_off_bound:
  assumes "pager_ok d pg" and "has_page pg n"
  shows "page_off pg n + unat (pg_page_size pg) \<le> room d"
proof -
  have "(unat n - 1) * unat (pg_page_size pg) + unat (pg_page_size pg)
      \<le> unat (pg_n_pages pg) * unat (pg_page_size pg)"
    using assms(2) by (intro block_end_le) (auto simp: has_page_unat)
  then show ?thesis
    unfolding page_off_eq [OF assms] using assms(1) unfolding pager_ok_def by linarith
qed

subsection \<open>Reading and writing pages\<close>

lemma readPage_ok:
  assumes "pager_ok d pg" and "has_page pg n"
  shows "chidb_Pager_readPage d pg n = Some (CHIDB_OK, Some \<lparr>mp_npage = n, mp_data = page_data d pg n\<rparr>)"
  using assms
  by (auto simp: chidb_Pager_readPage_def has_page_def pager_ok_def page_data_def file_read_padded
      Let_def leD)

lemma readPage_bad: "\<not> has_page pg n \<Longrightarrow> chidb_Pager_readPage d pg n = Some (CHIDB_EPAGENO, None)"
  by (auto simp: chidb_Pager_readPage_def has_page_def not_less)

text \<open>The disk after a page has been written: the open file with the page's window updated.\<close>

definition disk_put :: "disk \<Rightarrow> Pager \<Rightarrow> u32 \<Rightarrow> bytes \<Rightarrow> disk" where
  "disk_put d pg n bs =
     d\<lparr>files := (files d)(the (pg_f pg) \<mapsto>
        file_write (the (pager_content d pg)) (page_off pg n) bs)\<rparr>"

lemma writePage_ok:
  assumes "pager_ok d pg" and "has_page pg n" and "length bs = unat (pg_page_size pg)"
  shows "chidb_Pager_writePage d pg \<lparr>mp_npage = n, mp_data = bs\<rparr> = Some (CHIDB_OK, disk_put d pg n bs)"
proof -
  obtain name c where f: "pg_f pg = Some name" "files d name = Some c"
    using assms(1) by (auto simp: pager_ok_def pager_content_def bind_Some_conv)
  have "mem_get bs 0 (unat (pg_page_size pg)) = Some bs"
    using assms(3) by (simp add: mem_get_def)
  moreover have "min (length bs) (room d - page_off pg n) = length bs"
    using page_off_bound [OF assms(1,2)] assms(3) by simp
  ultimately show ?thesis
    using assms(2,3) f
    by (simp add: chidb_Pager_writePage_def has_page_def disk_put_def pager_content_def Let_def
        leD)
qed

lemma pager_ok_put [simp]:
  assumes "pager_ok d pg"
  shows "pager_ok (disk_put d pg n bs) pg"
  using assms by (auto simp: pager_ok_def pager_content_def disk_put_def bind_Some_conv)

lemma room_put [simp]: "room (disk_put d pg n bs) = room d"
  by (simp add: disk_put_def)

lemma pager_content_put:
  assumes "pager_ok d pg"
  shows "pager_content (disk_put d pg n bs) pg = Some (file_write (the (pager_content d pg)) (page_off pg n) bs)"
  using assms by (auto simp: pager_ok_def pager_content_def disk_put_def bind_Some_conv)

lemma page_data_put_same:
  assumes "pager_ok d pg" and "length bs = unat (pg_page_size pg)"
  shows "page_data (disk_put d pg n bs) pg n = bs"
  using assms by (auto simp: page_data_def pager_content_put file_byte_write intro!: nth_equalityI)

lemma page_data_put_other:
  assumes "pager_ok d pg" and "has_page pg n" and "has_page pg m" and "n \<noteq> m"
    and "length bs = unat (pg_page_size pg)"
  shows "page_data (disk_put d pg n bs) pg m = page_data d pg m"
  using page_off_disjoint [OF assms(1-4)] assms(1,5)
  by (auto simp: page_data_def pager_content_put file_byte_write)

text \<open>A new page changes the counter only.\<close>

lemma page_data_grow [simp]: "page_data d (pg\<lparr>pg_n_pages := k\<rparr>) n = page_data d pg n"
  by (simp add: page_data_def pager_content_def page_off_def)

lemma disk_put_grow [simp]: "disk_put d (pg\<lparr>pg_n_pages := k\<rparr>) n bs = disk_put d pg n bs"
  by (simp add: disk_put_def pager_content_def page_off_def)

lemma pager_ok_grow:
  assumes "pager_ok d pg" and "unat k * unat (pg_page_size pg) < 2 ^ 32"
    and "unat k * unat (pg_page_size pg) \<le> room d"
  shows "pager_ok d (pg\<lparr>pg_n_pages := k\<rparr>)"
  using assms by (simp add: pager_ok_def pager_content_def)

subsection \<open>The interface the B-tree relies on\<close>

text \<open>A store of fixed-size pages: what is written to a page is read back from it, and
  every other page keeps its content.\<close>

locale page_store =
  fixes ok :: "'s \<Rightarrow> bool"
    and has :: "'s \<Rightarrow> 'n \<Rightarrow> bool"
    and size_of :: "'s \<Rightarrow> nat"
    and get :: "'s \<Rightarrow> 'n \<Rightarrow> bytes option"
    and put :: "'s \<Rightarrow> 'n \<Rightarrow> bytes \<Rightarrow> 's option"
  assumes get_some: "ok s \<Longrightarrow> has s n \<Longrightarrow> \<exists>bs. get s n = Some bs \<and> length bs = size_of s"
    and put_some: "ok s \<Longrightarrow> has s n \<Longrightarrow> length bs = size_of s \<Longrightarrow> \<exists>s'. put s n bs = Some s'"
    and put_frame: "ok s \<Longrightarrow> has s n \<Longrightarrow> length bs = size_of s \<Longrightarrow> put s n bs = Some s' \<Longrightarrow>
      ok s' \<and> has s' = has s \<and> size_of s' = size_of s"
    and get_put_same: "ok s \<Longrightarrow> has s n \<Longrightarrow> length bs = size_of s \<Longrightarrow> put s n bs = Some s' \<Longrightarrow>
      get s' n = Some bs"
    and get_put_other: "ok s \<Longrightarrow> has s n \<Longrightarrow> has s m \<Longrightarrow> n \<noteq> m \<Longrightarrow> length bs = size_of s \<Longrightarrow>
      put s n bs = Some s' \<Longrightarrow> get s' m = get s m"

text \<open>Writing a list of pages one after the other, and the page that wins.\<close>

fun put_all :: "('s \<Rightarrow> 'n \<Rightarrow> bytes \<Rightarrow> 's option) \<Rightarrow> 's \<Rightarrow> ('n \<times> bytes) list \<Rightarrow> 's option" where
  "put_all put s [] = Some s"
| "put_all put s ((n, bs) # ps) = do { s' \<leftarrow> put s n bs; put_all put s' ps }"

context page_store begin

lemma put_all_some:
  "ok s \<Longrightarrow> \<forall>(n, bs) \<in> set ps. has s n \<and> length bs = size_of s \<Longrightarrow>
   \<exists>s'. put_all put s ps = Some s' \<and> ok s' \<and> has s' = has s \<and> size_of s' = size_of s"
proof (induction ps arbitrary: s)
  case Nil
  then show ?case by simp
next
  case (Cons p ps)
  obtain n bs where p: "p = (n, bs)" by (cases p)
  with Cons.prems obtain s1 where s1: "put s n bs = Some s1"
    using put_some by fastforce
  have "ok s1 \<and> has s1 = has s \<and> size_of s1 = size_of s"
    using Cons.prems p s1 by (intro put_frame) auto
  with Cons.IH [of s1] Cons.prems s1 p show ?case by auto
qed

lemma get_put_all:
  "ok s \<Longrightarrow> \<forall>(n, bs) \<in> set ps. has s n \<and> length bs = size_of s \<Longrightarrow> has s m \<Longrightarrow>
   put_all put s ps = Some s' \<Longrightarrow>
   get s' m = (case map_of (rev ps) m of Some bs \<Rightarrow> Some bs | None \<Rightarrow> get s m)"
proof (induction ps arbitrary: s)
  case Nil
  then show ?case by simp
next
  case (Cons p ps)
  obtain n bs where p: "p = (n, bs)" by (cases p)
  with Cons.prems obtain s1 where s1: "put s n bs = Some s1" "put_all put s1 ps = Some s'"
    by (auto simp: bind_Some_conv)
  have fr: "ok s1 \<and> has s1 = has s \<and> size_of s1 = size_of s"
    using Cons.prems p s1 by (intro put_frame) auto
  have "get s1 m = (if m = n then Some bs else get s m)"
    using Cons.prems p s1 get_put_same [of s n bs s1] get_put_other [of s n m bs s1] by auto
  moreover have "get s' m = (case map_of (rev ps) m of Some bs \<Rightarrow> Some bs | None \<Rightarrow> get s1 m)"
    using Cons.prems p s1 fr by (intro Cons.IH) auto
  ultimately show ?case by (simp add: p map_add_def split: option.splits)
qed

end

text \<open>The pager is such a store, with the operations of the code.\<close>

definition store_get :: "disk \<times> Pager \<Rightarrow> u32 \<Rightarrow> bytes option" where
  "store_get s n = (case chidb_Pager_readPage (fst s) (snd s) n of
     Some (rc, Some page) \<Rightarrow> Some (mp_data page) | _ \<Rightarrow> None)"

definition store_put :: "disk \<times> Pager \<Rightarrow> u32 \<Rightarrow> bytes \<Rightarrow> (disk \<times> Pager) option" where
  "store_put s n bs =
     (case chidb_Pager_writePage (fst s) (snd s) \<lparr>mp_npage = n, mp_data = bs\<rparr> of
        Some (rc, d') \<Rightarrow> if rc = CHIDB_OK then Some (d', snd s) else None | None \<Rightarrow> None)"

interpretation pager: page_store "\<lambda>s. pager_ok (fst s) (snd s)" "\<lambda>s. has_page (snd s)"
  "\<lambda>s. unat (pg_page_size (snd s))" store_get store_put
proof unfold_locales
  fix s :: "disk \<times> Pager" and n m :: u32 and bs :: bytes and s'
  assume ok: "pager_ok (fst s) (snd s)" and n: "has_page (snd s) n"
  show "\<exists>bs. store_get s n = Some bs \<and> length bs = unat (pg_page_size (snd s))"
    using readPage_ok [OF ok n] by (simp add: store_get_def)
  assume len: "length bs = unat (pg_page_size (snd s))"
  note w = writePage_ok [OF ok n len]
  show "\<exists>s'. store_put s n bs = Some s'" using w by (simp add: store_put_def)
  assume "store_put s n bs = Some s'"
  then have s': "s' = (disk_put (fst s) (snd s) n bs, snd s)" using w by (simp add: store_put_def)
  show "pager_ok (fst s') (snd s') \<and> has_page (snd s') = has_page (snd s) \<and>
      unat (pg_page_size (snd s')) = unat (pg_page_size (snd s))"
    using ok s' by simp
  have ok': "pager_ok (fst s') (snd s')" using ok s' by simp
  show "store_get s' n = Some bs"
    using readPage_ok [OF ok'] n s' page_data_put_same [OF ok len] by (simp add: store_get_def)
  assume "has_page (snd s) m" "n \<noteq> m"
  then show "store_get s' m = store_get s m"
    using readPage_ok [OF ok'] readPage_ok [OF ok] s' page_data_put_other [OF ok n _ _ len]
    by (simp add: store_get_def)
qed

end
