(* ===== verification/Node.thy ===== *)
theory Node
  imports Util Pager
begin

section \<open>btree.c: nodes and cells in a page\<close>

text \<open>
  The node layer of \<open>src/db/src/libchidb/btree.c\<close>: a \<open>BTreeNode\<close> is the header of a page
  copied into a struct beside the page itself, and a \<open>BTreeCell\<close> is one cell, its
  \<open>fields\<close> a tagged union. The pointer \<open>celloffset_array\<close> is an offset into the page's
  block; the \<open>data\<close> pointer of a table leaf cell is the bytes it points to. Reading the
  union at a member other than the one stored is undefined, but for the common first
  member \<open>keyPk\<close> of the two index cells.
\<close>

subsection \<open>Page types\<close>

definition PGTYPE_TABLE_INTERNAL :: u8 where [simp]: "PGTYPE_TABLE_INTERNAL = 0x05"
definition PGTYPE_TABLE_LEAF :: u8 where [simp]: "PGTYPE_TABLE_LEAF = 0x0D"
definition PGTYPE_INDEX_INTERNAL :: u8 where [simp]: "PGTYPE_INDEX_INTERNAL = 0x02"
definition PGTYPE_INDEX_LEAF :: u8 where [simp]: "PGTYPE_INDEX_LEAF = 0x0A"

definition is_internal :: "u8 \<Rightarrow> bool" where
  "is_internal t \<longleftrightarrow> t = PGTYPE_TABLE_INTERNAL \<or> t = PGTYPE_INDEX_INTERNAL"

definition is_leaf :: "u8 \<Rightarrow> bool" where
  "is_leaf t \<longleftrightarrow> t = PGTYPE_TABLE_LEAF \<or> t = PGTYPE_INDEX_LEAF"

definition PGHEADER_PGTYPE_OFFSET :: int where [simp]: "PGHEADER_PGTYPE_OFFSET = 0"
definition PGHEADER_FREE_OFFSET :: int where [simp]: "PGHEADER_FREE_OFFSET = 1"
definition PGHEADER_NCELLS_OFFSET :: int where [simp]: "PGHEADER_NCELLS_OFFSET = 3"
definition PGHEADER_CELL_OFFSET :: int where [simp]: "PGHEADER_CELL_OFFSET = 5"
definition PGHEADER_RIGHTPG_OFFSET :: int where [simp]: "PGHEADER_RIGHTPG_OFFSET = 8"
definition LEAFPG_CELLSOFFSET_OFFSET :: int where [simp]: "LEAFPG_CELLSOFFSET_OFFSET = 8"
definition INTPG_CELLSOFFSET_OFFSET :: int where [simp]: "INTPG_CELLSOFFSET_OFFSET = 12"

subsection \<open>State\<close>

record BTreeNode =
  bn_page :: MemPage
  bn_type :: u8
  bn_free_offset :: u16
  bn_n_cells :: u16
  bn_cells_offset :: u16
  bn_right_page :: u32
  bn_celloffset_array :: int

datatype cell_fields =
    TableInternal (ti_child_page: u32)
  | TableLeaf (tl_data_size: u32) (tl_data: bytes)
  | IndexInternal (ii_keyPk: u32) (ii_child_page: u32)
  | IndexLeaf (il_keyPk: u32)
  | NoFields

record BTreeCell =
  bc_type :: u8
  bc_key :: u32
  bc_fields :: cell_fields

fun index_keyPk :: "cell_fields \<Rightarrow> u32 option" where
  "index_keyPk (IndexInternal k _) = Some k"
| "index_keyPk (IndexLeaf k) = Some k"
| "index_keyPk _ = None"

abbreviation bn_data :: "BTreeNode \<Rightarrow> bytes" where
  "bn_data btn \<equiv> mp_data (bn_page btn)"

definition set_data :: "bytes \<Rightarrow> BTreeNode \<Rightarrow> BTreeNode" where
  "set_data m btn = btn\<lparr>bn_page := (bn_page btn)\<lparr>mp_data := m\<rparr>\<rparr>"

text \<open>Page 1 starts with the 100 bytes of the file header.\<close>

definition header_offset :: "u32 \<Rightarrow> int" where
  "header_offset npage = (if npage = 1 then 100 else 0)"

subsection \<open>Operations on nodes\<close>

definition update_fields :: "BTreeNode \<Rightarrow> int \<Rightarrow> BTreeNode option" where
  "update_fields btn ho =
     (if is_internal (bn_type btn) then do {
        r \<leftarrow> get4byte (bn_data btn) (ho + PGHEADER_RIGHTPG_OFFSET);
        Some (btn\<lparr>bn_right_page := r, bn_celloffset_array := ho + INTPG_CELLSOFFSET_OFFSET\<rparr>) }
      else Some (btn\<lparr>bn_right_page := 0, bn_celloffset_array := ho + LEAFPG_CELLSOFFSET_OFFSET\<rparr>))"

definition chidb_Btree_createNode :: "Pager \<Rightarrow> u32 \<Rightarrow> u8 \<Rightarrow> BTreeNode option" where
  "chidb_Btree_createNode pg npage type =
     (let ho = header_offset npage;
          free_offset = (if is_leaf type then LEAFPG_CELLSOFFSET_OFFSET else INTPG_CELLSOFFSET_OFFSET)
      in update_fields
           \<lparr>bn_page = chidb_Pager_initMemPage npage (pg_page_size pg), bn_type = type,
            bn_free_offset = word_of_int (free_offset + ho), bn_n_cells = 0,
            bn_cells_offset = pg_page_size pg, bn_right_page = 0, bn_celloffset_array = 0\<rparr> ho)"

text \<open>On an error the out parameter is not set.\<close>

definition chidb_Btree_getNodeByPage :: "disk \<Rightarrow> Pager \<Rightarrow> u32 \<Rightarrow> (int \<times> BTreeNode option) option" where
  "chidb_Btree_getNodeByPage d pg npage = do {
     (rc, p) \<leftarrow> chidb_Pager_readPage d pg npage;
     if rc \<noteq> CHIDB_OK then Some (rc, None)
     else do {
       page \<leftarrow> p;
       let ho = header_offset npage;
       t \<leftarrow> rd (mp_data page) (ho + PGHEADER_PGTYPE_OFFSET);
       fo \<leftarrow> get2byte (mp_data page) (ho + PGHEADER_FREE_OFFSET);
       n \<leftarrow> get2byte (mp_data page) (ho + PGHEADER_NCELLS_OFFSET);
       co \<leftarrow> get2byte (mp_data page) (ho + PGHEADER_CELL_OFFSET);
       btn \<leftarrow> update_fields
         \<lparr>bn_page = page, bn_type = t, bn_free_offset = fo, bn_n_cells = n,
          bn_cells_offset = co, bn_right_page = 0, bn_celloffset_array = 0\<rparr> ho;
       Some (CHIDB_OK, Some btn) } }"

definition chidb_Btree_freeMemNode :: "Pager \<Rightarrow> BTreeNode \<Rightarrow> int" where
  "chidb_Btree_freeMemNode pg btn = chidb_Pager_releaseMemPage pg (bn_page btn)"

definition chidb_Btree_syncNode :: "BTreeNode \<Rightarrow> BTreeNode option" where
  "chidb_Btree_syncNode btn = do {
     let ho = header_offset (mp_npage (bn_page btn));
     m \<leftarrow> wr (bn_data btn) (ho + PGHEADER_PGTYPE_OFFSET) (bn_type btn);
     m \<leftarrow> put2byte m (ho + PGHEADER_FREE_OFFSET) (bn_free_offset btn);
     m \<leftarrow> put2byte m (ho + PGHEADER_NCELLS_OFFSET) (bn_n_cells btn);
     m \<leftarrow> put2byte m (ho + PGHEADER_CELL_OFFSET) (bn_cells_offset btn);
     m \<leftarrow> (if is_internal (bn_type btn)
           then put4byte m (ho + PGHEADER_RIGHTPG_OFFSET) (bn_right_page btn) else Some m);
     Some (set_data m btn) }"

definition chidb_Btree_writeNode :: "disk \<Rightarrow> Pager \<Rightarrow> BTreeNode \<Rightarrow> (int \<times> disk) option" where
  "chidb_Btree_writeNode d pg btn = do {
     btn \<leftarrow> chidb_Btree_syncNode btn;
     chidb_Pager_writePage d pg (bn_page btn) }"

definition chidb_Btree_newNode :: "disk \<Rightarrow> Pager \<Rightarrow> u8 \<Rightarrow> (int \<times> u32 \<times> disk \<times> Pager) option" where
  "chidb_Btree_newNode d pg type = do {
     let (_, npage, pg) = chidb_Pager_allocatePage pg;
     node \<leftarrow> chidb_Btree_createNode pg npage type;
     (rc, d) \<leftarrow> chidb_Btree_writeNode d pg node;
     Some (rc, npage, d, pg) }"

definition chidb_Btree_initEmptyNode :: "disk \<Rightarrow> Pager \<Rightarrow> u32 \<Rightarrow> u8 \<Rightarrow> (int \<times> disk) option" where
  "chidb_Btree_initEmptyNode d pg npage type = do {
     node \<leftarrow> chidb_Btree_createNode pg npage type;
     chidb_Btree_writeNode d pg node }"

subsection \<open>Operations on cells\<close>

text \<open>The switch of \<open>chidb_Btree_getCell\<close> reads the fields of a cell at \<open>cd\<close>. A cell of a
  page of unknown type has only its key set, to 0.\<close>

definition read_cell :: "bytes \<Rightarrow> u8 \<Rightarrow> int \<Rightarrow> (u32 \<times> cell_fields) option" where
  "read_cell m t cd =
     (if t = PGTYPE_TABLE_INTERNAL then do {
        child_page \<leftarrow> get4byte m cd;
        key \<leftarrow> getVarint32 m (cd + 4);
        Some (key, TableInternal child_page) }
      else if t = PGTYPE_INDEX_INTERNAL then do {
        child_page \<leftarrow> get4byte m cd;
        keyPk \<leftarrow> get4byte m (cd + 12);
        key \<leftarrow> get4byte m (cd + 8);
        Some (key, IndexInternal keyPk child_page) }
      else if t = PGTYPE_TABLE_LEAF then do {
        data_size \<leftarrow> getVarint32 m cd;
        key \<leftarrow> getVarint32 m (cd + 4);
        Some (key, TableLeaf data_size (take (unat data_size) (drop (nat (cd + 8)) m))) }
      else if t = PGTYPE_INDEX_LEAF then do {
        keyPk \<leftarrow> get4byte m (cd + 8);
        key \<leftarrow> get4byte m (cd + 4);
        Some (key, IndexLeaf keyPk) }
      else Some (0, NoFields))"

definition chidb_Btree_getCell :: "BTreeNode \<Rightarrow> u16 \<Rightarrow> (int \<times> BTreeCell option) option" where
  "chidb_Btree_getCell btn ncell =
     (if ncell > bn_n_cells btn then Some (CHIDB_ECELLNO, None)
      else do {
        off \<leftarrow> get2byte (bn_data btn) (bn_celloffset_array btn + int (unat ncell) * 2);
        (key, fields) \<leftarrow> read_cell (bn_data btn) (bn_type btn) (uint off);
        Some (CHIDB_OK, Some \<lparr>bc_type = bn_type btn, bc_key = key, bc_fields = fields\<rparr>) })"

text \<open>
  The first half of \<open>chidb_Btree_insertCell\<close>: write the cell below \<open>cells_offset\<close>, which
  is returned lowered by the cell's size. The C \<open>memcpy\<close> reads \<open>data_size\<close> bytes
  wherever the data pointer leads, so a shorter block is undefined.
\<close>

definition write_cell :: "bytes \<Rightarrow> u16 \<Rightarrow> BTreeCell \<Rightarrow> (bytes \<times> u16) option" where
  "write_cell m cells_offset cell =
     (let co = uint cells_offset; t = bc_type cell in
      if t = PGTYPE_TABLE_INTERNAL then
        (case bc_fields cell of TableInternal child_page \<Rightarrow> do {
           m \<leftarrow> putVarint32 m (co - 4) (bc_key cell);
           m \<leftarrow> put4byte m (co - 8) child_page;
           Some (m, cells_offset - 8) }
         | _ \<Rightarrow> None)
      else if t = PGTYPE_INDEX_INTERNAL then
        (case bc_fields cell of IndexInternal keyPk child_page \<Rightarrow> do {
           m \<leftarrow> put4byte m (co - 4) keyPk;
           m \<leftarrow> put4byte m (co - 8) (bc_key cell);
           m \<leftarrow> wr m (co - 9) 0x04;
           m \<leftarrow> wr m (co - 10) 0x04;
           m \<leftarrow> wr m (co - 11) 0x03;
           m \<leftarrow> wr m (co - 12) 0x0B;
           m \<leftarrow> put4byte m (co - 16) child_page;
           Some (m, cells_offset - 16) }
         | _ \<Rightarrow> None)
      else if t = PGTYPE_TABLE_LEAF then
        (case bc_fields cell of TableLeaf data_size data \<Rightarrow> do {
           bs \<leftarrow> mem_get data 0 (unat data_size);
           m \<leftarrow> mem_put m (co - uint data_size) bs;
           m \<leftarrow> putVarint32 m (co - uint data_size - 4) (bc_key cell);
           m \<leftarrow> putVarint32 m (co - uint data_size - 8) data_size;
           Some (m, cells_offset - ucast (data_size + 8)) }
         | _ \<Rightarrow> None)
      else if t = PGTYPE_INDEX_LEAF then do {
           keyPk \<leftarrow> index_keyPk (bc_fields cell);
           m \<leftarrow> put4byte m (co - 4) keyPk;
           m \<leftarrow> put4byte m (co - 8) (bc_key cell);
           m \<leftarrow> wr m (co - 9) 0x04;
           m \<leftarrow> wr m (co - 10) 0x04;
           m \<leftarrow> wr m (co - 11) 0x03;
           m \<leftarrow> wr m (co - 12) 0x0B;
           Some (m, cells_offset - 12) }
      else Some (m, cells_offset))"

text \<open>The number of bytes to shift is an unsigned size: for \<open>ncell\<close> past the end it is
  negative, hence larger than any block.\<close>

definition chidb_Btree_insertCell :: "BTreeNode \<Rightarrow> u16 \<Rightarrow> BTreeCell \<Rightarrow> (int \<times> BTreeNode) option" where
  "chidb_Btree_insertCell btn ncell cell =
     (if bc_type cell \<noteq> bn_type btn then None
      else if unat ncell > unat (bn_n_cells btn) + 1 then Some (CHIDB_ECELLNO, btn)
      else do {
        (m, co) \<leftarrow> write_cell (bn_data btn) (bn_cells_offset btn) cell;
        let new_cell_offset = bn_celloffset_array btn + 2 * int (unat ncell);
        if ncell > bn_n_cells btn then None
        else do {
          moved \<leftarrow> mem_get m new_cell_offset ((unat (bn_n_cells btn) - unat ncell) * 2);
          m \<leftarrow> mem_put m (new_cell_offset + 2) moved;
          m \<leftarrow> put2byte m new_cell_offset co;
          Some (CHIDB_OK, (set_data m btn)\<lparr>bn_cells_offset := co,
             bn_n_cells := bn_n_cells btn + 1, bn_free_offset := bn_free_offset btn + 2\<rparr>) } })"

end
