(* ===== verification/Btree.thy ===== *)
theory Btree
  imports Node
begin

section \<open>btree.c: files, search and insertion\<close>

text \<open>
  The tree layer of \<open>src/db/src/libchidb/btree.c\<close>. A \<open>BTree*\<close> is its pager; the disk is
  passed and returned. An operation that reads an out parameter its callee has not set
  (the node of a page that does not exist) is undefined. The loops over the cells of a
  node recurse over the indices the C loop visits; the loops over the levels of a tree
  are \<open>partial_function (option)\<close>, whose \<open>None\<close> stands for an undefined access and for a
  cycle of pages alike.
\<close>

subsection \<open>Opening and closing a file\<close>

definition sqlite_magic :: bytes where
  "sqlite_magic = map (\<lambda>c. of_nat (of_char c)) ''SQLite format 3''"

text \<open>A file that does not exist is the null pointer, which the C passes to \<open>fseek\<close>.\<close>

definition chidb_Btree_open :: "disk \<Rightarrow> string \<Rightarrow> (int \<times> disk \<times> Pager option) option" where
  "chidb_Btree_open d filename = do {
     c \<leftarrow> files d filename;
     let file_size = int (length c) - 1;
     if file_size \<ge> 0 then do {
       let buffer = file_read c 0 100;
       if length buffer < 100 then Some (CHIDB_ECORRUPTHEADER, d, None)
       else if take 15 buffer \<noteq> sqlite_magic then Some (CHIDB_ECORRUPTHEADER, d, None)
       else do {
         page_size \<leftarrow> get2byte buffer 16;
         file_change_counter \<leftarrow> get4byte buffer 24;
         schema_version \<leftarrow> get4byte buffer 40;
         page_cache_size \<leftarrow> get4byte buffer 48;
         user_cookie \<leftarrow> get4byte buffer 60;
         if file_change_counter \<noteq> 0 \<or> schema_version \<noteq> 0 \<or> user_cookie \<noteq> 0 \<or> page_cache_size \<noteq> 20000
         then Some (CHIDB_ECORRUPTHEADER, d, None)
         else if page_size = 0 then None
         else Some (CHIDB_OK, d, Some \<lparr>pg_f = Some filename,
                pg_n_pages = word_of_int file_size div ucast page_size, pg_page_size = page_size\<rparr>) } }
     else do {
       let pager = \<lparr>pg_f = Some filename, pg_n_pages = 1, pg_page_size = of_nat DEFAULT_PAGE_SIZE\<rparr>;
       root \<leftarrow> chidb_Btree_createNode pager 1 PGTYPE_TABLE_LEAF;
       m \<leftarrow> mem_put (bn_data root) 0 (sqlite_magic @ [0]);
       m \<leftarrow> put2byte m 16 (of_nat DEFAULT_PAGE_SIZE);
       m \<leftarrow> put4byte m 48 20000;
       (rc, d) \<leftarrow> chidb_Btree_writeNode d pager (set_data m root);
       Some (rc, d, Some pager) } }"

definition chidb_Btree_close :: "Pager \<Rightarrow> int option" where
  "chidb_Btree_close pg = do { _ \<leftarrow> chidb_Pager_close pg; Some CHIDB_OK }"

subsection \<open>Search\<close>

text \<open>The cell a call of \<open>chidb_Btree_getCell\<close> stores; on an error it stores none.\<close>

definition cell_of :: "BTreeNode \<Rightarrow> nat \<Rightarrow> BTreeCell option" where
  "cell_of btn i = do { (_, c) \<leftarrow> chidb_Btree_getCell btn (of_nat i); c }"

definition cell_indices :: "BTreeNode \<Rightarrow> nat list" where
  "cell_indices btn = [0..<unat (bn_n_cells btn)]"

fun find_leaf :: "BTreeNode \<Rightarrow> u32 \<Rightarrow> nat list \<Rightarrow> (int \<times> (bytes \<times> u16) option) option" where
  "find_leaf btn key [] = Some (CHIDB_ENOTFOUND, None)"
| "find_leaf btn key (i # is) = do {
     btc \<leftarrow> cell_of btn i;
     if bc_key btc = key
     then (case bc_fields btc of
             TableLeaf data_size data \<Rightarrow> Some (CHIDB_OK, Some (data, ucast data_size)) | _ \<Rightarrow> None)
     else find_leaf btn key is }"

fun find_child :: "BTreeNode \<Rightarrow> u32 \<Rightarrow> nat list \<Rightarrow> u32 option" where
  "find_child btn key [] = Some (bn_right_page btn)"
| "find_child btn key (i # is) = do {
     btc \<leftarrow> cell_of btn i;
     if key \<le> bc_key btc
     then (case bc_fields btc of TableInternal child_page \<Rightarrow> Some child_page | _ \<Rightarrow> None)
     else find_child btn key is }"

definition load_node :: "disk \<Rightarrow> Pager \<Rightarrow> u32 \<Rightarrow> BTreeNode option" where
  "load_node d pg n = do { (_, btn) \<leftarrow> chidb_Btree_getNodeByPage d pg n; btn }"

partial_function (option) chidb_Btree_find ::
  "disk \<Rightarrow> Pager \<Rightarrow> u32 \<Rightarrow> u32 \<Rightarrow> (int \<times> (bytes \<times> u16) option) option" where
  "chidb_Btree_find d pg nroot key = do {
     btn \<leftarrow> load_node d pg nroot;
     if bn_type btn = PGTYPE_TABLE_LEAF then find_leaf btn key (cell_indices btn)
     else if bn_type btn = PGTYPE_TABLE_INTERNAL then do {
       child \<leftarrow> find_child btn key (cell_indices btn);
       chidb_Btree_find d pg child key }
     else Some (CHIDB_ENOTFOUND, None) }"

declare chidb_Btree_find.simps [code]

subsection \<open>Insertion into a node with room\<close>

text \<open>The arithmetic is that of \<open>size_t\<close> and, for the data size, of \<open>uint32_t\<close>; the test for
  \<open>PGTYPE_TABLE_INTERNAL\<close> is repeated in the code where the internal index cell is meant.\<close>

definition is_insertable :: "BTreeNode \<Rightarrow> BTreeCell \<Rightarrow> bool option" where
  "is_insertable btn btc = do {
     let num_bytes_available = (uint (bn_cells_offset btn) - uint (bn_free_offset btn)) mod 2 ^ 64;
     let num_bytes_needed = (2 :: int);
     num_bytes_needed \<leftarrow>
       (if bc_type btc = PGTYPE_TABLE_LEAF then
          (case bc_fields btc of
             TableLeaf data_size _ \<Rightarrow> Some (num_bytes_needed + uint (8 + data_size)) | _ \<Rightarrow> None)
        else if bc_type btc = PGTYPE_TABLE_INTERNAL then Some (num_bytes_needed + 8)
        else if bc_type btc = PGTYPE_INDEX_LEAF then Some (num_bytes_needed + 16)
        else if bc_type btc = PGTYPE_TABLE_INTERNAL then Some (num_bytes_needed + 12)
        else Some num_bytes_needed);
     Some (num_bytes_available \<ge> num_bytes_needed) }"

text \<open>The loop of \<open>chidb_Btree_insertNonFull\<close>: a duplicate (\<open>Inl\<close>), or the index of the
  first larger cell (\<open>n_cells\<close> when there is none).\<close>

fun insertion_index :: "BTreeNode \<Rightarrow> u32 \<Rightarrow> nat list \<Rightarrow> (int + nat) option" where
  "insertion_index btn key [] = Some (Inr (unat (bn_n_cells btn)))"
| "insertion_index btn key (i # is) = do {
     btc \<leftarrow> cell_of btn i;
     if key < bc_key btc then Some (Inr i)
     else if key = bc_key btc then Some (Inl CHIDB_EDUPLICATE)
     else insertion_index btn key is }"

text \<open>The child pointer of the next cell is set in a local copy of that cell, which is
  dropped; only \<open>right_page\<close> is changed in the node.\<close>

definition chidb_Btree_insertNonFull ::
  "disk \<Rightarrow> Pager \<Rightarrow> BTreeNode \<Rightarrow> BTreeCell \<Rightarrow> u32 \<Rightarrow> (int \<times> disk) option" where
  "chidb_Btree_insertNonFull d pg btn to_insert right_child = do {
     r \<leftarrow> insertion_index btn (bc_key to_insert) (cell_indices btn);
     case r of
       Inl rc \<Rightarrow> Some (rc, d)
     | Inr i \<Rightarrow> do {
         btn \<leftarrow> (if is_internal (bn_type btn) then
                  if i = unat (bn_n_cells btn) then Some (btn\<lparr>bn_right_page := right_child\<rparr>)
                  else do { _ \<leftarrow> cell_of btn i; Some btn }
                else Some btn);
         (rc, btn) \<leftarrow> chidb_Btree_insertCell btn (of_nat i) to_insert;
         if rc = CHIDB_OK then chidb_Btree_writeNode d pg btn else Some (rc, d) } }"

subsection \<open>Insertion with splits\<close>

text \<open>
  The linked list that records the path. Its only node is the local variable \<open>current\<close>,
  whose address every pointer of the list holds; \<open>val\<close> points to a node on the heap, which
  is a list of the nodes allocated so far, \<open>None\<close> once freed.
\<close>

datatype ll_ptr = LL_NULL | LL_current

record ll_node =
  ln_prev :: ll_ptr
  ln_val :: nat
  ln_next :: ll_ptr

record ll =
  ll_head :: ll_ptr
  ll_tail :: ll_ptr

record insert_vars =
  iv_nodes :: "BTreeNode option list"
  iv_btn :: nat
  iv_current :: ll_node
  iv_path :: ll

definition deref_node :: "insert_vars \<Rightarrow> nat \<Rightarrow> BTreeNode option" where
  "deref_node s a = (if a < length (iv_nodes s) then iv_nodes s ! a else None)"

definition deref_ll :: "insert_vars \<Rightarrow> ll_ptr \<Rightarrow> ll_node option" where
  "deref_ll s p = (case p of LL_NULL \<Rightarrow> None | LL_current \<Rightarrow> Some (iv_current s))"

text \<open>The end of the body of the first loop: \<open>next\<close> becomes \<open>btn\<close> and is appended to the path.\<close>

definition path_push :: "BTreeNode \<Rightarrow> insert_vars \<Rightarrow> insert_vars option" where
  "path_push nxt s = do {
     let a = length (iv_nodes s);
     let s = s\<lparr>iv_nodes := iv_nodes s @ [Some nxt], iv_btn := a\<rparr>;
     let s = s\<lparr>iv_current := (iv_current s)\<lparr>ln_val := a\<rparr>\<rparr>;
     _ \<leftarrow> deref_ll s (ll_tail (iv_path s));
     let s = s\<lparr>iv_current := (iv_current s)\<lparr>ln_next := LL_current\<rparr>\<rparr>;
     let s = s\<lparr>iv_current := (iv_current s)\<lparr>ln_prev := ll_tail (iv_path s)\<rparr>\<rparr>;
     Some (s\<lparr>iv_path := (iv_path s)\<lparr>ll_tail := LL_current\<rparr>\<rparr>) }"

datatype child_search = Duplicate | Child u32 | PastEnd

fun insert_child :: "BTreeNode \<Rightarrow> u32 \<Rightarrow> nat list \<Rightarrow> child_search option" where
  "insert_child btn key [] = Some PastEnd"
| "insert_child btn key (i # is) = do {
     btc \<leftarrow> cell_of btn i;
     if bn_type btn = PGTYPE_TABLE_INTERNAL then
       if key \<le> bc_key btc
       then (case bc_fields btc of TableInternal p \<Rightarrow> Some (Child p) | _ \<Rightarrow> None)
       else insert_child btn key is
     else
       if key = bc_key btc then Some Duplicate
       else if key < bc_key btc
       then (case bc_fields btc of IndexInternal _ p \<Rightarrow> Some (Child p) | _ \<Rightarrow> None)
       else insert_child btn key is }"

text \<open>The first loop of \<open>chidb_Btree_insert\<close>. When the page of the child cannot be read,
  \<open>next\<close> is still null and the right page is read in its place.\<close>

partial_function (option) insert_descend ::
  "disk \<Rightarrow> Pager \<Rightarrow> u32 \<Rightarrow> insert_vars \<Rightarrow> (int + insert_vars) option" where
  "insert_descend d pg key s = do {
     btn \<leftarrow> deref_node s (iv_btn s);
     if is_leaf (bn_type btn) then Some (Inr s)
     else do {
       r \<leftarrow> insert_child btn key (cell_indices btn);
       case r of
         Duplicate \<Rightarrow> Some (Inl CHIDB_EDUPLICATE)
       | PastEnd \<Rightarrow> do {
           nxt \<leftarrow> load_node d pg (bn_right_page btn);
           s \<leftarrow> path_push nxt s;
           insert_descend d pg key s }
       | Child p \<Rightarrow> do {
           (_, b) \<leftarrow> chidb_Btree_getNodeByPage d pg p;
           nxt \<leftarrow> (case b of None \<Rightarrow> load_node d pg (bn_right_page btn) | Some b \<Rightarrow> Some b);
           s \<leftarrow> path_push nxt s;
           insert_descend d pg key s } } }"

declare insert_descend.simps [code]

text \<open>Assigning \<open>tableInternal.child_page\<close> changes the first four bytes of the union.\<close>

fun set_first_word :: "u32 \<Rightarrow> cell_fields \<Rightarrow> cell_fields" where
  "set_first_word p (TableInternal _) = TableInternal p"
| "set_first_word p (TableLeaf _ data) = TableLeaf p data"
| "set_first_word p (IndexInternal _ child) = IndexInternal p child"
| "set_first_word p (IndexLeaf _) = IndexLeaf p"
| "set_first_word p NoFields = TableInternal p"

text \<open>
  The array of the cells of the overfull node. The C fills it from the front, one or two
  entries per turn, so the array built so far is a list that grows at its end;
  \<open>prev_right\<close> is \<open>(npage_t) -1\<close> until a node has been split.
\<close>

fun overfull_loop ::
  "BTreeNode \<Rightarrow> BTreeCell \<Rightarrow> u32 \<Rightarrow> nat list \<Rightarrow> bool \<Rightarrow> BTreeCell list \<Rightarrow> BTreeCell list option" where
  "overfull_loop btn to_insert prev_right [] inserted arr =
     Some (if inserted then arr else arr @ [to_insert])"
| "overfull_loop btn to_insert prev_right (i # is) inserted arr = do {
     btc \<leftarrow> cell_of btn i;
     if bc_key to_insert < bc_key btc \<and> \<not> inserted then do {
       let btc = (if prev_right \<noteq> - 1
                  then btc\<lparr>bc_fields := set_first_word prev_right (bc_fields btc)\<rparr> else btc);
       overfull_loop btn to_insert prev_right is True (arr @ [to_insert, btc]) }
     else overfull_loop btn to_insert prev_right is inserted (arr @ [btc]) }"

definition overfull_node :: "BTreeNode \<Rightarrow> BTreeCell \<Rightarrow> u32 \<Rightarrow> BTreeCell list option" where
  "overfull_node btn to_insert prev_right =
     overfull_loop btn to_insert prev_right (cell_indices btn) False []"

text \<open>A loop of \<open>chidb_Btree_insertCell\<close> from index \<open>i\<close>, its results ignored.\<close>

fun insert_cells :: "BTreeNode \<Rightarrow> nat \<Rightarrow> BTreeCell list \<Rightarrow> BTreeNode option" where
  "insert_cells btn i [] = Some btn"
| "insert_cells btn i (c # cs) = do {
     (_, btn) \<leftarrow> chidb_Btree_insertCell btn (of_nat i) c;
     insert_cells btn (Suc i) cs }"

fun index_child_page :: "cell_fields \<Rightarrow> u32 option" where
  "index_child_page (IndexInternal _ p) = Some p"
| "index_child_page _ = None"

fun table_child_page :: "cell_fields \<Rightarrow> u32 option" where
  "table_child_page (TableInternal p) = Some p"
| "table_child_page _ = None"

text \<open>The new cell for the parent, and the right pages of the two halves of an internal node.\<close>

definition split_parent :: "u8 \<Rightarrow> BTreeCell \<Rightarrow> u32 \<Rightarrow> BTreeNode \<Rightarrow> BTreeNode
    \<Rightarrow> (BTreeCell \<times> BTreeNode \<times> BTreeNode) option" where
  "split_parent t median left_npage left_child right_child =
     (if t = PGTYPE_TABLE_LEAF \<or> t = PGTYPE_TABLE_INTERNAL then do {
        let cell = \<lparr>bc_type = PGTYPE_TABLE_INTERNAL, bc_key = bc_key median,
                     bc_fields = TableInternal left_npage\<rparr>;
        if t = PGTYPE_TABLE_INTERNAL then do {
          p \<leftarrow> table_child_page (bc_fields median);
          Some (cell, left_child\<lparr>bn_right_page := p\<rparr>,
                right_child\<lparr>bn_right_page := bn_right_page left_child\<rparr>) }
        else Some (cell, left_child, right_child) }
      else do {
        keyPk \<leftarrow> index_keyPk (bc_fields median);
        let cell = \<lparr>bc_type = PGTYPE_INDEX_INTERNAL, bc_key = bc_key median,
                     bc_fields = IndexInternal keyPk left_npage\<rparr>;
        if t = PGTYPE_INDEX_INTERNAL then do {
          p \<leftarrow> index_child_page (bc_fields median);
          Some (cell, left_child\<lparr>bn_right_page := p\<rparr>,
                right_child\<lparr>bn_right_page := bn_right_page left_child\<rparr>) }
        else Some (cell, left_child, right_child) })"

text \<open>
  One turn of the second loop: the two halves of \<open>btn\<close> with the new cell are written,
  the left one to a new page at the root and to the page of \<open>btn\<close> elsewhere. The result is
  the page of the right half and the cell for the parent.
\<close>

definition split_node :: "disk \<Rightarrow> Pager \<Rightarrow> BTreeNode \<Rightarrow> BTreeCell \<Rightarrow> u32 \<Rightarrow> bool
    \<Rightarrow> (BTreeCell \<times> u32 \<times> disk \<times> Pager) option" where
  "split_node d pg btn to_insert prev_right btn_is_root = do {
     let t = bn_type btn;
     let median_index = unat (bn_n_cells btn) div 2;
     arr \<leftarrow> overfull_node btn to_insert prev_right;
     let (left_npage, pg) = (if btn_is_root then snd (chidb_Pager_allocatePage pg)
                             else (mp_npage (bn_page btn), pg));
     left_child \<leftarrow> chidb_Btree_createNode pg left_npage t;
     let (right_npage, pg) = snd (chidb_Pager_allocatePage pg);
     right_child \<leftarrow> chidb_Btree_createNode pg right_npage t;
     left_child \<leftarrow> insert_cells left_child 0 (take median_index arr);
     left_child \<leftarrow> (if t = PGTYPE_TABLE_LEAF
                    then insert_cells left_child median_index [arr ! median_index]
                    else Some left_child);
     right_child \<leftarrow> insert_cells right_child 0 (drop (median_index + 1) arr);
     (cell, left_child, right_child) \<leftarrow>
       split_parent t (arr ! median_index) left_npage left_child right_child;
     (_, d) \<leftarrow> chidb_Btree_writeNode d pg left_child;
     (_, d) \<leftarrow> chidb_Btree_writeNode d pg right_child;
     Some (cell, right_npage, d, pg) }"

text \<open>The second loop and the insertion after it.\<close>

partial_function (option) insert_split ::
  "disk \<Rightarrow> Pager \<Rightarrow> BTreeCell \<Rightarrow> u32 \<Rightarrow> insert_vars \<Rightarrow> (int \<times> disk \<times> Pager) option" where
  "insert_split d pg to_insert prev_right s = do {
     btn \<leftarrow> deref_node s (iv_btn s);
     ok \<leftarrow> is_insertable btn to_insert;
     if ok then do {
       (rc, d) \<leftarrow> chidb_Btree_insertNonFull d pg btn to_insert prev_right;
       Some (rc, d, pg) }
     else do {
       tail \<leftarrow> deref_ll s (ll_tail (iv_path s));
       let btn_is_root = (ln_val tail = iv_btn s);
       (cell, right_npage, d, pg) \<leftarrow> split_node d pg btn to_insert prev_right btn_is_root;
       if btn_is_root then do {
         let nroot = mp_npage (bn_page btn);
         let root_type = (if bn_type btn = PGTYPE_TABLE_LEAF \<or> bn_type btn = PGTYPE_TABLE_INTERNAL
                          then PGTYPE_TABLE_INTERNAL else PGTYPE_INDEX_INTERNAL);
         new_root \<leftarrow> chidb_Btree_createNode pg nroot root_type;
         (rc, d) \<leftarrow> chidb_Btree_insertNonFull d pg new_root cell right_npage;
         Some (rc, d, pg) }
       else do {
         let s = s\<lparr>iv_path := (iv_path s)\<lparr>ll_tail := ln_prev tail\<rparr>,
                   iv_nodes := (iv_nodes s)[iv_btn s := None]\<rparr>;
         tail \<leftarrow> deref_ll s (ll_tail (iv_path s));
         insert_split d pg cell right_npage (s\<lparr>iv_btn := ln_val tail\<rparr>) } } }"

declare insert_split.simps [code]

definition chidb_Btree_insert ::
  "disk \<Rightarrow> Pager \<Rightarrow> u32 \<Rightarrow> BTreeCell \<Rightarrow> (int \<times> disk \<times> Pager) option" where
  "chidb_Btree_insert d pg nroot to_insert = do {
     btn \<leftarrow> load_node d pg nroot;
     let current = \<lparr>ln_prev = LL_NULL, ln_val = 0, ln_next = LL_NULL\<rparr>;
     let path = \<lparr>ll_head = LL_current, ll_tail = LL_current\<rparr>;
     r \<leftarrow> insert_descend d pg (bc_key to_insert)
           \<lparr>iv_nodes = [Some btn], iv_btn = 0, iv_current = current, iv_path = path\<rparr>;
     case r of
       Inl rc \<Rightarrow> Some (rc, d, pg)
     | Inr s \<Rightarrow> insert_split d pg to_insert (- 1) s }"

definition chidb_Btree_insertInTable ::
  "disk \<Rightarrow> Pager \<Rightarrow> u32 \<Rightarrow> u32 \<Rightarrow> bytes \<Rightarrow> u16 \<Rightarrow> (int \<times> disk \<times> Pager) option" where
  "chidb_Btree_insertInTable d pg nroot key data sz =
     chidb_Btree_insert d pg nroot
       \<lparr>bc_type = PGTYPE_TABLE_LEAF, bc_key = key, bc_fields = TableLeaf (ucast sz) data\<rparr>"

definition chidb_Btree_insertInIndex ::
  "disk \<Rightarrow> Pager \<Rightarrow> u32 \<Rightarrow> u32 \<Rightarrow> u32 \<Rightarrow> (int \<times> disk \<times> Pager) option" where
  "chidb_Btree_insertInIndex d pg nroot keyIdx keyPk =
     chidb_Btree_insert d pg nroot
       \<lparr>bc_type = PGTYPE_INDEX_LEAF, bc_key = keyIdx, bc_fields = IndexLeaf keyPk\<rparr>"

end
