(* ===== verification/Cursor.thy ===== *)
theory Cursor
  imports Btree
begin

section \<open>dbm-cursor.c: cursors\<close>

text \<open>
  The cursors of \<open>src/db/src/libchidb/dbm-cursor.c\<close>. The path of a cursor is a doubly
  linked list on the heap, here a list of nodes indexed by address (\<open>None\<close> once freed);
  \<open>Ptr_uninit\<close> is a pointer nothing has been stored in. A call that ends the process is
  \<open>Inl\<close> of its exit status.
\<close>

subsection \<open>State\<close>

datatype cursor_type = CURSOR_UNSPECIFIED | CURSOR_READ | CURSOR_WRITE

datatype ptr = Ptr_null | Ptr nat | Ptr_uninit

record cell_cursor =
  cc_btn :: "BTreeNode option"
  cc_index :: u16

record path_node =
  pn_prev :: ptr
  pn_val :: cell_cursor
  pn_next :: ptr

record cursor_path =
  cp_head :: ptr
  cp_tail :: ptr

text \<open>\<open>cv_bt\<close> is \<open>None\<close> for the uninitialised \<open>BTree\<close> that stays when the file cannot be
  opened, and a cursor that was never initialised has no \<open>cu_vars\<close>.\<close>

record cursor_vars =
  cv_heap :: "path_node option list"
  cv_path :: cursor_path
  cv_bt :: "Pager option"

record dbm_cursor =
  cu_type :: cursor_type
  cu_vars :: "cursor_vars option"

definition heap_at :: "path_node option list \<Rightarrow> ptr \<Rightarrow> path_node option" where
  "heap_at h p = (case p of Ptr a \<Rightarrow> if a < length h then h ! a else None | _ \<Rightarrow> None)"

definition heap_put :: "path_node option list \<Rightarrow> ptr \<Rightarrow> path_node option \<Rightarrow> path_node option list option" where
  "heap_put h p n = (case p of
     Ptr a \<Rightarrow> if a < length h \<and> h ! a \<noteq> None then Some (h[a := n]) else None
   | _ \<Rightarrow> None)"

subsection \<open>Opening and closing\<close>

text \<open>The result holds the new \<open>db->bt\<close> as well; the return code of \<open>chidb_Btree_open\<close> is
  dropped.\<close>

definition chidb_dbm_init_cursor ::
  "disk \<Rightarrow> dbm_cursor \<Rightarrow> string option \<Rightarrow> Pager option \<Rightarrow> u32
    \<Rightarrow> (int + int \<times> disk \<times> Pager option \<times> dbm_cursor) option" where
  "chidb_dbm_init_cursor d cursor dbfile db_bt root =
     (if root \<noteq> 1 then Some (Inl 1)
      else do {
        file \<leftarrow> dbfile;
        (_, d, bt) \<leftarrow> chidb_Btree_open d file;
        let db_bt = (case bt of None \<Rightarrow> db_bt | Some b \<Rightarrow> Some b);
        Some (Inr (CHIDB_OK, d, db_bt, cursor\<lparr>cu_vars := Some
          \<lparr>cv_heap = [], cv_path = \<lparr>cp_head = Ptr_null, cp_tail = Ptr_null\<rparr>, cv_bt = bt\<rparr>\<rparr>)) })"

partial_function (option) free_path ::
  "Pager option \<Rightarrow> path_node option list \<Rightarrow> ptr \<Rightarrow> path_node option list option" where
  "free_path bt h cur =
     (if cur = Ptr_null then Some h
      else do {
        n \<leftarrow> heap_at h cur;
        btn \<leftarrow> cc_btn (pn_val n);
        pg \<leftarrow> bt;
        let _ = chidb_Btree_freeMemNode pg btn;
        h \<leftarrow> heap_put h cur None;
        free_path bt h (pn_next n) })"

declare free_path.simps [code]

text \<open>The C frees the address of a field of the cursor, which \<open>malloc\<close> never returned.\<close>

definition free_interior :: "unit option" where
  "free_interior = None"

definition chidb_dbm_free_cursor :: "dbm_cursor \<Rightarrow> (int \<times> dbm_cursor) option" where
  "chidb_dbm_free_cursor cursor = do {
     v \<leftarrow> cu_vars cursor;
     h \<leftarrow> free_path (cv_bt v) (cv_heap v) (cp_head (cv_path v));
     _ \<leftarrow> free_interior;
     bt \<leftarrow> cv_bt v;
     _ \<leftarrow> chidb_Btree_close bt;
     Some (CHIDB_OK, cursor\<lparr>cu_type := CURSOR_UNSPECIFIED, cu_vars := Some (v\<lparr>cv_heap := h\<rparr>)\<rparr>) }"

subsection \<open>Rewind\<close>

definition child_page :: "BTreeNode \<Rightarrow> nat \<Rightarrow> u32 option" where
  "child_page btn i = do {
     btc \<leftarrow> cell_of btn i;
     if bn_type btn = PGTYPE_TABLE_INTERNAL then table_child_page (bc_fields btc)
     else index_child_page (bc_fields btc) }"

text \<open>\<open>cur\<close> is linked after the tail of the path, which must exist.\<close>

definition link_tail :: "path_node option list \<Rightarrow> cursor_path \<Rightarrow> cell_cursor
    \<Rightarrow> (path_node option list \<times> ptr) option" where
  "link_tail h path val = do {
     let cur = Ptr (length h);
     let h = h @ [Some \<lparr>pn_prev = cp_tail path, pn_val = val, pn_next = Ptr_uninit\<rparr>];
     t \<leftarrow> heap_at h (cp_tail path);
     h \<leftarrow> heap_put h (cp_tail path) (Some (t\<lparr>pn_next := cur\<rparr>));
     Some (h, cur) }"

text \<open>When the page of the child cannot be read, \<open>btn\<close> keeps its value.\<close>

partial_function (option) rewind_loop ::
  "disk \<Rightarrow> Pager \<Rightarrow> path_node option list \<Rightarrow> cursor_path \<Rightarrow> BTreeNode
    \<Rightarrow> (path_node option list \<times> cursor_path \<times> BTreeNode) option" where
  "rewind_loop d pg h path btn =
     (if is_internal (bn_type btn) then do {
        (h, cur) \<leftarrow> link_tail h path \<lparr>cc_btn = Some btn, cc_index = 0\<rparr>;
        let path = path\<lparr>cp_tail := cur\<rparr>;
        let path = (if cp_head path = Ptr_null then path\<lparr>cp_head := cur\<rparr> else path);
        p \<leftarrow> child_page btn 0;
        (_, b) \<leftarrow> chidb_Btree_getNodeByPage d pg p;
        rewind_loop d pg h path (case b of None \<Rightarrow> btn | Some b \<Rightarrow> b) }
      else Some (h, path, btn))"

declare rewind_loop.simps [code]

text \<open>The path is a local copy: the cursor keeps the one it had.\<close>

definition chidb_dbm_rewind :: "disk \<Rightarrow> dbm_cursor \<Rightarrow> (bool \<times> dbm_cursor) option" where
  "chidb_dbm_rewind d cursor = do {
     v \<leftarrow> cu_vars cursor;
     pg \<leftarrow> cv_bt v;
     btn \<leftarrow> load_node d pg 1;
     (h, path, btn) \<leftarrow> rewind_loop d pg (cv_heap v) (cv_path v) btn;
     if bn_n_cells btn = 0 then Some (False, cursor\<lparr>cu_vars := Some (v\<lparr>cv_heap := h\<rparr>)\<rparr>)
     else do {
       (h, _) \<leftarrow> link_tail h path \<lparr>cc_btn = Some btn, cc_index = 0\<rparr>;
       Some (True, cursor\<lparr>cu_vars := Some (v\<lparr>cv_heap := h\<rparr>)\<rparr>) } }"

subsection \<open>Next\<close>

text \<open>Towards the root, freeing the nodes that are used up: the node to advance in, or none
  when the root is used up.\<close>

partial_function (option) next_up ::
  "Pager option \<Rightarrow> cursor_path \<Rightarrow> path_node option list \<Rightarrow> ptr
    \<Rightarrow> (path_node option list \<times> ptr option) option" where
  "next_up bt path h cur = do {
     n \<leftarrow> heap_at h cur;
     btn \<leftarrow> cc_btn (pn_val n);
     if cc_index (pn_val n) < bn_n_cells btn then Some (h, Some cur)
     else if cur = cp_head path then Some (h, None)
     else do {
       let up = pn_prev n;
       pg \<leftarrow> bt;
       let _ = chidb_Btree_freeMemNode pg btn;
       h \<leftarrow> heap_put h cur (Some (n\<lparr>pn_val := (pn_val n)\<lparr>cc_btn := None\<rparr>\<rparr>));
       u \<leftarrow> heap_at h up;
       h \<leftarrow> heap_put h (pn_next u) None;
       h \<leftarrow> heap_put h up (Some (u\<lparr>pn_next := Ptr_null\<rparr>));
       next_up bt path h up } }"

declare next_up.simps [code]

text \<open>Down to a leaf, along the current cell of the node and the first cells below it.\<close>

partial_function (option) next_down ::
  "disk \<Rightarrow> Pager option \<Rightarrow> path_node option list \<Rightarrow> ptr \<Rightarrow> (path_node option list \<times> ptr) option" where
  "next_down d bt h cur = do {
     n \<leftarrow> heap_at h cur;
     btn \<leftarrow> cc_btn (pn_val n);
     if is_internal (bn_type btn) then do {
       p \<leftarrow> child_page btn (unat (cc_index (pn_val n)));
       pg \<leftarrow> bt;
       b \<leftarrow> load_node d pg p;
       let new = Ptr (length h);
       let h = h @ [Some \<lparr>pn_prev = cur, pn_val = \<lparr>cc_btn = Some b, cc_index = 0\<rparr>, pn_next = Ptr_null\<rparr>];
       h \<leftarrow> heap_put h cur (Some (n\<lparr>pn_next := new\<rparr>));
       next_down d bt h new }
     else Some (h, cur) }"

declare next_down.simps [code]

definition chidb_dbm_next :: "disk \<Rightarrow> dbm_cursor \<Rightarrow> (int + bool \<times> dbm_cursor) option" where
  "chidb_dbm_next d cursor = do {
     v \<leftarrow> cu_vars cursor;
     if cp_head (cv_path v) = Ptr_null then Some (Inl 1)
     else do {
       (h, r) \<leftarrow> next_up (cv_bt v) (cv_path v) (cv_heap v) (cp_tail (cv_path v));
       case r of
         None \<Rightarrow> Some (Inr (False, cursor\<lparr>cu_vars := Some (v\<lparr>cv_heap := h\<rparr>)\<rparr>))
       | Some cur \<Rightarrow> do {
           n \<leftarrow> heap_at h cur;
           h \<leftarrow> heap_put h cur (Some (n\<lparr>pn_val := (pn_val n)\<lparr>cc_index := cc_index (pn_val n) + 1\<rparr>\<rparr>));
           (h, leaf) \<leftarrow> next_down d (cv_bt v) h cur;
           Some (Inr (True, cursor\<lparr>cu_vars := Some
             (v\<lparr>cv_heap := h, cv_path := (cv_path v)\<lparr>cp_tail := leaf\<rparr>\<rparr>)\<rparr>)) } } }"

definition chidb_dbm_prev :: "dbm_cursor \<Rightarrow> bool" where
  "chidb_dbm_prev cursor = True"

definition chidb_dbm_seek :: "dbm_cursor \<Rightarrow> u32 \<Rightarrow> bool" where
  "chidb_dbm_seek cursor key = True"

end
