(* ===== verification/Dbm.thy ===== *)
theory Dbm
  imports Cursor Records
begin

section \<open>dbm-types.h, dbm.c, dbm-ops.c: the database machine\<close>

text \<open>
  The machine of \<open>src/db/src/libchidb/dbm-types.h\<close>, \<open>dbm.c\<close> and \<open>dbm-ops.c\<close>: a program
  with registers and cursors. The three arrays are lists, \<open>None\<close> for the null pointer, as
  \<open>realloc\<close> returns it for the size 0 or when a block of more than \<open>st_mem\<close> elements is
  asked for. A C string is the list of its bytes without the terminating zero. A handler
  that ends the process gives \<open>Inl\<close> of the exit status.
\<close>

subsection \<open>Instructions, registers, statements\<close>

datatype opcode =
    Op_Noop | Op_OpenRead | Op_OpenWrite | Op_Close | Op_Rewind | Op_Next | Op_Prev
  | Op_Seek | Op_SeekGt | Op_SeekGe | Op_SeekLt | Op_SeekLe | Op_Column | Op_Key
  | Op_Integer | Op_String | Op_Null | Op_ResultRow | Op_MakeRecord | Op_Insert
  | Op_Eq | Op_Ne | Op_Lt | Op_Le | Op_Gt | Op_Ge
  | Op_IdxGt | Op_IdxGe | Op_IdxLt | Op_IdxLe | Op_IdxPKey | Op_IdxInsert
  | Op_CreateTable | Op_CreateIndex | Op_Copy | Op_SCopy | Op_Halt

record dbm_op =
  op_code :: opcode
  op_p1 :: u32
  op_p2 :: u32
  op_p3 :: u32
  op_p4 :: "bytes option"

datatype dbm_register = Reg_Unspecified | Reg_Null | Reg_Int32 u32 | Reg_String bytes | Reg_Binary bytes

record dbm_stmt =
  st_db_bt :: "Pager option"
  st_pc :: u32
  st_ops :: "dbm_op list option"
  st_nOps :: u32
  st_endOp :: u32
  st_reg :: "dbm_register list option"
  st_nReg :: u32
  st_cursors :: "dbm_cursor list option"
  st_nCursors :: u32
  st_startRR :: u32
  st_nRR :: u32
  st_cols :: "bytes list option"
  st_nCols :: u32
  st_explain :: bool
  st_error :: "bytes option"
  st_dbfile :: "string option"
  st_mem :: nat

definition DEFAULT_OPS_SIZE :: u32 where [simp]: "DEFAULT_OPS_SIZE = 50"
definition DEFAULT_REG_SIZE :: u32 where [simp]: "DEFAULT_REG_SIZE = 10"
definition DEFAULT_CUR_SIZE :: u32 where [simp]: "DEFAULT_CUR_SIZE = 10"
definition MAX_STR_LEN :: nat where [simp]: "MAX_STR_LEN = 256"

definition noop :: dbm_op where
  "noop = \<lparr>op_code = Op_Noop, op_p1 = 0, op_p2 = 0, op_p3 = 0, op_p4 = None\<rparr>"

subsection \<open>The arrays\<close>

text \<open>An array of \<open>n\<close> elements grown or cut to \<open>sz\<close>. The loop that initialises the new
  elements counts them with an \<open>int\<close>; once an allocation has failed, a later one leaves the
  first \<open>n\<close> elements uninitialised, which the model does not follow any further.\<close>

definition realloc_array :: "nat \<Rightarrow> 'a \<Rightarrow> 'a list option \<Rightarrow> u32 \<Rightarrow> u32 \<Rightarrow> (int \<times> 'a list option \<times> u32) option" where
  "realloc_array mem init arr n sz =
     (if sz = 0 \<or> mem < unat sz then Some (CHIDB_ENOMEM, None, n)
      else if 2 ^ 31 < unat sz \<or> arr = None \<and> n \<noteq> 0 then None
      else (let old = (case arr of None \<Rightarrow> [] | Some xs \<Rightarrow> xs) in
        Some (CHIDB_OK, Some (take (unat sz) old @ replicate (unat sz - unat n) init), sz)))"

definition realloc_ops :: "dbm_stmt \<Rightarrow> u32 \<Rightarrow> (int \<times> dbm_stmt) option" where
  "realloc_ops s sz = do {
     (rc, arr, n) \<leftarrow> realloc_array (st_mem s) noop (st_ops s) (st_nOps s) sz;
     Some (rc, s\<lparr>st_ops := arr, st_nOps := n\<rparr>) }"

definition realloc_reg :: "dbm_stmt \<Rightarrow> u32 \<Rightarrow> (int \<times> dbm_stmt) option" where
  "realloc_reg s sz = do {
     (rc, arr, n) \<leftarrow> realloc_array (st_mem s) Reg_Unspecified (st_reg s) (st_nReg s) sz;
     Some (rc, s\<lparr>st_reg := arr, st_nReg := n\<rparr>) }"

definition realloc_cur :: "dbm_stmt \<Rightarrow> u32 \<Rightarrow> (int \<times> dbm_stmt) option" where
  "realloc_cur s sz = do {
     (rc, arr, n) \<leftarrow> realloc_array (st_mem s) \<lparr>cu_type = CURSOR_UNSPECIFIED, cu_vars = None\<rparr>
       (st_cursors s) (st_nCursors s) sz;
     Some (rc, s\<lparr>st_cursors := arr, st_nCursors := n\<rparr>) }"

text \<open>\<open>junk\<close> is the statement \<open>malloc\<close> returned; \<open>error\<close> and \<open>dbfile\<close> are not initialised.\<close>

definition chidb_stmt_init :: "dbm_stmt \<Rightarrow> Pager option \<Rightarrow> (int \<times> dbm_stmt) option" where
  "chidb_stmt_init junk db_bt = do {
     let s = junk\<lparr>st_db_bt := db_bt, st_explain := False, st_pc := 0,
                  st_ops := None, st_nOps := 0, st_endOp := 0\<rparr>;
     (rc, s) \<leftarrow> realloc_ops s DEFAULT_OPS_SIZE;
     if rc \<noteq> CHIDB_OK then Some (rc, s)
     else do {
       let s = s\<lparr>st_reg := None, st_nReg := 0\<rparr>;
       (rc, s) \<leftarrow> realloc_reg s DEFAULT_REG_SIZE;
       if rc \<noteq> CHIDB_OK then Some (rc, s)
       else do {
         let s = s\<lparr>st_cursors := None, st_nCursors := 0\<rparr>;
         (rc, s) \<leftarrow> realloc_cur s DEFAULT_CUR_SIZE;
         if rc \<noteq> CHIDB_OK then Some (rc, s)
         else Some (CHIDB_OK, s\<lparr>st_startRR := 0, st_nRR := 0, st_cols := None, st_nCols := 0\<rparr>) } } }"

definition chidb_stmt_free :: "dbm_stmt \<Rightarrow> int \<times> dbm_stmt" where
  "chidb_stmt_free s = (CHIDB_OK, s\<lparr>st_ops := None, st_reg := None, st_cursors := None\<rparr>)"

text \<open>Access to an array of the machine; a negative index is outside it.\<close>

definition arr_get :: "'a list option \<Rightarrow> int \<Rightarrow> 'a option" where
  "arr_get arr i = do {
     xs \<leftarrow> arr;
     if 0 \<le> i \<and> nat i < length xs then Some (xs ! nat i) else None }"

definition arr_set :: "'a list option \<Rightarrow> int \<Rightarrow> 'a \<Rightarrow> 'a list option option" where
  "arr_set arr i x = do {
     xs \<leftarrow> arr;
     if 0 \<le> i \<and> nat i < length xs then Some (Some (xs[nat i := x])) else None }"

definition chidb_stmt_set_op :: "dbm_stmt \<Rightarrow> dbm_op \<Rightarrow> u32 \<Rightarrow> (int \<times> dbm_stmt) option" where
  "chidb_stmt_set_op s op pos = do {
     (rc, s) \<leftarrow> (if pos \<ge> st_nOps s then realloc_ops s (pos + 1) else Some (CHIDB_OK, s));
     if rc \<noteq> CHIDB_OK then Some (rc, s)
     else do {
       ops \<leftarrow> arr_set (st_ops s) (uint pos) op;
       let s = s\<lparr>st_ops := ops\<rparr>;
       Some (CHIDB_OK, if pos \<ge> st_endOp s then s\<lparr>st_endOp := pos + 1\<rparr> else s) } }"

subsection \<open>Instruction handlers\<close>

type_synonym handler_result = "(int + int \<times> disk \<times> dbm_stmt) option"

definition ok :: "disk \<Rightarrow> dbm_stmt \<Rightarrow> handler_result" where
  "ok d s = Some (Inr (CHIDB_OK, d, s))"

definition chidb_dbm_op_Noop :: "disk \<Rightarrow> dbm_stmt \<Rightarrow> dbm_op \<Rightarrow> handler_result" where
  "chidb_dbm_op_Noop d s op = ok d s"

definition open_cursor :: "cursor_type \<Rightarrow> disk \<Rightarrow> dbm_stmt \<Rightarrow> dbm_op \<Rightarrow> handler_result" where
  "open_cursor ty d s op = do {
     cu \<leftarrow> arr_get (st_cursors s) (sint (op_p1 op));
     r \<leftarrow> chidb_dbm_init_cursor d (cu\<lparr>cu_type := ty\<rparr>) (st_dbfile s) (st_db_bt s) (op_p2 op);
     case r of
       Inl status \<Rightarrow> Some (Inl status)
     | Inr (rc, d, db_bt, cu) \<Rightarrow> do {
         cursors \<leftarrow> arr_set (st_cursors s) (sint (op_p1 op)) cu;
         Some (Inr (rc, d, s\<lparr>st_cursors := cursors, st_db_bt := db_bt\<rparr>)) } }"

definition chidb_dbm_op_OpenRead :: "disk \<Rightarrow> dbm_stmt \<Rightarrow> dbm_op \<Rightarrow> handler_result" where
  "chidb_dbm_op_OpenRead d s op = open_cursor CURSOR_READ d s op"

definition chidb_dbm_op_OpenWrite :: "disk \<Rightarrow> dbm_stmt \<Rightarrow> dbm_op \<Rightarrow> handler_result" where
  "chidb_dbm_op_OpenWrite d s op = open_cursor CURSOR_WRITE d s op"

definition chidb_dbm_op_Close :: "disk \<Rightarrow> dbm_stmt \<Rightarrow> dbm_op \<Rightarrow> handler_result" where
  "chidb_dbm_op_Close d s op = do {
     cu \<leftarrow> arr_get (st_cursors s) (sint (op_p1 op));
     (rc, cu) \<leftarrow> chidb_dbm_free_cursor cu;
     cursors \<leftarrow> arr_set (st_cursors s) (sint (op_p1 op)) cu;
     Some (Inr (rc, d, s\<lparr>st_cursors := cursors\<rparr>)) }"

definition chidb_dbm_op_Rewind :: "disk \<Rightarrow> dbm_stmt \<Rightarrow> dbm_op \<Rightarrow> handler_result" where
  "chidb_dbm_op_Rewind d s op = do {
     cu \<leftarrow> arr_get (st_cursors s) (sint (op_p1 op));
     (nonempty, cu) \<leftarrow> chidb_dbm_rewind d cu;
     cursors \<leftarrow> arr_set (st_cursors s) (sint (op_p1 op)) cu;
     let s = s\<lparr>st_cursors := cursors\<rparr>;
     ok d (if \<not> nonempty then s\<lparr>st_pc := op_p2 op\<rparr> else s) }"

definition chidb_dbm_op_Next :: "disk \<Rightarrow> dbm_stmt \<Rightarrow> dbm_op \<Rightarrow> handler_result" where
  "chidb_dbm_op_Next d s op = do {
     cu \<leftarrow> arr_get (st_cursors s) (sint (op_p1 op));
     r \<leftarrow> chidb_dbm_next d cu;
     case r of
       Inl status \<Rightarrow> Some (Inl status)
     | Inr (advanced, cu) \<Rightarrow> do {
         cursors \<leftarrow> arr_set (st_cursors s) (sint (op_p1 op)) cu;
         let s = s\<lparr>st_cursors := cursors\<rparr>;
         ok d (if advanced then s\<lparr>st_pc := op_p2 op\<rparr> else s) } }"

text \<open>\<open>chidb_dbm_prev\<close> gets the address of the cursor and does not access it.\<close>

definition chidb_dbm_op_Prev :: "disk \<Rightarrow> dbm_stmt \<Rightarrow> dbm_op \<Rightarrow> handler_result" where
  "chidb_dbm_op_Prev d s op = do {
     cu \<leftarrow> arr_get (st_cursors s) (sint (op_p1 op));
     ok d (if \<not> chidb_dbm_prev cu then s\<lparr>st_pc := op_p2 op\<rparr> else s) }"

text \<open>The registers grow when the destination, converted to unsigned, is past their end; the
  result of the reallocation is not checked.\<close>

definition store_register :: "dbm_stmt \<Rightarrow> u32 \<Rightarrow> dbm_register \<Rightarrow> dbm_stmt option" where
  "store_register s dest r = do {
     (_, s) \<leftarrow> (if dest \<ge> st_nReg s then realloc_reg s (dest + 1) else Some (CHIDB_OK, s));
     regs \<leftarrow> arr_set (st_reg s) (sint dest) r;
     Some (s\<lparr>st_reg := regs\<rparr>) }"

definition chidb_dbm_op_Integer :: "disk \<Rightarrow> dbm_stmt \<Rightarrow> dbm_op \<Rightarrow> handler_result" where
  "chidb_dbm_op_Integer d s op = do {
     s \<leftarrow> store_register s (op_p2 op) (Reg_Int32 (op_p1 op));
     ok d s }"

definition chidb_dbm_op_String :: "disk \<Rightarrow> dbm_stmt \<Rightarrow> dbm_op \<Rightarrow> handler_result" where
  "chidb_dbm_op_String d s op = do {
     val \<leftarrow> op_p4 op;
     s \<leftarrow> store_register s (op_p2 op) (Reg_String val);
     ok d s }"

definition chidb_dbm_op_Null :: "disk \<Rightarrow> dbm_stmt \<Rightarrow> dbm_op \<Rightarrow> handler_result" where
  "chidb_dbm_op_Null d s op = do {
     s \<leftarrow> store_register s (op_p2 op) Reg_Null;
     ok d s }"

subsection \<open>Comparisons\<close>

text \<open>The sign of \<open>memcmp\<close> on \<open>n\<close> bytes, and of \<open>strcmp\<close>.\<close>

fun memcmp :: "bytes \<Rightarrow> bytes \<Rightarrow> nat \<Rightarrow> int" where
  "memcmp (x # xs) (y # ys) (Suc n) = (if x < y then - 1 else if y < x then 1 else memcmp xs ys n)"
| "memcmp _ _ _ = 0"

fun strcmp :: "bytes \<Rightarrow> bytes \<Rightarrow> int" where
  "strcmp [] [] = 0"
| "strcmp [] (y # ys) = - 1"
| "strcmp (x # xs) [] = 1"
| "strcmp (x # xs) (y # ys) = (if x < y then - 1 else if y < x then 1 else strcmp xs ys)"

definition EXISTS_REGISTER :: "dbm_stmt \<Rightarrow> u32 \<Rightarrow> bool" where
  "EXISTS_REGISTER s r \<longleftrightarrow> 0 \<le> sint r \<and> r < st_nReg s"

text \<open>A comparison skips its jump when a register is missing or was never set; otherwise
  \<open>test r1 r2\<close> decides.\<close>

definition compare_op ::
  "(dbm_register \<Rightarrow> dbm_register \<Rightarrow> bool) \<Rightarrow> disk \<Rightarrow> dbm_stmt \<Rightarrow> dbm_op \<Rightarrow> handler_result" where
  "compare_op test d s op =
     (if \<not> EXISTS_REGISTER s (op_p1 op) then ok d s
      else do {
        r1 \<leftarrow> arr_get (st_reg s) (sint (op_p1 op));
        if r1 = Reg_Unspecified \<or> \<not> EXISTS_REGISTER s (op_p3 op) then ok d s
        else do {
          r2 \<leftarrow> arr_get (st_reg s) (sint (op_p3 op));
          if r2 = Reg_Unspecified then ok d s
          else ok d (if test r1 r2 then s\<lparr>st_pc := op_p2 op\<rparr> else s) } })"

fun test_Eq :: "dbm_register \<Rightarrow> dbm_register \<Rightarrow> bool" where
  "test_Eq (Reg_Int32 a) (Reg_Int32 b) = (a = b)"
| "test_Eq (Reg_String a) (Reg_String b) = (strcmp a b = 0)"
| "test_Eq (Reg_Binary a) (Reg_Binary b) = (length a = length b \<and> memcmp a b (length a) = 0)"
| "test_Eq _ _ = False"

fun test_Ne :: "dbm_register \<Rightarrow> dbm_register \<Rightarrow> bool" where
  "test_Ne (Reg_Int32 a) (Reg_Int32 b) = (a \<noteq> b)"
| "test_Ne (Reg_String a) (Reg_String b) = (strcmp a b \<noteq> 0)"
| "test_Ne (Reg_Binary a) (Reg_Binary b) = (length a \<noteq> length b \<or> memcmp a b (length a) \<noteq> 0)"
| "test_Ne _ _ = False"

fun test_Lt :: "dbm_register \<Rightarrow> dbm_register \<Rightarrow> bool" where
  "test_Lt (Reg_Int32 a) (Reg_Int32 b) = (sint b < sint a)"
| "test_Lt (Reg_String a) (Reg_String b) = (strcmp b a < 0)"
| "test_Lt (Reg_Binary a) (Reg_Binary b) = (memcmp b a (min (length a) (length b)) < 0)"
| "test_Lt _ _ = False"

fun test_Le :: "dbm_register \<Rightarrow> dbm_register \<Rightarrow> bool" where
  "test_Le (Reg_Int32 a) (Reg_Int32 b) = (sint b \<le> sint a)"
| "test_Le (Reg_String a) (Reg_String b) = (strcmp b a \<le> 0)"
| "test_Le (Reg_Binary a) (Reg_Binary b) = (memcmp b a (min (length a) (length b)) \<le> 0)"
| "test_Le _ _ = False"

fun test_Gt :: "dbm_register \<Rightarrow> dbm_register \<Rightarrow> bool" where
  "test_Gt (Reg_Int32 a) (Reg_Int32 b) = (sint b > sint a)"
| "test_Gt (Reg_String a) (Reg_String b) = (strcmp b a > 0)"
| "test_Gt (Reg_Binary a) (Reg_Binary b) = (memcmp b a (min (length a) (length b)) > 0)"
| "test_Gt _ _ = False"

fun test_Ge :: "dbm_register \<Rightarrow> dbm_register \<Rightarrow> bool" where
  "test_Ge (Reg_Int32 a) (Reg_Int32 b) = (sint b \<ge> sint a)"
| "test_Ge (Reg_String a) (Reg_String b) = (strcmp b a \<ge> 0)"
| "test_Ge (Reg_Binary a) (Reg_Binary b) = (memcmp b a (min (length a) (length b)) \<ge> 0)"
| "test_Ge _ _ = False"

definition chidb_dbm_op_Eq :: "disk \<Rightarrow> dbm_stmt \<Rightarrow> dbm_op \<Rightarrow> handler_result" where
  "chidb_dbm_op_Eq d s op = compare_op test_Eq d s op"

definition chidb_dbm_op_Ne :: "disk \<Rightarrow> dbm_stmt \<Rightarrow> dbm_op \<Rightarrow> handler_result" where
  "chidb_dbm_op_Ne d s op = compare_op test_Ne d s op"

definition chidb_dbm_op_Lt :: "disk \<Rightarrow> dbm_stmt \<Rightarrow> dbm_op \<Rightarrow> handler_result" where
  "chidb_dbm_op_Lt d s op = compare_op test_Lt d s op"

definition chidb_dbm_op_Le :: "disk \<Rightarrow> dbm_stmt \<Rightarrow> dbm_op \<Rightarrow> handler_result" where
  "chidb_dbm_op_Le d s op = compare_op test_Le d s op"

definition chidb_dbm_op_Gt :: "disk \<Rightarrow> dbm_stmt \<Rightarrow> dbm_op \<Rightarrow> handler_result" where
  "chidb_dbm_op_Gt d s op = compare_op test_Gt d s op"

definition chidb_dbm_op_Ge :: "disk \<Rightarrow> dbm_stmt \<Rightarrow> dbm_op \<Rightarrow> handler_result" where
  "chidb_dbm_op_Ge d s op = compare_op test_Ge d s op"

text \<open>The index instructions print a message and end the process.\<close>

definition chidb_dbm_op_IdxGt :: "disk \<Rightarrow> dbm_stmt \<Rightarrow> dbm_op \<Rightarrow> handler_result" where
  "chidb_dbm_op_IdxGt d s op = Some (Inl 1)"

definition chidb_dbm_op_IdxGe :: "disk \<Rightarrow> dbm_stmt \<Rightarrow> dbm_op \<Rightarrow> handler_result" where
  "chidb_dbm_op_IdxGe d s op = Some (Inl 1)"

definition chidb_dbm_op_IdxLt :: "disk \<Rightarrow> dbm_stmt \<Rightarrow> dbm_op \<Rightarrow> handler_result" where
  "chidb_dbm_op_IdxLt d s op = Some (Inl 1)"

definition chidb_dbm_op_IdxLe :: "disk \<Rightarrow> dbm_stmt \<Rightarrow> dbm_op \<Rightarrow> handler_result" where
  "chidb_dbm_op_IdxLe d s op = Some (Inl 1)"

definition chidb_dbm_op_IdxPKey :: "disk \<Rightarrow> dbm_stmt \<Rightarrow> dbm_op \<Rightarrow> handler_result" where
  "chidb_dbm_op_IdxPKey d s op = Some (Inl 1)"

definition chidb_dbm_op_IdxInsert :: "disk \<Rightarrow> dbm_stmt \<Rightarrow> dbm_op \<Rightarrow> handler_result" where
  "chidb_dbm_op_IdxInsert d s op = Some (Inl 1)"

text \<open>The handlers whose code is still to be written.\<close>

definition chidb_dbm_op_Seek :: "disk \<Rightarrow> dbm_stmt \<Rightarrow> dbm_op \<Rightarrow> handler_result" where
  "chidb_dbm_op_Seek d s op = ok d s"

definition chidb_dbm_op_SeekGt :: "disk \<Rightarrow> dbm_stmt \<Rightarrow> dbm_op \<Rightarrow> handler_result" where
  "chidb_dbm_op_SeekGt d s op = ok d s"

definition chidb_dbm_op_SeekGe :: "disk \<Rightarrow> dbm_stmt \<Rightarrow> dbm_op \<Rightarrow> handler_result" where
  "chidb_dbm_op_SeekGe d s op = ok d s"

definition chidb_dbm_op_SeekLt :: "disk \<Rightarrow> dbm_stmt \<Rightarrow> dbm_op \<Rightarrow> handler_result" where
  "chidb_dbm_op_SeekLt d s op = ok d s"

definition chidb_dbm_op_SeekLe :: "disk \<Rightarrow> dbm_stmt \<Rightarrow> dbm_op \<Rightarrow> handler_result" where
  "chidb_dbm_op_SeekLe d s op = ok d s"

definition chidb_dbm_op_Column :: "disk \<Rightarrow> dbm_stmt \<Rightarrow> dbm_op \<Rightarrow> handler_result" where
  "chidb_dbm_op_Column d s op = ok d s"

definition chidb_dbm_op_Key :: "disk \<Rightarrow> dbm_stmt \<Rightarrow> dbm_op \<Rightarrow> handler_result" where
  "chidb_dbm_op_Key d s op = ok d s"

definition chidb_dbm_op_ResultRow :: "disk \<Rightarrow> dbm_stmt \<Rightarrow> dbm_op \<Rightarrow> handler_result" where
  "chidb_dbm_op_ResultRow d s op = ok d s"

definition chidb_dbm_op_MakeRecord :: "disk \<Rightarrow> dbm_stmt \<Rightarrow> dbm_op \<Rightarrow> handler_result" where
  "chidb_dbm_op_MakeRecord d s op = ok d s"

definition chidb_dbm_op_Insert :: "disk \<Rightarrow> dbm_stmt \<Rightarrow> dbm_op \<Rightarrow> handler_result" where
  "chidb_dbm_op_Insert d s op = ok d s"

definition chidb_dbm_op_CreateTable :: "disk \<Rightarrow> dbm_stmt \<Rightarrow> dbm_op \<Rightarrow> handler_result" where
  "chidb_dbm_op_CreateTable d s op = ok d s"

definition chidb_dbm_op_CreateIndex :: "disk \<Rightarrow> dbm_stmt \<Rightarrow> dbm_op \<Rightarrow> handler_result" where
  "chidb_dbm_op_CreateIndex d s op = ok d s"

definition chidb_dbm_op_Copy :: "disk \<Rightarrow> dbm_stmt \<Rightarrow> dbm_op \<Rightarrow> handler_result" where
  "chidb_dbm_op_Copy d s op = ok d s"

definition chidb_dbm_op_SCopy :: "disk \<Rightarrow> dbm_stmt \<Rightarrow> dbm_op \<Rightarrow> handler_result" where
  "chidb_dbm_op_SCopy d s op = ok d s"

definition chidb_dbm_op_Halt :: "disk \<Rightarrow> dbm_stmt \<Rightarrow> dbm_op \<Rightarrow> handler_result" where
  "chidb_dbm_op_Halt d s op = do {
     let s = s\<lparr>st_pc := st_endOp s + 1\<rparr>;
     if op_p1 op \<noteq> 0 then do {
       msg \<leftarrow> op_p4 op;
       Some (Inr (sint (op_p1 op), d, s\<lparr>st_error := Some msg\<rparr>)) }
     else ok d s }"

text \<open>The dispatch table.\<close>

fun dbm_handlers :: "opcode \<Rightarrow> disk \<Rightarrow> dbm_stmt \<Rightarrow> dbm_op \<Rightarrow> handler_result" where
  "dbm_handlers Op_Noop = chidb_dbm_op_Noop"
| "dbm_handlers Op_OpenRead = chidb_dbm_op_OpenRead"
| "dbm_handlers Op_OpenWrite = chidb_dbm_op_OpenWrite"
| "dbm_handlers Op_Close = chidb_dbm_op_Close"
| "dbm_handlers Op_Rewind = chidb_dbm_op_Rewind"
| "dbm_handlers Op_Next = chidb_dbm_op_Next"
| "dbm_handlers Op_Prev = chidb_dbm_op_Prev"
| "dbm_handlers Op_Seek = chidb_dbm_op_Seek"
| "dbm_handlers Op_SeekGt = chidb_dbm_op_SeekGt"
| "dbm_handlers Op_SeekGe = chidb_dbm_op_SeekGe"
| "dbm_handlers Op_SeekLt = chidb_dbm_op_SeekLt"
| "dbm_handlers Op_SeekLe = chidb_dbm_op_SeekLe"
| "dbm_handlers Op_Column = chidb_dbm_op_Column"
| "dbm_handlers Op_Key = chidb_dbm_op_Key"
| "dbm_handlers Op_Integer = chidb_dbm_op_Integer"
| "dbm_handlers Op_String = chidb_dbm_op_String"
| "dbm_handlers Op_Null = chidb_dbm_op_Null"
| "dbm_handlers Op_ResultRow = chidb_dbm_op_ResultRow"
| "dbm_handlers Op_MakeRecord = chidb_dbm_op_MakeRecord"
| "dbm_handlers Op_Insert = chidb_dbm_op_Insert"
| "dbm_handlers Op_Eq = chidb_dbm_op_Eq"
| "dbm_handlers Op_Ne = chidb_dbm_op_Ne"
| "dbm_handlers Op_Lt = chidb_dbm_op_Lt"
| "dbm_handlers Op_Le = chidb_dbm_op_Le"
| "dbm_handlers Op_Gt = chidb_dbm_op_Gt"
| "dbm_handlers Op_Ge = chidb_dbm_op_Ge"
| "dbm_handlers Op_IdxGt = chidb_dbm_op_IdxGt"
| "dbm_handlers Op_IdxGe = chidb_dbm_op_IdxGe"
| "dbm_handlers Op_IdxLt = chidb_dbm_op_IdxLt"
| "dbm_handlers Op_IdxLe = chidb_dbm_op_IdxLe"
| "dbm_handlers Op_IdxPKey = chidb_dbm_op_IdxPKey"
| "dbm_handlers Op_IdxInsert = chidb_dbm_op_IdxInsert"
| "dbm_handlers Op_CreateTable = chidb_dbm_op_CreateTable"
| "dbm_handlers Op_CreateIndex = chidb_dbm_op_CreateIndex"
| "dbm_handlers Op_Copy = chidb_dbm_op_Copy"
| "dbm_handlers Op_SCopy = chidb_dbm_op_SCopy"
| "dbm_handlers Op_Halt = chidb_dbm_op_Halt"

definition chidb_dbm_op_handle :: "disk \<Rightarrow> dbm_stmt \<Rightarrow> dbm_op \<Rightarrow> handler_result" where
  "chidb_dbm_op_handle d s op = dbm_handlers (op_code op) d s op"

subsection \<open>Execution\<close>

partial_function (option) exec_loop :: "disk \<Rightarrow> dbm_stmt \<Rightarrow> handler_result" where
  "exec_loop d s =
     (if st_pc s < st_endOp s then do {
        op \<leftarrow> arr_get (st_ops s) (uint (st_pc s));
        r \<leftarrow> chidb_dbm_op_handle d (s\<lparr>st_pc := st_pc s + 1\<rparr>) op;
        case r of
          Inl status \<Rightarrow> Some (Inl status)
        | Inr (rc, d, s) \<Rightarrow> if rc \<noteq> CHIDB_OK then Some (Inr (rc, d, s)) else exec_loop d s }
      else Some (Inr (CHIDB_OK, d, s)))"

declare exec_loop.simps [code]

definition chidb_stmt_exec :: "disk \<Rightarrow> dbm_stmt \<Rightarrow> handler_result" where
  "chidb_stmt_exec d s = do {
     r \<leftarrow> exec_loop d s;
     case r of
       Inl status \<Rightarrow> Some (Inl status)
     | Inr (rc, d, s) \<Rightarrow>
         Some (Inr (if rc = CHIDB_OK \<or> rc = CHIDB_DONE then CHIDB_DONE else rc, d, s)) }"

end
