(* ===== verification/Api.thy ===== *)
theory Api
  imports Dbm
begin

section \<open>api.c, codegen.c, optimizer.c: the interface of the library\<close>

text \<open>
  The functions of \<open>src/db/src/libchidb/api.c\<close> with the code generator and the optimizer
  they call, and the routines of \<open>dbm.c\<close> that print registers. The SQL parser is a
  generated file: it is the argument \<open>parser\<close>, a function from the text to a return code
  and a statement, of which only the fields the library reads are modelled.
\<close>

subsection \<open>Names\<close>

fun op_str :: "opcode \<Rightarrow> string" where
  "op_str Op_Noop = ''Noop''"
| "op_str Op_OpenRead = ''OpenRead''"
| "op_str Op_OpenWrite = ''OpenWrite''"
| "op_str Op_Close = ''Close''"
| "op_str Op_Rewind = ''Rewind''"
| "op_str Op_Next = ''Next''"
| "op_str Op_Prev = ''Prev''"
| "op_str Op_Seek = ''Seek''"
| "op_str Op_SeekGt = ''SeekGt''"
| "op_str Op_SeekGe = ''SeekGe''"
| "op_str Op_SeekLt = ''SeekLt''"
| "op_str Op_SeekLe = ''SeekLe''"
| "op_str Op_Column = ''Column''"
| "op_str Op_Key = ''Key''"
| "op_str Op_Integer = ''Integer''"
| "op_str Op_String = ''String''"
| "op_str Op_Null = ''Null''"
| "op_str Op_ResultRow = ''ResultRow''"
| "op_str Op_MakeRecord = ''MakeRecord''"
| "op_str Op_Insert = ''Insert''"
| "op_str Op_Eq = ''Eq''"
| "op_str Op_Ne = ''Ne''"
| "op_str Op_Lt = ''Lt''"
| "op_str Op_Le = ''Le''"
| "op_str Op_Gt = ''Gt''"
| "op_str Op_Ge = ''Ge''"
| "op_str Op_IdxGt = ''IdxGt''"
| "op_str Op_IdxGe = ''IdxGe''"
| "op_str Op_IdxLt = ''IdxLt''"
| "op_str Op_IdxLe = ''IdxLe''"
| "op_str Op_IdxPKey = ''IdxPKey''"
| "op_str Op_IdxInsert = ''IdxInsert''"
| "op_str Op_CreateTable = ''CreateTable''"
| "op_str Op_CreateIndex = ''CreateIndex''"
| "op_str Op_Copy = ''Copy''"
| "op_str Op_SCopy = ''SCopy''"
| "op_str Op_Halt = ''Halt''"

definition bytes_of :: "string \<Rightarrow> bytes" where
  "bytes_of s = map (\<lambda>c. of_nat (of_char c)) s"

definition opcode_to_str :: "opcode \<Rightarrow> bytes" where
  "opcode_to_str opcode = bytes_of (op_str opcode)"

text \<open>The name is searched in the order of the table; \<open>-1\<close> when it is not there.\<close>

definition all_opcodes :: "opcode list" where
  "all_opcodes = [Op_Noop, Op_OpenRead, Op_OpenWrite, Op_Close, Op_Rewind, Op_Next, Op_Prev,
     Op_Seek, Op_SeekGt, Op_SeekGe, Op_SeekLt, Op_SeekLe, Op_Column, Op_Key,
     Op_Integer, Op_String, Op_Null, Op_ResultRow, Op_MakeRecord, Op_Insert, Op_Eq,
     Op_Ne, Op_Lt, Op_Le, Op_Gt, Op_Ge, Op_IdxGt, Op_IdxGe,
     Op_IdxLt, Op_IdxLe, Op_IdxPKey, Op_IdxInsert, Op_CreateTable, Op_CreateIndex, Op_Copy,
     Op_SCopy, Op_Halt]"

fun str_to_opcode_loop :: "bytes \<Rightarrow> opcode list \<Rightarrow> int \<Rightarrow> int" where
  "str_to_opcode_loop s [] i = - 1"
| "str_to_opcode_loop s (c # cs) i =
     (if strcmp s (opcode_to_str c) = 0 then i else str_to_opcode_loop s cs (i + 1))"

definition str_to_opcode :: "bytes \<Rightarrow> int" where
  "str_to_opcode s = str_to_opcode_loop s all_opcodes 0"

subsection \<open>Printing registers\<close>

fun digits :: "nat \<Rightarrow> bytes" where
  "digits n = (if n < 10 then [of_nat (48 + n)] else digits (n div 10) @ [of_nat (48 + n mod 10)])"

definition int_str :: "int \<Rightarrow> bytes" where
  "int_str i = (if i < 0 then 45 # digits (nat (- i)) else digits (nat i))"

definition chidb_stmt_reg_str :: "dbm_register \<Rightarrow> bytes" where
  "chidb_stmt_reg_str r = (case r of
     Reg_Unspecified \<Rightarrow> []
   | Reg_Null \<Rightarrow> bytes_of ''NULL''
   | Reg_Int32 i \<Rightarrow> take (MAX_STR_LEN - 1) (int_str (sint i))
   | Reg_String s \<Rightarrow> take (MAX_STR_LEN - 1) ([34] @ s @ [34])
   | Reg_Binary b \<Rightarrow> take (MAX_STR_LEN - 1)
       (bytes_of ''('' @ int_str (sint (of_nat (length b) :: u32)) @ bytes_of '' bytes)''))"

text \<open>The string is built in a buffer of \<open>MAX_STR_LEN + 1\<close> bytes.\<close>

fun rr_loop :: "dbm_stmt \<Rightarrow> u8 \<Rightarrow> nat list \<Rightarrow> bool \<Rightarrow> bytes \<Rightarrow> bytes option" where
  "rr_loop s sep [] first acc = Some acc"
| "rr_loop s sep (i # is) first acc = do {
     r \<leftarrow> arr_get (st_reg s) (int i);
     if r \<noteq> Reg_Unspecified then do {
       let acc = (if first then acc else acc @ (if sep = 0 then [] else [sep])) @ chidb_stmt_reg_str r;
       if length acc \<le> MAX_STR_LEN then rr_loop s sep is False acc else None }
     else rr_loop s sep is first acc }"

definition chidb_stmt_rr_str :: "dbm_stmt \<Rightarrow> u8 \<Rightarrow> bytes option" where
  "chidb_stmt_rr_str s sep =
     rr_loop s sep [unat (st_startRR s)..<unat (st_startRR s + st_nRR s)] True []"

subsection \<open>Opening and closing\<close>

text \<open>The return code of \<open>chidb_Btree_open\<close> is dropped; \<open>db->bt\<close> is then not set.\<close>

definition chidb_open :: "disk \<Rightarrow> string \<Rightarrow> (int \<times> disk \<times> Pager option) option" where
  "chidb_open d file = do {
     (_, d, bt) \<leftarrow> chidb_Btree_open d file;
     Some (CHIDB_OK, d, bt) }"

definition chidb_close :: "Pager option \<Rightarrow> int option" where
  "chidb_close db_bt = do {
     bt \<leftarrow> db_bt;
     _ \<leftarrow> chidb_Btree_close bt;
     Some CHIDB_OK }"

subsection \<open>Statements\<close>

record chisql_statement =
  sq_explain :: bool
  sq_text :: bytes

definition chidb_stmt_optimize :: "'a \<Rightarrow> int \<times> 'a" where
  "chidb_stmt_optimize sql_stmt = (CHIDB_OK, sql_stmt)"

definition codegen_ops :: "bytes \<Rightarrow> dbm_op list" where
  "codegen_ops sql = (let op = (\<lambda>c p1 p2 p3 p4. \<lparr>op_code = c, op_p1 = p1, op_p2 = p2, op_p3 = p3, op_p4 = p4\<rparr>) in
     [op Op_Integer 1 0 0 None,
      op Op_String (of_nat (length sql)) 1 0 (Some sql),
      op Op_Null 0 2 0 None,
      op Op_ResultRow 0 3 0 None,
      op Op_Integer 2 0 0 None,
      op Op_ResultRow 0 3 0 None,
      op Op_Integer 3 0 0 None,
      op Op_ResultRow 0 3 0 None,
      op Op_Integer 4 0 0 None,
      op Op_ResultRow 0 3 0 None,
      op Op_Integer 5 0 0 None,
      op Op_ResultRow 0 3 0 None,
      op Op_Halt 0 0 0 None])"

fun set_ops :: "dbm_stmt \<Rightarrow> dbm_op list \<Rightarrow> u32 \<Rightarrow> dbm_stmt option" where
  "set_ops s [] opnum = Some s"
| "set_ops s (op # ops) opnum = do {
     (_, s) \<leftarrow> chidb_stmt_set_op s op opnum;
     set_ops s ops (opnum + 1) }"

definition chidb_stmt_codegen :: "dbm_stmt \<Rightarrow> chisql_statement \<Rightarrow> (int \<times> dbm_stmt) option" where
  "chidb_stmt_codegen s sql_stmt = do {
     let s = s\<lparr>st_nCols := 3, st_cols := Some [bytes_of ''id'', bytes_of ''sql'', bytes_of ''null'']\<rparr>;
     s \<leftarrow> set_ops s (codegen_ops (sq_text sql_stmt)) 0;
     Some (CHIDB_OK, s) }"

text \<open>On an error the statement is freed and the caller's pointer dangles.\<close>

definition chidb_prepare ::
  "(bytes \<Rightarrow> int \<times> chisql_statement) \<Rightarrow> dbm_stmt \<Rightarrow> Pager option \<Rightarrow> bytes \<Rightarrow> (int \<times> dbm_stmt option) option" where
  "chidb_prepare parser junk db_bt sql = do {
     (rc, s) \<leftarrow> chidb_stmt_init junk db_bt;
     if rc \<noteq> CHIDB_OK then Some (rc, None)
     else do {
       let (rc, sql_stmt) = parser sql;
       if rc \<noteq> CHIDB_OK then Some (rc, None)
       else do {
         let (rc, sql_stmt_opt) = chidb_stmt_optimize sql_stmt;
         if rc \<noteq> CHIDB_OK then Some (rc, None)
         else do {
           (rc, s) \<leftarrow> chidb_stmt_codegen s sql_stmt_opt;
           Some (rc, Some (s\<lparr>st_explain := sq_explain sql_stmt\<rparr>)) } } } }"

definition chidb_step :: "disk \<Rightarrow> dbm_stmt \<Rightarrow> handler_result" where
  "chidb_step d s =
     (if st_explain s then
        if st_pc s = st_endOp s then Some (Inr (CHIDB_DONE, d, s))
        else Some (Inr (CHIDB_ROW, d, s\<lparr>st_pc := st_pc s + 1\<rparr>))
      else chidb_stmt_exec d s)"

definition chidb_finalize :: "dbm_stmt \<Rightarrow> int \<times> dbm_stmt" where
  "chidb_finalize s = chidb_stmt_free s"

subsection \<open>Columns\<close>

definition text_type :: "bytes \<Rightarrow> int" where
  "text_type s = sint (of_nat (2 * length s) + SQL_TEXT :: u32)"

definition chidb_column_count :: "dbm_stmt \<Rightarrow> int" where
  "chidb_column_count s = (if st_explain s then 6 else sint (st_nCols s))"

definition current_op :: "dbm_stmt \<Rightarrow> dbm_op option" where
  "current_op s = arr_get (st_ops s) (uint (st_pc s - 1))"

definition current_reg :: "dbm_stmt \<Rightarrow> int \<Rightarrow> dbm_register option" where
  "current_reg s col = arr_get (st_reg s) (uint (st_startRR s + word_of_int col))"

definition chidb_column_type :: "dbm_stmt \<Rightarrow> int \<Rightarrow> int option" where
  "chidb_column_type s col =
     (if st_explain s then do {
        if col = 0 \<or> col = 2 \<or> col = 3 \<or> col = 4 then Some (sint SQL_INTEGER_4BYTE)
        else if col = 1 then do { op \<leftarrow> current_op s; Some (text_type (opcode_to_str (op_code op))) }
        else if col = 5 then do {
          op \<leftarrow> current_op s;
          Some (case op_p4 op of None \<Rightarrow> sint SQL_NULL | Some t \<Rightarrow> text_type t) }
        else Some SQL_NOTVALID }
      else if col < 0 \<or> uint (st_nCols s) \<le> col then Some SQL_NOTVALID
      else do {
        r \<leftarrow> current_reg s col;
        Some (case r of
           Reg_Unspecified \<Rightarrow> SQL_NOTVALID
         | Reg_Binary _ \<Rightarrow> SQL_NOTVALID
         | Reg_Null \<Rightarrow> sint SQL_NULL
         | Reg_Int32 _ \<Rightarrow> sint SQL_INTEGER_4BYTE
         | Reg_String t \<Rightarrow> text_type t) })"

text \<open>\<open>None\<close> inside is the null pointer.\<close>

definition chidb_column_name :: "dbm_stmt \<Rightarrow> int \<Rightarrow> bytes option option" where
  "chidb_column_name s col =
     (if st_explain s then Some
        (if col = 0 then Some (bytes_of ''addr'') else if col = 1 then Some (bytes_of ''opcode'')
         else if col = 2 then Some (bytes_of ''p1'') else if col = 3 then Some (bytes_of ''p2'')
         else if col = 4 then Some (bytes_of ''p3'') else if col = 5 then Some (bytes_of ''p4'')
         else None)
      else if col < 0 \<or> uint (st_nCols s) \<le> col then Some None
      else do { name \<leftarrow> arr_get (st_cols s) col; Some (Some name) })"

definition chidb_column_int :: "dbm_stmt \<Rightarrow> int \<Rightarrow> int option" where
  "chidb_column_int s col =
     (if st_explain s then
        if col = 0 then Some (sint (st_pc s - 1))
        else if col = 2 then do { op \<leftarrow> current_op s; Some (sint (op_p1 op)) }
        else if col = 3 then do { op \<leftarrow> current_op s; Some (sint (op_p2 op)) }
        else if col = 4 then do { op \<leftarrow> current_op s; Some (sint (op_p3 op)) }
        else Some 0
      else if col < 0 \<or> uint (st_nCols s) \<le> col then Some 0
      else do {
        r \<leftarrow> current_reg s col;
        Some (case r of Reg_Int32 i \<Rightarrow> sint i | _ \<Rightarrow> 0) })"

definition chidb_column_text :: "dbm_stmt \<Rightarrow> int \<Rightarrow> bytes option option" where
  "chidb_column_text s col =
     (if st_explain s then
        if col = 1 then do { op \<leftarrow> current_op s; Some (Some (opcode_to_str (op_code op))) }
        else if col = 5 then do { op \<leftarrow> current_op s; Some (op_p4 op) }
        else Some None
      else if col < 0 \<or> uint (st_nCols s) \<le> col then Some None
      else do {
        r \<leftarrow> current_reg s col;
        Some (case r of Reg_String t \<Rightarrow> Some t | _ \<Rightarrow> None) })"

end
