(* ===== verification/NodeRep.thy ===== *)
theory NodeRep
  imports Node
begin

section \<open>The node layer as lists of cells\<close>

text \<open>
  The abstraction of a node is its list of cells. \<open>node_rep btn cs\<close> says that the node
  is laid out as the file format document prescribes and holds \<open>cs\<close>; the lemmas show
  that \<open>chidb_Btree_getCell\<close> is list indexing, \<open>chidb_Btree_insertCell\<close> list insertion,
  and that a node written to its page is read back.
\<close>

subsection \<open>Cells as bytes\<close>

definition enc_cell :: "BTreeCell \<Rightarrow> bytes" where
  "enc_cell c = (case bc_fields c of
     TableInternal child \<Rightarrow> enc4 child @ encV (bc_key c)
   | TableLeaf sz data \<Rightarrow> encV sz @ encV (bc_key c) @ data
   | IndexInternal pk child \<Rightarrow>
       enc4 child @ [0x0B] @ [0x03] @ [0x04] @ [0x04] @ enc4 (bc_key c) @ enc4 pk
   | IndexLeaf pk \<Rightarrow> [0x0B] @ [0x03] @ [0x04] @ [0x04] @ enc4 (bc_key c) @ enc4 pk
   | NoFields \<Rightarrow> [])"

text \<open>A cell fits its page type: the union member is the one of the type, and the values
  stored as varints have at most 28 bits.\<close>

definition cell_ok :: "u8 \<Rightarrow> BTreeCell \<Rightarrow> bool" where
  "cell_ok t c \<longleftrightarrow> bc_type c = t \<and> (case bc_fields c of
     TableInternal _ \<Rightarrow> t = PGTYPE_TABLE_INTERNAL \<and> unat (bc_key c) < 2 ^ 28
   | TableLeaf sz data \<Rightarrow> t = PGTYPE_TABLE_LEAF \<and> unat (bc_key c) < 2 ^ 28
       \<and> unat sz = length data \<and> length data < 2 ^ 16
   | IndexInternal _ _ \<Rightarrow> t = PGTYPE_INDEX_INTERNAL
   | IndexLeaf _ \<Rightarrow> t = PGTYPE_INDEX_LEAF
   | NoFields \<Rightarrow> False)"

lemma cell_okE:
  assumes "cell_ok t c"
  obtains
    (TI) key child where "c = \<lparr>bc_type = t, bc_key = key, bc_fields = TableInternal child\<rparr>"
      "t = PGTYPE_TABLE_INTERNAL" "unat key < 2 ^ 28"
  | (TL) key sz data where "c = \<lparr>bc_type = t, bc_key = key, bc_fields = TableLeaf sz data\<rparr>"
      "t = PGTYPE_TABLE_LEAF" "unat key < 2 ^ 28" "unat sz = length data" "length data < 2 ^ 16"
  | (II) key pk child where "c = \<lparr>bc_type = t, bc_key = key, bc_fields = IndexInternal pk child\<rparr>"
      "t = PGTYPE_INDEX_INTERNAL"
  | (IL) key pk where "c = \<lparr>bc_type = t, bc_key = key, bc_fields = IndexLeaf pk\<rparr>"
      "t = PGTYPE_INDEX_LEAF"
  using assms by (cases c) (auto simp: cell_ok_def split: cell_fields.splits)

lemma is_down_u16: "is_down (ucast :: u32 \<Rightarrow> u16)"
  by (simp add: is_down)

lemma ucast_add8:
  assumes "unat (sz :: u32) = n"
  shows "(ucast (sz + 8) :: u16) = 8 + of_nat n"
proof -
  have "sz + 8 = word_of_int (int n + 8)" using assms by auto
  then have "(ucast (sz + 8) :: u16) = word_of_int (int n + 8)"
    by (simp only: ucast_down_wi is_down_u16)
  then show ?thesis by (simp add: add.commute)
qed

lemma write_cell_eq:
  assumes "cell_ok t c"
  shows "write_cell m co c = do {
     m' \<leftarrow> mem_put m (uint co - int (length (enc_cell c))) (enc_cell c);
     Some (m', co - of_nat (length (enc_cell c))) }"
  using assms
proof (cases rule: cell_okE)
  case (TI key child)
  then show ?thesis
    by (simp add: write_cell_def enc_cell_def mem_put_append_rev putVarint32_eq put4byte_eq Let_def)
next
  case (TL key sz data)
  have "mem_get data 0 (unat sz) = Some data" using TL by (simp add: mem_get_def)
  moreover have "uint sz = int (length data)" using TL(4) by (rule uint_of_unat)
  moreover have "(ucast (sz + 8) :: u16) = 8 + of_nat (length data)" using TL(4) by (rule ucast_add8)
  ultimately show ?thesis
    using TL by (simp add: write_cell_def enc_cell_def mem_put_append_rev putVarint32_eq Let_def)
      (simp add: add.commute diff_diff_eq)
next
  case (II key pk child)
  then show ?thesis
    by (simp add: write_cell_def enc_cell_def mem_put_append_rev put4byte_eq wr_eq_mem_put
        Let_def del: append_Cons)
next
  case (IL key pk)
  then show ?thesis
    by (simp add: write_cell_def enc_cell_def mem_put_append_rev put4byte_eq wr_eq_mem_put
        Let_def del: append_Cons)
qed

subsection \<open>The layout of a node\<close>

definition hdr_size :: "u8 \<Rightarrow> int" where
  "hdr_size t = (if is_internal t then INTPG_CELLSOFFSET_OFFSET else LEAFPG_CELLSOFFSET_OFFSET)"

definition cell_at :: "bytes \<Rightarrow> int \<Rightarrow> u16 \<Rightarrow> BTreeCell \<Rightarrow> bool" where
  "cell_at m p lo c \<longleftrightarrow> (\<exists>off. get2byte m p = Some off \<and> lo \<le> off \<and>
     mem_get m (uint off) (length (enc_cell c)) = Some (enc_cell c))"

definition node_rep :: "BTreeNode \<Rightarrow> BTreeCell list \<Rightarrow> bool" where
  "node_rep btn cs \<longleftrightarrow>
     (is_internal (bn_type btn) \<or> is_leaf (bn_type btn)) \<and>
     bn_celloffset_array btn = header_offset (mp_npage (bn_page btn)) + hdr_size (bn_type btn) \<and>
     unat (bn_n_cells btn) = length cs \<and>
     uint (bn_free_offset btn) = bn_celloffset_array btn + 2 * int (length cs) \<and>
     bn_free_offset btn \<le> bn_cells_offset btn \<and>
     unat (bn_cells_offset btn) \<le> length (bn_data btn) \<and>
     (is_leaf (bn_type btn) \<longrightarrow> bn_right_page btn = 0) \<and>
     (\<forall>i < length cs. cell_ok (bn_type btn) (cs ! i) \<and>
        cell_at (bn_data btn) (bn_celloffset_array btn + 2 * int i) (bn_cells_offset btn) (cs ! i))"

text \<open>The room left between the offset array and the cells.\<close>

definition node_free :: "BTreeNode \<Rightarrow> int" where
  "node_free btn = uint (bn_cells_offset btn) - uint (bn_free_offset btn)"

lemma header_offset_nonneg [simp]: "0 \<le> header_offset n"
  by (simp add: header_offset_def)

lemma hdr_size_pos [simp]: "8 \<le> hdr_size t"
  by (simp add: hdr_size_def)

lemma is_leaf_not_internal: "is_leaf t \<Longrightarrow> \<not> is_internal t"
  by (auto simp: is_leaf_def is_internal_def)

lemma unat_le_iff_uint: "unat w \<le> n \<longleftrightarrow> uint w \<le> int n"
  using nat_le_iff [of "uint w" n] by (simp only: unat_eq_nat_uint)

lemma node_repD:
  assumes "node_rep btn cs"
  shows "is_internal (bn_type btn) \<or> is_leaf (bn_type btn)"
    and "bn_celloffset_array btn = header_offset (mp_npage (bn_page btn)) + hdr_size (bn_type btn)"
    and "unat (bn_n_cells btn) = length cs"
    and "uint (bn_free_offset btn) = bn_celloffset_array btn + 2 * int (length cs)"
    and "uint (bn_free_offset btn) \<le> uint (bn_cells_offset btn)"
    and "uint (bn_cells_offset btn) \<le> int (length (bn_data btn))"
    and "is_leaf (bn_type btn) \<Longrightarrow> bn_right_page btn = 0"
    and "i < length cs \<Longrightarrow> cell_ok (bn_type btn) (cs ! i)"
    and "i < length cs \<Longrightarrow>
      cell_at (bn_data btn) (bn_celloffset_array btn + 2 * int i) (bn_cells_offset btn) (cs ! i)"
  using assms by (auto simp: node_rep_def word_le_def unat_le_iff_uint)

subsection \<open>Reading a cell\<close>

lemma read_cell_enc:
  assumes "cell_ok t c" and enc: "mem_get m cd (length (enc_cell c)) = Some (enc_cell c)"
  shows "read_cell m t cd = Some (bc_key c, bc_fields c)"
  using assms(1)
proof (cases rule: cell_okE)
  case (TI key child)
  have "mem_get m cd 4 = Some (enc4 child)" "mem_get m (cd + 4) 4 = Some (encV key)"
    using enc mem_get_append [of m cd "enc4 child" "encV key"] TI(1) by (auto simp: enc_cell_def)
  then show ?thesis using TI by (simp add: read_cell_def field_eqs)
next
  case (TL key sz data)
  have f: "mem_get m cd 4 = Some (encV sz)" "mem_get m (cd + 4) 4 = Some (encV key)"
    "mem_get m (cd + 8) (length data) = Some data"
    using enc mem_get_append [of m cd "encV sz" "encV key @ data"]
      mem_get_append [of m "cd + 4" "encV key" data] TL(1) by (auto simp: enc_cell_def add.commute)
  then have "take (length data) (drop (nat (cd + 8)) m) = data"
    by (simp add: mem_get_def split: if_splits)
  moreover have "unat sz < 2 ^ 28" using TL(4,5) by simp
  ultimately show ?thesis using TL f by (simp add: read_cell_def field_eqs)
next
  case (II key pk child)
  have "mem_get m cd 4 = Some (enc4 child)" "mem_get m (cd + 8) 4 = Some (enc4 key)"
    "mem_get m (cd + 12) 4 = Some (enc4 pk)"
    using enc mem_get_append [of m cd "enc4 child" "[0x0B, 0x03, 0x04, 0x04] @ enc4 key @ enc4 pk"]
      mem_get_append [of m "cd + 4" "[0x0B, 0x03, 0x04, 0x04]" "enc4 key @ enc4 pk"]
      mem_get_append [of m "cd + 8" "enc4 key" "enc4 pk"] II(1)
    by (simp_all add: enc_cell_def add.assoc)
  then show ?thesis using II by (simp add: read_cell_def field_eqs)
next
  case (IL key pk)
  have "mem_get m (cd + 4) 4 = Some (enc4 key)" "mem_get m (cd + 8) 4 = Some (enc4 pk)"
    using enc mem_get_append [of m cd "[0x0B, 0x03, 0x04, 0x04]" "enc4 key @ enc4 pk"]
      mem_get_append [of m "cd + 4" "enc4 key" "enc4 pk"] IL(1)
    by (simp_all add: enc_cell_def add.assoc)
  then show ?thesis using IL by (simp add: read_cell_def field_eqs)
qed

theorem getCell_rep:
  assumes rep: "node_rep btn cs" and i: "unat i < length cs"
  shows "chidb_Btree_getCell btn i = Some (CHIDB_OK, Some (cs ! unat i))"
proof -
  let ?m = "bn_data btn" and ?c = "cs ! unat i"
  have le: "\<not> bn_n_cells btn < i"
    using i node_repD(3) [OF rep] by (simp add: word_less_nat_alt)
  obtain off where off: "get2byte ?m (bn_celloffset_array btn + int (unat i) * 2) = Some off"
    and enc: "mem_get ?m (uint off) (length (enc_cell ?c)) = Some (enc_cell ?c)"
    using node_repD(9) [OF rep i] by (auto simp: cell_at_def mult.commute)
  have ok: "cell_ok (bn_type btn) ?c" by (rule node_repD(8) [OF rep i])
  then have "bc_type ?c = bn_type btn" by (simp add: cell_ok_def)
  then show ?thesis
    using le off read_cell_enc [OF ok enc] by (simp add: chidb_Btree_getCell_def)
qed

subsection \<open>Inserting a cell\<close>

lemma cell_at_frame:
  assumes "cell_at m p lo c" and "get2byte m' p' = get2byte m p" and "lo' \<le> lo"
    and "\<And>q n. uint lo \<le> q \<Longrightarrow> mem_get m' q n = mem_get m q n"
  shows "cell_at m' p' lo' c"
  using assms by (fastforce simp: cell_at_def word_le_def)

text \<open>The node \<open>chidb_Btree_insertCell\<close> leaves behind.\<close>

abbreviation node_after :: "bytes \<Rightarrow> BTreeNode \<Rightarrow> BTreeCell \<Rightarrow> BTreeNode" where
  "node_after m btn c \<equiv> (set_data m btn)\<lparr>bn_cells_offset := bn_cells_offset btn - of_nat (length (enc_cell c)),
     bn_n_cells := bn_n_cells btn + 1, bn_free_offset := bn_free_offset btn + 2\<rparr>"

lemma set_data_simps [simp]:
  "bn_data (set_data m btn) = m" "bn_type (set_data m btn) = bn_type btn"
  "mp_npage (bn_page (set_data m btn)) = mp_npage (bn_page btn)"
  "bn_free_offset (set_data m btn) = bn_free_offset btn" "bn_n_cells (set_data m btn) = bn_n_cells btn"
  "bn_cells_offset (set_data m btn) = bn_cells_offset btn"
  "bn_right_page (set_data m btn) = bn_right_page btn"
  "bn_celloffset_array (set_data m btn) = bn_celloffset_array btn"
  by (simp_all add: set_data_def)

text \<open>The three writes of \<open>chidb_Btree_insertCell\<close>: the cell below the others, the later
  entries of the offset array one place up, the new entry.\<close>

lemma insertCell_writes:
  assumes rep: "node_rep btn cs" and ok: "cell_ok (bn_type btn) c" and i: "i \<le> length cs"
    and fit: "int (length (enc_cell c)) + 2 \<le> node_free btn"
  defines "nco \<equiv> bn_celloffset_array btn + 2 * int i"
    and "co' \<equiv> uint (bn_cells_offset btn) - int (length (enc_cell c))"
  obtains m1 m2 m3 moved where
    "mem_put (bn_data btn) co' (enc_cell c) = Some m1"
    "mem_get m1 nco ((length cs - i) * 2) = Some moved" "mem_put m1 (nco + 2) moved = Some m2"
    "put2byte m2 nco (bn_cells_offset btn - of_nat (length (enc_cell c))) = Some m3"
    "chidb_Btree_insertCell btn (of_nat i) c = Some (CHIDB_OK, node_after m3 btn c)"
proof -
  note r = node_repD [OF rep]
  let ?b = "bn_celloffset_array btn" and ?L = "length (enc_cell c)"
  have b: "8 \<le> ?b" unfolding r(2) using header_offset_nonneg hdr_size_pos
    by (metis add.left_neutral add_mono)
  have room: "?b + 2 * int (length cs) + 2 \<le> co'"
    using fit r(4) by (simp add: node_free_def co'_def)
  obtain m1 where m1: "mem_put (bn_data btn) co' (enc_cell c) = Some m1"
    using mem_put_ok [of co' "enc_cell c" "bn_data btn"] b room r(6) by (auto simp: co'_def)
  have l1: "length m1 = length (bn_data btn)" using m1 by (rule mem_put_length)
  have top: "co' \<le> int (length (bn_data btn))" using r(6) by (simp add: co'_def)
  obtain moved where mv: "mem_get m1 nco ((length cs - i) * 2) = Some moved"
    using mem_get_ok [of nco "(length cs - i) * 2" m1] b room top i l1 by (auto simp: nco_def)
  have lmv: "length moved = (length cs - i) * 2" using mem_get_SomeD [OF mv] by simp
  obtain m2 where m2: "mem_put m1 (nco + 2) moved = Some m2"
    using mem_put_ok [of "nco + 2" moved m1] b room top i l1 lmv by (auto simp: nco_def)
  have l2: "length m2 = length (bn_data btn)" using mem_put_length [OF m2] l1 by simp
  obtain m3 where m3: "put2byte m2 nco (bn_cells_offset btn - of_nat ?L) = Some m3"
    using mem_put_ok [of nco "enc2 (bn_cells_offset btn - of_nat ?L)" m2] b room top i l2
    by (auto simp: put2byte_eq nco_def)
  have small: "i < 2 ^ 16" using i r(3) unsigned_less [of "bn_n_cells btn", where ?'a = nat] by simp
  then have ui: "unat (of_nat i :: u16) = i" by (simp add: unat_of_nat)
  have le: "\<not> bn_n_cells btn < of_nat i" using i r(3) ui by (simp add: word_less_nat_alt)
  have "bc_type c = bn_type btn" using ok by (simp add: cell_ok_def)
  then have "chidb_Btree_insertCell btn (of_nat i) c = Some (CHIDB_OK, node_after m3 btn c)"
    using write_cell_eq [OF ok, of "bn_data btn" "bn_cells_offset btn"] m1 mv m2 m3 le i
    unfolding chidb_Btree_insertCell_def ui r(3) by (simp add: co'_def nco_def)
  with that m1 mv m2 m3 show ?thesis by blast
qed

theorem insertCell_rep:
  assumes rep: "node_rep btn cs" and ok: "cell_ok (bn_type btn) c" and i: "i \<le> length cs"
    and fit: "int (length (enc_cell c)) + 2 \<le> node_free btn"
  obtains m where
    "chidb_Btree_insertCell btn (of_nat i) c = Some (CHIDB_OK, node_after m btn c)"
    "node_rep (node_after m btn c) (take i cs @ c # drop i cs)"
    "length m = length (bn_data btn)"
proof -
  note r = node_repD [OF rep]
  let ?b = "bn_celloffset_array btn" and ?L = "length (enc_cell c)" and ?n = "length cs"
  let ?lo = "bn_cells_offset btn" and ?lo' = "bn_cells_offset btn - of_nat (length (enc_cell c))"
  obtain m1 m2 m3 moved where m1: "mem_put (bn_data btn) (uint ?lo - int ?L) (enc_cell c) = Some m1"
    and mv: "mem_get m1 (?b + 2 * int i) ((?n - i) * 2) = Some moved"
    and m2: "mem_put m1 (?b + 2 * int i + 2) moved = Some m2"
    and m3: "put2byte m2 (?b + 2 * int i) ?lo' = Some m3"
    and res: "chidb_Btree_insertCell btn (of_nat i) c = Some (CHIDB_OK, node_after m3 btn c)"
    using insertCell_writes [OF rep ok i fit] by metis
  have b: "8 \<le> ?b" unfolding r(2) using header_offset_nonneg hdr_size_pos
    by (metis add.left_neutral add_mono)
  have room: "?b + 2 * int ?n + 2 \<le> uint ?lo - int ?L"
    using fit r(4) by (simp add: node_free_def)
  have lmv: "length moved = (?n - i) * 2" using mem_get_SomeD [OF mv] by simp
  have len: "length m3 = length (bn_data btn)"
    using mem_put_length [OF m1] mem_put_length [OF m2] mem_put_length [OF m3 [unfolded put2byte_eq]]
    by simp
  have ulo: "uint ?lo' = uint ?lo - int ?L"
    using room b by (intro uint_minus_nat) linarith
  have lo_le: "?lo' \<le> ?lo" by (simp add: word_le_def ulo)
  text \<open>Nothing at or above the old cells changes.\<close>
  have keep: "mem_get m3 q k = mem_get (bn_data btn) q k" if "uint ?lo \<le> q" for q k
    using that room i lmv
      mem_get_put_disjoint [OF m1, of q k] mem_get_put_disjoint [OF m2, of q k]
      mem_get_put_disjoint [OF m3 [unfolded put2byte_eq], of q k] by simp
  have new: "cell_at m3 (?b + 2 * int i) ?lo' c"
    using get2byte_put2byte [OF m3] room i lmv ulo mem_get_put_same [OF m1 refl]
      mem_get_put_disjoint [OF m2, of "uint ?lo - int ?L" ?L]
      mem_get_put_disjoint [OF m3 [unfolded put2byte_eq], of "uint ?lo - int ?L" ?L]
    by (simp add: cell_at_def)
  have slot: "get2byte m3 (?b + 2 * int j) = get2byte (bn_data btn) (?b + 2 * int j)" if "j < i" for j
    using that room i lmv
      mem_get_put_disjoint [OF m1, of "?b + 2 * int j" 2] mem_get_put_disjoint [OF m2, of "?b + 2 * int j" 2]
      mem_get_put_disjoint [OF m3 [unfolded put2byte_eq], of "?b + 2 * int j" 2]
    by (simp add: get2byte_eq)
  have moved_slot: "get2byte m3 (?b + 2 * int (Suc j)) = get2byte (bn_data btn) (?b + 2 * int j)"
    if j: "i \<le> j" "j < ?n" for j
  proof -
    let ?k = "2 * (j - i)"
    have k: "?k + 2 \<le> (?n - i) * 2" using j by simp
    have k': "?b + 2 * int i + 2 + int ?k = ?b + 2 * int (Suc j)"
      "?b + 2 * int i + int ?k = ?b + 2 * int j" using j by simp_all
    have "mem_get m2 (?b + 2 * int (Suc j)) 2 = mem_get m1 (?b + 2 * int j) 2"
      using mem_get_within [OF mem_get_put_same [OF m2 lmv [symmetric]] k]
        mem_get_within [OF mv k] unfolding k' by simp
    moreover have "mem_get m3 (?b + 2 * int (Suc j)) 2 = mem_get m2 (?b + 2 * int (Suc j)) 2"
      using j by (intro mem_get_put_disjoint [OF m3 [unfolded put2byte_eq]]) simp
    moreover have "mem_get m1 (?b + 2 * int j) 2 = mem_get (bn_data btn) (?b + 2 * int j) 2"
      using j room by (intro mem_get_put_disjoint [OF m1]) simp
    ultimately show ?thesis by (simp add: get2byte_eq)
  qed
  have cells: "cell_ok (bn_type btn) ((take i cs @ c # drop i cs) ! j) \<and>
      cell_at m3 (?b + 2 * int j) ?lo' ((take i cs @ c # drop i cs) ! j)" if j: "j < Suc ?n" for j
  proof -
    consider "j < i" | "j = i" | j' where "j = Suc j'" "i \<le> j'" "j' < ?n"
      using j by (metis less_Suc_eq_le linorder_neqE_nat not_less_eq old.nat.exhaust less_zeroE Suc_less_SucD)
    then show ?thesis
    proof cases
      case 1
      then have "j < ?n" "(take i cs @ c # drop i cs) ! j = cs ! j" using i by (auto simp: nth_append)
      then show ?thesis
        using r(8) cell_at_frame [OF r(9) slot lo_le keep, of j] 1 by simp
    next
      case 2
      then have "(take i cs @ c # drop i cs) ! j = c" using i by (simp add: nth_append)
      then show ?thesis using new ok 2 by simp
    next
      case 3
      then have "(take i cs @ c # drop i cs) ! j = cs ! j'"
        using i by (auto simp: nth_append Suc_diff_le)
      then show ?thesis
        using r(8) cell_at_frame [OF r(9) moved_slot lo_le keep, of j'] 3 by simp
    qed
  qed
  have "unat (bn_n_cells btn + 1) = Suc ?n"
    using r(3) room b unsigned_less [of ?lo, where ?'a = int] by (simp add: unat_word_ariths)
  moreover have "uint (bn_free_offset btn + 2) = ?b + 2 * int (Suc ?n)"
    using r(4) room b unsigned_less [of ?lo, where ?'a = int] by (simp add: uint_word_ariths)
  ultimately have "node_rep (node_after m3 btn c) (take i cs @ c # drop i cs)"
    using r(1,2,6,7) cells i room ulo len
    by (simp add: node_rep_def word_le_def unat_le_iff_uint)
  with res len that show ?thesis by blast
qed

lemma node_free_after:
  assumes "node_rep btn cs" and "int (length (enc_cell c)) + 2 \<le> node_free btn"
  shows "node_free (node_after m btn c) = node_free btn - int (length (enc_cell c)) - 2"
proof -
  note r = node_repD [OF assms(1)]
  have b: "0 \<le> bn_celloffset_array btn" unfolding r(2) using header_offset_nonneg hdr_size_pos
    by (metis add_nonneg_nonneg dual_order.trans zero_le_numeral)
  have lt: "uint (bn_cells_offset btn) < 65536"
    using unsigned_less [of "bn_cells_offset btn", where ?'a = int] by simp
  have "uint (bn_cells_offset btn - of_nat (length (enc_cell c)))
      = uint (bn_cells_offset btn) - int (length (enc_cell c))"
    using assms(2) r(4) b by (intro uint_minus_nat) (simp add: node_free_def)
  moreover have "uint (bn_free_offset btn + 2) = uint (bn_free_offset btn) + 2"
    using assms(2) r(4) b lt by (simp add: uint_word_ariths node_free_def)
  ultimately show ?thesis by (simp add: node_free_def)
qed

subsection \<open>A new node\<close>

lemma createNode_rep:
  assumes t: "is_internal t \<or> is_leaf t" and ps: "112 \<le> unat (pg_page_size pg)"
  obtains btn where "chidb_Btree_createNode pg n t = Some btn" and "node_rep btn []"
    and "bn_type btn = t" and "mp_npage (bn_page btn) = n"
    and "length (bn_data btn) = unat (pg_page_size pg)"
    and "node_free btn = uint (pg_page_size pg) - header_offset n - hdr_size t"
    and "bn_right_page btn = 0"
proof -
  let ?m = "replicate (unat (pg_page_size pg)) (0 :: u8)"
  have lt: "uint (pg_page_size pg) < 65536"
    using unsigned_less [of "pg_page_size pg", where ?'a = int] by simp
  have ps': "112 \<le> uint (pg_page_size pg)" using ps by (simp only: unat_eq_nat_uint)
  have fo: "uint (word_of_int (hdr_size t + header_offset n) :: u16) = header_offset n + hdr_size t"
    by (simp add: hdr_size_def header_offset_def uint_word_of_int)
  have "mem_get ?m (header_offset n + 8) 4 = Some [0, 0, 0, 0]"
    using ps by (auto simp: mem_get_def header_offset_def eval_nat_numeral)
  then have r: "get4byte ?m (header_offset n + PGHEADER_RIGHTPG_OFFSET) = Some 0"
    by (simp add: get4byte_eq)
  let ?btn = "\<lparr>bn_page = chidb_Pager_initMemPage n (pg_page_size pg), bn_type = t,
     bn_free_offset = word_of_int (hdr_size t + header_offset n), bn_n_cells = 0,
     bn_cells_offset = pg_page_size pg, bn_right_page = 0,
     bn_celloffset_array = header_offset n + hdr_size t\<rparr>"
  have hs: "(if is_leaf t then LEAFPG_CELLSOFFSET_OFFSET else INTPG_CELLSOFFSET_OFFSET) = hdr_size t"
    using t is_leaf_not_internal by (auto simp: hdr_size_def)
  have "chidb_Btree_createNode pg n t = Some ?btn"
    using r unfolding chidb_Btree_createNode_def hs Let_def
    by (simp add: update_fields_def chidb_Pager_initMemPage_def hdr_size_def)
  moreover have "node_rep ?btn []"
    using t ps' fo by (simp add: node_rep_def chidb_Pager_initMemPage_def word_le_def hdr_size_def
        header_offset_def unat_le_iff_uint)
  ultimately show ?thesis using that fo
    by (simp add: chidb_Pager_initMemPage_def node_free_def)
qed

subsection \<open>A node and its page\<close>

text \<open>The bytes a node is stored as: its page with the header fields brought up to date.\<close>

definition synced :: "BTreeNode \<Rightarrow> bool" where
  "synced btn \<longleftrightarrow> (let ho = header_offset (mp_npage (bn_page btn)); m = bn_data btn in
     rd m ho = Some (bn_type btn) \<and> get2byte m (ho + 1) = Some (bn_free_offset btn) \<and>
     get2byte m (ho + 3) = Some (bn_n_cells btn) \<and> get2byte m (ho + 5) = Some (bn_cells_offset btn) \<and>
     (is_internal (bn_type btn) \<longrightarrow> get4byte m (ho + 8) = Some (bn_right_page btn)))"

lemma hdr_in_page:
  assumes "node_rep btn cs"
  shows "header_offset (mp_npage (bn_page btn)) + hdr_size (bn_type btn) \<le> int (length (bn_data btn))"
  using node_repD(2,4,5,6) [OF assms] by linarith

theorem syncNode_rep:
  assumes rep: "node_rep btn cs"
  obtains m where "chidb_Btree_syncNode btn = Some (set_data m btn)"
    and "node_rep (set_data m btn) cs" and "synced (set_data m btn)"
    and "length m = length (bn_data btn)"
proof -
  note r = node_repD [OF rep]
  let ?ho = "header_offset (mp_npage (bn_page btn))" and ?t = "bn_type btn"
  have room: "?ho + hdr_size ?t \<le> int (length (bn_data btn))" by (rule hdr_in_page [OF rep])
  have h8: "?ho + 8 \<le> int (length (bn_data btn))" using room hdr_size_pos [of ?t] by linarith
  obtain m1 where m1: "mem_put (bn_data btn) ?ho [?t] = Some m1"
    using mem_put_ok [of ?ho "[?t]" "bn_data btn"] h8 by auto
  obtain m2 where m2: "mem_put m1 (?ho + 1) (enc2 (bn_free_offset btn)) = Some m2"
    using mem_put_ok [of "?ho + 1" "enc2 (bn_free_offset btn)" m1] h8 mem_put_length [OF m1] by auto
  obtain m3 where m3: "mem_put m2 (?ho + 3) (enc2 (bn_n_cells btn)) = Some m3"
    using mem_put_ok [of "?ho + 3" "enc2 (bn_n_cells btn)" m2] h8 mem_put_length [OF m1]
      mem_put_length [OF m2] by auto
  obtain m4 where m4: "mem_put m3 (?ho + 5) (enc2 (bn_cells_offset btn)) = Some m4"
    using mem_put_ok [of "?ho + 5" "enc2 (bn_cells_offset btn)" m3] h8 mem_put_length [OF m1]
      mem_put_length [OF m2] mem_put_length [OF m3] by auto
  have l4: "length m4 = length (bn_data btn)"
    using mem_put_length [OF m1] mem_put_length [OF m2] mem_put_length [OF m3] mem_put_length [OF m4]
    by simp
  let ?r = "enc4 (bn_right_page btn)"
  obtain m5 where m5: "(if is_internal ?t then mem_put m4 (?ho + 8) ?r else Some m4) = Some m5"
    using mem_put_ok [of "?ho + 8" ?r m4] room l4
    by (cases "is_internal ?t") (auto simp: hdr_size_def)
  have l5: "length m5 = length (bn_data btn)"
    using m5 l4 mem_put_length [of m4 "?ho + 8" ?r m5] by (auto split: if_splits)
  have below: "mem_get m5 q k = mem_get m4 q k" if "q + int k \<le> ?ho + 8 \<or> ?ho + hdr_size ?t \<le> q" for q k
    using m5 that mem_get_put_disjoint [of m4 "?ho + 8" ?r m5 q k]
    by (auto simp: hdr_size_def split: if_splits)
  have frame: "mem_get m5 q k = mem_get (bn_data btn) q k" if "?ho + hdr_size ?t \<le> q" for q k
  proof -
    have q: "?ho + 8 \<le> q" using that hdr_size_pos [of ?t] by linarith
    then show ?thesis
      using below [of q k] that mem_get_put_disjoint [OF m1, of q k] mem_get_put_disjoint [OF m2, of q k]
        mem_get_put_disjoint [OF m3, of q k] mem_get_put_disjoint [OF m4, of q k] by simp
  qed
  have sync: "chidb_Btree_syncNode btn = Some (set_data m5 btn)"
    using m1 m2 m3 m4 m5 by (simp add: chidb_Btree_syncNode_def Let_def wr_eq_mem_put put2byte_eq
        put4byte_eq cong: if_cong)
  have "rd m5 ?ho = Some ?t"
    using mem_get_put_same [OF m1, of 1] below [of ?ho 1] mem_get_put_disjoint [OF m2, of ?ho 1]
      mem_get_put_disjoint [OF m3, of ?ho 1] mem_get_put_disjoint [OF m4, of ?ho 1]
    by (simp add: rd_eq_mem_get)
  moreover have "get2byte m5 (?ho + 1) = Some (bn_free_offset btn)"
    using mem_get_put_same [OF m2, of 2] below [of "?ho + 1" 2]
      mem_get_put_disjoint [OF m3, of "?ho + 1" 2] mem_get_put_disjoint [OF m4, of "?ho + 1" 2]
    by (simp add: get2byte_eq)
  moreover have "get2byte m5 (?ho + 3) = Some (bn_n_cells btn)"
    using mem_get_put_same [OF m3, of 2] below [of "?ho + 3" 2]
      mem_get_put_disjoint [OF m4, of "?ho + 3" 2] by (simp add: get2byte_eq)
  moreover have "get2byte m5 (?ho + 5) = Some (bn_cells_offset btn)"
    using mem_get_put_same [OF m4, of 2] below [of "?ho + 5" 2] by (simp add: get2byte_eq)
  moreover have "is_internal ?t \<longrightarrow> get4byte m5 (?ho + 8) = Some (bn_right_page btn)"
    using m5 mem_get_put_same [of m4 "?ho + 8" ?r m5 4] by (auto simp: get4byte_eq)
  ultimately have syn: "synced (set_data m5 btn)" by (simp add: synced_def)
  have "cell_at m5 (bn_celloffset_array btn + 2 * int i) (bn_cells_offset btn) (cs ! i)"
    if i: "i < length cs" for i
  proof (rule cell_at_frame [OF r(9) [OF i]])
    show "get2byte m5 (bn_celloffset_array btn + 2 * int i)
        = get2byte (bn_data btn) (bn_celloffset_array btn + 2 * int i)"
      using r(2) by (simp add: get2byte_eq frame)
    show "mem_get m5 q n = mem_get (bn_data btn) q n" if "uint (bn_cells_offset btn) \<le> q" for q n
      using that r(2,4,5) by (intro frame) linarith
  qed simp
  then have "node_rep (set_data m5 btn) cs"
    using rep l5 by (simp add: node_rep_def)
  with that sync syn l5 show ?thesis by blast
qed

text \<open>A synced node is what \<open>chidb_Btree_getNodeByPage\<close> makes of its page.\<close>

definition stored :: "disk \<Rightarrow> Pager \<Rightarrow> BTreeNode \<Rightarrow> bool" where
  "stored d pg btn \<longleftrightarrow> has_page pg (mp_npage (bn_page btn)) \<and>
     bn_data btn = page_data d pg (mp_npage (bn_page btn)) \<and> synced btn"

theorem getNodeByPage_stored:
  assumes "pager_ok d pg" and "stored d pg btn" and "node_rep btn cs"
  shows "chidb_Btree_getNodeByPage d pg (mp_npage (bn_page btn)) = Some (CHIDB_OK, Some btn)"
proof -
  have "bn_page btn = \<lparr>mp_npage = mp_npage (bn_page btn),
      mp_data = page_data d pg (mp_npage (bn_page btn))\<rparr>"
    using assms(2) by (simp add: stored_def)
  moreover have "is_leaf (bn_type btn) \<or> is_internal (bn_type btn)" using node_repD(1) [OF assms(3)] by auto
  ultimately show ?thesis
    using assms(2) node_repD(2,7) [OF assms(3)]
    by (cases btn) (auto simp: chidb_Btree_getNodeByPage_def stored_def synced_def Let_def
        readPage_ok [OF assms(1)] update_fields_def hdr_size_def is_leaf_not_internal)
qed

theorem writeNode_rep:
  assumes ok: "pager_ok d pg" and rep: "node_rep btn cs" and has: "has_page pg (mp_npage (bn_page btn))"
    and len: "length (bn_data btn) = unat (pg_page_size pg)"
  obtains m where
    "chidb_Btree_writeNode d pg btn = Some (CHIDB_OK, disk_put d pg (mp_npage (bn_page btn)) m)"
    "stored (disk_put d pg (mp_npage (bn_page btn)) m) pg (set_data m btn)"
    "node_rep (set_data m btn) cs" "length m = unat (pg_page_size pg)"
proof -
  obtain m where m: "chidb_Btree_syncNode btn = Some (set_data m btn)" "node_rep (set_data m btn) cs"
    "synced (set_data m btn)" "length m = length (bn_data btn)"
    using syncNode_rep [OF rep] by metis
  have pg: "bn_page (set_data m btn) = \<lparr>mp_npage = mp_npage (bn_page btn), mp_data = m\<rparr>"
    by (cases "bn_page btn") (simp add: set_data_def)
  have "chidb_Btree_writeNode d pg btn = Some (CHIDB_OK, disk_put d pg (mp_npage (bn_page btn)) m)"
    using writePage_ok [OF ok has, of m] m(1,4) len
    unfolding chidb_Btree_writeNode_def m(1) by (simp add: pg del: set_data_simps)
  moreover have "stored (disk_put d pg (mp_npage (bn_page btn)) m) pg (set_data m btn)"
    using m has len ok by (simp add: stored_def page_data_put_same)
  ultimately show ?thesis using that m len by simp
qed

end
