(* ===== verification/BtreeSpec.thy ===== *)
theory BtreeSpec
  imports Btree NodeRep
begin

section \<open>A table B-tree as a finite map\<close>

text \<open>
  The abstract side of the B-tree: a tree of pages whose leaves hold rows, with the search
  and the insertion the code performs on it. \<open>tree_rep d pg t\<close> says that the pages of the
  disk hold the tree \<open>t\<close>.
\<close>

type_synonym rows = "(u32 \<times> bytes) list"

datatype dtree = Leaf u32 rows | Node u32 kids
  and kids = Last dtree | Kid u32 dtree kids

primrec root_page :: "dtree \<Rightarrow> u32" where
  "root_page (Leaf p _) = p"
| "root_page (Node p _) = p"

primrec pages :: "dtree \<Rightarrow> u32 list" and kid_pages :: "kids \<Rightarrow> u32 list" where
  "pages (Leaf p _) = [p]"
| "pages (Node p ks) = p # kid_pages ks"
| "kid_pages (Last t) = pages t"
| "kid_pages (Kid _ t ks) = pages t @ kid_pages ks"

subsection \<open>Search and insertion on trees\<close>

primrec lookup :: "dtree \<Rightarrow> u32 \<Rightarrow> bytes option" and kid_lookup :: "kids \<Rightarrow> u32 \<Rightarrow> bytes option" where
  "lookup (Leaf _ kvs) k = map_of kvs k"
| "lookup (Node _ ks) k = kid_lookup ks k"
| "kid_lookup (Last t) k = lookup t k"
| "kid_lookup (Kid k' t ks) k = (if k \<le> k' then lookup t k else kid_lookup ks k)"

text \<open>The leaf a key belongs to, and the tree with that leaf replaced.\<close>

primrec leaf_of :: "dtree \<Rightarrow> u32 \<Rightarrow> u32 \<times> rows" and kid_leaf_of :: "kids \<Rightarrow> u32 \<Rightarrow> u32 \<times> rows" where
  "leaf_of (Leaf p kvs) k = (p, kvs)"
| "leaf_of (Node _ ks) k = kid_leaf_of ks k"
| "kid_leaf_of (Last t) k = leaf_of t k"
| "kid_leaf_of (Kid k' t ks) k = (if k \<le> k' then leaf_of t k else kid_leaf_of ks k)"

primrec replace_leaf :: "dtree \<Rightarrow> dtree \<Rightarrow> u32 \<Rightarrow> dtree"
  and kid_replace_leaf :: "dtree \<Rightarrow> kids \<Rightarrow> u32 \<Rightarrow> kids" where
  "replace_leaf u (Leaf p kvs) k = u"
| "replace_leaf u (Node p ks) k = Node p (kid_replace_leaf u ks k)"
| "kid_replace_leaf u (Last t) k = Last (replace_leaf u t k)"
| "kid_replace_leaf u (Kid k' t ks) k =
     (if k \<le> k' then Kid k' (replace_leaf u t k) ks else Kid k' t (kid_replace_leaf u ks k))"

text \<open>The position of a new row: before the first larger key.\<close>

fun place :: "u32 \<times> bytes \<Rightarrow> rows \<Rightarrow> rows" where
  "place r [] = [r]"
| "place r (q # qs) = (if fst r < fst q then r # q # qs else q # place r qs)"

text \<open>The space a leaf has, and the space its rows take (with their offsets).\<close>

definition leaf_room :: "Pager \<Rightarrow> u32 \<Rightarrow> int" where
  "leaf_room pg p = uint (pg_page_size pg) - header_offset p - 8"

definition rows_size :: "rows \<Rightarrow> int" where
  "rows_size kvs = (\<Sum>(k, v) \<leftarrow> kvs. int (length v) + 10)"

text \<open>A full leaf is split after its \<open>n div 2\<close>-th row, into two new pages below it.\<close>

definition split_leaf :: "Pager \<Rightarrow> u32 \<Rightarrow> u32 \<times> bytes \<Rightarrow> rows \<Rightarrow> dtree" where
  "split_leaf pg p r kvs =
     (let m = length kvs div 2; all = place r kvs; n = pg_n_pages pg in
      Node p (Kid (fst (all ! m)) (Leaf (n + 1) (take (Suc m) all)) (Last (Leaf (n + 2) (drop (Suc m) all)))))"

definition insert_row :: "Pager \<Rightarrow> u32 \<times> bytes \<Rightarrow> dtree \<Rightarrow> dtree" where
  "insert_row pg r t = (let (p, kvs) = leaf_of t (fst r) in
     replace_leaf
       (if rows_size (r # kvs) \<le> leaf_room pg p then Leaf p (place r kvs) else split_leaf pg p r kvs)
       t (fst r))"

primrec sorted_leaves :: "dtree \<Rightarrow> bool" and kid_sorted_leaves :: "kids \<Rightarrow> bool" where
  "sorted_leaves (Leaf _ kvs) = sorted_wrt (<) (map fst kvs)"
| "sorted_leaves (Node _ ks) = kid_sorted_leaves ks"
| "kid_sorted_leaves (Last t) = sorted_leaves t"
| "kid_sorted_leaves (Kid _ t ks) = (sorted_leaves t \<and> kid_sorted_leaves ks)"

subsection \<open>Insertion updates the map\<close>

lemma set_place [simp]: "set (place r kvs) = insert r (set kvs)"
  by (induction kvs) auto

lemma length_place [simp]: "length (place r kvs) = Suc (length kvs)"
  by (induction kvs) auto

lemma map_of_place:
  "fst r \<notin> fst ` set kvs \<Longrightarrow> map_of (place r kvs) = (map_of kvs)(fst r \<mapsto> snd r)"
  by (induction kvs) (auto simp: fun_eq_iff)

lemma sorted_place:
  "sorted_wrt (<) (map fst kvs) \<Longrightarrow> fst r \<notin> fst ` set kvs \<Longrightarrow>
   sorted_wrt (<) (map fst (place r kvs))"
  by (induction kvs) (auto simp: not_less order.order_iff_strict intro: less_trans)

lemma rows_size_place [simp]: "rows_size (place r kvs) = rows_size (r # kvs)"
  by (induction kvs) (auto simp: rows_size_def)

lemma lookup_leaf_of: "lookup t k = map_of (snd (leaf_of t k)) k"
  and kid_lookup_leaf_of: "kid_lookup ks k = map_of (snd (kid_leaf_of ks k)) k"
  by (induction t and ks) auto

lemma lookup_replace_leaf:
  "(\<And>k'. lookup u k' = (if k' = k then Some v else map_of (snd (leaf_of t k)) k')) \<Longrightarrow>
   lookup (replace_leaf u t k) = (lookup t)(k \<mapsto> v)"
  and kid_lookup_replace_leaf:
  "(\<And>k'. lookup u k' = (if k' = k then Some v else map_of (snd (kid_leaf_of ks k)) k')) \<Longrightarrow>
   kid_lookup (kid_replace_leaf u ks k) = (kid_lookup ks)(k \<mapsto> v)"
  by (induction t and ks) (auto simp: fun_eq_iff)

lemma sorted_leaf_of:
  "sorted_leaves t \<Longrightarrow> sorted_wrt (<) (map fst (snd (leaf_of t k)))"
  and kid_sorted_leaf_of:
  "kid_sorted_leaves ks \<Longrightarrow> sorted_wrt (<) (map fst (snd (kid_leaf_of ks k)))"
  by (induction t and ks) auto

lemma sorted_replace_leaf:
  "sorted_leaves t \<Longrightarrow> sorted_leaves u \<Longrightarrow> sorted_leaves (replace_leaf u t k)"
  and kid_sorted_replace_leaf:
  "kid_sorted_leaves ks \<Longrightarrow> sorted_leaves u \<Longrightarrow> kid_sorted_leaves (kid_replace_leaf u ks k)"
  by (induction t and ks) auto

lemma map_of_sorted_split:
  fixes xs :: "('a::linorder \<times> 'b) list"
  assumes s: "sorted_wrt (<) (map fst xs)" and m: "m < length xs"
  shows "map_of xs k = (if k \<le> fst (xs ! m) then map_of (take (Suc m) xs) k else map_of (drop (Suc m) xs) k)"
proof -
  have split: "map_of xs k = (case map_of (take (Suc m) xs) k of None \<Rightarrow> map_of (drop (Suc m) xs) k | v \<Rightarrow> v)"
    by (subst append_take_drop_id [of "Suc m", symmetric], subst map_of_append)
      (simp add: map_add_def split: option.splits)
  have le: "fst (xs ! i) \<le> fst (xs ! m)" if "i \<le> m" for i
    using s m that by (cases "i = m") (auto simp: sorted_wrt_iff_nth_less less_imp_le)
  have gt: "fst (xs ! m) < fst (xs ! i)" if "m < i" "i < length xs" for i
    using s that by (auto simp: sorted_wrt_iff_nth_less)
  show ?thesis
  proof (cases "k \<le> fst (xs ! m)")
    case True
    have "fst (xs ! m) < fst e" if "e \<in> set (drop (Suc m) xs)" for e
    proof -
      obtain i where "i < length xs - Suc m" "e = xs ! (Suc m + i)"
        using \<open>e \<in> set _\<close> m by (auto simp: in_set_conv_nth)
      then show ?thesis using gt [of "Suc m + i"] by simp
    qed
    then have "map_of (drop (Suc m) xs) k = None"
      using True by (fastforce simp: map_of_eq_None_iff)
    with True split show ?thesis by (simp split: option.splits)
  next
    case False
    have "fst e \<le> fst (xs ! m)" if "e \<in> set (take (Suc m) xs)" for e
    proof -
      obtain i where "i < Suc m" "e = xs ! i"
        using \<open>e \<in> set _\<close> m by (auto simp: in_set_conv_nth)
      then show ?thesis using le [of i] by simp
    qed
    then have "map_of (take (Suc m) xs) k = None"
      using False by (fastforce simp: map_of_eq_None_iff)
    with False split show ?thesis by simp
  qed
qed

lemma lookup_split_leaf:
  assumes "sorted_wrt (<) (map fst kvs)" and "fst r \<notin> fst ` set kvs"
  shows "lookup (split_leaf pg p r kvs) = (map_of kvs)(fst r \<mapsto> snd r)"
    and "sorted_leaves (split_leaf pg p r kvs)"
proof -
  let ?m = "length kvs div 2"
  have s: "sorted_wrt (<) (map fst (place r kvs))" using assms by (rule sorted_place)
  have "?m < length (place r kvs)" by simp
  from map_of_sorted_split [OF s this] show "lookup (split_leaf pg p r kvs) = (map_of kvs)(fst r \<mapsto> snd r)"
    using map_of_place [OF assms(2)] by (auto simp: split_leaf_def Let_def fun_eq_iff)
  show "sorted_leaves (split_leaf pg p r kvs)"
    using s by (simp add: split_leaf_def Let_def take_map [symmetric] drop_map [symmetric]
        sorted_wrt_take sorted_wrt_drop)
qed

text \<open>The abstract insertion is a map update, and keeps the leaves sorted.\<close>

lemma insert_row_correct:
  assumes "sorted_leaves t" and "lookup t (fst r) = None"
  shows "lookup (insert_row pg r t) = (lookup t)(fst r \<mapsto> snd r)"
    and "sorted_leaves (insert_row pg r t)"
proof -
  obtain p kvs where l: "leaf_of t (fst r) = (p, kvs)" by (cases "leaf_of t (fst r)")
  have s: "sorted_wrt (<) (map fst kvs)" using sorted_leaf_of [OF assms(1), of "fst r"] l by simp
  have new: "fst r \<notin> fst ` set kvs" using assms(2) l by (simp add: lookup_leaf_of map_of_eq_None_iff)
  let ?u = "if rows_size (r # kvs) \<le> leaf_room pg p then Leaf p (place r kvs) else split_leaf pg p r kvs"
  have u: "lookup ?u = (map_of kvs)(fst r \<mapsto> snd r)" "sorted_leaves ?u"
    using lookup_split_leaf [OF s new] map_of_place [OF new] sorted_place [OF s new] by auto
  show "lookup (insert_row pg r t) = (lookup t)(fst r \<mapsto> snd r)"
    using lookup_replace_leaf [of ?u "fst r" "snd r" t] u l by (simp add: insert_row_def)
  show "sorted_leaves (insert_row pg r t)"
    using sorted_replace_leaf [OF assms(1) u(2), of "fst r"] l by (simp add: insert_row_def)
qed

end
