(* ===== verification/BtreeRep.thy ===== *)
theory BtreeRep
  imports BtreeSpec
begin

section \<open>The B-tree code refines the tree of rows\<close>

text \<open>
  \<open>tree_rep d pg t\<close>: the pages of the disk hold the tree \<open>t\<close>. \<open>chidb_Btree_find\<close> is
  \<open>lookup\<close>, \<open>chidb_Btree_insertInTable\<close> is \<open>insert_row\<close>; in particular both loops end.
\<close>

subsection \<open>Representation\<close>

definition leaf_cell :: "u32 \<times> bytes \<Rightarrow> BTreeCell" where
  "leaf_cell r = \<lparr>bc_type = PGTYPE_TABLE_LEAF, bc_key = fst r,
     bc_fields = TableLeaf (of_nat (length (snd r))) (snd r)\<rparr>"

definition kid_cell :: "u32 \<Rightarrow> u32 \<Rightarrow> BTreeCell" where
  "kid_cell k p = \<lparr>bc_type = PGTYPE_TABLE_INTERNAL, bc_key = k, bc_fields = TableInternal p\<rparr>"

primrec kid_cells :: "kids \<Rightarrow> BTreeCell list" where
  "kid_cells (Last _) = []"
| "kid_cells (Kid k t ks) = kid_cell k (root_page t) # kid_cells ks"

primrec last_page :: "kids \<Rightarrow> u32" where
  "last_page (Last t) = root_page t"
| "last_page (Kid _ _ ks) = last_page ks"

definition cells_size :: "BTreeCell list \<Rightarrow> int" where
  "cells_size cs = (\<Sum>c \<leftarrow> cs. int (length (enc_cell c)) + 2)"

text \<open>A page of type \<open>t\<close> that holds the cells \<open>cs\<close> without gaps.\<close>

definition is_node :: "disk \<Rightarrow> Pager \<Rightarrow> u32 \<Rightarrow> u8 \<Rightarrow> BTreeCell list \<Rightarrow> u32 \<Rightarrow> BTreeNode \<Rightarrow> bool" where
  "is_node d pg p t cs right btn \<longleftrightarrow>
     stored d pg btn \<and> mp_npage (bn_page btn) = p \<and> bn_type btn = t \<and> node_rep btn cs \<and>
     bn_right_page btn = right \<and>
     node_free btn = uint (pg_page_size pg) - header_offset p - hdr_size t - cells_size cs"

primrec rep :: "disk \<Rightarrow> Pager \<Rightarrow> dtree \<Rightarrow> bool" and kid_rep :: "disk \<Rightarrow> Pager \<Rightarrow> kids \<Rightarrow> bool" where
  "rep d pg (Leaf p kvs) = (\<exists>btn. is_node d pg p PGTYPE_TABLE_LEAF (map leaf_cell kvs) 0 btn)"
| "rep d pg (Node p ks) = ((\<exists>btn. is_node d pg p PGTYPE_TABLE_INTERNAL (kid_cells ks) (last_page ks) btn)
     \<and> kid_rep d pg ks)"
| "kid_rep d pg (Last t) = rep d pg t"
| "kid_rep d pg (Kid _ t ks) = (rep d pg t \<and> kid_rep d pg ks)"

definition tree_rep :: "disk \<Rightarrow> Pager \<Rightarrow> dtree \<Rightarrow> bool" where
  "tree_rep d pg t \<longleftrightarrow> pager_ok d pg \<and> distinct (pages t) \<and> rep d pg t"

lemma is_node_load:
  "pager_ok d pg \<Longrightarrow> is_node d pg p t cs right btn \<Longrightarrow>
   chidb_Btree_getNodeByPage d pg p = Some (CHIDB_OK, Some btn)"
  using getNodeByPage_stored [of d pg btn cs] by (auto simp: is_node_def)

lemma load_node_rep:
  "pager_ok d pg \<Longrightarrow> is_node d pg p t cs right btn \<Longrightarrow> load_node d pg p = Some btn"
  by (simp add: load_node_def is_node_load)

text \<open>The loops over the cells of a node.\<close>

lemma drop_ConsD: "drop j xs = y # ys \<Longrightarrow> j < length xs \<and> xs ! j = y \<and> drop (Suc j) xs = ys"
  by (metis drop_eq_Nil list.distinct(1) list.inject not_le_imp_less Cons_nth_drop_Suc)

lemma cell_of_rep:
  assumes "node_rep btn cs" and "i < length cs"
  shows "cell_of btn i = Some (cs ! i)"
proof -
  have "i < 2 ^ 16"
    using assms(2) node_repD(3) [OF assms(1)] unsigned_less [of "bn_n_cells btn", where ?'a = nat] by simp
  then have "unat (of_nat i :: u16) = i" by (simp add: unat_of_nat)
  then show ?thesis using getCell_rep [OF assms(1), of "of_nat i"] assms(2) by (simp add: cell_of_def)
qed

lemma cell_of_drop:
  "node_rep btn cs \<Longrightarrow> drop j cs = c # cs' \<Longrightarrow> j < length cs \<and> cell_of btn j = Some c \<and> drop (Suc j) cs = cs'"
  using drop_ConsD [of j cs c cs'] cell_of_rep by auto

lemma cell_indices_rep: "node_rep btn cs \<Longrightarrow> cell_indices btn = [0..<length cs]"
  by (simp add: cell_indices_def node_repD(3))

subsection \<open>Search\<close>

definition find_result :: "bytes option \<Rightarrow> int \<times> (bytes \<times> u16) option" where
  "find_result r = (case r of None \<Rightarrow> (CHIDB_ENOTFOUND, None)
     | Some v \<Rightarrow> (CHIDB_OK, Some (v, of_nat (length v))))"

lemma ucast_of_nat_16: "(ucast (of_nat n :: u32) :: u16) = of_nat n"
  using ucast_down_wi [OF is_down_u16, of "int n"] by simp

lemma find_leaf_rep:
  assumes "node_rep btn (map leaf_cell kvs)" and "drop j kvs = ks"
  shows "find_leaf btn key [j..<length kvs] = Some (find_result (map_of ks key))"
  using assms(2)
proof (induction ks arbitrary: j)
  case Nil
  then show ?case by (simp add: find_result_def)
next
  case (Cons r rs)
  then have "drop j (map leaf_cell kvs) = leaf_cell r # map leaf_cell rs" by (simp add: drop_map)
  from cell_of_drop [OF assms(1) this] drop_ConsD [OF Cons.prems] Cons.IH [of "Suc j"] show ?case
    by (auto simp: upt_rec [of j] leaf_cell_def find_result_def ucast_of_nat_16)
qed

lemma find_rep_aux:
  assumes ok: "pager_ok d pg"
  shows "rep d pg t \<Longrightarrow> chidb_Btree_find d pg (root_page t) key = Some (find_result (lookup t key))"
    and "kid_rep d pg ks \<Longrightarrow> node_rep btn cs \<Longrightarrow> drop j cs = kid_cells ks \<Longrightarrow>
      bn_right_page btn = last_page ks \<Longrightarrow>
      \<exists>c. find_child btn key [j..<length cs] = Some c \<and>
        chidb_Btree_find d pg c key = Some (find_result (kid_lookup ks key))"
proof (induction t and ks arbitrary: and btn cs j)
  case (Leaf p kvs)
  then obtain btn where btn: "is_node d pg p PGTYPE_TABLE_LEAF (map leaf_cell kvs) 0 btn" by auto
  then have "node_rep btn (map leaf_cell kvs)" "bn_type btn = PGTYPE_TABLE_LEAF"
    by (simp_all add: is_node_def)
  then show ?case
    using find_leaf_rep [of btn kvs 0 kvs key] load_node_rep [OF ok btn]
    by (subst chidb_Btree_find.simps) (simp add: cell_indices_rep)
next
  case (Node p ks)
  then obtain btn where btn: "is_node d pg p PGTYPE_TABLE_INTERNAL (kid_cells ks) (last_page ks) btn"
    and "kid_rep d pg ks" by auto
  then have n: "node_rep btn (kid_cells ks)" "bn_type btn = PGTYPE_TABLE_INTERNAL"
    "bn_right_page btn = last_page ks" by (simp_all add: is_node_def)
  with Node.IH [OF \<open>kid_rep d pg ks\<close> n(1) _ n(3), of 0] show ?case
    using load_node_rep [OF ok btn]
    by (subst chidb_Btree_find.simps) (auto simp: cell_indices_rep)
next
  case (Last t)
  then have "length cs \<le> j" by simp
  then show ?case using Last by (simp)
next
  case (Kid k t ks)
  from cell_of_drop [OF Kid.prems(2), of j] Kid.prems(3)
  have j: "j < length cs" "cell_of btn j = Some (kid_cell k (root_page t))"
    "drop (Suc j) cs = kid_cells ks" by auto
  from Kid.IH(2) [OF _ Kid.prems(2) j(3)] Kid.prems Kid.IH(1) j show ?case
    by (auto simp: upt_rec [of j] kid_cell_def)
qed

lemma find_rep:
  assumes "tree_rep d pg t"
  shows "chidb_Btree_find d pg (root_page t) key = Some (find_result (lookup t key))"
  using assms find_rep_aux(1) by (simp add: tree_rep_def)

end
