(* ===== verification/BtreeInsert.thy ===== *)
theory BtreeInsert
  imports BtreeRep
begin

section \<open>Insertion into a table B-tree\<close>

subsection \<open>What an operation leaves alone\<close>

text \<open>From \<open>(d, pg)\<close> to \<open>(d', pg')\<close> no page outside \<open>W\<close> has changed.\<close>

definition keeps :: "disk \<Rightarrow> Pager \<Rightarrow> disk \<Rightarrow> Pager \<Rightarrow> u32 set \<Rightarrow> bool" where
  "keeps d pg d' pg' W \<longleftrightarrow> pager_ok d' pg' \<and> pg_page_size pg' = pg_page_size pg \<and> room d' = room d \<and>
     (\<forall>p. has_page pg p \<longrightarrow> has_page pg' p \<and> (p \<notin> W \<longrightarrow> page_data d' pg' p = page_data d pg p))"

lemma keeps_refl: "pager_ok d pg \<Longrightarrow> keeps d pg d pg {}"
  by (simp add: keeps_def)

lemma keeps_trans:
  "keeps d pg d1 pg1 V \<Longrightarrow> keeps d1 pg1 d2 pg2 W \<Longrightarrow> V \<subseteq> U \<Longrightarrow> W \<subseteq> U \<Longrightarrow> keeps d pg d2 pg2 U"
  unfolding keeps_def by (metis subsetD)

lemma keeps_put:
  assumes "pager_ok d pg" and "has_page pg p" and "length bs = unat (pg_page_size pg)"
  shows "keeps d pg (disk_put d pg p bs) pg {p}"
  using assms page_data_put_other [OF assms(1,2)] by (auto simp: keeps_def)

definition can_grow :: "disk \<Rightarrow> Pager \<Rightarrow> nat \<Rightarrow> bool" where
  "can_grow d pg j \<longleftrightarrow> (unat (pg_n_pages pg) + j) * unat (pg_page_size pg) < 2 ^ 32 \<and>
     (unat (pg_n_pages pg) + j) * unat (pg_page_size pg) \<le> room d"

lemma can_grow_unat:
  assumes "can_grow d pg j" and "pager_ok d pg" and "i \<le> j"
  shows "unat (pg_n_pages pg + of_nat i) = unat (pg_n_pages pg) + i"
proof -
  have "unat (pg_n_pages pg) + i \<le> (unat (pg_n_pages pg) + j) * unat (pg_page_size pg)"
    using assms(2,3) by (cases "unat (pg_page_size pg)") (auto simp: pager_ok_def intro: trans_le_add1)
  then have "unat (pg_n_pages pg) + i < 2 ^ 32" using assms(1) by (simp add: can_grow_def)
  then show ?thesis by (simp add: unat_word_ariths unat_of_nat)
qed

lemma keeps_grow:
  assumes "can_grow d pg j" and "pager_ok d pg"
  shows "keeps d pg d (pg\<lparr>pg_n_pages := pg_n_pages pg + of_nat j\<rparr>) {}"
proof -
  have n: "unat (pg_n_pages pg + of_nat j) = unat (pg_n_pages pg) + j"
    using can_grow_unat [OF assms, of j] by simp
  then show ?thesis
    using assms pager_ok_grow [OF assms(2), of "pg_n_pages pg + of_nat j"]
    by (auto simp: keeps_def can_grow_def has_page_unat)
qed

lemma stored_keeps:
  "keeps d pg d' pg' W \<Longrightarrow> stored d pg btn \<Longrightarrow> mp_npage (bn_page btn) \<notin> W \<Longrightarrow> stored d' pg' btn"
  by (auto simp: stored_def keeps_def)

lemma is_node_keeps:
  "keeps d pg d' pg' W \<Longrightarrow> is_node d pg p t cs right btn \<Longrightarrow> p \<notin> W \<Longrightarrow> is_node d' pg' p t cs right btn"
  using stored_keeps by (auto simp: is_node_def keeps_def)

lemma rep_keeps:
  "keeps d pg d' pg' W \<Longrightarrow> rep d pg t \<Longrightarrow> set (pages t) \<inter> W = {} \<Longrightarrow> rep d' pg' t"
  and kid_rep_keeps:
  "keeps d pg d' pg' W \<Longrightarrow> kid_rep d pg ks \<Longrightarrow> set (kid_pages ks) \<inter> W = {} \<Longrightarrow> kid_rep d' pg' ks"
  by (induction t and ks) (auto dest: is_node_keeps)

lemma rep_has_page: "rep d pg t \<Longrightarrow> p \<in> set (pages t) \<Longrightarrow> has_page pg p"
  and kid_rep_has_page: "kid_rep d pg ks \<Longrightarrow> p \<in> set (kid_pages ks) \<Longrightarrow> has_page pg p"
  by (induction t and ks) (auto simp: is_node_def stored_def)

subsection \<open>Replacing a leaf\<close>

lemma leaf_of_page: "fst (leaf_of t k) \<in> set (pages t)"
  and kid_leaf_of_page: "fst (kid_leaf_of ks k) \<in> set (kid_pages ks)"
  by (induction t and ks) auto

lemma root_page_in: "root_page t \<in> set (pages t)"
  by (cases t) auto

lemma root_page_replace:
  "root_page u = fst (leaf_of t k) \<Longrightarrow> root_page (replace_leaf u t k) = root_page t"
  and kid_cells_replace:
  "root_page u = fst (kid_leaf_of ks k) \<Longrightarrow>
   kid_cells (kid_replace_leaf u ks k) = kid_cells ks \<and> last_page (kid_replace_leaf u ks k) = last_page ks"
  by (induction t and ks) auto

lemma pages_replace:
  "set (pages (replace_leaf u t k)) \<subseteq> set (pages t) \<union> set (pages u)"
  and kid_pages_replace:
  "set (kid_pages (kid_replace_leaf u ks k)) \<subseteq> set (kid_pages ks) \<union> set (pages u)"
  by (induction t and ks) auto

lemma distinct_replace:
  "distinct (pages t) \<Longrightarrow> distinct (pages u) \<Longrightarrow> set (pages u) \<inter> set (pages t) \<subseteq> {fst (leaf_of t k)} \<Longrightarrow>
   distinct (pages (replace_leaf u t k))"
  and kid_distinct_replace:
  "distinct (kid_pages ks) \<Longrightarrow> distinct (pages u) \<Longrightarrow>
   set (pages u) \<inter> set (kid_pages ks) \<subseteq> {fst (kid_leaf_of ks k)} \<Longrightarrow>
   distinct (kid_pages (kid_replace_leaf u ks k))"
proof (induction t and ks)
  case (Node p ks)
  then show ?case using kid_pages_replace [of u ks k] kid_leaf_of_page [of ks k] by auto
next
  case (Kid k' t ks)
  then show ?case
    using pages_replace [of u t k] kid_pages_replace [of u ks k] leaf_of_page [of t k]
      kid_leaf_of_page [of ks k] by (cases "k \<le> k'") (auto; blast)+
qed auto

lemma rep_replace:
  "keeps d pg d' pg' W \<Longrightarrow> rep d pg t \<Longrightarrow> distinct (pages t) \<Longrightarrow>
   W \<inter> set (pages t) \<subseteq> {fst (leaf_of t k)} \<Longrightarrow> root_page u = fst (leaf_of t k) \<Longrightarrow> rep d' pg' u \<Longrightarrow>
   rep d' pg' (replace_leaf u t k)"
  and kid_rep_replace:
  "keeps d pg d' pg' W \<Longrightarrow> kid_rep d pg ks \<Longrightarrow> distinct (kid_pages ks) \<Longrightarrow>
   W \<inter> set (kid_pages ks) \<subseteq> {fst (kid_leaf_of ks k)} \<Longrightarrow> root_page u = fst (kid_leaf_of ks k) \<Longrightarrow>
   rep d' pg' u \<Longrightarrow> kid_rep d' pg' (kid_replace_leaf u ks k)"
proof (induction t and ks)
  case (Node p ks)
  then have "p \<notin> W" using kid_leaf_of_page [of ks k] by auto
  with Node show ?case by (auto simp: kid_cells_replace dest: is_node_keeps)
next
  case (Kid k' t ks)
  show ?case
  proof (cases "k \<le> k'")
    case True
    then have "set (kid_pages ks) \<inter> W = {}" using Kid.prems leaf_of_page [of t k] by auto
    with True Kid show ?thesis using kid_rep_keeps [of d pg d' pg' W ks] by auto
  next
    case False
    then have "set (pages t) \<inter> W = {}" using Kid.prems kid_leaf_of_page [of ks k] by auto
    with False Kid show ?thesis using rep_keeps [of d pg d' pg' W t] by auto
  qed
qed auto

lemma rep_leaf_of:
  "rep d pg t \<Longrightarrow> leaf_of t k = (p, kvs) \<Longrightarrow>
   \<exists>btn. is_node d pg p PGTYPE_TABLE_LEAF (map leaf_cell kvs) 0 btn"
  and kid_rep_leaf_of:
  "kid_rep d pg ks \<Longrightarrow> kid_leaf_of ks k = (p, kvs) \<Longrightarrow>
   \<exists>btn. is_node d pg p PGTYPE_TABLE_LEAF (map leaf_cell kvs) 0 btn"
  by (induction t and ks) (auto split: if_splits)

subsection \<open>Descending to the leaf\<close>

definition path_ok :: "insert_vars \<Rightarrow> bool" where
  "path_ok s \<longleftrightarrow> ll_tail (iv_path s) = LL_current \<and> ln_val (iv_current s) = iv_btn s"

lemma path_push_ok:
  assumes "path_ok s"
  obtains s' where "path_push n s = Some s'" and "path_ok s'" and "deref_node s' (iv_btn s') = Some n"
  using assms by (auto simp: path_push_def path_ok_def deref_ll_def deref_node_def Let_def)

definition reaches :: "disk \<Rightarrow> Pager \<Rightarrow> u32 \<Rightarrow> u32 \<Rightarrow> u32 \<Rightarrow> bool" where
  "reaches d pg key p q \<longleftrightarrow> (\<exists>n. load_node d pg p = Some n \<and> (\<forall>s. path_ok s \<and> deref_node s (iv_btn s) = Some n \<longrightarrow>
     (\<exists>s'. insert_descend d pg key s = Some (Inr s') \<and> path_ok s' \<and>
       deref_node s' (iv_btn s') = load_node d pg q)))"

lemma descend_rep:
  assumes ok: "pager_ok d pg"
  shows "rep d pg t \<Longrightarrow> reaches d pg key (root_page t) (fst (leaf_of t key))"
    and "kid_rep d pg ks \<Longrightarrow> node_rep btn cs \<Longrightarrow> drop j cs = kid_cells ks \<Longrightarrow>
      bn_type btn = PGTYPE_TABLE_INTERNAL \<Longrightarrow> bn_right_page btn = last_page ks \<Longrightarrow>
      \<exists>c. (insert_child btn key [j..<length cs] = Some (Child c) \<or>
           insert_child btn key [j..<length cs] = Some PastEnd \<and> c = bn_right_page btn) \<and>
        reaches d pg key c (fst (kid_leaf_of ks key))"
proof (induction t and ks arbitrary: and btn cs j)
  case (Leaf p kvs)
  then obtain btn where btn: "is_node d pg p PGTYPE_TABLE_LEAF (map leaf_cell kvs) 0 btn" by auto
  then have "bn_type btn = PGTYPE_TABLE_LEAF" by (simp add: is_node_def)
  then show ?case
    using load_node_rep [OF ok btn] by (auto simp: reaches_def insert_descend.simps is_leaf_def)
next
  case (Node p ks)
  then obtain btn where btn: "is_node d pg p PGTYPE_TABLE_INTERNAL (kid_cells ks) (last_page ks) btn"
    and ks: "kid_rep d pg ks" by auto
  then have n: "node_rep btn (kid_cells ks)" "bn_type btn = PGTYPE_TABLE_INTERNAL"
    "bn_right_page btn = last_page ks" by (simp_all add: is_node_def)
  obtain c where c: "insert_child btn key (cell_indices btn) = Some (Child c) \<or>
      insert_child btn key (cell_indices btn) = Some PastEnd \<and> c = bn_right_page btn"
    and r: "reaches d pg key c (fst (kid_leaf_of ks key))"
    using Node.IH [OF ks n(1) _ n(2,3), of 0] by (auto simp: cell_indices_rep [OF n(1)])
  obtain nxt where nxt: "load_node d pg c = Some nxt" using r by (auto simp: reaches_def)
  have get: "\<exists>rc. chidb_Btree_getNodeByPage d pg c = Some (rc, Some nxt)"
    using nxt by (auto simp: load_node_def bind_Some_conv)
  have "\<exists>s'. insert_descend d pg key s = Some (Inr s') \<and> path_ok s' \<and>
      deref_node s' (iv_btn s') = load_node d pg (fst (kid_leaf_of ks key))"
    if s: "path_ok s" "deref_node s (iv_btn s) = Some btn" for s
  proof -
    obtain s1 where s1: "path_push nxt s = Some s1" "path_ok s1" "deref_node s1 (iv_btn s1) = Some nxt"
      using path_push_ok [OF s(1), of nxt] by blast
    have "insert_descend d pg key s = insert_descend d pg key s1"
      using s n(2) c nxt get s1(1) by (subst insert_descend.simps) (auto simp: is_leaf_def)
    then show ?thesis using r nxt s1 by (auto simp: reaches_def)
  qed
  then show ?case using load_node_rep [OF ok btn] by (auto simp: reaches_def)
next
  case (Last t)
  then have "length cs \<le> j" by simp
  then show ?case using Last by simp
next
  case (Kid k t ks)
  from cell_of_drop [OF Kid.prems(2), of j] Kid.prems(3)
  have j: "j < length cs" "cell_of btn j = Some (kid_cell k (root_page t))"
    "drop (Suc j) cs = kid_cells ks" by auto
  from Kid.IH(2) [OF _ Kid.prems(2) j(3)] Kid.prems Kid.IH(1) j show ?case
    by (auto simp: upt_rec [of j] kid_cell_def)
qed

subsection \<open>Nodes being built\<close>

text \<open>A node in memory that holds the cells \<open>cs\<close> without gaps.\<close>

definition mem_node :: "Pager \<Rightarrow> u32 \<Rightarrow> u8 \<Rightarrow> BTreeCell list \<Rightarrow> u32 \<Rightarrow> BTreeNode \<Rightarrow> bool" where
  "mem_node pg p t cs right btn \<longleftrightarrow>
     mp_npage (bn_page btn) = p \<and> bn_type btn = t \<and> node_rep btn cs \<and> bn_right_page btn = right \<and>
     node_free btn = uint (pg_page_size pg) - header_offset p - hdr_size t - cells_size cs \<and>
     length (bn_data btn) = unat (pg_page_size pg)"

definition cells_room :: "Pager \<Rightarrow> u32 \<Rightarrow> u8 \<Rightarrow> int" where
  "cells_room pg p t = uint (pg_page_size pg) - header_offset p - hdr_size t"

lemma mem_node_grow [simp]: "mem_node (pg\<lparr>pg_n_pages := n\<rparr>) p t cs right btn = mem_node pg p t cs right btn"
  by (simp add: mem_node_def)

lemma is_node_mem: "is_node d pg p t cs right btn \<Longrightarrow> mem_node pg p t cs right btn"
  by (auto simp: is_node_def mem_node_def stored_def)

lemma cells_size_simps [simp]:
  "cells_size [] = 0" "cells_size (c # cs) = int (length (enc_cell c)) + 2 + cells_size cs"
  "cells_size (cs @ ds) = cells_size cs + cells_size ds"
  by (simp_all add: cells_size_def)

lemma cells_size_nonneg: "0 \<le> cells_size cs"
  by (induction cs) auto

lemma cells_size_insert: "cells_size (take i cs @ c # drop i cs) = cells_size (c # cs)"
proof -
  have "cells_size (take i cs) + cells_size (drop i cs) = cells_size cs"
    using cells_size_simps(3) [of "take i cs" "drop i cs"] by simp
  then show ?thesis by simp
qed

lemma insertCell_mem:
  assumes m: "mem_node pg p t cs right btn" and ok: "cell_ok t c" and i: "i \<le> length cs"
    and fit: "cells_size (c # cs) \<le> cells_room pg p t"
  obtains btn' where "chidb_Btree_insertCell btn (of_nat i) c = Some (CHIDB_OK, btn')"
    and "mem_node pg p t (take i cs @ c # drop i cs) right btn'"
proof -
  have rep: "node_rep btn cs" and ok': "cell_ok (bn_type btn) c"
    and fit': "int (length (enc_cell c)) + 2 \<le> node_free btn"
    using m ok fit by (auto simp: mem_node_def cells_room_def)
  obtain m' where "chidb_Btree_insertCell btn (of_nat i) c = Some (CHIDB_OK, node_after m' btn c)"
    and "node_rep (node_after m' btn c) (take i cs @ c # drop i cs)" and "length m' = length (bn_data btn)"
    using insertCell_rep [OF rep ok' i fit'] by blast
  moreover from this have "mem_node pg p t (take i cs @ c # drop i cs) right (node_after m' btn c)"
    using m unfolding mem_node_def node_free_after [OF rep fit'] cells_size_insert by (simp add: set_data_def)
  ultimately show ?thesis using that by blast
qed

lemma insert_cells_mem:
  "mem_node pg p t cs right btn \<Longrightarrow> \<forall>c \<in> set ds. cell_ok t c \<Longrightarrow>
   cells_size (cs @ ds) \<le> cells_room pg p t \<Longrightarrow>
   \<exists>btn'. insert_cells btn (length cs) ds = Some btn' \<and> mem_node pg p t (cs @ ds) right btn'"
proof (induction ds arbitrary: cs btn)
  case Nil
  then show ?case by simp
next
  case (Cons c ds)
  have "cells_size (c # cs) \<le> cells_room pg p t" using Cons.prems(3) cells_size_nonneg [of ds] by simp
  then obtain btn1 where b: "chidb_Btree_insertCell btn (of_nat (length cs)) c = Some (CHIDB_OK, btn1)"
    "mem_node pg p t (cs @ [c]) right btn1"
    using insertCell_mem [OF Cons.prems(1), of c "length cs"] Cons.prems(2) by auto
  then show ?case using Cons.IH [OF b(2)] Cons.prems by auto
qed

lemma createNode_mem:
  assumes "is_internal t \<or> is_leaf t" and "112 \<le> unat (pg_page_size pg)"
  obtains btn where "chidb_Btree_createNode pg n t = Some btn" and "mem_node pg n t [] 0 btn"
proof -
  obtain btn where b: "chidb_Btree_createNode pg n t = Some btn" "node_rep btn []" "bn_type btn = t"
    "mp_npage (bn_page btn) = n" "length (bn_data btn) = unat (pg_page_size pg)"
    "node_free btn = uint (pg_page_size pg) - header_offset n - hdr_size t" "bn_right_page btn = 0"
    using createNode_rep [OF assms, of n] by blast
  then have "mem_node pg n t [] 0 btn" by (simp add: mem_node_def)
  with b(1) that show ?thesis by blast
qed

lemma writeNode_mem:
  assumes ok: "pager_ok d pg" and m: "mem_node pg p t cs right btn" and has: "has_page pg p"
  obtains d' btn' where "chidb_Btree_writeNode d pg btn = Some (CHIDB_OK, d')" and "keeps d pg d' pg {p}"
    and "is_node d' pg p t cs right btn'"
proof -
  have rep: "node_rep btn cs" and p: "mp_npage (bn_page btn) = p"
    and len: "length (bn_data btn) = unat (pg_page_size pg)" using m by (auto simp: mem_node_def)
  obtain m' where w: "chidb_Btree_writeNode d pg btn = Some (CHIDB_OK, disk_put d pg p m')"
    "stored (disk_put d pg p m') pg (set_data m' btn)" "node_rep (set_data m' btn) cs"
    "length m' = unat (pg_page_size pg)"
    using writeNode_rep [OF ok rep _ len] has unfolding p by blast
  have "is_node (disk_put d pg p m') pg p t cs right (set_data m' btn)"
    using m w(2,3) by (simp add: is_node_def mem_node_def node_free_def)
  then show ?thesis using that w keeps_put [OF ok has w(4)] by blast
qed

subsection \<open>Insertion into a node with room\<close>

fun scan :: "u32 \<Rightarrow> BTreeCell list \<Rightarrow> nat \<Rightarrow> int + nat" where
  "scan key [] i = Inr i"
| "scan key (c # cs) i =
     (if key < bc_key c then Inr i else if key = bc_key c then Inl CHIDB_EDUPLICATE
      else scan key cs (Suc i))"

lemma insertion_index_rep:
  "node_rep btn cs \<Longrightarrow> drop j cs = ds \<Longrightarrow> j \<le> length cs \<Longrightarrow>
   insertion_index btn key [j..<length cs] = Some (scan key ds j)"
proof (induction ds arbitrary: j)
  case Nil
  then show ?case using node_repD(3) [of btn cs] by simp
next
  case (Cons c ds)
  from cell_of_drop [OF Cons.prems(1,2)] Cons.IH [of "Suc j"] Cons.prems(1) show ?case
    by (auto simp: upt_rec [of j])
qed

lemma insertNonFull_mem:
  assumes ok: "pager_ok d pg" and m: "mem_node pg p t cs right btn" and has: "has_page pg p"
    and c: "cell_ok t c" and fit: "cells_size (c # cs) \<le> cells_room pg p t"
    and sc: "scan (bc_key c) cs 0 = Inr i" and i: "i \<le> length cs"
    and r: "right' = (if is_internal t \<and> i = length cs then right_child else right)"
  obtains d' btn' where "chidb_Btree_insertNonFull d pg btn c right_child = Some (CHIDB_OK, d')"
    and "keeps d pg d' pg {p}" and "is_node d' pg p t (take i cs @ c # drop i cs) right' btn'"
proof -
  have rep: "node_rep btn cs" and t: "bn_type btn = t" using m by (auto simp: mem_node_def)
  have n: "unat (bn_n_cells btn) = length cs" by (rule node_repD(3) [OF rep])
  let ?btn1 = "if is_internal t \<and> i = length cs then btn\<lparr>bn_right_page := right_child\<rparr> else btn"
  have m1: "mem_node pg p t cs right' ?btn1"
    using m r is_leaf_not_internal by (auto simp: mem_node_def node_rep_def node_free_def)
  obtain btn2 where b2: "chidb_Btree_insertCell ?btn1 (of_nat i) c = Some (CHIDB_OK, btn2)"
    and m2: "mem_node pg p t (take i cs @ c # drop i cs) right' btn2"
    using insertCell_mem [OF m1 c i fit] by blast
  obtain d' btn' where w: "chidb_Btree_writeNode d pg btn2 = Some (CHIDB_OK, d')" "keeps d pg d' pg {p}"
    "is_node d' pg p t (take i cs @ c # drop i cs) right' btn'"
    using writeNode_mem [OF ok m2 has] by blast
  have idx: "insertion_index btn (bc_key c) (cell_indices btn) = Some (Inr i)"
    using insertion_index_rep [OF rep, of 0 cs] sc by (simp add: cell_indices_rep [OF rep])
  have step: "(if is_internal t then if i = length cs then Some (btn\<lparr>bn_right_page := right_child\<rparr>)
      else do { _ \<leftarrow> cell_of btn i; Some btn } else Some btn) = Some ?btn1"
    using cell_of_rep [OF rep, of i] i by auto
  have "chidb_Btree_insertNonFull d pg btn c right_child = Some (CHIDB_OK, d')"
    using idx b2 w(1) unfolding chidb_Btree_insertNonFull_def t n by (simp add: step)
  with w that show ?thesis by blast
qed

lemma insertNonFull_duplicate:
  assumes "mem_node pg p t cs right btn" and "scan (bc_key c) cs 0 = Inl rc"
  shows "chidb_Btree_insertNonFull d pg btn c right_child = Some (rc, d)"
proof -
  have rep: "node_rep btn cs" using assms(1) by (simp add: mem_node_def)
  then show ?thesis
    using insertion_index_rep [OF rep, of 0 cs] assms(2)
    by (simp add: chidb_Btree_insertNonFull_def cell_indices_rep [OF rep])
qed

subsection \<open>Rows and cells\<close>

definition row_ok :: "u32 \<times> bytes \<Rightarrow> bool" where
  "row_ok r \<longleftrightarrow> unat (fst r) < 2 ^ 28 \<and> length (snd r) < 2 ^ 16"

lemma length_enc_leaf [simp]: "length (enc_cell (leaf_cell r)) = 8 + length (snd r)"
  by (simp add: enc_cell_def leaf_cell_def)

lemma length_enc_kid [simp]: "length (enc_cell (kid_cell k p)) = 8"
  by (simp add: enc_cell_def kid_cell_def)

lemma leaf_cell_key [simp]: "bc_key (leaf_cell r) = fst r"
  by (simp add: leaf_cell_def)

lemma cells_size_rows [simp]: "cells_size (map leaf_cell kvs) = rows_size kvs"
  by (induction kvs) (auto simp: rows_size_def)

lemma leaf_cells_room: "cells_room pg p PGTYPE_TABLE_LEAF = leaf_room pg p"
  by (simp add: cells_room_def leaf_room_def hdr_size_def is_internal_def)

lemma leaf_cell_ok: "row_ok r \<longleftrightarrow> cell_ok PGTYPE_TABLE_LEAF (leaf_cell r)"
  by (auto simp: row_ok_def cell_ok_def leaf_cell_def unat_of_nat)

lemma kid_cell_ok: "unat k < 2 ^ 28 \<Longrightarrow> cell_ok PGTYPE_TABLE_INTERNAL (kid_cell k p)"
  by (simp add: cell_ok_def kid_cell_def)

lemma mem_node_rows_ok:
  assumes "mem_node pg p PGTYPE_TABLE_LEAF (map leaf_cell kvs) right btn"
  shows "\<forall>r \<in> set kvs. row_ok r"
proof
  fix r assume "r \<in> set kvs"
  then obtain i where "i < length kvs" "r = kvs ! i" by (auto simp: in_set_conv_nth)
  then show "row_ok r"
    using assms node_repD(8) [of btn "map leaf_cell kvs" i] unfolding leaf_cell_ok mem_node_def by simp
qed

text \<open>The scan of a leaf finds the place of a new row, or the duplicate of an old one.\<close>

lemma scan_rows_new:
  "fst r \<notin> fst ` set kvs \<Longrightarrow>
   \<exists>i \<le> length kvs. scan (fst r) (map leaf_cell kvs) j = Inr (j + i) \<and>
     place r kvs = take i kvs @ r # drop i kvs"
proof (induction kvs arbitrary: j)
  case Nil
  then show ?case by simp
next
  case (Cons q qs)
  show ?case
  proof (cases "fst r < fst q")
    case True
    then show ?thesis by (intro exI [of _ 0]) simp
  next
    case False
    obtain i where "i \<le> length qs" "scan (fst r) (map leaf_cell qs) (Suc j) = Inr (Suc j + i)"
      "place r qs = take i qs @ r # drop i qs"
      using Cons.IH [of "Suc j"] Cons.prems by auto
    then show ?thesis using False Cons.prems by (intro exI [of _ "Suc i"]) auto
  qed
qed

lemma scan_rows_duplicate:
  "sorted_wrt (<) (map fst kvs) \<Longrightarrow> key \<in> fst ` set kvs \<Longrightarrow>
   scan key (map leaf_cell kvs) j = Inl CHIDB_EDUPLICATE"
  by (induction kvs arbitrary: j) (auto dest: less_asym)

lemma is_insertable_leaf:
  assumes m: "mem_node pg p PGTYPE_TABLE_LEAF (map leaf_cell kvs) right btn" and r: "row_ok r"
  shows "is_insertable btn (leaf_cell r) = Some (rows_size (r # kvs) \<le> leaf_room pg p)"
proof -
  have rep: "node_rep btn (map leaf_cell kvs)" using m by (simp add: mem_node_def)
  have nf: "node_free btn = leaf_room pg p - rows_size kvs"
    using m leaf_cells_room [of pg p] by (simp add: mem_node_def cells_room_def)
  have "0 \<le> node_free btn" using node_repD(5) [OF rep] by (simp add: node_free_def)
  moreover have "uint (bn_cells_offset btn) < 65536" "0 \<le> uint (bn_free_offset btn)"
    using uint_bounded [of "bn_cells_offset btn"] by simp_all
  then have "node_free btn < 65536" unfolding node_free_def by linarith
  ultimately have "(uint (bn_cells_offset btn) - uint (bn_free_offset btn)) mod 2 ^ 64 = node_free btn"
    by (simp add: node_free_def)
  moreover have "uint (8 + of_nat (length (snd r)) :: u32) = 8 + int (length (snd r))"
    using r by (simp add: row_ok_def uint_word_ariths unsigned_of_nat take_bit_nat_eq_self)
  ultimately show ?thesis
    using nf by (cases r) (auto simp: is_insertable_def leaf_cell_def rows_size_def)
qed

lemma overfull_rows_tail:
  "node_rep btn (map leaf_cell kvs) \<Longrightarrow> drop j kvs = qs \<Longrightarrow>
   overfull_loop btn c (- 1) [j..<length kvs] True arr = Some (arr @ map leaf_cell qs)"
proof (induction qs arbitrary: j arr)
  case Nil
  then show ?case by simp
next
  case (Cons q qs)
  then have "drop j (map leaf_cell kvs) = leaf_cell q # map leaf_cell qs" by (simp add: drop_map)
  from cell_of_drop [OF Cons.prems(1) this] drop_ConsD [OF Cons.prems(2)] Cons.IH [of "Suc j"] Cons.prems(1)
  show ?case by (simp add: upt_rec [of j])
qed

lemma overfull_rows:
  "node_rep btn (map leaf_cell kvs) \<Longrightarrow> drop j kvs = qs \<Longrightarrow>
   overfull_loop btn (leaf_cell r) (- 1) [j..<length kvs] False arr = Some (arr @ map leaf_cell (place r qs))"
proof (induction qs arbitrary: j arr)
  case Nil
  then show ?case by simp
next
  case (Cons q qs)
  then have "drop j (map leaf_cell kvs) = leaf_cell q # map leaf_cell qs" by (simp add: drop_map)
  from cell_of_drop [OF Cons.prems(1) this] drop_ConsD [OF Cons.prems(2)] Cons.IH [of "Suc j"] Cons.prems(1)
  show ?case
    using overfull_rows_tail [OF Cons.prems(1), of "Suc j" qs "leaf_cell r" "arr @ [leaf_cell r, leaf_cell q]"]
    by (auto simp: upt_rec [of j])
qed

subsection \<open>Splitting a full leaf\<close>

definition halves_fit :: "Pager \<Rightarrow> u32 \<times> bytes \<Rightarrow> rows \<Rightarrow> bool" where
  "halves_fit pg r kvs \<longleftrightarrow> (let m = Suc (length kvs div 2); all = place r kvs in
     122 \<le> unat (pg_page_size pg) \<and> rows_size (take m all) \<le> uint (pg_page_size pg) - 8 \<and>
     rows_size (drop m all) \<le> uint (pg_page_size pg) - 8)"

lemma rows_ok_place: "\<forall>q \<in> set kvs. row_ok q \<Longrightarrow> row_ok r \<Longrightarrow> \<forall>c \<in> set (map leaf_cell (place r kvs)).
    cell_ok PGTYPE_TABLE_LEAF c"
  by (auto simp: leaf_cell_ok)

lemma new_page_room:
  assumes "1 < unat n"
  shows "cells_room pg n PGTYPE_TABLE_LEAF = uint (pg_page_size pg) - 8"
proof -
  have "n \<noteq> 1" using assms by auto
  then show ?thesis by (simp add: cells_room_def header_offset_def hdr_size_def is_internal_def)
qed

text \<open>A half of the cells, put into a new node of page \<open>n\<close>.\<close>

lemma build_half:
  assumes "112 \<le> unat (pg_page_size pg)" and "1 < unat n" and "\<forall>c \<in> set cs. cell_ok PGTYPE_TABLE_LEAF c"
    and "cells_size cs \<le> uint (pg_page_size pg) - 8"
  obtains b0 b where "chidb_Btree_createNode pg n PGTYPE_TABLE_LEAF = Some b0"
    and "insert_cells b0 0 cs = Some b" and "mem_node pg n PGTYPE_TABLE_LEAF cs 0 b"
proof -
  obtain b0 where b0: "chidb_Btree_createNode pg n PGTYPE_TABLE_LEAF = Some b0"
    "mem_node pg n PGTYPE_TABLE_LEAF [] 0 b0"
    using createNode_mem [of PGTYPE_TABLE_LEAF pg n] assms(1) by (auto simp: is_leaf_def)
  then show ?thesis
    using insert_cells_mem [OF b0(2) assms(3)] assms(4) new_page_room [OF assms(2)] that by auto
qed

lemma insert_cells_append:
  "insert_cells b i (cs @ ds) = do { b \<leftarrow> insert_cells b i cs; insert_cells b (i + length cs) ds }"
proof (induction cs arbitrary: b i)
  case (Cons c cs)
  then show ?case by (cases "chidb_Btree_insertCell b (of_nat i) c") auto
qed simp

lemma split_node_leaf:
  assumes ok: "pager_ok d pg" and m: "mem_node pg p PGTYPE_TABLE_LEAF (map leaf_cell kvs) 0 btn"
    and has: "has_page pg p" and r: "row_ok r" and grow: "can_grow d pg 2" and fit: "halves_fit pg r kvs"
  defines "n \<equiv> pg_n_pages pg" and "mid \<equiv> length kvs div 2" and "all \<equiv> place r kvs"
  obtains d' b1 b2 where
    "split_node d pg btn (leaf_cell r) (- 1) True =
       Some (kid_cell (fst (all ! mid)) (n + 1), n + 2, d', pg\<lparr>pg_n_pages := n + 2\<rparr>)"
    "keeps d pg d' (pg\<lparr>pg_n_pages := n + 2\<rparr>) {n + 1, n + 2}"
    "is_node d' (pg\<lparr>pg_n_pages := n + 2\<rparr>) (n + 1) PGTYPE_TABLE_LEAF (map leaf_cell (take (Suc mid) all)) 0 b1"
    "is_node d' (pg\<lparr>pg_n_pages := n + 2\<rparr>) (n + 2) PGTYPE_TABLE_LEAF (map leaf_cell (drop (Suc mid) all)) 0 b2"
proof -
  let ?pg1 = "pg\<lparr>pg_n_pages := n + 1\<rparr>" and ?pg2 = "pg\<lparr>pg_n_pages := n + 2\<rparr>"
  have rep: "node_rep btn (map leaf_cell kvs)" and t: "bn_type btn = PGTYPE_TABLE_LEAF"
    using m by (auto simp: mem_node_def)
  have nc: "unat (bn_n_cells btn) = length kvs" using node_repD(3) [OF rep] by simp
  have arr: "overfull_node btn (leaf_cell r) (- 1) = Some (map leaf_cell all)"
    using overfull_rows [OF rep, of 0 kvs r "[]"]
    by (simp add: overfull_node_def cell_indices_rep [OF rep] all_def)
  have midlt: "mid < length all" by (simp add: mid_def all_def)
  have okc: "\<forall>c \<in> set (map leaf_cell all). cell_ok PGTYPE_TABLE_LEAF c"
    unfolding all_def by (rule rows_ok_place [OF mem_node_rows_ok [OF m] r])
  have n0: "0 < unat n" using has by (simp add: has_page_unat n_def)
  have n1: "unat (n + 1) = unat n + 1" and n2: "unat (n + 2) = unat n + 2"
    using can_grow_unat [OF grow ok, of 1] can_grow_unat [OF grow ok, of 2] by (simp_all add: n_def)
  have ps: "112 \<le> unat (pg_page_size ?pg1)" "112 \<le> unat (pg_page_size ?pg2)"
    using fit by (simp_all add: halves_fit_def Let_def)
  obtain l0 l where l0: "chidb_Btree_createNode ?pg1 (n + 1) PGTYPE_TABLE_LEAF = Some l0"
    and l: "insert_cells l0 0 (map leaf_cell (take (Suc mid) all)) = Some l"
    and lm: "mem_node ?pg1 (n + 1) PGTYPE_TABLE_LEAF (map leaf_cell (take (Suc mid) all)) 0 l"
  proof (rule build_half [OF ps(1)])
    show "\<forall>c \<in> set (map leaf_cell (take (Suc mid) all)). cell_ok PGTYPE_TABLE_LEAF c"
      using okc by (auto dest: in_set_takeD)
  qed (use n0 n1 fit in \<open>auto simp: halves_fit_def Let_def mid_def all_def\<close>)
  obtain r0 rr where r0: "chidb_Btree_createNode ?pg2 (n + 2) PGTYPE_TABLE_LEAF = Some r0"
    and rr: "insert_cells r0 0 (map leaf_cell (drop (Suc mid) all)) = Some rr"
    and rm: "mem_node ?pg2 (n + 2) PGTYPE_TABLE_LEAF (map leaf_cell (drop (Suc mid) all)) 0 rr"
  proof (rule build_half [OF ps(2)])
    show "\<forall>c \<in> set (map leaf_cell (drop (Suc mid) all)). cell_ok PGTYPE_TABLE_LEAF c"
      using okc by (auto dest: in_set_dropD)
  qed (use n0 n2 fit in \<open>auto simp: halves_fit_def Let_def mid_def all_def\<close>)
  have "take (Suc mid) all = take mid all @ [all ! mid]" using midlt by (rule take_Suc_conv_app_nth)
  then obtain l1 where l1: "insert_cells l0 0 (map leaf_cell (take mid all)) = Some l1"
    "insert_cells l1 mid [leaf_cell (all ! mid)] = Some l"
    using l midlt insert_cells_append [of l0 0 "map leaf_cell (take mid all)" "[leaf_cell (all ! mid)]"]
    by (auto simp: bind_Some_conv min_def simp del: insert_cells.simps)
  have k2: "keeps d pg d ?pg2 {}" using keeps_grow [OF grow ok] by (simp add: n_def)
  have ok2: "pager_ok d ?pg2" using k2 by (simp add: keeps_def)
  have has1: "has_page ?pg2 (n + 1)" and has2: "has_page ?pg2 (n + 2)"
    using n1 n2 by (simp_all add: has_page_unat)
  obtain d1 b1 where w1: "chidb_Btree_writeNode d ?pg2 l = Some (CHIDB_OK, d1)" "keeps d ?pg2 d1 ?pg2 {n + 1}"
    "is_node d1 ?pg2 (n + 1) PGTYPE_TABLE_LEAF (map leaf_cell (take (Suc mid) all)) 0 b1"
    using writeNode_mem [OF ok2 _ has1] lm by (metis mem_node_grow)
  have ok3: "pager_ok d1 ?pg2" using w1(2) by (simp add: keeps_def)
  obtain d2 b2 where w2: "chidb_Btree_writeNode d1 ?pg2 rr = Some (CHIDB_OK, d2)" "keeps d1 ?pg2 d2 ?pg2 {n + 2}"
    "is_node d2 ?pg2 (n + 2) PGTYPE_TABLE_LEAF (map leaf_cell (drop (Suc mid) all)) 0 b2"
    using writeNode_mem [OF ok3 rm has2] by blast
  have "unat (n + 1) \<noteq> unat (n + 2)" using n1 n2 by simp
  then have "n + 1 \<noteq> n + 2" by (rule contrapos_nn) simp
  then have b1: "is_node d2 ?pg2 (n + 1) PGTYPE_TABLE_LEAF (map leaf_cell (take (Suc mid) all)) 0 b1"
    using is_node_keeps [OF w2(2) w1(3)] by simp
  have "keeps d pg d2 ?pg2 {n + 1, n + 2}"
    by (rule keeps_trans [OF keeps_trans [OF k2 w1(2)] w2(2)]) auto
  moreover have "split_node d pg btn (leaf_cell r) (- 1) True
      = Some (kid_cell (fst (all ! mid)) (n + 1), n + 2, d2, ?pg2)"
    using arr l0 r0 rr l1 w1(1) w2(1) midlt
    by (simp add: split_node_def t nc mid_def [symmetric] chidb_Pager_allocatePage_def n_def [symmetric]
        drop_map take_map split_parent_def kid_cell_def Let_def add.commute [of n 2]
        del: insert_cells.simps)
  ultimately show ?thesis using that b1 w2(3) by blast
qed

subsection \<open>The insertion of a row\<close>

text \<open>What one insertion needs: room in the leaf, or two new pages that each hold a half.\<close>

definition can_insert :: "disk \<Rightarrow> Pager \<Rightarrow> u32 \<times> bytes \<Rightarrow> dtree \<Rightarrow> bool" where
  "can_insert d pg r t \<longleftrightarrow> row_ok r \<and> (let (p, kvs) = leaf_of t (fst r) in
     rows_size (r # kvs) \<le> leaf_room pg p \<or> can_grow d pg 2 \<and> halves_fit pg r kvs)"

definition leaf_after :: "Pager \<Rightarrow> u32 \<Rightarrow> u32 \<times> bytes \<Rightarrow> rows \<Rightarrow> dtree" where
  "leaf_after pg p r kvs =
     (if rows_size (r # kvs) \<le> leaf_room pg p then Leaf p (place r kvs) else split_leaf pg p r kvs)"

lemma insert_split_room:
  assumes ok: "pager_ok d pg" and btn: "is_node d pg p PGTYPE_TABLE_LEAF (map leaf_cell kvs) 0 btn"
    and s: "deref_node s (iv_btn s) = Some btn" and r: "row_ok r" and new: "fst r \<notin> fst ` set kvs"
    and room: "rows_size (r # kvs) \<le> leaf_room pg p"
  obtains d' where "insert_split d pg (leaf_cell r) (- 1) s = Some (CHIDB_OK, d', pg)"
    and "keeps d pg d' pg {p}" and "rep d' pg (Leaf p (place r kvs))"
proof -
  note m = is_node_mem [OF btn]
  have has: "has_page pg p" using btn by (auto simp: is_node_def stored_def)
  obtain i where i: "i \<le> length kvs" "scan (fst r) (map leaf_cell kvs) 0 = Inr i"
    "place r kvs = take i kvs @ r # drop i kvs"
    using scan_rows_new [OF new, of 0] by auto
  obtain d' btn' where d': "chidb_Btree_insertNonFull d pg btn (leaf_cell r) (- 1) = Some (CHIDB_OK, d')"
    "keeps d pg d' pg {p}"
    "is_node d' pg p PGTYPE_TABLE_LEAF (take i (map leaf_cell kvs) @ leaf_cell r # drop i (map leaf_cell kvs)) 0 btn'"
  proof (rule insertNonFull_mem [OF ok m has, of "leaf_cell r" i 0 "- 1"])
    show "cell_ok PGTYPE_TABLE_LEAF (leaf_cell r)" using r by (simp only: leaf_cell_ok)
    show "cells_size (leaf_cell r # map leaf_cell kvs) \<le> cells_room pg p PGTYPE_TABLE_LEAF"
      using room cells_size_rows [of "r # kvs"] by (simp only: leaf_cells_room list.map)
  qed (use i in \<open>auto simp: is_internal_def\<close>)
  have "insert_split d pg (leaf_cell r) (- 1) s = Some (CHIDB_OK, d', pg)"
    using s is_insertable_leaf [OF m r] room d'(1) by (simp add: insert_split.simps)
  with d' i(3) that show ?thesis by (auto simp: take_map drop_map)
qed

lemma insert_split_full:
  assumes ok: "pager_ok d pg" and btn: "is_node d pg p PGTYPE_TABLE_LEAF (map leaf_cell kvs) 0 btn"
    and s: "deref_node s (iv_btn s) = Some btn" "path_ok s" and r: "row_ok r"
    and full: "\<not> rows_size (r # kvs) \<le> leaf_room pg p"
    and grow: "can_grow d pg 2" and fit: "halves_fit pg r kvs"
  obtains d' pg' where "insert_split d pg (leaf_cell r) (- 1) s = Some (CHIDB_OK, d', pg')"
    and "pg' = pg\<lparr>pg_n_pages := pg_n_pages pg + 2\<rparr>"
    and "keeps d pg d' pg' {p, pg_n_pages pg + 1, pg_n_pages pg + 2}"
    and "rep d' pg' (split_leaf pg p r kvs)"
proof -
  let ?n = "pg_n_pages pg" and ?mid = "length kvs div 2" and ?all = "place r kvs"
  let ?pg2 = "pg\<lparr>pg_n_pages := ?n + 2\<rparr>"
  let ?key = "fst (?all ! ?mid)"
  note m = is_node_mem [OF btn]
  have has: "has_page pg p" and p: "mp_npage (bn_page btn) = p" and t: "bn_type btn = PGTYPE_TABLE_LEAF"
    using btn by (auto simp: is_node_def stored_def)
  obtain d1 b1 b2 where sp: "split_node d pg btn (leaf_cell r) (- 1) True =
      Some (kid_cell ?key (?n + 1), ?n + 2, d1, ?pg2)"
    and k1: "keeps d pg d1 ?pg2 {?n + 1, ?n + 2}"
    and b1: "is_node d1 ?pg2 (?n + 1) PGTYPE_TABLE_LEAF (map leaf_cell (take (Suc ?mid) ?all)) 0 b1"
    and b2: "is_node d1 ?pg2 (?n + 2) PGTYPE_TABLE_LEAF (map leaf_cell (drop (Suc ?mid) ?all)) 0 b2"
    using split_node_leaf [OF ok m has r grow fit] by blast
  have ok1: "pager_ok d1 ?pg2" and has1: "has_page ?pg2 p" using k1 has by (auto simp: keeps_def)
  have ps: "122 \<le> unat (pg_page_size pg)" using fit by (simp add: halves_fit_def Let_def)
  obtain root where root: "chidb_Btree_createNode ?pg2 p PGTYPE_TABLE_INTERNAL = Some root"
    and rm: "mem_node ?pg2 p PGTYPE_TABLE_INTERNAL [] 0 root"
    using createNode_mem [of PGTYPE_TABLE_INTERNAL ?pg2 p] ps by (auto simp: is_internal_def)
  have "?all ! ?mid \<in> set ?all" by (rule nth_mem) simp
  then have "unat ?key < 2 ^ 28" using mem_node_rows_ok [OF m] r by (auto simp: row_ok_def)
  then have kok: "cell_ok PGTYPE_TABLE_INTERNAL (kid_cell ?key (?n + 1))" by (rule kid_cell_ok)
  have "122 \<le> uint (pg_page_size pg)" using ps by (simp only: unat_eq_nat_uint)
  then have kfit: "cells_size [kid_cell ?key (?n + 1)] \<le> cells_room ?pg2 p PGTYPE_TABLE_INTERNAL"
    by (simp add: cells_room_def header_offset_def hdr_size_def is_internal_def)
  obtain d2 b where i2: "chidb_Btree_insertNonFull d1 ?pg2 root (kid_cell ?key (?n + 1)) (?n + 2) = Some (CHIDB_OK, d2)"
    and k2: "keeps d1 ?pg2 d2 ?pg2 {p}"
    and b: "is_node d2 ?pg2 p PGTYPE_TABLE_INTERNAL [kid_cell ?key (?n + 1)] (?n + 2) b"
    using insertNonFull_mem [OF ok1 rm has1 kok kfit, of 0 "?n + 2" "?n + 2"]
    by (auto simp: is_internal_def)
  have pn: "p \<noteq> ?n + 1" "p \<noteq> ?n + 2"
    using can_grow_unat [OF grow ok, of 1] can_grow_unat [OF grow ok, of 2] has by (auto simp: has_page_unat)
  have "insert_split d pg (leaf_cell r) (- 1) s = Some (CHIDB_OK, d2, ?pg2)"
    using s is_insertable_leaf [OF m r] full sp root i2 p t
    by (subst insert_split.simps) (simp add: path_ok_def deref_ll_def)
  moreover have "keeps d pg d2 ?pg2 {p, ?n + 1, ?n + 2}" by (rule keeps_trans [OF k1 k2]) auto
  moreover have "rep d2 ?pg2 (split_leaf pg p r kvs)"
    using b is_node_keeps [OF k2 b1] is_node_keeps [OF k2 b2] pn by (auto simp: split_leaf_def Let_def)
  ultimately show ?thesis using that by blast
qed

lemma pages_leaf_after:
  "pages (leaf_after pg p r kvs) = [p] \<or> pages (leaf_after pg p r kvs) = [p, pg_n_pages pg + 1, pg_n_pages pg + 2]"
  "root_page (leaf_after pg p r kvs) = p"
  by (auto simp: leaf_after_def split_leaf_def Let_def)

lemma insertInTable_cell:
  "row_ok r \<Longrightarrow> \<lparr>bc_type = PGTYPE_TABLE_LEAF, bc_key = fst r,
     bc_fields = TableLeaf (ucast (of_nat (length (snd r)) :: u16)) (snd r)\<rparr> = leaf_cell r"
  by (simp add: leaf_cell_def row_ok_def word_unat_eq_iff unat_ucast_up unat_of_nat)

text \<open>The first loop ends at the leaf of the key, with a path the second loop can use.\<close>

lemma insert_reaches:
  assumes rep: "tree_rep d pg t" and row: "row_ok r" and l: "leaf_of t (fst r) = (p, kvs)"
  obtains s btn where "is_node d pg p PGTYPE_TABLE_LEAF (map leaf_cell kvs) 0 btn" and "path_ok s"
    and "deref_node s (iv_btn s) = Some btn"
    and "chidb_Btree_insertInTable d pg (root_page t) (fst r) (snd r) (of_nat (length (snd r)))
      = insert_split d pg (leaf_cell r) (- 1) s"
proof -
  have ok: "pager_ok d pg" and rp: "rep d pg t" using rep by (auto simp: tree_rep_def)
  obtain btn where btn: "is_node d pg p PGTYPE_TABLE_LEAF (map leaf_cell kvs) 0 btn"
    using rep_leaf_of [OF rp l] by blast
  obtain n0 where n0: "load_node d pg (root_page t) = Some n0"
    and reach: "\<And>s. path_ok s \<Longrightarrow> deref_node s (iv_btn s) = Some n0 \<Longrightarrow>
      \<exists>s'. insert_descend d pg (fst r) s = Some (Inr s') \<and> path_ok s' \<and> deref_node s' (iv_btn s') = load_node d pg p"
    using descend_rep(1) [OF ok rp, of "fst r"] l by (auto simp: reaches_def)
  let ?s0 = "\<lparr>iv_nodes = [Some n0], iv_btn = 0, iv_current = \<lparr>ln_prev = LL_NULL, ln_val = 0, ln_next = LL_NULL\<rparr>,
     iv_path = \<lparr>ll_head = LL_current, ll_tail = LL_current\<rparr>\<rparr>"
  obtain s where s: "insert_descend d pg (fst r) ?s0 = Some (Inr s)" "path_ok s" "deref_node s (iv_btn s) = Some btn"
    using reach [of ?s0] load_node_rep [OF ok btn] by (auto simp: path_ok_def deref_node_def)
  have "chidb_Btree_insertInTable d pg (root_page t) (fst r) (snd r) (of_nat (length (snd r)))
      = insert_split d pg (leaf_cell r) (- 1) s"
    using n0 s(1) unfolding chidb_Btree_insertInTable_def insertInTable_cell [OF row] chidb_Btree_insert_def by simp
  with that btn s show ?thesis by blast
qed

theorem insert_rep:
  assumes rep: "tree_rep d pg t" and new: "lookup t (fst r) = None" and can: "can_insert d pg r t"
  obtains d' pg' where
    "chidb_Btree_insertInTable d pg (root_page t) (fst r) (snd r) (of_nat (length (snd r))) = Some (CHIDB_OK, d', pg')"
    "tree_rep d' pg' (insert_row pg r t)" "root_page (insert_row pg r t) = root_page t"
    "pg' = pg \<or> pg' = pg\<lparr>pg_n_pages := pg_n_pages pg + 2\<rparr>" "room d' = room d"
proof -
  have ok: "pager_ok d pg" and dist: "distinct (pages t)" and rp: "rep d pg t" using rep by (auto simp: tree_rep_def)
  obtain p kvs where l: "leaf_of t (fst r) = (p, kvs)" by (cases "leaf_of t (fst r)")
  have new': "fst r \<notin> fst ` set kvs" using new l by (simp add: lookup_leaf_of map_of_eq_None_iff)
  have row: "row_ok r" using can by (simp add: can_insert_def)
  let ?u = "leaf_after pg p r kvs"
  obtain s btn where btn: "is_node d pg p PGTYPE_TABLE_LEAF (map leaf_cell kvs) 0 btn"
    and s: "path_ok s" "deref_node s (iv_btn s) = Some btn"
    and ins: "chidb_Btree_insertInTable d pg (root_page t) (fst r) (snd r) (of_nat (length (snd r)))
      = insert_split d pg (leaf_cell r) (- 1) s"
    using insert_reaches [OF rep row l] by blast
  have pin: "p \<in> set (pages t)" using leaf_of_page [of t "fst r"] l by simp
  obtain d' pg' W where d': "insert_split d pg (leaf_cell r) (- 1) s = Some (CHIDB_OK, d', pg')"
    and k: "keeps d pg d' pg' W" and u: "rep d' pg' ?u" and W: "W \<inter> set (pages t) \<subseteq> {p}"
    and du: "distinct (pages ?u)" "set (pages ?u) \<inter> set (pages t) \<subseteq> {p}"
    and pg': "pg' = pg \<or> pg' = pg\<lparr>pg_n_pages := pg_n_pages pg + 2\<rparr>"
  proof (cases "rows_size (r # kvs) \<le> leaf_room pg p")
    case True
    obtain d' where "insert_split d pg (leaf_cell r) (- 1) s = Some (CHIDB_OK, d', pg)"
      "keeps d pg d' pg {p}" "rep d' pg (Leaf p (place r kvs))"
      using insert_split_room [OF ok btn s(2) row new' True] by blast
    then show ?thesis using that [of d' pg "{p}"] True by (auto simp: leaf_after_def)
  next
    case False
    then have gr: "can_grow d pg 2" "halves_fit pg r kvs" using can l by (auto simp: can_insert_def)
    have u12: "unat (pg_n_pages pg + 1) = unat (pg_n_pages pg) + 1"
      "unat (pg_n_pages pg + 2) = unat (pg_n_pages pg) + 2"
      using can_grow_unat [OF gr(1) ok, of 1] can_grow_unat [OF gr(1) ok, of 2] by simp_all
    then have "\<not> has_page pg (pg_n_pages pg + 1)" "\<not> has_page pg (pg_n_pages pg + 2)"
      by (simp_all add: has_page_unat)
    then have out: "pg_n_pages pg + 1 \<notin> set (pages t)" "pg_n_pages pg + 2 \<notin> set (pages t)"
      using rep_has_page [OF rp] by blast+
    have "unat (pg_n_pages pg + 1) \<noteq> unat (pg_n_pages pg + 2)" using u12 by simp
    then have ne: "pg_n_pages pg + 1 \<noteq> pg_n_pages pg + 2" by (rule contrapos_nn) simp
    obtain d' pg' where "insert_split d pg (leaf_cell r) (- 1) s = Some (CHIDB_OK, d', pg')"
      "pg' = pg\<lparr>pg_n_pages := pg_n_pages pg + 2\<rparr>"
      "keeps d pg d' pg' {p, pg_n_pages pg + 1, pg_n_pages pg + 2}" "rep d' pg' (split_leaf pg p r kvs)"
      using insert_split_full [OF ok btn s(2,1) row False gr] by blast
    then show ?thesis
      using that [of d' pg' "{p, pg_n_pages pg + 1, pg_n_pages pg + 2}"] False out pin ne
      by (auto simp: leaf_after_def split_leaf_def Let_def)
  qed
  have t': "insert_row pg r t = replace_leaf ?u t (fst r)" using l by (simp add: insert_row_def leaf_after_def)
  have root: "root_page (insert_row pg r t) = root_page t"
    unfolding t' by (rule root_page_replace) (simp add: l pages_leaf_after)
  have "tree_rep d' pg' (insert_row pg r t)"
    using rep_replace [OF k rp dist, of "fst r" ?u] distinct_replace [OF dist du(1), of "fst r"]
      k u W du(2) l pages_leaf_after(2) unfolding t' tree_rep_def by (simp add: keeps_def)
  moreover have "room d' = room d" using k by (simp add: keeps_def)
  ultimately show ?thesis using that root ins d' pg' by metis
qed

text \<open>A key that is present is refused when its leaf has room.\<close>

theorem insert_duplicate:
  assumes rep: "tree_rep d pg t" and sorted: "sorted_leaves t" and old: "lookup t (fst r) \<noteq> None"
    and row: "row_ok r" and l: "leaf_of t (fst r) = (p, kvs)" and room: "rows_size (r # kvs) \<le> leaf_room pg p"
  shows "chidb_Btree_insertInTable d pg (root_page t) (fst r) (snd r) (of_nat (length (snd r)))
    = Some (CHIDB_EDUPLICATE, d, pg)"
proof -
  obtain s btn where btn: "is_node d pg p PGTYPE_TABLE_LEAF (map leaf_cell kvs) 0 btn"
    and s: "deref_node s (iv_btn s) = Some btn"
    and ins: "chidb_Btree_insertInTable d pg (root_page t) (fst r) (snd r) (of_nat (length (snd r)))
      = insert_split d pg (leaf_cell r) (- 1) s"
    using insert_reaches [OF rep row l] by blast
  note m = is_node_mem [OF btn]
  have dup: "scan (bc_key (leaf_cell r)) (map leaf_cell kvs) 0 = Inl CHIDB_EDUPLICATE"
    using sorted_leaf_of [OF sorted, of "fst r"] old l
    by (intro scan_rows_duplicate [of kvs "fst r" 0, simplified leaf_cell_key [of r, symmetric]])
      (auto simp: lookup_leaf_of dest: map_of_SomeD intro: rev_image_eqI)
  show ?thesis
    using s is_insertable_leaf [OF m row] room insertNonFull_duplicate [OF m dup] ins
    by (simp add: insert_split.simps)
qed

text \<open>The second loop looks at no key: in a full leaf a key that is present is stored again.\<close>

theorem insert_full_leaf:
  assumes rep: "tree_rep d pg t" and row: "row_ok r" and l: "leaf_of t (fst r) = (p, kvs)"
    and full: "\<not> rows_size (r # kvs) \<le> leaf_room pg p"
    and grow: "can_grow d pg 2" and fit: "halves_fit pg r kvs"
  obtains d' pg' where
    "chidb_Btree_insertInTable d pg (root_page t) (fst r) (snd r) (of_nat (length (snd r))) = Some (CHIDB_OK, d', pg')"
    "rep d' pg' (split_leaf pg p r kvs)" "pg' = pg\<lparr>pg_n_pages := pg_n_pages pg + 2\<rparr>"
proof -
  have ok: "pager_ok d pg" using rep by (simp add: tree_rep_def)
  show ?thesis using insert_reaches [OF rep row l] insert_split_full [OF ok _ _ _ row full grow fit] that by metis
qed

end
