(* ===== verification/BtreeFile.thy ===== *)
theory BtreeFile
  imports BtreeInsert
begin

section \<open>Opening a B-tree file\<close>

text \<open>
  What \<open>chidb_Btree_open\<close> makes of the content of a file: an empty file becomes an empty
  table in page 1, a file with a valid header is opened as it is, any other is refused.
\<close>

subsection \<open>The file header\<close>

definition valid_header :: "bytes \<Rightarrow> u16 \<Rightarrow> bool" where
  "valid_header c ps \<longleftrightarrow> 100 \<le> length c \<and> take 15 c = sqlite_magic \<and> get2byte c 16 = Some ps \<and>
     get4byte c 24 = Some 0 \<and> get4byte c 40 = Some 0 \<and> get4byte c 48 = Some 20000 \<and>
     get4byte c 60 = Some 0"

lemma mem_get_take:
  "0 \<le> p \<Longrightarrow> nat p + n \<le> k \<Longrightarrow> k \<le> length c \<Longrightarrow> mem_get (take k c) p n = mem_get c p n"
  by (auto simp: mem_get_def drop_take min_def)

lemma header_fields:
  assumes "100 \<le> length c"
  shows "get2byte (take 100 c) 16 = get2byte c 16" and "get4byte (take 100 c) 24 = get4byte c 24"
    and "get4byte (take 100 c) 40 = get4byte c 40" and "get4byte (take 100 c) 48 = get4byte c 48"
    and "get4byte (take 100 c) 60 = get4byte c 60"
  using assms by (simp_all add: field_eqs mem_get_take)

lemma get_defined:
  assumes "100 \<le> length c" and "0 \<le> p" and "p \<le> 90"
  shows "\<exists>v. get2byte c p = Some v" and "\<exists>v. get4byte c p = Some v"
  using assms by (auto simp: get2byte_def get4byte_def rd_def nat_add_distrib)

lemma open_valid:
  assumes f: "files d f = Some c" and v: "valid_header c ps" and ps: "ps \<noteq> 0" and c: "length c \<le> 2 ^ 32"
  shows "chidb_Btree_open d f = Some (CHIDB_OK, d,
    Some \<lparr>pg_f = Some f, pg_n_pages = of_nat ((length c - 1) div unat ps), pg_page_size = ps\<rparr>)"
proof -
  have len: "100 \<le> length c" using v by (simp add: valid_header_def)
  have n: "length c - 1 < 2 ^ 32" using len c by simp
  then have lt: "(length c - 1) div unat ps < 2 ^ 32" by (rule le_less_trans [OF div_le_dividend])
  have "int (length c) - 1 = int (length c - 1)" using len by simp
  then have "(word_of_int (int (length c) - 1) :: u32) = of_nat (length c - 1)" by (metis of_int_of_nat_eq)
  moreover have "(of_nat (length c - 1) :: u32) div ucast ps = of_nat ((length c - 1) div unat ps)"
    using n lt unfolding word_unat_eq_iff by (simp only: unat_div unat_ucast_up unat_of_nat)
      (simp add: take_bit_nat_eq_self unat_ucast_up)
  ultimately have "(word_of_int (int (length c) - 1) :: u32) div ucast ps = of_nat ((length c - 1) div unat ps)"
    by (simp only:)
  moreover have "c \<noteq> []" using len by auto
  ultimately show ?thesis
    using f v ps len by (simp add: chidb_Btree_open_def file_read_def valid_header_def header_fields Let_def)
qed

lemma open_invalid:
  assumes f: "files d f = Some c" and c: "c \<noteq> []" and bad: "\<nexists>ps. valid_header c ps"
  shows "chidb_Btree_open d f = Some (CHIDB_ECORRUPTHEADER, d, None)"
proof (cases "length c < 100")
  case True
  then show ?thesis using f c by (simp add: chidb_Btree_open_def file_read_def Let_def Suc_le_eq)
next
  case False
  then have len: "100 \<le> length c" by simp
  obtain ps a b e g where "get2byte c 16 = Some ps" "get4byte c 24 = Some a" "get4byte c 40 = Some b"
    "get4byte c 48 = Some e" "get4byte c 60 = Some g"
    using get_defined [OF len, of 16] get_defined [OF len, of 24] get_defined [OF len, of 40]
      get_defined [OF len, of 48] get_defined [OF len, of 60] by auto
  then show ?thesis
    using f bad len by (auto simp: chidb_Btree_open_def file_read_def valid_header_def header_fields Let_def)
qed

subsection \<open>A new file\<close>

lemma mem_get_zeros:
  "0 \<le> p \<Longrightarrow> nat p + n \<le> k \<Longrightarrow> mem_get (replicate k 0) p n = Some (replicate n 0)"
  by (auto simp: mem_get_def min_def)

lemma zero_fields: "dec4 (replicate 4 0) = Some 0"
  by (simp add: eval_nat_numeral)

lemma syncNode_below:
  assumes "chidb_Btree_syncNode btn = Some btn'" and "q + int k \<le> header_offset (mp_npage (bn_page btn))"
  shows "mem_get (bn_data btn') q k = mem_get (bn_data btn) q k"
  using assms
  by (auto simp: chidb_Btree_syncNode_def bind_Some_conv wr_eq_mem_put field_eqs Let_def
      mem_get_put_disjoint split: if_splits)

text \<open>The header as the code writes it into a page of zeros.\<close>

lemma new_header:
  assumes "length m0 = 1024" and z: "m0 = replicate 1024 0"
  obtains m1 m2 m3 where "mem_put m0 0 (sqlite_magic @ [0]) = Some m1"
    and "put2byte m1 16 (of_nat DEFAULT_PAGE_SIZE) = Some m2" and "put4byte m2 48 20000 = Some m3"
    and "length m3 = 1024" and "valid_header m3 1024"
proof -
  have lm: "length (sqlite_magic @ [0]) = 16" by (simp add: sqlite_magic_def)
  obtain m1 where m1: "mem_put m0 0 (sqlite_magic @ [0]) = Some m1"
    using mem_put_ok [of 0 "sqlite_magic @ [0]" m0] lm assms(1) by auto
  obtain m2 where m2: "mem_put m1 16 (enc2 1024) = Some m2"
    using mem_put_ok [of 16 "enc2 1024" m1] mem_put_length [OF m1] assms(1) by auto
  obtain m3 where m3: "mem_put m2 48 (enc4 20000) = Some m3"
    using mem_put_ok [of 48 "enc4 20000" m2] mem_put_length [OF m1] mem_put_length [OF m2] assms(1) by auto
  have len: "length m3 = 1024"
    using mem_put_length [OF m1] mem_put_length [OF m2] mem_put_length [OF m3] assms(1) by simp
  have zero: "get4byte m3 q = Some 0" if "q = 24 \<or> q = 40 \<or> q = 60" for q
    using that lm mem_get_put_disjoint [OF m1, of q 4] mem_get_put_disjoint [OF m2, of q 4]
      mem_get_put_disjoint [OF m3, of q 4] mem_get_zeros [of q 4 1024] zero_fields
    by (auto simp: get4byte_eq z)
  have "mem_get m3 0 16 = Some (sqlite_magic @ [0])"
    using lm mem_get_put_same [OF m1, of 16] mem_get_put_disjoint [OF m2, of 0 16]
      mem_get_put_disjoint [OF m3, of 0 16] by simp
  then have "take 16 m3 = sqlite_magic @ [0]" by (simp add: mem_get_def split: if_splits)
  then have "take 15 (take 16 m3) = take 15 (sqlite_magic @ [0])" by (rule arg_cong)
  also have "\<dots> = sqlite_magic" by (simp add: sqlite_magic_def)
  finally have "take 15 m3 = sqlite_magic" by simp
  moreover have "get2byte m3 16 = Some 1024"
    using mem_get_put_same [OF m2, of 2] mem_get_put_disjoint [OF m3, of 16 2] by (simp add: get2byte_eq)
  moreover have "get4byte m3 48 = Some 20000"
    using mem_get_put_same [OF m3, of 4] by (simp add: get4byte_eq)
  ultimately have "valid_header m3 1024" using len zero by (simp add: valid_header_def)
  with that m1 m2 m3 len show ?thesis by (auto simp: put2byte_eq put4byte_eq)
qed

lemma valid_header_cong:
  assumes "length c' = length c" and "\<And>q k. q + int k \<le> 100 \<Longrightarrow> mem_get c' q k = mem_get c q k"
  shows "valid_header c' ps = valid_header c ps"
proof (cases "100 \<le> length c")
  case True
  then have "take 15 c' = take 15 c" using assms(2) [of 0 15] assms(1) by (simp add: mem_get_def)
  then show ?thesis using assms by (simp add: valid_header_def field_eqs)
next
  case False
  then show ?thesis using assms(1) by (simp add: valid_header_def)
qed

abbreviation new_pager :: "string \<Rightarrow> Pager" where
  "new_pager f \<equiv> \<lparr>pg_f = Some f, pg_n_pages = 1, pg_page_size = of_nat DEFAULT_PAGE_SIZE\<rparr>"

lemma open_empty_file:
  assumes f: "files d f = Some []" and room: "1024 \<le> room d"
  obtains m where "chidb_Btree_open d f = Some (CHIDB_OK, d\<lparr>files := (files d)(f \<mapsto> m)\<rparr>, Some (new_pager f))"
    and "length m = 1024" and "valid_header m 1024"
    and "tree_rep (d\<lparr>files := (files d)(f \<mapsto> m)\<rparr>) (new_pager f) (Leaf 1 [])"
proof -
  let ?pg = "new_pager f"
  have ps: "112 \<le> unat (pg_page_size ?pg)" by simp
  obtain root where root: "chidb_Btree_createNode ?pg 1 PGTYPE_TABLE_LEAF = Some root"
    and rm: "mem_node ?pg 1 PGTYPE_TABLE_LEAF [] 0 root"
    using createNode_mem [OF _ ps, of PGTYPE_TABLE_LEAF 1] by (auto simp: is_leaf_def)
  have zeros: "bn_data root = replicate 1024 0"
    using root by (auto simp: chidb_Btree_createNode_def update_fields_def chidb_Pager_initMemPage_def
        bind_Some_conv Let_def split: if_splits)
  obtain m1 m2 m3 where w: "mem_put (bn_data root) 0 (sqlite_magic @ [0]) = Some m1"
    "put2byte m1 16 (of_nat DEFAULT_PAGE_SIZE) = Some m2" "put4byte m2 48 20000 = Some m3"
    and m3: "length m3 = 1024" "valid_header m3 1024"
    using new_header [OF _ zeros] zeros by auto
  have m: "mem_node ?pg 1 PGTYPE_TABLE_LEAF [] 0 (set_data m3 root)"
    using rm m3(1) zeros by (auto simp: mem_node_def node_rep_def node_free_def)
  have ok: "pager_ok d ?pg" using f room by (simp add: pager_ok_def pager_content_def)
  have has: "has_page ?pg 1" by (simp add: has_page_def)
  obtain m' where sy: "chidb_Btree_syncNode (set_data m3 root) = Some (set_data m' (set_data m3 root))"
    "length m' = length m3"
    using syncNode_rep [of "set_data m3 root" "[]"] m by (auto simp: mem_node_def)
  have p1: "mp_npage (bn_page (set_data m3 root)) = 1" using m by (simp add: mem_node_def)
  have below: "mem_get m' q k = mem_get m3 q k" if "q + int k \<le> 100" for q k
    using syncNode_below [OF sy(1), of q k] that p1 by (simp add: header_offset_def)
  have v: "valid_header m' 1024" using valid_header_cong [OF sy(2) below] m3(2) by simp
  obtain d' b where wr: "chidb_Btree_writeNode d ?pg (set_data m3 root) = Some (CHIDB_OK, d')"
    "keeps d ?pg d' ?pg {1}" "is_node d' ?pg 1 PGTYPE_TABLE_LEAF [] 0 b"
    using writeNode_mem [OF ok m has] by blast
  have "chidb_Btree_writeNode d ?pg (set_data m3 root) = Some (CHIDB_OK, disk_put d ?pg 1 m')"
    using sy p1 writePage_ok [OF ok has, of m'] m3(1)
    by (cases "bn_page root") (simp add: chidb_Btree_writeNode_def set_data_def)
  then have "d' = disk_put d ?pg 1 m'" using wr(1) by simp
  also have "\<dots> = d\<lparr>files := (files d)(f \<mapsto> m')\<rparr>"
    using f sy(2) m3(1) by (simp add: disk_put_def pager_content_def page_off_def file_write_def)
  finally have d': "d' = d\<lparr>files := (files d)(f \<mapsto> m')\<rparr>" .
  have "chidb_Btree_open d f = Some (CHIDB_OK, d', Some ?pg)"
    using f root w wr(1) by (simp add: chidb_Btree_open_def Let_def)
  moreover have "tree_rep d' ?pg (Leaf 1 [])"
    using wr(2,3) by (auto simp: tree_rep_def keeps_def)
  ultimately show ?thesis using that v sy(2) m3(1) d' by simp
qed

text \<open>The number of pages is computed from the size less one, so the last page of every
  file is out of reach when it is opened again.\<close>

lemma reopen_pages:
  assumes "files d f = Some c" and "valid_header c ps" and "ps \<noteq> 0"
    and "length c = k * unat ps" and "length c \<le> 2 ^ 32"
  shows "chidb_Btree_open d f = Some (CHIDB_OK, d,
    Some \<lparr>pg_f = Some f, pg_n_pages = of_nat (k - 1), pg_page_size = ps\<rparr>)"
proof -
  have "0 < unat ps" using assms(3) by (simp add: unat_gt_0)
  then have "(k * unat ps - 1) div unat ps = k - 1"
    by (cases k) (simp_all add: div_eq_0_iff add.commute [of "unat ps"] div_mult_self1 flip: add_diff_assoc)
  with open_valid [OF assms(1-3,5)] assms(4) show ?thesis by simp
qed

end
