(* ===== verification/BtreeOrder.thy ===== *)
theory BtreeOrder
  imports BtreeSpec
begin

section \<open>The order of the rows of a tree\<close>

text \<open>
  The rows of an abstract tree from left to right. A tree is \<open>ordered\<close> when the keys of its
  inner nodes separate its children; with sorted leaves this makes the rows ascend, and an
  insertion keeps it.
\<close>

primrec all_rows :: "dtree \<Rightarrow> rows" and kid_rows :: "kids \<Rightarrow> rows" where
  "all_rows (Leaf _ kvs) = kvs"
| "all_rows (Node _ ks) = kid_rows ks"
| "kid_rows (Last t) = all_rows t"
| "kid_rows (Kid _ t ks) = all_rows t @ kid_rows ks"

primrec ordered :: "dtree \<Rightarrow> bool" and kid_ordered :: "kids \<Rightarrow> bool" where
  "ordered (Leaf _ kvs) \<longleftrightarrow> sorted_wrt (<) (map fst kvs)"
| "ordered (Node _ ks) \<longleftrightarrow> kid_ordered ks"
| "kid_ordered (Last t) \<longleftrightarrow> ordered t"
| "kid_ordered (Kid k t ks) \<longleftrightarrow> ordered t \<and> kid_ordered ks \<and>
     (\<forall>r \<in> set (all_rows t). fst r \<le> k) \<and> (\<forall>r \<in> set (kid_rows ks). k < fst r)"

lemma ordered_sorted_leaves: "ordered t \<Longrightarrow> sorted_leaves t"
  and kid_ordered_sorted_leaves: "kid_ordered ks \<Longrightarrow> kid_sorted_leaves ks"
  by (induction t and ks) auto

lemma ordered_rows: "ordered t \<Longrightarrow> sorted_wrt (<) (map fst (all_rows t))"
  and kid_ordered_rows: "kid_ordered ks \<Longrightarrow> sorted_wrt (<) (map fst (kid_rows ks))"
  by (induction t and ks) (auto simp: sorted_wrt_append intro: le_less_trans)

lemma map_of_ordered: "ordered t \<Longrightarrow> map_of (all_rows t) = lookup t"
  and kid_map_of_ordered: "kid_ordered ks \<Longrightarrow> map_of (kid_rows ks) = kid_lookup ks"
proof (induction t and ks)
  case (Kid k t ks)
  then have below: "\<forall>r \<in> set (all_rows t). fst r \<le> k" and above: "\<forall>r \<in> set (kid_rows ks). k < fst r"
    by simp_all
  have "map_of (all_rows t @ kid_rows ks) j = (if j \<le> k then map_of (all_rows t) j else map_of (kid_rows ks) j)" for j
  proof (cases "j \<le> k")
    case True
    then have "map_of (kid_rows ks) j = None" using above by (fastforce simp: map_of_eq_None_iff)
    with True show ?thesis by (simp add: map_add_def split: option.split)
  next
    case False
    then have "map_of (all_rows t) j = None" using below by (fastforce simp: map_of_eq_None_iff)
    with False show ?thesis by (simp add: map_add_def split: option.split)
  qed
  then show ?case using Kid by (simp add: fun_eq_iff)
qed auto

text \<open>A leaf replaced by a tree with one row more.\<close>

lemma set_replace_leaf:
  "set (all_rows u) = insert r (set (snd (leaf_of t k))) \<Longrightarrow>
   set (all_rows (replace_leaf u t k)) = insert r (set (all_rows t))"
  and kid_set_replace_leaf:
  "set (all_rows u) = insert r (set (snd (kid_leaf_of ks k))) \<Longrightarrow>
   set (kid_rows (kid_replace_leaf u ks k)) = insert r (set (kid_rows ks))"
  by (induction t and ks) auto

lemma ordered_replace_leaf:
  "ordered t \<Longrightarrow> ordered u \<Longrightarrow> set (all_rows u) = insert r (set (snd (leaf_of t (fst r)))) \<Longrightarrow>
   ordered (replace_leaf u t (fst r))"
  and kid_ordered_replace_leaf:
  "kid_ordered ks \<Longrightarrow> ordered u \<Longrightarrow> set (all_rows u) = insert r (set (snd (kid_leaf_of ks (fst r)))) \<Longrightarrow>
   kid_ordered (kid_replace_leaf u ks (fst r))"
proof (induction t and ks)
  case (Kid k t ks)
  then show ?case
    using set_replace_leaf [of u r t "fst r"] kid_set_replace_leaf [of u r ks "fst r"] by auto
qed auto

lemma ordered_split:
  assumes "sorted_wrt (<) (map fst kvs)" and "fst r \<notin> fst ` set kvs"
  shows "ordered (split_leaf pg p r kvs)" and "set (all_rows (split_leaf pg p r kvs)) = insert r (set kvs)"
proof -
  let ?all = "place r kvs" and ?m = "length kvs div 2"
  have s: "sorted_wrt (<) (map fst ?all)" by (rule sorted_place [OF assms])
  have m: "?m < length ?all" by simp
  have t: "fst x \<le> fst (?all ! ?m)" if x: "x \<in> set (take (Suc ?m) ?all)" for x
  proof -
    obtain i where "i < length (take (Suc ?m) ?all)" "take (Suc ?m) ?all ! i = x"
      using x unfolding in_set_conv_nth by blast
    then have i: "i \<le> ?m" "x = ?all ! i" by auto
    then show ?thesis using s m by (cases "i = ?m") (auto simp: sorted_wrt_iff_nth_less less_imp_le)
  qed
  have d: "fst (?all ! ?m) < fst x" if x: "x \<in> set (drop (Suc ?m) ?all)" for x
  proof -
    obtain i where "i < length (drop (Suc ?m) ?all)" "drop (Suc ?m) ?all ! i = x"
      using x unfolding in_set_conv_nth by blast
    then have "Suc ?m + i < length ?all" "x = ?all ! (Suc ?m + i)" using m by auto
    then show ?thesis using s by (auto simp: sorted_wrt_iff_nth_less)
  qed
  have "sorted_wrt (<) (take n (map fst ?all))" "sorted_wrt (<) (drop n (map fst ?all))" for n
    using s by (auto intro: sorted_wrt_take sorted_wrt_drop)
  then show "ordered (split_leaf pg p r kvs)"
    using t d by (simp add: split_leaf_def Let_def take_map drop_map)
  have "set (take (Suc ?m) ?all) \<union> set (drop (Suc ?m) ?all) = set ?all"
    by (metis append_take_drop_id set_append)
  then show "set (all_rows (split_leaf pg p r kvs)) = insert r (set kvs)"
    by (simp add: split_leaf_def Let_def)
qed

lemma ordered_insert:
  assumes "ordered t" and "lookup t (fst r) = None"
  shows "ordered (insert_row pg r t)"
proof -
  obtain p kvs where l: "leaf_of t (fst r) = (p, kvs)" by (cases "leaf_of t (fst r)")
  have s: "sorted_wrt (<) (map fst kvs)"
    using sorted_leaf_of [OF ordered_sorted_leaves [OF assms(1)], of "fst r"] l by simp
  have new: "fst r \<notin> fst ` set kvs" using assms(2) l by (simp add: lookup_leaf_of map_of_eq_None_iff)
  let ?u = "if rows_size (r # kvs) \<le> leaf_room pg p then Leaf p (place r kvs) else split_leaf pg p r kvs"
  have "ordered ?u" "set (all_rows ?u) = insert r (set kvs)"
    using ordered_split [OF s new] sorted_place [OF s new] by auto
  then show ?thesis using ordered_replace_leaf [OF assms(1), of ?u r] l by (simp add: insert_row_def)
qed

text \<open>The rows of an ordered tree are the sorted list of the rows its map has.\<close>

lemma ordered_rows_unique:
  assumes o: "ordered t" and m: "lookup t = map_of rows" and d: "distinct (map fst rows)"
  shows "all_rows t = sort_key fst rows"
proof -
  have s: "sorted_wrt (<) (map fst (all_rows t))" by (rule ordered_rows [OF o])
  then have sd: "sorted (map fst (all_rows t))" "distinct (map fst (all_rows t))"
    by (simp_all add: strict_sorted_iff)
  have "set (all_rows t) = set rows"
    using map_of_inject_set [OF sd(2) d] map_of_ordered [OF o] m by simp
  then have e: "set (all_rows t) = set (sort_key fst rows)" by simp
  have "distinct (map fst (sort_key fst rows))"
    using d by (simp add: distinct_map)
  moreover have "inj_on fst (set (all_rows t) \<union> set (sort_key fst rows))"
    using sd(2) e by (simp add: distinct_map)
  ultimately show ?thesis
    using map_sorted_distinct_set_unique [of fst "all_rows t" "sort_key fst rows"] sd e by simp
qed

end
