(* ===== verification/BtreeTable.thy ===== *)
theory BtreeTable
  imports BtreeFile BtreeOrder "HOL-Library.Multiset"
begin

section \<open>Tables: sequences of insertions\<close>

text \<open>
  The contract a table offers its clients, as an interface: an insertion of a new key
  succeeds while there is room and updates the map the searches show. What a client gets
  from a whole sequence of insertions is proved from the interface alone; the B-tree is
  then shown to provide it, for rows of one size.
\<close>

subsection \<open>The interface\<close>

text \<open>\<open>inv n s\<close> means that \<open>n\<close> more rows can be inserted in \<open>s\<close>.\<close>

locale table_map =
  fixes inv :: "nat \<Rightarrow> 's \<Rightarrow> bool"
    and good :: "'k \<times> 'v \<Rightarrow> bool"
    and get :: "'s \<Rightarrow> 'k \<Rightarrow> 'v option"
    and put :: "'s \<Rightarrow> 'k \<times> 'v \<Rightarrow> 's option"
  assumes put_ok: "inv (Suc n) s \<Longrightarrow> good r \<Longrightarrow> get s (fst r) = None \<Longrightarrow>
    \<exists>s'. put s r = Some s' \<and> inv n s' \<and> get s' = (get s)(fst r \<mapsto> snd r)"

fun put_rows :: "('s \<Rightarrow> 'r \<Rightarrow> 's option) \<Rightarrow> 's \<Rightarrow> 'r list \<Rightarrow> 's option" where
  "put_rows put s [] = Some s"
| "put_rows put s (r # rs) = do { s \<leftarrow> put s r; put_rows put s rs }"

context table_map begin

lemma put_rows_ok:
  "inv (n + length rs) s \<Longrightarrow> \<forall>r \<in> set rs. good r \<and> get s (fst r) = None \<Longrightarrow> distinct (map fst rs) \<Longrightarrow>
   \<exists>s'. put_rows put s rs = Some s' \<and> inv n s' \<and> get s' = get s ++ map_of rs"
proof (induction rs arbitrary: s)
  case Nil
  then show ?case by simp
next
  case (Cons r rs)
  obtain s1 where s1: "put s r = Some s1" "inv (n + length rs) s1" "get s1 = (get s)(fst r \<mapsto> snd r)"
    using put_ok [of "n + length rs" s r] Cons.prems by auto
  have "\<forall>q \<in> set rs. good q \<and> get s1 (fst q) = None"
    using Cons.prems(2,3) s1(3) by (auto simp: rev_image_eqI)
  then obtain s' where "put_rows put s1 rs = Some s'" "inv n s'" "get s' = get s1 ++ map_of rs"
    using Cons.IH [OF s1(2)] Cons.prems(3) by auto
  moreover have "(get s)(fst r \<mapsto> snd r) ++ map_of rs = get s ++ map_of (r # rs)"
    using Cons.prems(3) by (cases r) (simp add: map_add_upd_left dom_map_of_conv_image_fst)
  ultimately show ?case using s1 by (simp del: map_of.simps)
qed

text \<open>The rows may be inserted in any order.\<close>

lemma put_rows_perm:
  assumes "inv (n + length rs) s" and "\<forall>r \<in> set rs. good r \<and> get s (fst r) = None"
    and "distinct (map fst rs)" and "mset qs = mset rs"
  shows "\<exists>s1 s2. put_rows put s rs = Some s1 \<and> put_rows put s qs = Some s2 \<and> inv n s1 \<and> inv n s2 \<and>
    get s1 = get s2"
proof -
  have set: "set qs = set rs" using assms(4) by (metis set_mset_mset)
  have len: "length qs = length rs" using assms(4) by (metis size_mset)
  have "mset (map fst qs) = mset (map fst rs)" using assms(4) by simp
  then have dq: "distinct (map fst qs)" using assms(3) by (metis mset_eq_imp_distinct_iff)
  then have "map_of qs = map_of rs"
    using assms(3) set by (intro map_of_inject_set [THEN iffD2]) auto
  then show ?thesis
    using put_rows_ok [OF assms(1-3)] put_rows_ok [of n qs s] assms(1,2) set len dq by auto
qed

end

subsection \<open>Rows of one size\<close>

text \<open>All the rows of a tree have \<open>l\<close> bytes.\<close>

primrec uniform :: "nat \<Rightarrow> dtree \<Rightarrow> bool" and kid_uniform :: "nat \<Rightarrow> kids \<Rightarrow> bool" where
  "uniform l (Leaf p kvs) \<longleftrightarrow> (\<forall>r \<in> set kvs. length (snd r) = l)"
| "uniform l (Node p ks) \<longleftrightarrow> kid_uniform l ks"
| "kid_uniform l (Last t) \<longleftrightarrow> uniform l t"
| "kid_uniform l (Kid _ t ks) \<longleftrightarrow> uniform l t \<and> kid_uniform l ks"

lemma uniform_leaf_of: "uniform l t \<Longrightarrow> \<forall>r \<in> set (snd (leaf_of t k)). length (snd r) = l"
  and kid_uniform_leaf_of: "kid_uniform l ks \<Longrightarrow> \<forall>r \<in> set (snd (kid_leaf_of ks k)). length (snd r) = l"
  by (induction t and ks) auto

lemma uniform_replace: "uniform l t \<Longrightarrow> uniform l u \<Longrightarrow> uniform l (replace_leaf u t k)"
  and kid_uniform_replace: "kid_uniform l ks \<Longrightarrow> uniform l u \<Longrightarrow> kid_uniform l (kid_replace_leaf u ks k)"
  by (induction t and ks) auto

lemma uniform_insert:
  assumes "uniform l t" and "length (snd r) = l"
  shows "uniform l (insert_row pg r t)"
proof -
  obtain p kvs where l: "leaf_of t (fst r) = (p, kvs)" by (cases "leaf_of t (fst r)")
  then have "\<forall>q \<in> set (place r kvs). length (snd q) = l"
    using uniform_leaf_of [OF assms(1), of "fst r"] assms(2) by auto
  then have "uniform l (if rows_size (r # kvs) \<le> leaf_room pg p then Leaf p (place r kvs) else split_leaf pg p r kvs)"
    by (auto simp: split_leaf_def Let_def simp del: set_place dest: in_set_takeD in_set_dropD)
  then show ?thesis using uniform_replace [OF assms(1)] l by (simp add: insert_row_def)
qed

lemma rows_size_uniform: "\<forall>r \<in> set kvs. length (snd r) = l \<Longrightarrow> rows_size kvs = int (length kvs) * (int l + 10)"
  by (induction kvs) (auto simp: rows_size_def algebra_simps)

text \<open>Splitting a full leaf of rows of one size gives two halves that fit.\<close>

lemma halves_fit_uniform:
  assumes ps: "122 \<le> unat (pg_page_size pg)" "l + 18 \<le> unat (pg_page_size pg)"
    and fits: "rows_size kvs \<le> leaf_room pg p" and u: "\<forall>q \<in> set kvs. length (snd q) = l" "length (snd r) = l"
  shows "halves_fit pg r kvs"
proof -
  let ?m = "Suc (length kvs div 2)" and ?all = "place r kvs"
  have "int (l + 18) \<le> int (unat (pg_page_size pg))" using ps(2) by (simp only: of_nat_le_iff)
  then have psz: "int l + 18 \<le> uint (pg_page_size pg)" by simp
  have bound: "rows_size xs \<le> uint (pg_page_size pg) - 8"
    if "\<forall>q \<in> set xs. length (snd q) = l" "length xs \<le> max 1 (length kvs)" for xs
  proof (cases "length kvs = 0")
    case True
    then have "rows_size xs \<le> 1 * (int l + 10)"
      unfolding rows_size_uniform [OF that(1)] using that(2) by (intro mult_right_mono) auto
    then show ?thesis using psz by simp
  next
    case False
    then have "length xs \<le> length kvs" using that(2) by (cases kvs) auto
    then have "rows_size xs \<le> int (length kvs) * (int l + 10)"
      unfolding rows_size_uniform [OF that(1)] using that(2) by (intro mult_right_mono) auto
    also have "\<dots> = rows_size kvs" using rows_size_uniform [OF u(1)] by simp
    finally show ?thesis using fits by (simp add: leaf_room_def header_offset_def split: if_splits)
  qed
  have all: "\<forall>q \<in> set ?all. length (snd q) = l" using u by auto
  have "\<forall>q \<in> set (take ?m ?all). length (snd q) = l" "\<forall>q \<in> set (drop ?m ?all). length (snd q) = l"
    using all set_take_subset [of ?m ?all] set_drop_subset [of ?m ?all] by blast+
  then have "rows_size (take ?m ?all) \<le> uint (pg_page_size pg) - 8" "rows_size (drop ?m ?all) \<le> uint (pg_page_size pg) - 8"
    by (intro bound; simp; linarith)+
  with ps(1) show ?thesis by (simp add: halves_fit_def Let_def)
qed

lemma leaf_fits:
  assumes "rep d pg t" and "leaf_of t k = (p, kvs)"
  shows "rows_size kvs \<le> leaf_room pg p"
proof -
  obtain btn where "is_node d pg p PGTYPE_TABLE_LEAF (map leaf_cell kvs) 0 btn"
    using rep_leaf_of [OF assms] by blast
  then have m: "mem_node pg p PGTYPE_TABLE_LEAF (map leaf_cell kvs) 0 btn" by (rule is_node_mem)
  then have rep: "node_rep btn (map leaf_cell kvs)"
    and free: "node_free btn = cells_room pg p PGTYPE_TABLE_LEAF - rows_size kvs"
    by (auto simp: mem_node_def cells_room_def)
  have "0 \<le> node_free btn" using node_repD(5) [OF rep] by (simp add: node_free_def)
  then show ?thesis unfolding free leaf_cells_room by simp
qed

subsection \<open>The B-tree is a table\<close>

type_synonym table = "disk \<times> Pager \<times> u32"

definition table_inv :: "nat \<Rightarrow> nat \<Rightarrow> table \<Rightarrow> bool" where
  "table_inv l n = (\<lambda>(d, pg, root). 122 \<le> unat (pg_page_size pg) \<and> l + 18 \<le> unat (pg_page_size pg) \<and>
     can_grow d pg (2 * n) \<and>
     (\<exists>t. tree_rep d pg t \<and> root_page t = root \<and> ordered t \<and> uniform l t))"

definition table_row :: "nat \<Rightarrow> u32 \<times> bytes \<Rightarrow> bool" where
  "table_row l r \<longleftrightarrow> unat (fst r) < 2 ^ 28 \<and> length (snd r) = l"

definition table_get :: "table \<Rightarrow> u32 \<Rightarrow> bytes option" where
  "table_get s key = (case s of (d, pg, root) \<Rightarrow>
     (case chidb_Btree_find d pg root key of
        Some (rc, Some (data, _)) \<Rightarrow> if rc = CHIDB_OK then Some data else None
      | _ \<Rightarrow> None))"

definition table_put :: "table \<Rightarrow> u32 \<times> bytes \<Rightarrow> table option" where
  "table_put s r = (case s of (d, pg, root) \<Rightarrow>
     (case chidb_Btree_insertInTable d pg root (fst r) (snd r) (of_nat (length (snd r))) of
        Some (rc, d', pg') \<Rightarrow> if rc = CHIDB_OK then Some (d', pg', root) else None
      | None \<Rightarrow> None))"

lemma table_get_rep: "tree_rep d pg t \<Longrightarrow> table_get (d, pg, root_page t) = lookup t"
  by (auto simp: table_get_def find_rep find_result_def fun_eq_iff split: option.splits)

lemma can_grow_less: "can_grow d pg j \<Longrightarrow> i \<le> j \<Longrightarrow> can_grow d pg i"
proof -
  assume g: "can_grow d pg j" and "i \<le> j"
  then have "(unat (pg_n_pages pg) + i) * unat (pg_page_size pg) \<le> (unat (pg_n_pages pg) + j) * unat (pg_page_size pg)"
    by (intro mult_right_mono) auto
  with g show ?thesis unfolding can_grow_def by linarith
qed

lemma can_grow_after:
  assumes "can_grow d pg (2 + j)" and "pager_ok d pg" and "room d' = room d"
    and "pg' = pg \<or> pg' = pg\<lparr>pg_n_pages := pg_n_pages pg + 2\<rparr>"
  shows "can_grow d' pg' j"
proof -
  have "unat (pg_n_pages pg + 2) = unat (pg_n_pages pg) + 2"
    using can_grow_unat [OF can_grow_less [OF assms(1), of 2] assms(2), of 2] by simp
  then have "can_grow d (pg\<lparr>pg_n_pages := pg_n_pages pg + 2\<rparr>) j"
    using assms(1) by (simp add: can_grow_def add.assoc)
  moreover have "can_grow d pg j" by (rule can_grow_less [OF assms(1)]) simp
  ultimately show ?thesis using assms(3,4) by (auto simp: can_grow_def)
qed

interpretation btree: table_map "table_inv l" "table_row l" table_get table_put for l
proof unfold_locales
  fix n s and r :: "u32 \<times> bytes"
  assume inv: "table_inv l (Suc n) s" and row: "table_row l r" and new: "table_get s (fst r) = None"
  obtain d pg root where s: "s = (d, pg, root)" by (cases s)
  obtain t where t: "tree_rep d pg t" "root_page t = root" "ordered t" "uniform l t"
    and ps: "122 \<le> unat (pg_page_size pg)" "l + 18 \<le> unat (pg_page_size pg)"
    and grow: "can_grow d pg (2 * Suc n)"
    using inv s by (auto simp: table_inv_def)
  have ok: "pager_ok d pg" and rp: "rep d pg t" using t(1) by (auto simp: tree_rep_def)
  have new': "lookup t (fst r) = None" using new table_get_rep [OF t(1)] t(2) s by simp
  have len: "length (snd r) = l" using row by (simp add: table_row_def)
  obtain p kvs where l: "leaf_of t (fst r) = (p, kvs)" by (cases "leaf_of t (fst r)")
  have "halves_fit pg r kvs"
    using halves_fit_uniform [OF ps leaf_fits [OF rp l]] uniform_leaf_of [OF t(4), of "fst r"] l len by simp
  moreover have "can_grow d pg 2" by (rule can_grow_less [OF grow]) simp
  moreover have "unat (pg_page_size pg) < 2 ^ 16" using unsigned_less [of "pg_page_size pg"] by simp
  ultimately have can: "can_insert d pg r t"
    using row l ps by (simp add: can_insert_def table_row_def row_ok_def)
  obtain d' pg' where i: "chidb_Btree_insertInTable d pg root (fst r) (snd r) (of_nat (length (snd r))) = Some (CHIDB_OK, d', pg')"
    and t': "tree_rep d' pg' (insert_row pg r t)" "root_page (insert_row pg r t) = root"
    and pg': "pg' = pg \<or> pg' = pg\<lparr>pg_n_pages := pg_n_pages pg + 2\<rparr>" "room d' = room d"
    using insert_rep [OF t(1) new' can] t(2) by metis
  have "can_grow d' pg' (2 * n)" by (rule can_grow_after [OF _ ok pg'(2,1)]) (use grow in simp)
  moreover have "pg_page_size pg' = pg_page_size pg" using pg'(1) by auto
  ultimately have "table_inv l n (d', pg', root)"
    using t' ps ordered_insert [OF t(3) new', of pg] uniform_insert [OF t(4) len, of pg]
    by (auto simp: table_inv_def intro!: exI [of _ "insert_row pg r t"])
  moreover have "table_get (d', pg', root) = (table_get s)(fst r \<mapsto> snd r)"
    using table_get_rep [OF t'(1)] table_get_rep [OF t(1)] t(2) t'(2) s insert_row_correct(1) [OF ordered_sorted_leaves [OF t(3)] new', of pg]
    by simp
  ultimately show "\<exists>s'. table_put s r = Some s' \<and> table_inv l n s' \<and> table_get s' = (table_get s)(fst r \<mapsto> snd r)"
    using i s by (simp add: table_put_def)
qed

subsection \<open>A new table\<close>

lemma new_table:
  assumes f: "files d f = Some []" and room: "(2 * n + 1) * 1024 \<le> room d" "(2 * n + 1) * 1024 < 2 ^ 32"
    and l: "l \<le> 1006"
  obtains d' pg where "chidb_Btree_open d f = Some (CHIDB_OK, d', Some pg)" and "table_inv l n (d', pg, 1)"
    and "\<And>k. table_get (d', pg, 1) k = None"
proof -
  obtain m where o': "chidb_Btree_open d f = Some (CHIDB_OK, d\<lparr>files := (files d)(f \<mapsto> m)\<rparr>, Some (new_pager f))"
    and t: "tree_rep (d\<lparr>files := (files d)(f \<mapsto> m)\<rparr>) (new_pager f) (Leaf 1 [])"
    using open_empty_file [OF f] room(1) by auto
  have "table_inv l n (d\<lparr>files := (files d)(f \<mapsto> m)\<rparr>, new_pager f, 1)"
    using t l room by (auto simp: table_inv_def can_grow_def intro!: exI [of _ "Leaf 1 []"])
  moreover have "table_get (d\<lparr>files := (files d)(f \<mapsto> m)\<rparr>, new_pager f, 1) k = None" for k
    using table_get_rep [OF t] by simp
  ultimately show ?thesis using that o' by blast
qed

text \<open>A search answers with what the table holds, its size included.\<close>

lemma find_table_get:
  assumes "table_inv l n (d, pg, root)"
  shows "chidb_Btree_find d pg root key = Some (find_result (table_get (d, pg, root) key))"
proof -
  obtain t where "tree_rep d pg t" "root_page t = root" using assms by (auto simp: table_inv_def)
  then show ?thesis using find_rep [of d pg t key] table_get_rep [of d pg t] by auto
qed

text \<open>A table of one leaf with room keeps its pages: the row goes into the leaf.\<close>

lemma insert_in_root_leaf:
  assumes t: "tree_rep d pg (Leaf p kvs)" and row: "row_ok r" and new: "fst r \<notin> fst ` set kvs"
    and fits: "rows_size (r # kvs) \<le> leaf_room pg p"
  obtains d' where "chidb_Btree_insertInTable d pg p (fst r) (snd r) (of_nat (length (snd r))) = Some (CHIDB_OK, d', pg)"
    and "tree_rep d' pg (Leaf p (place r kvs))" and "room d' = room d"
proof -
  have ok: "pager_ok d pg" using t by (simp add: tree_rep_def)
  have l: "leaf_of (Leaf p kvs) (fst r) = (p, kvs)" by simp
  obtain s btn where s: "is_node d pg p PGTYPE_TABLE_LEAF (map leaf_cell kvs) 0 btn"
    "deref_node s (iv_btn s) = Some btn"
    "chidb_Btree_insertInTable d pg p (fst r) (snd r) (of_nat (length (snd r))) = insert_split d pg (leaf_cell r) (- 1) s"
    by (rule insert_reaches [OF t row l]) (use that in simp)
  obtain d' where "insert_split d pg (leaf_cell r) (- 1) s = Some (CHIDB_OK, d', pg)"
    "keeps d pg d' pg {p}" "rep d' pg (Leaf p (place r kvs))"
    using insert_split_room [OF ok s(1,2) row new fits] by blast
  then show ?thesis using that [of d'] s(3) by (simp add: keeps_def tree_rep_def)
qed

lemma new_file_tree:
  assumes "files d f = Some []" and "1024 \<le> room d"
  obtains d' where "chidb_Btree_open d f = Some (CHIDB_OK, d', Some (new_pager f))"
    and "tree_rep d' (new_pager f) (Leaf 1 [])" and "room d' = room d"
proof -
  obtain m where "chidb_Btree_open d f = Some (CHIDB_OK, d\<lparr>files := (files d)(f \<mapsto> m)\<rparr>, Some (new_pager f))"
    "tree_rep (d\<lparr>files := (files d)(f \<mapsto> m)\<rparr>) (new_pager f) (Leaf 1 [])"
    using open_empty_file [OF assms] by blast
  then show ?thesis using that [of "d\<lparr>files := (files d)(f \<mapsto> m)\<rparr>"] by simp
qed

lemma one_row_table:
  fixes d :: disk
  assumes "files d f = Some []" and "1024 \<le> room d" and "length v \<le> 900"
  obtains d' where "tree_rep d' (new_pager f) (Leaf 1 [(5, v)])" and "room d' = room d"
proof -
  obtain d1 where t: "tree_rep d1 (new_pager f) (Leaf 1 [])" and r1: "room d1 = room d"
    using new_file_tree [OF assms(1,2)] by blast
  obtain d2 where "tree_rep d2 (new_pager f) (Leaf 1 (place (5, v) []))" "room d2 = room d1"
    by (rule insert_in_root_leaf [OF t, of "(5, v)"])
      (use assms(3) in \<open>auto simp: row_ok_def rows_size_def leaf_room_def header_offset_def\<close>)
  then show ?thesis using that [of d2] r1 by simp
qed

end
