(* ===== verification/BtreePrint.thy ===== *)
theory BtreePrint
  imports BtreeTable Records
begin

section \<open>Printing a B-tree and copying a file (util.c)\<close>

text \<open>
  The walk over a whole B-tree that \<open>chidb_Btree_print\<close> makes, with the text it prints, and
  \<open>copy\<close>, which the reader of program files uses to work on a copy of a database. A printer
  of cells is an argument, as in the code. The walk does not return on pages that form a cycle.
  It is shown that it prints the rows of a table in the order of their keys.
\<close>

subsection \<open>Formats\<close>

text \<open>\<open>%5i\<close> and \<open>%-15s\<close>.\<close>

definition pad_left :: "nat \<Rightarrow> string \<Rightarrow> string" where
  "pad_left n s = replicate (n - length s) CHR '' '' @ s"

definition pad_right :: "nat \<Rightarrow> string \<Rightarrow> string" where
  "pad_right n s = s @ replicate (n - length s) CHR '' ''"

definition text_of :: "bytes \<Rightarrow> string" where
  "text_of bs = map (\<lambda>b. char_of (unat b)) bs"

definition line_end :: string where "line_end = [CHR 0x0A]"

fun printed_text :: "printed \<Rightarrow> string" where
  "printed_text PrintNull = ''|''"
| "printed_text (PrintInt i) = ''| '' @ show_int (word_of_int i) @ '' ''"
| "printed_text (PrintStr s) = ''| '' @ text_of s @ '' ''"

text \<open>The record is read from the data of the cell only; \<open>junk\<close> are the header fields
  \<open>malloc\<close> left.\<close>

definition chidb_BTree_recordPrinter :: "(nat \<Rightarrow> u32) \<Rightarrow> BTreeNode \<Rightarrow> BTreeCell \<Rightarrow> string option" where
  "chidb_BTree_recordPrinter junk btn btc =
     (case bc_fields btc of
        TableLeaf _ data \<Rightarrow> do {
          (_, dbr) \<leftarrow> chidb_DBRecord_unpack junk data;
          (_, out) \<leftarrow> chidb_DBRecord_print dbr;
          Some (''< '' @ pad_left 5 (show_int (bc_key btc)) @ '' >'' @
            concat (map printed_text out) @ ''|'' @ line_end) }
      | _ \<Rightarrow> None)"

subsection \<open>The walk\<close>

fun print_cells :: "(BTreeCell \<Rightarrow> string option) \<Rightarrow> BTreeNode \<Rightarrow> nat list \<Rightarrow> string option" where
  "print_cells pr btn [] = Some []"
| "print_cells pr btn (i # is) = do {
     btc \<leftarrow> cell_of btn i;
     s \<leftarrow> pr btc;
     t \<leftarrow> print_cells pr btn is;
     Some (s @ t) }"

definition index_line :: "BTreeCell \<Rightarrow> string option" where
  "index_line btc = do {
     k \<leftarrow> index_keyPk (bc_fields btc);
     Some (pad_left 10 (show_int (bc_key btc)) @ '' -> '' @ pad_left 10 (show_int k) @ line_end) }"

definition table_child :: "BTreeCell \<Rightarrow> u32 option" where
  "table_child btc = (case bc_fields btc of TableInternal p \<Rightarrow> Some p | _ \<Rightarrow> None)"

definition index_child :: "BTreeCell \<Rightarrow> u32 option" where
  "index_child btc = (case bc_fields btc of IndexInternal _ p \<Rightarrow> Some p | _ \<Rightarrow> None)"

text \<open>The loop over the cells of an internal node: \<open>pr\<close> prints a child, \<open>tail\<close> is what follows
  it. The last key is not initialised (\<open>None\<close>) when there is no cell.\<close>

fun print_children :: "(u32 \<Rightarrow> string option) \<Rightarrow> (BTreeCell \<Rightarrow> u32 option) \<Rightarrow> (BTreeCell \<Rightarrow> string option) \<Rightarrow>
  (u32 \<Rightarrow> string) \<Rightarrow> BTreeNode \<Rightarrow> nat list \<Rightarrow> u32 option \<Rightarrow> (string \<times> u32 option) option" where
  "print_children pr child tail intro btn [] last_key = Some ([], last_key)"
| "print_children pr child tail intro btn (i # is) last_key = do {
     btc \<leftarrow> cell_of btn i;
     p \<leftarrow> child btc;
     s \<leftarrow> pr p;
     t \<leftarrow> tail btc;
     (u, last_key) \<leftarrow> print_children pr child tail intro btn is (Some (bc_key btc));
     Some (intro (bc_key btc) @ s @ t @ u, last_key) }"

lemma print_children_mono [partial_function_mono]:
  assumes "\<And>p. mono_option (\<lambda>f. pr p f)"
  shows "mono_option (\<lambda>f. print_children (\<lambda>p. pr p f) child tail intro btn is last_key)"
  by (induction "is" arbitrary: last_key)
    (use assms in \<open>simp_all add: option.const_mono, (intro bind_mono option.const_mono; simp add: case_prod_beta; blast)?\<close>)

definition key_line :: "bool \<Rightarrow> string \<Rightarrow> u32 \<Rightarrow> string" where
  "key_line verbose sign k = (if verbose then ''Printing Keys '' @ sign @ show_int k @ line_end else [])"

definition node_line :: "bool \<Rightarrow> string \<Rightarrow> BTreeNode \<Rightarrow> string" where
  "node_line verbose kind btn =
     (if verbose then kind @ '' node (page '' @ show_int (mp_npage (bn_page btn)) @ '')'' @ line_end else [])"

definition last_line :: "bool \<Rightarrow> u32 option \<Rightarrow> string option" where
  "last_line verbose last_key = (if verbose then map_option (key_line True ''> '') last_key else Some [])"

partial_function (option) chidb_Btree_print ::
  "disk \<Rightarrow> Pager \<Rightarrow> (BTreeNode \<Rightarrow> BTreeCell \<Rightarrow> string option) \<Rightarrow> bool \<Rightarrow> u32 \<Rightarrow> (int \<times> string) option" where
  "chidb_Btree_print d pg printer verbose npage = do {
     btn \<leftarrow> load_node d pg npage;
     if bn_type btn = PGTYPE_TABLE_LEAF then do {
       s \<leftarrow> print_cells (printer btn) btn (cell_indices btn);
       Some (CHIDB_OK, node_line verbose ''Leaf'' btn @ s) }
     else if bn_type btn = PGTYPE_TABLE_INTERNAL then do {
       (s, last_key) \<leftarrow> print_children
         (\<lambda>p. do { (_, s) \<leftarrow> chidb_Btree_print d pg printer verbose p; Some s })
         table_child (\<lambda>_. Some []) (key_line verbose ''<= '') btn (cell_indices btn) None;
       t \<leftarrow> last_line verbose last_key;
       (_, u) \<leftarrow> chidb_Btree_print d pg printer verbose (bn_right_page btn);
       Some (CHIDB_OK, node_line verbose ''Internal'' btn @ s @ t @ u) }
     else if bn_type btn = PGTYPE_INDEX_LEAF then do {
       s \<leftarrow> print_cells index_line btn (cell_indices btn);
       Some (CHIDB_OK, node_line verbose ''Leaf'' btn @ s) }
     else if bn_type btn = PGTYPE_INDEX_INTERNAL then do {
       (s, last_key) \<leftarrow> print_children
         (\<lambda>p. do { (_, s) \<leftarrow> chidb_Btree_print d pg printer verbose p; Some s })
         index_child index_line (key_line verbose ''< '') btn (cell_indices btn) None;
       t \<leftarrow> last_line verbose last_key;
       (_, u) \<leftarrow> chidb_Btree_print d pg printer verbose (bn_right_page btn);
       Some (CHIDB_OK, node_line verbose ''Internal'' btn @ s @ t @ u) }
     else Some (CHIDB_OK, []) }"

declare chidb_Btree_print.simps [code]

subsection \<open>Copying\<close>

text \<open>The loop stores the value of the \<open>fgetc\<close> that meets the end of the file as well, a byte of
  ones. The target is truncated before the source is read; the answer is whether the copy succeeded.\<close>

definition copy :: "disk \<Rightarrow> string \<Rightarrow> string \<Rightarrow> bool \<times> disk" where
  "copy d from to =
     (if files d from = None then (False, d)
      else if files d to = None \<and> \<not> may_create d to then (False, d)
      else
        (let d = d\<lparr>files := (files d)(to \<mapsto> [])\<rparr>;
             bs = the (files d from) @ [- 1];
             n = min (length bs) (room d)
         in (n = length bs, d\<lparr>files := (files d)(to \<mapsto> take n bs)\<rparr>)))"

subsection \<open>The walk prints the rows in order\<close>

text \<open>What the walk prints of a tree, given the line each row prints; the headings are those of
  the verbose form.\<close>

primrec listing :: "bool \<Rightarrow> (u32 \<times> bytes \<Rightarrow> string) \<Rightarrow> dtree \<Rightarrow> string"
  and kid_listing :: "bool \<Rightarrow> (u32 \<times> bytes \<Rightarrow> string) \<Rightarrow> u32 option \<Rightarrow> kids \<Rightarrow> string" where
  "listing v line (Leaf p kvs) =
     (if v then ''Leaf node (page '' @ show_int p @ '')'' @ line_end else []) @ concat (map line kvs)"
| "listing v line (Node p ks) =
     (if v then ''Internal node (page '' @ show_int p @ '')'' @ line_end else []) @ kid_listing v line None ks"
| "kid_listing v line lk (Last t) = the (last_line v lk) @ listing v line t"
| "kid_listing v line lk (Kid k t ks) = key_line v ''<= '' k @ listing v line t @ kid_listing v line (Some k) ks"

lemma listing_rows: "listing False line t = concat (map line (all_rows t))"
  and kid_listing_rows: "kid_listing False line lk ks = concat (map line (kid_rows ks))"
  by (induction t and ks arbitrary: and lk) (simp_all add: last_line_def key_line_def)

text \<open>A printer that prints the line of every row, on any node.\<close>

definition prints_rows :: "(BTreeNode \<Rightarrow> BTreeCell \<Rightarrow> string option) \<Rightarrow> (u32 \<times> bytes \<Rightarrow> string) \<Rightarrow> rows \<Rightarrow> bool" where
  "prints_rows printer line kvs \<longleftrightarrow> (\<forall>r \<in> set kvs. \<forall>btn. printer btn (leaf_cell r) = Some (line r))"

lemma print_cells_rep:
  assumes "node_rep btn (map leaf_cell kvs)" and "drop j kvs = ks"
    and "\<forall>r \<in> set ks. pr (leaf_cell r) = Some (line r)"
  shows "print_cells pr btn [j..<length kvs] = Some (concat (map line ks))"
  using assms(2,3)
proof (induction ks arbitrary: j)
  case (Cons r rs)
  then have "drop j (map leaf_cell kvs) = leaf_cell r # map leaf_cell rs" by (simp add: drop_map)
  from cell_of_drop [OF assms(1) this] drop_ConsD [OF Cons.prems(1)] Cons.IH [of "Suc j"] Cons.prems(2)
  show ?case by (simp add: upt_rec [of j])
qed simp

text \<open>The trees the insertions make have a key in every inner node.\<close>

primrec proper :: "dtree \<Rightarrow> bool" and kid_proper :: "kids \<Rightarrow> bool" where
  "proper (Leaf _ _) \<longleftrightarrow> True"
| "proper (Node _ ks) \<longleftrightarrow> kid_proper ks \<and> (\<exists>k t ks'. ks = Kid k t ks')"
| "kid_proper (Last t) \<longleftrightarrow> proper t"
| "kid_proper (Kid _ t ks) \<longleftrightarrow> proper t \<and> kid_proper ks"

lemma print_rep_aux:
  assumes ok: "pager_ok d pg"
  shows "rep d pg t \<Longrightarrow> prints_rows printer line (all_rows t) \<Longrightarrow> v \<longrightarrow> proper t \<Longrightarrow>
      chidb_Btree_print d pg printer v (root_page t) = Some (CHIDB_OK, listing v line t)"
    and "kid_rep d pg ks \<Longrightarrow> prints_rows printer line (kid_rows ks) \<Longrightarrow> v \<longrightarrow> kid_proper ks \<Longrightarrow>
      node_rep btn cs \<Longrightarrow> drop j cs = kid_cells ks \<Longrightarrow> (v \<longrightarrow> lk \<noteq> None \<or> (\<exists>k t ks'. ks = Kid k t ks')) \<Longrightarrow>
      \<exists>s last' w u. print_children (\<lambda>p. do { (_, s) \<leftarrow> chidb_Btree_print d pg printer v p; Some s })
          table_child (\<lambda>_. Some []) (key_line v ''<= '') btn [j..<length cs] lk = Some (s, last') \<and>
        last_line v last' = Some w \<and>
        chidb_Btree_print d pg printer v (last_page ks) = Some (CHIDB_OK, u) \<and>
        kid_listing v line lk ks = s @ w @ u"
proof (induction t and ks arbitrary: and btn cs j lk)
  case (Leaf p kvs)
  then obtain btn where btn: "is_node d pg p PGTYPE_TABLE_LEAF (map leaf_cell kvs) 0 btn" by auto
  then have n: "node_rep btn (map leaf_cell kvs)" "bn_type btn = PGTYPE_TABLE_LEAF" "mp_npage (bn_page btn) = p"
    by (simp_all add: is_node_def)
  have "print_cells (printer btn) btn [0..<length kvs] = Some (concat (map line kvs))"
    by (rule print_cells_rep [OF n(1)]) (use Leaf.prems(2) in \<open>simp_all add: prints_rows_def\<close>)
  then show ?case
    using load_node_rep [OF ok btn] n
    by (subst chidb_Btree_print.simps) (simp add: cell_indices_rep node_line_def)
next
  case (Node p ks)
  then obtain btn where btn: "is_node d pg p PGTYPE_TABLE_INTERNAL (kid_cells ks) (last_page ks) btn"
    and "kid_rep d pg ks" by auto
  then have n: "node_rep btn (kid_cells ks)" "bn_type btn = PGTYPE_TABLE_INTERNAL"
    "bn_right_page btn = last_page ks" "mp_npage (bn_page btn) = p" by (simp_all add: is_node_def)
  have kids: "v \<longrightarrow> None \<noteq> (None :: u32 option) \<or> (\<exists>k t ks'. ks = Kid k t ks')"
    using Node.prems(3) by (cases ks) auto
  obtain s last' w u where "print_children (\<lambda>p. do { (_, s) \<leftarrow> chidb_Btree_print d pg printer v p; Some s })
          table_child (\<lambda>_. Some []) (key_line v ''<= '') btn [0..<length (kid_cells ks)] None = Some (s, last')"
      "last_line v last' = Some w" "chidb_Btree_print d pg printer v (last_page ks) = Some (CHIDB_OK, u)"
      "kid_listing v line None ks = s @ w @ u"
    using Node.IH [OF \<open>kid_rep d pg ks\<close> _ _ n(1), of 0 None] Node.prems kids by auto
  then show ?case
    using load_node_rep [OF ok btn] n
    by (subst chidb_Btree_print.simps) (simp add: cell_indices_rep node_line_def)
next
  case (Last t)
  then have "length cs \<le> j" by simp
  moreover have "chidb_Btree_print d pg printer v (root_page t) = Some (CHIDB_OK, listing v line t)"
    using Last by simp
  ultimately show ?case using Last.prems(6) by (auto simp: last_line_def)
next
  case (Kid k t ks)
  from cell_of_drop [OF Kid.prems(4), of j] Kid.prems(5)
  have j: "j < length cs" "cell_of btn j = Some (kid_cell k (root_page t))"
    "drop (Suc j) cs = kid_cells ks" by auto
  have "prints_rows printer line (all_rows t)" "prints_rows printer line (kid_rows ks)"
    using Kid.prems(2) by (simp_all add: prints_rows_def)
  then show ?case
    using Kid.IH(2) [OF _ _ _ Kid.prems(4) j(3), of "Some k"] Kid.prems Kid.IH(1) j
    by (auto simp: upt_rec [of j] kid_cell_def table_child_def)
qed

lemma print_rep:
  assumes "tree_rep d pg t" and "prints_rows printer line (all_rows t)" and "v \<longrightarrow> proper t"
  shows "chidb_Btree_print d pg printer v (root_page t) = Some (CHIDB_OK, listing v line t)"
  using assms print_rep_aux(1) by (simp add: tree_rep_def)

text \<open>A table prints the rows it holds, sorted by their keys.\<close>

lemma print_table:
  assumes "table_inv l n (d, pg, root)" and "table_get (d, pg, root) = map_of rows"
    and "distinct (map fst rows)" and "prints_rows printer line rows"
  shows "chidb_Btree_print d pg printer False root = Some (CHIDB_OK, concat (map line (sort_key fst rows)))"
proof -
  obtain t where t: "tree_rep d pg t" "root_page t = root" "ordered t"
    using assms(1) by (auto simp: table_inv_def)
  then have "all_rows t = sort_key fst rows"
    using ordered_rows_unique [of t rows] table_get_rep [of d pg t] assms(2,3) by simp
  then show ?thesis
    using print_rep [OF t(1), of printer line False] assms(4) t(2) listing_rows [of line t]
    by (simp add: prints_rows_def)
qed

subsection \<open>A copy of a database\<close>

lemma mem_get_longer: "0 \<le> p \<Longrightarrow> nat p + n \<le> length c \<Longrightarrow> mem_get (c @ bs) p n = mem_get c p n"
  by (auto simp: mem_get_def)

lemma valid_header_append: "valid_header c ps \<Longrightarrow> valid_header (c @ bs) ps"
  by (auto simp: valid_header_def get2byte_eq get4byte_eq mem_get_longer)

lemma copy_result:
  assumes "files d from = Some c" and "from \<noteq> to" and "files d to \<noteq> None \<or> may_create d to"
    and "length c + 1 \<le> room d"
  shows "copy d from to = (True, d\<lparr>files := (files d)(to \<mapsto> c @ [- 1])\<rparr>)"
  using assms by (auto simp: copy_def Let_def)

end
