(* ===== verification/DbmFile.thy ===== *)
theory DbmFile
  imports Api BtreePrint
begin

section \<open>dbm-file.c: program files\<close>

text \<open>
  The text files that hold programs of the machine (\<open>src/db/src/libchidb/dbm-file.c\<close>), the tokens
  of a line (\<open>chidb_tokenize\<close> of \<open>util.c\<close>) and the routines of \<open>dbm.c\<close> that print a program. A
  line is duplicated by \<open>strdup\<close> before it is cut into tokens: the block has the characters of
  the line, the terminating zero and what the allocator gives beyond the size asked for,
  \<open>slack n\<close> for a request of \<open>n\<close> bytes. A token is a pointer into that block, which is what
  the block has from there on; its text ends at the first zero.
\<close>

subsection \<open>Characters\<close>

abbreviation Nul :: char where "Nul \<equiv> CHR 0x00"
abbreviation Quote :: char where "Quote \<equiv> CHR 0x22"
abbreviation Newline :: char where "Newline \<equiv> CHR 0x0A"

definition isspace :: "char \<Rightarrow> bool" where
  "isspace c \<longleftrightarrow> c = CHR '' '' \<or> 9 \<le> (of_char c :: nat) \<and> (of_char c :: nat) \<le> 13"

definition isdigit :: "char \<Rightarrow> bool" where
  "isdigit c \<longleftrightarrow> 48 \<le> (of_char c :: nat) \<and> (of_char c :: nat) \<le> 57"

definition to_upper :: "char \<Rightarrow> char" where
  "to_upper c = (if 97 \<le> (of_char c :: nat) \<and> (of_char c :: nat) \<le> 122 then char_of (of_char c - 32 :: nat) else c)"

definition c_string :: "string \<Rightarrow> string" where
  "c_string p = takeWhile (\<lambda>c. c \<noteq> Nul) p"

text \<open>\<open>atoi\<close> is undefined when the value is no \<open>int\<close>.\<close>

definition digits_value :: "string \<Rightarrow> nat" where
  "digits_value s = foldl (\<lambda>n c. 10 * n + (of_char c - 48)) 0 (takeWhile isdigit s)"

definition atoi :: "string \<Rightarrow> u32 option" where
  "atoi s =
     (let s = dropWhile isspace s;
          v = (case s of
                 [] \<Rightarrow> 0
               | c # cs \<Rightarrow> if c = CHR ''-'' then - int (digits_value cs)
                           else if c = CHR ''+'' then int (digits_value cs) else int (digits_value s))
      in if - (2 ^ 31) \<le> v \<and> v < 2 ^ 31 then Some (word_of_int v) else None)"

subsection \<open>Tokens\<close>

text \<open>The first pass counts the tokens and writes a zero behind each. \<open>token_head\<close> is what the pass
  steps over before it looks for the end, \<open>token_stop\<close> the end.\<close>

definition token_stop :: "char \<Rightarrow> char \<Rightarrow> bool" where
  "token_stop c = (if c = Quote then (\<lambda>c. c = Quote) else isspace)"

definition token_head :: "string \<Rightarrow> string" where
  "token_head s = (if hd s = Quote then [hd s] else [])"

definition token_body :: "string \<Rightarrow> string" where
  "token_body s = (if hd s = Quote then tl s else s)"

function mark_tokens :: "string \<Rightarrow> nat \<times> string" where
  "mark_tokens s =
     (if s = [] then (0, [])
      else
        (let a = token_head s @ takeWhile (\<lambda>c. \<not> token_stop (hd s) c) (token_body s);
             r = dropWhile (\<lambda>c. \<not> token_stop (hd s) c) (token_body s)
         in if r = [] then (1, a)
            else
              (let (n, m) = mark_tokens (dropWhile isspace (tl r))
               in (n + 1, a @ Nul # takeWhile isspace (tl r) @ m))))"
  by pat_completeness auto

termination
proof (relation "measure length", simp)
  fix s r :: string
  assume s: "s \<noteq> []" and r: "r = dropWhile (\<lambda>c. \<not> token_stop (hd s) c) (token_body s)" "r \<noteq> []"
  have "length (dropWhile isspace (tl r)) \<le> length (tl r)" by (rule length_dropWhile_le)
  also have "\<dots> < length r" using r(2) by simp
  also have "\<dots> \<le> length (token_body s)" unfolding r(1) by (rule length_dropWhile_le)
  also have "\<dots> \<le> length s" by (simp add: token_body_def)
  finally show "(dropWhile isspace (tl r), s) \<in> measure length" by simp
qed

declare mark_tokens.simps [simp del]

text \<open>The second pass collects the pointers. The last step of a round goes one character past the
  end of the token, which is out of the string when the token is the last.\<close>

fun skip_spaces :: "string \<Rightarrow> string option" where
  "skip_spaces [] = None"
| "skip_spaces (c # cs) = (if isspace c then skip_spaces cs else Some (c # cs))"

fun token_end :: "(char \<Rightarrow> bool) \<Rightarrow> string \<Rightarrow> string option" where
  "token_end stop [] = None"
| "token_end stop (c # cs) = (if c = Nul \<or> stop c then Some (c # cs) else token_end stop cs)"

fun read_tokens :: "nat \<Rightarrow> string \<Rightarrow> string list option" where
  "read_tokens 0 s = Some []"
| "read_tokens (Suc n) s =
     (if s = [] then None
      else do {
        r \<leftarrow> token_end (token_stop (hd s)) (token_body s);
        r \<leftarrow> skip_spaces (tl r);
        ps \<leftarrow> read_tokens n r;
        Some (token_body s # ps) })"

definition chidb_tokenize :: "(nat \<Rightarrow> string) \<Rightarrow> string \<Rightarrow> string list option" where
  "chidb_tokenize slack str =
     (let (ntokens, m) = mark_tokens (dropWhile isspace str)
      in read_tokens ntokens (m @ Nul # slack (length str + 1)))"

subsection \<open>Lines\<close>

definition MAX_LINE_LEN :: nat where "MAX_LINE_LEN = 256"

definition LINE_OK :: int where "LINE_OK = 0"
definition LINE_SKIP :: int where "LINE_SKIP = 1"
definition LINE_EOF :: int where "LINE_EOF = 2"
definition LINE_NEW_SECTION :: int where "LINE_NEW_SECTION = 3"

text \<open>\<open>fgets\<close>: what it stores, and the rest of the file.\<close>

definition fgets :: "string \<Rightarrow> string \<times> string" where
  "fgets f =
     (let t = take (MAX_LINE_LEN - 1) f;
          a = takeWhile (\<lambda>c. c \<noteq> Newline) t;
          buf = (if length a < length t then a @ [Newline] else a)
      in (buf, drop (length buf) f))"

text \<open>The line of the caller keeps its leading spaces.\<close>

definition chidb_dbm_file_read_line :: "string \<Rightarrow> int \<times> string \<times> string" where
  "chidb_dbm_file_read_line f =
     (if f = [] then (LINE_EOF, [], [])
      else
        (let (buf, rest) = fgets f;
             line = takeWhile (\<lambda>c. c \<noteq> Newline) (c_string buf);
             l = dropWhile isspace line
         in (if l = [] then LINE_SKIP
             else if hd l = CHR ''#'' then LINE_SKIP
             else if take 2 l = ''%%'' then LINE_NEW_SECTION
             else LINE_OK, line, rest)))"

definition chidb_dbm_is_sql :: "string \<Rightarrow> bool" where
  "chidb_dbm_is_sql line =
     (let s = map to_upper (take 6 (dropWhile isspace line))
      in s = ''SELECT'' \<or> s = ''INSERT'' \<or> s = ''UPDATE'' \<or> s = ''DELETE'' \<or> s = ''CREATE'')"

text \<open>The numeric operands and the text operand; an underscore stands for none.\<close>

definition int_operand :: "string \<Rightarrow> u32 option" where
  "int_operand p = (if hd p = CHR ''_'' then Some 0 else atoi (c_string p))"

definition text_operand :: "string \<Rightarrow> bytes option" where
  "text_operand p = (if hd p = CHR ''_'' then None else Some (bytes_of (c_string p)))"

definition chidb_dbm_file_parse_instruction :: "(nat \<Rightarrow> string) \<Rightarrow> string \<Rightarrow> (int \<times> dbm_op option) option" where
  "chidb_dbm_file_parse_instruction slack line = do {
     tokens \<leftarrow> chidb_tokenize slack line;
     if length tokens \<noteq> 5 then Some (CHIDB_EPARSE, None)
     else do {
       let opcode = str_to_opcode (bytes_of (c_string (tokens ! 0)));
       if opcode = - 1 then Some (CHIDB_EPARSE, None)
       else do {
         p1 \<leftarrow> int_operand (tokens ! 1);
         p2 \<leftarrow> int_operand (tokens ! 2);
         p3 \<leftarrow> int_operand (tokens ! 3);
         Some (CHIDB_OK, Some \<lparr>op_code = all_opcodes ! nat opcode, op_p1 = p1, op_p2 = p2, op_p3 = p3,
           op_p4 = text_operand (tokens ! 4)\<rparr>) } } }"

record file_register =
  fr_nReg :: u32
  fr_reg :: dbm_register
  fr_has_value :: bool

text \<open>A register: \<open>R_\<close> and its number, its type and for an integer and a string its value. Without a
  value the union keeps what \<open>malloc\<close> left there; the model has 0 and the empty string, which
  \<open>fr_has_value\<close> says not to read.\<close>

definition register_type :: "string list \<Rightarrow> (int \<times> (dbm_register \<times> bool) option) option" where
  "register_type tokens =
     (let ty = c_string (tokens ! 1) in
      if ty = ''unspecified'' then Some (CHIDB_OK, Some (Reg_Unspecified, False))
      else if ty = ''null'' then Some (CHIDB_OK, Some (Reg_Null, False))
      else if ty = ''integer'' then
        (if length tokens = 3 then do {
           i \<leftarrow> atoi (c_string (tokens ! 2));
           Some (CHIDB_OK, Some (Reg_Int32 i, True)) }
         else Some (CHIDB_OK, Some (Reg_Int32 0, False)))
      else if ty = ''string'' then
        (if length tokens = 3 then Some (CHIDB_OK, Some (Reg_String (bytes_of (c_string (tokens ! 2))), True))
         else Some (CHIDB_OK, Some (Reg_String [], False)))
      else if ty = ''binary'' then Some (CHIDB_OK, Some (Reg_Binary [], False))
      else Some (CHIDB_EPARSE, None))"

definition chidb_dbm_file_parse_register :: "(nat \<Rightarrow> string) \<Rightarrow> string \<Rightarrow> (int \<times> file_register option) option" where
  "chidb_dbm_file_parse_register slack line = do {
     tokens \<leftarrow> chidb_tokenize slack line;
     if \<not> (length tokens = 2 \<or> length tokens = 3) then Some (CHIDB_EPARSE, None)
     else if (tokens ! 0) ! 0 \<noteq> CHR ''R'' \<and> (tokens ! 0) ! 1 \<noteq> CHR ''_'' then Some (CHIDB_EPARSE, None)
     else do {
       nReg \<leftarrow> atoi (c_string (drop 2 (tokens ! 0)));
       if sint nReg < 0 then Some (CHIDB_EPARSE, None)
       else do {
         (rc, r) \<leftarrow> register_type tokens;
         Some (rc, map_option (\<lambda>(reg, has_value). \<lparr>fr_nReg = nReg, fr_reg = reg, fr_has_value = has_value\<rparr>) r) } } }"

text \<open>A result row: the number of its columns, and its text without one trailing space. The byte before
  the block is read when nothing was copied.\<close>

fun read_rr_loop :: "string \<Rightarrow> bool \<Rightarrow> bool \<Rightarrow> u32 \<Rightarrow> string \<Rightarrow> string \<times> u32" where
  "read_rr_loop [] skip inQuote nCols rr = (rr, nCols)"
| "read_rr_loop (c # cs) skip inQuote nCols rr =
     (let (nCols, skip) = (if c \<noteq> CHR '' '' \<and> skip then (nCols + 1, False) else (nCols, skip));
          inQuote = (if c = Quote then \<not> inQuote else inQuote);
          rr = (if skip then rr else rr @ [c]);
          skip = (if c = CHR '' '' \<and> \<not> inQuote then True else skip)
      in read_rr_loop cs skip inQuote nCols rr)"

definition chidb_dbm_file_read_rr :: "string \<Rightarrow> (int \<times> string \<times> u32) option" where
  "chidb_dbm_file_read_rr line =
     (let (rr, nCols) = read_rr_loop line True False 0 [] in
      if rr = [] then None
      else Some (CHIDB_OK, if last rr = CHR '' '' then butlast rr else rr, nCols))"

subsection \<open>Loading a file\<close>

datatype program_type = UNKNOWN | DBM | SQL

text \<open>\<open>df_db\<close> is \<open>None\<close> for the null pointer, and inside it the B-tree of the database as in
  \<open>Api\<close>. The load keeps the section, the type of the program and the number of the next
  instruction beside the file.\<close>

record dbm_file =
  df_filename :: string
  df_db :: "Pager option option"
  df_stmt :: dbm_stmt
  df_results :: "string list"
  df_registers :: "file_register list"
  df_dbfile :: string
  df_delete :: bool
  df_copyOnUse :: bool

record load_state = dbm_file +
  ls_section :: nat
  ls_program_type :: program_type
  ls_opnum :: u32

definition MAX_FILENAME_SIZE :: nat where "MAX_FILENAME_SIZE = 256"

text \<open>What a load relies on outside the repository: the allocator, \<open>mkstemp\<close> (which makes a file
  after a template and answers with its name) and the generated parser of SQL.\<close>

record file_env =
  en_slack :: "nat \<Rightarrow> string"
  en_mkstemp :: "disk \<Rightarrow> string \<Rightarrow> (string \<times> disk) option"
  en_parser :: "bytes \<Rightarrow> int \<times> chisql_statement"
  en_dbfiledir :: string
  en_genfiledir :: string

definition path_name :: "string \<Rightarrow> string \<Rightarrow> string" where
  "path_name dir name = dir @ ''/'' @ name"

text \<open>\<open>snprintf\<close> into the name of the database file, and whether the name was too long.\<close>

definition set_dbfile :: "string \<Rightarrow> load_state \<Rightarrow> bool \<times> load_state" where
  "set_dbfile name st = (MAX_FILENAME_SIZE \<le> length name, st\<lparr>df_dbfile := take (MAX_FILENAME_SIZE - 1) name\<rparr>)"

definition remove_file :: "string \<Rightarrow> disk \<Rightarrow> disk" where
  "remove_file name d = d\<lparr>files := (files d)(name := None)\<rparr>"

definition open_dbfile :: "disk \<Rightarrow> load_state \<Rightarrow> (int \<times> disk \<times> load_state) option" where
  "open_dbfile d st = do {
     (rc, d, bt) \<leftarrow> chidb_open d (df_dbfile st);
     Some (if rc \<noteq> CHIDB_OK then CHIDB_ENOMEM else CHIDB_OK, d, st\<lparr>df_db := Some bt\<rparr>) }"

definition chidb_dbm_file_load_db :: "file_env \<Rightarrow> disk \<Rightarrow> load_state \<Rightarrow> string \<Rightarrow> (int \<times> disk \<times> load_state) option" where
  "chidb_dbm_file_load_db en d st line = do {
     tokens \<leftarrow> chidb_tokenize (en_slack en) line;
     if length tokens \<noteq> 2 then Some (1, d, st)
     else do {
       let cmd = c_string (tokens ! 0);
       let name = c_string (tokens ! 1);
       if cmd = ''NO'' \<and> cmd \<noteq> ''DBFILE'' then
         (let (long, st) = set_dbfile (path_name (en_genfiledir en) ''chidb-tmp-XXXXXX'') st in
          if long then Some (CHIDB_ENOMEM, d, st)
          else (case en_mkstemp en d (df_dbfile st) of
                  None \<Rightarrow> Some (CHIDB_EIO, d, st)
                | Some (name, d) \<Rightarrow> open_dbfile d (st\<lparr>df_dbfile := name, df_delete := True\<rparr>)))
       else if cmd = ''CREATE'' then
         (let (long, st) = set_dbfile (path_name (en_genfiledir en) name) st in
          if long then Some (CHIDB_ENOMEM, d, st)
          else open_dbfile (remove_file (df_dbfile st) d) (st\<lparr>df_delete := False\<rparr>))
       else if cmd = ''USE'' then
         (if df_copyOnUse st then
            (let srcfile = path_name (en_dbfiledir en) name in
             if MAX_FILENAME_SIZE \<le> length srcfile then Some (CHIDB_ENOMEM, d, st)
             else
               (let (long, st) = set_dbfile (path_name (en_genfiledir en) (df_filename st @ ''_'' @ name)) st in
                if long then Some (CHIDB_ENOMEM, d, st)
                else
                  (let (copied, d) = copy (remove_file (df_dbfile st) d) srcfile (df_dbfile st) in
                   if \<not> copied then Some (CHIDB_EIO, d, st)
                   else open_dbfile d (st\<lparr>df_delete := False\<rparr>))))
          else
            (let (long, st) = set_dbfile (path_name (en_dbfiledir en) name) st in
             if long then Some (CHIDB_ENOMEM, d, st)
             else open_dbfile d (st\<lparr>df_delete := False\<rparr>)))
       else Some (1, d, st) } }"

text \<open>A line of the program: an instruction, or a statement of SQL.\<close>

definition program_line :: "file_env \<Rightarrow> load_state \<Rightarrow> string \<Rightarrow> (int \<times> load_state) option" where
  "program_line en st line = do {
     let st = (if ls_program_type st = UNKNOWN
               then st\<lparr>ls_program_type := (if chidb_dbm_is_sql line then SQL else DBM)\<rparr> else st);
     if ls_program_type st = DBM then do {
       (rc, op) \<leftarrow> chidb_dbm_file_parse_instruction (en_slack en) line;
       if rc \<noteq> CHIDB_OK then Some (rc, st)
       else do {
         op \<leftarrow> op;
         (_, s) \<leftarrow> chidb_stmt_set_op (df_stmt st) op (ls_opnum st);
         Some (CHIDB_OK, st\<lparr>df_stmt := s, ls_opnum := ls_opnum st + 1\<rparr>) } }
     else do {
       let (rc, sql_stmt) = en_parser en (bytes_of line);
       if rc \<noteq> CHIDB_OK then Some (rc, st)
       else do {
         let (rc, sql_stmt_opt) = chidb_stmt_optimize sql_stmt;
         if rc \<noteq> CHIDB_OK then Some (rc, st)
         else do {
           (rc, s) \<leftarrow> chidb_stmt_codegen (df_stmt st) sql_stmt_opt;
           Some (rc, st\<lparr>df_stmt := s\<rparr>) } } } }"

definition result_line :: "load_state \<Rightarrow> string \<Rightarrow> (int \<times> load_state) option" where
  "result_line st line = do {
     (rc, row, nCols) \<leftarrow> chidb_dbm_file_read_rr line;
     let s = df_stmt st;
     if rc \<noteq> CHIDB_OK then Some (rc, st)
     else if st_nCols s = 0 \<or> ls_program_type st = SQL
     then Some (CHIDB_OK, st\<lparr>df_stmt := s\<lparr>st_nCols := nCols\<rparr>, df_results := df_results st @ [row]\<rparr>)
     else if st_nCols s \<noteq> nCols then Some (CHIDB_EPARSE, st)
     else Some (CHIDB_OK, st\<lparr>df_results := df_results st @ [row]\<rparr>) }"

definition register_line :: "file_env \<Rightarrow> load_state \<Rightarrow> string \<Rightarrow> (int \<times> load_state) option" where
  "register_line en st line = do {
     (rc, reg) \<leftarrow> chidb_dbm_file_parse_register (en_slack en) line;
     if rc \<noteq> CHIDB_OK then Some (rc, st)
     else do {
       reg \<leftarrow> reg;
       Some (CHIDB_OK, st\<lparr>df_registers := df_registers st @ [reg]\<rparr>) } }"

text \<open>The end of the first section initialises the statement, which asserts that there is a database.\<close>

definition next_section :: "load_state \<Rightarrow> (int \<times> load_state) option" where
  "next_section st =
     (if ls_section st = 0 then do {
        bt \<leftarrow> df_db st;
        (rc, s) \<leftarrow> chidb_stmt_init (df_stmt st) bt;
        Some (rc, st\<lparr>df_stmt := s, ls_section := (if rc \<noteq> CHIDB_OK then 0 else 1)\<rparr>) }
      else Some (CHIDB_OK, st\<lparr>ls_section := ls_section st + 1\<rparr>))"

definition load_line :: "file_env \<Rightarrow> disk \<Rightarrow> load_state \<Rightarrow> int \<Rightarrow> string \<Rightarrow> (int \<times> disk \<times> load_state) option" where
  "load_line en d st rc line =
     (if rc = LINE_NEW_SECTION then do { (rc, st) \<leftarrow> next_section st; Some (rc, d, st) }
      else if ls_section st = 0 then
        (if df_db st = None then do {
           (rc, d, st) \<leftarrow> chidb_dbm_file_load_db en d st line;
           Some (rc, d, if rc \<noteq> CHIDB_OK then st
                        else st\<lparr>df_stmt := (df_stmt st)\<lparr>st_dbfile := Some (df_dbfile st)\<rparr>\<rparr>) }
         else Some (CHIDB_OK, d, st))
      else if ls_section st = 1 then do { (rc, st) \<leftarrow> program_line en st line; Some (rc, d, st) }
      else if ls_section st = 2 then do { (rc, st) \<leftarrow> result_line st line; Some (rc, d, st) }
      else if ls_section st = 3 then do { (rc, st) \<leftarrow> register_line en st line; Some (rc, d, st) }
      else Some (CHIDB_OK, d, st))"

lemma read_line_shorter:
  assumes "chidb_dbm_file_read_line f = (rc, line, rest)" and "f \<noteq> []"
  shows "length rest < length f"
proof -
  have "fst (fgets f) \<noteq> []" using assms(2) by (cases f) (simp_all add: fgets_def Let_def MAX_LINE_LEN_def)
  moreover have "snd (fgets f) = drop (length (fst (fgets f))) f" by (simp add: fgets_def Let_def)
  ultimately have "length (snd (fgets f)) < length f" using assms(2) by simp
  then show ?thesis
    using assms by (simp add: chidb_dbm_file_read_line_def Let_def case_prod_beta)
qed

text \<open>The loop over the lines, on the text of the file as it was when it was opened.\<close>

function load_loop :: "file_env \<Rightarrow> disk \<Rightarrow> load_state \<Rightarrow> string \<Rightarrow> (int \<times> disk \<times> load_state) option" where
  "load_loop en d st f =
     (let (rc, line, rest) = chidb_dbm_file_read_line f in
      if f = [] then Some (CHIDB_OK, d, st)
      else if rc = LINE_SKIP then load_loop en d st rest
      else
        (case load_line en d st rc line of
           None \<Rightarrow> None
         | Some (rc, d, st) \<Rightarrow> if rc \<noteq> CHIDB_OK then Some (rc, d, st) else load_loop en d st rest))"
  by pat_completeness auto

termination
  by (relation "measure (\<lambda>(en, d, st, f). length f)")
    (simp, simp, metis read_line_shorter, simp, metis read_line_shorter)

declare load_loop.simps [simp del]

text \<open>\<open>junk\<close> is what \<open>malloc\<close> left in the fields that are not set. \<open>strrchr\<close> finds the last slash.\<close>

definition base_name :: "string \<Rightarrow> string" where
  "base_name filename = rev (takeWhile (\<lambda>c. c \<noteq> CHR ''/'') (rev filename))"

definition dbm_file_load :: "file_env \<Rightarrow> load_state \<Rightarrow> disk \<Rightarrow> string \<Rightarrow> Pager option option \<Rightarrow> bool \<Rightarrow>
  (int \<times> disk \<times> load_state) option" where
  "dbm_file_load en junk d filename db copyOnUse =
     (case files d filename of
        None \<Rightarrow> Some (CHIDB_EIO, d, junk)
      | Some c \<Rightarrow>
          load_loop en d
            (junk\<lparr>df_filename := base_name filename, df_db := db, df_copyOnUse := copyOnUse, df_results := [],
               df_registers := [], ls_section := 0, ls_program_type := UNKNOWN, ls_opnum := 0\<rparr>)
            (text_of c))"

definition chidb_dbm_file_load :: "file_env \<Rightarrow> load_state \<Rightarrow> disk \<Rightarrow> string \<Rightarrow> Pager option option \<Rightarrow>
  (int \<times> disk \<times> load_state) option" where
  "chidb_dbm_file_load en junk d filename db =
     dbm_file_load (en\<lparr>en_dbfiledir := ''.'', en_genfiledir := ''.''\<rparr>) junk d filename db False"

definition chidb_dbm_file_load2 :: "file_env \<Rightarrow> load_state \<Rightarrow> disk \<Rightarrow> string \<Rightarrow> string \<Rightarrow> string \<Rightarrow> bool \<Rightarrow>
  (int \<times> disk \<times> load_state) option" where
  "chidb_dbm_file_load2 en junk d filename dbfiledir genfiledir copyOnUse =
     dbm_file_load (en\<lparr>en_dbfiledir := dbfiledir, en_genfiledir := genfiledir\<rparr>) junk d filename None copyOnUse"

definition chidb_dbm_file_run :: "disk \<Rightarrow> load_state \<Rightarrow> handler_result" where
  "chidb_dbm_file_run d dbmf = chidb_stmt_exec d (df_stmt dbmf)"

definition chidb_dbm_file_close :: "disk \<Rightarrow> load_state \<Rightarrow> int \<times> disk" where
  "chidb_dbm_file_close d dbmf =
     (CHIDB_OK, if df_delete dbmf then remove_file (df_dbfile dbmf) d else d)"

subsection \<open>Printing a program\<close>

definition chidb_stmt_op_print :: "dbm_op \<Rightarrow> string" where
  "chidb_stmt_op_print op =
     pad_right 15 (op_str (op_code op)) @ '' '' @ pad_right 6 (show_int (op_p1 op)) @ '' '' @
     pad_right 6 (show_int (op_p2 op)) @ '' '' @ pad_right 6 (show_int (op_p3 op)) @ '' '' @
     (case op_p4 op of None \<Rightarrow> ''NULL'' | Some s \<Rightarrow> [Quote] @ text_of s @ [Quote]) @ [Newline]"

definition chidb_stmt_reg_print :: "dbm_register \<Rightarrow> string" where
  "chidb_stmt_reg_print r = text_of (chidb_stmt_reg_str r)"

definition chidb_stmt_rr_print :: "dbm_stmt \<Rightarrow> u8 \<Rightarrow> string option" where
  "chidb_stmt_rr_print s sep = map_option text_of (chidb_stmt_rr_str s sep)"

fun print_ops :: "dbm_op list option \<Rightarrow> nat list \<Rightarrow> string option" where
  "print_ops ops [] = Some []"
| "print_ops ops (i # is) = do {
     op \<leftarrow> arr_get ops (int i);
     t \<leftarrow> print_ops ops is;
     Some (pad_left 3 (show_nat i) @ '': '' @ chidb_stmt_op_print op @ t) }"

fun print_registers :: "dbm_register list option \<Rightarrow> nat list \<Rightarrow> string option" where
  "print_registers regs [] = Some []"
| "print_registers regs (i # is) = do {
     r \<leftarrow> arr_get regs (int i);
     t \<leftarrow> print_registers regs is;
     Some ((if r \<noteq> Reg_Unspecified then ''R_'' @ show_nat i @ '' = '' @ chidb_stmt_reg_print r @ [Newline] else []) @ t) }"

definition chidb_stmt_print :: "dbm_stmt \<Rightarrow> string option" where
  "chidb_stmt_print s = do {
     ops \<leftarrow> print_ops (st_ops s) [0..<unat (st_endOp s)];
     regs \<leftarrow> print_registers (st_reg s) [0..<unat (st_nReg s)];
     Some (''     opcode          P1     P2     P3     P4'' @ [Newline] @
       ''     --------------- ------ ------ ------ ------'' @ [Newline] @ ops @
       ''     --------------- ------ ------ ------ ------'' @ [Newline, Newline] @
       ''REGISTERS'' @ [Newline] @ ''---------'' @ [Newline] @
       (if regs = [] then ''None of the registers have values'' @ [Newline] else regs)) }"

definition chidb_dbm_file_print_rr :: "load_state \<Rightarrow> string option" where
  "chidb_dbm_file_print_rr dbmf = chidb_stmt_rr_print (df_stmt dbmf) 44"

definition chidb_dbm_file_print_program :: "load_state \<Rightarrow> string option" where
  "chidb_dbm_file_print_program dbmf = chidb_stmt_print (df_stmt dbmf)"

end
