(* ===== verification/Shell.thy ===== *)
theory Shell
  imports DbmFile
begin

section \<open>The shell of the database\<close>

text \<open>
  The commands of the shell (\<open>src/db/src/shell/commands.c\<close>, \<open>shell.c\<close>): a context with the open
  database and the way results are printed, the commands that start with a dot, and everything
  else as a statement of SQL. What goes to the standard output is returned as text; messages on the
  standard error are left out, the return code tells them apart. \<open>Inl\<close> is the status of a
  process that has ended.
\<close>

subsection \<open>State\<close>

datatype shell_mode = MODE_LIST | MODE_COLUMN

text \<open>\<open>sh_db\<close> is \<open>None\<close> for the null pointer.\<close>

record shell_ctx =
  sh_dbfile :: "string option"
  sh_db :: "Pager option option"
  sh_header :: bool
  sh_mode :: shell_mode

text \<open>What the shell relies on: the parser and the printer of statements, which are generated, and
  the memory \<open>malloc\<close> returns for a statement and for a program file.\<close>

record shell_env = file_env +
  en_stmt_print :: "chisql_statement \<Rightarrow> string"
  en_junk_stmt :: dbm_stmt
  en_junk_file :: load_state

type_synonym shell_result = "(int + int \<times> disk \<times> shell_ctx \<times> string) option"

definition chidb_shell_init_ctx :: shell_ctx where
  "chidb_shell_init_ctx = \<lparr>sh_dbfile = None, sh_db = None, sh_header = False, sh_mode = MODE_LIST\<rparr>"

definition chidb_shell_open_db :: "disk \<Rightarrow> shell_ctx \<Rightarrow> string \<Rightarrow> (int \<times> disk \<times> shell_ctx) option" where
  "chidb_shell_open_db d ctx file = do {
     (rc, d, bt) \<leftarrow> chidb_open d file;
     let ctx = ctx\<lparr>sh_db := Some bt\<rparr>;
     if rc \<noteq> CHIDB_OK then Some (1, d, ctx) else Some (0, d, ctx\<lparr>sh_dbfile := Some file\<rparr>) }"

subsection \<open>Statements of SQL\<close>

definition column_cell :: "string \<Rightarrow> string" where
  "column_cell s = pad_right 10 (take 10 s)"

definition separator :: "shell_mode \<Rightarrow> nat \<Rightarrow> string" where
  "separator mode i = (if i = 0 then [] else case mode of MODE_LIST \<Rightarrow> ''|'' | MODE_COLUMN \<Rightarrow> '' '')"

text \<open>The names of the columns; a null name is undefined.\<close>

fun header_names :: "shell_mode \<Rightarrow> dbm_stmt \<Rightarrow> nat list \<Rightarrow> string option" where
  "header_names mode s [] = Some []"
| "header_names mode s (i # is) = do {
     n \<leftarrow> chidb_column_name s (int i);
     name \<leftarrow> n;
     t \<leftarrow> header_names mode s is;
     Some (separator mode i @
       (case mode of MODE_LIST \<Rightarrow> text_of name | MODE_COLUMN \<Rightarrow> column_cell (text_of name)) @ t) }"

definition header_rule :: "nat \<Rightarrow> string" where
  "header_rule n = concat (map (\<lambda>i. separator MODE_COLUMN i @ replicate 10 CHR ''-'') [0..<n]) @ line_end"

definition print_header :: "shell_ctx \<Rightarrow> dbm_stmt \<Rightarrow> nat \<Rightarrow> string option" where
  "print_header ctx s numcol =
     (if sh_header ctx then do {
        names \<leftarrow> header_names (sh_mode ctx) s [0..<numcol];
        Some (names @ line_end @ (if sh_mode ctx = MODE_COLUMN then header_rule numcol else [])) }
      else Some [])"

text \<open>One column of a row, and whether the loop over the columns goes on.\<close>

definition print_column :: "shell_mode \<Rightarrow> dbm_stmt \<Rightarrow> nat \<Rightarrow> (string \<times> bool) option" where
  "print_column mode s i = do {
     coltype \<leftarrow> chidb_column_type s (int i);
     if coltype = SQL_NOTVALID then
       Some (''ERROR: Column '' @ show_int (word_of_int coltype) @ '' return an invalid type.'' @ line_end, False)
     else if coltype = sint SQL_INTEGER_1BYTE \<or> coltype = sint SQL_INTEGER_2BYTE \<or> coltype = sint SQL_INTEGER_4BYTE
     then do {
       v \<leftarrow> chidb_column_int s (int i);
       Some (case mode of
               MODE_LIST \<Rightarrow> show_int (word_of_int v) | MODE_COLUMN \<Rightarrow> pad_left 10 (show_int (word_of_int v)), True) }
     else if coltype = sint SQL_NULL then
       Some (case mode of MODE_LIST \<Rightarrow> [] | MODE_COLUMN \<Rightarrow> replicate 10 CHR '' '', True)
     else if (coltype - 13) mod 2 \<noteq> 0 then
       Some (''ERROR: Column '' @ show_int (of_nat i) @ '' returned an invalid type.'' @ line_end, False)
     else do {
       t \<leftarrow> chidb_column_text s (int i);
       text \<leftarrow> t;
       let len = int (length text);
       if len \<noteq> (coltype - 13) div 2 then
         Some (''ERROR: THe length ('' @ show_int (word_of_int len) @ '') of the text in column '' @ show_int (of_nat i) @
           '' does not match its type ('' @ show_int (word_of_int coltype) @ '').'' @ line_end, False)
       else Some (case mode of MODE_LIST \<Rightarrow> text_of text | MODE_COLUMN \<Rightarrow> column_cell (text_of text), True) } }"

fun print_columns_of_row :: "shell_mode \<Rightarrow> dbm_stmt \<Rightarrow> nat list \<Rightarrow> string option" where
  "print_columns_of_row mode s [] = Some []"
| "print_columns_of_row mode s (i # is) = do {
     (t, continues) \<leftarrow> print_column mode s i;
     if continues then do { u \<leftarrow> print_columns_of_row mode s is; Some (separator mode i @ t @ u) }
     else Some (separator mode i @ t) }"

text \<open>The loop over the rows; it does not return when the statement keeps returning rows.\<close>

partial_function (option) sql_rows ::
  "shell_mode \<Rightarrow> nat \<Rightarrow> disk \<Rightarrow> dbm_stmt \<Rightarrow> string \<Rightarrow> (int + int \<times> disk \<times> dbm_stmt \<times> string) option" where
  "sql_rows mode numcol d s out = do {
     r \<leftarrow> chidb_step d s;
     case r of
       Inl status \<Rightarrow> Some (Inl status)
     | Inr (rc, d, s) \<Rightarrow>
         if rc = CHIDB_ROW then do {
           row \<leftarrow> print_columns_of_row mode s [0..<numcol];
           sql_rows mode numcol d s (out @ row @ line_end) }
         else Some (Inr (rc, d, s, out)) }"

declare sql_rows.simps [code]

definition sql_message :: "int \<Rightarrow> string" where
  "sql_message rc =
     (if rc = CHIDB_ECONSTRAINT then ''ERROR: SQL statement failed because of a constraint violation.'' @ line_end
      else if rc = CHIDB_EMISMATCH then ''ERROR: Data type mismatch.'' @ line_end
      else if rc = CHIDB_EMISUSE then ''ERROR: API used incorrectly.'' @ line_end
      else if rc = CHIDB_EIO then ''ERROR: An I/O error has occurred when accessing the file.'' @ line_end
      else [])"

text \<open>The statement works on the database of the context, whose B-tree it may replace.\<close>

definition chidb_shell_handle_sql :: "shell_env \<Rightarrow> disk \<Rightarrow> shell_ctx \<Rightarrow> string \<Rightarrow> shell_result" where
  "chidb_shell_handle_sql en d ctx sql = do {
     bt \<leftarrow> sh_db ctx;
     (rc, stmt) \<leftarrow> chidb_prepare (en_parser en) (en_junk_stmt en) bt (bytes_of sql);
     if rc = CHIDB_OK then do {
       s \<leftarrow> stmt;
       let numcol = nat (chidb_column_count s);
       head \<leftarrow> print_header ctx s numcol;
       r \<leftarrow> sql_rows (sh_mode ctx) numcol d s head;
       case r of
         Inl status \<Rightarrow> Some (Inl status)
       | Inr (rc, d, s, out) \<Rightarrow>
           (let out = out @ sql_message rc;
                (rc, s) = chidb_finalize s;
                out = out @ (if rc = CHIDB_EMISUSE then ''API used incorrectly.'' @ line_end else [])
            in Some (Inr (rc, d, ctx\<lparr>sh_db := Some (st_db_bt s)\<rparr>, out))) }
     else Some (Inr (rc, d, ctx,
       if rc = CHIDB_EINVALIDSQL then ''SQL syntax error.'' @ line_end
       else if rc = CHIDB_ENOMEM then ''ERROR: Could not allocate memory.'' @ line_end else [])) }"

subsection \<open>Commands\<close>

text \<open>The tokens of a command are pointers, as the tokenizer leaves them.\<close>

definition chidb_shell_handle_cmd_open :: "disk \<Rightarrow> shell_ctx \<Rightarrow> string list \<Rightarrow> shell_result" where
  "chidb_shell_handle_cmd_open d ctx tokens =
     (if length tokens \<noteq> 2 then Some (Inr (1, d, ctx, []))
      else do {
        let file = c_string (tokens ! 1);
        (rc, d, newdb) \<leftarrow> chidb_open d file;
        if rc \<noteq> CHIDB_OK then Some (Inr (rc, d, ctx, []))
        else do {
          _ \<leftarrow> (case sh_db ctx of None \<Rightarrow> Some 0 | Some bt \<Rightarrow> chidb_close bt);
          Some (Inr (CHIDB_OK, d, ctx\<lparr>sh_db := Some newdb, sh_dbfile := Some file\<rparr>, [])) } })"

definition chidb_shell_handle_cmd_parse :: "shell_env \<Rightarrow> disk \<Rightarrow> shell_ctx \<Rightarrow> string list \<Rightarrow> shell_result" where
  "chidb_shell_handle_cmd_parse en d ctx tokens =
     (if length tokens \<noteq> 2 then Some (Inr (1, d, ctx, []))
      else
        (let (rc, sql_stmt) = en_parser en (bytes_of (c_string (tokens ! 1))) in
         if rc \<noteq> CHIDB_OK then Some (Inr (rc, d, ctx, []))
         else Some (Inr (CHIDB_OK, d, ctx, en_stmt_print en sql_stmt @ line_end))))"

definition chidb_shell_handle_cmd_opt :: "shell_env \<Rightarrow> disk \<Rightarrow> shell_ctx \<Rightarrow> string list \<Rightarrow> shell_result" where
  "chidb_shell_handle_cmd_opt en d ctx tokens =
     (if length tokens \<noteq> 2 then Some (Inr (1, d, ctx, []))
      else if sh_db ctx = None then Some (Inr (1, d, ctx, []))
      else
        (let (rc, sql_stmt) = en_parser en (bytes_of (c_string (tokens ! 1))) in
         if rc \<noteq> CHIDB_OK then Some (Inr (rc, d, ctx, []))
         else
           (let out = en_stmt_print en sql_stmt @ line_end @ line_end;
                (rc, sql_stmt_opt) = chidb_stmt_optimize sql_stmt
            in if rc \<noteq> CHIDB_OK then Some (Inr (rc, d, ctx, out))
               else Some (Inr (CHIDB_OK, d, ctx, out @ en_stmt_print en sql_stmt_opt @ line_end)))))"

text \<open>The program is run until it is done; a row is printed by \<open>chidb_dbm_file_print_rr\<close>.\<close>

partial_function (option) dbmrun_loop ::
  "disk \<Rightarrow> load_state \<Rightarrow> bool \<Rightarrow> string \<Rightarrow> (int + int \<times> disk \<times> load_state \<times> bool \<times> string) option" where
  "dbmrun_loop d dbmf results out = do {
     r \<leftarrow> chidb_dbm_file_run d dbmf;
     case r of
       Inl status \<Rightarrow> Some (Inl status)
     | Inr (rc, d, s) \<Rightarrow>
         (let dbmf = dbmf\<lparr>df_stmt := s\<rparr> in
          if rc = CHIDB_ROW then do {
            rr \<leftarrow> chidb_dbm_file_print_rr dbmf;
            dbmrun_loop d dbmf True
              (out @ (if results then [] else ''RESULT ROWS'' @ line_end @ ''-----------'' @ line_end) @ rr @ line_end) }
          else Some (Inr (rc, d, dbmf, results, out))) }"

declare dbmrun_loop.simps [code]

definition chidb_shell_handle_cmd_dbmrun :: "shell_env \<Rightarrow> disk \<Rightarrow> shell_ctx \<Rightarrow> string list \<Rightarrow> shell_result" where
  "chidb_shell_handle_cmd_dbmrun en d ctx tokens =
     (if length tokens \<noteq> 2 then Some (Inr (1, d, ctx, []))
      else if files d (c_string (tokens ! 1)) = None then Some (Inr (1, d, ctx, []))
      else do {
        (rc, d, dbmf) \<leftarrow> chidb_dbm_file_load (file_env.truncate en) (en_junk_file en) d (c_string (tokens ! 1)) (sh_db ctx);
        if rc \<noteq> CHIDB_OK then Some (Inr (1, d, ctx, []))
        else do {
          r \<leftarrow> dbmrun_loop d dbmf False [];
          case r of
            Inl status \<Rightarrow> Some (Inl status)
          | Inr (rc, d, dbmf, results, out) \<Rightarrow>
              (let ctx = (if sh_db ctx = None then ctx else ctx\<lparr>sh_db := Some (st_db_bt (df_stmt dbmf))\<rparr>) in
               if rc \<noteq> CHIDB_DONE then Some (Inr (1, d, ctx, out))
               else do {
                 let out = out @ (if results then line_end
                                  else ''This program produced no result rows.'' @ line_end @ line_end);
                 t \<leftarrow> chidb_dbm_file_print_program dbmf;
                 let (rc, d) = chidb_dbm_file_close d dbmf;
                 Some (Inr (0, d, ctx, out @ t)) }) } })"

definition chidb_shell_handle_cmd_headers :: "shell_ctx \<Rightarrow> string list \<Rightarrow> int \<times> shell_ctx" where
  "chidb_shell_handle_cmd_headers ctx tokens =
     (if length tokens \<noteq> 2 then (1, ctx)
      else if c_string (tokens ! 1) = ''on'' then (CHIDB_OK, ctx\<lparr>sh_header := True\<rparr>)
      else if c_string (tokens ! 1) = ''off'' then (CHIDB_OK, ctx\<lparr>sh_header := False\<rparr>)
      else (1, ctx))"

definition chidb_shell_handle_cmd_mode :: "shell_ctx \<Rightarrow> string list \<Rightarrow> int \<times> shell_ctx" where
  "chidb_shell_handle_cmd_mode ctx tokens =
     (if length tokens \<noteq> 2 then (1, ctx)
      else if c_string (tokens ! 1) = ''list'' then (CHIDB_OK, ctx\<lparr>sh_mode := MODE_LIST\<rparr>)
      else if c_string (tokens ! 1) = ''column'' then (CHIDB_OK, ctx\<lparr>sh_mode := MODE_COLUMN\<rparr>)
      else (1, ctx))"

definition chidb_shell_handle_cmd_explain :: "shell_ctx \<Rightarrow> string list \<Rightarrow> int \<times> shell_ctx" where
  "chidb_shell_handle_cmd_explain ctx tokens =
     (if length tokens \<noteq> 2 then (1, ctx)
      else if c_string (tokens ! 1) = ''on'' then (CHIDB_OK, ctx\<lparr>sh_header := True, sh_mode := MODE_COLUMN\<rparr>)
      else if c_string (tokens ! 1) = ''off'' then (CHIDB_OK, ctx\<lparr>sh_header := False, sh_mode := MODE_LIST\<rparr>)
      else (1, ctx))"

datatype handler = Open | Parse | Opt | Dbmrun | Headers | Mode | Explain | Help

text \<open>The table of handlers, in its order, with the names.\<close>

definition handlers :: "(string \<times> handler) list" where
  "handlers = [(''open'', Open), (''parse'', Parse), (''opt'', Opt), (''dbmrun'', Dbmrun), (''headers'', Headers),
     (''mode'', Mode), (''explain'', Explain), (''help'', Help)]"

text \<open>A name matches when the command starts with it.\<close>

definition find_handler :: "string \<Rightarrow> handler option" where
  "find_handler p = map_option snd (find (\<lambda>(name, h). take (length name) (c_string p) = name) handlers)"

definition run_handler :: "shell_env \<Rightarrow> disk \<Rightarrow> shell_ctx \<Rightarrow> handler \<Rightarrow> string list \<Rightarrow> shell_result" where
  "run_handler en d ctx h tokens =
     (case h of
        Open \<Rightarrow> chidb_shell_handle_cmd_open d ctx tokens
      | Parse \<Rightarrow> chidb_shell_handle_cmd_parse en d ctx tokens
      | Opt \<Rightarrow> chidb_shell_handle_cmd_opt en d ctx tokens
      | Dbmrun \<Rightarrow> chidb_shell_handle_cmd_dbmrun en d ctx tokens
      | Headers \<Rightarrow> (let (rc, ctx) = chidb_shell_handle_cmd_headers ctx tokens in Some (Inr (rc, d, ctx, [])))
      | Mode \<Rightarrow> (let (rc, ctx) = chidb_shell_handle_cmd_mode ctx tokens in Some (Inr (rc, d, ctx, [])))
      | Explain \<Rightarrow> (let (rc, ctx) = chidb_shell_handle_cmd_explain ctx tokens in Some (Inr (rc, d, ctx, [])))
      | Help \<Rightarrow> Some (Inr (CHIDB_OK, d, ctx, [])))"

definition chidb_shell_handle_cmd :: "shell_env \<Rightarrow> disk \<Rightarrow> shell_ctx \<Rightarrow> string \<Rightarrow> shell_result" where
  "chidb_shell_handle_cmd en d ctx cmd =
     (if cmd \<noteq> [] \<and> hd cmd = CHR ''.'' then do {
        tokens \<leftarrow> chidb_tokenize (en_slack en) cmd;
        (case find_handler (tl (hd tokens)) of
           None \<Rightarrow> Some (Inr (1, d, ctx, []))
         | Some h \<Rightarrow> run_handler en d ctx h tokens) }
      else if sh_db ctx = None then Some (Inr (1, d, ctx, []))
      else chidb_shell_handle_sql en d ctx cmd)"

subsection \<open>The process\<close>

text \<open>The loop over the lines the line editor returns: each with its end, an empty one to stop, as the end
  of the list does. The line is copied as a C string and loses its end.\<close>

fun command_loop :: "shell_env \<Rightarrow> disk \<Rightarrow> shell_ctx \<Rightarrow> string list \<Rightarrow> (int + disk \<times> shell_ctx \<times> string) option" where
  "command_loop en d ctx [] = Some (Inr (d, ctx, line_end))"
| "command_loop en d ctx (cmd # cmds) =
     (if length cmd = 0 then Some (Inr (d, ctx, line_end))
      else if length cmd = 1 then command_loop en d ctx cmds
      else do {
        let cmd2 = c_string cmd;
        cmd2 \<leftarrow> (if cmd2 = [] then None else if last cmd2 = Newline then Some (butlast cmd2) else Some cmd2);
        r \<leftarrow> chidb_shell_handle_cmd en d ctx cmd2;
        case r of
          Inl status \<Rightarrow> Some (Inl status)
        | Inr (rc, d, ctx, out) \<Rightarrow> do {
            r \<leftarrow> command_loop en d ctx cmds;
            case r of
              Inl status \<Rightarrow> Some (Inl status)
            | Inr (d, ctx, out') \<Rightarrow> Some (Inr (d, ctx, out @ out')) } })"

text \<open>What \<open>main\<close> does after it has read its options: a command given with \<open>-c\<close>, the name of a
  database, and the lines of the user.\<close>

definition chidb_main ::
  "shell_env \<Rightarrow> disk \<Rightarrow> string option \<Rightarrow> string option \<Rightarrow> string list \<Rightarrow> (int + disk \<times> shell_ctx \<times> string) option" where
  "chidb_main en d command database lines = do {
     (rc, d, ctx) \<leftarrow> (case database of
        None \<Rightarrow> Some (0, d, chidb_shell_init_ctx)
      | Some file \<Rightarrow> chidb_shell_open_db d chidb_shell_init_ctx file);
     if rc \<noteq> 0 then Some (Inl 1)
     else (case command of
       None \<Rightarrow> command_loop en d ctx lines
     | Some cmd \<Rightarrow> do {
         r \<leftarrow> chidb_shell_handle_cmd en d ctx cmd;
         case r of
           Inl status \<Rightarrow> Some (Inl status)
         | Inr (rc, d, ctx, out) \<Rightarrow> Some (Inr (d, ctx, out)) }) }"

end
