(* ===== verification/DbmCorrect.thy ===== *)
theory DbmCorrect
  imports Api
begin

section \<open>The machine keeps its arrays in shape and ends\<close>

text \<open>
  \<open>stmt_ok\<close> is the invariant of a statement: each array has the length its counter says,
  and the program ends inside its array. Every handler keeps it and leaves the program
  alone; a program without jumps ends.
\<close>

subsection \<open>The invariant\<close>

definition arr_ok :: "'a list option \<Rightarrow> u32 \<Rightarrow> bool" where
  "arr_ok arr n \<longleftrightarrow> (\<exists>xs. arr = Some xs \<and> length xs = unat n)"

definition stmt_ok :: "dbm_stmt \<Rightarrow> bool" where
  "stmt_ok s \<longleftrightarrow> arr_ok (st_ops s) (st_nOps s) \<and> st_endOp s \<le> st_nOps s \<and> unat (st_nOps s) \<le> 2 ^ 31 \<and>
     arr_ok (st_reg s) (st_nReg s) \<and> arr_ok (st_cursors s) (st_nCursors s)"

text \<open>What no instruction changes.\<close>

definition same_program :: "dbm_stmt \<Rightarrow> dbm_stmt \<Rightarrow> bool" where
  "same_program s s' \<longleftrightarrow> st_ops s' = st_ops s \<and> st_nOps s' = st_nOps s \<and> st_endOp s' = st_endOp s \<and>
     st_mem s' = st_mem s \<and> st_nCursors s' = st_nCursors s \<and> st_explain s' = st_explain s \<and>
     st_nCols s' = st_nCols s \<and> st_cols s' = st_cols s \<and> st_startRR s' = st_startRR s"

lemma same_program_refl [simp]: "same_program s s"
  by (simp add: same_program_def)

lemma same_program_trans: "same_program a b \<Longrightarrow> same_program b c \<Longrightarrow> same_program a c"
  by (auto simp: same_program_def)

lemma same_program_pc [simp]: "same_program s (s\<lparr>st_pc := n\<rparr>)" "same_program (s\<lparr>st_pc := n\<rparr>) t = same_program s t"
  by (auto simp: same_program_def)

lemma stmt_ok_pc [simp]: "stmt_ok (s\<lparr>st_pc := n\<rparr>) = stmt_ok s"
  by (simp add: stmt_ok_def)

lemma arr_set_ok:
  "arr_set arr i x = Some arr' \<Longrightarrow> arr_ok arr n \<Longrightarrow> arr_ok arr' n"
  by (auto simp: arr_set_def arr_ok_def split: if_splits)

lemma arr_get_set:
  "arr_set arr i x = Some arr' \<Longrightarrow> arr_get arr' j = (if j = i then Some x else arr_get arr j)"
  by (cases arr) (auto simp: arr_set_def arr_get_def split: if_splits)

lemma realloc_array_ok:
  assumes "realloc_array mem init arr n sz = Some (CHIDB_OK, arr', n')" and "arr_ok arr n"
  shows "arr_ok arr' n'" and "n' = sz"
  using assms by (auto simp: realloc_array_def arr_ok_def split: if_splits)

lemma realloc_array_get:
  assumes "realloc_array mem init arr n sz = Some (CHIDB_OK, arr', n')" and "arr_ok arr n" and "n \<le> sz"
  shows "arr_get arr' j = (case arr_get arr j of Some x \<Rightarrow> Some x
     | None \<Rightarrow> if 0 \<le> j \<and> j < uint sz then Some init else None)"
proof -
  obtain xs where xs: "arr = Some xs" "length xs = unat n" using assms(2) by (auto simp: arr_ok_def)
  have le: "unat n \<le> unat sz" using assms(3) by (simp add: word_le_nat_alt)
  have sz: "nat j < unat sz \<longleftrightarrow> j < uint sz" if "0 \<le> j" for j
    using that uint_of_unat [of sz, OF refl] by linarith
  show ?thesis
    using assms(1) xs le sz [of j]
    by (auto simp: realloc_array_def arr_get_def nth_append split: if_splits)
qed

text \<open>A store that is defined puts the value in the register and keeps the others.\<close>

lemma store_register_ok:
  assumes st: "store_register s dest r = Some s'" and ok: "stmt_ok s"
  shows "stmt_ok s'" and "same_program s s'" and "st_pc s' = st_pc s" and "st_dbfile s' = st_dbfile s"
    and "0 \<le> sint dest"
    and "arr_get (st_reg s') j = (if j = sint dest then Some r else
      case arr_get (st_reg s) j of Some x \<Rightarrow> Some x
      | None \<Rightarrow> if 0 \<le> j \<and> j < sint dest then Some Reg_Unspecified else None)"
proof -
  obtain rc s1 where s1: "(if dest \<ge> st_nReg s then realloc_reg s (dest + 1) else Some (CHIDB_OK, s)) = Some (rc, s1)"
    and "\<exists>regs. arr_set (st_reg s1) (sint dest) r = Some regs \<and> s' = s1\<lparr>st_reg := regs\<rparr>"
    using st by (auto simp: store_register_def bind_Some_conv split: if_splits)
  then obtain regs' where regs: "arr_set (st_reg s1) (sint dest) r = Some regs'"
    and s': "s' = s1\<lparr>st_reg := regs'\<rparr>" by blast
  have nn: "0 \<le> sint dest" using regs by (auto simp: arr_set_def bind_Some_conv split: if_splits)
  show "0 \<le> sint dest" by (rule nn)
  have some: "st_reg s1 \<noteq> None" using regs by (cases "st_reg s1") (auto simp: arr_set_def)
  have a: "arr_ok (st_reg s) (st_nReg s)" using ok by (simp add: stmt_ok_def)
  have grown: "arr_ok (st_reg s1) (st_nReg s1) \<and> same_program s s1 \<and> st_cursors s1 = st_cursors s \<and>
      st_pc s1 = st_pc s \<and> st_dbfile s1 = st_dbfile s \<and>
      (\<forall>j. j \<noteq> sint dest \<longrightarrow> arr_get (st_reg s1) j = (case arr_get (st_reg s) j of Some x \<Rightarrow> Some x
        | None \<Rightarrow> if 0 \<le> j \<and> j < sint dest then Some Reg_Unspecified else None))"
  proof (cases "st_nReg s \<le> dest")
    case True
    obtain arr n where ra: "realloc_array (st_mem s) Reg_Unspecified (st_reg s) (st_nReg s) (dest + 1) = Some (rc, arr, n)"
      and s1': "s1 = s\<lparr>st_reg := arr, st_nReg := n\<rparr>"
      using s1 True by (auto simp: realloc_reg_def bind_Some_conv)
    have rc: "rc = CHIDB_OK" using ra some s1' by (auto simp: realloc_array_def split: if_splits)
    have sd: "sint dest = uint dest" using nn by (simp add: sint_uint_nonneg)
    have ud: "uint (dest + 1) = uint dest + 1"
      using nn sd sint_lt [of dest] by (simp add: uint_word_ariths)
    have le: "st_nReg s \<le> dest + 1" using True ud by (simp add: word_le_def)
    show ?thesis
      using realloc_array_ok(1) [OF ra [unfolded rc] a] realloc_array_get [OF ra [unfolded rc] a le] s1' ud sd
      by (auto simp: same_program_def split: option.splits)
  next
    case False
    then have in_range: "sint dest < uint (st_nReg s)" if "0 \<le> sint dest"
      using that by (simp add: word_le_def sint_uint_nonneg)
    have "arr_get (st_reg s) j \<noteq> None" if "0 \<le> j" "j < sint dest" for j
    proof -
      have "nat j < unat (st_nReg s)"
        using that in_range [OF nn] uint_of_unat [of "st_nReg s", OF refl] by linarith
      then show ?thesis using a that(1) by (auto simp: arr_get_def arr_ok_def)
    qed
    then show ?thesis using s1 False a by (fastforce split: option.splits)
  qed
  show "stmt_ok s'" "same_program s s'" "st_pc s' = st_pc s" "st_dbfile s' = st_dbfile s"
    using grown ok arr_set_ok [OF regs, of "st_nReg s1"] s' by (auto simp: stmt_ok_def same_program_def)
  show "arr_get (st_reg s') j = (if j = sint dest then Some r else
      case arr_get (st_reg s) j of Some x \<Rightarrow> Some x
      | None \<Rightarrow> if 0 \<le> j \<and> j < sint dest then Some Reg_Unspecified else None)"
    using grown arr_get_set [OF regs, of j] s' by simp
qed

subsection \<open>Every handler keeps the invariant\<close>

named_theorems handler_keeps \<open>the handlers keep the invariant\<close>

lemma cursors_ok:
  "stmt_ok s \<Longrightarrow> arr_set (st_cursors s) i x = Some cs \<Longrightarrow> stmt_ok (s\<lparr>st_cursors := cs\<rparr>)"
  by (auto simp: stmt_ok_def dest: arr_set_ok)

definition keeps_stmt :: "(disk \<Rightarrow> dbm_stmt \<Rightarrow> dbm_op \<Rightarrow> handler_result) \<Rightarrow> bool" where
  "keeps_stmt h \<longleftrightarrow> (\<forall>d s op rc d' s'. stmt_ok s \<longrightarrow> h d s op = Some (Inr (rc, d', s')) \<longrightarrow>
     stmt_ok s' \<and> same_program s s')"

lemma keeps_stmtI:
  "(\<And>d s op rc d' s'. stmt_ok s \<Longrightarrow> h d s op = Some (Inr (rc, d', s')) \<Longrightarrow> stmt_ok s' \<and> same_program s s') \<Longrightarrow>
   keeps_stmt h"
  by (auto simp: keeps_stmt_def)

lemma keeps_compare: "(\<And>d s op. h d s op = compare_op test d s op) \<Longrightarrow> keeps_stmt h"
  by (rule keeps_stmtI) (auto simp: compare_op_def ok_def bind_Some_conv split: if_splits)

lemma keeps_store:
  "(\<And>d s op. h d s op = do { v \<leftarrow> val op; s \<leftarrow> store_register s (op_p2 op) v; ok d s }) \<Longrightarrow> keeps_stmt h"
  by (rule keeps_stmtI) (auto simp: ok_def bind_Some_conv dest: store_register_ok)

lemma keeps_open:
  assumes "\<And>d s op. h d s op = open_cursor ty d s op"
  shows "keeps_stmt h"
proof (rule keeps_stmtI)
  fix d s op rc d' s' assume "stmt_ok s" and "h d s op = Some (Inr (rc, d', s'))"
  then have "open_cursor ty d s op = Some (Inr (rc, d', s'))" by (simp add: assms)
  then obtain cs b cu where "arr_set (st_cursors s) (sint (op_p1 op)) cu = Some cs"
    and s': "s' = s\<lparr>st_cursors := cs, st_db_bt := b\<rparr>"
    by (auto simp: open_cursor_def bind_Some_conv case_sum_Some)
  then show "stmt_ok s' \<and> same_program s s'"
    using cursors_ok [OF \<open>stmt_ok s\<close>] by (auto simp: stmt_ok_def same_program_def)
qed

lemma keeps_cursor:
  assumes "\<And>d s op r. h d s op = Some (Inr r) \<Longrightarrow> \<exists>cs pc i x. arr_set (st_cursors s) i x = Some cs \<and>
    snd (snd r) = s\<lparr>st_cursors := cs, st_pc := pc\<rparr>"
  shows "keeps_stmt h"
proof (rule keeps_stmtI)
  fix d s op rc d' s' assume "stmt_ok s" and "h d s op = Some (Inr (rc, d', s'))"
  then obtain cs pc i x where "arr_set (st_cursors s) i x = Some cs" "s' = s\<lparr>st_cursors := cs, st_pc := pc\<rparr>"
    using assms [of d s op "(rc, d', s')"] by auto
  then show "stmt_ok s' \<and> same_program s s'"
    using cursors_ok [OF \<open>stmt_ok s\<close>] by (auto simp: stmt_ok_def same_program_def)
qed

lemma pc_simp: "s\<lparr>st_cursors := cs\<rparr> = s\<lparr>st_cursors := cs, st_pc := st_pc s\<rparr>"
  by simp

lemma keeps_Close [handler_keeps]: "keeps_stmt chidb_dbm_op_Close"
  by (rule keeps_cursor)
    (fastforce simp: chidb_dbm_op_Close_def bind_Some_conv simp del: dbm_stmt.update_convs
      intro: pc_simp)

lemma keeps_Rewind [handler_keeps]: "keeps_stmt chidb_dbm_op_Rewind"
  by (rule keeps_cursor) (fastforce simp: chidb_dbm_op_Rewind_def ok_def bind_Some_conv Let_def intro: pc_simp)

lemma keeps_Next [handler_keeps]: "keeps_stmt chidb_dbm_op_Next"
  by (rule keeps_cursor)
    (fastforce simp: chidb_dbm_op_Next_def ok_def bind_Some_conv case_sum_Some Let_def intro: pc_simp)

lemma keeps_ok: "(\<And>d s op. h d s op = ok d s) \<Longrightarrow> keeps_stmt h"
  by (rule keeps_stmtI) (auto simp: ok_def)

lemma keeps_OpenRead [handler_keeps]: "keeps_stmt chidb_dbm_op_OpenRead"
  by (rule keeps_open) (rule chidb_dbm_op_OpenRead_def)

lemma keeps_OpenWrite [handler_keeps]: "keeps_stmt chidb_dbm_op_OpenWrite"
  by (rule keeps_open) (rule chidb_dbm_op_OpenWrite_def)

lemma keeps_Eq [handler_keeps]: "keeps_stmt chidb_dbm_op_Eq"
  by (rule keeps_compare) (rule chidb_dbm_op_Eq_def)

lemma keeps_Ne [handler_keeps]: "keeps_stmt chidb_dbm_op_Ne"
  by (rule keeps_compare) (rule chidb_dbm_op_Ne_def)

lemma keeps_Lt [handler_keeps]: "keeps_stmt chidb_dbm_op_Lt"
  by (rule keeps_compare) (rule chidb_dbm_op_Lt_def)

lemma keeps_Le [handler_keeps]: "keeps_stmt chidb_dbm_op_Le"
  by (rule keeps_compare) (rule chidb_dbm_op_Le_def)

lemma keeps_Gt [handler_keeps]: "keeps_stmt chidb_dbm_op_Gt"
  by (rule keeps_compare) (rule chidb_dbm_op_Gt_def)

lemma keeps_Ge [handler_keeps]: "keeps_stmt chidb_dbm_op_Ge"
  by (rule keeps_compare) (rule chidb_dbm_op_Ge_def)

lemma keeps_Noop [handler_keeps]: "keeps_stmt chidb_dbm_op_Noop"
  by (rule keeps_ok) (rule chidb_dbm_op_Noop_def)

lemma keeps_Seek [handler_keeps]: "keeps_stmt chidb_dbm_op_Seek"
  by (rule keeps_ok) (rule chidb_dbm_op_Seek_def)

lemma keeps_SeekGt [handler_keeps]: "keeps_stmt chidb_dbm_op_SeekGt"
  by (rule keeps_ok) (rule chidb_dbm_op_SeekGt_def)

lemma keeps_SeekGe [handler_keeps]: "keeps_stmt chidb_dbm_op_SeekGe"
  by (rule keeps_ok) (rule chidb_dbm_op_SeekGe_def)

lemma keeps_SeekLt [handler_keeps]: "keeps_stmt chidb_dbm_op_SeekLt"
  by (rule keeps_ok) (rule chidb_dbm_op_SeekLt_def)

lemma keeps_SeekLe [handler_keeps]: "keeps_stmt chidb_dbm_op_SeekLe"
  by (rule keeps_ok) (rule chidb_dbm_op_SeekLe_def)

lemma keeps_Column [handler_keeps]: "keeps_stmt chidb_dbm_op_Column"
  by (rule keeps_ok) (rule chidb_dbm_op_Column_def)

lemma keeps_Key [handler_keeps]: "keeps_stmt chidb_dbm_op_Key"
  by (rule keeps_ok) (rule chidb_dbm_op_Key_def)

lemma keeps_ResultRow [handler_keeps]: "keeps_stmt chidb_dbm_op_ResultRow"
  by (rule keeps_ok) (rule chidb_dbm_op_ResultRow_def)

lemma keeps_MakeRecord [handler_keeps]: "keeps_stmt chidb_dbm_op_MakeRecord"
  by (rule keeps_ok) (rule chidb_dbm_op_MakeRecord_def)

lemma keeps_Insert [handler_keeps]: "keeps_stmt chidb_dbm_op_Insert"
  by (rule keeps_ok) (rule chidb_dbm_op_Insert_def)

lemma keeps_CreateTable [handler_keeps]: "keeps_stmt chidb_dbm_op_CreateTable"
  by (rule keeps_ok) (rule chidb_dbm_op_CreateTable_def)

lemma keeps_CreateIndex [handler_keeps]: "keeps_stmt chidb_dbm_op_CreateIndex"
  by (rule keeps_ok) (rule chidb_dbm_op_CreateIndex_def)

lemma keeps_Copy [handler_keeps]: "keeps_stmt chidb_dbm_op_Copy"
  by (rule keeps_ok) (rule chidb_dbm_op_Copy_def)

lemma keeps_SCopy [handler_keeps]: "keeps_stmt chidb_dbm_op_SCopy"
  by (rule keeps_ok) (rule chidb_dbm_op_SCopy_def)

lemma keeps_IdxGt [handler_keeps]: "keeps_stmt chidb_dbm_op_IdxGt"
  by (simp add: keeps_stmt_def chidb_dbm_op_IdxGt_def)

lemma keeps_IdxGe [handler_keeps]: "keeps_stmt chidb_dbm_op_IdxGe"
  by (simp add: keeps_stmt_def chidb_dbm_op_IdxGe_def)

lemma keeps_IdxLt [handler_keeps]: "keeps_stmt chidb_dbm_op_IdxLt"
  by (simp add: keeps_stmt_def chidb_dbm_op_IdxLt_def)

lemma keeps_IdxLe [handler_keeps]: "keeps_stmt chidb_dbm_op_IdxLe"
  by (simp add: keeps_stmt_def chidb_dbm_op_IdxLe_def)

lemma keeps_IdxPKey [handler_keeps]: "keeps_stmt chidb_dbm_op_IdxPKey"
  by (simp add: keeps_stmt_def chidb_dbm_op_IdxPKey_def)

lemma keeps_IdxInsert [handler_keeps]: "keeps_stmt chidb_dbm_op_IdxInsert"
  by (simp add: keeps_stmt_def chidb_dbm_op_IdxInsert_def)

lemma keeps_Prev [handler_keeps]: "keeps_stmt chidb_dbm_op_Prev"
  by (rule keeps_stmtI) (auto simp: chidb_dbm_op_Prev_def ok_def bind_Some_conv)

lemma keeps_Integer [handler_keeps]: "keeps_stmt chidb_dbm_op_Integer"
  by (rule keeps_store [of _ "\<lambda>op. Some (Reg_Int32 (op_p1 op))"]) (simp add: chidb_dbm_op_Integer_def)

lemma keeps_Null [handler_keeps]: "keeps_stmt chidb_dbm_op_Null"
  by (rule keeps_store [of _ "\<lambda>op. Some Reg_Null"]) (simp add: chidb_dbm_op_Null_def)

lemma keeps_String [handler_keeps]: "keeps_stmt chidb_dbm_op_String"
  by (rule keeps_stmtI) (auto simp: chidb_dbm_op_String_def ok_def bind_Some_conv dest: store_register_ok)

lemma keeps_Halt [handler_keeps]: "keeps_stmt chidb_dbm_op_Halt"
  by (rule keeps_stmtI)
    (auto simp: chidb_dbm_op_Halt_def ok_def bind_Some_conv Let_def stmt_ok_def same_program_def split: if_splits)

lemma handlers_keep: "keeps_stmt (dbm_handlers c)"
  by (cases c) (simp_all only: dbm_handlers.simps handler_keeps)

subsection \<open>Execution\<close>

lemmas handler_defs =
  chidb_dbm_op_Noop_def chidb_dbm_op_OpenRead_def chidb_dbm_op_OpenWrite_def
  chidb_dbm_op_Close_def chidb_dbm_op_Rewind_def chidb_dbm_op_Next_def
  chidb_dbm_op_Prev_def chidb_dbm_op_Seek_def chidb_dbm_op_SeekGt_def
  chidb_dbm_op_SeekGe_def chidb_dbm_op_SeekLt_def chidb_dbm_op_SeekLe_def
  chidb_dbm_op_Column_def chidb_dbm_op_Key_def chidb_dbm_op_Integer_def
  chidb_dbm_op_String_def chidb_dbm_op_Null_def chidb_dbm_op_ResultRow_def
  chidb_dbm_op_MakeRecord_def chidb_dbm_op_Insert_def chidb_dbm_op_Eq_def
  chidb_dbm_op_Ne_def chidb_dbm_op_Lt_def chidb_dbm_op_Le_def
  chidb_dbm_op_Gt_def chidb_dbm_op_Ge_def chidb_dbm_op_IdxGt_def
  chidb_dbm_op_IdxGe_def chidb_dbm_op_IdxLt_def chidb_dbm_op_IdxLe_def
  chidb_dbm_op_IdxPKey_def chidb_dbm_op_IdxInsert_def chidb_dbm_op_CreateTable_def
  chidb_dbm_op_CreateIndex_def chidb_dbm_op_Copy_def chidb_dbm_op_SCopy_def
  chidb_dbm_op_Halt_def

lemma handle_keeps:
  "stmt_ok s \<Longrightarrow> chidb_dbm_op_handle d s op = Some (Inr (rc, d', s')) \<Longrightarrow> stmt_ok s' \<and> same_program s s'"
  using handlers_keep [of "op_code op"] by (auto simp: keeps_stmt_def chidb_dbm_op_handle_def)

lemma handle_code:
  assumes "chidb_dbm_op_handle d s op = Some (Inr (rc, d', s'))" and "rc \<noteq> CHIDB_OK"
  shows "op_code op = Op_Halt \<and> rc = sint (op_p1 op)"
  using assms
  by (cases "op_code op")
    (auto simp: chidb_dbm_op_handle_def handler_defs ok_def bind_Some_conv case_sum_Some Let_def
      compare_op_def open_cursor_def chidb_dbm_init_cursor_def chidb_dbm_free_cursor_def split: if_splits)

lemma exec_loop_keeps:
  assumes "exec_loop d s = Some r"
  shows "stmt_ok s \<longrightarrow> (case r of Inl _ \<Rightarrow> True | Inr (rc, d', s') \<Rightarrow>
    stmt_ok s' \<and> same_program s s' \<and> (rc = CHIDB_OK \<longrightarrow> st_endOp s' \<le> st_pc s') \<and>
    (rc \<noteq> CHIDB_OK \<longrightarrow> (\<exists>i < unat (st_endOp s). \<exists>op. arr_get (st_ops s) (int i) = Some op \<and>
      op_code op = Op_Halt \<and> rc = sint (op_p1 op))))"
  using assms
proof (induction rule: exec_loop.raw_induct [rotated 1, consumes 1, case_names step])
  case (step exec d s r)
  show ?case
  proof (cases "st_pc s < st_endOp s")
    case False
    then show ?thesis using step.hyps by auto
  next
    case True
    obtain op q where op: "arr_get (st_ops s) (uint (st_pc s)) = Some op"
      and q: "chidb_dbm_op_handle d (s\<lparr>st_pc := st_pc s + 1\<rparr>) op = Some q"
      and r: "(case q of Inl status \<Rightarrow> Some (Inl status) | Inr (rc, d, s) \<Rightarrow>
        if rc \<noteq> 0 then Some (Inr (rc, d, s)) else exec d s) = Some r"
      using step.hyps True by (auto simp: bind_Some_conv)
    show ?thesis
    proof (cases q)
      case (Inl a)
      then have "r = Inl a" using r by simp
      then show ?thesis by simp
    next
      case (Inr t)
      obtain rc d1 s1 where t: "t = (rc, d1, s1)" by (cases t)
      have k: "stmt_ok s \<Longrightarrow> stmt_ok s1 \<and> same_program s s1"
        using handle_keeps [of "s\<lparr>st_pc := st_pc s + 1\<rparr>" d op rc d1 s1] q Inr t by simp
      have u: "unat (st_pc s) < unat (st_endOp s)" "int (unat (st_pc s)) = uint (st_pc s)"
        using True by (simp_all add: word_less_nat_alt)
      show ?thesis
      proof (cases "rc = CHIDB_OK")
        case False
        then have "op_code op = Op_Halt \<and> rc = sint (op_p1 op)"
          using handle_code q Inr t by blast
        moreover have "arr_get (st_ops s) (int (unat (st_pc s))) = Some op" using op by simp
        ultimately have "\<exists>i < unat (st_endOp s). \<exists>op. arr_get (st_ops s) (int i) = Some op \<and>
            op_code op = Op_Halt \<and> rc = sint (op_p1 op)" using u(1) by blast
        moreover have "r = Inr (rc, d1, s1)" using r Inr t False by simp
        ultimately show ?thesis using k False by simp
      next
        case True
        then have "exec d1 s1 = Some r" using r Inr t by simp
        from step.IH [OF this] show ?thesis
          using k by (auto simp: same_program_def split: sum.splits)
      qed
    qed
  qed
qed

subsection \<open>A program that only jumps forward ends\<close>

text \<open>The run of a program with its instructions counted: after at most \<open>n\<close> of them it is still
  running, has stopped with a result, or has reached an instruction whose behaviour is undefined.
  Where the loop of \<open>exec_loop\<close> would not end, no number is enough to stop it.\<close>

datatype exec_state = Running disk dbm_stmt | Stopped "int + int \<times> disk \<times> dbm_stmt" | Undefined

fun exec_steps :: "nat \<Rightarrow> disk \<Rightarrow> dbm_stmt \<Rightarrow> exec_state" where
  "exec_steps n d s =
     (if st_pc s < st_endOp s then
        (case n of 0 \<Rightarrow> Running d s
         | Suc m \<Rightarrow>
             (case arr_get (st_ops s) (uint (st_pc s)) of None \<Rightarrow> Undefined
              | Some op \<Rightarrow>
                  (case chidb_dbm_op_handle d (s\<lparr>st_pc := st_pc s + 1\<rparr>) op of
                     None \<Rightarrow> Undefined
                   | Some (Inl status) \<Rightarrow> Stopped (Inl status)
                   | Some (Inr (rc, d', s')) \<Rightarrow>
                       if rc \<noteq> CHIDB_OK then Stopped (Inr (rc, d', s')) else exec_steps m d' s')))
      else Stopped (Inr (CHIDB_OK, d, s)))"

declare exec_steps.simps [simp del]

text \<open>A run that has stopped, or is undefined, is what the loop computes.\<close>

definition run_result :: "exec_state \<Rightarrow> handler_result" where
  "run_result e = (case e of Stopped r \<Rightarrow> Some r | _ \<Rightarrow> None)"

lemma exec_steps_loop:
  "(\<forall>d' s'. exec_steps n d s \<noteq> Running d' s') \<Longrightarrow> exec_loop d s = run_result (exec_steps n d s)"
proof (induction n arbitrary: d s)
  case 0
  then show ?case by (subst exec_loop.simps) (simp add: exec_steps.simps [of 0] run_result_def split: if_splits)
next
  case (Suc n)
  show ?case
    using Suc.prems Suc.IH
    by (subst exec_loop.simps)
      (auto simp: exec_steps.simps [of "Suc n"] run_result_def split: if_splits option.splits sum.splits)
qed

text \<open>The instruction at address \<open>i\<close> does not go back: it works on no cursor (\<open>Prev\<close> apart, which
  does nothing with its cursor) and if it jumps, it jumps to a later address. Nothing is said of its registers and its text.\<close>

definition forward_op :: "nat \<Rightarrow> dbm_op \<Rightarrow> bool" where
  "forward_op i op \<longleftrightarrow>
     op_code op \<notin> {Op_OpenRead, Op_OpenWrite, Op_Close, Op_Rewind, Op_Next} \<and>
     (op_code op \<in> {Op_Eq, Op_Ne, Op_Lt, Op_Le, Op_Gt, Op_Ge, Op_Prev} \<longrightarrow> i < unat (op_p2 op))"

text \<open>An instruction has all it needs: a register that exists or for which there is memory, the text it
  stores or reports, the cursor it names.\<close>

definition supplied_op :: "nat \<Rightarrow> u32 \<Rightarrow> dbm_op \<Rightarrow> bool" where
  "supplied_op mem n_cursors op \<longleftrightarrow>
     (op_code op \<in> {Op_Integer, Op_Null, Op_String} \<longrightarrow> 0 \<le> sint (op_p2 op) \<and> unat (op_p2 op) < mem) \<and>
     (op_code op = Op_String \<longrightarrow> op_p4 op \<noteq> None) \<and>
     (op_code op = Op_Halt \<longrightarrow> op_p1 op = 0 \<or> op_p4 op \<noteq> None) \<and>
     (op_code op = Op_Prev \<longrightarrow> 0 \<le> sint (op_p1 op) \<and> op_p1 op < n_cursors)"

lemma store_register_defined:
  assumes ok: "stmt_ok s" and mem: "st_mem s \<le> 2 ^ 31" and p: "0 \<le> sint dest" "unat dest < st_mem s"
  shows "\<exists>s'. store_register s dest r = Some s'"
proof -
  obtain xs where xs: "st_reg s = Some xs" "length xs = unat (st_nReg s)"
    using ok by (auto simp: stmt_ok_def arr_ok_def)
  have d: "nat (sint dest) = unat dest" by (simp only: sint_uint_nonneg [OF p(1)] unat_eq_nat_uint)
  show ?thesis
  proof (cases "st_nReg s \<le> dest")
    case False
    then have "unat dest < length xs" using xs by (simp add: word_le_nat_alt)
    then show ?thesis using False xs p d by (auto simp: store_register_def arr_set_def)
  next
    case True
    have u: "unat (dest + 1) = unat dest + 1" using p(2) mem by (simp add: unat_word_ariths)
    then have "dest + 1 \<noteq> 0" by (auto simp: word_unat_eq_iff)
    then obtain ys where ys: "realloc_reg s (dest + 1) = Some (CHIDB_OK, s\<lparr>st_reg := Some ys, st_nReg := dest + 1\<rparr>)"
      "length ys = unat dest + 1"
      using True xs u p(2) mem by (auto simp: realloc_reg_def realloc_array_def word_le_nat_alt Let_def)
    then show ?thesis using True p d by (auto simp: store_register_def arr_set_def)
  qed
qed

lemma compare_defined:
  assumes ok: "stmt_ok s"
  shows "\<exists>s'. compare_op test d s op = Some (Inr (CHIDB_OK, d, s')) \<and> (st_pc s' = st_pc s \<or> st_pc s' = op_p2 op)"
proof -
  have get: "\<exists>r. arr_get (st_reg s) (sint p) = Some r" if "EXISTS_REGISTER s p" for p
  proof -
    have "nat (sint p) < unat (st_nReg s)"
      using that by (simp add: EXISTS_REGISTER_def sint_uint_nonneg word_less_nat_alt flip: unat_eq_nat_uint)
    then show ?thesis using ok that by (auto simp: arr_get_def stmt_ok_def arr_ok_def EXISTS_REGISTER_def)
  qed
  show ?thesis using get [of "op_p1 op"] get [of "op_p3 op"] by (auto simp: compare_op_def ok_def)
qed

lemma compare_forward:
  assumes "compare_op test d s op = Some (Inr (rc, d', s'))" and "stmt_ok s"
  shows "st_pc s' = st_pc s \<or> st_pc s' = op_p2 op"
  using compare_defined [OF assms(2), of test d op] assms(1) by auto

lemma forward_step:
  assumes h: "chidb_dbm_op_handle d s op = Some (Inr (rc, d', s'))" and ok: "stmt_ok s"
    and fwd: "forward_op i op" and pc: "unat (st_pc s) = Suc i" and i: "i < unat (st_endOp s)"
  shows "i < unat (st_pc s')"
proof -
  have st: "store_register s dest r = Some s' \<Longrightarrow> st_pc s' = st_pc s" for dest r
    using store_register_ok(3) [OF _ ok] by blast
  have cmp: "compare_op test d s op = Some (Inr (rc, d', s')) \<Longrightarrow> i < unat (op_p2 op) \<Longrightarrow> i < unat (st_pc s')" for test
    using compare_forward [OF _ ok] pc by fastforce
  have "unat (st_endOp s) \<le> 2 ^ 31" using ok by (auto simp: stmt_ok_def word_le_nat_alt)
  then have e: "i < unat (st_endOp s + 1)" using i by (simp add: unat_word_ariths)
  show ?thesis
    using h fwd pc e
    by (cases "op_code op")
      (auto simp: chidb_dbm_op_handle_def handler_defs forward_op_def ok_def bind_Some_conv Let_def
        dest!: st dest: cmp split: if_splits)
qed

lemma supplied_step:
  assumes ok: "stmt_ok s" and mem: "st_mem s \<le> 2 ^ 31" and fwd: "forward_op i op"
    and sup: "supplied_op (st_mem s) (st_nCursors s) op"
  shows "\<exists>r. chidb_dbm_op_handle d s op = Some r"
proof -
  have st: "\<exists>s'. store_register s (op_p2 op) r = Some s'" if "0 \<le> sint (op_p2 op)" "unat (op_p2 op) < st_mem s" for r
    using store_register_defined [OF ok mem that] .
  have cmp: "\<exists>r. compare_op test d s op = Some r" for test
    using compare_defined [OF ok, of test d op] by blast
  have cur: "\<exists>cu. arr_get (st_cursors s) (sint p) = Some cu" if "0 \<le> sint p" "p < st_nCursors s" for p
  proof -
    have "nat (sint p) < unat (st_nCursors s)"
      using that by (simp add: sint_uint_nonneg word_less_nat_alt flip: unat_eq_nat_uint)
    then show ?thesis using ok that by (auto simp: arr_get_def stmt_ok_def arr_ok_def)
  qed
  show ?thesis
    using fwd sup st [of "Reg_Int32 (op_p1 op)"] st [of Reg_Null] st [of "Reg_String (the (op_p4 op))"] cmp cur [of "op_p1 op"]
    by (cases "op_code op") (auto simp: chidb_dbm_op_handle_def handler_defs supplied_op_def forward_op_def ok_def Let_def)
qed

lemma exec_steps_end:
  assumes "stmt_ok s"
    and "\<forall>i < unat (st_endOp s). \<forall>op. arr_get (st_ops s) (int i) = Some op \<longrightarrow> forward_op i op"
    and "unat (st_endOp s) - unat (st_pc s) \<le> n"
  shows "(\<forall>d' s'. exec_steps n d s \<noteq> Running d' s') \<and>
    (st_mem s \<le> 2 ^ 31 \<and>
      (\<forall>i < unat (st_endOp s). \<forall>op. arr_get (st_ops s) (int i) = Some op \<longrightarrow> supplied_op (st_mem s) (st_nCursors s) op)
      \<longrightarrow> exec_steps n d s \<noteq> Undefined)"
  using assms
proof (induction n arbitrary: d s)
  case 0
  then show ?case by (auto simp: exec_steps.simps [of 0] word_less_nat_alt)
next
  case (Suc n)
  let ?i = "unat (st_pc s)" and ?s = "s\<lparr>st_pc := st_pc s + 1\<rparr>"
  show ?case
  proof (cases "st_pc s < st_endOp s")
    case False
    then show ?thesis by (simp add: exec_steps.simps [of "Suc n"])
  next
    case True
    have i: "?i < unat (st_endOp s)" using True by (simp add: word_less_nat_alt)
    have bound: "unat (st_endOp s) \<le> unat (st_nOps s)" "unat (st_nOps s) \<le> 2 ^ 31"
      using Suc.prems(1) by (auto simp: stmt_ok_def word_le_nat_alt)
    obtain op where op: "arr_get (st_ops s) (int ?i) = Some op"
      using Suc.prems(1) i bound by (auto simp: arr_get_def stmt_ok_def arr_ok_def)
    have fwd: "forward_op ?i op" using Suc.prems(2) i op by blast
    have pc: "unat (st_pc ?s) = Suc ?i" using i bound by (simp add: unat_word_ariths)
    have succ: "(\<forall>d1 s1. exec_steps n d' s' \<noteq> Running d1 s1) \<and>
        (st_mem s \<le> 2 ^ 31 \<and>
          (\<forall>i < unat (st_endOp s). \<forall>op. arr_get (st_ops s) (int i) = Some op \<longrightarrow> supplied_op (st_mem s) (st_nCursors s) op)
          \<longrightarrow> exec_steps n d' s' \<noteq> Undefined)"
      if h: "chidb_dbm_op_handle d ?s op = Some (Inr (rc, d', s'))" for rc d' s'
    proof -
      have k: "stmt_ok s'" "same_program s s'" using handle_keeps [OF _ h] Suc.prems(1) by auto
      have "?i < unat (st_pc s')" using forward_step [OF h _ fwd pc] Suc.prems(1) i by simp
      then show ?thesis using Suc.IH [of s' d'] k Suc.prems(2,3) i by (auto simp: same_program_def)
    qed
    have "\<exists>r. chidb_dbm_op_handle d ?s op = Some r"
      if "st_mem s \<le> 2 ^ 31" "supplied_op (st_mem s) (st_nCursors s) op"
      using supplied_step [of ?s ?i op d] Suc.prems(1) fwd that by simp
    then have sup: "st_mem s \<le> 2 ^ 31 \<and> supplied_op (st_mem s) (st_nCursors s) op \<Longrightarrow>
        chidb_dbm_op_handle d ?s op \<noteq> None" by auto
    have u: "arr_get (st_ops s) (uint (st_pc s)) = Some op" using op by simp
    consider (undef) "chidb_dbm_op_handle d ?s op = None" | (ends) status where "chidb_dbm_op_handle d ?s op = Some (Inl status)"
      | (goes) rc d' s' where "chidb_dbm_op_handle d ?s op = Some (Inr (rc, d', s'))"
      by (cases "chidb_dbm_op_handle d ?s op") (auto, metis old.sum.exhaust prod_cases3)
    then show ?thesis
    proof cases
      case undef
      then have "\<not> (st_mem s \<le> 2 ^ 31 \<and> (\<forall>i < unat (st_endOp s). \<forall>op.
          arr_get (st_ops s) (int i) = Some op \<longrightarrow> supplied_op (st_mem s) (st_nCursors s) op))"
        using sup op i by blast
      then show ?thesis using True u undef by (simp add: exec_steps.simps [of "Suc n" d s])
    next
      case ends
      then show ?thesis using True u by (simp add: exec_steps.simps [of "Suc n" d s])
    next
      case goes
      then show ?thesis using True u succ [OF goes] by (simp add: exec_steps.simps [of "Suc n" d s])
    qed
  qed
qed

end
