(* ===== verification/ApiCorrect.thy ===== *)
theory ApiCorrect
  imports DbmCorrect BtreeFile
begin

section \<open>Prepared statements, comparisons and cursors\<close>

subsection \<open>Comparing registers\<close>

lemma strcmp_eq: "strcmp a b = 0 \<longleftrightarrow> a = b"
  by (induction a b rule: strcmp.induct) auto

lemma strcmp_sym: "strcmp b a = - strcmp a b"
  by (induction a b rule: strcmp.induct) (auto dest: less_asym)

lemma strcmp_trans: "strcmp a b < 0 \<Longrightarrow> strcmp b c < 0 \<Longrightarrow> strcmp a c < 0"
proof (induction a b arbitrary: c rule: strcmp.induct)
  case (2 y ys)
  then show ?case by (cases c) auto
next
  case (4 x xs y ys)
  then show ?case by (cases c) (auto split: if_splits)
qed auto

lemma memcmp_eq: "length a = length b \<Longrightarrow> memcmp a b (length a) = 0 \<longleftrightarrow> a = b"
  by (induction a b rule: list_induct2) auto

text \<open>Registers of one type that the instructions put in a total order, and that order: integers as
  signed numbers, texts as in a dictionary of unsigned bytes.\<close>

fun same_kind :: "dbm_register \<Rightarrow> dbm_register \<Rightarrow> bool" where
  "same_kind (Reg_Int32 _) (Reg_Int32 _) = True"
| "same_kind (Reg_String _) (Reg_String _) = True"
| "same_kind _ _ = False"

fun reg_less :: "dbm_register \<Rightarrow> dbm_register \<Rightarrow> bool" where
  "reg_less (Reg_Int32 i) (Reg_Int32 j) = (sint i < sint j)"
| "reg_less (Reg_String s) (Reg_String t) = ord_class.lexordp s t"
| "reg_less _ _ = False"

lemma sint_eq: "sint (i :: u32) = sint (j :: u32) \<longleftrightarrow> i = j"
  by (rule word_eq_iff_signed [symmetric])

lemma strcmp_less: "strcmp a b < 0 \<longleftrightarrow> ord_class.lexordp a b"
  by (induction a b rule: strcmp.induct) auto

lemma reg_less_irrefl: "\<not> reg_less a a"
  by (cases a) (auto simp: lexordp_irreflexive')

lemma reg_less_trans: "reg_less a b \<Longrightarrow> reg_less b c \<Longrightarrow> reg_less a c"
  by (cases a; cases b; cases c) (auto intro: lexordp_trans)

lemma reg_less_linear: "same_kind a b \<Longrightarrow> reg_less a b \<or> a = b \<or> reg_less b a"
  by (cases a; cases b) (use lexordp_linear in \<open>auto simp: sint_eq\<close>)

lemma strcmp_order:
  "strcmp b a < 0 \<longleftrightarrow> ord_class.lexordp b a" "strcmp b a > 0 \<longleftrightarrow> ord_class.lexordp a b"
  "strcmp b a \<le> 0 \<longleftrightarrow> ord_class.lexordp b a \<or> b = a" "strcmp b a \<ge> 0 \<longleftrightarrow> ord_class.lexordp a b \<or> b = a"
  using strcmp_less [of b a] strcmp_less [of a b] strcmp_sym [of b a] strcmp_eq [of b a] by auto

text \<open>Each test in the order of the registers.\<close>

lemma tests_by_order:
  assumes "same_kind a b"
  shows "test_Eq a b \<longleftrightarrow> b = a" and "test_Ne a b \<longleftrightarrow> b \<noteq> a" and "test_Lt a b \<longleftrightarrow> reg_less b a"
    and "test_Le a b \<longleftrightarrow> reg_less b a \<or> b = a" and "test_Gt a b \<longleftrightarrow> reg_less a b"
    and "test_Ge a b \<longleftrightarrow> reg_less a b \<or> b = a"
  using assms
  by (cases a; cases b; auto simp: strcmp_order strcmp_eq sint_eq order.order_iff_strict)+

lemma no_test_across_kinds:
  assumes "\<not> same_kind a b" and "\<forall>x y. (a, b) \<noteq> (Reg_Binary x, Reg_Binary y)"
  shows "\<not> test_Eq a b" and "\<not> test_Ne a b" and "\<not> test_Lt a b" and "\<not> test_Le a b" and "\<not> test_Gt a b" and "\<not> test_Ge a b"
  using assms by (cases a; cases b; simp)+

lemma compare_jump:
  assumes ok: "stmt_ok s" and a: "arr_get (st_reg s) (sint (op_p1 op)) = Some a"
    and b: "arr_get (st_reg s) (sint (op_p3 op)) = Some b"
    and kind: "\<not> same_kind a b \<Longrightarrow> \<not> test a b" 
  shows "compare_op test d s op = Some (Inr (CHIDB_OK, d, if test a b then s\<lparr>st_pc := op_p2 op\<rparr> else s))"
proof -
  have ex: "EXISTS_REGISTER s p" if "arr_get (st_reg s) (sint p) = Some r" for p r
  proof -
    have p: "0 \<le> sint p" "nat (sint p) < unat (st_nReg s)"
      using that ok by (auto simp: arr_get_def bind_Some_conv stmt_ok_def arr_ok_def split: if_splits)
    then show ?thesis by (simp add: EXISTS_REGISTER_def sint_uint_nonneg word_less_nat_alt flip: unat_eq_nat_uint)
  qed
  show ?thesis
    using ex [OF a] ex [OF b] a b kind by (auto simp: compare_op_def ok_def)
qed

subsection \<open>Opcode names\<close>

lemma bytes_of_inj: "bytes_of a = bytes_of b \<longleftrightarrow> a = b"
proof -
  have "inj (\<lambda>c :: char. (of_nat (of_char c) :: u8))"
  proof (rule injI)
    fix c c' :: char assume "(of_nat (of_char c) :: u8) = of_nat (of_char c')"
    then have "unat (of_nat (of_char c) :: u8) = unat (of_nat (of_char c') :: u8)" by simp
    then have "(of_char c :: nat) mod 256 = of_char c' mod 256" by (simp add: unat_of_nat)
    then show "c = c'" by simp
  qed
  then show ?thesis by (simp add: bytes_of_def inj_map_eq_map)
qed

text \<open>The table of opcodes enumerates them, so that statements on all of them can be computed.\<close>

instantiation opcode :: enum
begin

definition enum_opcode :: "opcode list" where
  "enum_opcode = all_opcodes"

definition enum_all_opcode :: "(opcode \<Rightarrow> bool) \<Rightarrow> bool" where
  "enum_all_opcode P = list_all P all_opcodes"

definition enum_ex_opcode :: "(opcode \<Rightarrow> bool) \<Rightarrow> bool" where
  "enum_ex_opcode P = list_ex P all_opcodes"

instance
proof
  show u: "UNIV = set (Enum.enum :: opcode list)"
    unfolding enum_opcode_def all_opcodes_def by (auto intro: opcode.exhaust)
  show "distinct (Enum.enum :: opcode list)"
    unfolding enum_opcode_def all_opcodes_def by simp
  show "Enum.enum_all P = Ball UNIV P" "Enum.enum_ex P = Bex UNIV P" for P :: "opcode \<Rightarrow> bool"
    unfolding u enum_opcode_def by (simp_all add: enum_all_opcode_def enum_ex_opcode_def list_all_iff list_ex_iff)
qed

end

lemma op_str_inj: "inj op_str"
proof -
  have "distinct (map op_str all_opcodes)" by (simp add: all_opcodes_def)
  moreover have "(UNIV :: opcode set) = set all_opcodes" using UNIV_enum [where 'a = opcode] by (simp only: enum_opcode_def)
  ultimately show ?thesis by (simp only: distinct_map)
qed

lemma opcode_to_str_inj: "opcode_to_str a = opcode_to_str b \<longleftrightarrow> a = b"
  using op_str_inj by (simp add: opcode_to_str_def bytes_of_inj inj_eq)

lemma str_to_opcode_name:
  "0 \<le> str_to_opcode (opcode_to_str c) \<and> all_opcodes ! nat (str_to_opcode (opcode_to_str c)) = c"
  by (cases c) (simp_all add: str_to_opcode_def all_opcodes_def strcmp_eq opcode_to_str_inj)

subsection \<open>EXPLAIN\<close>

text \<open>The row a client reads after a step of an EXPLAIN statement.\<close>

definition explain_row :: "dbm_stmt \<Rightarrow> (int \<times> bytes option \<times> int \<times> int \<times> int \<times> bytes option) option" where
  "explain_row s = do {
     a \<leftarrow> chidb_column_int s 0;
     o' \<leftarrow> chidb_column_text s 1;
     p1 \<leftarrow> chidb_column_int s 2;
     p2 \<leftarrow> chidb_column_int s 3;
     p3 \<leftarrow> chidb_column_int s 4;
     p4 \<leftarrow> chidb_column_text s 5;
     Some (a, o', p1, p2, p3, p4) }"

text \<open>All the rows of a statement, read with at most \<open>n\<close> steps.\<close>

fun step_rows :: "(dbm_stmt \<Rightarrow> 'r option) \<Rightarrow> nat \<Rightarrow> disk \<Rightarrow> dbm_stmt \<Rightarrow> 'r list option" where
  "step_rows row 0 d s = None"
| "step_rows row (Suc n) d s = do {
     r \<leftarrow> chidb_step d s;
     case r of
       Inl status \<Rightarrow> None
     | Inr (rc, d, s) \<Rightarrow>
         if rc = CHIDB_ROW then do { x \<leftarrow> row s; xs \<leftarrow> step_rows row n d s; Some (x # xs) }
         else Some [] }"

definition op_row :: "nat \<Rightarrow> dbm_op \<Rightarrow> int \<times> bytes option \<times> int \<times> int \<times> int \<times> bytes option" where
  "op_row i op = (int i, Some (opcode_to_str (op_code op)), sint (op_p1 op), sint (op_p2 op),
     sint (op_p3 op), op_p4 op)"

lemma explain_row_ok:
  assumes "st_explain s" and "arr_get (st_ops s) (int i) = Some op" and "unat (st_pc s) = Suc i" and "i < 2 ^ 31"
  shows "explain_row s = Some (op_row i op)"
proof -
  have "unat (st_pc s - 1) = i" using assms(3) by (subst unat_pred) (auto simp: word_less_nat_alt)
  then have u: "uint (st_pc s - 1) = int i" by (rule uint_of_unat)
  then have "st_pc s - 1 = of_nat i" by (metis of_int_of_nat_eq word_of_int_uint)
  then have "sint (st_pc s - 1) = int i"
    using assms(4) by (simp add: signed_of_nat signed_take_bit_int_eq_self)
  then show ?thesis
    using assms(1,2) u by (simp add: explain_row_def chidb_column_int_def chidb_column_text_def current_op_def op_row_def)
qed

lemma explain_rows:
  assumes ok: "stmt_ok s" and ex: "st_explain s"
  shows "unat (st_pc s) + n = unat (st_endOp s) \<Longrightarrow> n < k \<Longrightarrow>
    step_rows explain_row k d s = Some (map (\<lambda>i. op_row i (the (st_ops s) ! i)) [unat (st_pc s)..<unat (st_endOp s)])"
  using assms
proof (induction n arbitrary: s k)
  case 0
  then have "st_pc s = st_endOp s" by (simp add: word_unat_eq_iff)
  with 0 show ?case by (cases k) (auto simp: chidb_step_def)
next
  case (Suc n)
  then obtain k' where k: "k = Suc k'" by (cases k) auto
  let ?s = "s\<lparr>st_pc := st_pc s + 1\<rparr>"
  have ne: "st_pc s \<noteq> st_endOp s" using Suc.prems(1) by auto
  have bound: "unat (st_endOp s) \<le> unat (st_nOps s)" "unat (st_nOps s) \<le> 2 ^ 31"
    using Suc.prems(3) by (auto simp: stmt_ok_def word_le_nat_alt)
  have pc: "unat (st_pc ?s) = Suc (unat (st_pc s))"
    using Suc.prems(1) bound by (simp add: unat_word_ariths)
  obtain xs where xs: "st_ops s = Some xs" "length xs = unat (st_nOps s)"
    using Suc.prems(3) by (auto simp: stmt_ok_def arr_ok_def)
  then have op: "arr_get (st_ops ?s) (int (unat (st_pc s))) = Some (xs ! unat (st_pc s))"
    using Suc.prems(1) bound by (simp add: arr_get_def)
  have row: "explain_row ?s = Some (op_row (unat (st_pc s)) (xs ! unat (st_pc s)))"
    using explain_row_ok [OF _ op pc] Suc.prems(1,4) bound by simp
  have rest: "step_rows explain_row k' d ?s = Some (map (\<lambda>i. op_row i (the (st_ops ?s) ! i)) [unat (st_pc ?s)..<unat (st_endOp ?s)])"
    using Suc.prems k pc by (intro Suc.IH) auto
  show ?case
    using ne row rest Suc.prems(1,4) xs unfolding k
    by (simp add: chidb_step_def upt_conv_Cons pc [simplified])
qed

subsection \<open>Prepared statements\<close>

text \<open>The statement \<open>chidb_stmt_init\<close> makes: three arrays of the default sizes.\<close>

definition fresh_stmt :: "dbm_stmt \<Rightarrow> Pager option \<Rightarrow> dbm_stmt" where
  "fresh_stmt junk bt = junk\<lparr>st_db_bt := bt, st_explain := False, st_pc := 0,
     st_ops := Some (replicate 50 noop), st_nOps := 50, st_endOp := 0,
     st_reg := Some (replicate 10 Reg_Unspecified), st_nReg := 10,
     st_cursors := Some (replicate 10 \<lparr>cu_type = CURSOR_UNSPECIFIED, cu_vars = None\<rparr>), st_nCursors := 10,
     st_startRR := 0, st_nRR := 0, st_cols := None, st_nCols := 0\<rparr>"

lemma stmt_init_ok:
  "50 \<le> st_mem junk \<Longrightarrow> chidb_stmt_init junk bt = Some (CHIDB_OK, fresh_stmt junk bt)"
  by (simp add: chidb_stmt_init_def realloc_ops_def realloc_reg_def realloc_cur_def realloc_array_def
      fresh_stmt_def)

text \<open>Storing a program in a statement that has room for it.\<close>

lemma set_ops_ok:
  "st_ops s = Some xs \<Longrightarrow> length xs = unat (st_nOps s) \<Longrightarrow> i + length ops \<le> unat (st_nOps s) \<Longrightarrow>
   unat (st_endOp s) = i \<Longrightarrow>
   set_ops s ops (of_nat i) = Some (s\<lparr>st_ops := Some (take i xs @ ops @ drop (i + length ops) xs),
     st_endOp := of_nat (i + length ops)\<rparr>)"
proof (induction ops arbitrary: s i xs)
  case Nil
  have i32: "i < 2 ^ LENGTH(32)" using Nil.prems(3) unat_lt_u32 [of "st_nOps s"] by simp
  have "st_endOp s = of_nat i" using Nil.prems(4) by (simp add: word_unat_eq_iff unat_of_nat_small [OF i32])
  with Nil.prems show ?case by simp
next
  case (Cons op ops)
  have "i < 2 ^ 32" using Cons.prems(3) unat_lt_u32 [of "st_nOps s"] by simp
  then have i: "unat (of_nat i :: u32) = i" by (simp add: unat_of_nat)
  then have ui: "uint (of_nat i :: u32) = int i" by (rule uint_of_unat)
  have lt: "\<not> st_nOps s \<le> of_nat i" "st_endOp s \<le> of_nat i"
    using i Cons.prems(3,4) by (auto simp: word_le_nat_alt)
  let ?s = "s\<lparr>st_ops := Some (xs[i := op]), st_endOp := of_nat (Suc i)\<rparr>"
  have one: "chidb_stmt_set_op s op (of_nat i) = Some (CHIDB_OK, ?s)"
    using lt ui Cons.prems by (simp add: chidb_stmt_set_op_def arr_set_def)
  have "Suc i < 2 ^ 32" using Cons.prems(3) unat_lt_u32 [of "st_nOps s"] by simp
  then have e: "unat (st_endOp ?s) = Suc i" by (simp add: unat_of_nat del: of_nat_Suc)
  have "set_ops ?s ops (of_nat (Suc i)) = Some (?s\<lparr>st_ops := Some (take (Suc i) (xs[i := op]) @ ops @
      drop (Suc i + length ops) (xs[i := op])), st_endOp := of_nat (Suc i + length ops)\<rparr>)"
    using Cons.prems(1-3) e by (intro Cons.IH) auto
  moreover have "take (Suc i) (xs[i := op]) = take i xs @ [op]"
    using Cons.prems(2,3) by (simp add: take_Suc_conv_app_nth)
  ultimately show ?case using one by (simp add: add.commute)
qed

text \<open>The statement a successful \<open>chidb_prepare\<close> returns.\<close>

definition prepared :: "dbm_stmt \<Rightarrow> Pager option \<Rightarrow> chisql_statement \<Rightarrow> dbm_stmt" where
  "prepared junk bt q = (fresh_stmt junk bt)\<lparr>
     st_ops := Some (codegen_ops (sq_text q) @ replicate 37 noop), st_endOp := 13, st_nCols := 3,
     st_cols := Some [bytes_of ''id'', bytes_of ''sql'', bytes_of ''null''], st_explain := sq_explain q\<rparr>"

lemma length_codegen [simp]: "length (codegen_ops sql) = 13"
  by (simp add: codegen_ops_def)

lemma prepare_ok:
  assumes "50 \<le> st_mem junk" and "parser sql = (CHIDB_OK, q)"
  shows "chidb_prepare parser junk bt sql = Some (CHIDB_OK, Some (prepared junk bt q))"
proof -
  let ?s = "(fresh_stmt junk bt)\<lparr>st_nCols := 3, st_cols := Some [bytes_of ''id'', bytes_of ''sql'', bytes_of ''null'']\<rparr>"
  have "set_ops ?s (codegen_ops (sq_text q)) (of_nat 0) = Some (?s\<lparr>st_ops := Some (take 0 (replicate 50 noop) @
      codegen_ops (sq_text q) @ drop (0 + length (codegen_ops (sq_text q))) (replicate 50 noop)),
      st_endOp := of_nat (0 + length (codegen_ops (sq_text q)))\<rparr>)"
    by (rule set_ops_ok) (simp_all add: fresh_stmt_def)
  then have "set_ops ?s (codegen_ops (sq_text q)) 0 = Some (?s\<lparr>st_ops := Some (codegen_ops (sq_text q) @ replicate 37 noop),
      st_endOp := 13\<rparr>)" by simp
  then show ?thesis
    using stmt_init_ok [OF assms(1)] assms(2)
    by (simp add: chidb_prepare_def chidb_stmt_codegen_def chidb_stmt_optimize_def prepared_def)
qed

lemma prepared_ok: "stmt_ok (prepared junk bt q)"
  by (simp add: stmt_ok_def arr_ok_def prepared_def fresh_stmt_def word_le_nat_alt)

text \<open>Straight-line code: instructions that store in a register the machine has, or do nothing.
  A run of them is a fold over the registers.\<close>

definition straight_op :: "nat \<Rightarrow> dbm_op \<Rightarrow> bool" where
  "straight_op m op \<longleftrightarrow> (case op_code op of
     Op_Integer \<Rightarrow> unat (op_p2 op) < m
   | Op_Null \<Rightarrow> unat (op_p2 op) < m
   | Op_String \<Rightarrow> unat (op_p2 op) < m \<and> op_p4 op \<noteq> None
   | Op_ResultRow \<Rightarrow> True
   | Op_Noop \<Rightarrow> True
   | _ \<Rightarrow> False)"

definition effect :: "dbm_op \<Rightarrow> dbm_register list \<Rightarrow> dbm_register list" where
  "effect op regs = (case op_code op of
     Op_Integer \<Rightarrow> regs[unat (op_p2 op) := Reg_Int32 (op_p1 op)]
   | Op_Null \<Rightarrow> regs[unat (op_p2 op) := Reg_Null]
   | Op_String \<Rightarrow> regs[unat (op_p2 op) := Reg_String (the (op_p4 op))]
   | _ \<Rightarrow> regs)"

lemma length_effect [simp]: "length (effect op regs) = length regs"
  by (simp add: effect_def split: opcode.split)

lemma store_register_in:
  assumes "st_reg s = Some regs" and "length regs = unat (st_nReg s)" and "unat dest < length regs"
    and "length regs \<le> 2 ^ 31"
  shows "store_register s dest r = Some (s\<lparr>st_reg := Some (regs[unat dest := r])\<rparr>)"
proof -
  have "sint dest = int (unat dest)"
    using assms(3,4) by (intro sint_eq_unat) simp
  then show ?thesis
    using assms(1-3) by (simp add: store_register_def arr_set_def word_le_nat_alt)
qed

lemma straight_step:
  assumes "st_reg s = Some regs" and "length regs = unat (st_nReg s)" and "length regs \<le> 2 ^ 31"
    and "straight_op (length regs) op"
  shows "chidb_dbm_op_handle d s op = Some (Inr (CHIDB_OK, d, s\<lparr>st_reg := Some (effect op regs)\<rparr>))"
proof -
  note st = store_register_in [OF assms(1,2) _ assms(3)]
  have id: "s\<lparr>st_reg := Some regs\<rparr> = s" using assms(1) by simp
  show ?thesis
    using assms(4) st id
    by (auto simp: chidb_dbm_op_handle_def straight_op_def effect_def handler_defs ok_def split: opcode.splits)
qed

lemma straight_run:
  assumes ops: "st_ops s = Some ops" and bound: "unat (st_endOp s) \<le> length ops"
    and m: "length regs = unat (st_nReg s)" "length regs \<le> 2 ^ 31"
  shows "k + n \<le> unat (st_endOp s) \<Longrightarrow> \<forall>op \<in> set (take n (drop k ops)). straight_op (length regs) op \<Longrightarrow>
    exec_loop d (s\<lparr>st_pc := of_nat k, st_reg := Some regs\<rparr>) =
    exec_loop d (s\<lparr>st_pc := of_nat (k + n), st_reg := Some (fold effect (take n (drop k ops)) regs)\<rparr>)"
  using m
proof (induction n arbitrary: k regs)
  case 0
  then show ?case by simp
next
  case (Suc n)
  let ?s = "s\<lparr>st_pc := of_nat k, st_reg := Some regs\<rparr>"
  have k: "k < length ops" using Suc.prems(1) bound by simp
  have "k < 2 ^ 32" using Suc.prems(1) unat_lt_u32 [of "st_endOp s"] by simp
  then have uk: "unat (of_nat k :: u32) = k" by (simp add: unat_of_nat)
  have dr: "take (Suc n) (drop k ops) = ops ! k # take n (drop (Suc k) ops)"
    using k by (simp add: Cons_nth_drop_Suc [symmetric])
  let ?op = "ops ! k"
  have "chidb_dbm_op_handle d (?s\<lparr>st_pc := of_nat k + 1\<rparr>) ?op =
      Some (Inr (CHIDB_OK, d, ?s\<lparr>st_pc := of_nat k + 1, st_reg := Some (effect ?op regs)\<rparr>))"
    using straight_step [of "?s\<lparr>st_pc := of_nat k + 1\<rparr>" regs ?op d] Suc.prems dr by simp
  moreover have "arr_get (st_ops ?s) (uint (st_pc ?s)) = Some ?op"
    using ops k uint_of_unat [OF uk] by (simp add: arr_get_def)
  moreover have "st_pc ?s < st_endOp ?s" using Suc.prems(1) uk by (simp add: word_less_nat_alt)
  ultimately have "exec_loop d ?s = exec_loop d (s\<lparr>st_pc := of_nat (Suc k), st_reg := Some (effect ?op regs)\<rparr>)"
    by (subst exec_loop.simps) (simp add: add.commute)
  also have "\<dots> = exec_loop d (s\<lparr>st_pc := of_nat (Suc k + n),
      st_reg := Some (fold effect (take n (drop (Suc k) ops)) (effect ?op regs))\<rparr>)"
    by (rule Suc.IH) (use Suc.prems dr in simp_all)
  finally show ?case unfolding dr by simp
qed

text \<open>A run of a prepared statement: the registers get their values, no row is returned.\<close>

lemma prepared_exec:
  assumes "\<not> sq_explain q"
  shows "\<exists>s'. chidb_step d (prepared junk bt q) = Some (Inr (CHIDB_DONE, d, s')) \<and>
    st_reg s' = Some ([Reg_Int32 5, Reg_String (sq_text q), Reg_Null] @ replicate 7 Reg_Unspecified) \<and>
    st_db_bt s' = bt"
proof -
  let ?s = "prepared junk bt q" and ?regs = "replicate 10 Reg_Unspecified"
  let ?ops = "codegen_ops (sq_text q) @ replicate 37 noop"
  let ?out = "[Reg_Int32 5, Reg_String (sq_text q), Reg_Null] @ replicate 7 Reg_Unspecified"
  have regs: "?regs = Reg_Unspecified # Reg_Unspecified # Reg_Unspecified # replicate 7 Reg_Unspecified"
    by (simp add: replicate_Suc [symmetric] del: replicate_Suc)
  have take: "take 12 (drop 0 ?ops) = butlast (codegen_ops (sq_text q))" by (simp add: codegen_ops_def)
  have str: "\<forall>op \<in> set (butlast (codegen_ops (sq_text q))). straight_op 10 op"
    by (simp add: codegen_ops_def straight_op_def)
  have fold: "fold effect (butlast (codegen_ops (sq_text q))) ?regs = ?out"
    unfolding regs by (simp add: effect_def codegen_ops_def)
  have s: "?s\<lparr>st_pc := of_nat 0, st_reg := Some ?regs\<rparr> = ?s" by (simp add: prepared_def fresh_stmt_def)
  have "exec_loop d (?s\<lparr>st_pc := of_nat 0, st_reg := Some ?regs\<rparr>) = exec_loop d (?s\<lparr>st_pc := of_nat (0 + 12),
      st_reg := Some (fold effect (take 12 (drop 0 ?ops)) ?regs)\<rparr>)"
    by (rule straight_run) (use str take in \<open>simp_all add: prepared_def fresh_stmt_def del: take_append\<close>)
  then have "exec_loop d ?s = exec_loop d (?s\<lparr>st_pc := 12, st_reg := Some ?out\<rparr>)" unfolding s take fold by simp
  also have "\<dots> = Some (Inr (CHIDB_OK, d, ?s\<lparr>st_pc := 14, st_reg := Some ?out\<rparr>))"
    by (subst exec_loop.simps, subst exec_loop.simps)
      (simp add: prepared_def fresh_stmt_def arr_get_def codegen_ops_def chidb_dbm_op_handle_def
        chidb_dbm_op_Halt_def ok_def)
  finally show ?thesis
    using assms by (simp add: chidb_step_def chidb_stmt_exec_def prepared_def fresh_stmt_def)
qed

text \<open>An explained statement gives its thirteen instructions, one a row.\<close>

lemma prepared_explain:
  assumes "sq_explain q"
  shows "step_rows explain_row 14 d (prepared junk bt q) =
    Some (map (\<lambda>i. op_row i (codegen_ops (sq_text q) ! i)) [0..<13])"
proof -
  have "step_rows explain_row 14 d (prepared junk bt q) = Some (map (\<lambda>i. op_row i
      (the (st_ops (prepared junk bt q)) ! i)) [unat (st_pc (prepared junk bt q))..<unat (st_endOp (prepared junk bt q))])"
    by (rule explain_rows [OF prepared_ok _ _ _, where n = 13])
      (use assms in \<open>simp_all add: prepared_def fresh_stmt_def\<close>)
  then show ?thesis by (simp add: prepared_def fresh_stmt_def nth_append)
qed

end
