(* ===== verification/DbmFileCorrect.thy ===== *)
theory DbmFileCorrect
  imports DbmFile ApiCorrect
begin

section \<open>Program files\<close>

text \<open>
  The tokenizer finds the tokens of a line, the parser of instructions undoes the printing of an
  instruction by \<open>chidb_stmt_op_print\<close>, and a file of printed instructions loads as the
  program it was printed from.
\<close>

subsection \<open>Tokens\<close>

datatype token = Plain string | Quoted string

fun token_text :: "token \<Rightarrow> string" where
  "token_text (Plain w) = w"
| "token_text (Quoted q) = q"

text \<open>What stands before the end of a token, and the end when it is not a space.\<close>

fun token_front :: "token \<Rightarrow> string" where
  "token_front (Plain w) = w"
| "token_front (Quoted q) = Quote # q"

fun token_back :: "token \<Rightarrow> string" where
  "token_back (Plain w) = []"
| "token_back (Quoted q) = [Quote]"

fun token_ok :: "token \<Rightarrow> bool" where
  "token_ok (Plain w) \<longleftrightarrow> w \<noteq> [] \<and> hd w \<noteq> Quote \<and> (\<forall>c \<in> set w. \<not> isspace c \<and> c \<noteq> Nul)"
| "token_ok (Quoted q) \<longleftrightarrow> (\<forall>c \<in> set q. c \<noteq> Quote \<and> c \<noteq> Nul)"

text \<open>A line is a list of tokens with the spaces behind them, and its block after the first pass.\<close>

fun line_of :: "(token \<times> string) list \<Rightarrow> string" where
  "line_of [] = []"
| "line_of ((t, sp) # is) = token_front t @ (token_back t @ sp) @ line_of is"

fun marked :: "(token \<times> string) list \<Rightarrow> string" where
  "marked [] = []"
| "marked ((t, sp) # is) =
     token_front t @ (if token_back t @ sp = [] then [] else Nul # tl (token_back t @ sp)) @ marked is"

fun line_ok :: "(token \<times> string) list \<Rightarrow> bool" where
  "line_ok [] \<longleftrightarrow> True"
| "line_ok ((t, sp) # is) \<longleftrightarrow>
     token_ok t \<and> (\<forall>c \<in> set sp. isspace c) \<and> (is = [] \<or> token_back t @ sp \<noteq> []) \<and> line_ok is"

lemma isspace_simps [simp]: "\<not> isspace Nul" "\<not> isspace Quote" "isspace CHR '' ''" "isspace Newline"
  by (simp_all add: isspace_def)

lemma span_append:
  assumes "\<forall>x \<in> set a. P x" and "b = [] \<or> \<not> P (hd b)"
  shows "takeWhile P (a @ b) = a" and "dropWhile P (a @ b) = b"
  using assms by (induction a) (cases b; auto)+

lemma line_start: "line_ok is \<Longrightarrow> line_of is = [] \<or> \<not> isspace (hd (line_of is))"
  by (cases "is" rule: line_of.cases; cases "fst (hd is)") auto

lemma marked_start: "line_ok is \<Longrightarrow> \<not> isspace (hd (marked is @ Nul # z))"
  by (cases "is" rule: line_of.cases; cases "fst (hd is)") auto

lemma mark_line: "line_ok is \<Longrightarrow> mark_tokens (line_of is) = (length is, marked is)"
proof (induction "is" rule: line_of.induct)
  case 1
  show ?case by (simp add: mark_tokens.simps)
next
  case (2 t sp "is")
  then have IH: "mark_tokens (line_of is) = (length is, marked is)" and t: "token_ok t"
    and sp: "\<forall>c \<in> set sp. isspace c" and "next": "is = [] \<or> token_back t @ sp \<noteq> []" and ok: "line_ok is"
    by simp_all
  have rest: "takeWhile isspace (xs @ line_of is) = xs" "dropWhile isspace (xs @ line_of is) = line_of is"
    if "\<forall>c \<in> set xs. isspace c" for xs
    using span_append [OF that, of "line_of is"] line_start [OF ok] by auto
  have tl_sp: "\<forall>c \<in> set (tl sp). isspace c" using sp by (cases sp) auto
  show ?case
  proof (cases t)
    case (Plain w)
    have w: "\<forall>c \<in> set w. \<not> isspace c" "w \<noteq> []" "hd w \<noteq> Quote" using t Plain by auto
    have "sp @ line_of is = [] \<or> \<not> \<not> isspace (hd (sp @ line_of is))"
      using sp "next" Plain by (cases sp) auto
    from span_append [OF w(1) this] show ?thesis
      using w "next" IH rest [OF tl_sp] Plain
      by (cases sp) (simp_all add: mark_tokens.simps [of w] mark_tokens.simps [of "w @ _"] token_stop_def token_head_def token_body_def)
  next
    case (Quoted q)
    have "\<forall>c \<in> set q. \<not> c = Quote" using t Quoted by auto
    from span_append [OF this, of "Quote # sp @ line_of is"] show ?thesis
      using IH rest [OF sp] Quoted
      by (simp add: mark_tokens.simps [of "Quote # _"] token_stop_def token_head_def token_body_def)
  qed
qed

lemma token_end_append:
  "\<forall>c \<in> set a. c \<noteq> Nul \<and> \<not> stop c \<Longrightarrow> token_end stop (a @ Nul # b) = Some (Nul # b)"
  by (induction a) auto

lemma skip_spaces_append:
  "\<forall>c \<in> set a. isspace c \<Longrightarrow> b \<noteq> [] \<Longrightarrow> \<not> isspace (hd b) \<Longrightarrow> skip_spaces (a @ b) = Some b"
  by (induction a) (cases b; auto)+

lemma c_string_append: "\<forall>c \<in> set a. c \<noteq> Nul \<Longrightarrow> c_string (a @ Nul # b) = a"
  unfolding c_string_def by (rule span_append(1)) auto

lemma read_line_tokens:
  assumes "z \<noteq> []" and "\<not> isspace (hd z)"
  shows "line_ok is \<Longrightarrow> \<exists>ps. read_tokens (length is) (marked is @ Nul # z) = Some ps \<and>
    map c_string ps = map (token_text \<circ> fst) is \<and> [] \<notin> set ps"
proof (induction "is" rule: line_of.induct)
  case (2 t sp "is")
  let ?b = "if token_back t @ sp = [] then [] else tl (token_back t @ sp)"
  let ?X = "if token_back t @ sp = [] then z else marked is @ Nul # z"
  have t: "token_ok t" and sp: "\<forall>c \<in> set sp. isspace c" and last: "is = [] \<or> token_back t @ sp \<noteq> []"
    and ok: "line_ok is" using 2 by simp_all
  have buf: "marked ((t, sp) # is) @ Nul # z = token_front t @ Nul # ?b @ ?X"
    using last by auto
  have "\<forall>c \<in> set ?b. isspace c" using sp by (cases t; cases sp) auto
  then have skip: "skip_spaces (?b @ ?X) = Some ?X"
    by (rule skip_spaces_append) (use assms marked_start [OF ok] in auto)
  obtain ps where ps: "read_tokens (length is) ?X = Some ps" "map c_string ps = map (token_text \<circ> fst) is" "[] \<notin> set ps"
    using 2 last by auto
  have s: "hd (token_front t @ Nul # ?b @ ?X) = Quote \<longleftrightarrow> (\<exists>q. t = Quoted q)"
    using t by (cases t) auto
  have body: "token_body (token_front t @ Nul # ?b @ ?X) = token_text t @ Nul # ?b @ ?X"
    using s by (cases t) (auto simp: token_body_def)
  have "\<forall>c \<in> set (token_text t). c \<noteq> Nul \<and> \<not> token_stop (hd (token_front t @ Nul # ?b @ ?X)) c"
    using t s by (cases t) (auto simp: token_stop_def)
  from token_end_append [OF this] have stop:
    "token_end (token_stop (hd (token_front t @ Nul # ?b @ ?X))) (token_text t @ Nul # ?b @ ?X) = Some (Nul # ?b @ ?X)" .
  have "\<forall>c \<in> set (token_text t). c \<noteq> Nul" using t by (cases t) auto
  from c_string_append [OF this] have "c_string (token_text t @ Nul # ?b @ ?X) = token_text t" .
  then show ?case unfolding buf using skip ps stop body by simp
qed simp

text \<open>The memory behind a line is harmless when its first byte is no space.\<close>

definition slack_ok :: "(nat \<Rightarrow> string) \<Rightarrow> bool" where
  "slack_ok slack \<longleftrightarrow> (\<forall>n. slack n \<noteq> [] \<and> \<not> isspace (hd (slack n)))"

lemma tokenize_line:
  assumes "slack_ok slack" and "line_ok is"
  obtains ps where "chidb_tokenize slack (line_of is) = Some ps"
    and "map c_string ps = map (token_text \<circ> fst) is" and "[] \<notin> set ps"
proof -
  have "dropWhile isspace (line_of is) = line_of is"
    using line_start [OF assms(2)] by (cases "line_of is") auto
  then show ?thesis
    using that read_line_tokens [OF _ _ assms(2), of "slack (length (line_of is) + 1)"] assms(1) mark_line [OF assms(2)]
    by (auto simp: chidb_tokenize_def slack_ok_def)
qed

text \<open>Without memory behind the line the last step is out of the block.\<close>

lemma tokenize_overrun:
  assumes "token_ok (Plain w)" and "slack (length w + 1) = []"
  shows "chidb_tokenize slack w = None"
proof -
  have "\<forall>c \<in> set w. c \<noteq> Nul \<and> \<not> isspace c" "w \<noteq> []" "hd w \<noteq> Quote" using assms(1) by auto
  moreover have "dropWhile isspace w = w" using calculation by (cases w) auto
  moreover have "mark_tokens w = (1, w)" using mark_line [of "[(Plain w, [])]"] assms(1) by simp
  moreover have "token_stop (hd (w @ [Nul])) = isspace" "token_body (w @ [Nul]) = w @ [Nul]"
    using calculation by (auto simp: token_stop_def token_body_def)
  ultimately show ?thesis
    using token_end_append [of w isspace "[]"] assms(2) by (simp add: chidb_tokenize_def)
qed

subsection \<open>Numbers\<close>

lemma of_char_digit: "d < 10 \<Longrightarrow> (of_char (char_of (48 + d) :: char) :: nat) = 48 + d"
  by simp

lemma show_nat_digits: "\<forall>c \<in> set (show_nat n). isdigit c" and show_nat_nonempty: "show_nat n \<noteq> []"
proof (induction n rule: show_nat.induct)
  case (1 n)
  have d: "isdigit (char_of (48 + d))" if "d < 10" for d :: nat using that by (simp add: isdigit_def)
  show "\<forall>c \<in> set (show_nat n). isdigit c" "show_nat n \<noteq> []"
    using 1 d by (subst show_nat.simps, simp)+
qed

definition digits_fold :: "string \<Rightarrow> nat" where
  "digits_fold s = foldl (\<lambda>n c. 10 * n + (of_char c - 48)) 0 s"

lemma digits_fold_show_nat: "digits_fold (show_nat n) = n"
proof (induction n rule: show_nat.induct)
  case (1 n)
  show ?case using 1 by (subst show_nat.simps) (simp add: digits_fold_def)
qed

lemma digits_value_show_nat: "digits_value (show_nat n) = n"
  using show_nat_digits [of n] digits_fold_show_nat [of n]
  by (simp add: digits_value_def digits_fold_def takeWhile_eq_all_conv [THEN iffD2])

lemma digit_not: "isdigit c \<Longrightarrow> \<not> isspace c \<and> c \<noteq> CHR ''-'' \<and> c \<noteq> CHR ''+'' \<and> c \<noteq> CHR ''_'' \<and> c \<noteq> Quote \<and> c \<noteq> Nul"
  by (auto simp: isdigit_def isspace_def)

lemma atoi_show_int: "atoi (show_int w) = Some w"
proof -
  have r: "- (2 ^ 31) \<le> sint w" "sint w < 2 ^ 31" using sint_ge [of w] sint_lt [of w] by simp_all
  show ?thesis
  proof (cases "sint w < 0")
    case True
    then show ?thesis
      using r by (simp add: atoi_def show_int_def digits_value_show_nat isspace_def)
  next
    case False
    obtain c cs where c: "show_nat (nat (sint w)) = c # cs" using show_nat_nonempty by (cases "show_nat (nat (sint w))") auto
    then have "isdigit c" using show_nat_digits [of "nat (sint w)"] by simp
    then show ?thesis
      using r False digit_not [of c] c digits_value_show_nat [of "nat (sint w)"] by (simp add: atoi_def show_int_def)
  qed
qed

lemma show_int_chars: "\<forall>c \<in> set (show_int w). \<not> isspace c \<and> c \<noteq> Quote \<and> c \<noteq> Nul \<and> c \<noteq> CHR ''_''"
  using show_nat_digits digit_not by (auto simp: show_int_def isspace_def)

lemma show_int_nonempty: "show_int w \<noteq> []"
  using show_nat_nonempty by (simp add: show_int_def)

lemma hd_c_string: "c_string p \<noteq> [] \<Longrightarrow> hd p = hd (c_string p)"
  by (cases p) (auto simp: c_string_def split: if_splits)

lemma int_operand_show_int: "c_string p = show_int w \<Longrightarrow> int_operand p = Some w"
proof -
  assume p: "c_string p = show_int w"
  then have "hd p = hd (show_int w)" using hd_c_string [of p] show_int_nonempty by simp
  then have "hd p \<noteq> CHR ''_''" using show_int_chars [of w] show_int_nonempty [of w] by (metis list.set_sel(1))
  then show ?thesis using p by (simp add: int_operand_def atoi_show_int)
qed

subsection \<open>Instructions\<close>

lemma unat_u8: "unat (b :: u8) mod 256 = unat b"
  using unsigned_less [of b, where ?'a = nat] by simp

lemma bytes_of_text_of [simp]: "bytes_of (text_of bs) = bs"
  by (induction bs) (simp_all add: bytes_of_def text_of_def unat_u8)

lemma char_of_u8_eq: "char_of (unat (b :: u8)) = c \<longleftrightarrow> b = of_nat (of_char c)"
proof -
  have "(of_char c :: nat) < 256" by simp
  then have "unat (of_nat (of_char c) :: u8) = of_char c" by (simp add: unat_of_nat)
  then show ?thesis
    using unat_u8 [of b] by (auto simp: word_unat_eq_iff char_of_eq_iff take_bit_eq_mod)
qed

text \<open>The texts that are one token of a line between their quotes: no zero byte, no quote and no line
  end. Of them, those with a leading underscore are read back as the null pointer.\<close>

definition text_plain :: "bytes \<Rightarrow> bool" where
  "text_plain s \<longleftrightarrow> 0 \<notin> set s \<and> 34 \<notin> set s \<and> 10 \<notin> set s"

definition plain_op :: "dbm_op \<Rightarrow> bool" where
  "plain_op op \<longleftrightarrow> (case op_p4 op of None \<Rightarrow> True | Some s \<Rightarrow> text_plain s)"

definition text_ok :: "bytes \<Rightarrow> bool" where
  "text_ok s \<longleftrightarrow> text_plain s \<and> (s = [] \<or> hd s \<noteq> 95)"

definition op_ok :: "dbm_op \<Rightarrow> bool" where
  "op_ok op \<longleftrightarrow> (case op_p4 op of None \<Rightarrow> True | Some s \<Rightarrow> text_ok s)"

lemma op_ok_plain: "op_ok op \<Longrightarrow> plain_op op"
  by (auto simp: op_ok_def plain_op_def text_ok_def split: option.splits)

lemma text_plain_chars:
  "text_plain s \<Longrightarrow> \<forall>c \<in> set (text_of s). c \<noteq> Quote \<and> c \<noteq> Nul \<and> c \<noteq> Newline"
  by (auto simp: text_plain_def text_of_def char_of_u8_eq)

lemma text_of_hd: "s \<noteq> [] \<Longrightarrow> hd (text_of s) = CHR ''_'' \<longleftrightarrow> hd s = 95"
  by (cases s) (auto simp: text_of_def char_of_u8_eq)

text \<open>The tokens of a printed instruction. A missing text is printed as \<open>NULL\<close>, which reads back as
  that text.\<close>

definition p4_token :: "bytes option \<Rightarrow> token" where
  "p4_token p4 = (case p4 of None \<Rightarrow> Plain ''NULL'' | Some s \<Rightarrow> Quoted (text_of s))"

definition pad :: "nat \<Rightarrow> string \<Rightarrow> string" where
  "pad n s = replicate (n - length s) CHR '' '' @ '' ''"

definition op_items :: "dbm_op \<Rightarrow> (token \<times> string) list" where
  "op_items op =
     [(Plain (op_str (op_code op)), pad 15 (op_str (op_code op))),
      (Plain (show_int (op_p1 op)), pad 6 (show_int (op_p1 op))),
      (Plain (show_int (op_p2 op)), pad 6 (show_int (op_p2 op))),
      (Plain (show_int (op_p3 op)), pad 6 (show_int (op_p3 op))),
      (p4_token (op_p4 op), [])]"

definition printed_op :: "dbm_op \<Rightarrow> dbm_op" where
  "printed_op op = op\<lparr>op_p4 := Some (case op_p4 op of None \<Rightarrow> bytes_of ''NULL'' | Some s \<Rightarrow> s)\<rparr>"

text \<open>What comes back from the line of an instruction.\<close>

definition read_op :: "dbm_op \<Rightarrow> dbm_op" where
  "read_op op = op\<lparr>op_p4 := (case op_p4 op of None \<Rightarrow> Some (bytes_of ''NULL'')
     | Some s \<Rightarrow> if s \<noteq> [] \<and> hd s = 95 then None else Some s)\<rparr>"

lemma read_op_ok: "op_ok op \<Longrightarrow> read_op op = printed_op op"
  by (auto simp: read_op_def printed_op_def op_ok_def text_ok_def split: option.splits)

lemma op_print_line: "chidb_stmt_op_print op = line_of (op_items op) @ [Newline]"
  by (auto simp: chidb_stmt_op_print_def op_items_def pad_right_def pad_def p4_token_def split: option.split)

lemma op_str_chars: "op_str c \<noteq> [] \<and> hd (op_str c) \<noteq> Quote \<and> (\<forall>x \<in> set (op_str c). \<not> isspace x \<and> x \<noteq> Nul \<and> x \<noteq> Newline)"
  by (cases c) (simp_all add: isspace_def)

lemma pad_spaces: "\<forall>c \<in> set (pad n s). isspace c" and pad_nonempty: "pad n s \<noteq> []"
  by (auto simp: pad_def)

lemma op_items_ok: "plain_op op \<Longrightarrow> line_ok (op_items op)"
proof -
  assume ok: "plain_op op"
  have "token_ok (Plain (show_int w))" for w
    using show_int_chars [of w] show_int_nonempty [of w] by (metis token_ok.simps(1) list.set_sel(1))
  moreover have "token_ok (p4_token (op_p4 op))"
    using ok text_plain_chars by (auto simp: plain_op_def p4_token_def isspace_def split: option.splits)
  ultimately show ?thesis
    using op_str_chars [of "op_code op"] pad_spaces pad_nonempty by (simp add: op_items_def del: token_ok.simps) auto
qed

lemma parse_line:
  assumes slack: "slack_ok slack" and ok: "plain_op op"
  shows "chidb_dbm_file_parse_instruction slack (line_of (op_items op)) = Some (CHIDB_OK, Some (read_op op))"
proof -
  obtain ps where tok: "chidb_tokenize slack (line_of (op_items op)) = Some ps"
    and m: "map c_string ps = map (token_text \<circ> fst) (op_items op)" and ne: "[] \<notin> set ps"
    using tokenize_line [OF slack op_items_ok [OF ok]] by blast
  then obtain q0 q1 q2 q3 q4 where ps: "ps = [q0, q1, q2, q3, q4]"
    by (auto simp: op_items_def map_eq_Cons_conv)
  have q: "c_string q0 = op_str (op_code op)" "c_string q1 = show_int (op_p1 op)"
    "c_string q2 = show_int (op_p2 op)" "c_string q3 = show_int (op_p3 op)"
    "c_string q4 = token_text (p4_token (op_p4 op))"
    using m ps by (simp_all add: op_items_def)
  have "text_operand q4 = op_p4 (read_op op)"
  proof (cases "op_p4 op")
    case None
    then show ?thesis using q(5) hd_c_string [of q4] by (simp add: text_operand_def read_op_def p4_token_def)
  next
    case (Some s)
    then have s: "text_plain s" "c_string q4 = text_of s" using ok q(5) by (simp_all add: plain_op_def p4_token_def)
    have "hd q4 = CHR ''_'' \<longleftrightarrow> s \<noteq> [] \<and> hd s = 95"
    proof (cases "s = []")
      case True
      then show ?thesis using s(2) ne ps by (cases q4) (auto simp: c_string_def text_of_def split: if_splits)
    next
      case False
      then show ?thesis using text_of_hd [OF False] hd_c_string [of q4] s(2) by (simp add: text_of_def)
    qed
    then show ?thesis using Some s(2) by (simp add: text_operand_def read_op_def)
  qed
  moreover have "0 \<le> str_to_opcode (opcode_to_str (op_code op))" by (simp add: str_to_opcode_name)
  ultimately show ?thesis
    using tok ps q int_operand_show_int str_to_opcode_name [of "op_code op"]
    by (simp add: chidb_dbm_file_parse_instruction_def opcode_to_str_def read_op_def)
qed

lemma parse_printed:
  assumes "slack_ok slack" and "op_ok op"
  shows "chidb_dbm_file_parse_instruction slack (line_of (op_items op)) = Some (CHIDB_OK, Some (printed_op op))"
  using parse_line [OF assms(1) op_ok_plain [OF assms(2)]] read_op_ok [OF assms(2)] by simp

text \<open>The instructions whose names start like a keyword of SQL are taken for SQL.\<close>

lemma is_sql_instruction:
  "chidb_dbm_is_sql (op_str c @ pad 15 (op_str c) @ x) \<longleftrightarrow> c \<in> {Op_Insert, Op_CreateTable, Op_CreateIndex}"
  by (cases c) (simp_all add: chidb_dbm_is_sql_def pad_def isspace_def to_upper_def Let_def
    char_of_eq_iff take_bit_eq_mod)

lemma is_sql_printed:
  "chidb_dbm_is_sql (line_of (op_items op)) \<longleftrightarrow> op_code op \<in> {Op_Insert, Op_CreateTable, Op_CreateIndex}"
  using is_sql_instruction by (simp add: op_items_def)

subsection \<open>Files of instructions\<close>

lemma fgets_line:
  assumes "Newline \<notin> set l" and "length l < 255"
  shows "fgets (l @ Newline # f) = (l @ [Newline], f)"
proof -
  have "255 - length l = Suc (254 - length l)" using assms(2) by simp
  then have t: "take 255 (l @ Newline # f) = l @ Newline # take (254 - length l) f"
    using assms(2) by simp
  have "takeWhile (\<lambda>c. c \<noteq> Newline) (take 255 (l @ Newline # f)) = l"
    unfolding t by (rule span_append(1)) (use assms(1) in auto)
  moreover have "length l < length (take 255 (l @ Newline # f))" using assms(2) by auto
  ultimately show ?thesis by (simp add: fgets_def MAX_LINE_LEN_def Let_def del: take_append length_take)
qed

lemma read_line_rep:
  assumes "\<forall>c \<in> set l. c \<noteq> Newline \<and> c \<noteq> Nul" and "length l < 255"
  shows "chidb_dbm_file_read_line (l @ Newline # f) =
    (let s = dropWhile isspace l in
     if s = [] then LINE_SKIP else if hd s = CHR ''#'' then LINE_SKIP
     else if take 2 s = ''%%'' then LINE_NEW_SECTION else LINE_OK, l, f)"
proof -
  have "fgets (l @ Newline # f) = (l @ [Newline], f)" by (rule fgets_line) (use assms in auto)
  moreover have "takeWhile (\<lambda>c. c \<noteq> Newline) (c_string (l @ [Newline])) = l"
  proof -
    have "c_string (l @ [Newline]) = l @ [Newline]"
      unfolding c_string_def using assms(1) by (simp add: takeWhile_eq_all_conv)
    then show ?thesis using assms(1) span_append(1) [of l "\<lambda>c. c \<noteq> Newline" "[Newline]"] by simp
  qed
  ultimately show ?thesis by (simp add: chidb_dbm_file_read_line_def Let_def)
qed

lemma op_line_chars:
  assumes "op_ok op"
  shows "\<forall>c \<in> set (line_of (op_items op)). c \<noteq> Newline \<and> c \<noteq> Nul"
proof -
  have "\<forall>c \<in> set (pad n s). c \<noteq> Newline \<and> c \<noteq> Nul" for n s by (auto simp: pad_def)
  moreover have "\<forall>c \<in> set (show_int w). c \<noteq> Newline \<and> c \<noteq> Nul" for w
    using show_int_chars isspace_simps(4) by metis
  moreover have "\<forall>c \<in> set (token_front (p4_token (op_p4 op)) @ token_back (p4_token (op_p4 op))). c \<noteq> Newline \<and> c \<noteq> Nul"
    using assms text_plain_chars by (cases "op_p4 op") (auto simp: p4_token_def op_ok_def text_ok_def)
  moreover have "\<forall>c \<in> set (op_str (op_code op)). c \<noteq> Newline \<and> c \<noteq> Nul"
    using op_str_chars by blast
  ultimately show ?thesis by (simp add: op_items_def ball_Un)
qed

lemma op_str_start: "hd (op_str c) \<noteq> CHR ''#'' \<and> hd (op_str c) \<noteq> CHR ''%''"
  by (cases c) simp_all

lemma read_op_line:
  assumes "op_ok op" and "length (chidb_stmt_op_print op) \<le> 255"
  shows "chidb_dbm_file_read_line (chidb_stmt_op_print op @ f) = (LINE_OK, line_of (op_items op), f)"
proof -
  obtain x xs where x: "op_str (op_code op) = x # xs" "\<not> isspace x"
    using op_str_chars [of "op_code op"] by (cases "op_str (op_code op)") auto
  then obtain ys where l: "line_of (op_items op) = x # ys" by (simp add: op_items_def)
  have "length (line_of (op_items op)) < 255" using assms(2) by (simp add: op_print_line)
  from read_line_rep [OF op_line_chars [OF assms(1)] this, of f] show ?thesis
    using x l op_str_start [of "op_code op"] by (simp add: op_print_line)
qed

text \<open>A statement holds a program when its array starts with it and the end mark is behind it.\<close>

definition holds :: "dbm_stmt \<Rightarrow> dbm_op list \<Rightarrow> bool" where
  "holds s ops \<longleftrightarrow> (\<exists>xs. st_ops s = Some xs \<and> length xs = unat (st_nOps s) \<and> length ops \<le> length xs \<and>
     take (length ops) xs = ops \<and> unat (st_endOp s) = length ops)"

text \<open>Storing instructions changes the program of a statement only.\<close>

definition same_but_program :: "dbm_stmt \<Rightarrow> dbm_stmt \<Rightarrow> bool" where
  "same_but_program s s' \<longleftrightarrow>
     s' = s\<lparr>st_ops := st_ops s', st_nOps := st_nOps s', st_endOp := st_endOp s'\<rparr>"

lemma same_but_program_refl [simp]: "same_but_program s s"
  by (simp add: same_but_program_def)

lemma same_but_program_trans: "same_but_program s s' \<Longrightarrow> same_but_program s' s'' \<Longrightarrow> same_but_program s s''"
  by (cases s; cases s'; cases s'') (simp add: same_but_program_def)

lemma same_but_programD:
  "same_but_program s s' \<Longrightarrow> st_mem s' = st_mem s \<and> st_pc s' = st_pc s \<and> st_reg s' = st_reg s \<and> st_nReg s' = st_nReg s \<and>
   st_db_bt s' = st_db_bt s"
  by (cases s; cases s') (simp add: same_but_program_def)

lemma fresh_stmt_holds: "holds (fresh_stmt junk bt) []"
  by (simp add: holds_def fresh_stmt_def)

lemma set_op_holds:
  assumes h: "holds s ops" and n: "length ops < 2 ^ 31" "length ops < st_mem s"
  obtains s' where "chidb_stmt_set_op s op (of_nat (length ops)) = Some (CHIDB_OK, s')"
    and "holds s' (ops @ [op])" and "same_but_program s s'"
proof -
  let ?n = "length ops"
  obtain xs where xs: "st_ops s = Some xs" "length xs = unat (st_nOps s)" "?n \<le> length xs"
    "take ?n xs = ops" "unat (st_endOp s) = ?n" using h by (auto simp: holds_def)
  have un: "unat (of_nat ?n :: u32) = ?n" "unat (of_nat (Suc ?n) :: u32) = Suc ?n"
    using n(1) by (intro unat_of_nat_small; simp)+
  have un1: "unat (of_nat ?n + 1 :: u32) = Suc ?n" using un(2) by (simp add: add.commute)
  have end': "st_endOp s = of_nat ?n" using xs(5) un(1) by (simp add: word_unat_eq_iff)
  obtain ys where ys: "length ys = unat (st_nOps (if st_nOps s \<le> of_nat ?n then s\<lparr>st_nOps := of_nat ?n + 1\<rparr> else s))"
    "?n < length ys" "take ?n ys = ops" and
    r: "(if st_nOps s \<le> of_nat ?n then realloc_ops s (of_nat ?n + 1) else Some (CHIDB_OK, s)) =
      Some (CHIDB_OK, (if st_nOps s \<le> of_nat ?n then s\<lparr>st_nOps := of_nat ?n + 1\<rparr> else s)\<lparr>st_ops := Some ys\<rparr>)"
  proof (cases "st_nOps s \<le> of_nat ?n")
    case True
    then have "length xs \<le> ?n" using xs(2) un(1) by (simp add: word_le_nat_alt)
    then have l: "length xs = ?n" using xs(3) by simp
    then have "xs = ops" using xs(4) by simp
    have "realloc_ops s (of_nat ?n + 1) = Some (CHIDB_OK, s\<lparr>st_nOps := of_nat ?n + 1, st_ops := Some (ops @ [noop])\<rparr>)"
      using n un1 xs(1,2) l \<open>xs = ops\<close> by (auto simp: realloc_ops_def realloc_array_def unat_eq_0)
    then show ?thesis using True that [of "ops @ [noop]"] un1 by simp
  next
    case False
    then have "?n < length xs" using xs(2) un(1) by (simp add: word_le_nat_alt)
    then show ?thesis using False that [of xs] xs by simp
  qed
  let ?s = "(if st_nOps s \<le> of_nat ?n then s\<lparr>st_nOps := of_nat ?n + 1\<rparr> else s)\<lparr>st_ops := Some (ys[?n := op]), st_endOp := of_nat (Suc ?n)\<rparr>"
  have "uint (of_nat ?n :: u32) = int ?n" using un(1) by (rule uint_of_unat)
  then have "chidb_stmt_set_op s op (of_nat ?n) = Some (CHIDB_OK, ?s)"
    using r ys(2) end' by (simp add: chidb_stmt_set_op_def arr_set_def)
  moreover have "holds ?s (ops @ [op])"
    using ys un(2) by (auto simp: holds_def take_Suc_conv_app_nth simp del: of_nat_Suc)
  moreover have "same_but_program s ?s" by (simp add: same_but_program_def)
  ultimately show ?thesis by (rule that)
qed

definition program_text :: "dbm_op list \<Rightarrow> string" where
  "program_text ops = concat (map chidb_stmt_op_print ops)"

definition program_of :: "dbm_stmt \<Rightarrow> dbm_op list" where
  "program_of s = take (unat (st_endOp s)) (the (st_ops s))"

lemma holds_program: "holds s ops \<Longrightarrow> program_of s = ops"
  by (auto simp: holds_def program_of_def)

definition file_op_ok :: "dbm_op \<Rightarrow> bool" where
  "file_op_ok op \<longleftrightarrow> op_ok op \<and> length (chidb_stmt_op_print op) \<le> 255"

definition dbm_program :: "dbm_op list \<Rightarrow> bool" where
  "dbm_program ops \<longleftrightarrow> ops = [] \<or> op_code (hd ops) \<notin> {Op_Insert, Op_CreateTable, Op_CreateIndex}"

lemma load_op_line:
  assumes "slack_ok (en_slack en)" and "op_ok op" and "ls_section st = 1"
    and "ls_program_type st = DBM \<or> ls_program_type st = UNKNOWN \<and> dbm_program [op]"
    and "ls_opnum st = of_nat (length qs)" and "holds (df_stmt st) qs"
    and "length qs < 2 ^ 31" and "length qs < st_mem (df_stmt st)"
  obtains s where "load_line en d st LINE_OK (line_of (op_items op)) =
      Some (CHIDB_OK, d, st\<lparr>df_stmt := s, ls_program_type := DBM, ls_opnum := of_nat (length qs) + 1\<rparr>)"
    and "holds s (qs @ [printed_op op])" and "same_but_program (df_stmt st) s"
proof -
  obtain s where s: "chidb_stmt_set_op (df_stmt st) (printed_op op) (of_nat (length qs)) = Some (CHIDB_OK, s)"
    "holds s (qs @ [printed_op op])" "same_but_program (df_stmt st) s"
    using set_op_holds [OF assms(6-8)] by blast
  have "ls_program_type st = UNKNOWN \<Longrightarrow> \<not> chidb_dbm_is_sql (line_of (op_items op))"
    using assms(4) is_sql_printed [of op] by (auto simp: dbm_program_def)
  then have "load_line en d st LINE_OK (line_of (op_items op)) =
      Some (CHIDB_OK, d, st\<lparr>df_stmt := s, ls_program_type := DBM, ls_opnum := of_nat (length qs) + 1\<rparr>)"
    using parse_printed [OF assms(1,2)] assms(3-5) s(1)
    by (auto simp: load_line_def program_line_def LINE_OK_def LINE_NEW_SECTION_def)
  then show ?thesis using that s by blast
qed

lemma load_ops:
  assumes "slack_ok (en_slack en)"
  shows "list_all file_op_ok ops \<Longrightarrow> ls_section st = 1 \<Longrightarrow>
    ls_program_type st = DBM \<or> ls_program_type st = UNKNOWN \<and> dbm_program ops \<Longrightarrow>
    ls_opnum st = of_nat (length qs) \<Longrightarrow> holds (df_stmt st) qs \<Longrightarrow>
    length qs + length ops \<le> 2 ^ 31 \<Longrightarrow> length qs + length ops \<le> st_mem (df_stmt st) \<Longrightarrow>
    \<exists>st'. load_loop en d st (program_text ops) = Some (CHIDB_OK, d, st') \<and>
      holds (df_stmt st') (qs @ map printed_op ops) \<and> same_but_program (df_stmt st) (df_stmt st') \<and>
      df_delete st' = df_delete st \<and> df_dbfile st' = df_dbfile st"
proof (induction ops arbitrary: st qs)
  case Nil
  then show ?case by (simp add: load_loop.simps program_text_def case_prod_beta)
next
  case (Cons op ops)
  have op: "op_ok op" "length (chidb_stmt_op_print op) \<le> 255" using Cons.prems(1) by (auto simp: file_op_ok_def)
  have ty: "ls_program_type st = DBM \<or> ls_program_type st = UNKNOWN \<and> dbm_program [op]"
    using Cons.prems(3) by (auto simp: dbm_program_def)
  obtain s where s: "load_line en d st LINE_OK (line_of (op_items op)) =
      Some (CHIDB_OK, d, st\<lparr>df_stmt := s, ls_program_type := DBM, ls_opnum := of_nat (length qs) + 1\<rparr>)"
    "holds s (qs @ [printed_op op])" "same_but_program (df_stmt st) s"
    by (rule load_op_line [OF assms op(1) Cons.prems(2) ty Cons.prems(4,5)]) (use Cons.prems(6,7) in auto)
  let ?st = "st\<lparr>df_stmt := s, ls_program_type := DBM, ls_opnum := of_nat (length qs) + 1\<rparr>"
  have "program_text (op # ops) \<noteq> []" by (simp add: program_text_def op_print_line)
  moreover have "chidb_dbm_file_read_line (program_text (op # ops)) = (LINE_OK, line_of (op_items op), program_text ops)"
    using read_op_line [OF op, of "program_text ops"] by (simp add: program_text_def)
  ultimately have "load_loop en d st (program_text (op # ops)) = load_loop en d ?st (program_text ops)"
    using s(1) by (subst load_loop.simps) (simp add: LINE_OK_def LINE_SKIP_def)
  moreover have "\<exists>st'. load_loop en d ?st (program_text ops) = Some (CHIDB_OK, d, st') \<and>
      holds (df_stmt st') ((qs @ [printed_op op]) @ map printed_op ops) \<and> same_but_program (df_stmt ?st) (df_stmt st') \<and>
      df_delete st' = df_delete ?st \<and> df_dbfile st' = df_dbfile ?st"
    by (rule Cons.IH) (use Cons.prems s same_but_programD [OF s(3)] in \<open>auto simp: add.commute\<close>)
  ultimately show ?case using same_but_program_trans [OF s(3)] by auto
qed

text \<open>A file whose database is given: the mark of the section, and the program.\<close>

definition program_file :: "dbm_op list \<Rightarrow> bytes" where
  "program_file ops = bytes_of (''%%'' @ [Newline] @ program_text ops)"

lemma text_of_bytes_of [simp]: "text_of (bytes_of s) = s"
proof (induction s)
  case (Cons c s)
  have "(of_char c :: nat) < 256" by simp
  then have "unat (of_nat (of_char c) :: u8) = of_char c" by (simp add: unat_of_nat)
  then show ?case using Cons by (simp add: text_of_def bytes_of_def)
qed (simp add: text_of_def bytes_of_def)

lemma load_program_file:
  assumes "files d f = Some (program_file ops)" and "slack_ok (en_slack en)" and "list_all file_op_ok ops"
    and "dbm_program ops" and "length ops \<le> 2 ^ 31" and "max 50 (length ops) \<le> st_mem (df_stmt junk)"
  shows "\<exists>st. chidb_dbm_file_load en junk d f (Some bt) = Some (CHIDB_OK, d, st) \<and>
    holds (df_stmt st) (map printed_op ops) \<and> same_but_program (fresh_stmt (df_stmt junk) bt) (df_stmt st) \<and>
    df_delete st = df_delete junk \<and> df_dbfile st = df_dbfile junk"
proof -
  let ?en = "en\<lparr>en_dbfiledir := ''.'', en_genfiledir := ''.''\<rparr>"
  let ?st0 = "junk\<lparr>df_filename := base_name f, df_db := Some bt, df_copyOnUse := False, df_results := [],
     df_registers := [], ls_section := 0, ls_program_type := UNKNOWN, ls_opnum := 0\<rparr>"
  let ?st1 = "?st0\<lparr>df_stmt := fresh_stmt (df_stmt junk) bt, ls_section := 1\<rparr>"
  have "chidb_dbm_file_read_line (''%%'' @ Newline # program_text ops) = (LINE_NEW_SECTION, ''%%'', program_text ops)"
    by (subst read_line_rep) (simp_all add: isspace_def)
  moreover have "load_line ?en d ?st0 LINE_NEW_SECTION ''%%'' = Some (CHIDB_OK, d, ?st1)"
    using stmt_init_ok [of "df_stmt junk" bt] assms(6) by (simp add: load_line_def next_section_def)
  ultimately have one: "load_loop ?en d ?st0 (''%%'' @ Newline # program_text ops) = load_loop ?en d ?st1 (program_text ops)"
    by (subst load_loop.simps) (simp add: LINE_NEW_SECTION_def LINE_SKIP_def)
  have "\<exists>st'. load_loop ?en d ?st1 (program_text ops) = Some (CHIDB_OK, d, st') \<and>
      holds (df_stmt st') ([] @ map printed_op ops) \<and> same_but_program (df_stmt ?st1) (df_stmt st') \<and>
      df_delete st' = df_delete ?st1 \<and> df_dbfile st' = df_dbfile ?st1"
    by (rule load_ops) (use assms fresh_stmt_holds in \<open>simp_all add: fresh_stmt_def\<close>)
  then show ?thesis
    using one assms(1)
    by (simp add: chidb_dbm_file_load_def dbm_file_load_def program_file_def)
qed

end
