(* ===== verification/ShellCorrect.thy ===== *)
theory ShellCorrect
  imports Shell DbmFileCorrect
begin

section \<open>What the shell prints\<close>

text \<open>
  The composition of the shell with the library: a statement of SQL prints its header and no row,
  an EXPLAIN prints the program, and \<open>.dbmrun\<close> loads, runs and prints a program file.
\<close>

subsection \<open>Statements of SQL\<close>

text \<open>The header of a table with the given names of columns.\<close>

definition header_of :: "shell_ctx \<Rightarrow> string list \<Rightarrow> string" where
  "header_of ctx names =
     (if \<not> sh_header ctx then []
      else case sh_mode ctx of
        MODE_LIST \<Rightarrow> concat (map2 (\<lambda>i name. separator MODE_LIST i @ name) [0..<length names] names) @ line_end
      | MODE_COLUMN \<Rightarrow> concat (map2 (\<lambda>i name. separator MODE_COLUMN i @ column_cell name) [0..<length names] names) @
          line_end @ header_rule (length names))"

lemma upt_3: "[0..<3] = [0, 1, 2 :: nat]" and upt_6: "[0..<6] = [0, 1, 2, 3, 4, 5 :: nat]"
  by (simp_all add: upt_rec)

lemma suc_numbers: "Suc (Suc (Suc 0)) = 3" "Suc (Suc (Suc 3)) = 6"
  by simp_all

lemma prepared_header:
  "\<not> sq_explain q \<Longrightarrow> print_header ctx (prepared junk bt q) 3 = Some (header_of ctx [''id'', ''sql'', ''null''])"
  by (cases "sh_mode ctx") (simp_all add: print_header_def prepared_def chidb_column_name_def arr_get_def
      header_of_def upt_3 upt_rec separator_def suc_numbers)

lemma explained_header:
  "sq_explain q \<Longrightarrow> print_header ctx (prepared junk bt q) 6 =
    Some (header_of ctx [''addr'', ''opcode'', ''p1'', ''p2'', ''p3'', ''p4''])"
  by (cases "sh_mode ctx") (simp_all add: print_header_def prepared_def chidb_column_name_def
      header_of_def upt_6 upt_rec separator_def suc_numbers)

text \<open>After a run without an error the shell prints what the loop over the rows printed.\<close>

lemma handle_sql_rows:
  assumes "sh_db ctx = Some bt" and "en_parser en (bytes_of sql) = (CHIDB_OK, q)" and "50 \<le> st_mem (en_junk_stmt en)"
    and "print_header ctx (prepared (en_junk_stmt en) bt q) (nat (chidb_column_count (prepared (en_junk_stmt en) bt q))) = Some h"
    and "sql_rows (sh_mode ctx) (nat (chidb_column_count (prepared (en_junk_stmt en) bt q))) d (prepared (en_junk_stmt en) bt q) h =
      Some (Inr (CHIDB_DONE, d, s, out))" and "st_db_bt s = bt"
  shows "chidb_shell_handle_sql en d ctx sql = Some (Inr (CHIDB_OK, d, ctx, out))"
proof -
  have p: "chidb_prepare (en_parser en) (en_junk_stmt en) bt (bytes_of sql) = Some (CHIDB_OK, Some (prepared (en_junk_stmt en) bt q))"
    using assms(2,3) by (intro prepare_ok)
  have id: "ctx\<lparr>sh_db := Some bt\<rparr> = ctx" using assms(1) by (cases ctx) simp
  show ?thesis
    using assms(1,4-6) id
    by (simp add: chidb_shell_handle_sql_def p sql_message_def chidb_finalize_def chidb_stmt_free_def)
qed

lemma sql_statement:
  assumes "sh_db ctx = Some bt" and "en_parser en (bytes_of sql) = (CHIDB_OK, q)" and "\<not> sq_explain q"
    and "50 \<le> st_mem (en_junk_stmt en)"
  shows "chidb_shell_handle_sql en d ctx sql = Some (Inr (CHIDB_OK, d, ctx, header_of ctx [''id'', ''sql'', ''null'']))"
proof -
  let ?s = "prepared (en_junk_stmt en) bt q"
  obtain s' where s': "chidb_step d ?s = Some (Inr (CHIDB_DONE, d, s'))" "st_db_bt s' = bt"
    using prepared_exec [OF assms(3)] by blast
  have rows: "sql_rows mode n d ?s out = Some (Inr (CHIDB_DONE, d, s', out))" for mode n out
    using s'(1) by (subst sql_rows.simps) simp
  have "nat (chidb_column_count ?s) = 3" using assms(3) by (simp add: chidb_column_count_def prepared_def)
  then show ?thesis
    using assms s'(2) prepared_header [OF assms(3)] rows by (intro handle_sql_rows [where bt = bt and q = q]) auto
qed

subsection \<open>EXPLAIN\<close>

definition int_cell :: "shell_mode \<Rightarrow> u32 \<Rightarrow> string" where
  "int_cell mode w = (case mode of MODE_LIST \<Rightarrow> show_int w | MODE_COLUMN \<Rightarrow> pad_left 10 (show_int w))"

definition text_cell :: "shell_mode \<Rightarrow> bytes option \<Rightarrow> string" where
  "text_cell mode t = (case mode of
     MODE_LIST \<Rightarrow> (case t of None \<Rightarrow> [] | Some t \<Rightarrow> text_of t)
   | MODE_COLUMN \<Rightarrow> (case t of None \<Rightarrow> replicate 10 CHR '' '' | Some t \<Rightarrow> column_cell (text_of t)))"

text \<open>The line of an instruction: its number, its name and its operands.\<close>

definition explain_row_text :: "shell_mode \<Rightarrow> nat \<Rightarrow> dbm_op \<Rightarrow> string" where
  "explain_row_text mode i op =
     int_cell mode (of_nat i) @ separator mode 1 @ text_cell mode (Some (opcode_to_str (op_code op))) @
     separator mode 2 @ int_cell mode (op_p1 op) @ separator mode 3 @ int_cell mode (op_p2 op) @
     separator mode 4 @ int_cell mode (op_p3 op) @ separator mode 5 @ text_cell mode (op_p4 op)"

lemma text_type_small: "length t < 2 ^ 29 \<Longrightarrow> text_type t = 2 * int (length t) + 13"
proof -
  assume l: "length t < 2 ^ 29"
  have u: "unat (of_nat (2 * length t + 13) :: u32) = 2 * length t + 13" using l by (intro unat_of_nat_small) simp
  have "sint (of_nat (2 * length t + 13) :: u32) = int (2 * length t + 13)"
    using sint_eq_unat [of "of_nat (2 * length t + 13) :: u32"] l unfolding u by simp
  then show ?thesis by (simp add: text_type_def)
qed

lemma length_op_str: "length (opcode_to_str c) < 2 ^ 29"
  by (cases c) (simp_all add: opcode_to_str_def bytes_of_def)

lemma of_int_sint: "word_of_int (sint w) = (w :: u32)"
  by (metis scast_eq scast_id)

lemma print_int_column:
  "chidb_column_type s (int i) = Some 4 \<Longrightarrow> chidb_column_int s (int i) = Some (sint w) \<Longrightarrow>
   print_column mode s i = Some (int_cell mode w, True)"
  by (simp add: print_column_def int_cell_def of_int_sint split: shell_mode.split)

lemma print_text_column:
  "chidb_column_type s (int i) = Some (case t of None \<Rightarrow> 0 | Some t \<Rightarrow> text_type t) \<Longrightarrow>
   chidb_column_text s (int i) = Some t \<Longrightarrow> \<forall>t' \<in> set_option t. length t' < 2 ^ 29 \<Longrightarrow>
   print_column mode s i = Some (text_cell mode t, True)"
  by (cases t) (auto simp: print_column_def text_cell_def text_type_small split: shell_mode.split)

lemma explain_columns:
  assumes ex: "st_explain s" and op: "current_op s = Some op" and pc: "st_pc s - 1 = of_nat i"
    and p4: "\<forall>t \<in> set_option (op_p4 op). length t < 2 ^ 29"
  shows "print_columns_of_row mode s [0..<6] = Some (explain_row_text mode i op)"
proof -
  note [simp] = ex op pc chidb_column_type_def chidb_column_int_def chidb_column_text_def
  have "print_column mode s 0 = Some (int_cell mode (of_nat i), True)"
    by (rule print_int_column) simp_all
  moreover have "print_column mode s 1 = Some (text_cell mode (Some (opcode_to_str (op_code op))), True)"
    by (rule print_text_column) (simp_all add: length_op_str [simplified])
  moreover have "print_column mode s 2 = Some (int_cell mode (op_p1 op), True)"
    "print_column mode s 3 = Some (int_cell mode (op_p2 op), True)"
    "print_column mode s 4 = Some (int_cell mode (op_p3 op), True)"
    by (rule print_int_column; simp)+
  moreover have "print_column mode s 5 = Some (text_cell mode (op_p4 op), True)"
    by (rule print_text_column) (use p4 in \<open>simp_all split: option.split\<close>)
  ultimately show ?thesis by (simp add: upt_6 explain_row_text_def separator_def)
qed

text \<open>The rows of an explained statement are printed until the end of its program.\<close>

lemma explain_loop:
  assumes "stmt_ok s" and "st_explain s"
    and "\<forall>op \<in> set (the (st_ops s)). \<forall>t \<in> set_option (op_p4 op). length t < 2 ^ 29"
  shows "unat (st_pc s) + n = unat (st_endOp s) \<Longrightarrow>
    sql_rows mode 6 d s out = Some (Inr (CHIDB_DONE, d, s\<lparr>st_pc := st_endOp s\<rparr>,
      out @ concat (map (\<lambda>i. explain_row_text mode i (the (st_ops s) ! i) @ line_end) [unat (st_pc s)..<unat (st_endOp s)])))"
  using assms
proof (induction n arbitrary: s out)
  case 0
  then have "st_pc s = st_endOp s" by (simp add: word_unat_eq_iff)
  with 0 show ?case by (cases s) (subst sql_rows.simps, simp add: chidb_step_def)
next
  case (Suc n)
  let ?s = "s\<lparr>st_pc := st_pc s + 1\<rparr>" and ?i = "unat (st_pc s)"
  have ne: "st_pc s \<noteq> st_endOp s" using Suc.prems(1) by auto
  have bound: "unat (st_endOp s) \<le> unat (st_nOps s)" "unat (st_nOps s) \<le> 2 ^ 31"
    using Suc.prems(2) by (auto simp: stmt_ok_def word_le_nat_alt)
  have pc: "unat (st_pc ?s) = Suc ?i" using Suc.prems(1) bound by (simp add: unat_word_ariths)
  obtain xs where xs: "st_ops s = Some xs" "length xs = unat (st_nOps s)"
    using Suc.prems(2) by (auto simp: stmt_ok_def arr_ok_def)
  then have i: "?i < length xs" using Suc.prems(1) bound by simp
  have "uint (st_pc ?s - 1) = int ?i" by simp
  then have "current_op ?s = Some (xs ! ?i)" using i xs(1) by (simp add: current_op_def arr_get_def)
  moreover have "st_pc ?s - 1 = of_nat ?i" by simp
  ultimately have row: "print_columns_of_row mode ?s [0..<6] = Some (explain_row_text mode ?i (xs ! ?i))"
    using Suc.prems(3,4) xs(1) i by (intro explain_columns) auto
  have step: "chidb_step d s = Some (Inr (CHIDB_ROW, d, ?s))" using ne Suc.prems(3) by (simp add: chidb_step_def)
  have "sql_rows mode 6 d s out = sql_rows mode 6 d ?s (out @ explain_row_text mode ?i (xs ! ?i) @ line_end)"
    by (subst sql_rows.simps) (simp add: step row)
  also have "\<dots> = Some (Inr (CHIDB_DONE, d, ?s\<lparr>st_pc := st_endOp ?s\<rparr>,
      (out @ explain_row_text mode ?i (xs ! ?i) @ line_end) @
      concat (map (\<lambda>i. explain_row_text mode i (the (st_ops ?s) ! i) @ line_end) [unat (st_pc ?s)..<unat (st_endOp ?s)])))"
    by (rule Suc.IH) (use Suc.prems pc in \<open>auto simp: stmt_ok_def\<close>)
  finally have "sql_rows mode 6 d s out = \<dots>" .
  moreover have "[?i..<unat (st_endOp s)] = ?i # [Suc ?i..<unat (st_endOp s)]"
    using Suc.prems(1) by (intro upt_conv_Cons) simp
  ultimately show ?case using xs(1) unfolding pc by simp
qed

definition explain_listing :: "shell_mode \<Rightarrow> dbm_op list \<Rightarrow> string" where
  "explain_listing mode ops =
     concat (map (\<lambda>i. explain_row_text mode i (ops ! i) @ line_end) [0..<length ops])"

lemma sql_explain:
  assumes "sh_db ctx = Some bt" and "en_parser en (bytes_of sql) = (CHIDB_OK, q)" and "sq_explain q"
    and "50 \<le> st_mem (en_junk_stmt en)" and "length (sq_text q) < 2 ^ 29"
  shows "chidb_shell_handle_sql en d ctx sql = Some (Inr (CHIDB_OK, d, ctx,
    header_of ctx [''addr'', ''opcode'', ''p1'', ''p2'', ''p3'', ''p4''] @
    explain_listing (sh_mode ctx) (codegen_ops (sq_text q))))"
proof -
  let ?s = "prepared (en_junk_stmt en) bt q" and ?h = "header_of ctx [''addr'', ''opcode'', ''p1'', ''p2'', ''p3'', ''p4'']"
  have s: "st_explain ?s" "unat (st_pc ?s) = 0" "unat (st_endOp ?s) = 13"
    "the (st_ops ?s) = codegen_ops (sq_text q) @ replicate 37 noop"
    using assms(3) by (simp_all add: prepared_def fresh_stmt_def)
  have p4: "\<forall>op \<in> set (the (st_ops ?s)). \<forall>t \<in> set_option (op_p4 op). length t < 2 ^ 29"
    using assms(5) by (auto simp: s(4) codegen_ops_def noop_def)
  have "sql_rows (sh_mode ctx) 6 d ?s ?h = Some (Inr (CHIDB_DONE, d, ?s\<lparr>st_pc := st_endOp ?s\<rparr>, ?h @
      concat (map (\<lambda>i. explain_row_text (sh_mode ctx) i (the (st_ops ?s) ! i) @ line_end) [unat (st_pc ?s)..<unat (st_endOp ?s)])))"
    by (rule explain_loop [OF prepared_ok s(1) p4, where n = 13]) (simp add: s)
  moreover have "concat (map (\<lambda>i. explain_row_text m i ((codegen_ops (sq_text q) @ replicate 37 noop) ! i) @ line_end) [0..<13]) =
      explain_listing m (codegen_ops (sq_text q))" for m
    unfolding explain_listing_def length_codegen by (intro arg_cong [where f = concat] map_cong) (auto simp: nth_append)
  ultimately have "sql_rows (sh_mode ctx) 6 d ?s ?h = Some (Inr (CHIDB_DONE, d, ?s\<lparr>st_pc := st_endOp ?s\<rparr>,
      ?h @ explain_listing (sh_mode ctx) (codegen_ops (sq_text q))))"
    unfolding s(2-4) by simp
  moreover have "nat (chidb_column_count ?s) = 6" using s(1) by (simp add: chidb_column_count_def)
  ultimately show ?thesis
    using assms explained_header [OF assms(3)]
    by (intro handle_sql_rows [where bt = bt and q = q]) (auto simp: prepared_def fresh_stmt_def)
qed

subsection \<open>A session\<close>

text \<open>What the shell prints for a statement the parser accepts.\<close>

definition statement_output :: "shell_ctx \<Rightarrow> chisql_statement \<Rightarrow> string" where
  "statement_output ctx q =
     (if sq_explain q
      then header_of ctx [''addr'', ''opcode'', ''p1'', ''p2'', ''p3'', ''p4''] @
        explain_listing (sh_mode ctx) (codegen_ops (sq_text q))
      else header_of ctx [''id'', ''sql'', ''null''])"

definition sql_line :: "shell_env \<Rightarrow> string \<Rightarrow> bool" where
  "sql_line en cmd \<longleftrightarrow> (cmd = [] \<or> hd cmd \<noteq> CHR ''.'') \<and> fst (en_parser en (bytes_of cmd)) = CHIDB_OK \<and>
     length (sq_text (snd (en_parser en (bytes_of cmd)))) < 2 ^ 29"

lemma sql_command:
  assumes "sh_db ctx = Some bt" and "50 \<le> st_mem (en_junk_stmt en)" and "sql_line en cmd"
  shows "chidb_shell_handle_cmd en d ctx cmd =
    Some (Inr (CHIDB_OK, d, ctx, statement_output ctx (snd (en_parser en (bytes_of cmd)))))"
proof -
  obtain q where q: "en_parser en (bytes_of cmd) = (CHIDB_OK, q)" "length (sq_text q) < 2 ^ 29"
    using assms(3) by (cases "en_parser en (bytes_of cmd)") (auto simp: sql_line_def)
  have "chidb_shell_handle_cmd en d ctx cmd = chidb_shell_handle_sql en d ctx cmd"
    using assms(1,3) by (auto simp: chidb_shell_handle_cmd_def sql_line_def)
  also have "\<dots> = Some (Inr (CHIDB_OK, d, ctx, statement_output ctx q))"
    using sql_statement [OF assms(1) q(1) _ assms(2), of d] sql_explain [OF assms(1) q(1) _ assms(2) q(2), of d]
    by (cases "sq_explain q") (simp_all only: statement_output_def if_True if_False not_False_eq_True simp_thms)
  finally show ?thesis using q(1) by simp
qed

text \<open>The tokens of a command of two words.\<close>

lemma two_words:
  assumes "slack_ok slack" and "token_ok (Plain v)" and "token_ok (Plain w)"
  obtains p q where "chidb_tokenize slack (v @ '' '' @ w) = Some [p, q]" and "c_string p = v" and "c_string q = w"
proof -
  have "line_ok [(Plain v, '' ''), (Plain w, [])]" using assms by simp
  then obtain ps where ps: "chidb_tokenize slack (line_of [(Plain v, '' ''), (Plain w, [])]) = Some ps"
    "map c_string ps = [v, w]" by (rule tokenize_line [OF assms(1)]) simp
  then obtain p q where "ps = [p, q]" by (cases ps; cases "tl ps") auto
  with ps that show ?thesis by simp
qed

lemma c_string_tl: "c_string p = c # s \<Longrightarrow> c_string (tl p) = s"
  by (cases p) (auto simp: c_string_def split: if_splits)

text \<open>A line as the line editor returns it.\<close>

definition edited_line :: "string \<Rightarrow> bool" where
  "edited_line cmd \<longleftrightarrow> cmd \<noteq> [] \<and> (\<forall>c \<in> set cmd. c \<noteq> Nul)"

lemma edited_line_end:
  assumes "edited_line cmd"
  shows "c_string (cmd @ [Newline]) = cmd @ [Newline]"
  using assms by (simp add: edited_line_def c_string_def takeWhile_eq_all_conv)

lemma sql_loop:
  assumes "sh_db ctx = Some bt" and "50 \<le> st_mem (en_junk_stmt en)"
  shows "list_all edited_line cmds \<Longrightarrow> list_all (sql_line en) cmds \<Longrightarrow>
    command_loop en d ctx (map (\<lambda>cmd. cmd @ [Newline]) cmds) =
    Some (Inr (d, ctx, concat (map (\<lambda>cmd. statement_output ctx (snd (en_parser en (bytes_of cmd)))) cmds) @ line_end))"
  by (induction cmds) (simp_all add: sql_command [OF assms] edited_line_end edited_line_def)

text \<open>The process started on a database: the headers are off and the mode is list.\<close>

definition opened_ctx :: "Pager option \<Rightarrow> string \<Rightarrow> shell_ctx" where
  "opened_ctx bt f = \<lparr>sh_dbfile = Some f, sh_db = Some bt, sh_header = False, sh_mode = MODE_LIST\<rparr>"

lemma main_loop:
  assumes "chidb_Btree_open d f = Some (rc, d', bt)"
  shows "chidb_main en d None (Some f) lines = command_loop en d' (opened_ctx bt f) lines"
  using assms by (simp add: chidb_main_def chidb_shell_open_db_def chidb_open_def chidb_shell_init_ctx_def opened_ctx_def)

definition explain_command :: string where "explain_command = ''.explain on''"

lemma explain_on:
  assumes "slack_ok (en_slack en)"
  shows "chidb_shell_handle_cmd en d ctx explain_command =
    Some (Inr (CHIDB_OK, d, ctx\<lparr>sh_header := True, sh_mode := MODE_COLUMN\<rparr>, []))"
proof -
  obtain p q where tok: "chidb_tokenize (en_slack en) (''.explain'' @ '' '' @ ''on'') = Some [p, q]"
    "c_string p = ''.explain''" "c_string q = ''on''"
    by (rule two_words [OF assms, of "''.explain''" "''on''"]) (auto simp: isspace_def)
  have "find_handler (tl p) = Some Explain" using c_string_tl [OF tok(2)] by (simp add: find_handler_def handlers_def)
  then show ?thesis
    using tok by (simp add: explain_command_def chidb_shell_handle_cmd_def run_handler_def chidb_shell_handle_cmd_explain_def)
qed

subsection \<open>Running a program file\<close>

text \<open>What is printed of a program and of the registers it leaves.\<close>

definition program_listing :: "dbm_op list \<Rightarrow> dbm_register list \<Rightarrow> string" where
  "program_listing ops regs =
     (let rs = concat (map (\<lambda>i. if regs ! i \<noteq> Reg_Unspecified
            then ''R_'' @ show_nat i @ '' = '' @ chidb_stmt_reg_print (regs ! i) @ [Newline] else []) [0..<length regs])
      in ''     opcode          P1     P2     P3     P4'' @ [Newline] @
         ''     --------------- ------ ------ ------ ------'' @ [Newline] @
         concat (map (\<lambda>i. pad_left 3 (show_nat i) @ '': '' @ chidb_stmt_op_print (ops ! i)) [0..<length ops]) @
         ''     --------------- ------ ------ ------ ------'' @ [Newline, Newline] @
         ''REGISTERS'' @ [Newline] @ ''---------'' @ [Newline] @
         (if rs = [] then ''None of the registers have values'' @ [Newline] else rs))"

lemma print_ops_in:
  "\<forall>i \<in> set is. i < length xs \<Longrightarrow> print_ops (Some xs) is =
    Some (concat (map (\<lambda>i. pad_left 3 (show_nat i) @ '': '' @ chidb_stmt_op_print (xs ! i)) is))"
  by (induction "is") (simp_all add: arr_get_def)

lemma print_registers_in:
  "\<forall>i \<in> set is. i < length regs \<Longrightarrow> print_registers (Some regs) is =
    Some (concat (map (\<lambda>i. if regs ! i \<noteq> Reg_Unspecified
      then ''R_'' @ show_nat i @ '' = '' @ chidb_stmt_reg_print (regs ! i) @ [Newline] else []) is))"
  by (induction "is") (simp_all add: arr_get_def)

lemma printed_statement:
  assumes "holds s ops" and "st_reg s = Some regs" and "length regs = unat (st_nReg s)"
  shows "chidb_stmt_print s = Some (program_listing ops regs)"
proof -
  let ?line = "\<lambda>ops i. pad_left 3 (show_nat i) @ '': '' @ chidb_stmt_op_print (ops ! i)"
  obtain xs where xs: "st_ops s = Some xs" "length ops \<le> length xs" "take (length ops) xs = ops" "unat (st_endOp s) = length ops"
    using assms(1) by (auto simp: holds_def)
  have "xs ! i = ops ! i" if "i < length ops" for i
    using nth_take [OF that, of xs] xs(3) by simp
  then have m: "map (?line xs) [0..<length ops] = map (?line ops) [0..<length ops]" by (intro map_cong) simp_all
  have "print_ops (Some xs) [0..<length ops] = Some (concat (map (?line xs) [0..<length ops]))"
    by (rule print_ops_in) (use xs(2) in auto)
  then have "print_ops (st_ops s) [0..<unat (st_endOp s)] = Some (concat (map (?line ops) [0..<length ops]))"
    unfolding m xs(1,4) .
  then show ?thesis
    using print_registers_in [of "[0..<length regs]" regs] assms(2,3)
    by (simp add: chidb_stmt_print_def program_listing_def Let_def)
qed

lemma straight_program_run:
  assumes "holds s ops" and "st_pc s = 0" and "st_reg s = Some regs" and "length regs = unat (st_nReg s)"
    and "length regs \<le> 2 ^ 31" and "list_all (straight_op (length regs)) ops"
  shows "chidb_stmt_exec d s = Some (Inr (CHIDB_DONE, d, s\<lparr>st_pc := st_endOp s, st_reg := Some (fold effect ops regs)\<rparr>))"
proof -
  obtain xs where xs: "st_ops s = Some xs" "length ops \<le> length xs" "take (length ops) xs = ops" "unat (st_endOp s) = length ops"
    using assms(1) by (auto simp: holds_def)
  have s: "s\<lparr>st_pc := of_nat 0, st_reg := Some regs\<rparr> = s" using assms(2,3) by (cases s) simp
  have e: "of_nat (0 + length ops) = st_endOp s" by (simp add: xs(4) [symmetric])
  have "exec_loop d (s\<lparr>st_pc := of_nat 0, st_reg := Some regs\<rparr>) =
      exec_loop d (s\<lparr>st_pc := of_nat (0 + length ops), st_reg := Some (fold effect (take (length ops) (drop 0 xs)) regs)\<rparr>)"
    by (rule straight_run [OF xs(1) _ assms(4,5)]) (use xs assms(6) in \<open>simp_all add: list_all_iff\<close>)
  then have "exec_loop d s = exec_loop d (s\<lparr>st_pc := st_endOp s, st_reg := Some (fold effect ops regs)\<rparr>)"
    unfolding s e using xs(3) by simp
  also have "\<dots> = Some (Inr (CHIDB_OK, d, s\<lparr>st_pc := st_endOp s, st_reg := Some (fold effect ops regs)\<rparr>))"
    by (subst exec_loop.simps) simp
  finally show ?thesis by (simp add: chidb_stmt_exec_def)
qed

lemma printed_straight: "straight_op m (printed_op op) = straight_op m op" if "straight_op m op"
  using that by (simp add: straight_op_def printed_op_def split: opcode.splits)

lemma printed_effect: "straight_op m op \<Longrightarrow> effect (printed_op op) regs = effect op regs"
  by (auto simp: straight_op_def effect_def printed_op_def split: opcode.splits)

lemma printed_fold:
  "list_all (straight_op m) ops \<Longrightarrow> fold effect (map printed_op ops) regs = fold effect ops regs"
  by (induction ops arbitrary: regs) (auto simp: printed_effect [of m])

lemma straight_dbm: "list_all (straight_op m) ops \<Longrightarrow> dbm_program ops"
  by (cases ops) (auto simp: dbm_program_def straight_op_def)

lemma dbmrun_command:
  assumes db: "sh_db ctx = Some bt" and content: "files d f = Some (program_file ops)" and name: "token_ok (Plain f)"
    and en: "slack_ok (en_slack en)" "max 50 (length ops) \<le> st_mem (df_stmt (en_junk_file en))"
    and ops: "list_all file_op_ok ops" "list_all (straight_op 10) ops" "length ops \<le> 2 ^ 31"
  shows "chidb_shell_handle_cmd en d ctx (''.dbmrun '' @ f) =
    Some (Inr (0, snd (chidb_dbm_file_close d (en_junk_file en)), ctx,
      ''This program produced no result rows.'' @ line_end @ line_end @
      program_listing (map printed_op ops) (fold effect ops (replicate 10 Reg_Unspecified))))"
proof -
  let ?junk = "en_junk_file en" and ?regs = "replicate 10 Reg_Unspecified"
  obtain p q where tok: "chidb_tokenize (en_slack en) (''.dbmrun'' @ '' '' @ f) = Some [p, q]"
    "c_string p = ''.dbmrun''" "c_string q = f"
    by (rule two_words [OF en(1) _ name, of "''.dbmrun''"]) (auto simp: isspace_def)
  have h: "find_handler (tl p) = Some Dbmrun" using c_string_tl [OF tok(2)] by (simp add: find_handler_def handlers_def)
  obtain st where st: "chidb_dbm_file_load (file_env.truncate en) ?junk d f (Some bt) = Some (CHIDB_OK, d, st)"
    "holds (df_stmt st) (map printed_op ops)" "same_but_program (fresh_stmt (df_stmt ?junk) bt) (df_stmt st)"
    "df_delete st = df_delete ?junk" "df_dbfile st = df_dbfile ?junk"
    using load_program_file [OF content _ ops(1) straight_dbm [OF ops(2)] ops(3) en(2), of "file_env.truncate en" bt] en(1)
    by (auto simp: file_env.defs)
  have s: "st_pc (df_stmt st) = 0" "st_reg (df_stmt st) = Some ?regs" "st_nReg (df_stmt st) = 10" "st_db_bt (df_stmt st) = bt"
    using same_but_programD [OF st(3)] by (simp_all add: fresh_stmt_def)
  let ?s = "df_stmt st\<lparr>st_pc := st_endOp (df_stmt st), st_reg := Some (fold effect ops ?regs)\<rparr>"
  have "list_all (straight_op (length ?regs)) (map printed_op ops)"
    using ops(2) printed_straight by (auto simp: list_all_iff)
  then have "chidb_stmt_exec d (df_stmt st) = Some (Inr (CHIDB_DONE, d, ?s))"
    using straight_program_run [OF st(2) s(1,2), of d] s(3) printed_fold [OF ops(2)] by simp
  then have run: "dbmrun_loop d st False [] = Some (Inr (CHIDB_DONE, d, st\<lparr>df_stmt := ?s\<rparr>, False, []))"
    by (subst dbmrun_loop.simps) (simp add: chidb_dbm_file_run_def)
  have "length (fold effect ops ?regs) = 10" by (induction ops rule: rev_induct) simp_all
  then have "chidb_stmt_print ?s = Some (program_listing (map printed_op ops) (fold effect ops ?regs))"
    using st(2) s(3) by (intro printed_statement) (simp_all add: holds_def)
  then show ?thesis
    using tok h run st db s(4) content
    by (cases ctx) (simp add: chidb_shell_handle_cmd_def run_handler_def chidb_shell_handle_cmd_dbmrun_def
        chidb_dbm_file_print_program_def chidb_dbm_file_close_def)
qed

end
