(* ===== verification/CursorCorrect.thy ===== *)
theory CursorCorrect
  imports Cursor BtreeTable
begin

section \<open>What a cursor can do\<close>

text \<open>
  A cursor starts with an empty path, and a rewind builds its path in a local copy. These
  lemmas follow the path through the operations.
\<close>

definition fresh_cursor :: "Pager option \<Rightarrow> dbm_cursor \<Rightarrow> bool" where
  "fresh_cursor bt cu \<longleftrightarrow> (\<exists>v. cu_vars cu = Some v \<and> cv_bt v = bt \<and>
     cv_path v = \<lparr>cp_head = Ptr_null, cp_tail = Ptr_null\<rparr>)"

lemma init_fresh:
  assumes "chidb_dbm_init_cursor d cu file bt root = Some (Inr (rc, d', bt', cu'))"
  shows "rc = CHIDB_OK \<and> root = 1 \<and> (\<exists>b. fresh_cursor b cu')"
  using assms by (auto simp: chidb_dbm_init_cursor_def fresh_cursor_def bind_Some_conv split: if_splits)

lemma next_fresh: "fresh_cursor bt cu \<Longrightarrow> chidb_dbm_next d cu = Some (Inl 1)"
  by (auto simp: chidb_dbm_next_def fresh_cursor_def)

text \<open>There is no node to link the first node of a path after.\<close>

lemma link_tail_null: "cp_tail path = Ptr_null \<Longrightarrow> link_tail h path val = None"
  by (simp add: link_tail_def heap_at_def)

lemma rewind_loop_null:
  "cp_tail path = Ptr_null \<Longrightarrow> rewind_loop d pg h path btn =
     (if is_internal (bn_type btn) then None else Some (h, path, btn))"
  by (subst rewind_loop.simps) (simp add: link_tail_null)

lemma rewind_fresh:
  assumes "fresh_cursor (Some pg) cu" and "load_node d pg 1 = Some btn"
  shows "chidb_dbm_rewind d cu =
    (if is_internal (bn_type btn) \<or> bn_n_cells btn \<noteq> 0 then None else Some (False, cu))"
proof -
  obtain v where v: "cu_vars cu = Some v" "cv_bt v = Some pg" "cp_tail (cv_path v) = Ptr_null"
    using assms(1) by (auto simp: fresh_cursor_def)
  then have "cu\<lparr>cu_vars := Some (v\<lparr>cv_heap := cv_heap v\<rparr>)\<rparr> = cu" by simp
  with v assms(2) show ?thesis
    by (simp add: chidb_dbm_rewind_def rewind_loop_null link_tail_null del: dbm_cursor.update_convs)
qed

lemma rewind_result:
  assumes "fresh_cursor bt cu" and "chidb_dbm_rewind d cu = Some (b, cu')"
  shows "\<not> b \<and> fresh_cursor bt cu'"
proof -
  obtain v pg btn where v: "cu_vars cu = Some v" "cv_bt v = bt" "bt = Some pg" "load_node d pg 1 = Some btn"
    using assms by (auto simp: chidb_dbm_rewind_def fresh_cursor_def bind_Some_conv)
  then show ?thesis using rewind_fresh [of pg cu d btn] assms by (auto split: if_splits)
qed

text \<open>On the pages of a tree rooted in page 1.\<close>

lemma rewind_tree:
  assumes cu: "fresh_cursor (Some pg) cu" and t: "tree_rep d pg t" "root_page t = 1"
  shows "chidb_dbm_rewind d cu = (if t = Leaf 1 [] then Some (False, cu) else None)"
proof -
  have ok: "pager_ok d pg" and rep: "rep d pg t" using t(1) by (auto simp: tree_rep_def)
  show ?thesis
  proof (cases t)
    case (Leaf p kvs)
    then obtain btn where btn: "is_node d pg 1 PGTYPE_TABLE_LEAF (map leaf_cell kvs) 0 btn"
      using rep t(2) by auto
    then have n: "unat (bn_n_cells btn) = length kvs" "bn_type btn = PGTYPE_TABLE_LEAF"
      using node_repD(3) by (fastforce simp: is_node_def)+
    then have "bn_n_cells btn = 0 \<longleftrightarrow> kvs = []" by (metis length_0_conv unat_eq_zero)
    then show ?thesis
      using rewind_fresh [OF cu load_node_rep [OF ok btn]] n(2) Leaf t(2) by (auto simp: is_internal_def)
  next
    case (Node p ks)
    then obtain btn where btn: "is_node d pg 1 PGTYPE_TABLE_INTERNAL (kid_cells ks) (last_page ks) btn"
      using rep t(2) by auto
    then have "bn_type btn = PGTYPE_TABLE_INTERNAL" by (simp add: is_node_def)
    then show ?thesis
      using rewind_fresh [OF cu load_node_rep [OF ok btn]] Node by (simp add: is_internal_def)
  qed
qed

end
