(* ===== verification/Samples.thy ===== *)
theory Samples
  imports RecordRep ShellCorrect CursorCorrect
begin

section \<open>Concrete inputs\<close>

text \<open>
  The inputs at which the properties are applied.
\<close>

text \<open>A disk with one empty file, and a record and a pager small enough to compute with.\<close>

definition disk0 :: disk where
  "disk0 = \<lparr>files = (\<lambda>_. None)(''db'' \<mapsto> []), may_create = (\<lambda>_. True), room = 1048576\<rparr>"

definition pager0 :: Pager where
  "pager0 = \<lparr>pg_f = Some ''db'', pg_n_pages = 3, pg_page_size = 2\<rparr>"

definition record0 :: DBRecord where
  "record0 = \<lparr>dr_data = [], dr_data_len = 0, dr_nfields = 0, dr_packed_len = 0, dr_types = [], dr_offsets = []\<rparr>"

lemma disk0_simps [simp]: "files disk0 ''db'' = Some []" "room disk0 = 1048576"
  by (simp_all add: disk0_def)

lemma pager0_ok: "pager_ok disk0 pager0"
  by (simp add: pager_ok_def pager_content_def pager0_def)

text \<open>A statement small enough to compute with: \<open>prog\<close> in an array of just its size, one register.\<close>

definition stmt0 :: "dbm_op list \<Rightarrow> dbm_stmt" where
  "stmt0 prog = \<lparr>st_db_bt = None, st_pc = 0, st_ops = Some prog, st_nOps = of_nat (length prog),
     st_endOp = of_nat (length prog), st_reg = Some [Reg_Null], st_nReg = 1,
     st_cursors = Some [], st_nCursors = 0, st_startRR = 0, st_nRR = 0, st_cols = None, st_nCols = 0,
     st_explain = False, st_error = None, st_dbfile = None, st_mem = 100\<rparr>"

definition halt_op :: "u32 \<Rightarrow> dbm_op" where
  "halt_op p1 = \<lparr>op_code = Op_Halt, op_p1 = p1, op_p2 = 0, op_p3 = 0, op_p4 = Some [101]\<rparr>"

definition jump_op :: "u32 \<Rightarrow> dbm_op" where
  "jump_op p2 = \<lparr>op_code = Op_Eq, op_p1 = 0, op_p2 = p2, op_p3 = 0, op_p4 = None\<rparr>"

lemma stmt0_ok: "length prog < 2 ^ 31 \<Longrightarrow> stmt_ok (stmt0 prog)"
  using unat_of_nat_small [of "length prog", where 'a = 32]
  by (simp add: stmt_ok_def arr_ok_def stmt0_def)

text \<open>A shell in list mode with headers, whose database is open. Its parser explains the statements that
  start with an E, and the allocator leaves an x behind every block.\<close>

definition ctx0 :: shell_ctx where
  "ctx0 = \<lparr>sh_dbfile = Some ''db'', sh_db = Some None, sh_header = True, sh_mode = MODE_LIST\<rparr>"

definition file0 :: load_state where
  "file0 = \<lparr>df_filename = [], df_db = None, df_stmt = stmt0 [], df_results = [], df_registers = [], df_dbfile = ''old'',
     df_delete = True, df_copyOnUse = False, ls_section = 0, ls_program_type = UNKNOWN, ls_opnum = 0\<rparr>"

definition env0 :: shell_env where
  "env0 = \<lparr>en_slack = (\<lambda>_. ''x''), en_mkstemp = (\<lambda>_ _. None),
     en_parser = (\<lambda>sql. (CHIDB_OK, \<lparr>sq_explain = (sql \<noteq> [] \<and> hd sql = 69), sq_text = sql\<rparr>)),
     en_dbfiledir = [], en_genfiledir = [], en_stmt_print = (\<lambda>_. []), en_junk_stmt = stmt0 [], en_junk_file = file0\<rparr>"

lemma env0_simps [simp]:
  "st_mem (en_junk_stmt env0) = 100" "slack_ok (en_slack env0)" "en_junk_file env0 = file0"
  "en_parser env0 sql = (CHIDB_OK, \<lparr>sq_explain = (sql \<noteq> [] \<and> hd sql = 69), sq_text = sql\<rparr>)"
  "df_stmt file0 = stmt0 []" "df_delete file0" "df_dbfile file0 = ''old''" "st_mem (stmt0 []) = 100"
  by (simp_all add: env0_def file0_def stmt0_def slack_ok_def isspace_def)

lemma output_in_columns:
  "sh_header ctx \<Longrightarrow> sh_mode ctx = MODE_COLUMN \<Longrightarrow> statement_output ctx q =
    (if sq_explain q
     then ''addr       opcode     p1         p2         p3         p4        '' @ line_end @ header_rule 6 @
       explain_listing MODE_COLUMN (codegen_ops (sq_text q))
     else ''id         sql        null      '' @ line_end @ header_rule 3)"
  by (simp add: statement_output_def header_of_def separator_def upt_rec column_cell_def pad_right_def eval_nat_numeral)

end
