(* ===== verification/DbmProperties.thy ===== *)
theory DbmProperties
  imports Samples
begin

section \<open>Properties of the database machine, its programs and the shell\<close>

text \<open>
  The runs of the machine, prepared statements, program files, cursors and what the shell prints, each
  with a concrete input at which it applies.
\<close>

subsection \<open>The database machine\<close>

text \<open>C17. Whatever a program does, a run that returns leaves the machine well-formed (its arrays
  have the sizes it records) and the program unchanged; it answers \<open>CHIDB_DONE\<close> unless a \<open>Halt\<close>
  with another code has ended it, so a result row is never announced by anything else.\<close>

theorem exec_keeps_machine:
  assumes "stmt_ok s" and "chidb_stmt_exec d s = Some (Inr (rc, d', s'))"
  shows "stmt_ok s' \<and> same_program s s' \<and> (rc = CHIDB_DONE \<or>
    (\<exists>i < unat (st_endOp s). \<exists>op. arr_get (st_ops s) (int i) = Some op \<and> op_code op = Op_Halt \<and> rc = sint (op_p1 op)))"
proof -
  obtain rc0 where e: "exec_loop d s = Some (Inr (rc0, d', s'))"
    and rc: "rc = (if rc0 = CHIDB_OK \<or> rc0 = CHIDB_DONE then CHIDB_DONE else rc0)"
    using assms(2) by (auto simp: chidb_stmt_exec_def bind_Some_conv case_sum_Some)
  show ?thesis using exec_loop_keeps [OF e] assms(1) rc by auto
qed

lemma halt_exec: "\<exists>s'. chidb_stmt_exec disk0 (stmt0 [halt_op 100]) = Some (Inr (100, disk0, s'))"
proof -
  have "exec_loop disk0 (stmt0 [halt_op 100]) = Some (Inr (100, disk0, (stmt0 [halt_op 100])\<lparr>st_pc := 2, st_error := Some [101]\<rparr>))"
    by (subst exec_loop.simps) (simp add: stmt0_def halt_op_def arr_get_def chidb_dbm_op_handle_def chidb_dbm_op_Halt_def)
  then show ?thesis by (simp add: chidb_stmt_exec_def)
qed

lemma exec_keeps_machine_witness:
  "\<exists>s'. chidb_stmt_exec disk0 (stmt0 [halt_op 100]) = Some (Inr (100, disk0, s')) \<and>
    stmt_ok s' \<and> same_program (stmt0 [halt_op 100]) s'"
proof -
  obtain s' where s': "chidb_stmt_exec disk0 (stmt0 [halt_op 100]) = Some (Inr (100, disk0, s'))"
    using halt_exec by blast
  then show ?thesis using exec_keeps_machine [OF stmt0_ok s'] by auto
qed

text \<open>C18. A program without the instructions \<open>OpenRead\<close>, \<open>OpenWrite\<close>, \<open>Close\<close>, \<open>Rewind\<close> and \<open>Next\<close>, whose
  comparisons (and \<open>Prev\<close>) jump to later addresses, comes to its end: whatever its registers and
  texts are, at most as many instructions are executed as it holds, and the loop of the code gives
  the result the counted run stops with, and none exactly when an instruction reached is undefined.
  No instruction is, when the registers written have numbers below the bound of the memory, every
  \<open>String\<close> and every \<open>Halt\<close> with an error has its text, and every \<open>Prev\<close> names a cursor of the machine.\<close>

theorem exec_terminates:
  assumes "stmt_ok s"
    and "\<forall>i < unat (st_endOp s). \<forall>op. arr_get (st_ops s) (int i) = Some op \<longrightarrow> forward_op i op"
  shows "(\<forall>d' s'. exec_steps (unat (st_endOp s)) d s \<noteq> Running d' s') \<and>
    exec_loop d s = run_result (exec_steps (unat (st_endOp s)) d s) \<and>
    (chidb_stmt_exec d s = None \<longleftrightarrow> exec_steps (unat (st_endOp s)) d s = Undefined) \<and>
    (st_mem s \<le> 2 ^ 31 \<and>
      (\<forall>i < unat (st_endOp s). \<forall>op. arr_get (st_ops s) (int i) = Some op \<longrightarrow> supplied_op (st_mem s) (st_nCursors s) op)
      \<longrightarrow> (\<exists>r. chidb_stmt_exec d s = Some r))"
proof -
  note e = exec_steps_end [OF assms, of "unat (st_endOp s)" d, simplified diff_le_self, simplified]
  have r: "exec_loop d s = run_result (exec_steps (unat (st_endOp s)) d s)"
    by (rule exec_steps_loop) (use e in blast)
  have "chidb_stmt_exec d s = None \<longleftrightarrow> exec_loop d s = None"
    by (cases "exec_loop d s") (auto simp: chidb_stmt_exec_def split: sum.split)
  then have u: "chidb_stmt_exec d s = None \<longleftrightarrow> exec_steps (unat (st_endOp s)) d s = Undefined"
    using e r by (cases "exec_steps (unat (st_endOp s)) d s") (auto simp: run_result_def)
  show ?thesis using e r u by auto
qed

text \<open>A jump and a \<open>Halt\<close> return; the store in register -1 stops after one instruction, undefined.\<close>

definition store_op :: "u32 \<Rightarrow> dbm_op" where
  "store_op p2 = \<lparr>op_code = Op_Integer, op_p1 = 5, op_p2 = p2, op_p3 = 0, op_p4 = None\<rparr>"

lemma exec_terminates_witness:
  "(\<exists>r. chidb_stmt_exec disk0 (stmt0 [jump_op 5, halt_op 0]) = Some r) \<and>
    (\<forall>d' s'. exec_steps 1 disk0 (stmt0 [store_op (- 1)]) \<noteq> Running d' s') \<and>
    chidb_stmt_exec disk0 (stmt0 [store_op (- 1)]) = None"
proof -
  have fwd: "\<forall>i < unat (st_endOp (stmt0 [jump_op 5, halt_op 0])). \<forall>op.
      arr_get (st_ops (stmt0 [jump_op 5, halt_op 0])) (int i) = Some op \<longrightarrow>
      forward_op i op \<and> supplied_op (st_mem (stmt0 [jump_op 5, halt_op 0])) (st_nCursors (stmt0 [jump_op 5, halt_op 0])) op"
    by (auto simp: stmt0_def arr_get_def less_2_cases_iff jump_op_def halt_op_def forward_op_def supplied_op_def)
  have one: "\<exists>r. chidb_stmt_exec disk0 (stmt0 [jump_op 5, halt_op 0]) = Some r"
    using exec_terminates [OF stmt0_ok, of "[jump_op 5, halt_op 0]" disk0] fwd by (simp add: stmt0_def)
  have fwd1: "\<forall>i < unat (st_endOp (stmt0 [store_op (- 1)])). \<forall>op.
      arr_get (st_ops (stmt0 [store_op (- 1)])) (int i) = Some op \<longrightarrow> forward_op i op"
    by (auto simp: stmt0_def arr_get_def store_op_def forward_op_def)
  have undef: "exec_steps 1 disk0 (stmt0 [store_op (- 1)]) = Undefined"
    by (simp add: exec_steps.simps stmt0_def arr_get_def store_op_def chidb_dbm_op_handle_def chidb_dbm_op_Integer_def
        store_register_def arr_set_def realloc_reg_def realloc_array_def)
  have "unat (st_endOp (stmt0 [store_op (- 1)])) = 1" by (simp add: stmt0_def)
  then show ?thesis using one undef exec_terminates [OF stmt0_ok fwd1, of disk0] by simp
qed

text \<open>Storing in a register that exists or can be added changes that register only; registers
  added on the way are unspecified, and nothing else of the machine changes.\<close>

theorem registers_are_a_store:
  assumes "stmt_ok s" and "store_register s dest r = Some s'"
  shows "stmt_ok s' \<and> same_program s s' \<and> st_pc s' = st_pc s \<and>
    arr_get (st_reg s') (sint dest) = Some r \<and>
    (\<forall>j. j \<noteq> sint dest \<longrightarrow> arr_get (st_reg s) j \<noteq> None \<longrightarrow> arr_get (st_reg s') j = arr_get (st_reg s) j) \<and>
    (\<forall>j. j \<noteq> sint dest \<longrightarrow> arr_get (st_reg s) j = None \<longrightarrow>
      arr_get (st_reg s') j = (if 0 \<le> j \<and> j < sint dest then Some Reg_Unspecified else None))"
  using store_register_ok [OF assms(2,1)] by (auto split: option.splits)

lemma registers_are_a_store_witness:
  "\<exists>s'. store_register (stmt0 []) 3 (Reg_Int32 7) = Some s' \<and>
    arr_get (st_reg s') 3 = Some (Reg_Int32 7) \<and> arr_get (st_reg s') 1 = Some Reg_Unspecified \<and>
    arr_get (st_reg s') 0 = Some Reg_Null"
proof -
  obtain s' where s': "store_register (stmt0 []) 3 (Reg_Int32 7) = Some s'"
    by (simp add: store_register_def stmt0_def realloc_reg_def realloc_array_def arr_set_def)
  have old: "arr_get (st_reg (stmt0 [])) 1 = None" "arr_get (st_reg (stmt0 [])) 0 = Some Reg_Null"
    by (simp_all add: stmt0_def arr_get_def)
  have "arr_get (st_reg s') 3 = Some (Reg_Int32 7)" "arr_get (st_reg s') 1 = Some Reg_Unspecified"
    "arr_get (st_reg s') 0 = Some Reg_Null"
    using registers_are_a_store [OF stmt0_ok s'] old by simp_all
  with s' show ?thesis by blast
qed

text \<open>C19. The six comparison instructions follow one order. With \<open>a\<close> in the register p1 and \<open>b\<close> in
  the register p3, both integers or both texts, \<open>Eq\<close>, \<open>Ne\<close>, \<open>Lt\<close>, \<open>Le\<close>, \<open>Gt\<close> and \<open>Ge\<close> jump to p2 when
  \<open>b\<close> is equal, not equal, less, at most, greater, at least \<open>a\<close>, and go on otherwise, changing nothing
  else. Integers are compared as signed numbers and texts in the dictionary order of unsigned
  bytes, which is irreflexive, transitive and linear. Registers of different types (or unset, or NULL)
  make none of the six jump.\<close>

theorem comparisons_agree:
  assumes "stmt_ok s"
    and "arr_get (st_reg s) (sint (op_p1 op)) = Some a" and "arr_get (st_reg s) (sint (op_p3 op)) = Some b"
    and "(op_code op, rel) \<in> {(Op_Eq, \<lambda>b a. b = a), (Op_Ne, \<lambda>b a. b \<noteq> a),
      (Op_Lt, \<lambda>b a. reg_less b a), (Op_Le, \<lambda>b a. reg_less b a \<or> b = a),
      (Op_Gt, \<lambda>b a. reg_less a b), (Op_Ge, \<lambda>b a. reg_less a b \<or> b = a)}"
  shows "(same_kind a b \<longrightarrow> chidb_dbm_op_handle d s op =
      Some (Inr (CHIDB_OK, d, if rel b a then s\<lparr>st_pc := op_p2 op\<rparr> else s))) \<and>
    (\<not> same_kind a b \<and> (\<forall>x y. (a, b) \<noteq> (Reg_Binary x, Reg_Binary y)) \<longrightarrow>
      chidb_dbm_op_handle d s op = Some (Inr (CHIDB_OK, d, s))) \<and>
    \<not> reg_less a a \<and> (reg_less a b \<and> reg_less b c \<longrightarrow> reg_less a c) \<and>
    (same_kind a b \<longrightarrow> reg_less a b \<or> a = b \<or> reg_less b a)"
proof -
  note jump = compare_jump [OF assms(1-3)]
  have "chidb_dbm_op_handle d s op = Some (Inr (CHIDB_OK, d, if rel b a then s\<lparr>st_pc := op_p2 op\<rparr> else s))"
    if "same_kind a b"
    using assms(4) jump tests_by_order [OF that] that by (auto simp: chidb_dbm_op_handle_def handler_defs)
  moreover have "chidb_dbm_op_handle d s op = Some (Inr (CHIDB_OK, d, s))"
    if "\<not> same_kind a b" "\<forall>x y. (a, b) \<noteq> (Reg_Binary x, Reg_Binary y)"
    using assms(4) jump no_test_across_kinds [OF that] by (auto simp: chidb_dbm_op_handle_def handler_defs)
  ultimately show ?thesis using reg_less_irrefl reg_less_trans reg_less_linear by blast
qed

text \<open>-1 is less than 1, so \<open>Lt\<close> jumps with 1 in its first register and -1 in its third.\<close>

lemma comparisons_agree_witness:
  "chidb_dbm_op_handle disk0 ((stmt0 [])\<lparr>st_reg := Some [Reg_Int32 1, Reg_Int32 (- 1)], st_nReg := 2\<rparr>)
      \<lparr>op_code = Op_Lt, op_p1 = 0, op_p2 = 7, op_p3 = 1, op_p4 = None\<rparr> =
    Some (Inr (CHIDB_OK, disk0, (stmt0 [])\<lparr>st_reg := Some [Reg_Int32 1, Reg_Int32 (- 1)], st_nReg := 2, st_pc := 7\<rparr>))"
proof -
  let ?s = "(stmt0 [])\<lparr>st_reg := Some [Reg_Int32 1, Reg_Int32 (- 1)], st_nReg := 2\<rparr>"
  have "stmt_ok ?s" using stmt0_ok [of "[]"] by (simp add: stmt_ok_def arr_ok_def)
  from comparisons_agree [OF this, of "\<lparr>op_code = Op_Lt, op_p1 = 0, op_p2 = 7, op_p3 = 1, op_p4 = None\<rparr>"
      "Reg_Int32 1" "Reg_Int32 (- 1)" "\<lambda>b a. reg_less b a" disk0]
  show ?thesis by (simp add: arr_get_def)
qed

subsection \<open>Prepared statements and cursors\<close>

text \<open>Running a prepared statement that is not an EXPLAIN ends at once with \<open>CHIDB_DONE\<close>: the
  five \<open>ResultRow\<close> instructions the generated program holds produce no row, and the registers are
  left with the last identifier, the text of the query and NULL.\<close>

theorem prepared_statement_returns_no_row:
  assumes "parser sql = (CHIDB_OK, q)" and "\<not> sq_explain q" and "50 \<le> st_mem junk"
  shows "\<exists>s s'. chidb_prepare parser junk bt sql = Some (CHIDB_OK, Some s) \<and>
    chidb_step d s = Some (Inr (CHIDB_DONE, d, s')) \<and>
    st_reg s' = Some ([Reg_Int32 5, Reg_String (sq_text q), Reg_Null] @ replicate 7 Reg_Unspecified)"
  using prepare_ok [of junk parser sql q bt, OF assms(3,1)] prepared_exec [OF assms(2)] by blast

lemma prepared_statement_returns_no_row_witness:
  "\<exists>s s'. chidb_prepare (\<lambda>sql. (0, \<lparr>sq_explain = False, sq_text = sql\<rparr>)) (stmt0 []) None [83] = Some (CHIDB_OK, Some s) \<and>
    chidb_step disk0 s = Some (Inr (CHIDB_DONE, disk0, s')) \<and>
    st_reg s' = Some ([Reg_Int32 5, Reg_String [83], Reg_Null] @ replicate 7 Reg_Unspecified)"
proof -
  let ?q = "\<lparr>sq_explain = False, sq_text = [83]\<rparr>"
  have "\<exists>s s'. chidb_prepare (\<lambda>sql. (0, \<lparr>sq_explain = False, sq_text = sql\<rparr>)) (stmt0 []) None [83] = Some (CHIDB_OK, Some s) \<and>
    chidb_step disk0 s = Some (Inr (CHIDB_DONE, disk0, s')) \<and>
    st_reg s' = Some ([Reg_Int32 5, Reg_String (sq_text ?q), Reg_Null] @ replicate 7 Reg_Unspecified)"
    by (rule prepared_statement_returns_no_row) (simp_all add: stmt0_def)
  then show ?thesis by simp
qed

text \<open>Stepping through an EXPLAIN statement yields one row per instruction of its program, in
  order, each with the address, the name and the operands of the instruction, and then no more.\<close>

theorem explain_lists_program:
  assumes "stmt_ok s" and "st_explain s" and "st_pc s = 0" and "unat (st_endOp s) < n"
  shows "step_rows explain_row n d s =
    Some (map (\<lambda>i. op_row i (the (st_ops s) ! i)) [0..<unat (st_endOp s)])"
  using explain_rows [OF assms(1,2), of "unat (st_endOp s)" n d] assms(3,4) by simp

lemma explain_lists_program_witness:
  "step_rows explain_row 2 disk0 ((stmt0 [halt_op 0])\<lparr>st_explain := True\<rparr>) =
    Some [(0, Some (opcode_to_str Op_Halt), 0, 0, 0, Some [101])]"
proof -
  have "stmt_ok ((stmt0 [halt_op 0])\<lparr>st_explain := True\<rparr>)"
    using stmt0_ok [of "[halt_op 0]"] by (simp add: stmt_ok_def)
  from explain_lists_program [OF this, of 2 disk0] show ?thesis
    by (simp add: stmt0_def op_row_def halt_op_def)
qed

text \<open>A text with a quote splits its line into six tokens, which is no instruction.\<close>

lemma quote_is_not_read_back:
  "\<exists>line. chidb_stmt_op_print \<lparr>op_code = Op_String, op_p1 = 2, op_p2 = 0, op_p3 = 0, op_p4 = Some [97, 34, 98]\<rparr>
      = line @ [Newline] \<and>
    chidb_dbm_file_parse_instruction (\<lambda>_. ''x'') line = Some (CHIDB_EPARSE, None)"
  by (intro exI [of _ "''String          2      0      0      \"a\"b\"''"]) code_simp

text \<open>C20. Parsing undoes printing up to the texts: the line \<open>chidb_stmt_op_print\<close> prints for an
  instruction whose text, if it has one, holds no quote, line end or zero byte is read back with the same code and the same
  three operands. Its text comes back as it is, with two exceptions: a missing text comes back as
  the text \<open>NULL\<close>, and a text that starts with an underscore comes back missing. (A text with
  a quote is not read back: the quote ends its token.) The tokenizer reads one byte past the
  line, so the allocator must have left a byte there that is no space. As the first line of a
  program, the instructions \<open>Insert\<close>, \<open>CreateTable\<close> and \<open>CreateIndex\<close> are taken for SQL.\<close>

theorem instruction_roundtrip:
  assumes "slack_ok slack" and "plain_op op"
  shows "\<exists>line. chidb_stmt_op_print op = line @ [Newline] \<and>
    chidb_dbm_file_parse_instruction slack line = Some (CHIDB_OK, Some (op\<lparr>op_p4 :=
      (case op_p4 op of None \<Rightarrow> Some (bytes_of ''NULL'')
       | Some s \<Rightarrow> if s \<noteq> [] \<and> hd s = 95 then None else Some s)\<rparr>)) \<and>
    (chidb_dbm_is_sql line \<longleftrightarrow> op_code op \<in> {Op_Insert, Op_CreateTable, Op_CreateIndex})"
  using op_print_line [of op] parse_line [OF assms, unfolded read_op_def] is_sql_printed [of op] by blast

lemma instruction_roundtrip_witness:
  "(\<exists>line. chidb_stmt_op_print \<lparr>op_code = Op_String, op_p1 = 2, op_p2 = - 1, op_p3 = 0, op_p4 = Some [104, 32, 105]\<rparr>
      = line @ [Newline] \<and>
    chidb_dbm_file_parse_instruction (\<lambda>_. ''x'') line = Some (CHIDB_OK,
      Some \<lparr>op_code = Op_String, op_p1 = 2, op_p2 = - 1, op_p3 = 0, op_p4 = Some [104, 32, 105]\<rparr>)) \<and>
   (\<exists>line. chidb_stmt_op_print \<lparr>op_code = Op_String, op_p1 = 2, op_p2 = 0, op_p3 = 0, op_p4 = Some [95, 120]\<rparr>
      = line @ [Newline] \<and>
    chidb_dbm_file_parse_instruction (\<lambda>_. ''x'') line = Some (CHIDB_OK,
      Some \<lparr>op_code = Op_String, op_p1 = 2, op_p2 = 0, op_p3 = 0, op_p4 = None\<rparr>))"
  using instruction_roundtrip [of "\<lambda>_. ''x''"
      "\<lparr>op_code = Op_String, op_p1 = 2, op_p2 = - 1, op_p3 = 0, op_p4 = Some [104, 32, 105]\<rparr>"]
    instruction_roundtrip [of "\<lambda>_. ''x''"
      "\<lparr>op_code = Op_String, op_p1 = 2, op_p2 = 0, op_p3 = 0, op_p4 = Some [95, 120]\<rparr>"]
  by (auto simp: slack_ok_def plain_op_def text_plain_def isspace_def)

text \<open>A program file made of printed instructions, in lines of at most 255 characters, loads: the
  call answers \<open>CHIDB_OK\<close>, the statement holds the printed program from its first instruction to
  its end mark, however many times its array had to grow, and is about to run the first one.\<close>

theorem program_file_loads:
  assumes "files d f = Some (program_file ops)" and "slack_ok (en_slack en)" and "list_all file_op_ok ops"
    and "dbm_program ops" and "length ops \<le> 2 ^ 31" and "max 50 (length ops) \<le> st_mem (df_stmt junk)"
  shows "\<exists>st. chidb_dbm_file_load en junk d f (Some bt) = Some (CHIDB_OK, d, st) \<and>
    program_of (df_stmt st) = map printed_op ops \<and> unat (st_endOp (df_stmt st)) = length ops \<and>
    st_pc (df_stmt st) = 0"
proof -
  obtain st where st: "chidb_dbm_file_load en junk d f (Some bt) = Some (CHIDB_OK, d, st)"
    "holds (df_stmt st) (map printed_op ops)" "same_but_program (fresh_stmt (df_stmt junk) bt) (df_stmt st)"
    using load_program_file [OF assms] by blast
  then show ?thesis
    using holds_program [OF st(2)] same_but_programD [OF st(3)] by (auto simp: holds_def fresh_stmt_def)
qed

lemma program_file_loads_witness:
  "\<exists>d en junk st. chidb_dbm_file_load en junk d ''p'' (Some None) = Some (CHIDB_OK, d, st) \<and>
    program_of (df_stmt st) = [(halt_op 3)\<lparr>op_p4 := Some [101]\<rparr>] \<and> st_pc (df_stmt st) = 0"
proof -
  let ?d = "disk0\<lparr>files := (files disk0)(''p'' \<mapsto> program_file [halt_op 3])\<rparr>"
  let ?en = "\<lparr>en_slack = (\<lambda>_. ''x''), en_mkstemp = (\<lambda>_ _. None), en_parser = (\<lambda>_. (CHIDB_EINVALIDSQL, undefined)),
    en_dbfiledir = [], en_genfiledir = []\<rparr>"
  let ?junk = "\<lparr>df_filename = [], df_db = None, df_stmt = (stmt0 [])\<lparr>st_mem := 50\<rparr>, df_results = [], df_registers = [],
    df_dbfile = [], df_delete = False, df_copyOnUse = False, ls_section = 0, ls_program_type = UNKNOWN, ls_opnum = 0\<rparr>"
  have s: "show_int 3 = ''3''" "show_int 0 = ''0''" by (simp_all add: show_int_def show_nat.simps char_of_def bit_0)
  have "file_op_ok (halt_op 3)"
    by (simp add: file_op_ok_def op_ok_def text_ok_def text_plain_def halt_op_def chidb_stmt_op_print_def pad_right_def text_of_def s)
  then have "\<exists>st. chidb_dbm_file_load ?en ?junk ?d ''p'' (Some None) = Some (CHIDB_OK, ?d, st) \<and>
    program_of (df_stmt st) = map printed_op [halt_op 3] \<and> unat (st_endOp (df_stmt st)) = length [halt_op 3] \<and>
    st_pc (df_stmt st) = 0"
    by (intro program_file_loads) (simp_all add: slack_ok_def isspace_def dbm_program_def halt_op_def)
  then show ?thesis by (auto simp: printed_op_def halt_op_def)
qed

text \<open>C21. The process started on a database file it opens, and given the command \<open>.explain on\<close> and then
  any sequence of statements the parser accepts, prints in order the whole generated program of each
  EXPLAIN, one line an instruction under the names of the columns, and for any other statement the bare
  header, since it never has a row. The disk is as the opening left it.\<close>

theorem shell_prints_statements:
  assumes "chidb_Btree_open d f = Some (rc, d', bt)" and "50 \<le> st_mem (en_junk_stmt en)" and "slack_ok (en_slack en)"
    and "list_all edited_line cmds" and "list_all (sql_line en) cmds"
  shows "let ctx = (opened_ctx bt f)\<lparr>sh_header := True, sh_mode := MODE_COLUMN\<rparr>
    in chidb_main en d None (Some f) (map (\<lambda>cmd. cmd @ [Newline]) (explain_command # cmds)) =
      Some (Inr (d', ctx, concat (map (\<lambda>cmd. statement_output ctx (snd (en_parser en (bytes_of cmd)))) cmds) @ line_end))"
proof -
  have "edited_line explain_command" by (simp add: explain_command_def edited_line_def)
  then show ?thesis
    using sql_loop [OF _ assms(2,4,5), of "(opened_ctx bt f)\<lparr>sh_header := True, sh_mode := MODE_COLUMN\<rparr>" bt d']
      explain_on [OF assms(3), of d' "opened_ctx bt f"] edited_line_end [of explain_command]
    unfolding main_loop [OF assms(1)] by (simp add: opened_ctx_def edited_line_def)
qed

lemma shell_prints_statements_witness:
  "\<exists>d bt. chidb_Btree_open disk0 ''db'' = Some (CHIDB_OK, d, bt) \<and>
    (\<exists>ctx. chidb_main env0 disk0 None (Some ''db'') [''.explain on'' @ line_end, ''E'' @ line_end, ''S'' @ line_end] =
      Some (Inr (d, ctx, ''addr       opcode     p1         p2         p3         p4        '' @ line_end @
        header_rule 6 @ explain_listing MODE_COLUMN (codegen_ops [69]) @
        ''id         sql        null      '' @ line_end @ header_rule 3 @ line_end)))"
proof -
  obtain d where o': "chidb_Btree_open disk0 ''db'' = Some (CHIDB_OK, d, Some (new_pager ''db''))"
    using new_file_tree [of disk0 "''db''"] by auto
  have l: "list_all edited_line [''E'', ''S'']" "list_all (sql_line env0) [''E'', ''S'']"
    by (simp_all add: edited_line_def sql_line_def bytes_of_def)
  let ?ctx = "(opened_ctx (Some (new_pager ''db'')) ''db'')\<lparr>sh_header := True, sh_mode := MODE_COLUMN\<rparr>"
  have "chidb_main env0 disk0 None (Some ''db'') (map (\<lambda>cmd. cmd @ [Newline]) (explain_command # [''E'', ''S''])) =
      Some (Inr (d, ?ctx, concat (map (\<lambda>cmd. statement_output ?ctx (snd (en_parser env0 (bytes_of cmd)))) [''E'', ''S'']) @ line_end))"
    using shell_prints_statements [OF o' _ _ l] by (simp only: Let_def env0_simps)
  then show ?thesis
    using o' by (intro exI conjI) (simp_all add: output_in_columns bytes_of_def explain_command_def line_end_def)
qed

text \<open>C22. \<open>.dbmrun\<close> on a file of printed instructions that only store in the ten registers of a new
  statement, with a database open: it prints that there are no rows, the program, and the registers as
  the instructions left them one after the other. Closing the file then reads \<open>delete_dbfile\<close>, which
  nothing has set: what \<open>malloc\<close> left there decides whether the file of that name is removed.\<close>

theorem dbmrun_prints_program:
  assumes "sh_db ctx = Some bt" and "files d f = Some (program_file ops)" and "token_ok (Plain f)"
    and "slack_ok (en_slack en)" and "max 50 (length ops) \<le> st_mem (df_stmt (en_junk_file en))"
    and "list_all file_op_ok ops" and "list_all (straight_op 10) ops" and "length ops \<le> 2 ^ 31"
  shows "chidb_shell_handle_cmd en d ctx (''.dbmrun '' @ f) =
    Some (Inr (0, (if df_delete (en_junk_file en) then remove_file (df_dbfile (en_junk_file en)) d else d), ctx,
      ''This program produced no result rows.'' @ line_end @ line_end @
      program_listing (map printed_op ops) (fold effect ops (replicate 10 Reg_Unspecified))))"
  using dbmrun_command [OF assms] by (simp add: chidb_dbm_file_close_def)

lemma dbmrun_prints_program_witness:
  "\<exists>d. files d ''old'' = Some [1] \<and> (\<exists>d' out. chidb_shell_handle_cmd env0 d ctx0 ''.dbmrun p'' = Some (Inr (0, d', ctx0, out)) \<and>
    files d' ''old'' = None \<and> out = ''This program produced no result rows.'' @ line_end @ line_end @
      program_listing [printed_op \<lparr>op_code = Op_Integer, op_p1 = 7, op_p2 = 0, op_p3 = 0, op_p4 = None\<rparr>]
        (Reg_Int32 7 # replicate 9 Reg_Unspecified))"
proof -
  let ?op = "\<lparr>op_code = Op_Integer, op_p1 = 7, op_p2 = 0, op_p3 = 0, op_p4 = None\<rparr>"
  let ?d = "disk0\<lparr>files := (files disk0)(''p'' \<mapsto> program_file [?op], ''old'' \<mapsto> [1])\<rparr>"
  have s: "show_int 7 = ''7''" "show_int 0 = ''0''" by (simp_all add: show_int_def show_nat.simps char_of_def bit_0)
  have regs: "replicate 10 Reg_Unspecified = Reg_Unspecified # replicate 9 Reg_Unspecified"
    by (simp add: replicate_Suc [symmetric] del: replicate_Suc)
  have "file_op_ok ?op"
    by (simp add: file_op_ok_def op_ok_def chidb_stmt_op_print_def pad_right_def s)
  then have "chidb_shell_handle_cmd env0 ?d ctx0 (''.dbmrun '' @ ''p'') =
      Some (Inr (0, (if df_delete (en_junk_file env0) then remove_file (df_dbfile (en_junk_file env0)) ?d else ?d), ctx0,
        ''This program produced no result rows.'' @ line_end @ line_end @
        program_listing (map printed_op [?op]) (fold effect [?op] (replicate 10 Reg_Unspecified))))"
    by (intro dbmrun_prints_program) (simp_all add: ctx0_def isspace_def straight_op_def)
  then show ?thesis unfolding regs
    by (intro exI [of _ ?d]) (simp add: effect_def remove_file_def)
qed

text \<open>C23. A cursor that has been opened cannot be moved: advancing it ends the process with status
  1, also after a rewind, and a rewind that returns says that the table is empty.\<close>

theorem opened_cursor_stuck:
  assumes "chidb_dbm_init_cursor d cu file bt root = Some (Inr (rc, d1, bt', cu1))"
  shows "rc = CHIDB_OK \<and> chidb_dbm_next d2 cu1 = Some (Inl 1) \<and>
    (\<forall>b cu2. chidb_dbm_rewind d2 cu1 = Some (b, cu2) \<longrightarrow> \<not> b \<and> chidb_dbm_next d2 cu2 = Some (Inl 1))"
  using init_fresh [OF assms] rewind_result next_fresh by blast

lemma opened_cursor_stuck_witness:
  "\<exists>d1 bt cu. chidb_dbm_init_cursor disk0 \<lparr>cu_type = CURSOR_READ, cu_vars = None\<rparr> (Some ''db'') None 1 =
      Some (Inr (CHIDB_OK, d1, bt, cu)) \<and> chidb_dbm_next d1 cu = Some (Inl 1)"
proof -
  obtain d1 where o': "chidb_Btree_open disk0 ''db'' = Some (CHIDB_OK, d1, Some (new_pager ''db''))"
    using new_file_tree [of disk0 "''db''"] by auto
  then obtain bt cu where i: "chidb_dbm_init_cursor disk0 \<lparr>cu_type = CURSOR_READ, cu_vars = None\<rparr> (Some ''db'') None 1 =
      Some (Inr (CHIDB_OK, d1, bt, cu))" by (simp add: chidb_dbm_init_cursor_def)
  from opened_cursor_stuck [OF i] i show ?thesis by blast
qed

text \<open>Rewinding an opened cursor on a table rooted in page 1 is defined for the empty table
  only: as soon as there is a row, or a page below the root, it writes through a null pointer.\<close>

theorem rewind_needs_empty_table:
  assumes "fresh_cursor (Some pg) cu" and "tree_rep d pg t" and "root_page t = 1"
  shows "chidb_dbm_rewind d cu = (if t = Leaf 1 [] then Some (False, cu) else None)"
  using assms by (rule rewind_tree)

lemma rewind_needs_empty_table_witness:
  "\<exists>d cu. fresh_cursor (Some (new_pager ''db'')) cu \<and> tree_rep d (new_pager ''db'') (Leaf 1 [(5, [1])]) \<and>
    chidb_dbm_rewind d cu = None"
proof -
  let ?cu = "\<lparr>cu_type = CURSOR_READ, cu_vars = Some \<lparr>cv_heap = [], cv_path = \<lparr>cp_head = Ptr_null, cp_tail = Ptr_null\<rparr>,
     cv_bt = Some (new_pager ''db'')\<rparr>\<rparr>"
  obtain d where t: "tree_rep d (new_pager ''db'') (Leaf 1 [(5, [1])])"
    by (rule one_row_table [of disk0 "''db''" "[1]"]) auto
  have "fresh_cursor (Some (new_pager ''db'')) ?cu" by (simp add: fresh_cursor_def)
  with rewind_needs_empty_table [OF this t] t show ?thesis by auto
qed

end
