(* ===== verification/IrcMessage.thy ===== *)
theory IrcMessage
  imports Prelude
begin

text \<open>
  The messages of the IRC server (\<open>irc/src/message.c\<close>). A C string is the list of the
  characters before its terminating NUL; a pointer that may be NULL is an option. The heap
  is seen through one number only: \<open>usable n\<close> is how many bytes a block from \<open>malloc(n)\<close>
  really holds, which the C standard bounds below by \<open>n\<close>; copying a string to a new block
  is undefined (\<open>None\<close>) when the string and its NUL do not fit.
\<close>

definition CHUNK_SIZE :: nat where "CHUNK_SIZE = 512"

text \<open>The two buffers of a client are arrays of 4096 characters.\<close>

definition BUFFER_SIZE :: nat where "BUFFER_SIZE = 4096"

definition CR :: char where "CR = CHR 0x0D"

definition LF :: char where "LF = CHR 0x0A"

definition NUL :: char where "NUL = CHR 0x00"

record message =
  ms_prefix :: "string option"
  ms_cmd :: "string option"
  ms_args :: "string option list"

text \<open>The element \<open>args[i]\<close> of the array of a message.\<close>

definition arg_of :: "message \<Rightarrow> nat \<Rightarrow> string option option" where
  "arg_of msg i = (if i < length (ms_args msg) then Some (ms_args msg ! i) else None)"

section \<open>Strings\<close>

text \<open>\<open>p = malloc(n); strcpy(p, s)\<close>.\<close>

definition malloc_strcpy :: "(nat \<Rightarrow> nat) \<Rightarrow> nat \<Rightarrow> string \<Rightarrow> string option" where
  "malloc_strcpy usable n s = (if length s < usable n then Some s else None)"

text \<open>\<open>strtok\<close> from the position it has kept: the token and the text it will go on with, or no
  token, and then it stays at the end of the string.\<close>

definition strtok :: "string \<Rightarrow> string \<Rightarrow> string option \<times> string" where
  "strtok delims s =
     (let t = dropWhile (\<lambda>c. c \<in> set delims) s in
      if t = [] then (None, [])
      else (Some (takeWhile (\<lambda>c. c \<notin> set delims) t), drop 1 (dropWhile (\<lambda>c. c \<notin> set delims) t)))"

text \<open>What is left in the buffer after the first call: a NUL has been written behind the token.\<close>

definition strtok_cut :: "string \<Rightarrow> string \<Rightarrow> string" where
  "strtok_cut delims s =
     (let t = dropWhile (\<lambda>c. c \<in> set delims) s in
      takeWhile (\<lambda>c. c \<in> set delims) s @ takeWhile (\<lambda>c. c \<notin> set delims) t)"

definition starts_with_colon :: "string \<Rightarrow> bool" where
  "starts_with_colon token \<longleftrightarrow> length token > 0 \<and> token ! 0 = CHR '':''"

section \<open>Parsing\<close>

text \<open>The loop over the arguments: \<open>n\<close> slots are left to fill, \<open>token\<close> is the current token and
  \<open>save\<close> the text \<open>strtok\<close> will go on with. A token that starts with a colon takes the rest of
  the message; its block is sized without the blank between them.\<close>

fun parse_args :: "(nat \<Rightarrow> nat) \<Rightarrow> nat \<Rightarrow> string option \<Rightarrow> string \<Rightarrow> string option list option" where
  "parse_args usable 0 token save = Some []"
| "parse_args usable (Suc n) None save = do {
     args \<leftarrow> parse_args usable n None save;
     Some (None # args) }"
| "parse_args usable (Suc n) (Some token) save =
     (if starts_with_colon token then
        (let (rest, save') = strtok [] save;
             arglength = length token + (case rest of None \<Rightarrow> 0 | Some r \<Rightarrow> length r);
             (token', save'') = strtok '' '' save' in do {
           arg \<leftarrow> malloc_strcpy usable arglength
                    (drop 1 token @ (case rest of None \<Rightarrow> [] | Some r \<Rightarrow> '' '' @ r));
           args \<leftarrow> parse_args usable n token' save'';
           Some (Some arg # args) })
      else
        (let (token', save') = strtok '' '' save in do {
           arg \<leftarrow> malloc_strcpy usable (length token) token;
           args \<leftarrow> parse_args usable n token' save';
           Some (Some arg # args) }))"

text \<open>The result is the string left in the buffer and the message.\<close>

definition parse_message :: "(nat \<Rightarrow> nat) \<Rightarrow> string \<Rightarrow> message \<Rightarrow> (string \<times> message) option" where
  "parse_message usable buffer msg =
     (let buffer = (if length buffer > 512 then take 512 buffer else buffer);
          (token, save) = strtok '' '' buffer in do {
        (prefix, token, save) \<leftarrow>
          (case token of
             Some t \<Rightarrow>
               (if starts_with_colon t then do {
                  p \<leftarrow> malloc_strcpy usable (length t) (drop 1 t);
                  Some (Some p, strtok '' '' save) }
                else Some (ms_prefix msg, token, save))
           | None \<Rightarrow> Some (ms_prefix msg, token, save));
        (cmd, token, save) \<leftarrow>
          (case token of
             Some t \<Rightarrow> do {
               c \<leftarrow> malloc_strcpy usable (length t + 1) t;
               Some (Some c, strtok '' '' save) }
           | None \<Rightarrow> Some (ms_cmd msg, token, save));
        args \<leftarrow> parse_args usable 15 token save;
        Some (strtok_cut '' '' buffer, \<lparr>ms_prefix = prefix, ms_cmd = cmd, ms_args = args\<rparr>) })"

definition is_valid :: "message \<Rightarrow> bool" where
  "is_valid msg \<longleftrightarrow> ms_cmd msg \<noteq> None"

text \<open>Logging a message walks along the array to its first NULL, past its end when all are used.\<close>

fun log_args :: "string option list \<Rightarrow> unit option" where
  "log_args [] = None"
| "log_args (None # args) = Some ()"
| "log_args (Some a # args) = log_args args"

definition log_message :: "message \<Rightarrow> unit option" where
  "log_message msg = log_args (ms_args msg)"

lemma log_args_defined: "log_args args = Some () \<longleftrightarrow> None \<in> set args"
  by (induction args rule: log_args.induct) auto

section \<open>Framing\<close>

text \<open>The search for the end of a line from index \<open>i\<close>; without one it answers at least the size.\<close>

function find_cr_from :: "string \<Rightarrow> nat \<Rightarrow> nat \<Rightarrow> nat" where
  "find_cr_from str n i =
     (if i + 1 < n then (if str ! i = CR \<and> str ! (i + 1) = LF then i else find_cr_from str n (i + 1))
      else i + 1)"
  by pat_completeness auto

termination
  by (relation "measure (\<lambda>(str, n, i). n - i)") auto

declare find_cr_from.simps [simp del]

definition find_cr :: "string \<Rightarrow> nat \<Rightarrow> nat" where
  "find_cr str n = find_cr_from str n 0"

text \<open>What \<open>recv\<close> returns: the bytes of a chunk (at least one, at most \<open>CHUNK_SIZE\<close>), zero when the
  peer has closed, or an error.\<close>

datatype received = Chunk string | Closed_by_peer | Recv_error

text \<open>What a call of \<open>read_full_message\<close> comes to: a message, the start of the next ones and the
  receptions not used; the end of the connection; or, when the receptions listed are used up, a
  call that waits.\<close>

datatype read_result = Full_message string string "received list" | No_message | Waiting string

text \<open>\<open>strncat\<close> into the message buffer stops at a NUL and is undefined past the end of it.\<close>

definition append_chunk :: "string \<Rightarrow> string \<Rightarrow> string option" where
  "append_chunk message buffer =
     (let s = message @ takeWhile (\<lambda>c. c \<noteq> NUL) buffer in
      if length s < BUFFER_SIZE then Some s else None)"

fun read_full_message :: "received list \<Rightarrow> string \<Rightarrow> read_result option" where
  "read_full_message inputs message =
     (let cr_index = find_cr message (length message) in
      if cr_index < length message
      then Some (Full_message (take cr_index message) (drop (cr_index + 2) message) inputs)
      else (case inputs of
          [] \<Rightarrow> Some (Waiting message)
        | Chunk buffer # inputs' \<Rightarrow> do {
            message' \<leftarrow> append_chunk message buffer;
            read_full_message inputs' message' }
        | _ # _ \<Rightarrow> Some No_message))"

declare read_full_message.simps [simp del]

text \<open>Progress: each message uses up a reception or shortens the buffer.\<close>

lemma read_shorter:
  "read_full_message inputs b = Some (Full_message line next rest) \<Longrightarrow>
   length rest < length inputs \<or>
   rest = inputs \<and> length line < length b \<and> length next < length b"
proof (induction inputs b rule: read_full_message.induct)
  case (1 inputs message)
  show ?case
  proof (cases "find_cr message (length message) < length message")
    case True
    then show ?thesis using "1.prems" by (auto simp: read_full_message.simps [of inputs] Let_def)
  next
    case False
    then obtain c inputs' m where "inputs = Chunk c # inputs'" "append_chunk message c = Some m"
      "read_full_message inputs' m = Some (Full_message line next rest)"
      using "1.prems"
      by (auto simp: read_full_message.simps [of inputs] Let_def bind_Some_conv split: list.splits received.splits)
    then show ?thesis using "1.IH" [OF refl False] by fastforce
  qed
qed

lemma strtok_cut_shorter: "length (strtok_cut d s) \<le> length s"
proof -
  have "length (strtok_cut d s) \<le> length (takeWhile (\<lambda>c. c \<in> set d) s) + length (dropWhile (\<lambda>c. c \<in> set d) s)"
    by (simp add: strtok_cut_def length_takeWhile_le)
  also have "\<dots> = length s"
    by (metis length_append takeWhile_dropWhile_id)
  finally show ?thesis .
qed

lemma parse_message_shorter:
  "parse_message usable buffer msg = Some (buffer', msg') \<Longrightarrow> length buffer' \<le> length buffer"
  using strtok_cut_shorter [of "'' ''" buffer] strtok_cut_shorter [of "'' ''" "take 512 buffer"]
  by (auto simp: parse_message_def bind_Some_conv Let_def split: prod.splits if_splits)

end
