(* ===== verification/IrcUser.thy ===== *)
theory IrcUser
  imports IrcMessage
begin

text \<open>
  The state of the IRC server and its table of users (\<open>irc/src/user.c\<close>, the types of \<open>user.h\<close>
  and \<open>channel.h\<close>). Users and channels live in the heap under addresses that are never handed
  out twice, so that an access to a user that has been freed is seen as undefined. The table
  lock has no counterpart: a message is handled as one step.
\<close>

definition MAX_USERS :: nat where "MAX_USERS = 100"
definition MAX_CHANNELS :: nat where "MAX_CHANNELS = 100"
definition MAX_CHANNEL_MEMBERS :: nat where "MAX_CHANNEL_MEMBERS = 100"
definition MAX_SAVED_MSGS :: nat where "MAX_SAVED_MSGS = 100"

record user =
  us_clientsock :: int
  us_client_addr_len :: u32
  us_clientaddr :: nat
  us_is_registered :: bool
  us_hostname :: "string option"
  us_nick :: "string option"
  us_username :: "string option"
  us_full_name :: "string option"

record archived_msg =
  am_msg :: message
  am_sender :: nat

record channel =
  ch_name :: string
  ch_members :: "nat option list"
  ch_msgs :: "archived_msg option list"

text \<open>What the server does to its sockets. \<open>Send_past fd b k\<close> is a call of \<open>send\<close> whose length is by \<open>k\<close>
  more than the array \<open>b\<close> it is given: the \<open>k\<close> bytes behind the array go out too, whatever they are.\<close>

datatype event = Send int string | Send_past int string nat | Close int

record server =
  sv_heap :: "nat \<Rightarrow> user option"
  sv_next :: nat
  sv_users :: "nat option list"
  sv_chan_heap :: "nat \<Rightarrow> channel option"
  sv_chan_next :: nat
  sv_channels :: "nat option list"
  sv_unregistered :: u32
  sv_events :: "event list"

definition start_server :: server where
  "start_server = \<lparr>sv_heap = (\<lambda>_. None), sv_next = 0, sv_users = replicate MAX_USERS None,
     sv_chan_heap = (\<lambda>_. None), sv_chan_next = 0, sv_channels = replicate MAX_CHANNELS None,
     sv_unregistered = 0, sv_events = []\<rparr>"

definition set_user :: "nat \<Rightarrow> user \<Rightarrow> server \<Rightarrow> server" where
  "set_user p u sv = sv\<lparr>sv_heap := (sv_heap sv)(p \<mapsto> u)\<rparr>"

text \<open>The first slot of a table that is NULL.\<close>

fun free_slot :: "'a option list \<Rightarrow> nat option" where
  "free_slot [] = None"
| "free_slot (None # xs) = Some 0"
| "free_slot (Some x # xs) = map_option Suc (free_slot xs)"

section \<open>Operations\<close>

definition init_user :: "int \<Rightarrow> u32 \<Rightarrow> nat \<Rightarrow> user" where
  "init_user clientsock client_addr_len clientaddr =
     \<lparr>us_clientsock = clientsock, us_client_addr_len = client_addr_len, us_clientaddr = clientaddr,
      us_is_registered = False, us_hostname = None, us_nick = None, us_username = None,
      us_full_name = None\<rparr>"

definition free_user :: "nat \<Rightarrow> server \<Rightarrow> server option" where
  "free_user client sv = do {
     c \<leftarrow> sv_heap sv client;
     Some (sv\<lparr>sv_heap := (sv_heap sv)(client := None)\<rparr>) }"

definition is_user_complete :: "user \<Rightarrow> bool" where
  "is_user_complete client \<longleftrightarrow>
     us_nick client \<noteq> None \<and> us_username client \<noteq> None \<and> us_full_name client \<noteq> None"

text \<open>The search compares with \<open>strcmp\<close>, which is undefined on a NULL name.\<close>

fun get_user_loop :: "(nat \<Rightarrow> user option) \<Rightarrow> string option \<Rightarrow> nat option list \<Rightarrow> nat option option" where
  "get_user_loop heap nick [] = Some None"
| "get_user_loop heap nick (None # us) = get_user_loop heap nick us"
| "get_user_loop heap nick (Some p # us) = do {
     u \<leftarrow> heap p;
     (case us_nick u of
        None \<Rightarrow> get_user_loop heap nick us
      | Some n \<Rightarrow> do {
          m \<leftarrow> nick;
          if n = m then Some (Some p) else get_user_loop heap nick us }) }"

definition get_user :: "string option \<Rightarrow> server \<Rightarrow> nat option option" where
  "get_user nick sv = get_user_loop (sv_heap sv) nick (sv_users sv)"

text \<open>With all slots taken control falls off the end of the function: the value is undefined,
  and the lock stays held.\<close>

definition register_user :: "nat \<Rightarrow> server \<Rightarrow> (bool \<times> server) option" where
  "register_user client sv = do {
     c \<leftarrow> sv_heap sv client;
     r \<leftarrow> get_user (us_nick c) sv;
     if r \<noteq> None then Some (False, sv)
     else do {
       i \<leftarrow> free_slot (sv_users sv);
       Some (True, sv\<lparr>sv_users := (sv_users sv)[i := Some client]\<rparr>) } }"

fun delete_loop :: "nat \<Rightarrow> nat option list \<Rightarrow> nat option list option" where
  "delete_loop client [] = None"
| "delete_loop client (u # us) =
     (if u = Some client then Some (None # us) else map_option ((#) u) (delete_loop client us))"

definition delete_user :: "nat \<Rightarrow> server \<Rightarrow> server option" where
  "delete_user client sv =
     (case delete_loop client (sv_users sv) of
        None \<Rightarrow> Some sv
      | Some users \<Rightarrow> do {
          sv \<leftarrow> free_user client sv;
          Some (sv\<lparr>sv_users := users\<rparr>) })"

definition update_nick :: "(nat \<Rightarrow> nat) \<Rightarrow> string option \<Rightarrow> nat \<Rightarrow> server \<Rightarrow> (bool \<times> server) option" where
  "update_nick usable new_nick client sv = do {
     c \<leftarrow> sv_heap sv client;
     r \<leftarrow> get_user (us_nick c) sv;
     if r \<noteq> None then Some (False, sv)
     else do {
       n \<leftarrow> new_nick;
       s \<leftarrow> malloc_strcpy usable (length n) n;
       Some (True, set_user client (c\<lparr>us_nick := Some s\<rparr>) sv) } }"

definition get_num_users :: "server \<Rightarrow> u32" where
  "get_num_users sv = of_nat (length (filter (\<lambda>u. u \<noteq> None) (sv_users sv)))"

end
