(* ===== verification/IrcChannel.thy ===== *)
theory IrcChannel
  imports IrcUser
begin

text \<open>The channels of the IRC server (\<open>irc/src/channel.c\<close>).\<close>

definition set_channel :: "nat \<Rightarrow> channel \<Rightarrow> server \<Rightarrow> server" where
  "set_channel p ch sv = sv\<lparr>sv_chan_heap := (sv_chan_heap sv)(p \<mapsto> ch)\<rparr>"

text \<open>The size of the struct: the name and its padding, and two arrays of 100 pointers.\<close>

definition sizeof_channel :: nat where
  "sizeof_channel = 56 + MAX_CHANNEL_MEMBERS * 8 + MAX_SAVED_MSGS * 8"

text \<open>A block of \<open>block\<close> bytes is made a channel: writing the arrays is undefined in a smaller
  block, and so is logging a name of exactly 50 characters, which is not terminated. A longer
  name is cut in the caller's string, which is returned.\<close>

definition init_channel :: "nat \<Rightarrow> string \<Rightarrow> (string \<times> channel) option" where
  "init_channel block name =
     (let name = (if length name > 50 then take 49 name else name) in
      if sizeof_channel \<le> block \<and> length name < 50
      then Some (name, \<lparr>ch_name = name, ch_members = replicate MAX_CHANNEL_MEMBERS None,
                        ch_msgs = replicate MAX_SAVED_MSGS None\<rparr>)
      else None)"

fun get_channel_loop :: "(nat \<Rightarrow> channel option) \<Rightarrow> string option \<Rightarrow> nat option list \<Rightarrow> nat option option" where
  "get_channel_loop heap name [] = Some None"
| "get_channel_loop heap name (None # cs) = get_channel_loop heap name cs"
| "get_channel_loop heap name (Some p # cs) = do {
     ch \<leftarrow> heap p;
     n \<leftarrow> name;
     if ch_name ch = n then Some (Some p) else get_channel_loop heap name cs }"

definition get_channel :: "string option \<Rightarrow> server \<Rightarrow> nat option option" where
  "get_channel name sv = get_channel_loop (sv_chan_heap sv) name (sv_channels sv)"

text \<open>A table that is full is reported on the standard error only.\<close>

definition add_channel :: "nat \<Rightarrow> server \<Rightarrow> server" where
  "add_channel ch sv =
     (case free_slot (sv_channels sv) of
        Some i \<Rightarrow> sv\<lparr>sv_channels := (sv_channels sv)[i := Some ch]\<rparr>
      | None \<Rightarrow> sv)"

definition add_msg :: "archived_msg \<Rightarrow> channel \<Rightarrow> channel" where
  "add_msg msg ch =
     (case free_slot (ch_msgs ch) of
        Some i \<Rightarrow> ch\<lparr>ch_msgs := (ch_msgs ch)[i := Some msg]\<rparr>
      | None \<Rightarrow> ch)"

fun is_member_loop :: "(nat \<Rightarrow> user option) \<Rightarrow> string option \<Rightarrow> nat option list \<Rightarrow> bool option" where
  "is_member_loop heap nick [] = Some False"
| "is_member_loop heap nick (None # ms) = is_member_loop heap nick ms"
| "is_member_loop heap nick (Some p # ms) = do {
     m \<leftarrow> heap p;
     n \<leftarrow> us_nick m;
     n' \<leftarrow> nick;
     if n = n' then Some True else is_member_loop heap nick ms }"

definition is_member :: "nat \<Rightarrow> channel \<Rightarrow> server \<Rightarrow> bool option" where
  "is_member user ch sv = do {
     u \<leftarrow> sv_heap sv user;
     is_member_loop (sv_heap sv) (us_nick u) (ch_members ch) }"

definition add_member :: "nat \<Rightarrow> channel \<Rightarrow> channel" where
  "add_member member ch =
     (case free_slot (ch_members ch) of
        Some i \<Rightarrow> ch\<lparr>ch_members := (ch_members ch)[i := Some member]\<rparr>
      | None \<Rightarrow> ch)"

end
