(* ===== verification/IrcReply.thy ===== *)
theory IrcReply
  imports IrcChannel
begin

text \<open>
  The replies of the IRC server (\<open>irc/src/reply.c\<close>). Each is formatted into an array of 512
  characters (\<open>sprintf_reply\<close>, undefined when the text does not fit or a string is NULL) and
  handed to \<open>send\<close>, whose result the code only logs; the model records the bytes.
\<close>

section \<open>Constants\<close>

definition RPL_WELCOME :: string where "RPL_WELCOME = ''001''"
definition RPL_YOURHOST :: string where "RPL_YOURHOST = ''002''"
definition RPL_CREATED :: string where "RPL_CREATED = ''003''"
definition RPL_MYINFO :: string where "RPL_MYINFO = ''004''"
definition RPL_MOTDSTART :: string where "RPL_MOTDSTART = ''375''"
definition RPL_MOTD :: string where "RPL_MOTD = ''372''"
definition RPL_ENDOFMOTD :: string where "RPL_ENDOFMOTD = ''376''"
definition ERR_NICKNAMEINUSE :: string where "ERR_NICKNAMEINUSE = ''433''"
definition ERR_ALREADYREGISTRED :: string where "ERR_ALREADYREGISTRED = ''462''"
definition RPL_LUSERCLIENT :: string where "RPL_LUSERCLIENT = ''251''"
definition RPL_LUSEROP :: string where "RPL_LUSEROP = ''252''"
definition RPL_LUSERUNKNOWN :: string where "RPL_LUSERUNKNOWN = ''253''"
definition RPL_LUSERCHANNELS :: string where "RPL_LUSERCHANNELS = ''254''"
definition RPL_LUSERME :: string where "RPL_LUSERME = ''255''"
definition RPL_WHOISUSER :: string where "RPL_WHOISUSER = ''311''"
definition RPL_WHOISSERVER :: string where "RPL_WHOISSERVER = ''312''"
definition RPL_ENDOFWHOIS :: string where "RPL_ENDOFWHOIS = ''318''"
definition RPL_NAMREPLY :: string where "RPL_NAMREPLY = ''353''"
definition RPL_ENDOFNAMES :: string where "RPL_ENDOFNAMES = ''366''"
definition ERR_NOMOTD :: string where "ERR_NOMOTD = ''422''"
definition ERR_NOSUCHNICK :: string where "ERR_NOSUCHNICK = ''401''"
definition ERR_UNKNOWNCOMMAND :: string where "ERR_UNKNOWNCOMMAND = ''421''"

definition server_name :: string where "server_name = ''localhost''"
definition version :: string where "version = ''v3.14''"
definition created :: string where "created = ''yesterday''"
definition user_modes :: string where "user_modes = ''ao''"
definition channel_modes :: string where "channel_modes = ''mtov''"

section \<open>Formatting and sending\<close>

text \<open>The parts of a format in order; NULL for \<open>%s\<close> is undefined.\<close>

fun concat_parts :: "string option list \<Rightarrow> string option" where
  "concat_parts [] = Some []"
| "concat_parts (p # ps) = do { s \<leftarrow> p; t \<leftarrow> concat_parts ps; Some (s @ t) }"

definition sprintf_reply :: "string option list \<Rightarrow> string option" where
  "sprintf_reply parts = do {
     s \<leftarrow> concat_parts parts;
     if length s < 512 then Some s else None }"

definition send_event :: "int \<Rightarrow> string \<Rightarrow> server \<Rightarrow> server" where
  "send_event sock bytes sv = sv\<lparr>sv_events := sv_events sv @ [Send sock bytes]\<rparr>"

text \<open>\<open>snprintf\<close> leaves at most 512 characters and a NUL in the 513 of the array but returns the
  full length, and that many bytes are sent. Of a longer reply the last two characters kept
  become the line end, but \<open>msg_size\<close> stays what it was, so \<open>send\<close> reads behind the array.\<close>

definition send_reply :: "nat \<Rightarrow> string \<Rightarrow> server \<Rightarrow> server option" where
  "send_reply client reply sv = do {
     c \<leftarrow> sv_heap sv client;
     let full_reply = '':'' @ server_name @ '' '' @ reply @ [CR, LF];
     let msg_size = length full_reply;
     if msg_size > 513
     then Some (sv\<lparr>sv_events := sv_events sv @
       [Send_past (us_clientsock c) (take 510 full_reply @ [CR, LF, NUL]) (msg_size - 513)]\<rparr>)
     else Some (send_event (us_clientsock c) (take msg_size (take 512 full_reply @ [NUL])) sv) }"

section \<open>The replies\<close>

definition send_rpl_welcome :: "nat \<Rightarrow> server \<Rightarrow> server option" where
  "send_rpl_welcome client sv = do {
     c \<leftarrow> sv_heap sv client;
     reply \<leftarrow> sprintf_reply [Some RPL_WELCOME, Some '' '', us_nick c, Some '' :Welcome to the Internet Relay Network '',
        us_nick c, Some ''!'', us_username c, Some ''@'', us_hostname c];
     send_reply client reply sv }"

definition send_rpl_yourhost :: "nat \<Rightarrow> server \<Rightarrow> server option" where
  "send_rpl_yourhost client sv = do {
     c \<leftarrow> sv_heap sv client;
     reply \<leftarrow> sprintf_reply [Some RPL_YOURHOST, Some '' '', us_nick c, Some '' :Your host is '', Some server_name,
        Some '', running version '', Some version];
     send_reply client reply sv }"

definition send_rpl_created :: "nat \<Rightarrow> server \<Rightarrow> server option" where
  "send_rpl_created client sv = do {
     c \<leftarrow> sv_heap sv client;
     reply \<leftarrow> sprintf_reply [Some RPL_CREATED, Some '' '', us_nick c, Some '' :This server was created '', Some created];
     send_reply client reply sv }"

definition send_rpl_myinfo :: "nat \<Rightarrow> server \<Rightarrow> server option" where
  "send_rpl_myinfo client sv = do {
     c \<leftarrow> sv_heap sv client;
     reply \<leftarrow> sprintf_reply [Some RPL_MYINFO, Some '' '', us_nick c, Some '' '', Some server_name, Some '' '', Some version,
        Some '' '', Some user_modes, Some '' '', Some channel_modes];
     send_reply client reply sv }"

definition send_rpl_motdstart :: "nat \<Rightarrow> server \<Rightarrow> server option" where
  "send_rpl_motdstart client sv = do {
     c \<leftarrow> sv_heap sv client;
     reply \<leftarrow> sprintf_reply [Some RPL_MOTDSTART, Some '' '', us_nick c, Some '' :- '', Some server_name,
        Some '' Message of the day - ''];
     send_reply client reply sv }"

definition send_rpl_motd :: "nat \<Rightarrow> string \<Rightarrow> server \<Rightarrow> server option" where
  "send_rpl_motd client motd_line sv = do {
     c \<leftarrow> sv_heap sv client;
     reply \<leftarrow> sprintf_reply [Some RPL_MOTD, Some '' '', us_nick c, Some '' :- '', Some motd_line];
     send_reply client reply sv }"

definition send_rpl_endofmotd :: "nat \<Rightarrow> server \<Rightarrow> server option" where
  "send_rpl_endofmotd client sv = do {
     c \<leftarrow> sv_heap sv client;
     reply \<leftarrow> sprintf_reply [Some RPL_ENDOFMOTD, Some '' '', us_nick c, Some '' :End of MOTD command''];
     send_reply client reply sv }"

definition send_err_nicknameinuse :: "nat \<Rightarrow> string option \<Rightarrow> string option \<Rightarrow> server \<Rightarrow> server option" where
  "send_err_nicknameinuse client old_nick new_nick sv = do {
     c \<leftarrow> sv_heap sv client;
     reply \<leftarrow> sprintf_reply [Some ERR_NICKNAMEINUSE, Some '' '', old_nick, Some '' '', new_nick,
        Some '' :Nickname is already in use''];
     send_reply client reply sv }"

definition send_err_alreadyregistred :: "nat \<Rightarrow> server \<Rightarrow> server option" where
  "send_err_alreadyregistred client sv = do {
     c \<leftarrow> sv_heap sv client;
     reply \<leftarrow> sprintf_reply [Some ERR_ALREADYREGISTRED, Some '' '', us_nick c,
        Some '' :Unauthorized command (already registered)''];
     send_reply client reply sv }"

definition send_rpl_luserclient :: "nat \<Rightarrow> u32 \<Rightarrow> server \<Rightarrow> server option" where
  "send_rpl_luserclient client num_users sv = do {
     c \<leftarrow> sv_heap sv client;
     reply \<leftarrow> sprintf_reply [Some RPL_LUSERCLIENT, Some '' '', us_nick c, Some '' :There are '', Some (show_int num_users),
        Some '' users and 0 services on 1 servers''];
     send_reply client reply sv }"

definition send_rpl_luserop :: "nat \<Rightarrow> server \<Rightarrow> server option" where
  "send_rpl_luserop client sv = do {
     c \<leftarrow> sv_heap sv client;
     reply \<leftarrow> sprintf_reply [Some RPL_LUSEROP, Some '' '', us_nick c, Some '' 0 :operator(s) online''];
     send_reply client reply sv }"

definition send_rpl_luserunknown :: "nat \<Rightarrow> u32 \<Rightarrow> server \<Rightarrow> server option" where
  "send_rpl_luserunknown client num_unknown sv = do {
     c \<leftarrow> sv_heap sv client;
     reply \<leftarrow> sprintf_reply [Some RPL_LUSERUNKNOWN, Some '' '', us_nick c, Some '' '', Some (show_int num_unknown),
        Some '' :unknown connection(s)''];
     send_reply client reply sv }"

definition send_rpl_luserchannels :: "nat \<Rightarrow> server \<Rightarrow> server option" where
  "send_rpl_luserchannels client sv = do {
     c \<leftarrow> sv_heap sv client;
     reply \<leftarrow> sprintf_reply [Some RPL_LUSERCHANNELS, Some '' '', us_nick c, Some '' 0 :channels formed''];
     send_reply client reply sv }"

definition send_rpl_luserme :: "nat \<Rightarrow> u32 \<Rightarrow> server \<Rightarrow> server option" where
  "send_rpl_luserme client num_clients sv = do {
     c \<leftarrow> sv_heap sv client;
     reply \<leftarrow> sprintf_reply [Some RPL_LUSERME, Some '' '', us_nick c, Some '' :I have '', Some (show_int num_clients),
        Some '' clients and 1 servers''];
     send_reply client reply sv }"

definition send_rpl_whoisuser :: "nat \<Rightarrow> nat \<Rightarrow> server \<Rightarrow> server option" where
  "send_rpl_whoisuser client target sv = do {
     c \<leftarrow> sv_heap sv client;
     t \<leftarrow> sv_heap sv target;
     reply \<leftarrow> sprintf_reply [Some RPL_WHOISUSER, Some '' '', us_nick c, Some '' '', us_nick t, Some '' '', us_username t,
        Some '' '', Some server_name, Some '' * :'', us_full_name t];
     send_reply client reply sv }"

definition send_rpl_whoisserver :: "nat \<Rightarrow> string option \<Rightarrow> server \<Rightarrow> server option" where
  "send_rpl_whoisserver client target_nick sv = do {
     c \<leftarrow> sv_heap sv client;
     reply \<leftarrow> sprintf_reply [Some RPL_WHOISSERVER, Some '' '', us_nick c, Some '' '', target_nick, Some '' '', Some server_name,
        Some '' :some server info''];
     send_reply client reply sv }"

definition send_rpl_endofwhois :: "nat \<Rightarrow> string option \<Rightarrow> server \<Rightarrow> server option" where
  "send_rpl_endofwhois client target_nick sv = do {
     c \<leftarrow> sv_heap sv client;
     reply \<leftarrow> sprintf_reply [Some RPL_ENDOFWHOIS, Some '' '', us_nick c, Some '' '', target_nick, Some '' :End of WHOIS list''];
     send_reply client reply sv }"

definition send_rpl_namreply :: "nat \<Rightarrow> string option \<Rightarrow> server \<Rightarrow> server option" where
  "send_rpl_namreply client channel sv = do {
     c \<leftarrow> sv_heap sv client;
     reply \<leftarrow> sprintf_reply [Some RPL_NAMREPLY, Some '' '', us_nick c, Some '' = '', channel, Some '' :name1 name2''];
     send_reply client reply sv }"

definition send_rpl_endofnames :: "nat \<Rightarrow> string option \<Rightarrow> server \<Rightarrow> server option" where
  "send_rpl_endofnames client channel sv = do {
     c \<leftarrow> sv_heap sv client;
     reply \<leftarrow> sprintf_reply [Some RPL_ENDOFNAMES, Some '' '', us_nick c, Some '' '', channel, Some '' :End of NAMES list''];
     send_reply client reply sv }"

definition send_err_nomotd :: "nat \<Rightarrow> server \<Rightarrow> server option" where
  "send_err_nomotd client sv = do {
     c \<leftarrow> sv_heap sv client;
     reply \<leftarrow> sprintf_reply [Some ERR_NOMOTD, Some '' '', us_nick c, Some '' :MOTD File is missing''];
     send_reply client reply sv }"

definition send_err_nosuchnick :: "nat \<Rightarrow> string option \<Rightarrow> server \<Rightarrow> server option" where
  "send_err_nosuchnick client nick sv = do {
     c \<leftarrow> sv_heap sv client;
     reply \<leftarrow> sprintf_reply [Some ERR_NOSUCHNICK, Some '' '', us_nick c, Some '' '', nick, Some '' :No such nick/channel''];
     send_reply client reply sv }"

definition send_err_unknowncommand :: "nat \<Rightarrow> string option \<Rightarrow> server \<Rightarrow> server option" where
  "send_err_unknowncommand client cmd sv = do {
     c \<leftarrow> sv_heap sv client;
     reply \<leftarrow> sprintf_reply [Some ERR_UNKNOWNCOMMAND, Some '' '', us_nick c, Some '' '', cmd, Some '' :Unknown command''];
     send_reply client reply sv }"

definition send_quit_response :: "nat \<Rightarrow> string option \<Rightarrow> server \<Rightarrow> server option" where
  "send_quit_response client message sv = do {
     c \<leftarrow> sv_heap sv client;
     let reason = (case message of None \<Rightarrow> ''Client Quit'' | Some m \<Rightarrow> m);
     reply \<leftarrow> sprintf_reply [Some ''ERROR :Closing Link: '', us_hostname c, Some '' ('', Some reason, Some '')''];
     send_reply client reply sv }"

text \<open>These two send what the array holds up to its NUL, with the end of the line put back when
  the text has been cut by more than one character.\<close>

definition clip :: "string \<Rightarrow> string" where
  "clip s = (if length s > 513 then take 510 s @ [CR, LF] else take 512 s)"

definition send_privmsg :: "nat \<Rightarrow> nat \<Rightarrow> string option \<Rightarrow> string \<Rightarrow> server \<Rightarrow> server option" where
  "send_privmsg client recipient message message_type sv = do {
     c \<leftarrow> sv_heap sv client;
     r \<leftarrow> sv_heap sv recipient;
     text \<leftarrow> concat_parts [Some '':'', us_nick c, Some ''!'', us_username c, Some ''@'', us_hostname c,
        Some '' '', Some message_type, Some '' '', us_nick r, Some '' :'', message, Some [CR, LF]];
     Some (send_event (us_clientsock r) (clip text) sv) }"

definition send_pong :: "nat \<Rightarrow> server \<Rightarrow> server option" where
  "send_pong client sv = do {
     reply \<leftarrow> sprintf_reply [Some ''PONG '', Some server_name];
     send_reply client reply sv }"

definition send_archived_msg :: "nat \<Rightarrow> archived_msg \<Rightarrow> server \<Rightarrow> server option" where
  "send_archived_msg client msg sv = do {
     c \<leftarrow> sv_heap sv client;
     s \<leftarrow> sv_heap sv (am_sender msg);
     arg \<leftarrow> arg_of (am_msg msg) 0;
     text \<leftarrow> concat_parts [Some '':'', us_nick s, Some ''!'', us_username s, Some ''@'', us_hostname s,
        Some '' '', ms_cmd (am_msg msg), Some '' '', arg, Some [CR, LF]];
     Some (send_event (us_clientsock c) (clip text) sv) }"

end
