(* ===== verification/IrcServer.thy ===== *)
theory IrcServer
  imports IrcReply
begin

text \<open>
  The handlers of the IRC server and the loop that serves a client (\<open>irc/src/server.c\<close>). The
  environment \<open>env\<close> is what the code gets from the system: the size of heap blocks, the lines
  of \<open>motd.txt\<close> when the file can be opened, and the name of a host. The threads of the clients
  are interleaved message by message.
\<close>

record env =
  en_usable :: "nat \<Rightarrow> nat"
  en_motd :: "string list option"
  en_getnameinfo :: "nat \<Rightarrow> u32 \<Rightarrow> string option"

section \<open>Handlers\<close>

definition handle_nick_msg :: "env \<Rightarrow> message \<Rightarrow> nat \<Rightarrow> server \<Rightarrow> server option" where
  "handle_nick_msg en msg client sv = do {
     nick \<leftarrow> arg_of msg 0;
     (ok, sv) \<leftarrow> update_nick (en_usable en) nick client sv;
     if \<not> ok then do {
       c \<leftarrow> sv_heap sv client;
       send_err_nicknameinuse client (us_nick c) nick sv }
     else Some sv }"

definition handle_user_msg :: "message \<Rightarrow> nat \<Rightarrow> server \<Rightarrow> server option" where
  "handle_user_msg msg client sv = send_err_alreadyregistred client sv"

definition handle_quit_msg :: "message \<Rightarrow> nat \<Rightarrow> server \<Rightarrow> server option" where
  "handle_quit_msg msg client sv = do {
     reason \<leftarrow> arg_of msg 0;
     sv \<leftarrow> send_quit_response client reason sv;
     c \<leftarrow> sv_heap sv client;
     delete_user client (sv\<lparr>sv_events := sv_events sv @ [Close (us_clientsock c)]\<rparr>) }"

definition handle_privmsg_msg :: "message \<Rightarrow> nat \<Rightarrow> server \<Rightarrow> server option" where
  "handle_privmsg_msg msg client sv = do {
     nick \<leftarrow> arg_of msg 0;
     recipient \<leftarrow> get_user nick sv;
     (case recipient of
        Some r \<Rightarrow> do { text \<leftarrow> arg_of msg 1; send_privmsg client r text ''PRIVMSG'' sv }
      | None \<Rightarrow> send_err_nosuchnick client nick sv) }"

definition handle_notice_msg :: "message \<Rightarrow> nat \<Rightarrow> server \<Rightarrow> server option" where
  "handle_notice_msg msg client sv = do {
     nick \<leftarrow> arg_of msg 0;
     recipient \<leftarrow> get_user nick sv;
     (case recipient of
        Some r \<Rightarrow> do { text \<leftarrow> arg_of msg 1; send_privmsg client r text ''NOTICE'' sv }
      | None \<Rightarrow> Some sv) }"

definition handle_whois_msg :: "message \<Rightarrow> nat \<Rightarrow> server \<Rightarrow> server option" where
  "handle_whois_msg msg client sv = do {
     nick \<leftarrow> arg_of msg 0;
     target \<leftarrow> get_user nick sv;
     (case target of
        Some p \<Rightarrow> do {
          t \<leftarrow> sv_heap sv p;
          sv \<leftarrow> send_rpl_whoisuser client p sv;
          sv \<leftarrow> send_rpl_whoisserver client (us_nick t) sv;
          send_rpl_endofwhois client (us_nick t) sv }
      | None \<Rightarrow> send_err_nosuchnick client nick sv) }"

text \<open>The loop over the saved messages stops at the first empty slot.\<close>

fun send_archived :: "nat \<Rightarrow> archived_msg option list \<Rightarrow> server \<Rightarrow> server option" where
  "send_archived client (Some m # ms) sv = do {
     sv \<leftarrow> send_archived_msg client m sv;
     send_archived client ms sv }"
| "send_archived client _ sv = Some sv"

text \<open>The variable \<open>channel\<close> hides the type of that name in \<open>malloc(sizeof(channel))\<close>: the block is
  sized for a pointer, 8 bytes. The name is cut in the message itself.\<close>

definition handle_join_msg :: "env \<Rightarrow> message \<Rightarrow> nat \<Rightarrow> server \<Rightarrow> server option" where
  "handle_join_msg en msg client sv = do {
     channel_name \<leftarrow> arg_of msg 0;
     found \<leftarrow> get_channel channel_name sv;
     if found \<noteq> None then Some sv
     else do {
       name \<leftarrow> channel_name;
       (name, ch) \<leftarrow> init_channel (en_usable en 8) name;
       let msg = msg\<lparr>ms_args := (ms_args msg)[0 := Some name]\<rparr>;
       let p = sv_chan_next sv;
       let sv = add_channel p (set_channel p ch (sv\<lparr>sv_chan_next := p + 1\<rparr>));
       member \<leftarrow> is_member client ch sv;
       if member then Some sv
       else do {
         let ch = add_msg \<lparr>am_msg = msg, am_sender = client\<rparr> (add_member client ch);
         sv \<leftarrow> send_archived client (ch_msgs ch) (set_channel p ch sv);
         sv \<leftarrow> send_rpl_namreply client (Some name) sv;
         send_rpl_endofnames client (Some name) sv } } }"

definition handle_ping_msg :: "nat \<Rightarrow> server \<Rightarrow> server option" where
  "handle_ping_msg client sv = send_pong client sv"

fun send_motd_lines :: "nat \<Rightarrow> string list \<Rightarrow> server \<Rightarrow> server option" where
  "send_motd_lines client [] sv = Some sv"
| "send_motd_lines client (line # lines) sv = do {
     sv \<leftarrow> send_rpl_motd client line sv;
     send_motd_lines client lines sv }"

definition handle_motd_msg :: "env \<Rightarrow> nat \<Rightarrow> server \<Rightarrow> server option" where
  "handle_motd_msg en client sv =
     (case en_motd en of
        Some lines \<Rightarrow> do {
          sv \<leftarrow> send_rpl_motdstart client sv;
          sv \<leftarrow> send_motd_lines client lines sv;
          send_rpl_endofmotd client sv }
      | None \<Rightarrow> send_err_nomotd client sv)"

definition handle_lusers_msg :: "nat \<Rightarrow> server \<Rightarrow> server option" where
  "handle_lusers_msg client sv = do {
     let num_registered = get_num_users sv;
     sv \<leftarrow> send_rpl_luserclient client num_registered sv;
     sv \<leftarrow> send_rpl_luserop client sv;
     sv \<leftarrow> send_rpl_luserunknown client (sv_unregistered sv) sv;
     sv \<leftarrow> send_rpl_luserchannels client sv;
     send_rpl_luserme client (sv_unregistered sv + num_registered) sv }"

definition handle_msg :: "env \<Rightarrow> message \<Rightarrow> nat \<Rightarrow> server \<Rightarrow> server option" where
  "handle_msg en msg client sv = do {
     cmd \<leftarrow> ms_cmd msg;
     if cmd = ''NICK'' then handle_nick_msg en msg client sv
     else if cmd = ''USER'' then handle_user_msg msg client sv
     else if cmd = ''QUIT'' then handle_quit_msg msg client sv
     else if cmd = ''PRIVMSG'' then handle_privmsg_msg msg client sv
     else if cmd = ''NOTICE'' then handle_notice_msg msg client sv
     else if cmd = ''WHOIS'' then handle_whois_msg msg client sv
     else if cmd = ''JOIN'' then handle_join_msg en msg client sv
     else if cmd = ''PING'' then handle_ping_msg client sv
     else if cmd = ''PONG'' then Some sv
     else if cmd = ''MOTD'' then handle_motd_msg en client sv
     else if cmd = ''LUSERS'' then handle_lusers_msg client sv
     else send_err_unknowncommand client (Some cmd) sv }"

section \<open>Registration\<close>

text \<open>The first part of \<open>handle_registration\<close>: what the message says of the user.\<close>

definition registration_msg :: "env \<Rightarrow> message \<Rightarrow> nat \<Rightarrow> server \<Rightarrow> server option" where
  "registration_msg en msg client sv = do {
     cmd \<leftarrow> ms_cmd msg;
     if cmd = ''NICK'' then do {
       nick \<leftarrow> arg_of msg 0;
       found \<leftarrow> get_user nick sv;
       if found \<noteq> None then send_err_nicknameinuse client (Some ''*'') nick sv
       else do {
         c \<leftarrow> sv_heap sv client;
         n \<leftarrow> nick;
         s \<leftarrow> malloc_strcpy (en_usable en) (length n + 1) n;
         Some (set_user client (c\<lparr>us_nick := Some s\<rparr>) sv) } }
     else if cmd = ''USER'' then do {
       username \<leftarrow> arg_of msg 0;
       full_name \<leftarrow> arg_of msg 3;
       c \<leftarrow> sv_heap sv client;
       u \<leftarrow> username;
       f \<leftarrow> full_name;
       u \<leftarrow> malloc_strcpy (en_usable en) (length u + 1) u;
       f \<leftarrow> malloc_strcpy (en_usable en) (length f + 1) f;
       Some (set_user client (c\<lparr>us_username := Some u, us_full_name := Some f\<rparr>) sv) }
     else if cmd = ''QUIT'' then handle_quit_msg msg client sv
     else Some sv }"

text \<open>Its second part, which is reached on every path: a user who is complete is registered.\<close>

definition try_register :: "env \<Rightarrow> nat \<Rightarrow> server \<Rightarrow> server option" where
  "try_register en client sv = do {
     c \<leftarrow> sv_heap sv client;
     if is_user_complete c then do {
       (ok, sv) \<leftarrow> register_user client sv;
       if ok then do {
         let sv = (set_user client (c\<lparr>us_is_registered := True\<rparr>) sv)\<lparr>sv_unregistered := sv_unregistered sv - 1\<rparr>;
         sv \<leftarrow> send_rpl_welcome client sv;
         sv \<leftarrow> send_rpl_yourhost client sv;
         sv \<leftarrow> send_rpl_created client sv;
         sv \<leftarrow> send_rpl_myinfo client sv;
         sv \<leftarrow> handle_lusers_msg client sv;
         handle_motd_msg en client sv }
       else send_err_nicknameinuse client (Some ''*'') (us_nick c) sv }
     else Some sv }"

definition handle_registration :: "env \<Rightarrow> message \<Rightarrow> nat \<Rightarrow> server \<Rightarrow> server option" where
  "handle_registration en msg client sv = do {
     sv \<leftarrow> registration_msg en msg client sv;
     try_register en client sv }"

section \<open>Serving a client\<close>

text \<open>A new connection: \<open>run_server\<close> makes a user for it, and the thread of the client starts.\<close>

definition accept_client :: "int \<Rightarrow> u32 \<Rightarrow> nat \<Rightarrow> server \<Rightarrow> nat \<times> server" where
  "accept_client replysockfd client_addr_len cli_addr sv =
     (let client = sv_next sv in
      (client, set_user client (init_user replysockfd client_addr_len cli_addr) (sv\<lparr>sv_next := client + 1\<rparr>)))"

text \<open>Without a host name the code goes on with an array that has not been written.\<close>

definition start_client :: "env \<Rightarrow> nat \<Rightarrow> server \<Rightarrow> server option" where
  "start_client en client sv = do {
     c \<leftarrow> sv_heap sv client;
     client_hostname \<leftarrow> en_getnameinfo en (us_clientaddr c) (us_client_addr_len c);
     h \<leftarrow> malloc_strcpy (en_usable en) (length client_hostname + 1) client_hostname;
     Some (set_user client (c\<lparr>us_hostname := Some h\<rparr>) (sv\<lparr>sv_unregistered := sv_unregistered sv + 1\<rparr>)) }"

text \<open>The body of the loop for one full message: the state and the message buffer after it. A
  message without a command is dropped with \<open>continue\<close>, which leaves the buffer as the parser
  has cut it and forgets \<open>next_message\<close>.\<close>

definition serve_message :: "env \<Rightarrow> nat \<Rightarrow> string \<Rightarrow> string \<Rightarrow> server \<Rightarrow> (server \<times> string) option" where
  "serve_message en client in_buffer next_message sv = do {
     (in_buffer, msg) \<leftarrow> parse_message (en_usable en) in_buffer \<lparr>ms_prefix = None, ms_cmd = None, ms_args = []\<rparr>;
     log_message msg;
     if \<not> is_valid msg then Some (sv, in_buffer)
     else do {
       c \<leftarrow> sv_heap sv client;
       sv \<leftarrow> (if us_is_registered c then handle_msg en msg client sv else handle_registration en msg client sv);
       Some (sv, next_message) } }"

text \<open>The loop over what \<open>recv\<close> gives; \<open>None\<close> for the buffer when the connection has ended.\<close>

lemma serve_message_shorter:
  "serve_message en client line next sv = Some (sv', b) \<Longrightarrow> length b \<le> max (length line) (length next)"
  using parse_message_shorter [of "en_usable en" line "\<lparr>ms_prefix = None, ms_cmd = None, ms_args = []\<rparr>"]
  by (auto simp: serve_message_def bind_Some_conv split: if_splits)

function serve_loop ::
  "env \<Rightarrow> nat \<Rightarrow> int \<Rightarrow> received list \<Rightarrow> string \<Rightarrow> server \<Rightarrow> (server \<times> string option) option" where
  "serve_loop en client clientsock inputs in_buffer sv =
     (case read_full_message inputs in_buffer of
        None \<Rightarrow> None
      | Some (Waiting b) \<Rightarrow> Some (sv, Some b)
      | Some No_message \<Rightarrow> Some (sv\<lparr>sv_events := sv_events sv @ [Close clientsock]\<rparr>, None)
      | Some (Full_message line next_message inputs') \<Rightarrow>
          (case serve_message en client line next_message sv of
             None \<Rightarrow> None
           | Some (sv', b) \<Rightarrow> serve_loop en client clientsock inputs' b sv'))"
  by pat_completeness auto

termination
proof (relation "measures [\<lambda>(en, client, fd, inputs, b, sv). length inputs, \<lambda>(en, client, fd, inputs, b, sv). length b]")
  fix en client fd inputs b sv r line nx inputs' sv' b' x y z
  assume "read_full_message inputs b = Some r" and "r = Full_message line nx inputs'"
    and "serve_message en client line nx sv = Some z" and "(sv', b') = z"
  then show "((en, client, fd, inputs', b', sv'), (en, client, fd, inputs, b, sv)) \<in>
      measures [\<lambda>(en, client, fd, inputs, b, sv). length inputs, \<lambda>(en, client, fd, inputs, b, sv). length b]"
    using read_shorter [of inputs b line nx inputs'] serve_message_shorter [of en client line nx sv sv' b'] by auto
qed simp

declare serve_loop.simps [simp del]

definition handle_client :: "env \<Rightarrow> nat \<Rightarrow> received list \<Rightarrow> server \<Rightarrow> (server \<times> string option) option" where
  "handle_client en client inputs sv = do {
     c \<leftarrow> sv_heap sv client;
     sv \<leftarrow> start_client en client sv;
     serve_loop en client (us_clientsock c) inputs [] sv }"

text \<open>The server with its clients, as steps: a connection is accepted and its thread starts, or
  one client handles its next message, or a connection ends. \<open>conns\<close> holds the socket and the
  buffer of each thread.\<close>

type_synonym irc_config = "server \<times> (nat \<Rightarrow> (int \<times> string) option)"

inductive irc_step :: "env \<Rightarrow> irc_config \<Rightarrow> irc_config \<Rightarrow> bool" for en where
  connect: "accept_client fd len addr sv = (client, sv1) \<Longrightarrow> start_client en client sv1 = Some sv2 \<Longrightarrow>
    irc_step en (sv, conns) (sv2, conns(client \<mapsto> (fd, [])))"
| serve: "conns client = Some (fd, b) \<Longrightarrow> read_full_message inputs b = Some (Full_message line next inputs') \<Longrightarrow>
    serve_message en client line next sv = Some (sv', b') \<Longrightarrow>
    irc_step en (sv, conns) (sv', conns(client \<mapsto> (fd, b')))"
| disconnect: "conns client = Some (fd, b) \<Longrightarrow> read_full_message inputs b = Some No_message \<Longrightarrow>
    irc_step en (sv, conns) (sv\<lparr>sv_events := sv_events sv @ [Close fd]\<rparr>, conns(client := None))"

inductive irc_reach :: "env \<Rightarrow> irc_config \<Rightarrow> bool" for en where
  start: "irc_reach en (start_server, (\<lambda>_. None))"
| step: "irc_reach en s \<Longrightarrow> irc_step en s s' \<Longrightarrow> irc_reach en s'"

end
