(* ===== verification/IrcMessageCorrect.thy ===== *)
theory IrcMessageCorrect
  imports IrcMessage
begin

text \<open>
  Correctness of the message layer: the framing of lines does not depend on how the bytes
  arrive, and parsing undoes the printing of a message.
\<close>

section \<open>Framing\<close>

definition crlf_at :: "string \<Rightarrow> nat \<Rightarrow> bool" where
  "crlf_at s i \<longleftrightarrow> i + 1 < length s \<and> s ! i = CR \<and> s ! (i + 1) = LF"

text \<open>\<open>k\<close> is the position of the first end of line.\<close>

definition first_crlf :: "string \<Rightarrow> nat \<Rightarrow> bool" where
  "first_crlf s k \<longleftrightarrow> crlf_at s k \<and> (\<forall>j < k. \<not> crlf_at s j)"

lemma find_cr_from_found:
  "crlf_at s k \<Longrightarrow> i \<le> k \<Longrightarrow> (\<And>j. i \<le> j \<Longrightarrow> j < k \<Longrightarrow> \<not> crlf_at s j) \<Longrightarrow>
   find_cr_from s (length s) i = k"
proof (induction "k - i" arbitrary: i)
  case 0
  then show ?case by (subst find_cr_from.simps) (simp add: crlf_at_def)
next
  case (Suc m)
  then have "\<not> crlf_at s i" "i + 1 < length s" by (auto simp: crlf_at_def)
  then show ?case using Suc by (subst find_cr_from.simps) (auto simp: crlf_at_def)
qed

lemma find_cr_from_none:
  "(\<And>j. i \<le> j \<Longrightarrow> \<not> crlf_at s j) \<Longrightarrow> length s \<le> find_cr_from s (length s) i"
proof (induction "length s - i" arbitrary: i)
  case 0
  then show ?case by (subst find_cr_from.simps) simp
next
  case (Suc m)
  then have "\<not> crlf_at s i" by simp
  then show ?case using Suc by (subst find_cr_from.simps) (auto simp: crlf_at_def)
qed

lemma find_cr_found: "first_crlf s k \<Longrightarrow> find_cr s (length s) = k"
  by (auto simp: first_crlf_def find_cr_def intro!: find_cr_from_found)

lemma find_cr_none: "(\<And>j. \<not> crlf_at s j) \<Longrightarrow> length s \<le> find_cr s (length s)"
  unfolding find_cr_def by (rule find_cr_from_none)

lemma first_crlf_less: "first_crlf s k \<Longrightarrow> k + 1 < length s"
  by (simp add: first_crlf_def crlf_at_def)

lemma first_crlf_cases:
  obtains k where "first_crlf s k" | "\<And>j. \<not> crlf_at s j"
proof (cases "\<exists>k. crlf_at s k")
  case True
  then have "first_crlf s (LEAST k. crlf_at s k)"
    by (auto simp: first_crlf_def intro: LeastI dest: not_less_Least)
  then show ?thesis by (rule that(1))
qed (use that(2) in blast)

lemma first_crlf_append: "first_crlf s k \<Longrightarrow> first_crlf (s @ t) k"
  by (auto simp: first_crlf_def crlf_at_def nth_append)

lemma first_crlf_unique: "first_crlf s j \<Longrightarrow> first_crlf s k \<Longrightarrow> j = k"
  using find_cr_found by blast

lemma first_crlf_split:
  assumes "first_crlf s k"
  shows "s = take k s @ [CR, LF] @ drop (k + 2) s"
proof -
  have "k + 1 < length s" "s ! k = CR" "s ! (k + 1) = LF" using assms by (auto simp: first_crlf_def crlf_at_def)
  then have "drop k s = CR # LF # drop (k + 2) s"
    using Cons_nth_drop_Suc [of k s] Cons_nth_drop_Suc [of "k + 1" s] by simp
  then show ?thesis using append_take_drop_id [of k s] by simp
qed

text \<open>The characters a list of receptions adds to the buffer.\<close>

definition texts :: "received list \<Rightarrow> string" where
  "texts inputs = concat (map (\<lambda>r. case r of Chunk b \<Rightarrow> takeWhile (\<lambda>c. c \<noteq> NUL) b | _ \<Rightarrow> []) inputs)"

definition all_chunks :: "received list \<Rightarrow> bool" where
  "all_chunks inputs \<longleftrightarrow> (\<forall>r \<in> set inputs. \<exists>b. r = Chunk b)"

lemma texts_simps [simp]:
  "texts [] = []" "texts (Chunk b # inputs) = takeWhile (\<lambda>c. c \<noteq> NUL) b @ texts inputs"
  by (simp_all add: texts_def)

lemma read_line:
  "all_chunks inputs \<Longrightarrow> length (b @ texts inputs) < BUFFER_SIZE \<Longrightarrow> first_crlf (b @ texts inputs) k \<Longrightarrow>
   \<exists>next rest. read_full_message inputs b = Some (Full_message (take k (b @ texts inputs)) next rest) \<and>
     next @ texts rest = drop (k + 2) (b @ texts inputs) \<and> all_chunks rest"
proof (induction inputs arbitrary: b)
  case Nil
  then show ?case
    using find_cr_found [of b k] first_crlf_less [of b k]
    by (auto simp: read_full_message.simps [of "[]"] Let_def)
next
  case (Cons r inputs)
  then obtain c where r: "r = Chunk c" by (auto simp: all_chunks_def)
  let ?c = "takeWhile (\<lambda>c. c \<noteq> NUL) c"
  show ?case
  proof (cases b rule: first_crlf_cases)
    case (1 j)
    then have jk: "j = k" using first_crlf_append [OF 1] Cons.prems(3) first_crlf_unique by blast
    have l: "k + 1 < length b" using 1 jk first_crlf_less by blast
    then show ?thesis
      using Cons.prems(1) find_cr_found [OF 1] jk by (simp add: read_full_message.simps [of "r # inputs"])
  next
    case 2
    then have "\<not> find_cr b (length b) < length b" using find_cr_none [of b] by (simp add: not_less)
    moreover have "append_chunk b c = Some (b @ ?c)"
      using Cons.prems(2) by (simp add: append_chunk_def r Let_def)
    ultimately have "read_full_message (r # inputs) b = read_full_message inputs (b @ ?c)"
      unfolding r by (simp add: read_full_message.simps [of "Chunk c # inputs" b] Let_def)
    then show ?thesis using Cons.IH [of "b @ ?c"] Cons.prems by (simp add: r all_chunks_def)
  qed
qed

text \<open>A call that gets no line waits with everything received in its buffer.\<close>

lemma read_waits:
  "all_chunks inputs \<Longrightarrow> length (b @ texts inputs) < BUFFER_SIZE \<Longrightarrow> (\<And>j. \<not> crlf_at (b @ texts inputs) j) \<Longrightarrow>
   read_full_message inputs b = Some (Waiting (b @ texts inputs))"
proof (induction inputs arbitrary: b)
  case Nil
  then show ?case using find_cr_none [of b] by (simp add: read_full_message.simps [of "[]"] not_less Let_def)
next
  case (Cons r inputs)
  then obtain c where r: "r = Chunk c" by (auto simp: all_chunks_def)
  have "\<not> crlf_at b j" for j using Cons.prems(3) [of j] by (auto simp: crlf_at_def nth_append)
  then have "\<not> find_cr b (length b) < length b" using find_cr_none [of b] by (simp add: not_less)
  moreover have "append_chunk b c = Some (b @ takeWhile (\<lambda>c. c \<noteq> NUL) c)"
    using Cons.prems(2) by (simp add: append_chunk_def r Let_def)
  ultimately have "read_full_message (r # inputs) b = read_full_message inputs (b @ takeWhile (\<lambda>c. c \<noteq> NUL) c)"
    unfolding r by (simp add: read_full_message.simps [of "Chunk c # inputs" b] Let_def)
  then show ?case
    using Cons.IH [of "b @ takeWhile (\<lambda>c. c \<noteq> NUL) c"] Cons.prems by (simp add: r all_chunks_def)
qed

section \<open>Parsing\<close>

text \<open>A word: a token that is neither empty nor marked by a colon.\<close>

definition word :: "string \<Rightarrow> bool" where
  "word w \<longleftrightarrow> w \<noteq> [] \<and> CHR '' '' \<notin> set w \<and> hd w \<noteq> CHR '':''"

text \<open>The text of a last argument, marked by a colon. The parser loses a single blank at the end of
  its first word, so that form is excluded.\<close>

definition trailing_ok :: "string \<Rightarrow> bool" where
  "trailing_ok t \<longleftrightarrow> dropWhile (\<lambda>c. c \<noteq> CHR '' '') t \<noteq> '' ''"

fun unparse_args :: "string list \<Rightarrow> string option \<Rightarrow> string" where
  "unparse_args [] None = []"
| "unparse_args [] (Some t) = '' :'' @ t"
| "unparse_args (a # as) t = '' '' @ a @ unparse_args as t"

definition unparse :: "string option \<Rightarrow> string \<Rightarrow> string list \<Rightarrow> string option \<Rightarrow> string" where
  "unparse prefix cmd args trailing =
     (case prefix of None \<Rightarrow> [] | Some p \<Rightarrow> '':'' @ p @ '' '') @ cmd @ unparse_args args trailing"

lemma strtok_nil [simp]: "strtok d [] = (None, [])"
  by (simp add: strtok_def)

lemma strtok_rest: "strtok [] s = (if s = [] then (None, []) else (Some s, []))"
proof -
  have "takeWhile (\<lambda>c. c \<notin> set ([] :: string)) s = s" "dropWhile (\<lambda>c. c \<notin> set ([] :: string)) s = []"
    "dropWhile (\<lambda>c. c \<in> set ([] :: string)) s = s"
    by (simp_all add: takeWhile_eq_all_conv dropWhile_eq_Nil_conv dropWhile_eq_self_iff)
  then show ?thesis by (simp only: strtok_def Let_def drop_Nil split: if_split)
qed

lemma strtok_word:
  assumes "w \<noteq> []" and "CHR '' '' \<notin> set w" and "t = [] \<or> hd t = CHR '' ''"
  shows "strtok '' '' (w @ t) = (Some w, drop 1 t)"
proof -
  have h: "hd w \<noteq> CHR '' ''" using assms(1,2) by (metis hd_in_set)
  have d: "dropWhile (\<lambda>c. c = CHR '' '') (w @ t) = w @ t"
    using assms(1) h by (cases w) auto
  have "takeWhile (\<lambda>c. c \<noteq> CHR '' '') (w @ t) = w" "dropWhile (\<lambda>c. c \<noteq> CHR '' '') (w @ t) = t"
    using assms(2,3) by (cases t; auto simp: takeWhile_append dropWhile_append)+
  then show ?thesis using assms(1) d by (simp add: strtok_def Let_def)
qed

lemma unparse_args_head: "unparse_args as t = [] \<or> hd (unparse_args as t) = CHR '' ''"
  by (cases as; cases t) auto

lemma parse_args_none: "parse_args usable n None save = Some (replicate n None)"
  by (induction n) auto

lemma strtok_trailing:
  "strtok '' '' (CHR '':'' # t) = (Some (CHR '':'' # takeWhile (\<lambda>c. c \<noteq> CHR '' '') t), drop 1 (dropWhile (\<lambda>c. c \<noteq> CHR '' '') t))"
  by (simp add: strtok_def)

text \<open>The argument that a colon marks is put together again.\<close>

lemma trailing_join:
  assumes "trailing_ok t" and "drop 1 (dropWhile (\<lambda>c. c \<noteq> CHR '' '') t) \<noteq> []"
  shows "takeWhile (\<lambda>c. c \<noteq> CHR '' '') t @ '' '' @ drop 1 (dropWhile (\<lambda>c. c \<noteq> CHR '' '') t) = t"
proof -
  have "dropWhile (\<lambda>c. c \<noteq> CHR '' '') t \<noteq> []" using assms(2) by (metis drop_Nil)
  moreover from this have "hd (dropWhile (\<lambda>c. c \<noteq> CHR '' '') t) = CHR '' ''" using hd_dropWhile by blast
  ultimately have "'' '' @ drop 1 (dropWhile (\<lambda>c. c \<noteq> CHR '' '') t) = dropWhile (\<lambda>c. c \<noteq> CHR '' '') t"
    by (cases "dropWhile (\<lambda>c. c \<noteq> CHR '' '') t") auto
  then show ?thesis by (metis takeWhile_dropWhile_id)
qed

lemma trailing_single:
  assumes "trailing_ok t" and "drop 1 (dropWhile (\<lambda>c. c \<noteq> CHR '' '') t) = []"
  shows "takeWhile (\<lambda>c. c \<noteq> CHR '' '') t = t"
proof -
  have "dropWhile (\<lambda>c. c \<noteq> CHR '' '') t = []"
  proof (rule ccontr)
    assume ne: "dropWhile (\<lambda>c. c \<noteq> CHR '' '') t \<noteq> []"
    then have "hd (dropWhile (\<lambda>c. c \<noteq> CHR '' '') t) = CHR '' ''" using hd_dropWhile by blast
    then have "dropWhile (\<lambda>c. c \<noteq> CHR '' '') t = '' ''"
      using assms(2) ne by (cases "dropWhile (\<lambda>c. c \<noteq> CHR '' '') t") auto
    then show False using assms(1) by (simp add: trailing_ok_def)
  qed
  then show ?thesis by (metis append_Nil2 takeWhile_dropWhile_id)
qed

lemma parse_trailing:
  assumes u: "\<And>n. n \<le> usable n" "length t < usable (length t)" and "trailing_ok t"
  shows "parse_args usable (Suc n) (fst (strtok '' '' ('':'' @ t))) (snd (strtok '' '' ('':'' @ t))) =
    Some (Some t # replicate n None)"
proof (cases "drop 1 (dropWhile (\<lambda>c. c \<noteq> CHR '' '') t) = []")
  case True
  then show ?thesis using u(1) [of "Suc (length t)"] True
    by (simp add: trailing_single [OF assms(3) True] strtok_trailing starts_with_colon_def strtok_rest malloc_strcpy_def parse_args_none)
next
  case False
  have "Suc (length (takeWhile (\<lambda>c. c \<noteq> CHR '' '') t) + length (drop 1 (dropWhile (\<lambda>c. c \<noteq> CHR '' '') t))) = length t"
    using arg_cong [OF trailing_join [OF assms(3) False], of length] by simp
  then show ?thesis using trailing_join [OF assms(3) False] u(2) False
    by (simp add: strtok_trailing starts_with_colon_def strtok_rest malloc_strcpy_def parse_args_none)
qed

lemma parse_unparse_args:
  assumes u: "\<And>n. n \<le> usable n"
  shows "\<forall>a \<in> set as. word a \<and> length a < usable (length a) \<Longrightarrow>
   (\<forall>t. trailing = Some t \<longrightarrow> trailing_ok t \<and> length t < usable (length t)) \<Longrightarrow>
   length as + (if trailing = None then 0 else 1) \<le> n \<Longrightarrow>
   parse_args usable n (fst (strtok '' '' (drop 1 (unparse_args as trailing)))) (snd (strtok '' '' (drop 1 (unparse_args as trailing)))) =
   Some (map Some as @ (if trailing = None then [] else [trailing]) @
     replicate (n - length as - (if trailing = None then 0 else 1)) None)"
proof (induction as arbitrary: n)
  case Nil
  show ?case
  proof (cases trailing)
    case None
    then show ?thesis by (simp add: parse_args_none)
  next
    case (Some t)
    moreover from this obtain m where "n = Suc m" using Nil by (cases n) auto
    ultimately show ?thesis using parse_trailing [of usable t m, OF u] Nil by simp
  qed
next
  case (Cons a as)
  then obtain m where n: "n = Suc m" by (cases n) auto
  have a: "a \<noteq> []" "CHR '' '' \<notin> set a" "\<not> starts_with_colon a"
    using Cons.prems(1) by (auto simp: word_def starts_with_colon_def hd_conv_nth)
  have "strtok '' '' (a @ unparse_args as trailing) = (Some a, drop 1 (unparse_args as trailing))"
    by (rule strtok_word [OF a(1,2) unparse_args_head])
  then show ?case using Cons.IH [of m] Cons.prems a(3)
    by (simp add: n malloc_strcpy_def case_prod_beta)
qed

theorem parse_unparse:
  assumes "\<And>n. n \<le> usable n"
    and "\<forall>p. prefix = Some p \<longrightarrow> CHR '' '' \<notin> set p" and "word cmd" and "\<forall>a \<in> set args. word a \<and> length a < usable (length a)"
    and "\<forall>t. trailing = Some t \<longrightarrow> trailing_ok t \<and> length t < usable (length t)"
    and "length args + (if trailing = None then 0 else 1) \<le> 15"
    and "length (unparse prefix cmd args trailing) \<le> 512"
  shows "\<exists>buffer. parse_message usable (unparse prefix cmd args trailing) \<lparr>ms_prefix = None, ms_cmd = None, ms_args = junk\<rparr> =
    Some (buffer, \<lparr>ms_prefix = prefix, ms_cmd = Some cmd,
      ms_args = map Some args @ (if trailing = None then [] else [trailing]) @
        replicate (15 - length args - (if trailing = None then 0 else 1)) None\<rparr>)"
proof -
  have c: "cmd \<noteq> []" "CHR '' '' \<notin> set cmd" "\<not> starts_with_colon cmd"
    using assms(3) by (auto simp: word_def starts_with_colon_def hd_conv_nth)
  have s: "strtok '' '' (cmd @ unparse_args args trailing) = (Some cmd, drop 1 (unparse_args args trailing))"
    by (rule strtok_word [OF c(1,2) unparse_args_head])
  note args = parse_unparse_args [OF assms(1,4,5,6)]
  show ?thesis
  proof (cases prefix)
    case None
    then show ?thesis using assms(7) s args c(3) assms(1) [of "Suc (length cmd)"]
      by (simp add: parse_message_def unparse_def malloc_strcpy_def case_prod_beta)
  next
    case (Some p)
    have "strtok '' '' (('':'' @ p) @ '' '' @ cmd @ unparse_args args trailing) =
      (Some ('':'' @ p), drop 1 ('' '' @ cmd @ unparse_args args trailing))"
      using assms(2) Some by (intro strtok_word) auto
    then show ?thesis using Some assms(7) s args c(3) assms(1) [of "Suc (length cmd)"] assms(1) [of "Suc (length p)"]
      by (simp add: parse_message_def unparse_def malloc_strcpy_def starts_with_colon_def case_prod_beta)
  qed
qed

text \<open>With blocks of exactly the size asked for, a plain argument has no room for its NUL.\<close>

lemma parse_exact_undefined:
  assumes "word cmd" and "word a" and "length (cmd @ '' '' @ a @ u) \<le> 512" and "u = [] \<or> hd u = CHR '' ''"
  shows "parse_message (\<lambda>n. n) (cmd @ '' '' @ a @ u) msg = None"
proof -
  have c: "cmd \<noteq> []" "CHR '' '' \<notin> set cmd" "\<not> starts_with_colon cmd"
    and a: "a \<noteq> []" "CHR '' '' \<notin> set a" "\<not> starts_with_colon a"
    using assms(1,2) by (auto simp: word_def starts_with_colon_def hd_conv_nth)
  have s: "strtok '' '' (cmd @ '' '' @ a @ u) = (Some cmd, a @ u)"
    using strtok_word [OF c(1,2), of "'' '' @ a @ u"] by simp
  have t: "strtok '' '' (a @ u) = (Some a, drop 1 u)"
    by (rule strtok_word [OF a(1,2) assms(4)])
  have "parse_args (\<lambda>n. n) 15 (Some a) (drop 1 u) = None"
    using a(3) parse_args.simps(3) [of "\<lambda>n. n" 14 a "drop 1 u"]
    by (simp add: malloc_strcpy_def split: prod.splits)
  then show ?thesis using s t c(3) assms(3)
    by (simp add: parse_message_def malloc_strcpy_def)
qed

end
