(* ===== verification/IrcServerCorrect.thy ===== *)
theory IrcServerCorrect
  imports IrcServer IrcMessageCorrect
begin

text \<open>
  Correctness of the IRC server. The invariant of its state (\<open>server_ok\<close>): the table holds
  exactly the registered users, each once and complete, no two under the same nick, and nothing
  longer than the buffers has been handed to \<open>send\<close>. Every handler keeps it.
\<close>

section \<open>Replies only send\<close>

text \<open>A text handed to \<open>send\<close> fits the array of 513 characters it comes from, or up to 11 bytes behind the
  full array are sent with it: a reply has at most 511 characters before its server and line end.\<close>

fun event_ok :: "event \<Rightarrow> bool" where
  "event_ok (Send fd b) = (length b \<le> 513)"
| "event_ok (Send_past fd b k) = (length b = 513 \<and> 1 \<le> k \<and> k \<le> 11)"
| "event_ok (Close fd) = True"

definition sends :: "server \<Rightarrow> server \<Rightarrow> bool" where
  "sends sv sv' \<longleftrightarrow> (\<exists>es. sv' = sv\<lparr>sv_events := sv_events sv @ es\<rparr> \<and>
     (\<forall>e \<in> set es. event_ok e))"

lemma sends_refl [intro!]: "sends sv sv"
  by (auto simp: sends_def intro: exI [of _ "[]"])

lemma sends_trans: "sends sv sv1 \<Longrightarrow> sends sv1 sv2 \<Longrightarrow> sends sv sv2"
  by (fastforce simp: sends_def intro: exI [of _ "_ @ _"])

lemma sends_keeps:
  "sends sv sv' \<Longrightarrow> sv_heap sv' = sv_heap sv \<and> sv_users sv' = sv_users sv \<and> sv_next sv' = sv_next sv \<and>
     sv_chan_heap sv' = sv_chan_heap sv \<and> sv_channels sv' = sv_channels sv \<and> sv_chan_next sv' = sv_chan_next sv \<and>
     sv_unregistered sv' = sv_unregistered sv"
  by (auto simp: sends_def)

lemma send_event_sends: "length b \<le> 513 \<Longrightarrow> sends sv (send_event fd b sv)"
  by (auto simp: sends_def send_event_def)

lemma sends_one: "event_ok e \<Longrightarrow> sends sv (sv\<lparr>sv_events := sv_events sv @ [e]\<rparr>)"
  by (auto simp: sends_def intro: exI [of _ "[e]"])

lemma send_reply_sends:
  assumes len: "length reply < 512" and r: "send_reply client reply sv = Some sv'"
  shows "sends sv sv'"
proof -
  obtain c where c: "sv_heap sv client = Some c" using r by (auto simp: send_reply_def bind_Some_conv)
  define full where "full = '':'' @ server_name @ '' '' @ reply @ [CR, LF]"
  have size: "length full = length reply + 13" by (simp add: full_def server_name_def)
  have sv': "Some sv' = (if length full > 513
      then Some (sv\<lparr>sv_events := sv_events sv @
        [Send_past (us_clientsock c) (take 510 full @ [CR, LF, NUL]) (length full - 513)]\<rparr>)
      else Some (send_event (us_clientsock c) (take (length full) (take 512 full @ [NUL])) sv))"
    using r c by (simp only: send_reply_def Let_def bind.bind_lunit flip: full_def) 
  show ?thesis
  proof (cases "length full > 513")
    case True
    then show ?thesis using sv' size len by (auto intro!: sends_one)
  next
    case False
    then show ?thesis using sv' by (auto intro!: send_event_sends)
  qed
qed

lemma sprintf_reply_length: "sprintf_reply ps = Some s \<Longrightarrow> length s < 512"
  by (auto simp: sprintf_reply_def bind_Some_conv split: if_splits)

lemma length_clip: "length (clip s) \<le> 512"
  by (auto simp: clip_def)

lemmas reply_defs = send_rpl_welcome_def send_rpl_yourhost_def send_rpl_created_def send_rpl_myinfo_def
  send_rpl_motdstart_def send_rpl_motd_def send_rpl_endofmotd_def send_err_nicknameinuse_def
  send_err_alreadyregistred_def send_rpl_luserclient_def send_rpl_luserop_def send_rpl_luserunknown_def
  send_rpl_luserchannels_def send_rpl_luserme_def send_rpl_whoisuser_def send_rpl_whoisserver_def
  send_rpl_endofwhois_def send_rpl_namreply_def send_rpl_endofnames_def send_err_nomotd_def
  send_err_nosuchnick_def send_err_unknowncommand_def send_quit_response_def send_pong_def

named_theorems reply_sends \<open>each reply only sends\<close>

lemma simple_reply_sends [reply_sends]:
  "send_rpl_welcome client sv = Some sv' \<Longrightarrow> sends sv sv'"
  "send_rpl_yourhost client sv = Some sv' \<Longrightarrow> sends sv sv'"
  "send_rpl_created client sv = Some sv' \<Longrightarrow> sends sv sv'"
  "send_rpl_myinfo client sv = Some sv' \<Longrightarrow> sends sv sv'"
  "send_rpl_motdstart client sv = Some sv' \<Longrightarrow> sends sv sv'"
  "send_rpl_motd client line sv = Some sv' \<Longrightarrow> sends sv sv'"
  "send_rpl_endofmotd client sv = Some sv' \<Longrightarrow> sends sv sv'"
  "send_err_nicknameinuse client a b sv = Some sv' \<Longrightarrow> sends sv sv'"
  "send_err_alreadyregistred client sv = Some sv' \<Longrightarrow> sends sv sv'"
  "send_rpl_luserclient client n sv = Some sv' \<Longrightarrow> sends sv sv'"
  "send_rpl_luserop client sv = Some sv' \<Longrightarrow> sends sv sv'"
  "send_rpl_luserunknown client n sv = Some sv' \<Longrightarrow> sends sv sv'"
  "send_rpl_luserchannels client sv = Some sv' \<Longrightarrow> sends sv sv'"
  "send_rpl_luserme client n sv = Some sv' \<Longrightarrow> sends sv sv'"
  "send_rpl_whoisuser client t sv = Some sv' \<Longrightarrow> sends sv sv'"
  "send_rpl_whoisserver client a sv = Some sv' \<Longrightarrow> sends sv sv'"
  "send_rpl_endofwhois client a sv = Some sv' \<Longrightarrow> sends sv sv'"
  "send_rpl_namreply client a sv = Some sv' \<Longrightarrow> sends sv sv'"
  "send_rpl_endofnames client a sv = Some sv' \<Longrightarrow> sends sv sv'"
  "send_err_nomotd client sv = Some sv' \<Longrightarrow> sends sv sv'"
  "send_err_nosuchnick client a sv = Some sv' \<Longrightarrow> sends sv sv'"
  "send_err_unknowncommand client a sv = Some sv' \<Longrightarrow> sends sv sv'"
  "send_quit_response client a sv = Some sv' \<Longrightarrow> sends sv sv'"
  "send_pong client sv = Some sv' \<Longrightarrow> sends sv sv'"
  unfolding reply_defs Let_def bind_Some_conv by (blast dest: send_reply_sends sprintf_reply_length)+

lemma message_sends [reply_sends]:
  "send_privmsg client r m ty sv = Some sv' \<Longrightarrow> sends sv sv'"
  "send_archived_msg client am sv = Some sv' \<Longrightarrow> sends sv sv'"
  using le_trans [OF length_clip, of 513]
  by (auto simp del: concat_parts.simps simp: send_privmsg_def send_archived_msg_def bind_Some_conv intro!: send_event_sends)

lemma loop_sends [reply_sends]:
  "send_motd_lines client ls sv = Some sv' \<Longrightarrow> sends sv sv'"
  "send_archived client ms sv = Some sv' \<Longrightarrow> sends sv sv'"
proof -
  show "send_motd_lines client ls sv = Some sv' \<Longrightarrow> sends sv sv'"
    by (induction ls arbitrary: sv) (auto simp: bind_Some_conv dest!: reply_sends intro: sends_trans)
  show "send_archived client ms sv = Some sv' \<Longrightarrow> sends sv sv'"
  proof (induction ms arbitrary: sv)
    case (Cons m ms)
    then show ?case by (cases m) (auto simp: bind_Some_conv dest!: message_sends(2) intro: sends_trans)
  qed auto
qed

lemma handler_sends [reply_sends]:
  "handle_motd_msg en client sv = Some sv' \<Longrightarrow> sends sv sv'"
  "handle_lusers_msg client sv = Some sv' \<Longrightarrow> sends sv sv'"
  "handle_privmsg_msg msg client sv = Some sv' \<Longrightarrow> sends sv sv'"
  "handle_notice_msg msg client sv = Some sv' \<Longrightarrow> sends sv sv'"
  "handle_whois_msg msg client sv = Some sv' \<Longrightarrow> sends sv sv'"
  "handle_user_msg msg client sv = Some sv' \<Longrightarrow> sends sv sv'"
  "handle_ping_msg client sv = Some sv' \<Longrightarrow> sends sv sv'"
  by (auto simp: handle_motd_msg_def handle_lusers_msg_def handle_privmsg_msg_def handle_notice_msg_def
      handle_whois_msg_def handle_user_msg_def handle_ping_msg_def bind_Some_conv Let_def
      split: option.splits dest!: reply_sends intro: sends_trans) (meson sends_trans)+

section \<open>The invariant\<close>

definition server_ok :: "server \<Rightarrow> bool" where
  "server_ok sv \<longleftrightarrow>
     length (sv_users sv) = MAX_USERS \<and>
     (\<forall>p. Some p \<in> set (sv_users sv) \<longleftrightarrow> (\<exists>u. sv_heap sv p = Some u \<and> us_is_registered u)) \<and>
     (\<forall>p u. sv_heap sv p = Some u \<longrightarrow> p < sv_next sv \<and> (us_is_registered u \<longrightarrow> is_user_complete u)) \<and>
     (\<forall>p q u v. sv_heap sv p = Some u \<longrightarrow> sv_heap sv q = Some v \<longrightarrow> us_is_registered u \<longrightarrow>
        us_is_registered v \<longrightarrow> us_nick u = us_nick v \<longrightarrow> p = q) \<and>
     distinct (filter (\<lambda>u. u \<noteq> None) (sv_users sv)) \<and>
     (\<forall>e \<in> set (sv_events sv). event_ok e)"

text \<open>The registered user with a nick, as the heap has it.\<close>

definition registered :: "server \<Rightarrow> string \<Rightarrow> nat \<Rightarrow> bool" where
  "registered sv nick p \<longleftrightarrow> (\<exists>u. sv_heap sv p = Some u \<and> us_is_registered u \<and> us_nick u = Some nick)"

lemma server_okD:
  assumes "server_ok sv"
  shows "length (sv_users sv) = MAX_USERS"
    and "\<And>p. Some p \<in> set (sv_users sv) \<longleftrightarrow> (\<exists>u. sv_heap sv p = Some u \<and> us_is_registered u)"
    and "\<And>p u. sv_heap sv p = Some u \<Longrightarrow> p < sv_next sv"
    and "\<And>p u. sv_heap sv p = Some u \<Longrightarrow> us_is_registered u \<Longrightarrow> is_user_complete u"
    and "\<And>p q nick. registered sv nick p \<Longrightarrow> registered sv nick q \<Longrightarrow> p = q"
  using assms by (auto simp: server_ok_def registered_def)

lemma server_ok_sends: "server_ok sv \<Longrightarrow> sends sv sv' \<Longrightarrow> server_ok sv'"
  by (auto simp: server_ok_def sends_def)

lemma server_ok_close: "server_ok sv \<Longrightarrow> server_ok (sv\<lparr>sv_events := sv_events sv @ [Close fd]\<rparr>)"
  by (simp add: server_ok_def)

lemma server_ok_start: "server_ok start_server"
  by (simp add: server_ok_def start_server_def)

text \<open>The search answers with the registered user of that nick, if there is one.\<close>

lemma get_user_loop_sound:
  "get_user_loop heap nick us = Some r \<Longrightarrow>
   (case r of None \<Rightarrow> \<forall>p u. Some p \<in> set us \<longrightarrow> heap p = Some u \<longrightarrow> us_nick u \<noteq> None \<longrightarrow> us_nick u \<noteq> nick
    | Some p \<Rightarrow> Some p \<in> set us \<and> nick \<noteq> None \<and> (\<exists>u. heap p = Some u \<and> us_nick u = nick))"
proof (induction us)
  case (Cons u us)
  show ?case
  proof (cases u)
    case (Some p)
    then obtain v where v: "heap p = Some v" using Cons.prems by (auto simp: bind_Some_conv)
    show ?thesis
      using Cons Some v by (cases "us_nick v") (auto simp: bind_Some_conv split: option.splits if_splits, blast)
  qed (use Cons in \<open>auto split: option.splits\<close>)
qed auto

lemma get_user_loop_total:
  "(\<And>p. Some p \<in> set us \<Longrightarrow> heap p \<noteq> None) \<Longrightarrow> \<exists>r. get_user_loop heap (Some nick) us = Some r"
proof (induction us)
  case (Cons u us)
  then have "\<exists>r. get_user_loop heap (Some nick) us = Some r" by simp
  moreover have "heap p \<noteq> None" if "u = Some p" for p using Cons.prems [of p] that by simp
  ultimately show ?case by (cases u) (auto split: option.split)
qed simp

lemma get_user_sound:
  assumes "server_ok sv" and "get_user nick sv = Some r"
  shows "case r of None \<Rightarrow> \<forall>n p. nick = Some n \<longrightarrow> \<not> registered sv n p
    | Some p \<Rightarrow> \<exists>n. nick = Some n \<and> registered sv n p"
  using get_user_loop_sound [OF assms(2) [unfolded get_user_def]] server_okD(2) [OF assms(1)]
  by (fastforce simp: registered_def split: option.splits)

lemma get_user_found:
  assumes "server_ok sv" and "registered sv nick p"
  shows "get_user (Some nick) sv = Some (Some p)"
proof -
  obtain r where r: "get_user (Some nick) sv = Some r"
    using get_user_loop_total [of "sv_users sv" "sv_heap sv" nick] server_okD(2) [OF assms(1)]
    by (auto simp: get_user_def)
  with get_user_sound [OF assms(1) r] assms(2) server_okD(5) [OF assms(1)] show ?thesis
    by (cases r) auto
qed

lemma get_user_none:
  assumes "server_ok sv" and "\<And>p. \<not> registered sv nick p"
  shows "get_user (Some nick) sv = Some None"
proof -
  obtain r where r: "get_user (Some nick) sv = Some r"
    using get_user_loop_total [of "sv_users sv" "sv_heap sv" nick] server_okD(2) [OF assms(1)]
    by (auto simp: get_user_def)
  with get_user_sound [OF assms(1) r] assms(2) show ?thesis by (cases r) auto
qed

lemma registered_nick:
  assumes "server_ok sv" and "sv_heap sv p = Some u" and "us_is_registered u"
  obtains n where "us_nick u = Some n" "registered sv n p"
  using assms server_okD(4) [OF assms(1-3)] by (auto simp: registered_def is_user_complete_def)

text \<open>A change to a user who is not registered, and a new user.\<close>

lemma server_ok_set_user:
  assumes "server_ok sv" and "sv_heap sv p = Some u" and "\<not> us_is_registered u" and "\<not> us_is_registered u'"
  shows "server_ok (set_user p u' sv)"
  using assms unfolding server_ok_def set_user_def by (auto split: if_splits)

lemma server_ok_new_user:
  assumes "server_ok sv" and "\<not> us_is_registered u"
  shows "server_ok (set_user (sv_next sv) u (sv\<lparr>sv_next := sv_next sv + 1\<rparr>))"
proof -
  have "sv_heap sv (sv_next sv) = None" using server_okD(3) [OF assms(1)] by (cases "sv_heap sv (sv_next sv)") auto
  then show ?thesis using assms unfolding server_ok_def set_user_def
    by (auto split: if_splits simp: less_Suc_eq)
qed

text \<open>The table slots.\<close>

lemma free_slot_Some: "free_slot xs = Some i \<Longrightarrow> i < length xs \<and> xs ! i = None"
  by (induction xs arbitrary: i rule: free_slot.induct) auto

lemma free_slot_None: "free_slot xs = None \<longleftrightarrow> None \<notin> set xs"
  by (induction xs rule: free_slot.induct) auto

lemma fill_slot:
  "free_slot xs = Some i \<Longrightarrow> Some y \<in> set (xs[i := Some x]) \<longleftrightarrow> y = x \<or> Some y \<in> set xs"
  by (induction xs arbitrary: i rule: free_slot.induct) auto

lemma fill_slot_distinct:
  "free_slot xs = Some i \<Longrightarrow> Some x \<notin> set xs \<Longrightarrow> distinct (filter (\<lambda>u. u \<noteq> None) xs) \<Longrightarrow>
   distinct (filter (\<lambda>u. u \<noteq> None) (xs[i := Some x]))"
proof (induction xs arbitrary: i rule: free_slot.induct)
  case (3 y xs)
  then obtain j where j: "free_slot xs = Some j" "i = Suc j" by auto
  have "Some y \<notin> set (filter (\<lambda>u. u \<noteq> None) (xs[j := Some x]))"
    using 3 set_update_subset_insert [of xs j "Some x"] by auto
  then show ?case using 3 j by auto
qed auto

lemma delete_loop_Some:
  "delete_loop p us = Some us' \<Longrightarrow> distinct (filter (\<lambda>u. u \<noteq> None) us) \<Longrightarrow>
   Some p \<in> set us \<and> length us' = length us \<and> (\<forall>q. Some q \<in> set us' \<longleftrightarrow> Some q \<in> set us \<and> q \<noteq> p) \<and>
   distinct (filter (\<lambda>u. u \<noteq> None) us')"
proof (induction us arbitrary: us')
  case (Cons u us)
  show ?case
  proof (cases "u = Some p")
    case True
    then have "us' = None # us" "Some p \<notin> set us" using Cons.prems by auto
    then show ?thesis using True Cons.prems(2) by auto
  next
    case False
    then obtain vs where vs: "delete_loop p us = Some vs" "us' = u # vs" using Cons.prems(1) by auto
    have d: "distinct (filter (\<lambda>u. u \<noteq> None) us)" using Cons.prems(2) by (simp split: if_splits)
    note IH = Cons.IH [OF vs(1) d]
    have "u = None \<or> u \<notin> set vs" using IH Cons.prems(2) False by (cases u) auto
    then show ?thesis using IH vs(2) False by auto
  qed
qed simp

lemma delete_loop_None: "delete_loop p us = None \<longleftrightarrow> Some p \<notin> set us"
  by (induction us) auto

section \<open>Every handler keeps the invariant\<close>

text \<open>A user who is registered stays in the table under its own nick, so a change of nick is always
  refused: \<open>update_nick\<close> looks the old nick up.\<close>

lemma update_nick_refused:
  assumes "server_ok sv" and "sv_heap sv client = Some c" and "us_is_registered c"
  shows "update_nick usable new_nick client sv = Some (False, sv)"
proof -
  obtain n where "us_nick c = Some n" "registered sv n client" by (rule registered_nick [OF assms])
  then show ?thesis using get_user_found [OF assms(1)] assms(2) by (simp add: update_nick_def)
qed

lemma nick_sends:
  assumes "server_ok sv" and "sv_heap sv client = Some c" and "us_is_registered c"
    and "handle_nick_msg en msg client sv = Some sv'"
  shows "sends sv sv'"
  using assms(4) update_nick_refused [OF assms(1-3)] assms(2)
  by (auto simp: handle_nick_msg_def bind_Some_conv dest: reply_sends)

text \<open>The result of a join differs in the channels and the events only.\<close>

definition keeps_users :: "server \<Rightarrow> server \<Rightarrow> bool" where
  "keeps_users sv sv' \<longleftrightarrow> sv_heap sv' = sv_heap sv \<and> sv_users sv' = sv_users sv \<and> sv_next sv' = sv_next sv \<and>
     (\<forall>e \<in> set (sv_events sv'). e \<in> set (sv_events sv) \<or> event_ok e)"

lemma keeps_users_trans: "keeps_users sv sv1 \<Longrightarrow> keeps_users sv1 sv2 \<Longrightarrow> keeps_users sv sv2"
  by (auto simp: keeps_users_def)

lemma keeps_users_sends: "sends sv sv' \<Longrightarrow> keeps_users sv sv'"
  by (auto simp: keeps_users_def sends_def)

lemma keeps_users_channels:
  "keeps_users sv (add_channel p sv)" "keeps_users sv (set_channel p ch sv)" "keeps_users sv (sv\<lparr>sv_chan_next := n\<rparr>)"
  by (auto simp: keeps_users_def add_channel_def set_channel_def split: option.split)

lemma server_ok_keeps: "server_ok sv \<Longrightarrow> keeps_users sv sv' \<Longrightarrow> server_ok sv'"
  by (simp add: server_ok_def keeps_users_def) blast

text \<open>The cases of a join that returns.\<close>

lemma join_cases:
  assumes "handle_join_msg en msg client sv = Some sv'"
  obtains "sv' = sv"
  | p ch n where "sv' = add_channel p (set_channel p ch (sv\<lparr>sv_chan_next := n\<rparr>))"
  | p ch n ch' ms a sv2 sv3 where
      "send_archived client ms (set_channel p ch' (add_channel p (set_channel p ch (sv\<lparr>sv_chan_next := n\<rparr>)))) = Some sv2"
      "send_rpl_namreply client a sv2 = Some sv3" "send_rpl_endofnames client a sv3 = Some sv'"
proof -
  obtain name found where found: "get_channel name sv = Some found" "arg_of msg 0 = Some name"
    using assms by (auto simp: handle_join_msg_def bind_Some_conv)
  show ?thesis
  proof (cases found)
    case None
    define p where "p = sv_chan_next sv"
    obtain nm ch m where init: "init_channel (en_usable en 8) (the name) = Some (nm, ch)" "name = Some (the name)"
      and m: "is_member client ch (add_channel p (set_channel p ch (sv\<lparr>sv_chan_next := p + 1\<rparr>))) = Some m"
      using assms found None by (auto simp: handle_join_msg_def bind_Some_conv Let_def p_def)
    show ?thesis
    proof (cases m)
      case True
      then have "sv' = add_channel p (set_channel p ch (sv\<lparr>sv_chan_next := p + 1\<rparr>))"
        using assms found None init m by (auto simp: handle_join_msg_def bind_Some_conv Let_def p_def)
      then show ?thesis by (rule that(2))
    next
      case False
      then show ?thesis
        using assms found None init m that(3) by (auto simp: handle_join_msg_def bind_Some_conv Let_def p_def)
    qed
  qed (use assms found that(1) in \<open>simp add: handle_join_msg_def\<close>)
qed

lemma join_keeps:
  assumes "handle_join_msg en msg client sv = Some sv'"
  shows "keeps_users sv sv'"
proof -
  have new: "keeps_users sv (add_channel p (set_channel p ch (sv\<lparr>sv_chan_next := n\<rparr>)))" for p ch n
    using keeps_users_channels keeps_users_trans by meson
  from assms show ?thesis
  proof (cases rule: join_cases)
    case 1
    then show ?thesis using keeps_users_sends by auto
  next
    case (2 p ch n)
    then show ?thesis using new by simp
  next
    case (3 p ch n ch' ms a sv2 sv3)
    note s = keeps_users_sends [OF loop_sends(2) [OF 3(1)]] keeps_users_sends [OF simple_reply_sends(18) [OF 3(2)]]
      keeps_users_sends [OF simple_reply_sends(19) [OF 3(3)]]
    show ?thesis
      by (rule keeps_users_trans [OF keeps_users_trans [OF new keeps_users_channels(2)]
          keeps_users_trans [OF s(1) keeps_users_trans [OF s(2,3)]]])
  qed
qed

lemma quit_ok:
  assumes ok: "server_ok sv" and "handle_quit_msg msg client sv = Some sv'"
  shows "server_ok sv'"
    and "\<And>c. sv_heap sv client = Some c \<Longrightarrow> \<not> us_is_registered c \<Longrightarrow> sv_heap sv' client = Some c"
proof -
  obtain r sv1 c where s: "send_quit_response client r sv = Some sv1" and c: "sv_heap sv1 client = Some c"
    and d: "delete_user client (sv1\<lparr>sv_events := sv_events sv1 @ [Close (us_clientsock c)]\<rparr>) = Some sv'"
    using assms(2) by (auto simp: handle_quit_msg_def bind_Some_conv)
  let ?sv = "sv1\<lparr>sv_events := sv_events sv1 @ [Close (us_clientsock c)]\<rparr>"
  have sends: "sends sv sv1" using s by (rule reply_sends)
  have ok1: "server_ok ?sv" using server_ok_close [OF server_ok_sends [OF ok sends]] .
  show "server_ok sv'"
  proof (cases "delete_loop client (sv_users ?sv)")
    case None
    then show ?thesis using d ok1 by (simp add: delete_user_def)
  next
    case (Some us)
    then have "sv' = ?sv\<lparr>sv_heap := (sv_heap ?sv)(client := None), sv_users := us\<rparr>"
      using d by (auto simp: delete_user_def free_user_def bind_Some_conv)
    moreover have "distinct (filter (\<lambda>u. u \<noteq> None) (sv_users ?sv))" using ok1 by (simp add: server_ok_def)
    from delete_loop_Some [OF Some this] have "length us = length (sv_users ?sv)"
      "\<forall>q. Some q \<in> set us \<longleftrightarrow> Some q \<in> set (sv_users ?sv) \<and> q \<noteq> client" "distinct (filter (\<lambda>u. u \<noteq> None) us)"
      by blast+
    ultimately show ?thesis using ok1 unfolding server_ok_def by auto
  qed
  show "sv_heap sv' client = Some c'" if "sv_heap sv client = Some c'" "\<not> us_is_registered c'" for c'
  proof -
    have "sv_heap sv1 = sv_heap sv" "sv_users sv1 = sv_users sv" using sends_keeps [OF sends] by auto
    then have "Some client \<notin> set (sv_users ?sv)" using server_okD(2) [OF ok] that by auto
    then have "delete_loop client (sv_users sv1) = None" using delete_loop_None by auto
    then have "sv' = ?sv" using d by (simp add: delete_user_def)
    then show ?thesis using that sends_keeps [OF sends] by simp
  qed
qed

lemma handle_msg_cases:
  assumes "handle_msg en msg client sv = Some sv'"
  obtains "handle_nick_msg en msg client sv = Some sv'" | "handle_quit_msg msg client sv = Some sv'"
  | "handle_join_msg en msg client sv = Some sv'" | "sends sv sv'"
proof -
  have "handle_nick_msg en msg client sv = Some sv' \<or> handle_quit_msg msg client sv = Some sv' \<or>
      handle_join_msg en msg client sv = Some sv' \<or> handle_user_msg msg client sv = Some sv' \<or>
      handle_privmsg_msg msg client sv = Some sv' \<or> handle_notice_msg msg client sv = Some sv' \<or>
      handle_whois_msg msg client sv = Some sv' \<or> handle_ping_msg client sv = Some sv' \<or>
      handle_motd_msg en client sv = Some sv' \<or> handle_lusers_msg client sv = Some sv' \<or> sv' = sv \<or>
      (\<exists>cmd. send_err_unknowncommand client (Some cmd) sv = Some sv')"
    using assms unfolding handle_msg_def bind_Some_conv
    by (elim exE conjE) (simp only: option.inject split: if_split_asm, blast+)
  then show ?thesis
    using that handler_sends simple_reply_sends(22) sends_refl by metis
qed

lemma handle_msg_ok:
  assumes "server_ok sv" and "sv_heap sv client = Some c" and "us_is_registered c"
    and "handle_msg en msg client sv = Some sv'"
  shows "server_ok sv'"
proof -
  from assms(4) show ?thesis
  proof (cases rule: handle_msg_cases)
    case 1
    then show ?thesis using nick_sends [OF assms(1-3)] server_ok_sends assms(1) by blast
  next
    case 2
    then show ?thesis using quit_ok(1) assms(1) by blast
  next
    case 3
    then show ?thesis using join_keeps server_ok_keeps assms(1) by blast
  next
    case 4
    then show ?thesis using server_ok_sends assms(1) by blast
  qed
qed

lemma registration_msg_ok:
  assumes "server_ok sv" and "sv_heap sv client = Some c" and "\<not> us_is_registered c"
    and "registration_msg en msg client sv = Some sv'"
  shows "server_ok sv' \<and> (\<exists>c'. sv_heap sv' client = Some c' \<and> \<not> us_is_registered c')"
proof -
  obtain cmd where cmd: "ms_cmd msg = Some cmd" using assms(4) by (auto simp: registration_msg_def bind_Some_conv)
  have set_user: "server_ok (set_user client c' sv) \<and>
      (\<exists>c''. sv_heap (set_user client c' sv) client = Some c'' \<and> \<not> us_is_registered c'')"
    if "\<not> us_is_registered c'" for c'
    using server_ok_set_user [OF assms(1-3) that] that by (simp add: set_user_def)
  have reply: "server_ok sv'' \<and> (\<exists>c''. sv_heap sv'' client = Some c'' \<and> \<not> us_is_registered c'')"
    if "sends sv sv''" for sv''
    using server_ok_sends [OF assms(1) that] sends_keeps [OF that] assms(2,3) by auto
  consider "cmd = ''NICK''" | "cmd = ''USER''" | "cmd = ''QUIT''" | "cmd \<notin> {''NICK'', ''USER'', ''QUIT''}" by blast
  then show ?thesis
  proof cases
    case 1
    then show ?thesis using assms(2-4) cmd reply set_user
      by (auto simp: registration_msg_def bind_Some_conv malloc_strcpy_def split: if_splits dest: reply_sends)
  next
    case 2
    then show ?thesis using assms(2-4) cmd set_user
      by (auto simp: registration_msg_def bind_Some_conv malloc_strcpy_def split: if_splits)
  next
    case 3
    then show ?thesis using assms quit_ok [OF assms(1), of msg client sv'] cmd by (auto simp: registration_msg_def)
  next
    case 4
    then show ?thesis using assms cmd by (simp add: registration_msg_def)
  qed
qed

text \<open>What a successful registration makes of the state, before the replies.\<close>

definition enrolled :: "nat \<Rightarrow> user \<Rightarrow> nat \<Rightarrow> server \<Rightarrow> server" where
  "enrolled client c i sv =
     sv\<lparr>sv_users := (sv_users sv)[i := Some client],
        sv_heap := (sv_heap sv)(client \<mapsto> c\<lparr>us_is_registered := True\<rparr>),
        sv_unregistered := sv_unregistered sv - 1\<rparr>"

lemma enrolled_ok:
  assumes ok: "server_ok sv" and c: "sv_heap sv client = Some c" "\<not> us_is_registered c" "is_user_complete c"
    and "get_user (us_nick c) sv = Some None" and i: "free_slot (sv_users sv) = Some i"
  shows "server_ok (enrolled client c i sv)"
proof -
  obtain n where n: "us_nick c = Some n" using c(3) by (auto simp: is_user_complete_def)
  have new: "us_nick u \<noteq> Some n" if "sv_heap sv p = Some u" "us_is_registered u" for p u
    using get_user_sound [OF ok assms(5)] n that by (auto simp: registered_def)
  have out: "Some client \<notin> set (sv_users sv)" using server_okD(2) [OF ok] c by auto
  have d: "distinct (filter (\<lambda>u. u \<noteq> None) ((sv_users sv)[i := Some client]))"
    using fill_slot_distinct [OF i out] ok by (simp add: server_ok_def)
  show ?thesis
    unfolding server_ok_def
  proof (intro conjI allI impI)
    show "Some p \<in> set (sv_users (enrolled client c i sv)) \<longleftrightarrow>
        (\<exists>u. sv_heap (enrolled client c i sv) p = Some u \<and> us_is_registered u)" for p
      using server_okD(2) [OF ok] fill_slot [OF i] by (auto simp: enrolled_def)
    show "p = q" if "sv_heap (enrolled client c i sv) p = Some u" "sv_heap (enrolled client c i sv) q = Some v"
      "us_is_registered u" "us_is_registered v" "us_nick u = us_nick v" for p q u v
      using that n new ok unfolding server_ok_def by (fastforce simp: enrolled_def split: if_splits)
  qed (use ok c d in \<open>auto simp: enrolled_def server_ok_def is_user_complete_def split: if_splits\<close>)
qed

lemma try_register_cases:
  assumes "sv_heap sv client = Some c" and "try_register en client sv = Some sv'"
  obtains "\<not> is_user_complete c" "sv' = sv"
  | "is_user_complete c" "sends sv sv'"
  | i where "is_user_complete c" "get_user (us_nick c) sv = Some None" "free_slot (sv_users sv) = Some i"
      "sends (enrolled client c i sv) sv'"
proof (cases "is_user_complete c")
  case True
  obtain r where r: "get_user (us_nick c) sv = Some r"
    using assms True by (auto simp: try_register_def register_user_def bind_Some_conv)
  show ?thesis
  proof (cases r)
    case None
    obtain i where i: "free_slot (sv_users sv) = Some i"
      using assms True r None by (auto simp: try_register_def register_user_def bind_Some_conv)
    have "(set_user client (c\<lparr>us_is_registered := True\<rparr>) (sv\<lparr>sv_users := (sv_users sv)[i := Some client]\<rparr>))
        \<lparr>sv_unregistered := sv_unregistered sv - 1\<rparr> = enrolled client c i sv"
      by (simp add: enrolled_def set_user_def)
    then have "sends (enrolled client c i sv) sv'"
      using assms True r None i
      by (auto simp: try_register_def register_user_def bind_Some_conv set_user_def dest!: reply_sends) (meson sends_trans)
    then show ?thesis using that(3) True r None i by blast
  next
    case (Some p)
    then have "send_err_nicknameinuse client (Some ''*'') (us_nick c) sv = Some sv'"
      using assms True r by (auto simp: try_register_def register_user_def bind_Some_conv)
    then show ?thesis using that(2) True simple_reply_sends(8) by blast
  qed
qed (use that(1) assms in \<open>auto simp: try_register_def\<close>)

lemma handle_registration_ok:
  assumes "server_ok sv" and "sv_heap sv client = Some c" and "\<not> us_is_registered c"
    and "handle_registration en msg client sv = Some sv'"
  shows "server_ok sv'"
proof -
  obtain sv1 where 1: "registration_msg en msg client sv = Some sv1" "try_register en client sv1 = Some sv'"
    using assms(4) by (auto simp: handle_registration_def bind_Some_conv)
  obtain c1 where c1: "server_ok sv1" "sv_heap sv1 client = Some c1" "\<not> us_is_registered c1"
    using registration_msg_ok [OF assms(1-3) 1(1)] by blast
  show ?thesis
    using try_register_cases [OF c1(2) 1(2)] c1 server_ok_sends enrolled_ok [OF c1] by metis
qed

lemma serve_message_ok:
  assumes "server_ok sv" and "serve_message en client line next_message sv = Some (sv', b)"
  shows "server_ok sv'"
proof -
  obtain b' msg where p: "parse_message (en_usable en) line \<lparr>ms_prefix = None, ms_cmd = None, ms_args = []\<rparr> = Some (b', msg)"
    and l: "log_message msg = Some ()"
    using assms(2) by (auto simp: serve_message_def bind_Some_conv)
  show ?thesis
  proof (cases "is_valid msg")
    case True
    then obtain c where c: "sv_heap sv client = Some c"
      and h: "(if us_is_registered c then handle_msg en msg client sv else handle_registration en msg client sv) = Some sv'"
      using assms(2) p l by (auto simp: serve_message_def bind_Some_conv split: if_splits)
    then show ?thesis
      using handle_msg_ok [OF assms(1) c] handle_registration_ok [OF assms(1) c] by (cases "us_is_registered c") auto
  qed (use assms p l in \<open>simp add: serve_message_def\<close>)
qed

text \<open>A connection: a new user who is not registered, then its host name.\<close>

lemma connect_ok:
  assumes "server_ok sv" and "accept_client fd len addr sv = (client, sv1)" and "start_client en client sv1 = Some sv2"
  obtains c h where "client = sv_next sv" and "sv1 = set_user client (init_user fd len addr) (sv\<lparr>sv_next := client + 1\<rparr>)"
    and "server_ok sv1" and "sv_heap sv1 client = Some c" and "\<not> us_is_registered c"
    and "sv2 = set_user client (c\<lparr>us_hostname := h\<rparr>) (sv1\<lparr>sv_unregistered := sv_unregistered sv1 + 1\<rparr>)"
proof -
  have client: "client = sv_next sv"
    and sv1: "sv1 = set_user client (init_user fd len addr) (sv\<lparr>sv_next := client + 1\<rparr>)"
    using assms(2) by (auto simp: accept_client_def Let_def)
  have ok1: "server_ok sv1" using server_ok_new_user assms(1) by (simp add: client sv1 init_user_def)
  obtain c h where "sv_heap sv1 client = Some c" "\<not> us_is_registered c"
    "sv2 = set_user client (c\<lparr>us_hostname := h\<rparr>) (sv1\<lparr>sv_unregistered := sv_unregistered sv1 + 1\<rparr>)"
    using assms(3) by (auto simp: start_client_def bind_Some_conv malloc_strcpy_def sv1 set_user_def init_user_def
      split: if_splits)
  with that client sv1 ok1 show ?thesis by blast
qed

lemma irc_step_ok: "irc_step en s s' \<Longrightarrow> server_ok (fst s) \<Longrightarrow> server_ok (fst s')"
proof (induction rule: irc_step.induct)
  case (connect fd len addr sv client sv1 sv2 conns)
  then have "server_ok sv" by simp
  then obtain c h where ok1: "server_ok sv1" and c: "sv_heap sv1 client = Some c" "\<not> us_is_registered c"
    and sv2: "sv2 = set_user client (c\<lparr>us_hostname := h\<rparr>) (sv1\<lparr>sv_unregistered := sv_unregistered sv1 + 1\<rparr>)"
    by (rule connect_ok [OF _ connect.hyps])
  have "server_ok (sv1\<lparr>sv_unregistered := sv_unregistered sv1 + 1\<rparr>)" using ok1 by (simp add: server_ok_def)
  from server_ok_set_user [OF this, of client c "c\<lparr>us_hostname := h\<rparr>"] show ?case using c by (simp add: sv2)
qed (use serve_message_ok server_ok_close in auto)

lemma irc_reach_ok: "irc_reach en s \<Longrightarrow> server_ok (fst s)"
  by (induction rule: irc_reach.induct) (use irc_step_ok server_ok_start in auto)

end
