(* ===== verification/IrcBehaviour.thy ===== *)
theory IrcBehaviour
  imports IrcServerCorrect
begin

text \<open>
  What the handlers do when they are defined: the texts of the replies, registration, private
  messages, joins, and what becomes of an empty line.
\<close>

section \<open>Replies that fit\<close>

definition reply_line :: "string \<Rightarrow> string" where
  "reply_line reply = '':'' @ server_name @ '' '' @ reply @ [CR, LF]"

lemma send_reply_ok:
  assumes "sv_heap sv client = Some c" and "length reply \<le> 499"
  shows "send_reply client reply sv = Some (send_event (us_clientsock c) (reply_line reply) sv)"
  using assms by (simp add: send_reply_def reply_line_def server_name_def)

lemma sprintf_reply_ok:
  "concat_parts ps = Some s \<Longrightarrow> length s < 512 \<Longrightarrow> sprintf_reply ps = Some s"
  by (simp add: sprintf_reply_def)

lemma send_event_simps [simp]:
  "sv_heap (send_event fd b sv) = sv_heap sv" "sv_users (send_event fd b sv) = sv_users sv"
  "sv_unregistered (send_event fd b sv) = sv_unregistered sv" "sv_next (send_event fd b sv) = sv_next sv"
  "sv_events (send_event fd b sv) = sv_events sv @ [Send fd b]" "get_num_users (send_event fd b sv) = get_num_users sv"
  by (simp_all add: send_event_def get_num_users_def)

lemmas reply_codes = RPL_WELCOME_def RPL_YOURHOST_def RPL_CREATED_def RPL_MYINFO_def RPL_LUSERCLIENT_def
  RPL_LUSEROP_def RPL_LUSERUNKNOWN_def RPL_LUSERCHANNELS_def RPL_LUSERME_def ERR_NOMOTD_def
  ERR_NICKNAMEINUSE_def ERR_NOSUCHNICK_def server_name_def version_def created_def user_modes_def channel_modes_def

section \<open>Registration\<close>

text \<open>The texts a new user gets: four of greeting, five of \<open>LUSERS\<close>, and the missing \<open>MOTD\<close>.\<close>

definition welcome_text :: "string \<Rightarrow> string \<Rightarrow> string \<Rightarrow> string" where
  "welcome_text n u h =
     ''001 '' @ n @ '' :Welcome to the Internet Relay Network '' @ n @ ''!'' @ u @ ''@'' @ h"

definition burst :: "string \<Rightarrow> string \<Rightarrow> string \<Rightarrow> u32 \<Rightarrow> u32 \<Rightarrow> string list" where
  "burst n u h unknown users =
     [welcome_text n u h, ''002 '' @ n @ '' :Your host is localhost, running version v3.14'',
      ''003 '' @ n @ '' :This server was created yesterday'', ''004 '' @ n @ '' localhost v3.14 ao mtov'',
      ''251 '' @ n @ '' :There are '' @ show_int users @ '' users and 0 services on 1 servers'',
      ''252 '' @ n @ '' 0 :operator(s) online'',
      ''253 '' @ n @ '' '' @ show_int unknown @ '' :unknown connection(s)'', ''254 '' @ n @ '' 0 :channels formed'',
      ''255 '' @ n @ '' :I have '' @ show_int (unknown + users) @ '' clients and 1 servers'',
      ''422 '' @ n @ '' :MOTD File is missing'']"

lemma greeting_ok:
  assumes "sv_heap sv client = Some c" and "us_nick c = Some n" and "us_username c = Some u"
    and "us_hostname c = Some h" and "length n \<le> 100" and "length u \<le> 100" and "length h \<le> 100"
  shows "send_rpl_welcome client sv = Some (send_event (us_clientsock c) (reply_line (welcome_text n u h)) sv)"
    and "send_rpl_yourhost client sv = Some (send_event (us_clientsock c)
      (reply_line (''002 '' @ n @ '' :Your host is localhost, running version v3.14'')) sv)"
    and "send_rpl_created client sv = Some (send_event (us_clientsock c)
      (reply_line (''003 '' @ n @ '' :This server was created yesterday'')) sv)"
    and "send_rpl_myinfo client sv = Some (send_event (us_clientsock c)
      (reply_line (''004 '' @ n @ '' localhost v3.14 ao mtov'')) sv)"
    and "send_err_nomotd client sv = Some (send_event (us_clientsock c)
      (reply_line (''422 '' @ n @ '' :MOTD File is missing'')) sv)"
  using assms
  by (simp_all add: send_rpl_welcome_def send_rpl_yourhost_def send_rpl_created_def send_rpl_myinfo_def
      send_err_nomotd_def sprintf_reply_ok reply_codes welcome_text_def send_reply_ok)

lemma lusers_ok:
  assumes "sv_heap sv client = Some c" and "us_nick c = Some n" and "length n \<le> 100"
  shows "send_rpl_luserclient client k sv = Some (send_event (us_clientsock c)
      (reply_line (''251 '' @ n @ '' :There are '' @ show_int k @ '' users and 0 services on 1 servers'')) sv)"
    and "send_rpl_luserop client sv = Some (send_event (us_clientsock c)
      (reply_line (''252 '' @ n @ '' 0 :operator(s) online'')) sv)"
    and "send_rpl_luserunknown client k sv = Some (send_event (us_clientsock c)
      (reply_line (''253 '' @ n @ '' '' @ show_int k @ '' :unknown connection(s)'')) sv)"
    and "send_rpl_luserchannels client sv = Some (send_event (us_clientsock c)
      (reply_line (''254 '' @ n @ '' 0 :channels formed'')) sv)"
    and "send_rpl_luserme client k sv = Some (send_event (us_clientsock c)
      (reply_line (''255 '' @ n @ '' :I have '' @ show_int k @ '' clients and 1 servers'')) sv)"
  using assms length_show_int [of k]
  by (simp_all add: send_rpl_luserclient_def send_rpl_luserop_def send_rpl_luserunknown_def
      send_rpl_luserchannels_def send_rpl_luserme_def sprintf_reply_ok reply_codes send_reply_ok)

lemma handle_lusers_ok:
  assumes "sv_heap sv client = Some c" and "us_nick c = Some n" and "length n \<le> 100"
  shows "\<exists>sv'. handle_lusers_msg client sv = Some sv' \<and> sv_heap sv' = sv_heap sv \<and> sv_users sv' = sv_users sv \<and>
    sv_unregistered sv' = sv_unregistered sv \<and>
    sv_events sv' = sv_events sv @ map (\<lambda>t. Send (us_clientsock c) (reply_line t))
      (take 5 (drop 4 (burst n u h (sv_unregistered sv) (get_num_users sv))))"
  using assms by (simp add: handle_lusers_msg_def Let_def lusers_ok [where c = c and n = n] burst_def)

text \<open>A complete user with a free nick, when the table has a slot.\<close>

lemma try_register_ok:
  assumes c: "sv_heap sv client = Some c" "us_nick c = Some n" "us_username c = Some u"
    "us_full_name c \<noteq> None" "us_hostname c = Some h"
    and l: "length n \<le> 100" "length u \<le> 100" "length h \<le> 100"
    and r: "get_user (Some n) sv = Some None" "free_slot (sv_users sv) = Some i" and "en_motd en = None"
  shows "\<exists>sv'. try_register en client sv = Some sv' \<and>
    sv_heap sv' = sv_heap (enrolled client c i sv) \<and> sv_users sv' = sv_users (enrolled client c i sv) \<and>
    sv_unregistered sv' = sv_unregistered sv - 1 \<and>
    sv_events sv' = sv_events sv @ map (\<lambda>t. Send (us_clientsock c) (reply_line t))
      (burst n u h (sv_unregistered sv - 1) (get_num_users (enrolled client c i sv)))"
proof -
  let ?c = "c\<lparr>us_is_registered := True\<rparr>"
  let ?e = "\<lambda>t sv. send_event (us_clientsock c) (reply_line t) sv"
  define sv0 where "sv0 = enrolled client c i sv"
  define sv1 where "sv1 = ?e (welcome_text n u h) sv0"
  define sv2 where "sv2 = ?e (''002 '' @ n @ '' :Your host is localhost, running version v3.14'') sv1"
  define sv3 where "sv3 = ?e (''003 '' @ n @ '' :This server was created yesterday'') sv2"
  define sv4 where "sv4 = ?e (''004 '' @ n @ '' localhost v3.14 ao mtov'') sv3"
  note svs = sv1_def sv2_def sv3_def sv4_def
  have h0: "sv_heap sv0 client = Some ?c" by (simp add: sv0_def enrolled_def)
  have g: "send_rpl_welcome client sv0 = Some sv1" "send_rpl_yourhost client sv1 = Some sv2"
    "send_rpl_created client sv2 = Some sv3" "send_rpl_myinfo client sv3 = Some sv4"
    using greeting_ok [of _ client ?c n u h] c l h0 by (simp_all add: svs)
  have h4: "sv_heap sv4 client = Some ?c" by (simp add: svs h0)
  obtain sv5 where sv5: "handle_lusers_msg client sv4 = Some sv5" "sv_heap sv5 = sv_heap sv4" "sv_users sv5 = sv_users sv4"
    "sv_unregistered sv5 = sv_unregistered sv4"
    "sv_events sv5 = sv_events sv4 @ map (\<lambda>t. Send (us_clientsock c) (reply_line t))
      (take 5 (drop 4 (burst n u h (sv_unregistered sv4) (get_num_users sv4))))"
    using handle_lusers_ok [OF h4, of n u h] c l by auto
  have h5: "sv_heap sv5 client = Some ?c" by (simp add: sv5 h4)
  have e0: "(set_user client ?c (sv\<lparr>sv_users := (sv_users sv)[i := Some client]\<rparr>))\<lparr>sv_unregistered := sv_unregistered sv - 1\<rparr> = sv0"
    by (simp add: sv0_def enrolled_def set_user_def)
  have reg: "register_user client sv = Some (True, sv\<lparr>sv_users := (sv_users sv)[i := Some client]\<rparr>)"
    using c r by (simp add: register_user_def)
  have "is_user_complete c" using c by (simp add: is_user_complete_def)
  then have "try_register en client sv = handle_motd_msg en client sv5"
    using c(1) reg e0 g sv5(1) by (simp add: try_register_def Let_def)
  also have "\<dots> = Some (?e (''422 '' @ n @ '' :MOTD File is missing'') sv5)"
    using greeting_ok(5) [of sv5 client ?c n u h] c l h5 assms(11) by (simp add: handle_motd_msg_def)
  finally show ?thesis
    by (simp add: sv5 svs burst_def) (simp add: sv0_def enrolled_def)
qed

text \<open>Names that make the first line longer than its array.\<close>

lemma welcome_overflows:
  assumes c: "sv_heap sv client = Some c" "us_nick c = Some n" "us_username c = Some u"
    "us_full_name c \<noteq> None" "us_hostname c = Some h"
    and l: "512 \<le> length (welcome_text n u h)"
    and r: "get_user (Some n) sv = Some None" "free_slot (sv_users sv) = Some i"
  shows "try_register en client sv = None"
proof -
  have "send_rpl_welcome client s = None" if "sv_heap s client = Some (c\<lparr>us_is_registered := True\<rparr>)" for s
    using that c l by (simp add: send_rpl_welcome_def sprintf_reply_def RPL_WELCOME_def welcome_text_def)
  moreover have "register_user client sv = Some (True, sv\<lparr>sv_users := (sv_users sv)[i := Some client]\<rparr>)"
    using c r by (simp add: register_user_def)
  moreover have "is_user_complete c" using c by (simp add: is_user_complete_def)
  ultimately show ?thesis using c(1) by (simp add: try_register_def set_user_def)
qed

section \<open>Private messages\<close>

definition privmsg_text :: "user \<Rightarrow> string \<Rightarrow> string \<Rightarrow> string \<Rightarrow> string option" where
  "privmsg_text c target ty text = do {
     n \<leftarrow> us_nick c; u \<leftarrow> us_username c; h \<leftarrow> us_hostname c;
     Some ('':'' @ n @ ''!'' @ u @ ''@'' @ h @ '' '' @ ty @ '' '' @ target @ '' :'' @ text @ [CR, LF]) }"

lemma send_privmsg_ok:
  assumes "sv_heap sv client = Some c" and "sv_heap sv p = Some r" and "us_nick r = Some target"
    and "privmsg_text c target ty text = Some line"
  shows "send_privmsg client p (Some text) ty sv = Some (send_event (us_clientsock r) (clip line) sv)"
  using assms by (auto simp: send_privmsg_def privmsg_text_def bind_Some_conv)

section \<open>Lines without a command\<close>

lemma first_crlf_empty: "first_crlf (CR # LF # pending) 0"
  by (simp add: first_crlf_def crlf_at_def)

lemma serve_empty_line:
  "serve_loop en client fd inputs ([CR, LF] @ pending) sv = serve_loop en client fd inputs [] sv"
proof -
  have "read_full_message inputs ([CR, LF] @ pending) = Some (Full_message [] pending inputs)"
    using find_cr_found [OF first_crlf_empty, of pending] by (subst read_full_message.simps) (simp add: Let_def)
  moreover have "log_args (replicate 15 None) = Some ()" by (simp add: log_args_defined)
  then have "serve_message en client [] pending sv = Some (sv, [])"
    by (simp add: serve_message_def parse_message_def parse_args_none is_valid_def strtok_cut_def log_message_def)
  ultimately show ?thesis by (subst serve_loop.simps) simp
qed

text \<open>With fifteen arguments no slot of the array is NULL, and logging the message reads past it.\<close>

lemma serve_fifteen:
  assumes "\<And>n. n \<le> en_usable en n" and "word cmd" and "\<forall>a \<in> set args. word a \<and> length a < en_usable en (length a)"
    and "length args = 15" and "length (unparse None cmd args None) \<le> 512"
  shows "serve_message en client (unparse None cmd args None) next_message sv = None"
proof -
  obtain b where "parse_message (en_usable en) (unparse None cmd args None) \<lparr>ms_prefix = None, ms_cmd = None, ms_args = []\<rparr> =
      Some (b, \<lparr>ms_prefix = None, ms_cmd = Some cmd, ms_args = map Some args\<rparr>)"
    using parse_unparse [of "en_usable en" None cmd args None "[]"] assms by auto
  moreover have "log_args (map Some args) = None"
    by (induction args) auto
  ultimately show ?thesis by (simp add: serve_message_def log_message_def)
qed

end
