(* ===== verification/IrcDirectory.thy ===== *)
theory IrcDirectory
  imports IrcServerCorrect
begin

text \<open>
  What the table of users promises: it is a map from nicks to clients, in which the message of a
  client can enter that client under a free nick, or remove it, and change nothing else. The server
  is shown to simulate this abstract machine.
\<close>

section \<open>The abstract directory\<close>

type_synonym directory = "string \<rightharpoonup> nat"

inductive dir_step :: "nat \<Rightarrow> directory \<Rightarrow> directory \<Rightarrow> bool" for client where
  idle: "dir_step client m m"
| enrol: "m nick = None \<Longrightarrow> client \<notin> ran m \<Longrightarrow> dir_step client m (m(nick \<mapsto> client))"
| leave: "m nick = Some client \<Longrightarrow> dir_step client m (m(nick := None))"

inductive_cases dir_stepE: "dir_step client m m'"

text \<open>No step of a client moves another one.\<close>

lemma dir_step_other:
  "dir_step client m m' \<Longrightarrow> p \<noteq> client \<Longrightarrow> m' nick = Some p \<longleftrightarrow> m nick = Some p"
  by (erule dir_stepE) (auto split: if_splits)

text \<open>Every client has one nick at most.\<close>

definition one_nick :: "directory \<Rightarrow> bool" where
  "one_nick m \<longleftrightarrow> (\<forall>n n' p. m n = Some p \<longrightarrow> m n' = Some p \<longrightarrow> n = n')"

lemma dir_step_one_nick: "dir_step client m m' \<Longrightarrow> one_nick m \<Longrightarrow> one_nick m'"
  by (erule dir_stepE) (auto simp: one_nick_def ran_def split: if_splits)

section \<open>The table as a directory\<close>

definition directory_of :: "server \<Rightarrow> directory" where
  "directory_of sv nick = (case get_user (Some nick) sv of None \<Rightarrow> None | Some r \<Rightarrow> r)"

lemma directory_iff:
  assumes "server_ok sv"
  shows "directory_of sv n = Some p \<longleftrightarrow> registered sv n p"
proof (cases "\<exists>q. registered sv n q")
  case True
  then obtain q where "registered sv n q" by blast
  then show ?thesis
    using get_user_found [OF assms] server_okD(5) [OF assms] by (auto simp: directory_of_def)
next
  case False
  then show ?thesis using get_user_none [OF assms, of n] by (auto simp: directory_of_def)
qed

lemma directory_eqI:
  assumes "server_ok sv" and "\<And>n p. registered sv n p \<longleftrightarrow> m n = Some p"
  shows "directory_of sv = m"
proof
  show "directory_of sv n = m n" for n
    using directory_iff [OF assms(1), of n] assms(2) [of n] by (cases "m n"; cases "directory_of sv n") auto
qed

lemma directory_same:
  "sv_heap sv' = sv_heap sv \<Longrightarrow> sv_users sv' = sv_users sv \<Longrightarrow> directory_of sv' = directory_of sv"
  by (rule ext) (simp add: directory_of_def get_user_def)

lemma directory_sends: "sends sv sv' \<Longrightarrow> directory_of sv' = directory_of sv"
  using sends_keeps by (intro directory_same) auto

lemma directory_keeps: "keeps_users sv sv' \<Longrightarrow> directory_of sv' = directory_of sv"
  by (intro directory_same) (auto simp: keeps_users_def)

lemma directory_unregistered:
  assumes "server_ok sv" and "sv_heap sv p = Some u" and "\<not> us_is_registered u" and "\<not> us_is_registered u'"
  shows "directory_of (set_user p u' sv) = directory_of sv"
  by (rule directory_eqI [OF server_ok_set_user [OF assms]])
    (use assms(2-4) in \<open>auto simp: directory_iff [OF assms(1)] registered_def set_user_def\<close>)

section \<open>The handlers simulate it\<close>

lemma quit_directory:
  assumes ok: "server_ok sv" and "handle_quit_msg msg client sv = Some sv'"
  shows "dir_step client (directory_of sv) (directory_of sv')"
    and "\<And>c. sv_heap sv client = Some c \<Longrightarrow> \<not> us_is_registered c \<Longrightarrow> directory_of sv' = directory_of sv"
proof -
  obtain r sv1 c where s: "send_quit_response client r sv = Some sv1" and c: "sv_heap sv1 client = Some c"
    and d: "delete_user client (sv1\<lparr>sv_events := sv_events sv1 @ [Close (us_clientsock c)]\<rparr>) = Some sv'"
    using assms(2) by (auto simp: handle_quit_msg_def bind_Some_conv)
  let ?sv = "sv1\<lparr>sv_events := sv_events sv1 @ [Close (us_clientsock c)]\<rparr>"
  have sends: "sends sv sv1" using s by (rule reply_sends)
  have same: "sv_heap ?sv = sv_heap sv" "sv_users ?sv = sv_users sv" using sends_keeps [OF sends] by auto
  have absent: "directory_of sv' = directory_of sv" if "Some client \<notin> set (sv_users sv)"
  proof -
    have "delete_loop client (sv_users ?sv) = None" using that by (simp only: same(2) delete_loop_None not_False_eq_True)
    then have "sv' = ?sv" using d by (simp add: delete_user_def)
    then show ?thesis using same by (intro directory_same) simp_all
  qed
  show "directory_of sv' = directory_of sv" if "sv_heap sv client = Some c'" "\<not> us_is_registered c'" for c'
    using absent server_okD(2) [OF ok, of client] that by auto
  show "dir_step client (directory_of sv) (directory_of sv')"
  proof (cases "Some client \<in> set (sv_users sv)")
    case True
    then obtain us where "delete_loop client (sv_users ?sv) = Some us" 
      using delete_loop_None [of client "sv_users ?sv"] by (cases "delete_loop client (sv_users ?sv)") (auto simp: same(2))
    then have sv': "sv_heap sv' = (sv_heap sv)(client := None)"
      using d same by (auto simp: delete_user_def free_user_def bind_Some_conv)
    obtain u where u: "sv_heap sv client = Some u" "us_is_registered u" using server_okD(2) [OF ok, of client] True by auto
    obtain n where n: "us_nick u = Some n" "registered sv n client" by (rule registered_nick [OF ok u])
    have reg: "registered sv' k p \<longleftrightarrow> registered sv k p \<and> p \<noteq> client" for k p
      by (auto simp: registered_def sv' split: if_splits)
    have nick: "registered sv k client \<longleftrightarrow> k = n" for k using n u by (auto simp: registered_def)
    have uniq: "registered sv n p \<Longrightarrow> p = client" for p using server_okD(5) [OF ok _ n(2)] .
    have "registered sv' k p \<longleftrightarrow> ((directory_of sv)(n := None)) k = Some p" for k p
      unfolding reg using nick [of k] uniq [of p] directory_iff [OF ok, of k p] by (cases "k = n") auto
    then have "directory_of sv' = (directory_of sv)(n := None)" by (rule directory_eqI [OF quit_ok(1) [OF assms]])
    then show ?thesis using dir_step.leave [of "directory_of sv" n client] directory_iff [OF ok] n(2) by simp
  qed (simp add: absent dir_step.idle)
qed

lemma handle_msg_directory:
  assumes "server_ok sv" and "sv_heap sv client = Some c" and "us_is_registered c"
    and "handle_msg en msg client sv = Some sv'"
  shows "dir_step client (directory_of sv) (directory_of sv')"
  using assms(4)
proof (cases rule: handle_msg_cases)
  case 1
  then show ?thesis using directory_sends [OF nick_sends [OF assms(1-3)]] by (simp add: dir_step.idle)
next
  case 2
  then show ?thesis by (rule quit_directory(1) [OF assms(1)])
next
  case 3
  then show ?thesis using directory_keeps [OF join_keeps] by (simp add: dir_step.idle)
next
  case 4
  then show ?thesis by (simp add: directory_sends dir_step.idle)
qed

lemma registration_msg_directory:
  assumes "server_ok sv" and "sv_heap sv client = Some c" and "\<not> us_is_registered c"
    and "registration_msg en msg client sv = Some sv'"
  shows "directory_of sv' = directory_of sv"
proof -
  obtain cmd where cmd: "ms_cmd msg = Some cmd" using assms(4) by (auto simp: registration_msg_def bind_Some_conv)
  note same = directory_unregistered [OF assms(1-3)]
  consider "cmd = ''NICK''" | "cmd = ''USER''" | "cmd = ''QUIT''" | "cmd \<notin> {''NICK'', ''USER'', ''QUIT''}" by blast
  then show ?thesis
  proof cases
    case 1
    then show ?thesis using assms(2-4) cmd same directory_sends
      by (auto simp: registration_msg_def bind_Some_conv malloc_strcpy_def split: if_splits dest: reply_sends)
  next
    case 2
    then show ?thesis using assms(2-4) cmd same
      by (auto simp: registration_msg_def bind_Some_conv malloc_strcpy_def split: if_splits)
  next
    case 3
    then show ?thesis using assms quit_directory(2) [OF assms(1), of msg client sv'] cmd by (auto simp: registration_msg_def)
  next
    case 4
    then show ?thesis using assms cmd by (simp add: registration_msg_def)
  qed
qed

lemma enrolled_directory:
  assumes ok: "server_ok sv" and c: "sv_heap sv client = Some c" "\<not> us_is_registered c" "is_user_complete c"
    and g: "get_user (us_nick c) sv = Some None" and i: "free_slot (sv_users sv) = Some i"
  shows "dir_step client (directory_of sv) (directory_of (enrolled client c i sv))"
proof -
  obtain n where n: "us_nick c = Some n" using c(3) by (auto simp: is_user_complete_def)
  have free: "directory_of sv n = None" using g n by (simp add: directory_of_def)
  have out: "client \<notin> ran (directory_of sv)"
    using c(1,2) directory_iff [OF ok] by (auto simp: ran_def registered_def)
  have "registered (enrolled client c i sv) k p \<longleftrightarrow> ((directory_of sv)(n \<mapsto> client)) k = Some p" for k p
    using n free c(1,2) directory_iff [OF ok, of k p]
    by (auto simp: registered_def enrolled_def split: if_splits)
  then have "directory_of (enrolled client c i sv) = (directory_of sv)(n \<mapsto> client)"
    by (rule directory_eqI [OF enrolled_ok [OF assms]])
  then show ?thesis using dir_step.enrol [of "directory_of sv" n client] free out by simp
qed

lemma handle_registration_directory:
  assumes "server_ok sv" and "sv_heap sv client = Some c" and "\<not> us_is_registered c"
    and "handle_registration en msg client sv = Some sv'"
  shows "dir_step client (directory_of sv) (directory_of sv')"
proof -
  obtain sv1 where 1: "registration_msg en msg client sv = Some sv1" "try_register en client sv1 = Some sv'"
    using assms(4) by (auto simp: handle_registration_def bind_Some_conv)
  obtain c1 where c1: "server_ok sv1" "sv_heap sv1 client = Some c1" "\<not> us_is_registered c1"
    using registration_msg_ok [OF assms(1-3) 1(1)] by blast
  have same: "directory_of sv1 = directory_of sv" by (rule registration_msg_directory [OF assms(1-3) 1(1)])
  show ?thesis
    using try_register_cases [OF c1(2) 1(2)] enrolled_directory [OF c1] directory_sends dir_step.idle same by metis
qed

lemma serve_message_directory:
  assumes "server_ok sv" and "serve_message en client line next_message sv = Some (sv', b)"
  shows "dir_step client (directory_of sv) (directory_of sv')"
proof -
  obtain b' msg where p: "parse_message (en_usable en) line \<lparr>ms_prefix = None, ms_cmd = None, ms_args = []\<rparr> = Some (b', msg)"
    and l: "log_message msg = Some ()"
    using assms(2) by (auto simp: serve_message_def bind_Some_conv)
  show ?thesis
  proof (cases "is_valid msg")
    case True
    then obtain c where c: "sv_heap sv client = Some c"
      and h: "(if us_is_registered c then handle_msg en msg client sv else handle_registration en msg client sv) = Some sv'"
      using assms(2) p l by (auto simp: serve_message_def bind_Some_conv split: if_splits)
    then show ?thesis
      using handle_msg_directory [OF assms(1) c] handle_registration_directory [OF assms(1) c]
      by (cases "us_is_registered c") auto
  qed (use assms p l in \<open>simp add: serve_message_def dir_step.idle\<close>)
qed

section \<open>Runs\<close>

text \<open>A simulation carries over from steps to runs.\<close>

locale simulation =
  fixes inv :: "'c \<Rightarrow> bool" and step :: "'c \<Rightarrow> 'c \<Rightarrow> bool" and abs :: "'c \<Rightarrow> 'a" and astep :: "'a \<Rightarrow> 'a \<Rightarrow> bool"
  assumes inv_step: "inv s \<Longrightarrow> step s s' \<Longrightarrow> inv s'"
    and simulates: "inv s \<Longrightarrow> step s s' \<Longrightarrow> astep (abs s) (abs s')"
begin

lemma runs: "rtranclp step s s' \<Longrightarrow> inv s \<Longrightarrow> inv s' \<and> rtranclp astep (abs s) (abs s')"
  by (induction rule: rtranclp_induct) (auto dest: inv_step simulates intro: rtranclp.rtrancl_into_rtrancl)

end

lemma connect_directory:
  assumes "server_ok sv" and "accept_client fd len addr sv = (client, sv1)" and "start_client en client sv1 = Some sv2"
  shows "directory_of sv2 = directory_of sv"
proof -
  obtain c h where client: "client = sv_next sv"
    and sv1: "sv1 = set_user client (init_user fd len addr) (sv\<lparr>sv_next := client + 1\<rparr>)"
    and ok1: "server_ok sv1" and c: "sv_heap sv1 client = Some c" "\<not> us_is_registered c"
    and sv2: "sv2 = set_user client (c\<lparr>us_hostname := h\<rparr>) (sv1\<lparr>sv_unregistered := sv_unregistered sv1 + 1\<rparr>)"
    by (rule connect_ok [OF assms])
  have new: "\<not> registered sv n client" for n
    using server_okD(3) [OF assms(1), of client] by (auto simp: registered_def client)
  have "registered sv1 n p \<longleftrightarrow> registered sv n p" for n p
    using new [of n] by (cases "p = client") (auto simp: registered_def sv1 set_user_def init_user_def)
  then have d1: "directory_of sv1 = directory_of sv"
    using directory_iff [OF assms(1)] by (intro directory_eqI [OF ok1]) simp
  have "server_ok (sv1\<lparr>sv_unregistered := sv_unregistered sv1 + 1\<rparr>)" using ok1 by (simp add: server_ok_def)
  then have "directory_of sv2 = directory_of (sv1\<lparr>sv_unregistered := sv_unregistered sv1 + 1\<rparr>)"
    unfolding sv2 using c by (intro directory_unregistered [where u = c]) simp_all
  also have "\<dots> = directory_of sv1" by (rule directory_same) simp_all
  finally show ?thesis using d1 by simp
qed

lemma irc_step_directory:
  assumes "irc_step en s s'" and "server_ok (fst s)"
  shows "\<exists>client. dir_step client (directory_of (fst s)) (directory_of (fst s'))"
  using assms(1)
proof (cases rule: irc_step.cases)
  case (connect fd len addr sv client sv1 sv2 conns)
  then show ?thesis using connect_directory assms(2) by (auto intro: dir_step.idle)
next
  case (serve conns client fd b inputs line "next" inputs' sv sv' b')
  then have "dir_step client (directory_of sv) (directory_of sv')"
    using assms(2) by (intro serve_message_directory) simp_all
  then show ?thesis using serve by auto
next
  case (disconnect conns client fd b inputs sv)
  have "directory_of (sv\<lparr>sv_events := sv_events sv @ [Close fd]\<rparr>) = directory_of sv" by (rule directory_same) simp_all
  with disconnect show ?thesis by (auto intro: dir_step.idle)
qed

interpretation irc: simulation "\<lambda>s. server_ok (fst s)" "irc_step en" "\<lambda>s. directory_of (fst s)"
    "\<lambda>m m'. \<exists>client. dir_step client m m'" for en
  by unfold_locales (use irc_step_ok irc_step_directory in auto)

lemma irc_reach_run: "irc_reach en s \<Longrightarrow> rtranclp (irc_step en) (start_server, (\<lambda>_. None)) s"
  by (induction rule: irc_reach.induct) (auto intro: rtranclp.rtrancl_into_rtrancl)

text \<open>Whatever the clients do, the table is a state of the abstract machine, in which every client has one
  nick at most.\<close>

lemma dir_run_one_nick: "rtranclp (\<lambda>m m'. \<exists>client. dir_step client m m') m m' \<Longrightarrow> one_nick m \<Longrightarrow> one_nick m'"
  by (induction rule: rtranclp_induct) (auto dest: dir_step_one_nick)

lemma irc_directory_run:
  assumes "irc_reach en s"
  shows "rtranclp (\<lambda>m m'. \<exists>client. dir_step client m m') (\<lambda>_. None) (directory_of (fst s))"
    and "one_nick (directory_of (fst s))"
proof -
  have "directory_of start_server = (\<lambda>_. None)"
    by (rule directory_eqI [OF server_ok_start]) (simp add: registered_def start_server_def)
  then show run: "rtranclp (\<lambda>m m'. \<exists>client. dir_step client m m') (\<lambda>_. None) (directory_of (fst s))"
    using irc.runs [OF irc_reach_run [OF assms]] server_ok_start by simp
  show "one_nick (directory_of (fst s))"
    by (rule dir_run_one_nick [OF run]) (simp add: one_nick_def)
qed

end
