(* ===== verification/IrcProperties.thy ===== *)
theory IrcProperties
  imports IrcBehaviour IrcDirectory
begin

text \<open>
  The properties of the IRC server. The concrete inputs are an allocator that gives blocks of
  at least 2048 bytes (\<open>env0\<close>), and a server with one registered user (\<open>server1\<close>).
\<close>

definition env0 :: env where
  "env0 = \<lparr>en_usable = (\<lambda>n. n + 2048), en_motd = None, en_getnameinfo = (\<lambda>_ _. Some ''host'')\<rparr>"

definition ann :: user where
  "ann = \<lparr>us_clientsock = 4, us_client_addr_len = 16, us_clientaddr = 0, us_is_registered = True,
     us_hostname = Some ''host'', us_nick = Some ''ann'', us_username = Some ''a'', us_full_name = Some ''Ann''\<rparr>"

definition server1 :: server where
  "server1 = start_server\<lparr>sv_heap := [0 \<mapsto> ann, 1 \<mapsto> ann\<lparr>us_is_registered := False, us_clientsock := 5, us_nick := Some ''bob''\<rparr>],
     sv_next := 2, sv_users := Some 0 # replicate 99 None, sv_unregistered := 1\<rparr>"

lemma server1_ok: "server_ok server1"
  by (auto simp: server_ok_def server1_def start_server_def MAX_USERS_def ann_def is_user_complete_def
      filter_replicate split: if_splits)

lemma server1_simps [simp]:
  "sv_heap server1 0 = Some ann"
  "sv_heap server1 1 = Some (ann\<lparr>us_is_registered := False, us_clientsock := 5, us_nick := Some ''bob''\<rparr>)"
  "sv_events server1 = []"
  by (simp_all add: server1_def start_server_def)

lemma registered_server1: "registered server1 n p \<longleftrightarrow> n = ''ann'' \<and> p = 0"
  by (auto simp: registered_def server1_def start_server_def ann_def)

text \<open>C24. In every state the server can reach, however the clients interleave: the table of users
  holds exactly the registered users, each is complete, and no two have the same nick. What has been
  sent are texts of at most 513 characters, or whole arrays of 513 characters together with the 1 to 11
  bytes behind the array that \<open>send_reply\<close> reads when a reply is too long.\<close>

theorem irc_nicks_unique:
  assumes "irc_reach en (sv, conns)"
  shows "(\<forall>p. Some p \<in> set (sv_users sv) \<longleftrightarrow> (\<exists>u. sv_heap sv p = Some u \<and> us_is_registered u)) \<and>
    (\<forall>p u. sv_heap sv p = Some u \<and> us_is_registered u \<longrightarrow> is_user_complete u) \<and>
    (\<forall>p q u v. sv_heap sv p = Some u \<and> sv_heap sv q = Some v \<and> us_is_registered u \<and> us_is_registered v \<and>
       us_nick u = us_nick v \<longrightarrow> p = q) \<and>
    (\<forall>fd b. Send fd b \<in> set (sv_events sv) \<longrightarrow> length b \<le> 513) \<and>
    (\<forall>fd b k. Send_past fd b k \<in> set (sv_events sv) \<longrightarrow> length b = 513 \<and> 1 \<le> k \<and> k \<le> 11)"
proof -
  have "event_ok e" if "e \<in> set (sv_events sv)" for e
    using irc_reach_ok [OF assms] that by (simp add: server_ok_def)
  then have "\<forall>fd b. Send fd b \<in> set (sv_events sv) \<longrightarrow> length b \<le> 513"
    "\<forall>fd b k. Send_past fd b k \<in> set (sv_events sv) \<longrightarrow> length b = 513 \<and> 1 \<le> k \<and> k \<le> 11"
    by fastforce+
  then show ?thesis using irc_reach_ok [OF assms] by (simp add: server_ok_def) blast
qed

text \<open>The bound is reached: a reply of 511 characters goes out with 11 bytes of the stack behind it.\<close>

lemma long_reply_reads_behind_array:
  assumes "sv_heap sv client = Some c" and "length reply = 511"
  shows "\<exists>b. length b = 513 \<and> send_reply client reply sv =
    Some (sv\<lparr>sv_events := sv_events sv @ [Send_past (us_clientsock c) b 11]\<rparr>)"
proof (intro exI conjI)
  let ?b = "take 510 ('':'' @ server_name @ '' '' @ reply @ [CR, LF]) @ [CR, LF, NUL]"
  show "length ?b = 513" using assms(2) by (simp add: server_name_def)
  show "send_reply client reply sv = Some (sv\<lparr>sv_events := sv_events sv @ [Send_past (us_clientsock c) ?b 11]\<rparr>)"
    using assms by (simp add: send_reply_def server_name_def)
qed

lemma irc_nicks_unique_witness:
  "\<exists>sv conns. irc_reach env0 (sv, conns) \<and> sv_heap sv 0 \<noteq> None \<and>
    (\<forall>p. Some p \<in> set (sv_users sv) \<longleftrightarrow> (\<exists>u. sv_heap sv p = Some u \<and> us_is_registered u))"
proof -
  obtain sv1 where a: "accept_client 4 16 0 start_server = (0, sv1)"
    and sv1: "sv_heap sv1 0 = Some (init_user 4 16 0)"
    by (simp add: accept_client_def start_server_def set_user_def)
  obtain sv2 where s: "start_client env0 0 sv1 = Some sv2" and sv2: "sv_heap sv2 0 \<noteq> None"
    using sv1 by (simp add: start_client_def env0_def malloc_strcpy_def set_user_def)
  have r: "irc_reach env0 (sv2, (\<lambda>_. None)(0 \<mapsto> (4, [])))"
    by (rule irc_reach.step [OF irc_reach.start irc_step.connect [OF a s]])
  from irc_nicks_unique [OF r] r sv2 show ?thesis by blast
qed

text \<open>C25. The table refines a map from nicks to clients: the message of a client leaves the map as it is,
  enters that client under a nick that is free, or removes the client; no client can enter, move or
  remove another one. Every reachable state satisfies the hypothesis.\<close>

theorem message_updates_directory:
  assumes "server_ok sv" and "serve_message en client line next_message sv = Some (sv', b)"
  shows "server_ok sv' \<and> dir_step client (directory_of sv) (directory_of sv') \<and>
    (\<forall>nick p. p \<noteq> client \<longrightarrow> (directory_of sv' nick = Some p \<longleftrightarrow> directory_of sv nick = Some p))"
  using serve_message_ok [OF assms] serve_message_directory [OF assms] dir_step_other by blast

lemma message_updates_directory_witness:
  "\<exists>sv'. serve_message env0 1 ''X'' [] server1 = Some (sv', []) \<and> directory_of sv' ''ann'' = Some 0 \<and>
    dir_step 1 (directory_of server1) (directory_of sv')"
proof -
  obtain b msg where p: "parse_message (en_usable env0) ''X'' \<lparr>ms_prefix = None, ms_cmd = None, ms_args = []\<rparr> = Some (b, msg)"
    and msg: "msg = \<lparr>ms_prefix = None, ms_cmd = Some ''X'', ms_args = replicate 15 None\<rparr>"
    using parse_unparse [of "en_usable env0" None "''X''" "[]" None "[]"]
    by (auto simp: env0_def word_def unparse_def)
  have "free_slot (sv_users server1) = Some 1" by (simp add: server1_def numeral_eq_Suc)
  then obtain sv' where sv': "try_register env0 1 server1 = Some sv'"
    using try_register_ok [OF server1_simps(2), of "''bob''" "''a''" "''host''" 1 env0] get_user_none [OF server1_ok, of "''bob''"]
    by (auto simp: ann_def registered_server1 env0_def)
  have "serve_message env0 1 ''X'' [] server1 = Some (sv', [])"
    using p sv' log_args_defined [of "replicate 15 None"]
    by (simp add: serve_message_def msg log_message_def is_valid_def handle_registration_def registration_msg_def ann_def
        del: One_nat_def)
  moreover have "directory_of server1 ''ann'' = Some 0" using directory_iff [OF server1_ok] registered_server1 by simp
  ultimately show ?thesis using message_updates_directory [OF server1_ok] by fastforce
qed

text \<open>C26. Framing does not depend on how the bytes arrive: whatever the chunks, the message is the
  text before the first end of line, and what follows is kept for the next call. The bound is
  the size of the message buffer.\<close>

theorem framing:
  assumes "all_chunks inputs" and "length (b @ texts inputs) < BUFFER_SIZE" and "first_crlf (b @ texts inputs) k"
  shows "\<exists>next rest. read_full_message inputs b = Some (Full_message (take k (b @ texts inputs)) next rest) \<and>
    next @ texts rest = drop (k + 2) (b @ texts inputs)"
  using read_line [OF assms] by blast

lemma framing_witness:
  "\<exists>next rest. read_full_message [Chunk [CHR ''P'', CR], Chunk [LF, CHR ''x'']] [] = Some (Full_message ''P'' next rest) \<and>
    next @ texts rest = ''x''"
proof -
  let ?i = "[Chunk [CHR ''P'', CR], Chunk [LF, CHR ''x'']]"
  have t: "texts ?i = [CHR ''P'', CR, LF, CHR ''x'']" by (simp add: CR_def LF_def NUL_def)
  have "first_crlf ([] @ texts ?i) 1" unfolding t by (auto simp: first_crlf_def crlf_at_def CR_def)
  moreover have "all_chunks ?i" by (simp add: all_chunks_def)
  moreover have "length ([] @ texts ?i) < BUFFER_SIZE" unfolding t by (simp add: BUFFER_SIZE_def)
  ultimately show ?thesis using framing [of ?i "[]" 1] unfolding t by simp
qed

text \<open>C27. Parsing undoes printing: a message made of an optional prefix, a command, words and an
  optional last argument marked by a colon is read back, the other slots being NULL; the blocks
  of the arguments must have room for a NUL, which the code does not ask for.\<close>

theorem parse_roundtrip:
  assumes "\<And>n. n \<le> usable n"
    and "\<forall>p. prefix = Some p \<longrightarrow> CHR '' '' \<notin> set p" and "word cmd"
    and "\<forall>a \<in> set args. word a \<and> length a < usable (length a)"
    and "\<forall>t. trailing = Some t \<longrightarrow> trailing_ok t \<and> length t < usable (length t)"
    and "length args + (if trailing = None then 0 else 1) \<le> 15"
    and "length (unparse prefix cmd args trailing) \<le> 512"
  shows "\<exists>buffer. parse_message usable (unparse prefix cmd args trailing) \<lparr>ms_prefix = None, ms_cmd = None, ms_args = junk\<rparr> =
    Some (buffer, \<lparr>ms_prefix = prefix, ms_cmd = Some cmd,
      ms_args = map Some args @ (if trailing = None then [] else [trailing]) @
        replicate (15 - length args - (if trailing = None then 0 else 1)) None\<rparr>)"
  using assms by (rule parse_unparse)

lemma parse_roundtrip_witness:
  "\<exists>buffer. parse_message (\<lambda>n. n + 1) '':a PRIVMSG bob :see you'' \<lparr>ms_prefix = None, ms_cmd = None, ms_args = []\<rparr> =
    Some (buffer, \<lparr>ms_prefix = Some ''a'', ms_cmd = Some ''PRIVMSG'', ms_args = [Some ''bob'', Some ''see you''] @ replicate 13 None\<rparr>)"
proof -
  have "\<exists>buffer. parse_message (\<lambda>n. n + 1) (unparse (Some ''a'') ''PRIVMSG'' [''bob''] (Some ''see you''))
      \<lparr>ms_prefix = None, ms_cmd = None, ms_args = []\<rparr> =
    Some (buffer, \<lparr>ms_prefix = Some ''a'', ms_cmd = Some ''PRIVMSG'',
      ms_args = map Some [''bob''] @ (if Some ''see you'' = None then [] else [Some ''see you'']) @
        replicate (15 - length [''bob''] - (if Some ''see you'' = None then 0 else 1)) None\<rparr>)"
    by (rule parse_roundtrip) (auto simp: word_def trailing_ok_def unparse_def)
  then show ?thesis by (simp add: unparse_def)
qed

text \<open>The blocks for plain arguments are one byte short: when the allocator gives what it is asked
  for, parsing a command with a plain argument writes past the block.\<close>

theorem plain_argument_overflows:
  assumes "word cmd" and "word a" and "length (cmd @ '' '' @ a @ u) \<le> 512" and "u = [] \<or> hd u = CHR '' ''"
  shows "parse_message (\<lambda>n. n) (cmd @ '' '' @ a @ u) msg = None"
  using assms by (rule parse_exact_undefined)

lemma plain_argument_overflows_witness:
  "parse_message (\<lambda>n. n) ''NICK bob'' \<lparr>ms_prefix = None, ms_cmd = None, ms_args = []\<rparr> = None"
  using plain_argument_overflows [of "''NICK''" "''bob''" "[]"] by (simp add: word_def)

text \<open>A registered user cannot change nick: the code looks up the old nick, finds the user, and
  answers 433 whatever the new nick is; no user changes.\<close>

theorem nick_change_refused:
  assumes "server_ok sv" and "sv_heap sv client = Some c" and "us_is_registered c" and "arg_of msg 0 = Some nick"
  shows "handle_nick_msg en msg client sv = send_err_nicknameinuse client (us_nick c) nick sv \<and>
    (\<forall>sv'. handle_nick_msg en msg client sv = Some sv' \<longrightarrow> sv_heap sv' = sv_heap sv \<and> sv_users sv' = sv_users sv)"
proof -
  have "handle_nick_msg en msg client sv = send_err_nicknameinuse client (us_nick c) nick sv"
    using update_nick_refused [OF assms(1-3)] assms(2,4) by (simp add: handle_nick_msg_def)
  then show ?thesis using sends_keeps [OF simple_reply_sends(8)] by metis
qed

lemma nick_change_refused_witness:
  "\<exists>sv'. handle_nick_msg env0 \<lparr>ms_prefix = None, ms_cmd = Some ''NICK'', ms_args = [Some ''eve'']\<rparr> 0 server1 = Some sv' \<and>
    sv_heap sv' = sv_heap server1"
proof -
  let ?m = "\<lparr>ms_prefix = None, ms_cmd = Some ''NICK'', ms_args = [Some ''eve'']\<rparr>"
  have a: "arg_of ?m 0 = Some (Some ''eve'')" by (simp add: arg_of_def)
  have e: "send_err_nicknameinuse 0 (us_nick ann) (Some ''eve'') server1 \<noteq> None"
    by (simp add: send_err_nicknameinuse_def ann_def sprintf_reply_def reply_codes send_reply_def Let_def)
  from nick_change_refused [OF server1_ok server1_simps(1) _ a, of env0] e show ?thesis
    by (auto simp: ann_def)
qed

text \<open>C28. A complete user whose nick is free is registered when the table has a slot, there is no file
  \<open>motd.txt\<close>, and nick, user name and host name have at most 100 characters each, which keeps the
  greeting within its arrays: the user is in the table, is found under the nick, is no longer
  counted as unregistered, and is sent the ten lines of the greeting in order, the last saying that the \<open>MOTD\<close> is missing.
  When the names are so long that the first line has 512 characters or more, \<open>send_rpl_welcome\<close> writes behind
  its array and what happens is undefined.\<close>

theorem registration:
  assumes "server_ok sv" and "sv_heap sv client = Some c" and "\<not> us_is_registered c"
    and "us_nick c = Some n" and "us_username c = Some u" and "us_full_name c \<noteq> None" and "us_hostname c = Some h"
    and "\<And>p. \<not> registered sv n p" and "None \<in> set (sv_users sv)" and "en_motd en = None"
  shows "(length n \<le> 100 \<and> length u \<le> 100 \<and> length h \<le> 100 \<longrightarrow>
    (\<exists>sv'. try_register en client sv = Some sv' \<and> server_ok sv' \<and> registered sv' n client \<and>
      get_user (Some n) sv' = Some (Some client) \<and> sv_unregistered sv' = sv_unregistered sv - 1 \<and>
      (\<exists>k. sv_events sv' = sv_events sv @
        map (\<lambda>t. Send (us_clientsock c) (reply_line t)) (burst n u h (sv_unregistered sv - 1) k)))) \<and>
    (512 \<le> length (welcome_text n u h) \<longrightarrow> try_register en client sv = None)"
proof (intro conjI impI)
  obtain i where i: "free_slot (sv_users sv) = Some i" using assms(9) free_slot_None by fastforce
  have g: "get_user (Some n) sv = Some None" using get_user_none [OF assms(1,8)] .
  show "try_register en client sv = None" if "512 \<le> length (welcome_text n u h)"
    using welcome_overflows [OF assms(2,4-7) that g i] .
  assume l: "length n \<le> 100 \<and> length u \<le> 100 \<and> length h \<le> 100"
  obtain sv' where sv': "try_register en client sv = Some sv'" "sv_heap sv' = sv_heap (enrolled client c i sv)"
    "sv_unregistered sv' = sv_unregistered sv - 1"
    "sv_events sv' = sv_events sv @ map (\<lambda>t. Send (us_clientsock c) (reply_line t))
      (burst n u h (sv_unregistered sv - 1) (get_num_users (enrolled client c i sv)))"
    using try_register_ok [OF assms(2,4-7) _ _ _ g i assms(10)] l by blast
  have ok: "server_ok sv'"
    using try_register_cases [OF assms(2) sv'(1)] enrolled_ok [OF assms(1-3)] server_ok_sends assms(1) by metis
  have "registered sv' n client" using sv'(2) assms(4) by (simp add: registered_def enrolled_def)
  with get_user_found [OF ok this] ok sv' show "\<exists>sv'. try_register en client sv = Some sv' \<and> server_ok sv' \<and>
      registered sv' n client \<and> get_user (Some n) sv' = Some (Some client) \<and> sv_unregistered sv' = sv_unregistered sv - 1 \<and>
      (\<exists>k. sv_events sv' = sv_events sv @
        map (\<lambda>t. Send (us_clientsock c) (reply_line t)) (burst n u h (sv_unregistered sv - 1) k))" by blast
qed

lemma registration_witness:
  "\<exists>sv'. try_register env0 1 server1 = Some sv' \<and> registered sv' ''bob'' 1 \<and> length (sv_events sv') = 10"
proof -
  let ?bob = "ann\<lparr>us_is_registered := False, us_clientsock := 5, us_nick := Some ''bob''\<rparr>"
  have slot: "None \<in> set (sv_users server1)" by (simp add: server1_def)
  have names: "\<not> us_is_registered ?bob" "us_nick ?bob = Some ''bob''" "us_username ?bob = Some ''a''"
    "us_full_name ?bob \<noteq> None" "us_hostname ?bob = Some ''host''" by (simp_all add: ann_def)
  have "\<not> registered server1 ''bob'' p" for p by (simp add: registered_server1)
  from registration [OF server1_ok server1_simps(2) names this slot, of env0]
  show ?thesis by (auto simp: env0_def burst_def)
qed

text \<open>C29. A private message to a registered nick is one text sent to the socket of that user, with
  the sender's name in front (cut to 512 characters); to any other nick it is answered with 401
  and the notice of the same text with nothing.\<close>

theorem private_message:
  assumes "server_ok sv" and "sv_heap sv client = Some c"
    and "arg_of msg 0 = Some (Some target)" and "arg_of msg 1 = Some (Some text)"
    and "privmsg_text c target ''PRIVMSG'' text = Some line"
  shows "(\<forall>p r. registered sv target p \<longrightarrow> sv_heap sv p = Some r \<longrightarrow>
      handle_privmsg_msg msg client sv = Some (send_event (us_clientsock r) (clip line) sv)) \<and>
    ((\<forall>p. \<not> registered sv target p) \<longrightarrow>
      handle_privmsg_msg msg client sv = send_err_nosuchnick client (Some target) sv \<and>
      handle_notice_msg msg client sv = Some sv)"
proof (intro conjI allI impI)
  fix p r assume p: "registered sv target p" and r: "sv_heap sv p = Some r"
  then have "us_nick r = Some target" by (simp add: registered_def)
  from send_privmsg_ok [OF assms(2) r this assms(5)] get_user_found [OF assms(1) p] assms(3,4)
  show "handle_privmsg_msg msg client sv = Some (send_event (us_clientsock r) (clip line) sv)"
    by (simp add: handle_privmsg_msg_def)
next
  assume "\<forall>p. \<not> registered sv target p"
  then have "get_user (Some target) sv = Some None" using get_user_none [OF assms(1)] by blast
  then show "handle_privmsg_msg msg client sv = send_err_nosuchnick client (Some target) sv"
    and "handle_notice_msg msg client sv = Some sv"
    using assms(3) by (simp_all add: handle_privmsg_msg_def handle_notice_msg_def)
qed

lemma private_message_witness:
  "handle_privmsg_msg \<lparr>ms_prefix = None, ms_cmd = Some ''PRIVMSG'', ms_args = [Some ''ann'', Some ''hi'']\<rparr> 1 server1 =
    Some (send_event 4 (clip ('':bob!a@host PRIVMSG ann :hi'' @ [CR, LF])) server1)"
proof -
  let ?m = "\<lparr>ms_prefix = None, ms_cmd = Some ''PRIVMSG'', ms_args = [Some ''ann'', Some ''hi'']\<rparr>"
  let ?b = "ann\<lparr>us_is_registered := False, us_clientsock := 5, us_nick := Some ''bob''\<rparr>"
  have "(\<forall>p r. registered server1 ''ann'' p \<longrightarrow> sv_heap server1 p = Some r \<longrightarrow>
      handle_privmsg_msg ?m 1 server1 = Some (send_event (us_clientsock r) (clip ('':bob!a@host PRIVMSG ann :hi'' @ [CR, LF])) server1)) \<and>
    ((\<forall>p. \<not> registered server1 ''ann'' p) \<longrightarrow>
      handle_privmsg_msg ?m 1 server1 = send_err_nosuchnick 1 (Some ''ann'') server1 \<and>
      handle_notice_msg ?m 1 server1 = Some server1)"
    by (rule private_message [OF server1_ok server1_simps(2)]) (simp_all add: arg_of_def privmsg_text_def ann_def)
  then show ?thesis by (simp add: registered_server1 ann_def)
qed

text \<open>C30. A join never adds anybody to a channel that exists: it does nothing at all. For a channel that
  does not exist it overflows the 8 bytes allocated for it, unless the allocator gives 1656.\<close>

theorem join_is_dead:
  assumes "arg_of msg 0 = Some name" and "get_channel name sv = Some found" and "en_usable en 8 < 1656"
  shows "handle_join_msg en msg client sv = (if found = None then None else Some sv)"
  using assms
  by (auto simp: handle_join_msg_def init_channel_def sizeof_channel_def MAX_CHANNEL_MEMBERS_def MAX_SAVED_MSGS_def
      bind_eq_None_conv split: option.split)

lemma join_is_dead_witness:
  "handle_join_msg (env0\<lparr>en_usable := (\<lambda>n. n + 16)\<rparr>) \<lparr>ms_prefix = None, ms_cmd = Some ''JOIN'', ms_args = [Some ''#c'']\<rparr> 0 server1 = None"
proof -
  have "get_channel (Some ''#c'') server1 = Some None"
    by (simp add: get_channel_def server1_def start_server_def MAX_CHANNELS_def eval_nat_numeral)
  then show ?thesis
    using join_is_dead [of "\<lparr>ms_prefix = None, ms_cmd = Some ''JOIN'', ms_args = [Some ''#c'']\<rparr>" "Some ''#c''"
        server1 None "env0\<lparr>en_usable := (\<lambda>n. n + 16)\<rparr>" 0]
    by (simp add: arg_of_def)
qed

text \<open>An empty line throws away everything that has been received behind it: the loop goes on
  as if those bytes had never come.\<close>

theorem empty_line_drops_input:
  "serve_loop en client fd inputs ([CR, LF] @ pending) sv = serve_loop en client fd inputs [] sv"
  by (rule serve_empty_line)

text \<open>With a hundred users registered, completing another registration is undefined: the search for
  a slot runs off the end of a function that then returns no value.\<close>

theorem table_full:
  assumes "server_ok sv" and "None \<notin> set (sv_users sv)" and "sv_heap sv client = Some c"
    and "us_nick c = Some n" and "\<And>p. \<not> registered sv n p"
  shows "register_user client sv = None"
proof -
  have "free_slot (sv_users sv) = None" using assms(2) free_slot_None by blast
  then show ?thesis using get_user_none [OF assms(1,5)] assms(3,4) by (simp add: register_user_def)
qed

definition full_server :: server where
  "full_server = start_server\<lparr>sv_heap := (\<lambda>p. if p < 100 then Some (ann\<lparr>us_nick := Some (replicate p CHR ''x'')\<rparr>)
       else if p = 100 then Some (ann\<lparr>us_is_registered := False\<rparr>) else None),
     sv_next := 101, sv_users := map Some [0..<100]\<rparr>"

lemma full_server_ok: "server_ok full_server"
proof -
  have "distinct (filter (\<lambda>u. u \<noteq> None) (map Some [0..<100 :: nat]))"
    by (simp add: filter_map comp_def distinct_map)
  then show ?thesis
    by (auto simp: server_ok_def full_server_def start_server_def MAX_USERS_def ann_def is_user_complete_def
        dest: arg_cong [of _ _ length] split: if_splits)
qed

lemma table_full_witness: "register_user 100 full_server = None"
proof (rule table_full [OF full_server_ok])
  show "\<not> registered full_server ''ann'' p" for p
    by (cases p) (auto simp: registered_def full_server_def ann_def split: if_splits)
qed (auto simp: full_server_def ann_def)

text \<open>A message with fifteen arguments, as many as its array has room for, is undefined before it
  is handled: logging it looks for a NULL behind the last one.\<close>

theorem fifteen_arguments:
  assumes "\<And>n. n \<le> en_usable en n" and "word cmd" and "\<forall>a \<in> set args. word a \<and> length a < en_usable en (length a)"
    and "length args = 15" and "length (unparse None cmd args None) \<le> 512"
  shows "serve_message en client (unparse None cmd args None) next_message sv = None"
  using assms by (rule serve_fifteen)

lemma fifteen_arguments_witness:
  "serve_message env0 0 (unparse None ''X'' (replicate 15 ''a'') None) [] server1 = None"
proof (rule fifteen_arguments)
  have "length (unparse_args (replicate n ''a'') None) = 2 * n" for n by (induction n) auto
  then show "length (unparse None ''X'' (replicate 15 ''a'') None) \<le> 512" by (simp add: unparse_def)
qed (auto simp: word_def env0_def)

end
