(* ===== verification/SqlTerms.thy ===== *)
theory SqlTerms
  imports Prelude
begin

text \<open>
  The terms of the SQL library: literals, expressions, conditions and lists of names
  (\<open>libchisql/literal.c\<close>, \<open>expression.c\<close>, \<open>condition.c\<close>, \<open>common.c\<close>). A term the parser owns
  through one pointer is a tree, a list linked by \<open>next\<close> pointers is a HOL list. The functions
  that print write their text at the end of the output; \<open>show_double\<close> is the conversion
  \<open>%f\<close> of the 64 bits of a double. \<open>SqlFree\<close> has the functions that release terms.
\<close>

type_synonym double = "64 word"

section \<open>Literals\<close>

datatype data_type = TYPE_INT | TYPE_DOUBLE | TYPE_CHAR | TYPE_TEXT

datatype literal = Int_literal u32 | Double_literal double | Char_literal char | Text_literal string

definition litInt :: "u32 \<Rightarrow> literal" where "litInt i = Int_literal i"

definition litDouble :: "double \<Rightarrow> literal" where "litDouble d = Double_literal d"

definition litChar :: "char \<Rightarrow> literal" where "litChar c = Char_literal c"

definition litText :: "string \<Rightarrow> literal" where "litText str = Text_literal str"

definition typeToString :: "data_type \<Rightarrow> string" where
  "typeToString type =
     (case type of TYPE_INT \<Rightarrow> ''int'' | TYPE_DOUBLE \<Rightarrow> ''double'' | TYPE_CHAR \<Rightarrow> ''char'' | TYPE_TEXT \<Rightarrow> ''text'')"

definition literal_type :: "literal \<Rightarrow> data_type" where
  "literal_type v =
     (case v of Int_literal _ \<Rightarrow> TYPE_INT | Double_literal _ \<Rightarrow> TYPE_DOUBLE
      | Char_literal _ \<Rightarrow> TYPE_CHAR | Text_literal _ \<Rightarrow> TYPE_TEXT)"

definition Literal_print :: "(double \<Rightarrow> string) \<Rightarrow> literal \<Rightarrow> string" where
  "Literal_print show_double v =
     typeToString (literal_type v) @ '' '' @
     (case v of Int_literal i \<Rightarrow> show_int i | Double_literal d \<Rightarrow> show_double d
      | Char_literal c \<Rightarrow> [CHR 0x27, c, CHR 0x27] | Text_literal s \<Rightarrow> [CHR 0x22] @ s @ [CHR 0x22])"

text \<open>The loops that print a list put a comma before every element but the first.\<close>

fun print_list :: "('a \<Rightarrow> string) \<Rightarrow> bool \<Rightarrow> 'a list \<Rightarrow> string" where
  "print_list f first [] = []"
| "print_list f first (x # xs) = (if first then [] else '', '') @ f x @ print_list f False xs"

definition Literal_printList :: "(double \<Rightarrow> string) \<Rightarrow> literal list \<Rightarrow> string" where
  "Literal_printList show_double val_list = ''['' @ print_list (Literal_print show_double) True val_list @ '']''"

text \<open>The append functions recurse to the end of the first list and set its last \<open>next\<close>.\<close>

fun Literal_append :: "literal list \<Rightarrow> literal list \<Rightarrow> literal list" where
  "Literal_append [] lit2 = lit2"
| "Literal_append (l # lit1) lit2 = l # Literal_append lit1 lit2"

section \<open>Lists of names\<close>

definition StrList_makeWithNext :: "string \<Rightarrow> string list \<Rightarrow> string list" where
  "StrList_makeWithNext str next = str # next"

definition StrList_make :: "string \<Rightarrow> string list" where
  "StrList_make str = [str]"

fun StrList_append :: "string list \<Rightarrow> string list \<Rightarrow> string list" where
  "StrList_append [] list2 = list2"
| "StrList_append (s # list1) list2 = s # StrList_append list1 list2"

definition StrList_print :: "string list \<Rightarrow> string" where
  "StrList_print list = ''['' @ print_list (\<lambda>s. s) True list @ '']''"

section \<open>Expressions\<close>

record column_reference =
  cr_tableName :: "string option"
  cr_columnName :: "string option"

text \<open>A missing column name stays NULL.\<close>

definition ColumnReference_make :: "string option \<Rightarrow> string option \<Rightarrow> column_reference" where
  "ColumnReference_make tname cname = \<lparr>cr_tableName = tname, cr_columnName = cname\<rparr>"

datatype term_type = TERM_LITERAL | TERM_ID | TERM_NULL | TERM_COLREF | TERM_FUNC

datatype func_type = FUNC_MAX | FUNC_MIN | FUNC_COUNT | FUNC_AVG | FUNC_SUM

datatype binary_type = EXPR_PLUS | EXPR_MINUS | EXPR_MULTIPLY | EXPR_DIVIDE | EXPR_CONCAT

text \<open>An expression is its node and its alias.\<close>

datatype expression = Expression (expr_node: node) (expr_alias: "string option")
and node =
    Literal_term literal
  | Id_term string
  | Null_term
  | Colref_term column_reference
  | Func_term func_type expression
  | Binary_node binary_type expression expression
  | Neg_node expression

definition Term :: "string \<Rightarrow> expression" where
  "Term str = Expression (Id_term str) None"

definition TermLiteral :: "literal \<Rightarrow> expression" where
  "TermLiteral v = Expression (Literal_term v) None"

definition TermNull :: expression where
  "TermNull = Expression Null_term None"

definition TermColumnReference :: "column_reference \<Rightarrow> expression" where
  "TermColumnReference ref = Expression (Colref_term ref) None"

definition TermFunction :: "func_type \<Rightarrow> expression \<Rightarrow> expression" where
  "TermFunction functype expr = Expression (Func_term functype expr) None"

definition Binary :: "expression \<Rightarrow> expression \<Rightarrow> binary_type \<Rightarrow> expression" where
  "Binary expr1 expr2 t = Expression (Binary_node t expr1 expr2) None"

definition Plus :: "expression \<Rightarrow> expression \<Rightarrow> expression" where
  "Plus expr1 expr2 = Binary expr1 expr2 EXPR_PLUS"

definition Minus :: "expression \<Rightarrow> expression \<Rightarrow> expression" where
  "Minus expr1 expr2 = Binary expr1 expr2 EXPR_MINUS"

definition Multiply :: "expression \<Rightarrow> expression \<Rightarrow> expression" where
  "Multiply expr1 expr2 = Binary expr1 expr2 EXPR_MULTIPLY"

definition Divide :: "expression \<Rightarrow> expression \<Rightarrow> expression" where
  "Divide expr1 expr2 = Binary expr1 expr2 EXPR_DIVIDE"

definition Concat :: "expression \<Rightarrow> expression \<Rightarrow> expression" where
  "Concat expr1 expr2 = Binary expr1 expr2 EXPR_CONCAT"

definition Neg :: "expression \<Rightarrow> expression" where
  "Neg expr = Expression (Neg_node expr) None"

definition add_alias :: "expression \<Rightarrow> string option \<Rightarrow> expression" where
  "add_alias expr alias = (case alias of None \<Rightarrow> expr | Some a \<Rightarrow> Expression (expr_node expr) (Some a))"

fun append_expression :: "expression list \<Rightarrow> expression list \<Rightarrow> expression list" where
  "append_expression [] e2 = e2"
| "append_expression (e # e1) e2 = e # append_expression e1 e2"

text \<open>The type of an expression is that of its terms; two different ones end the process with
  status 1 (\<open>Inl\<close>).\<close>

fun Expression_type :: "expression \<Rightarrow> int + term_type" and node_type :: "node \<Rightarrow> int + term_type" where
  "Expression_type (Expression n alias) = node_type n"
| "node_type (Literal_term v) = Inr TERM_LITERAL"
| "node_type (Id_term i) = Inr TERM_ID"
| "node_type Null_term = Inr TERM_NULL"
| "node_type (Colref_term r) = Inr TERM_COLREF"
| "node_type (Func_term f e) = Inr TERM_FUNC"
| "node_type (Neg_node e) = Expression_type e"
| "node_type (Binary_node t e1 e2) =
     (case Expression_type e1 of
        Inl x \<Rightarrow> Inl x
      | Inr t1 \<Rightarrow>
          (case Expression_type e2 of
             Inl x \<Rightarrow> Inl x
           | Inr t2 \<Rightarrow> if t1 \<noteq> t2 then Inl 1 else Inr t1))"

definition binary_sign :: "binary_type \<Rightarrow> string" where
  "binary_sign t =
     (case t of EXPR_CONCAT \<Rightarrow> '' || '' | EXPR_PLUS \<Rightarrow> '' + '' | EXPR_MINUS \<Rightarrow> '' - ''
      | EXPR_MULTIPLY \<Rightarrow> '' * '' | EXPR_DIVIDE \<Rightarrow> '' / '')"

definition func_name :: "func_type \<Rightarrow> string" where
  "func_name f =
     (case f of FUNC_AVG \<Rightarrow> ''AVG('' | FUNC_COUNT \<Rightarrow> ''COUNT('' | FUNC_MAX \<Rightarrow> ''MAX(''
      | FUNC_MIN \<Rightarrow> ''MIN('' | FUNC_SUM \<Rightarrow> ''SUM('')"

text \<open>Printing is undefined on a reference without a column name.\<close>

definition colref_print :: "column_reference \<Rightarrow> string option" where
  "colref_print ref = do {
     c \<leftarrow> cr_columnName ref;
     Some ((case cr_tableName ref of None \<Rightarrow> [] | Some t \<Rightarrow> t @ ''.'') @ c) }"

definition alias_print :: "string option \<Rightarrow> string" where
  "alias_print alias = (case alias of None \<Rightarrow> [] | Some a \<Rightarrow> '' as '' @ a)"

text \<open>\<open>Term_print\<close> is the part of \<open>node_print\<close> on terms; the other nodes are put in parentheses.\<close>

fun Expression_print :: "(double \<Rightarrow> string) \<Rightarrow> expression \<Rightarrow> string option"
and node_print :: "(double \<Rightarrow> string) \<Rightarrow> node \<Rightarrow> string option" where
  "Expression_print sd (Expression n alias) = do { s \<leftarrow> node_print sd n; Some (s @ alias_print alias) }"
| "node_print sd (Literal_term v) = Some (Literal_print sd v)"
| "node_print sd (Id_term i) = Some i"
| "node_print sd Null_term = Some ''NULL''"
| "node_print sd (Colref_term r) = colref_print r"
| "node_print sd (Func_term f e) = do { s \<leftarrow> Expression_print sd e; Some (func_name f @ s @ '')'') }"
| "node_print sd (Neg_node e) = do { s \<leftarrow> Expression_print sd e; Some (''(-'' @ s @ '')'') }"
| "node_print sd (Binary_node t e1 e2) = do {
     s1 \<leftarrow> Expression_print sd e1;
     s2 \<leftarrow> Expression_print sd e2;
     Some (''('' @ s1 @ binary_sign t @ s2 @ '')'') }"

fun print_expressions :: "(double \<Rightarrow> string) \<Rightarrow> bool \<Rightarrow> expression list \<Rightarrow> string option" where
  "print_expressions sd first [] = Some []"
| "print_expressions sd first (e # es) = do {
     s \<leftarrow> Expression_print sd e;
     t \<leftarrow> print_expressions sd False es;
     Some ((if first then [] else '', '') @ s @ t) }"

definition Expression_printList :: "(double \<Rightarrow> string) \<Rightarrow> expression list \<Rightarrow> string option" where
  "Expression_printList sd expr = do { s \<leftarrow> print_expressions sd True expr; Some (''['' @ s @ '']'') }"

section \<open>Conditions\<close>

datatype condition =
    RA_COND_EQ expression expression
  | RA_COND_LT expression expression
  | RA_COND_GT expression expression
  | RA_COND_LEQ expression expression
  | RA_COND_GEQ expression expression
  | RA_COND_AND condition condition
  | RA_COND_OR condition condition
  | RA_COND_NOT condition
  | RA_COND_IN expression "literal list"

definition Eq :: "expression \<Rightarrow> expression \<Rightarrow> condition" where
  "Eq expr1 expr2 = RA_COND_EQ expr1 expr2"

definition Lt :: "expression \<Rightarrow> expression \<Rightarrow> condition" where
  "Lt expr1 expr2 = RA_COND_LT expr1 expr2"

definition Gt :: "expression \<Rightarrow> expression \<Rightarrow> condition" where
  "Gt expr1 expr2 = RA_COND_GT expr1 expr2"

definition Leq :: "expression \<Rightarrow> expression \<Rightarrow> condition" where
  "Leq expr1 expr2 = RA_COND_LEQ expr1 expr2"

definition Geq :: "expression \<Rightarrow> expression \<Rightarrow> condition" where
  "Geq expr1 expr2 = RA_COND_GEQ expr1 expr2"

definition And :: "condition \<Rightarrow> condition \<Rightarrow> condition" where
  "And cond1 cond2 = RA_COND_AND cond1 cond2"

definition Or :: "condition \<Rightarrow> condition \<Rightarrow> condition" where
  "Or cond1 cond2 = RA_COND_OR cond1 cond2"

definition Not :: "condition \<Rightarrow> condition" where
  "Not cond = RA_COND_NOT cond"

definition In :: "expression \<Rightarrow> literal list \<Rightarrow> condition" where
  "In expr values_list = RA_COND_IN expr values_list"

definition comp_print :: "(double \<Rightarrow> string) \<Rightarrow> expression \<Rightarrow> string \<Rightarrow> expression \<Rightarrow> string option" where
  "comp_print sd e1 sign e2 = do {
     s1 \<leftarrow> Expression_print sd e1;
     s2 \<leftarrow> Expression_print sd e2;
     Some (s1 @ sign @ s2) }"

text \<open>No parentheses are printed around the operands of \<open>and\<close> and \<open>or\<close>.\<close>

fun Condition_print :: "(double \<Rightarrow> string) \<Rightarrow> condition \<Rightarrow> string option" where
  "Condition_print sd (RA_COND_EQ e1 e2) = comp_print sd e1 '' = '' e2"
| "Condition_print sd (RA_COND_LT e1 e2) = comp_print sd e1 '' < '' e2"
| "Condition_print sd (RA_COND_GT e1 e2) = comp_print sd e1 '' > '' e2"
| "Condition_print sd (RA_COND_LEQ e1 e2) = comp_print sd e1 '' <= '' e2"
| "Condition_print sd (RA_COND_GEQ e1 e2) = comp_print sd e1 '' >= '' e2"
| "Condition_print sd (RA_COND_AND c1 c2) = do {
     s1 \<leftarrow> Condition_print sd c1;
     s2 \<leftarrow> Condition_print sd c2;
     Some (s1 @ '' and '' @ s2) }"
| "Condition_print sd (RA_COND_OR c1 c2) = do {
     s1 \<leftarrow> Condition_print sd c1;
     s2 \<leftarrow> Condition_print sd c2;
     Some (s1 @ '' or '' @ s2) }"
| "Condition_print sd (RA_COND_NOT c) =
     (case c of
        RA_COND_EQ e1 e2 \<Rightarrow> comp_print sd e1 '' != '' e2
      | _ \<Rightarrow> do { s \<leftarrow> Condition_print sd c; Some (''not ('' @ s @ '')'') })"
| "Condition_print sd (RA_COND_IN e vs) = do {
     s \<leftarrow> Expression_print sd e;
     Some (s @ '' in '' @ Literal_printList sd vs) }"

end
