(* ===== verification/SqlSchema.thy ===== *)
theory SqlSchema
  imports SqlTerms
begin

text \<open>
  Columns, constraints and the statements that are not queries (\<open>libchisql/column.c\<close>,
  \<open>create.c\<close>, \<open>insert.c\<close>, \<open>delete.c\<close>). A list linked by \<open>next\<close> pointers is a HOL list, and a
  function that sets the \<open>next\<close> of a node drops what was behind it. Messages on the standard
  error are not modelled.
\<close>

section \<open>Constraints\<close>

record ForeignKeyRef =
  fk_col_name :: "string option"
  fk_table_name :: string
  fk_table_col_name :: string

datatype column_constraint =
    CONS_NOT_NULL
  | CONS_UNIQUE
  | CONS_PRIMARY_KEY
  | CONS_FOREIGN_KEY ForeignKeyRef
  | CONS_DEFAULT literal
  | CONS_AUTO_INCREMENT
  | CONS_CHECK condition
  | CONS_SIZE u32

text \<open>Each constructor returns a list of one node.\<close>

definition NotNull :: "column_constraint list" where "NotNull = [CONS_NOT_NULL]"

definition AutoIncrement :: "column_constraint list" where "AutoIncrement = [CONS_AUTO_INCREMENT]"

definition PrimaryKey :: "column_constraint list" where "PrimaryKey = [CONS_PRIMARY_KEY]"

definition ForeignKey :: "ForeignKeyRef \<Rightarrow> column_constraint list" where
  "ForeignKey fkr = [CONS_FOREIGN_KEY fkr]"

definition Default :: "literal \<Rightarrow> column_constraint list" where "Default v = [CONS_DEFAULT v]"

definition Unique :: "column_constraint list" where "Unique = [CONS_UNIQUE]"

definition Check :: "condition \<Rightarrow> column_constraint list" where "Check cond = [CONS_CHECK cond]"

definition ColumnSize :: "u32 \<Rightarrow> column_constraint list" where "ColumnSize n = [CONS_SIZE n]"

text \<open>\<open>constraints->next = constraint\<close>: the rest of the first list is lost.\<close>

definition Constraint_append ::
  "column_constraint list \<Rightarrow> column_constraint list \<Rightarrow> column_constraint list" where
  "Constraint_append constraints c = (case constraints of [] \<Rightarrow> c | first # _ \<Rightarrow> first # c)"

definition ForeignKeyRef_makeFull :: "string option \<Rightarrow> ForeignKeyRef \<Rightarrow> ForeignKeyRef" where
  "ForeignKeyRef_makeFull cname fkey = fkey\<lparr>fk_col_name := cname\<rparr>"

definition ForeignKeyRef_make :: "string \<Rightarrow> string \<Rightarrow> ForeignKeyRef" where
  "ForeignKeyRef_make foreign_tname foreign_cname =
     \<lparr>fk_col_name = None, fk_table_name = foreign_tname, fk_table_col_name = foreign_cname\<rparr>"

definition Constraint_print :: "(double \<Rightarrow> string) \<Rightarrow> column_constraint \<Rightarrow> string option" where
  "Constraint_print sd c =
     (case c of
        CONS_DEFAULT v \<Rightarrow> Some (''Default: '' @ Literal_print sd v)
      | CONS_PRIMARY_KEY \<Rightarrow> Some ''Primary Key''
      | CONS_UNIQUE \<Rightarrow> Some ''Unique''
      | CONS_FOREIGN_KEY r \<Rightarrow> Some (''Foreign key ('' @ fk_table_name r @ '', '' @ fk_table_col_name r @ '')'')
      | CONS_AUTO_INCREMENT \<Rightarrow> Some ''Auto increment''
      | CONS_NOT_NULL \<Rightarrow> Some ''Not null''
      | CONS_CHECK cond \<Rightarrow> do { s \<leftarrow> Condition_print sd cond; Some (''Check: '' @ s) }
      | CONS_SIZE n \<Rightarrow> Some (''Size: '' @ show_nat (unat n)))"

fun print_constraints :: "(double \<Rightarrow> string) \<Rightarrow> bool \<Rightarrow> column_constraint list \<Rightarrow> string option" where
  "print_constraints sd first [] = Some []"
| "print_constraints sd first (c # cs) = do {
     s \<leftarrow> Constraint_print sd c;
     t \<leftarrow> print_constraints sd False cs;
     Some ((if first then [] else '', '') @ s @ t) }"

definition Constraint_printList :: "(double \<Rightarrow> string) \<Rightarrow> column_constraint list \<Rightarrow> string option" where
  "Constraint_printList sd constraints =
     (if constraints = [] then Some []
      else do { s \<leftarrow> print_constraints sd True constraints; Some ('' ['' @ s @ '']'') })"

section \<open>Columns\<close>

record column =
  co_name :: string
  co_type :: data_type
  co_constraints :: "column_constraint list"
  co_offset :: "64 word"

text \<open>\<open>size_constraint\<close> is the global variable the parser sets with \<open>Column_setSize\<close>; the column
  constructor reads and resets it. The list it appends the size to is not stored when it was
  empty.\<close>

definition Column_setSize :: "64 word \<Rightarrow> 64 word" where
  "Column_setSize n = n"

definition Column :: "64 word \<Rightarrow> string \<Rightarrow> data_type \<Rightarrow> column_constraint list \<Rightarrow> column \<times> 64 word" where
  "Column size_constraint name type constraints =
     (if sint size_constraint > 0
      then (\<lparr>co_name = name, co_type = type,
             co_constraints = (case constraints of
                 [] \<Rightarrow> []
               | _ \<Rightarrow> Constraint_append constraints (ColumnSize (ucast size_constraint))),
             co_offset = 0\<rparr>, - 1)
      else (\<lparr>co_name = name, co_type = type, co_constraints = constraints, co_offset = 0\<rparr>, size_constraint))"

definition Column_addConstraint :: "column \<Rightarrow> column_constraint list \<Rightarrow> column" where
  "Column_addConstraint col constraints =
     col\<lparr>co_constraints := Constraint_append (co_constraints col) constraints\<rparr>"

fun declared_size :: "column_constraint list \<Rightarrow> u32 option" where
  "declared_size [] = None"
| "declared_size (CONS_SIZE n # cs) = Some n"
| "declared_size (c # cs) = declared_size cs"

definition Column_getSize :: "column \<Rightarrow> 64 word" where
  "Column_getSize col =
     (case declared_size (co_constraints col) of
        Some n \<Rightarrow> ucast n
      | None \<Rightarrow>
          (case co_type col of TYPE_CHAR \<Rightarrow> 1 | TYPE_DOUBLE \<Rightarrow> 8 | TYPE_INT \<Rightarrow> 4 | TYPE_TEXT \<Rightarrow> 250))"

fun Column_getOffsets_r :: "column list \<Rightarrow> 64 word \<Rightarrow> column list" where
  "Column_getOffsets_r [] offset = []"
| "Column_getOffsets_r (c # cols) offset = c\<lparr>co_offset := offset\<rparr> # Column_getOffsets_r cols (Column_getSize c)"

definition Column_getOffsets :: "column list \<Rightarrow> column list" where
  "Column_getOffsets cols = Column_getOffsets_r cols 0"

fun Column_append :: "column list \<Rightarrow> column list \<Rightarrow> column list" where
  "Column_append [] col2 = col2"
| "Column_append (c # col1) col2 = c # Column_append col1 col2"

definition Column_copy :: "column \<Rightarrow> column" where
  "Column_copy col = col"

section \<open>Tables and indexes\<close>

record table =
  ta_name :: string
  ta_columns :: "column list"

datatype key_dec = KEY_DEC_PRIMARY "string list" | KEY_DEC_FOREIGN ForeignKeyRef

record index =
  ix_name :: string
  ix_table_name :: string
  ix_column_name :: string
  ix_unique :: bool

datatype create = CREATE_TABLE table | CREATE_INDEX index

definition ForeignKeyDec :: "ForeignKeyRef \<Rightarrow> key_dec" where
  "ForeignKeyDec fkr = KEY_DEC_FOREIGN fkr"

definition PrimaryKeyDec :: "string list \<Rightarrow> key_dec" where
  "PrimaryKeyDec col_names = KEY_DEC_PRIMARY col_names"

text \<open>The first column of a name gets the constraint; \<open>None\<close> when there is none.\<close>

fun add_to_column :: "string \<Rightarrow> column_constraint list \<Rightarrow> column list \<Rightarrow> column list option" where
  "add_to_column name c [] = None"
| "add_to_column name c (col # cols) =
     (if co_name col = name then Some (Column_addConstraint col c # cols)
      else map_option ((#) col) (add_to_column name c cols))"

text \<open>The answer is the table, or NULL when the column is not found.\<close>

definition Table_addPrimaryKey :: "table \<Rightarrow> string \<Rightarrow> table option" where
  "Table_addPrimaryKey table col_name =
     (case add_to_column col_name PrimaryKey (ta_columns table) of
        Some cols \<Rightarrow> Some (table\<lparr>ta_columns := cols\<rparr>)
      | None \<Rightarrow> None)"

text \<open>Comparing with a NULL column name is undefined; a column that is not found is reported only.\<close>

definition Table_addForeignKey :: "table \<Rightarrow> ForeignKeyRef \<Rightarrow> table option" where
  "Table_addForeignKey table fkr =
     (if ta_columns table = [] then Some table
      else do {
        name \<leftarrow> fk_col_name fkr;
        (case add_to_column name (ForeignKey fkr) (ta_columns table) of
           Some cols \<Rightarrow> Some (table\<lparr>ta_columns := cols\<rparr>)
         | None \<Rightarrow> Some table) })"

fun add_primary_keys :: "table \<Rightarrow> string list \<Rightarrow> table" where
  "add_primary_keys table [] = table"
| "add_primary_keys table (s # slist) =
     add_primary_keys (case Table_addPrimaryKey table s of Some t \<Rightarrow> t | None \<Rightarrow> table) slist"

fun Table_addKeyDecs :: "table \<Rightarrow> key_dec list \<Rightarrow> table option" where
  "Table_addKeyDecs table [] = Some table"
| "Table_addKeyDecs table (KEY_DEC_PRIMARY slist # decs) = Table_addKeyDecs (add_primary_keys table slist) decs"
| "Table_addKeyDecs table (KEY_DEC_FOREIGN fkr # decs) = do {
     table \<leftarrow> Table_addForeignKey table fkr;
     Table_addKeyDecs table decs }"

definition Table_make :: "string \<Rightarrow> column list \<Rightarrow> key_dec list \<Rightarrow> table option" where
  "Table_make name columns decs =
     Table_addKeyDecs \<lparr>ta_name = name, ta_columns = Column_getOffsets columns\<rparr> decs"

text \<open>\<open>decs->next = dec\<close>, which is undefined for NULL.\<close>

definition KeyDec_append :: "key_dec list \<Rightarrow> key_dec list \<Rightarrow> key_dec list option" where
  "KeyDec_append decs dec = (case decs of [] \<Rightarrow> None | first # _ \<Rightarrow> Some (first # dec))"

text \<open>At most ten columns are printed.\<close>

fun print_columns :: "(double \<Rightarrow> string) \<Rightarrow> bool \<Rightarrow> nat \<Rightarrow> column list \<Rightarrow> string option" where
  "print_columns sd first n [] = Some []"
| "print_columns sd first 0 (c # cols) = Some []"
| "print_columns sd first (Suc n) (c # cols) = do {
     s \<leftarrow> Constraint_printList sd (co_constraints c);
     t \<leftarrow> print_columns sd False n cols;
     Some ((if first then [] else '','' @ [CHR 0x0A]) @ [CHR 0x09] @ co_name c @ '' '' @
           typeToString (co_type c) @ s @ t) }"

definition Table_print :: "(double \<Rightarrow> string) \<Rightarrow> table \<Rightarrow> string option" where
  "Table_print sd table = do {
     s \<leftarrow> print_columns sd True 10 (ta_columns table);
     Some (''Table '' @ ta_name table @ '' ('' @ [CHR 0x0A] @ s @ [CHR 0x0A] @ '')'' @ [CHR 0x0A]) }"

definition Index_make :: "string \<Rightarrow> string \<Rightarrow> string \<Rightarrow> index" where
  "Index_make name table_name column_name =
     \<lparr>ix_name = name, ix_table_name = table_name, ix_column_name = column_name, ix_unique = False\<rparr>"

definition Index_makeUnique :: "index \<Rightarrow> index" where
  "Index_makeUnique idx = idx\<lparr>ix_unique := True\<rparr>"

definition Index_print :: "index \<Rightarrow> string" where
  "Index_print idx =
     ''Index '' @ [CHR 0x27] @ ix_column_name idx @ [CHR 0x27] @ '' on '' @ ix_table_name idx @
     '' ('' @ ix_column_name idx @ '')'' @ (if ix_unique idx then '', unique'' else []) @ [CHR 0x0A]"

definition Create_fromTable :: "table \<Rightarrow> create" where
  "Create_fromTable table = CREATE_TABLE table"

definition Create_fromIndex :: "index \<Rightarrow> create" where
  "Create_fromIndex idx = CREATE_INDEX idx"

definition Create_print :: "(double \<Rightarrow> string) \<Rightarrow> create \<Rightarrow> string option" where
  "Create_print sd cre = do {
     s \<leftarrow> (case cre of CREATE_TABLE t \<Rightarrow> Table_print sd t | CREATE_INDEX i \<Rightarrow> Some (Index_print i));
     Some (''CREATE '' @ s) }"

section \<open>Inserting and deleting\<close>

record insert_stmt =
  in_table_name :: string
  in_col_names :: "string list"
  in_values :: "literal list"

text \<open>The loop that walks both lists: true when they end together.\<close>

fun same_cardinality :: "string list \<Rightarrow> literal list \<Rightarrow> bool" where
  "same_cardinality [] [] = True"
| "same_cardinality (c # cols) (v # vs) = same_cardinality cols vs"
| "same_cardinality _ _ = False"

definition Insert_make :: "string \<Rightarrow> string list \<Rightarrow> literal list \<Rightarrow> insert_stmt option" where
  "Insert_make table_name opt_col_names vs =
     (if opt_col_names \<noteq> [] \<and> \<not> same_cardinality opt_col_names vs then None
      else Some \<lparr>in_table_name = table_name, in_col_names = opt_col_names, in_values = vs\<rparr>)"

definition Insert_print :: "(double \<Rightarrow> string) \<Rightarrow> insert_stmt \<Rightarrow> string" where
  "Insert_print sd ins =
     ''Insert ['' @ print_list (Literal_print sd) True (in_values ins) @ ''] into '' @ in_table_name ins @
     (if in_col_names ins = [] then []
      else '' using columns ['' @ print_list (\<lambda>s. s) True (in_col_names ins) @ '']'') @ [CHR 0x0A]"

record delete_stmt =
  de_table_name :: string
  de_where :: "condition option"

definition Delete_make :: "string \<Rightarrow> condition option \<Rightarrow> delete_stmt" where
  "Delete_make table_name cond = \<lparr>de_table_name = table_name, de_where = cond\<rparr>"

definition Delete_print :: "(double \<Rightarrow> string) \<Rightarrow> delete_stmt \<Rightarrow> string option" where
  "Delete_print sd del = do {
     s \<leftarrow> (case de_where del of None \<Rightarrow> Some [] | Some c \<Rightarrow> Condition_print sd c);
     Some (''Delete from '' @ de_table_name del @ '' where '' @ s @ [CHR 0x0A]) }"

end
