(* ===== verification/SqlAlgebra.thy ===== *)
theory SqlAlgebra
  imports SqlSchema
begin

text \<open>
  The SQL algebra, the relational algebra and the translation between them (\<open>libchisql/sra.c\<close>,
  \<open>ra.c\<close>). The nodes of both are allocated one by one, and the translation frees nodes while it
  goes, so a node carries its address and the heap says which addresses are allocated: reading or
  freeing a node that is not is undefined. Expressions, conditions and names are the values of
  \<open>SqlTerms\<close>. The field \<open>columns\<close> of a node is always NULL and left out.
\<close>

section \<open>The heap\<close>

record heap =
  hp_next :: nat
  hp_live :: "nat \<Rightarrow> bool"

definition calloc :: "heap \<Rightarrow> nat \<times> heap" where
  "calloc h = (hp_next h, \<lparr>hp_next = hp_next h + 1, hp_live = (hp_live h)(hp_next h := True)\<rparr>)"

definition free :: "nat \<Rightarrow> heap \<Rightarrow> heap option" where
  "free a h = (if hp_live h a then Some (h\<lparr>hp_live := (hp_live h)(a := False)\<rparr>) else None)"

definition live :: "nat \<Rightarrow> heap \<Rightarrow> unit option" where
  "live a h = (if hp_live h a then Some () else None)"

section \<open>The two algebras\<close>

record table_reference =
  tr_table_name :: string
  tr_alias :: "string option"

definition TableReference_make :: "string \<Rightarrow> string option \<Rightarrow> table_reference" where
  "TableReference_make table_name alias = \<lparr>tr_table_name = table_name, tr_alias = alias\<rparr>"

datatype join_condition = JOIN_COND_ON condition | JOIN_COND_USING "string list"

definition On :: "condition \<Rightarrow> join_condition" where "On cond = JOIN_COND_ON cond"

definition Using :: "string list \<Rightarrow> join_condition" where "Using col_list = JOIN_COND_USING col_list"

datatype order_by = ORDER_BY_ASC | ORDER_BY_DESC

text \<open>What a projection carries besides its operand.\<close>

record project_fields =
  pj_expr_list :: "expression list"
  pj_order_by :: "expression option"
  pj_distinct :: bool
  pj_asc_desc :: order_by
  pj_group_by :: "expression option"

datatype join_type = JOIN | FULL_OUTER_JOIN | LEFT_OUTER_JOIN | RIGHT_OUTER_JOIN

datatype binary_op = NATURAL_JOIN | UNION | EXCEPT | INTERSECT

datatype sra =
    SRA_TABLE nat table_reference
  | SRA_PROJECT nat sra project_fields
  | SRA_SELECT nat sra condition
  | SRA_JOIN nat join_type sra sra "join_condition option"
  | SRA_BINARY nat binary_op sra sra

text \<open>An operand of a relational term may be NULL.\<close>

datatype ra =
    RA_TABLE nat string
  | RA_SIGMA nat "ra option" condition
  | RA_PI nat "ra option" "expression list"
  | RA_UNION nat "ra option" "ra option"
  | RA_DIFFERENCE nat "ra option" "ra option"
  | RA_CROSS nat "ra option" "ra option"
  | RA_RHO_TABLE nat "ra option" string
  | RA_RHO_EXPR nat "ra option" expression string

section \<open>Constructors\<close>

definition SRATable :: "table_reference \<Rightarrow> heap \<Rightarrow> sra \<times> heap" where
  "SRATable ref h = (let (a, h) = calloc h in (SRA_TABLE a ref, h))"

definition SRAProject :: "sra \<Rightarrow> expression list \<Rightarrow> heap \<Rightarrow> sra \<times> heap" where
  "SRAProject sra expr h =
     (let (a, h) = calloc h in
      (SRA_PROJECT a sra \<lparr>pj_expr_list = expr, pj_order_by = None, pj_distinct = False,
         pj_asc_desc = ORDER_BY_ASC, pj_group_by = None\<rparr>, h))"

definition SRASelect :: "sra \<Rightarrow> condition option \<Rightarrow> heap \<Rightarrow> sra \<times> heap" where
  "SRASelect sra cond h =
     (case cond of
        None \<Rightarrow> (sra, h)
      | Some c \<Rightarrow> (let (a, h) = calloc h in (SRA_SELECT a sra c, h)))"

definition SRAJoin :: "sra \<Rightarrow> sra \<Rightarrow> join_condition option \<Rightarrow> heap \<Rightarrow> sra \<times> heap" where
  "SRAJoin sra1 sra2 cond h = (let (a, h) = calloc h in (SRA_JOIN a JOIN sra1 sra2 cond, h))"

text \<open>The outer joins make a join and overwrite its type.\<close>

definition set_join_type :: "join_type \<Rightarrow> sra \<Rightarrow> sra" where
  "set_join_type t sra = (case sra of SRA_JOIN a _ sra1 sra2 cond \<Rightarrow> SRA_JOIN a t sra1 sra2 cond | _ \<Rightarrow> sra)"

definition SRALeftOuterJoin :: "sra \<Rightarrow> sra \<Rightarrow> join_condition option \<Rightarrow> heap \<Rightarrow> sra \<times> heap" where
  "SRALeftOuterJoin sra1 sra2 cond h =
     (let (res, h) = SRAJoin sra1 sra2 cond h in (set_join_type LEFT_OUTER_JOIN res, h))"

definition SRARightOuterJoin :: "sra \<Rightarrow> sra \<Rightarrow> join_condition option \<Rightarrow> heap \<Rightarrow> sra \<times> heap" where
  "SRARightOuterJoin sra1 sra2 cond h =
     (let (res, h) = SRAJoin sra1 sra2 cond h in (set_join_type RIGHT_OUTER_JOIN res, h))"

definition SRAFullOuterJoin :: "sra \<Rightarrow> sra \<Rightarrow> join_condition option \<Rightarrow> heap \<Rightarrow> sra \<times> heap" where
  "SRAFullOuterJoin sra1 sra2 cond h =
     (let (res, h) = SRAJoin sra1 sra2 cond h in (set_join_type FULL_OUTER_JOIN res, h))"

definition SRABinary :: "sra \<Rightarrow> sra \<Rightarrow> binary_op \<Rightarrow> heap \<Rightarrow> sra \<times> heap" where
  "SRABinary sra1 sra2 t h = (let (a, h) = calloc h in (SRA_BINARY a t sra1 sra2, h))"

definition SRAUnion :: "sra \<Rightarrow> sra \<Rightarrow> heap \<Rightarrow> sra \<times> heap" where
  "SRAUnion sra1 sra2 h = SRABinary sra1 sra2 UNION h"

definition SRAExcept :: "sra \<Rightarrow> sra \<Rightarrow> heap \<Rightarrow> sra \<times> heap" where
  "SRAExcept sra1 sra2 h = SRABinary sra1 sra2 EXCEPT h"

definition SRAIntersect :: "sra \<Rightarrow> sra \<Rightarrow> heap \<Rightarrow> sra \<times> heap" where
  "SRAIntersect sra1 sra2 h = SRABinary sra1 sra2 INTERSECT h"

definition SRANaturalJoin :: "sra \<Rightarrow> sra \<Rightarrow> heap \<Rightarrow> sra \<times> heap" where
  "SRANaturalJoin sra1 sra2 h = SRABinary sra1 sra2 NATURAL_JOIN h"

definition RA_Table :: "string \<Rightarrow> heap \<Rightarrow> ra \<times> heap" where
  "RA_Table name h = (let (a, h) = calloc h in (RA_TABLE a name, h))"

definition RA_Sigma :: "ra option \<Rightarrow> condition \<Rightarrow> heap \<Rightarrow> ra \<times> heap" where
  "RA_Sigma ra cond h = (let (a, h) = calloc h in (RA_SIGMA a ra cond, h))"

definition RA_Pi :: "ra option \<Rightarrow> expression list \<Rightarrow> heap \<Rightarrow> ra \<times> heap" where
  "RA_Pi ra expr_list h = (let (a, h) = calloc h in (RA_PI a ra expr_list, h))"

definition RA_Union :: "ra option \<Rightarrow> ra option \<Rightarrow> heap \<Rightarrow> ra \<times> heap" where
  "RA_Union ra1 ra2 h = (let (a, h) = calloc h in (RA_UNION a ra1 ra2, h))"

definition RA_Difference :: "ra option \<Rightarrow> ra option \<Rightarrow> heap \<Rightarrow> ra \<times> heap" where
  "RA_Difference ra1 ra2 h = (let (a, h) = calloc h in (RA_DIFFERENCE a ra1 ra2, h))"

definition RA_Cross :: "ra option \<Rightarrow> ra option \<Rightarrow> heap \<Rightarrow> ra \<times> heap" where
  "RA_Cross ra1 ra2 h = (let (a, h) = calloc h in (RA_CROSS a ra1 ra2, h))"

text \<open>The operand of a renaming is not stored: \<open>calloc\<close> leaves it NULL.\<close>

definition RA_RhoTable :: "ra option \<Rightarrow> string \<Rightarrow> heap \<Rightarrow> ra \<times> heap" where
  "RA_RhoTable ra new_name h = (let (a, h) = calloc h in (RA_RHO_TABLE a None new_name, h))"

definition RA_RhoExpr :: "ra option \<Rightarrow> expression \<Rightarrow> string \<Rightarrow> heap \<Rightarrow> ra \<times> heap" where
  "RA_RhoExpr ra expr new_name h = (let (a, h) = calloc h in (RA_RHO_EXPR a None expr new_name, h))"

section \<open>Options of a projection\<close>

record project_option =
  po_order_by :: "expression option"
  po_group_by :: "expression option"
  po_asc_desc :: order_by

definition OrderBy_make :: "expression option \<Rightarrow> order_by \<Rightarrow> project_option" where
  "OrderBy_make expr asc_desc = \<lparr>po_order_by = expr, po_group_by = None, po_asc_desc = asc_desc\<rparr>"

definition GroupBy_make :: "expression option \<Rightarrow> project_option" where
  "GroupBy_make expr = \<lparr>po_order_by = None, po_group_by = expr, po_asc_desc = ORDER_BY_ASC\<rparr>"

text \<open>Two orders or two groupings end the process (\<open>Inl\<close>). The option that is not returned is
  freed.\<close>

definition ProjectOption_combine :: "project_option \<Rightarrow> project_option \<Rightarrow> int + project_option" where
  "ProjectOption_combine op1 op2 =
     (if po_group_by op1 \<noteq> None \<and> po_group_by op2 \<noteq> None then Inl 1
      else if po_order_by op1 \<noteq> None \<and> po_order_by op2 \<noteq> None then Inl 1
      else if po_group_by op2 \<noteq> None then Inr (op1\<lparr>po_group_by := po_group_by op2\<rparr>)
      else Inr (op2\<lparr>po_group_by := po_group_by op1\<rparr>))"

definition SRA_applyOption :: "sra \<Rightarrow> project_option option \<Rightarrow> int + sra" where
  "SRA_applyOption sra option =
     (case sra of
        SRA_PROJECT a s f \<Rightarrow>
          (case option of
             None \<Rightarrow> Inr sra
           | Some op \<Rightarrow>
               (let f = (if po_order_by op \<noteq> None
                         then f\<lparr>pj_order_by := po_order_by op, pj_asc_desc := po_asc_desc op\<rparr> else f);
                    f = (if po_group_by op \<noteq> None then f\<lparr>pj_group_by := po_group_by op\<rparr> else f)
                in Inr (SRA_PROJECT a s f)))
      | _ \<Rightarrow> Inl 1)"

definition SRA_makeDistinct :: "sra \<Rightarrow> sra" where
  "SRA_makeDistinct sra =
     (case sra of SRA_PROJECT a s f \<Rightarrow> SRA_PROJECT a s (f\<lparr>pj_distinct := True\<rparr>) | _ \<Rightarrow> sra)"

section \<open>Freeing\<close>

text \<open>\<open>Expression_free\<close> reads the expression it is given, so it is undefined on NULL: a projection
  is freed with both options or not at all.\<close>

definition Expression_free_ptr :: "expression option \<Rightarrow> unit option" where
  "Expression_free_ptr e = map_option (\<lambda>_. ()) e"

fun SRA_free :: "sra \<Rightarrow> heap \<Rightarrow> heap option" where
  "SRA_free (SRA_TABLE a ref) h = do { live a h; free a h }"
| "SRA_free (SRA_PROJECT a s f) h = do {
     live a h;
     h \<leftarrow> SRA_free s h;
     Expression_free_ptr (pj_order_by f);
     Expression_free_ptr (pj_group_by f);
     free a h }"
| "SRA_free (SRA_SELECT a s cond) h = do {
     live a h;
     h \<leftarrow> SRA_free s h;
     free a h }"
| "SRA_free (SRA_JOIN a t s1 s2 cond) h = do {
     live a h;
     h \<leftarrow> SRA_free s1 h;
     h \<leftarrow> SRA_free s2 h;
     free a h }"
| "SRA_free (SRA_BINARY a t s1 s2) h = do {
     live a h;
     h \<leftarrow> SRA_free s1 h;
     h \<leftarrow> SRA_free s2 h;
     free a h }"

text \<open>Freeing a relational term follows every operand, also one that is NULL.\<close>

fun RA_free :: "ra option \<Rightarrow> heap \<Rightarrow> heap option" where
  "RA_free None h = None"
| "RA_free (Some (RA_TABLE a name)) h = do { live a h; free a h }"
| "RA_free (Some (RA_SIGMA a r cond)) h = do { live a h; h \<leftarrow> RA_free r h; free a h }"
| "RA_free (Some (RA_PI a r es)) h = do { live a h; h \<leftarrow> RA_free r h; free a h }"
| "RA_free (Some (RA_UNION a r1 r2)) h = do { live a h; h \<leftarrow> RA_free r1 h; h \<leftarrow> RA_free r2 h; free a h }"
| "RA_free (Some (RA_DIFFERENCE a r1 r2)) h = do { live a h; h \<leftarrow> RA_free r1 h; h \<leftarrow> RA_free r2 h; free a h }"
| "RA_free (Some (RA_CROSS a r1 r2)) h = do { live a h; h \<leftarrow> RA_free r1 h; h \<leftarrow> RA_free r2 h; free a h }"
| "RA_free (Some (RA_RHO_EXPR a r e n)) h = do { live a h; h \<leftarrow> RA_free r h; free a h }"
| "RA_free (Some (RA_RHO_TABLE a r n)) h = do { live a h; h \<leftarrow> RA_free r h; free a h }"

section \<open>Translation\<close>

definition desugar_table :: "table_reference \<Rightarrow> heap \<Rightarrow> ra \<times> heap" where
  "desugar_table ref h =
     (case tr_alias ref of
        None \<Rightarrow> RA_Table (tr_table_name ref) h
      | Some alias \<Rightarrow>
          (let (t, h) = RA_Table (tr_table_name ref) h in RA_RhoTable (Some t) alias h))"

text \<open>The result is NULL or a relational term. Tables, projections, selections and joins are freed
  with all their operands after their translation; unions, differences and intersections are
  not. An intersection shares its operands.\<close>

fun SRA_desugar :: "sra \<Rightarrow> heap \<Rightarrow> (ra option \<times> heap) option" where
  "SRA_desugar (SRA_TABLE a ref) h = do {
     live a h;
     let (res, h) = desugar_table ref h;
     h \<leftarrow> SRA_free (SRA_TABLE a ref) h;
     Some (Some res, h) }"
| "SRA_desugar (SRA_PROJECT a s f) h = do {
     live a h;
     (r, h) \<leftarrow> SRA_desugar s h;
     let (res, h) = RA_Pi r (pj_expr_list f) h;
     h \<leftarrow> SRA_free (SRA_PROJECT a s f) h;
     Some (Some res, h) }"
| "SRA_desugar (SRA_SELECT a s cond) h = do {
     live a h;
     (r, h) \<leftarrow> SRA_desugar s h;
     let (res, h) = RA_Sigma r cond h;
     h \<leftarrow> SRA_free (SRA_SELECT a s cond) h;
     Some (Some res, h) }"
| "SRA_desugar (SRA_JOIN a t s1 s2 cond) h = do {
     live a h;
     h \<leftarrow> SRA_free (SRA_JOIN a t s1 s2 cond) h;
     Some (None, h) }"
| "SRA_desugar (SRA_BINARY a t s1 s2) h = do {
     live a h;
     if t = NATURAL_JOIN then do {
       h \<leftarrow> SRA_free (SRA_BINARY a t s1 s2) h;
       Some (None, h) }
     else do {
       (t1, h) \<leftarrow> SRA_desugar s1 h;
       (t2, h) \<leftarrow> SRA_desugar s2 h;
       if t = INTERSECT then
         (let (u, h) = RA_Union t1 t2 h;
              (d1, h) = RA_Difference t1 t2 h;
              (d2, h) = RA_Difference t2 t1 h;
              (d, h) = RA_Difference (Some d1) (Some d2) h;
              (res, h) = RA_Difference (Some u) (Some d) h
          in Some (Some res, h))
       else
         (let (res, h) = RA_Union t1 t2 h in Some (Some res, h)) } }"

section \<open>Printing\<close>

text \<open>The printer keeps its indentation in a global variable.\<close>

record printer =
  pr_ind :: int
  pr_out :: string

definition BUF_SIZE :: nat where "BUF_SIZE = 5000"

definition NEWLINE :: char where "NEWLINE = CHR 0x0A"

definition emit :: "string \<Rightarrow> printer \<Rightarrow> printer" where
  "emit s p = p\<lparr>pr_out := pr_out p @ s\<rparr>"

definition upInd :: "printer \<Rightarrow> printer" where
  "upInd p = emit [NEWLINE] (p\<lparr>pr_ind := pr_ind p + 1\<rparr>)"

definition downInd :: "printer \<Rightarrow> printer" where
  "downInd p =
     (let p = emit [NEWLINE] (p\<lparr>pr_ind := pr_ind p - 1\<rparr>) in
      if pr_ind p < 0 then emit ''error, ind is < 0'' p else p)"

text \<open>The text goes behind the tabs with the whole size of the buffer as its limit, which is too
  much when there are tabs.\<close>

definition indent_print :: "string \<Rightarrow> printer \<Rightarrow> printer option" where
  "indent_print s p =
     (let p = (if pr_ind p < 1 then p\<lparr>pr_ind := 0\<rparr> else p);
          n = nat (pr_ind p);
          s = take (BUF_SIZE - 1) s in
      if n + length s + 1 \<le> BUF_SIZE then Some (emit (replicate n (CHR 0x09) @ s) p) else None)"

text \<open>\<open>emit_opt\<close> is for a part whose own printing may be undefined.\<close>

definition emit_opt :: "string option \<Rightarrow> printer \<Rightarrow> printer option" where
  "emit_opt s p = map_option (\<lambda>s. emit s p) s"

definition JoinCondition_print :: "(double \<Rightarrow> string) \<Rightarrow> join_condition \<Rightarrow> string option" where
  "JoinCondition_print sd cond =
     (case cond of
        JOIN_COND_ON c \<Rightarrow> do { s \<leftarrow> Condition_print sd c; Some (''On: '' @ s) }
      | JOIN_COND_USING l \<Rightarrow> Some (''Using: '' @ StrList_print l))"

definition print_project_options :: "(double \<Rightarrow> string) \<Rightarrow> project_fields \<Rightarrow> printer \<Rightarrow> printer option" where
  "print_project_options sd f p =
     (if pj_distinct f \<or> pj_group_by f \<noteq> None \<or> pj_order_by f \<noteq> None then do {
        p \<leftarrow> indent_print ''Options: '' (emit ('','' @ [NEWLINE]) p);
        let p = (if pj_distinct f then emit ''Distinct '' p else p);
        p \<leftarrow> (case pj_group_by f of
                None \<Rightarrow> Some p
              | Some e \<Rightarrow> do { p \<leftarrow> emit_opt (Expression_print sd e) (emit ''Group by '' p); Some (emit '' '' p) });
        (case pj_order_by f of
           None \<Rightarrow> Some p
         | Some e \<Rightarrow> do {
             p \<leftarrow> emit_opt (Expression_print sd e) (emit ''Order by '' p);
             Some (emit ((if pj_asc_desc f = ORDER_BY_ASC then '' a'' else '' de'') @ ''scending'') p) }) }
      else Some p)"

definition print_join_cond :: "(double \<Rightarrow> string) \<Rightarrow> join_condition option \<Rightarrow> printer \<Rightarrow> printer option" where
  "print_join_cond sd cond p =
     (case cond of
        None \<Rightarrow> Some p
      | Some c \<Rightarrow> do {
          p \<leftarrow> indent_print [] (emit ('','' @ [NEWLINE]) p);
          emit_opt (JoinCondition_print sd c) p })"

fun SRA_print :: "(double \<Rightarrow> string) \<Rightarrow> sra \<Rightarrow> printer \<Rightarrow> printer option" where
  "SRA_print sd (SRA_TABLE a ref) p = do {
     p \<leftarrow> indent_print (''Table('' @ tr_table_name ref) p;
     Some (emit ((case tr_alias ref of None \<Rightarrow> [] | Some al \<Rightarrow> '' as '' @ al) @ '')'') p) }"
| "SRA_print sd (SRA_SELECT a s cond) p = do {
     p \<leftarrow> indent_print ''Select('' p;
     p \<leftarrow> emit_opt (Condition_print sd cond) p;
     p \<leftarrow> SRA_print sd s (upInd (emit '', '' p));
     indent_print '')'' (downInd p) }"
| "SRA_print sd (SRA_PROJECT a s f) p = do {
     p \<leftarrow> indent_print ''Project('' p;
     p \<leftarrow> emit_opt (Expression_printList sd (pj_expr_list f)) p;
     p \<leftarrow> SRA_print sd s (upInd (emit '', '' p));
     p \<leftarrow> print_project_options sd f p;
     indent_print '')'' (downInd p) }"
| "SRA_print sd (SRA_BINARY a t s1 s2) p =
     (if t = NATURAL_JOIN then do {
        p \<leftarrow> indent_print ''NaturalJoin('' p;
        p \<leftarrow> SRA_print sd s1 (upInd p);
        p \<leftarrow> SRA_print sd s2 (emit ('', '' @ [NEWLINE]) p);
        indent_print '')'' (downInd p) }
      else do {
        p \<leftarrow> indent_print (case t of UNION \<Rightarrow> ''Union('' | EXCEPT \<Rightarrow> ''Except('' | _ \<Rightarrow> ''Intersect('') p;
        p \<leftarrow> SRA_print sd s1 (upInd p);
        p \<leftarrow> indent_print '', '' p;
        p \<leftarrow> SRA_print sd s2 p;
        indent_print '')'' (downInd p) })"
| "SRA_print sd (SRA_JOIN a t s1 s2 cond) p =
     (if t = JOIN then do {
        p \<leftarrow> indent_print ''Join('' p;
        p \<leftarrow> SRA_print sd s1 (upInd p);
        p \<leftarrow> SRA_print sd s2 (emit ('', '' @ [NEWLINE]) p);
        p \<leftarrow> print_join_cond sd cond p;
        indent_print '')'' (downInd p) }
      else do {
        p \<leftarrow> indent_print (case t of LEFT_OUTER_JOIN \<Rightarrow> ''Left'' | RIGHT_OUTER_JOIN \<Rightarrow> ''Right'' | _ \<Rightarrow> ''Full'') p;
        p \<leftarrow> SRA_print sd s1 (upInd (emit ''OuterJoin('' p));
        p \<leftarrow> SRA_print sd s2 (emit ('','' @ [NEWLINE]) p);
        p \<leftarrow> print_join_cond sd cond p;
        indent_print '')'' (downInd p) })"

definition ProjectOption_print :: "(double \<Rightarrow> string) \<Rightarrow> (expression \<Rightarrow> string) \<Rightarrow> project_option \<Rightarrow> string option" where
  "ProjectOption_print sd show_pointer op = do {
     s \<leftarrow> (case po_order_by op of
            None \<Rightarrow> Some []
          | Some e \<Rightarrow> do {
              s \<leftarrow> Expression_print sd e;
              Some (''Order by: ('' @ show_pointer e @ '') '' @ s @
                (if po_asc_desc op = ORDER_BY_ASC then '' ascending'' else '' descending'')) });
     t \<leftarrow> (case po_group_by op of
            None \<Rightarrow> Some []
          | Some e \<Rightarrow> do { s \<leftarrow> Expression_print sd e; Some (''Group by: ('' @ show_pointer e @ '') '' @ s) });
     Some (s @ t @ (if po_order_by op = None \<and> po_group_by op = None then ''Empty ProjectOption'' @ [NEWLINE] else [])) }"

text \<open>Printing a relational term is undefined on a NULL operand.\<close>

fun RA_print :: "(double \<Rightarrow> string) \<Rightarrow> ra option \<Rightarrow> printer \<Rightarrow> printer option" where
  "RA_print sd None p = None"
| "RA_print sd (Some (RA_TABLE a name)) p = indent_print (''Table('' @ name @ '')'') p"
| "RA_print sd (Some (RA_SIGMA a r cond)) p = do {
     p \<leftarrow> indent_print ''Sigma('' p;
     p \<leftarrow> emit_opt (Condition_print sd cond) p;
     p \<leftarrow> RA_print sd r (upInd (emit '', '' p));
     indent_print '')'' (downInd p) }"
| "RA_print sd (Some (RA_PI a r es)) p = do {
     p \<leftarrow> indent_print ''Pi('' p;
     p \<leftarrow> emit_opt (Expression_printList sd es) p;
     p \<leftarrow> RA_print sd r (upInd (emit '', '' p));
     indent_print '')'' (downInd p) }"
| "RA_print sd (Some (RA_UNION a r1 r2)) p = do {
     p \<leftarrow> indent_print ''Union('' p;
     p \<leftarrow> RA_print sd r1 (upInd p);
     p \<leftarrow> indent_print '', '' p;
     p \<leftarrow> RA_print sd r2 p;
     indent_print '')'' (downInd p) }"
| "RA_print sd (Some (RA_DIFFERENCE a r1 r2)) p = do {
     p \<leftarrow> indent_print ''Difference('' p;
     p \<leftarrow> RA_print sd r1 (upInd p);
     p \<leftarrow> indent_print '', '' p;
     p \<leftarrow> RA_print sd r2 p;
     indent_print '')'' (downInd p) }"
| "RA_print sd (Some (RA_CROSS a r1 r2)) p = do {
     p \<leftarrow> indent_print ''Cross('' p;
     p \<leftarrow> RA_print sd r1 (upInd p);
     p \<leftarrow> indent_print ('', '' @ [NEWLINE]) p;
     p \<leftarrow> RA_print sd r2 p;
     indent_print '')'' (downInd p) }"
| "RA_print sd (Some (RA_RHO_EXPR a r e n)) p = do {
     p \<leftarrow> indent_print ''RhoExpr('' p;
     p \<leftarrow> emit_opt (Expression_print sd e) p;
     p \<leftarrow> RA_print sd r (upInd (emit ('', '' @ [CHR 0x22] @ n @ [CHR 0x22] @ '','') p));
     indent_print '')'' (downInd p) }"
| "RA_print sd (Some (RA_RHO_TABLE a r n)) p = do {
     p \<leftarrow> indent_print ''RhoTable('' p;
     p \<leftarrow> RA_print sd r (upInd p);
     indent_print '')'' (emit ('', '' @ [CHR 0x22] @ n @ [CHR 0x22]) (downInd p)) }"

end
