(* ===== verification/SqlCorrect.thy ===== *)
theory SqlCorrect
  imports SqlAlgebra
begin

text \<open>
  Correctness of the SQL terms: what the type check accepts, the sizes and offsets of columns,
  and the translation of SQL algebra, with the nodes it frees and the meaning of its result.
\<close>

section \<open>Lists\<close>

text \<open>The append functions are list append.\<close>

lemma append_functions:
  "Literal_append xs ys = xs @ ys" "StrList_append ss ts = ss @ ts"
  "append_expression es fs = es @ fs" "Column_append cs ds = cs @ ds"
proof -
  show "Literal_append xs ys = xs @ ys" by (induction xs) auto
  show "StrList_append ss ts = ss @ ts" by (induction ss) auto
  show "append_expression es fs = es @ fs" by (induction es) auto
  show "Column_append cs ds = cs @ ds" by (induction cs) auto
qed

section \<open>Types of expressions\<close>

text \<open>The types of the terms at the leaves; a function is a leaf.\<close>

fun leaf_types :: "expression \<Rightarrow> term_type set" and node_leaf_types :: "node \<Rightarrow> term_type set" where
  "leaf_types (Expression n alias) = node_leaf_types n"
| "node_leaf_types (Literal_term v) = {TERM_LITERAL}"
| "node_leaf_types (Id_term i) = {TERM_ID}"
| "node_leaf_types Null_term = {TERM_NULL}"
| "node_leaf_types (Colref_term r) = {TERM_COLREF}"
| "node_leaf_types (Func_term f e) = {TERM_FUNC}"
| "node_leaf_types (Neg_node e) = leaf_types e"
| "node_leaf_types (Binary_node t e1 e2) = leaf_types e1 \<union> leaf_types e2"

lemma leaf_types_nonempty: "leaf_types e \<noteq> {}" "node_leaf_types n \<noteq> {}"
  by (induction e and n rule: leaf_types_node_leaf_types.induct) auto

lemma type_check:
  "Expression_type e = Inr t \<longleftrightarrow> leaf_types e = {t}"
  "node_type n = Inr t \<longleftrightarrow> node_leaf_types n = {t}"
proof (induction e and n arbitrary: t and t rule: Expression_type_node_type.induct)
  case (8 b e1 e2)
  have u: "leaf_types e1 \<union> leaf_types e2 = {t} \<longleftrightarrow> leaf_types e1 = {t} \<and> leaf_types e2 = {t}"
    using leaf_types_nonempty(1) by (simp add: Un_singleton_iff)
  have n: "node_type (Binary_node b e1 e2) = Inr t \<longleftrightarrow> Expression_type e1 = Inr t \<and> Expression_type e2 = Inr t"
    by (auto split: sum.split)
  have "Expression_type e1 = Inr t \<longleftrightarrow> leaf_types e1 = {t}" by (rule 8(1))
  moreover have "Expression_type e2 = Inr t \<longleftrightarrow> leaf_types e2 = {t}" if "Expression_type e1 = Inr t"
    using that by (rule 8(2))
  ultimately show ?case unfolding n node_leaf_types.simps u by blast
qed auto

lemma type_exit: "Expression_type e = Inl x \<Longrightarrow> x = 1" "node_type n = Inl x \<Longrightarrow> x = 1"
  by (induction e and n rule: Expression_type_node_type.induct) (auto split: sum.splits if_splits)

section \<open>Columns\<close>

lemma offsets_step:
  "i < length cols \<Longrightarrow>
   co_offset (Column_getOffsets_r cols off ! i) = (if i = 0 then off else Column_getSize (cols ! (i - 1)))"
  by (induction cols off arbitrary: i rule: Column_getOffsets_r.induct) (auto simp: nth_Cons split: nat.split)

lemma length_offsets: "length (Column_getOffsets_r cols off) = length cols"
  by (induction cols off rule: Column_getOffsets_r.induct) auto

section \<open>The heap\<close>

definition heap_ok :: "heap \<Rightarrow> bool" where
  "heap_ok h \<longleftrightarrow> (\<forall>a. hp_live h a \<longrightarrow> a < hp_next h)"

text \<open>\<open>later h h'\<close>: nodes may have been freed and new ones allocated, none has come back.\<close>

definition later :: "heap \<Rightarrow> heap \<Rightarrow> bool" where
  "later h h' \<longleftrightarrow> hp_next h \<le> hp_next h' \<and> (\<forall>a < hp_next h. hp_live h' a \<longrightarrow> hp_live h a) \<and>
     (heap_ok h \<longrightarrow> heap_ok h')"

lemma later_refl [simp]: "later h h" by (simp add: later_def)

lemma later_trans [trans]: "later h h1 \<Longrightarrow> later h1 h2 \<Longrightarrow> later h h2"
  by (simp add: later_def)

lemma later_calloc: "calloc h = (a, h') \<Longrightarrow> later h h'"
  by (auto simp: calloc_def later_def heap_ok_def split: if_splits)

lemma free_cases: "free a h = Some h' \<longleftrightarrow> hp_live h a \<and> h' = h\<lparr>hp_live := (hp_live h)(a := False)\<rparr>"
  by (auto simp: free_def)

lemma later_free: "free a h = Some h' \<Longrightarrow> later h h'"
  by (auto simp: free_cases later_def heap_ok_def split: if_splits)

lemma live_Some: "live a h = Some u \<longleftrightarrow> hp_live h a"
  by (simp add: live_def)

fun nodes :: "sra \<Rightarrow> nat set" where
  "nodes (SRA_TABLE a ref) = {a}"
| "nodes (SRA_PROJECT a s f) = insert a (nodes s)"
| "nodes (SRA_SELECT a s c) = insert a (nodes s)"
| "nodes (SRA_JOIN a t s1 s2 c) = insert a (nodes s1 \<union> nodes s2)"
| "nodes (SRA_BINARY a t s1 s2) = insert a (nodes s1 \<union> nodes s2)"

text \<open>Freeing a term needs all its nodes and leaves none of them.\<close>

lemma SRA_free_effect:
  "SRA_free s h = Some h' \<Longrightarrow>
   (\<forall>a. hp_live h' a \<longleftrightarrow> hp_live h a \<and> a \<notin> nodes s) \<and> (\<forall>a \<in> nodes s. hp_live h a) \<and> hp_next h' = hp_next h"
proof (induction s arbitrary: h h')
  case (SRA_TABLE a ref)
  then show ?case by (auto simp: bind_Some_conv free_cases live_Some)
next
  case (SRA_PROJECT a s f)
  then obtain h1 where "SRA_free s h = Some h1" "hp_live h1 a" "h' = h1\<lparr>hp_live := (hp_live h1)(a := False)\<rparr>"
    by (auto simp: bind_Some_conv free_cases live_Some)
  then show ?case using SRA_PROJECT.IH [of h h1] by auto
next
  case (SRA_SELECT a s c)
  then obtain h1 where "SRA_free s h = Some h1" "hp_live h1 a" "h' = h1\<lparr>hp_live := (hp_live h1)(a := False)\<rparr>"
    by (auto simp: bind_Some_conv free_cases live_Some)
  then show ?case using SRA_SELECT.IH [of h h1] by auto
next
  case (SRA_JOIN a t s1 s2 c)
  then obtain h1 h2 where "SRA_free s1 h = Some h1" "SRA_free s2 h1 = Some h2" "hp_live h2 a"
    "h' = h2\<lparr>hp_live := (hp_live h2)(a := False)\<rparr>"
    by (auto simp: bind_Some_conv free_cases live_Some)
  then show ?case using SRA_JOIN.IH(1) [of h h1] SRA_JOIN.IH(2) [of h1 h2] by auto
next
  case (SRA_BINARY a t s1 s2)
  then obtain h1 h2 where "SRA_free s1 h = Some h1" "SRA_free s2 h1 = Some h2" "hp_live h2 a"
    "h' = h2\<lparr>hp_live := (hp_live h2)(a := False)\<rparr>"
    by (auto simp: bind_Some_conv free_cases live_Some)
  then show ?case using SRA_BINARY.IH(1) [of h h1] SRA_BINARY.IH(2) [of h1 h2] by auto
qed

text \<open>The root of a term that has been freed is the node the next lemmas need.\<close>

lemma SRA_free_root:
  assumes "SRA_free s h = Some h'" and "heap_ok h" and "a \<in> nodes s"
  shows "a < hp_next h'" and "\<not> hp_live h' a"
proof -
  note e = SRA_free_effect [OF assms(1)]
  show "\<not> hp_live h' a" using e assms(3) by blast
  have "hp_live h a" using e assms(3) by blast
  then show "a < hp_next h'" using e assms(2) by (simp add: heap_ok_def)
qed

lemma later_SRA_free: "SRA_free s h = Some h' \<Longrightarrow> later h h'"
  using SRA_free_effect [of s h h'] by (auto simp: later_def heap_ok_def)

lemmas ra_allocs = RA_Table_def RA_Sigma_def RA_Pi_def RA_Union_def RA_Difference_def RA_RhoTable_def

lemma later_alloc:
  "RA_Table n h = (r, h') \<Longrightarrow> later h h'" "RA_Pi x es h = (r, h') \<Longrightarrow> later h h'"
  "RA_Sigma x c h = (r, h') \<Longrightarrow> later h h'" "RA_Union x y h = (r, h') \<Longrightarrow> later h h'"
  "RA_Difference x y h = (r, h') \<Longrightarrow> later h h'" "RA_RhoTable x n h = (r, h') \<Longrightarrow> later h h'"
  by (auto simp: ra_allocs split: prod.splits dest: later_calloc)

lemma later_desugar_table: "desugar_table ref h = (r, h') \<Longrightarrow> later h h'"
  by (auto simp: desugar_table_def split: option.splits prod.splits dest!: later_alloc intro: later_trans)

text \<open>The allocations of relational nodes, as steps of the heap.\<close>

definition bump :: "heap \<Rightarrow> heap" where
  "bump h = snd (calloc h)"

lemma bump_simps [simp]:
  "hp_next (bump h) = hp_next h + 1" "a < hp_next h \<Longrightarrow> hp_live (bump h) a = hp_live h a"
  "later h (bump h)"
  using later_calloc [of h "fst (calloc h)" "bump h"] by (auto simp: bump_def calloc_def)

lemma alloc_eqs:
  "RA_Table n h = (RA_TABLE (hp_next h) n, bump h)" "RA_Union x y h = (RA_UNION (hp_next h) x y, bump h)"
  "RA_Difference x y h = (RA_DIFFERENCE (hp_next h) x y, bump h)"
  by (simp_all add: ra_allocs bump_def calloc_def)

text \<open>Translating a term frees one of its nodes at least.\<close>

lemma freed_stays: "later h h' \<Longrightarrow> a < hp_next h \<Longrightarrow> \<not> hp_live h a \<Longrightarrow> \<not> hp_live h' a \<and> a < hp_next h'"
  by (auto simp: later_def)

lemma freed_after:
  assumes "b \<in> N" and "b < hp_next h1" and "\<not> hp_live h1 b" and "later h h1" and "later h1 h'" and "N \<subseteq> M"
  shows "later h h' \<and> (\<exists>a \<in> M. a < hp_next h' \<and> \<not> hp_live h' a)"
  using later_trans [OF assms(4,5)] freed_stays [OF assms(5,2,3)] assms(1,6) by blast

lemma desugar_frees:
  "SRA_desugar s h = Some (r, h') \<Longrightarrow> heap_ok h \<Longrightarrow> later h h' \<and> (\<exists>a \<in> nodes s. a < hp_next h' \<and> \<not> hp_live h' a)"
proof (induction s arbitrary: h h' r)
  case (SRA_TABLE a ref)
  then obtain res h1 where "hp_live h a" "desugar_table ref h = (res, h1)" "SRA_free (SRA_TABLE a ref) h1 = Some h'"
    by (auto simp: bind_Some_conv live_Some split: prod.splits)
  note l = later_desugar_table [OF this(2)] and f = this(3)
  have "heap_ok h1" using l SRA_TABLE.prems(2) by (simp add: later_def)
  from SRA_free_root [OF f this, of a] later_trans [OF l later_SRA_free [OF f]] show ?case by auto
next
  case (SRA_PROJECT a s f)
  obtain r1 h1 where s1: "SRA_desugar s h = Some (r1, h1)"
    using SRA_PROJECT.prems(1) by (auto simp: bind_Some_conv)
  obtain res h2 where s2: "RA_Pi r1 (pj_expr_list f) h1 = (res, h2)" using prod.exhaust by blast
  then have s3: "SRA_free (SRA_PROJECT a s f) h2 = Some h'"
    using SRA_PROJECT.prems(1) s1 by (auto simp: bind_Some_conv)
  note s = s1 s2 s3
  obtain b where b: "b \<in> nodes s" "b < hp_next h1" "\<not> hp_live h1 b" "later h h1"
    using SRA_PROJECT.IH [OF s(1) SRA_PROJECT.prems(2)] by blast
  show ?case
    by (rule freed_after [OF b later_trans [OF later_alloc(2) [OF s(2)] later_SRA_free [OF s(3)]]]) auto
next
  case (SRA_SELECT a s c)
  obtain r1 h1 where s1: "SRA_desugar s h = Some (r1, h1)"
    using SRA_SELECT.prems(1) by (auto simp: bind_Some_conv)
  obtain res h2 where s2: "RA_Sigma r1 c h1 = (res, h2)" using prod.exhaust by blast
  then have s3: "SRA_free (SRA_SELECT a s c) h2 = Some h'"
    using SRA_SELECT.prems(1) s1 by (auto simp: bind_Some_conv)
  note s = s1 s2 s3
  obtain b where b: "b \<in> nodes s" "b < hp_next h1" "\<not> hp_live h1 b" "later h h1"
    using SRA_SELECT.IH [OF s(1) SRA_SELECT.prems(2)] by blast
  show ?case
    by (rule freed_after [OF b later_trans [OF later_alloc(3) [OF s(2)] later_SRA_free [OF s(3)]]]) auto
next
  case (SRA_JOIN a t s1 s2 c)
  then have "SRA_free (SRA_JOIN a t s1 s2 c) h = Some h'" by (auto simp: bind_Some_conv)
  from later_SRA_free [OF this] SRA_free_root [OF this SRA_JOIN.prems(2), of a] show ?case by auto
next
  case (SRA_BINARY a t s1 s2)
  show ?case
  proof (cases "t = NATURAL_JOIN")
    case True
    then have "SRA_free (SRA_BINARY a t s1 s2) h = Some h'" using SRA_BINARY.prems(1) by (auto simp: bind_Some_conv)
    from later_SRA_free [OF this] SRA_free_root [OF this SRA_BINARY.prems(2), of a] show ?thesis by auto
  next
    case False
    obtain r1 h1 r2 h2 where s: "SRA_desugar s1 h = Some (r1, h1)" "SRA_desugar s2 h1 = Some (r2, h2)"
      using SRA_BINARY.prems(1) False by (auto simp: bind_Some_conv)
    have l3: "later h2 h'"
    proof -
      have "later h2 (bump (bump x))" if "later h2 x" for x
        using that by (blast intro: later_trans bump_simps(3))
      from this [OF this [OF bump_simps(3)]] show ?thesis
        using SRA_BINARY.prems(1) False s by (auto simp: bind_Some_conv alloc_eqs split: if_splits)
    qed
    obtain b where b: "b \<in> nodes s1" "b < hp_next h1" "\<not> hp_live h1 b" and l1: "later h h1"
      using SRA_BINARY.IH(1) [OF s(1) SRA_BINARY.prems(2)] by blast
    have "heap_ok h1" using l1 SRA_BINARY.prems(2) by (simp add: later_def)
    then have l2: "later h1 h2" using SRA_BINARY.IH(2) [OF s(2)] by blast
    show ?thesis by (rule freed_after [OF b l1 later_trans [OF l2 l3]]) auto
  qed
qed

text \<open>So a projection or a selection is translated by freeing its operand twice.\<close>

lemma desugar_twice:
  assumes "heap_ok h"
  shows "SRA_desugar (SRA_PROJECT a s f) h = None" and "SRA_desugar (SRA_SELECT a s c) h = None"
proof -
  have "SRA_free s h2 = None" if d: "SRA_desugar s h = Some (r, h1)" and l: "later h1 h2" for r h1 h2
  proof -
    obtain b where "b \<in> nodes s" "\<not> hp_live h2 b"
      using desugar_frees [OF d assms] freed_stays [OF l] by blast
    then show ?thesis using SRA_free_effect [of s h2] by (meson not_None_eq)
  qed
  then have f: "SRA_free (SRA_PROJECT a s f) h2 = None" "SRA_free (SRA_SELECT a s c) h2 = None"
    if "SRA_desugar s h = Some (r, h1)" and "later h1 h2" for r h1 h2
    using that by (simp_all add: bind_eq_None_conv)
  have "SRA_desugar (SRA_PROJECT a s f) h = None \<and> SRA_desugar (SRA_SELECT a s c) h = None"
  proof (cases "SRA_desugar s h")
    case (Some x)
    obtain r h1 where x: "SRA_desugar s h = Some (r, h1)" using Some by (cases x) auto
    obtain p hp q hq where pq: "RA_Pi r (pj_expr_list f) h1 = (p, hp)" "RA_Sigma r c h1 = (q, hq)"
      using prod.exhaust by metis
    note g = f(1) [OF x later_alloc(2) [OF pq(1)]] f(2) [OF x later_alloc(3) [OF pq(2)]]
    show ?thesis using g by (simp add: x pq live_def del: SRA_free.simps)
  qed (simp add: bind_eq_None_conv)
  then show "SRA_desugar (SRA_PROJECT a s f) h = None" and "SRA_desugar (SRA_SELECT a s c) h = None" by auto
qed

section \<open>The meaning of the translation\<close>

text \<open>The rows of a relational term made of tables, unions and differences, and what SQL means by
  the set operations.\<close>

fun ra_rows :: "(string \<Rightarrow> 'r set) \<Rightarrow> ra option \<Rightarrow> 'r set option" where
  "ra_rows db (Some (RA_TABLE a name)) = Some (db name)"
| "ra_rows db (Some (RA_UNION a r1 r2)) = do { x \<leftarrow> ra_rows db r1; y \<leftarrow> ra_rows db r2; Some (x \<union> y) }"
| "ra_rows db (Some (RA_DIFFERENCE a r1 r2)) = do { x \<leftarrow> ra_rows db r1; y \<leftarrow> ra_rows db r2; Some (x - y) }"
| "ra_rows db _ = None"

text \<open>Terms of tables without alias and the three set operations, and what the translation makes
  of them.\<close>

fun set_term :: "sra \<Rightarrow> bool" where
  "set_term (SRA_TABLE a ref) \<longleftrightarrow> tr_alias ref = None"
| "set_term (SRA_BINARY a t s1 s2) \<longleftrightarrow>
     t \<noteq> NATURAL_JOIN \<and> set_term s1 \<and> set_term s2 \<and> nodes s1 \<inter> nodes s2 = {}"
| "set_term _ \<longleftrightarrow> False"

fun translated_rows :: "(string \<Rightarrow> 'r set) \<Rightarrow> sra \<Rightarrow> 'r set" where
  "translated_rows db (SRA_TABLE a ref) = db (tr_table_name ref)"
| "translated_rows db (SRA_BINARY a t s1 s2) =
     (if t = INTERSECT then translated_rows db s2 else translated_rows db s1 \<union> translated_rows db s2)"
| "translated_rows db _ = {}"

lemma desugar_set_term:
  "set_term s \<Longrightarrow> heap_ok h \<Longrightarrow> \<forall>a \<in> nodes s. hp_live h a \<Longrightarrow>
   \<exists>r h'. SRA_desugar s h = Some (r, h') \<and> ra_rows db r = Some (translated_rows db s) \<and>
     (\<forall>a < hp_next h. a \<notin> nodes s \<longrightarrow> hp_live h' a = hp_live h a) \<and> later h h'"
proof (induction s arbitrary: h)
  case (SRA_TABLE a ref)
  then have "hp_live h a" "a \<noteq> hp_next h" "tr_alias ref = None" by (auto simp: heap_ok_def)
  then show ?case
    using SRA_TABLE.prems(2)
    by (auto simp: live_def free_def desugar_table_def RA_Table_def calloc_def later_def heap_ok_def)
next
  case (SRA_BINARY a t s1 s2)
  obtain r1 h1 where 1: "SRA_desugar s1 h = Some (r1, h1)" "ra_rows db r1 = Some (translated_rows db s1)"
    "\<forall>a < hp_next h. a \<notin> nodes s1 \<longrightarrow> hp_live h1 a = hp_live h a" "later h h1"
    using SRA_BINARY.IH(1) [of h] SRA_BINARY.prems by auto
  have ok1: "heap_ok h1" using 1(4) SRA_BINARY.prems(2) by (simp add: later_def)
  have n2: "\<forall>a \<in> nodes s2. hp_live h1 a"
  proof
    fix b assume "b \<in> nodes s2"
    then have "hp_live h b" "b \<notin> nodes s1" using SRA_BINARY.prems(1,3) by auto
    then show "hp_live h1 b" using 1(3) SRA_BINARY.prems(2) unfolding heap_ok_def by blast
  qed
  obtain r2 h2 where 2: "SRA_desugar s2 h1 = Some (r2, h2)" "ra_rows db r2 = Some (translated_rows db s2)"
    "\<forall>a < hp_next h1. a \<notin> nodes s2 \<longrightarrow> hp_live h2 a = hp_live h1 a" "later h1 h2"
    using SRA_BINARY.IH(2) [of h1] SRA_BINARY.prems(1) ok1 n2 by auto
  have l: "later h h2" using later_trans [OF 1(4) 2(4)] .
  have le: "hp_next h \<le> hp_next h2" "hp_next h \<le> hp_next h1" using l 1(4) by (auto simp: later_def)
  have frame: "\<forall>b < hp_next h. b \<notin> nodes s1 \<union> nodes s2 \<longrightarrow> hp_live h2 b = hp_live h b"
    using 1(3) 2(3) le by auto
  have ok2: "heap_ok h2" using 2(4) ok1 by (simp add: later_def)
  define h' where "h' = (if t = INTERSECT then bump (bump (bump (bump (bump h2)))) else bump h2)"
  have "later h2 (bump (bump x))" if "later h2 x" for x
    using that by (blast intro: later_trans bump_simps(3))
  from this [OF this [OF bump_simps(3)]] have l': "later h2 h'" unfolding h'_def by simp
  have same: "hp_live h' b = hp_live h2 b" if "b < hp_next h2" for b
    using that by (simp add: h'_def)
  have "\<exists>r. SRA_desugar (SRA_BINARY a t s1 s2) h = Some (r, h') \<and>
      ra_rows db r = Some (translated_rows db (SRA_BINARY a t s1 s2))"
    using SRA_BINARY.prems(1,3) by (cases t) (auto simp: 1(1,2) 2(1,2) live_def h'_def alloc_eqs)
  moreover have "\<forall>b < hp_next h. b \<notin> nodes (SRA_BINARY a t s1 s2) \<longrightarrow> hp_live h' b = hp_live h b"
    using frame same le by auto
  ultimately show ?case using later_trans [OF l l'] by blast
qed auto

end
