(* ===== verification/SqlFree.thy ===== *)
theory SqlFree
  imports SqlTerms "HOL-Library.Multiset"
begin

text \<open>
  Releasing the terms of the SQL library (\<open>libchisql\<close>: \<open>Query_free\<close> and all it calls). Here a term
  carries the addresses of its blocks, and a function that releases one is the list of what it
  does to memory, in order: reading a block, freeing a block, reading through NULL, printing. Such
  a list is run against the blocks that are allocated; reading or freeing another one is undefined.
  What a term holds besides pointers is left out.
\<close>

section \<open>Memory\<close>

datatype event = Use nat | Free nat | Null_deref | Print string

type_synonym blocks = "nat \<Rightarrow> bool"

fun run :: "event list \<Rightarrow> blocks \<times> string \<Rightarrow> (blocks \<times> string) option" where
  "run [] s = Some s"
| "run (Use a # es) (alloc, out) = (if alloc a then run es (alloc, out) else None)"
| "run (Free a # es) (alloc, out) = (if alloc a then run es (alloc(a := False), out) else None)"
| "run (Null_deref # es) s = None"
| "run (Print t # es) (alloc, out) = run es (alloc, out @ t)"

text \<open>\<open>free\<close> of a pointer that may be NULL, and a test of such a pointer before it is followed.\<close>

definition ptr :: "nat option \<Rightarrow> nat list" where
  "ptr p = (case p of None \<Rightarrow> [] | Some a \<Rightarrow> [a])"

definition free_ptr :: "nat option \<Rightarrow> event list" where
  "free_ptr p = map Free (ptr p)"

section \<open>Terms with their blocks\<close>

text \<open>The text of a literal is there for \<open>TYPE_TEXT\<close> only.\<close>

datatype fliteral = FLiteral nat "nat option"

datatype fexpr = FExpr nat fnode (fe_alias: "nat option")
and fnode =
    FTerm fterm
  | FBinary binary_type fexpr fexpr
  | FNeg fexpr
and fterm =
    FLit fliteral
  | FId nat
  | FNull
  | FColref nat "nat option" "nat option"
  | FFunc func_type fexpr

text \<open>A comparison of any kind, a conjunction or disjunction, a negation, a membership.\<close>

datatype fcond =
    FComp nat fexpr fexpr
  | FBool nat fcond fcond
  | FNot nat fcond
  | FIn nat fexpr "fliteral list"

datatype fconstraint =
    FDefault nat fliteral
  | FCheck nat fcond
  | FForeign nat "nat option" "nat option" "nat option"
  | FOther nat

datatype fcolumn = FColumn nat nat "fconstraint list"

datatype ftable = FTable nat nat "fcolumn list"

datatype findex = FIndex nat nat nat nat

text \<open>A node of a list of names and its string.\<close>

type_synonym fname = "nat \<times> nat"

datatype ftable_reference = FTref nat nat "nat option"

datatype fjoin = FOn nat fcond | FUsing nat "fname list"

datatype fsra =
    FS_Table nat ftable_reference
  | FS_Project nat fsra "fexpr list" "fexpr option" "fexpr option"
  | FS_Select nat fsra fcond
  | FS_Join nat fsra fsra "fjoin option"
  | FS_Binary nat fsra fsra

datatype fra =
    FR_Table nat nat
  | FR_Sigma nat "fra option" fcond
  | FR_Pi nat "fra option" "fexpr list"
  | FR_Binary nat "fra option" "fra option"
  | FR_RhoTable nat "fra option" nat
  | FR_RhoExpr nat "fra option" fexpr nat

datatype finsert = FInsert nat nat "fname list" "fliteral list"

datatype fdelete = FDelete nat nat "fcond option"

datatype fcreate = FCreate_table nat ftable | FCreate_index nat findex

datatype fquery = FSelect nat fsra | FTable_q nat ftable | FIndex_q nat findex | FInsert_q nat finsert | FDelete_q nat fdelete

datatype fproject_option = FOption nat "fexpr option" "fexpr option"

section \<open>Releasing\<close>

fun Literal_free :: "fliteral \<Rightarrow> event list" where
  "Literal_free (FLiteral a text) = Use a # free_ptr text @ [Free a]"

fun Literal_freeList :: "fliteral list \<Rightarrow> event list" where
  "Literal_freeList [] = []"
| "Literal_freeList (FLiteral a text # ls) = Use a # Free a # Literal_freeList ls"

fun StrList_free :: "fname list \<Rightarrow> event list" where
  "StrList_free [] = []"
| "StrList_free ((a, str) # names) = Use a # Free a # StrList_free names"

text \<open>The case of a function falls into the default case, which prints.\<close>

fun Expression_free :: "fexpr \<Rightarrow> event list" and expression_switch :: "nat \<Rightarrow> fnode \<Rightarrow> event list"
  and Term_free :: "fterm \<Rightarrow> event list" where
  "Expression_free (FExpr a n alias) = Use a # expression_switch a n @ [Use a] @ free_ptr alias @ [Free a]"
| "expression_switch a (FTerm t) = Term_free t"
| "expression_switch a (FBinary op e1 e2) = Expression_free e1 @ [Use a] @ Expression_free e2"
| "expression_switch a (FNeg e) = Expression_free e"
| "Term_free (FLit v) = Literal_free v"
| "Term_free (FId s) = [Free s]"
| "Term_free FNull = []"
| "Term_free (FColref r tableName columnName) = [Use r] @ free_ptr tableName @ [Use r] @ free_ptr columnName"
| "Term_free (FFunc f e) = Expression_free e @ [Print ''Can't delete, unknown term type'']"

text \<open>The body of \<open>Expression_freeList\<close> is empty.\<close>

definition Expression_freeList :: "fexpr list \<Rightarrow> event list" where
  "Expression_freeList es = []"

fun expr_addr :: "fexpr \<Rightarrow> nat" where "expr_addr (FExpr a n alias) = a"

fun Condition_free :: "fcond \<Rightarrow> event list" where
  "Condition_free (FComp a e1 e2) = [Use a, Free (expr_addr e1), Use a, Free (expr_addr e2), Free a]"
| "Condition_free (FBool a c1 c2) = Use a # Condition_free c1 @ [Use a] @ Condition_free c2 @ [Free a]"
| "Condition_free (FNot a c) = Use a # Condition_free c @ [Free a]"
| "Condition_free (FIn a e vs) = Use a # Literal_freeList vs @ [Use a] @ Expression_freeList [e] @ [Free a]"

fun deleteConstraint_ts :: "fconstraint list \<Rightarrow> event list" where
  "deleteConstraint_ts [] = []"
| "deleteConstraint_ts (c # cs) =
     (case c of
        FDefault a v \<Rightarrow> Use a # Literal_free v
      | FCheck a cond \<Rightarrow> Use a # Condition_free cond
      | FForeign a _ _ _ \<Rightarrow> [Use a]
      | FOther a \<Rightarrow> [Use a]) @ deleteConstraint_ts cs"

fun Column_freeList :: "fcolumn list \<Rightarrow> event list" where
  "Column_freeList [] = []"
| "Column_freeList (FColumn a name cs # cols) =
     [Use a, Free name, Use a] @ deleteConstraint_ts cs @ [Free a] @ Column_freeList cols"

fun Table_free :: "ftable \<Rightarrow> event list" where
  "Table_free (FTable a name cols) = Use a # Column_freeList cols @ [Use a, Free name, Free a]"

fun Index_free :: "findex \<Rightarrow> event list" where
  "Index_free (FIndex a name column_name table_name) =
     [Use a, Free name, Use a, Free column_name, Use a, Free table_name, Free a]"

fun Create_free :: "fcreate \<Rightarrow> event list" where
  "Create_free (FCreate_table a t) = Use a # Table_free t @ [Free a]"
| "Create_free (FCreate_index a i) = Use a # Index_free i @ [Free a]"

text \<open>A null pointer is reported on the standard error and left alone.\<close>

fun TableReference_free :: "ftable_reference option \<Rightarrow> event list" where
  "TableReference_free None = []"
| "TableReference_free (Some (FTref a table_name alias)) = [Use a, Free table_name, Use a] @ free_ptr alias @ [Free a]"

text \<open>The first value is released; without values it is read through NULL.\<close>

fun Insert_free :: "finsert option \<Rightarrow> event list" where
  "Insert_free None = []"
| "Insert_free (Some (FInsert a table_name cols vs)) =
     [Use a, Free table_name, Use a] @ StrList_free cols @ [Use a] @
     (case vs of [] \<Rightarrow> [Null_deref] | v # _ \<Rightarrow> Literal_free v) @ [Free a]"

fun Delete_free :: "fdelete option \<Rightarrow> event list" where
  "Delete_free None = []"
| "Delete_free (Some (FDelete a table_name cond)) =
     [Use a, Free table_name, Use a] @ (case cond of None \<Rightarrow> [] | Some c \<Rightarrow> Condition_free c) @ [Free a]"

fun deleteDelete :: "fdelete \<Rightarrow> event list" where
  "deleteDelete (FDelete a table_name cond) =
     Use a # (case cond of None \<Rightarrow> [Null_deref] | Some c \<Rightarrow> Condition_free c) @ [Use a, Free table_name, Free a]"

fun ProjectOption_free :: "fproject_option \<Rightarrow> event list" where
  "ProjectOption_free (FOption a order_by group_by) =
     Use a # (case group_by of None \<Rightarrow> [] | Some e \<Rightarrow> Expression_free e) @ [Use a] @
     (case order_by of None \<Rightarrow> [] | Some e \<Rightarrow> Expression_free e) @ [Free a]"

fun JoinCondition_free :: "fjoin \<Rightarrow> event list" where
  "JoinCondition_free (FOn a c) = Use a # Condition_free c"
| "JoinCondition_free (FUsing a names) = Use a # StrList_free names"

definition free_required :: "fexpr option \<Rightarrow> event list" where
  "free_required e = (case e of None \<Rightarrow> [Null_deref] | Some e \<Rightarrow> Expression_free e)"

fun SRA_release :: "fsra \<Rightarrow> event list" where
  "SRA_release (FS_Table a ref) = Use a # TableReference_free (Some ref) @ [Free a]"
| "SRA_release (FS_Project a s es order_by group_by) =
     Use a # SRA_release s @ [Use a] @ Expression_freeList es @ [Use a] @ free_required order_by @ [Use a] @
     free_required group_by @ [Free a]"
| "SRA_release (FS_Select a s c) = Use a # SRA_release s @ [Use a] @ Condition_free c @ [Free a]"
| "SRA_release (FS_Join a s1 s2 opt_cond) =
     Use a # SRA_release s1 @ [Use a] @ SRA_release s2 @ [Use a] @
     (case opt_cond of None \<Rightarrow> [] | Some c \<Rightarrow> JoinCondition_free c) @ [Free a]"
| "SRA_release (FS_Binary a s1 s2) = Use a # SRA_release s1 @ [Use a] @ SRA_release s2 @ [Free a]"

text \<open>An operand of a relational term may be NULL.\<close>

fun RA_release :: "fra option \<Rightarrow> event list" where
  "RA_release None = [Null_deref]"
| "RA_release (Some (FR_Table a name)) = [Use a, Free name, Free a]"
| "RA_release (Some (FR_Sigma a r c)) = Use a # Condition_free c @ [Use a] @ RA_release r @ [Free a]"
| "RA_release (Some (FR_Pi a r es)) = Use a # RA_release r @ [Use a] @ Expression_freeList es @ [Free a]"
| "RA_release (Some (FR_Binary a r1 r2)) = Use a # RA_release r1 @ [Use a] @ RA_release r2 @ [Free a]"
| "RA_release (Some (FR_RhoTable a r new_name)) = Use a # RA_release r @ [Use a, Free new_name, Free a]"
| "RA_release (Some (FR_RhoExpr a r e new_name)) =
     Use a # RA_release r @ [Use a, Free new_name, Use a] @ Expression_free e @ [Free a]"

text \<open>The query itself is not released.\<close>

fun Query_free :: "fquery \<Rightarrow> event list" where
  "Query_free (FSelect a s) = Use a # SRA_release s"
| "Query_free (FTable_q a t) = Use a # Table_free t"
| "Query_free (FIndex_q a i) = Use a # Index_free i"
| "Query_free (FInsert_q a i) = Use a # Insert_free (Some i)"
| "Query_free (FDelete_q a d) = Use a # Delete_free (Some d)"

end
