(* ===== verification/SqlFreeCorrect.thy ===== *)
theory SqlFreeCorrect
  imports SqlFree
begin

section \<open>What releasing a term frees\<close>

text \<open>
  Every block of a term is freed once or never, and never used afterwards: the blocks that are
  never freed are listed by structure. The only releases that are undefined are those that read
  through NULL.
\<close>

subsection \<open>Lists of events\<close>

fun frees :: "event list \<Rightarrow> nat list" where
  "frees [] = []"
| "frees (Free a # es) = a # frees es"
| "frees (_ # es) = frees es"

fun touched :: "event list \<Rightarrow> nat set" where
  "touched [] = {}"
| "touched (Free a # es) = insert a (touched es)"
| "touched (Use a # es) = insert a (touched es)"
| "touched (_ # es) = touched es"

fun printed :: "event list \<Rightarrow> string" where
  "printed [] = []"
| "printed (Print t # es) = t @ printed es"
| "printed (_ # es) = printed es"

text \<open>No block is touched after it is freed.\<close>

fun tidy :: "event list \<Rightarrow> bool" where
  "tidy [] = True"
| "tidy (Free a # es) \<longleftrightarrow> a \<notin> touched es \<and> tidy es"
| "tidy (_ # es) = tidy es"

lemma events_append [simp]:
  "frees (xs @ ys) = frees xs @ frees ys" "touched (xs @ ys) = touched xs \<union> touched ys"
  "printed (xs @ ys) = printed xs @ printed ys"
  "tidy (xs @ ys) \<longleftrightarrow> tidy xs \<and> tidy ys \<and> set (frees xs) \<inter> touched ys = {}"
  by (induction xs rule: tidy.induct) auto

lemma frees_touched: "set (frees es) \<subseteq> touched es"
  by (induction es rule: frees.induct) auto

lemma free_ptr_events [simp]:
  "frees (free_ptr p) = ptr p" "touched (free_ptr p) = set (ptr p)" "tidy (free_ptr p)" "Null_deref \<notin> set (free_ptr p)"
  by (cases p; simp add: free_ptr_def ptr_def)+

lemma run_null: "Null_deref \<in> set es \<Longrightarrow> run es s = None"
  by (induction es s rule: run.induct) auto

lemma run_tidy:
  "tidy es \<Longrightarrow> Null_deref \<notin> set es \<Longrightarrow> \<forall>a \<in> touched es. alloc a \<Longrightarrow>
   run es (alloc, out) = Some (\<lambda>a. alloc a \<and> a \<notin> set (frees es), out @ printed es)"
proof (induction es arbitrary: alloc out)
  case (Cons e es)
  show ?case
  proof (cases e)
    case (Free a)
    then have "run es (alloc(a := False), out) =
        Some (\<lambda>b. (alloc(a := False)) b \<and> b \<notin> set (frees es), out @ printed es)"
      using Cons.prems by (intro Cons.IH) auto
    moreover have "(\<lambda>b. (alloc(a := False)) b \<and> b \<notin> set (frees es)) = (\<lambda>b. alloc b \<and> b \<notin> set (frees (e # es)))"
      using Free by auto
    ultimately show ?thesis using Free Cons.prems by simp
  qed (use Cons in auto)
qed simp

subsection \<open>The blocks of a term\<close>

fun literal_blocks :: "fliteral \<Rightarrow> nat list" where
  "literal_blocks (FLiteral a text) = a # ptr text"

fun expr_blocks :: "fexpr \<Rightarrow> nat list" and node_blocks :: "fnode \<Rightarrow> nat list" and term_blocks :: "fterm \<Rightarrow> nat list" where
  "expr_blocks (FExpr a n alias) = a # node_blocks n @ ptr alias"
| "node_blocks (FTerm t) = term_blocks t"
| "node_blocks (FBinary op e1 e2) = expr_blocks e1 @ expr_blocks e2"
| "node_blocks (FNeg e) = expr_blocks e"
| "term_blocks (FLit v) = literal_blocks v"
| "term_blocks (FId s) = [s]"
| "term_blocks FNull = []"
| "term_blocks (FColref r tableName columnName) = r # ptr tableName @ ptr columnName"
| "term_blocks (FFunc f e) = expr_blocks e"

fun cond_blocks :: "fcond \<Rightarrow> nat list" where
  "cond_blocks (FComp a e1 e2) = a # expr_blocks e1 @ expr_blocks e2"
| "cond_blocks (FBool a c1 c2) = a # cond_blocks c1 @ cond_blocks c2"
| "cond_blocks (FNot a c) = a # cond_blocks c"
| "cond_blocks (FIn a e vs) = a # expr_blocks e @ concat (map literal_blocks vs)"

fun constraint_blocks :: "fconstraint \<Rightarrow> nat list" where
  "constraint_blocks (FDefault a v) = a # literal_blocks v"
| "constraint_blocks (FCheck a c) = a # cond_blocks c"
| "constraint_blocks (FForeign a c t tc) = a # ptr c @ ptr t @ ptr tc"
| "constraint_blocks (FOther a) = [a]"

fun column_blocks :: "fcolumn \<Rightarrow> nat list" where
  "column_blocks (FColumn a name cs) = a # name # concat (map constraint_blocks cs)"

fun table_blocks :: "ftable \<Rightarrow> nat list" where
  "table_blocks (FTable a name cols) = a # name # concat (map column_blocks cols)"

fun index_blocks :: "findex \<Rightarrow> nat list" where
  "index_blocks (FIndex a n c t) = [a, n, c, t]"

definition names_blocks :: "fname list \<Rightarrow> nat list" where
  "names_blocks names = concat (map (\<lambda>(a, s). [a, s]) names)"

fun tref_blocks :: "ftable_reference \<Rightarrow> nat list" where
  "tref_blocks (FTref a n alias) = a # n # ptr alias"

fun join_blocks :: "fjoin \<Rightarrow> nat list" where
  "join_blocks (FOn a c) = a # cond_blocks c"
| "join_blocks (FUsing a names) = a # names_blocks names"

definition opt_blocks :: "('a \<Rightarrow> nat list) \<Rightarrow> 'a option \<Rightarrow> nat list" where
  "opt_blocks f x = (case x of None \<Rightarrow> [] | Some y \<Rightarrow> f y)"

fun sra_blocks :: "fsra \<Rightarrow> nat list" where
  "sra_blocks (FS_Table a ref) = a # tref_blocks ref"
| "sra_blocks (FS_Project a s es ob gb) =
     a # sra_blocks s @ concat (map expr_blocks es) @ opt_blocks expr_blocks ob @ opt_blocks expr_blocks gb"
| "sra_blocks (FS_Select a s c) = a # sra_blocks s @ cond_blocks c"
| "sra_blocks (FS_Join a s1 s2 c) = a # sra_blocks s1 @ sra_blocks s2 @ opt_blocks join_blocks c"
| "sra_blocks (FS_Binary a s1 s2) = a # sra_blocks s1 @ sra_blocks s2"

fun query_blocks :: "fquery \<Rightarrow> nat list" where
  "query_blocks (FSelect a s) = a # sra_blocks s"
| "query_blocks (FTable_q a t) = a # table_blocks t"
| "query_blocks (FIndex_q a i) = a # index_blocks i"
| "query_blocks (FInsert_q a (FInsert b n cols vs)) = a # b # n # names_blocks cols @ concat (map literal_blocks vs)"
| "query_blocks (FDelete_q a (FDelete b n c)) = a # b # n # opt_blocks cond_blocks c"

subsection \<open>The blocks that are never freed\<close>

fun expr_leaks :: "fexpr \<Rightarrow> nat list" and node_leaks :: "fnode \<Rightarrow> nat list" and term_leaks :: "fterm \<Rightarrow> nat list" where
  "expr_leaks (FExpr a n alias) = node_leaks n"
| "node_leaks (FTerm t) = term_leaks t"
| "node_leaks (FBinary op e1 e2) = expr_leaks e1 @ expr_leaks e2"
| "node_leaks (FNeg e) = expr_leaks e"
| "term_leaks (FColref r tableName columnName) = [r]"
| "term_leaks (FFunc f e) = expr_leaks e"
| "term_leaks _ = []"

fun below :: "fexpr \<Rightarrow> nat list" where
  "below (FExpr a n alias) = node_blocks n @ ptr alias"

fun text_block :: "fliteral \<Rightarrow> nat list" where
  "text_block (FLiteral a text) = ptr text"

fun cond_leaks :: "fcond \<Rightarrow> nat list" where
  "cond_leaks (FComp a e1 e2) = below e1 @ below e2"
| "cond_leaks (FBool a c1 c2) = cond_leaks c1 @ cond_leaks c2"
| "cond_leaks (FNot a c) = cond_leaks c"
| "cond_leaks (FIn a e vs) = expr_blocks e @ concat (map text_block vs)"

fun constraint_leaks :: "fconstraint \<Rightarrow> nat list" where
  "constraint_leaks (FDefault a v) = [a]"
| "constraint_leaks (FCheck a c) = a # cond_leaks c"
| "constraint_leaks c = constraint_blocks c"

fun column_leaks :: "fcolumn \<Rightarrow> nat list" where
  "column_leaks (FColumn a name cs) = concat (map constraint_leaks cs)"

fun table_leaks :: "ftable \<Rightarrow> nat list" where
  "table_leaks (FTable a name cols) = concat (map column_leaks cols)"

fun join_leaks :: "fjoin \<Rightarrow> nat list" where
  "join_leaks (FOn a c) = a # cond_leaks c"
| "join_leaks (FUsing a names) = a # map snd names"

fun sra_leaks :: "fsra \<Rightarrow> nat list" where
  "sra_leaks (FS_Table a ref) = []"
| "sra_leaks (FS_Project a s es ob gb) =
     sra_leaks s @ concat (map expr_blocks es) @ opt_blocks expr_leaks ob @ opt_blocks expr_leaks gb"
| "sra_leaks (FS_Select a s c) = sra_leaks s @ cond_leaks c"
| "sra_leaks (FS_Join a s1 s2 c) = sra_leaks s1 @ sra_leaks s2 @ opt_blocks join_leaks c"
| "sra_leaks (FS_Binary a s1 s2) = sra_leaks s1 @ sra_leaks s2"

fun query_leaks :: "fquery \<Rightarrow> nat list" where
  "query_leaks (FSelect a s) = a # sra_leaks s"
| "query_leaks (FTable_q a t) = a # table_leaks t"
| "query_leaks (FIndex_q a i) = [a]"
| "query_leaks (FInsert_q a (FInsert b n cols vs)) = a # map snd cols @ concat (map literal_blocks (tl vs))"
| "query_leaks (FDelete_q a (FDelete b n c)) = a # opt_blocks cond_leaks c"

subsection \<open>Every block is freed once or never\<close>

lemma expr_partition:
  "mset (expr_blocks e) = mset (frees (Expression_free e)) + mset (expr_leaks e)"
  "mset (node_blocks n) = mset (frees (expression_switch b n)) + mset (node_leaks n)"
  "mset (term_blocks t) = mset (frees (Term_free t)) + mset (term_leaks t)"
proof (induction e and n and t arbitrary: and b rule: expr_blocks_node_blocks_term_blocks.induct)
  case (5 v)
  then show ?case by (cases v) simp
qed simp_all

lemma literals_partition:
  "mset (concat (map literal_blocks vs)) = mset (frees (Literal_freeList vs)) + mset (concat (map text_block vs))"
  by (induction vs rule: Literal_freeList.induct) simp_all

lemma literal_partition: "mset (frees (Literal_free v)) = mset (literal_blocks v)"
  by (cases v) simp

lemma cond_partition: "mset (cond_blocks c) = mset (frees (Condition_free c)) + mset (cond_leaks c)"
proof (induction c)
  case (FComp a e1 e2)
  have "expr_blocks e = expr_addr e # below e" for e by (cases e) simp
  then show ?case by simp
next
  case (FIn a e vs)
  then show ?case using literals_partition [of vs] by (simp add: Expression_freeList_def)
qed simp_all

lemma constraints_partition:
  "mset (concat (map constraint_blocks cs)) = mset (frees (deleteConstraint_ts cs)) + mset (concat (map constraint_leaks cs))"
proof (induction cs)
  case (Cons c cs)
  then show ?case by (cases c) (simp_all add: literal_partition cond_partition)
qed simp

lemma columns_partition:
  "mset (concat (map column_blocks cols)) = mset (frees (Column_freeList cols)) + mset (concat (map column_leaks cols))"
  by (induction cols rule: Column_freeList.induct) (simp_all add: constraints_partition)

lemma table_partition: "mset (table_blocks t) = mset (frees (Table_free t)) + mset (table_leaks t)"
  by (cases t) (simp add: columns_partition)

lemma names_partition: "mset (names_blocks names) = mset (frees (StrList_free names)) + mset (map snd names)"
  by (induction names rule: StrList_free.induct) (simp_all add: names_blocks_def)

lemma tref_partition: "mset (tref_blocks ref) = mset (frees (TableReference_free (Some ref)))"
  by (cases ref) simp

lemma join_partition: "mset (join_blocks c) = mset (frees (JoinCondition_free c)) + mset (join_leaks c)"
  by (cases c) (simp_all add: cond_partition names_partition)

lemma sra_partition: "mset (sra_blocks s) = mset (frees (SRA_release s)) + mset (sra_leaks s)"
proof (induction s)
  case (FS_Project a s es ob gb)
  have "mset (opt_blocks expr_blocks e) = mset (frees (free_required e)) + mset (opt_blocks expr_leaks e)" for e
    by (cases e) (simp_all add: opt_blocks_def free_required_def expr_partition)
  with FS_Project show ?case by (simp add: Expression_freeList_def)
next
  case (FS_Join a s1 s2 c)
  then show ?case by (cases c) (simp_all add: opt_blocks_def join_partition)
qed (simp_all add: cond_partition tref_partition)

lemma query_partition: "mset (query_blocks q) = mset (frees (Query_free q)) + mset (query_leaks q)"
proof (induction q rule: query_blocks.induct)
  case (3 a i)
  then show ?case by (cases i) simp
next
  case (4 a b n cols vs)
  then show ?case by (cases vs) (simp_all add: names_partition literal_partition)
next
  case (5 a b n c)
  then show ?case by (cases c) (simp_all add: opt_blocks_def cond_partition)
qed (simp_all add: sra_partition table_partition)

subsection \<open>No block is touched after it is freed\<close>

text \<open>What is freed is among the blocks, by the partitions.\<close>

lemma partition_frees: "mset bs = mset (frees es) + mset ls \<Longrightarrow> set (frees es) \<subseteq> set bs"
  by (metis mset_subset_eq_add_left set_mset_mono set_mset_mset)

lemma literal_touched: "touched (Literal_free v) = set (literal_blocks v)"
  by (cases v) auto

lemma expr_touched:
  "touched (Expression_free e) \<subseteq> set (expr_blocks e)"
  "touched (expression_switch b n) \<subseteq> insert b (set (node_blocks n))"
  "touched (Term_free t) \<subseteq> set (term_blocks t)"
  by (induction e and n and t arbitrary: and b rule: expr_blocks_node_blocks_term_blocks.induct)
    (auto simp: literal_touched)

lemma literal_tidy: "distinct (literal_blocks v) \<Longrightarrow> tidy (Literal_free v)"
  by (cases v) (auto simp: ptr_def split: option.splits)

lemma expr_tidy:
  "distinct (expr_blocks e) \<Longrightarrow> tidy (Expression_free e)"
  "distinct (b # node_blocks n) \<Longrightarrow> tidy (expression_switch b n)"
  "distinct (term_blocks t) \<Longrightarrow> tidy (Term_free t)"
proof (induction e and n and t arbitrary: and b rule: expr_blocks_node_blocks_term_blocks.induct)
  case (1 a n al)
  then show ?case
    using partition_frees [OF expr_partition(2) [of n a]] expr_touched(2) [of a n] by auto
next
  case (3 op e1 e2)
  then show ?case
    using partition_frees [OF expr_partition(1) [of e1]] expr_touched(1) [of e2] by auto
qed (auto simp: literal_tidy)

lemma literals_touched: "touched (Literal_freeList vs) \<subseteq> set (concat (map literal_blocks vs))"
  by (induction vs rule: Literal_freeList.induct) auto

lemma literals_tidy: "distinct (concat (map literal_blocks vs)) \<Longrightarrow> tidy (Literal_freeList vs)"
  using literals_touched by (induction vs rule: Literal_freeList.induct) fastforce+

lemma expr_addr_in: "expr_addr e \<in> set (expr_blocks e)"
  by (cases e) simp

lemma cond_touched: "touched (Condition_free c) \<subseteq> set (cond_blocks c)"
proof (induction c)
  case (FIn a e vs)
  then show ?case using literals_touched [of vs] by (auto simp: Expression_freeList_def)
qed (auto simp: expr_addr_in)

lemma cond_tidy: "distinct (cond_blocks c) \<Longrightarrow> tidy (Condition_free c)"
proof (induction c)
  case (FComp a e1 e2)
  then show ?case using expr_addr_in [of e1] expr_addr_in [of e2] by auto
next
  case (FBool a c1 c2)
  then show ?case
    using partition_frees [OF cond_partition [of c1]] partition_frees [OF cond_partition [of c2]] cond_touched [of c2]
    by auto
next
  case (FNot a c)
  then show ?case using partition_frees [OF cond_partition [of c]] by auto
next
  case (FIn a e vs)
  then show ?case
    using partition_frees [OF literals_partition [of vs]] literals_tidy [of vs] by (auto simp: Expression_freeList_def)
qed

lemma constraints_touched: "touched (deleteConstraint_ts cs) \<subseteq> set (concat (map constraint_blocks cs))"
proof (induction cs)
  case (Cons c cs)
  then show ?case using cond_touched by (cases c) (auto simp: literal_touched)
qed simp

lemma constraints_tidy: "distinct (concat (map constraint_blocks cs)) \<Longrightarrow> tidy (deleteConstraint_ts cs)"
proof (induction cs)
  case (Cons c cs)
  then show ?case
    using constraints_touched [of cs] partition_frees [OF cond_partition] frees_touched [of "Literal_free v" for v]
    by (cases c) (fastforce simp: literal_touched literal_tidy cond_tidy)+
qed simp

lemma columns_touched: "touched (Column_freeList cols) \<subseteq> set (concat (map column_blocks cols))"
proof (induction cols rule: Column_freeList.induct)
  case (2 a name cs cols)
  then show ?case using constraints_touched [of cs] by auto
qed simp

lemma columns_tidy: "distinct (concat (map column_blocks cols)) \<Longrightarrow> tidy (Column_freeList cols)"
proof (induction cols rule: Column_freeList.induct)
  case (2 a name cs cols)
  have cols: "touched (Column_freeList cols) \<subseteq> set (concat (map column_blocks cols))" by (rule columns_touched)
  have cs: "touched (deleteConstraint_ts cs) \<subseteq> set (concat (map constraint_blocks cs))" by (rule constraints_touched)
  have "set (frees (deleteConstraint_ts cs)) \<subseteq> set (concat (map constraint_blocks cs))"
    by (rule partition_frees [OF constraints_partition])
  moreover have "tidy (deleteConstraint_ts cs)" using 2 by (intro constraints_tidy) simp
  moreover have "tidy (Column_freeList cols)" using 2 by simp
  ultimately show ?case using 2(2) cols cs by (auto simp del: set_concat)
qed simp

lemma table_touched: "touched (Table_free t) \<subseteq> set (table_blocks t)"
  using columns_touched by (cases t) fastforce

lemma table_tidy: "distinct (table_blocks t) \<Longrightarrow> tidy (Table_free t)"
proof (induction t)
  case (FTable a name cols)
  then show ?case
    using partition_frees [OF columns_partition [of cols]] columns_tidy [of cols] by (auto simp del: set_concat)
qed

lemma names_touched: "touched (StrList_free names) \<subseteq> set (names_blocks names)"
  by (induction names rule: StrList_free.induct) (auto simp: names_blocks_def)

lemma names_tidy: "distinct (names_blocks names) \<Longrightarrow> tidy (StrList_free names)"
proof (induction names rule: StrList_free.induct)
  case (2 a str names)
  then show ?case using names_touched [of names] by (auto simp: names_blocks_def)
qed simp

lemma tref_tidy: "touched (TableReference_free (Some ref)) \<subseteq> set (tref_blocks ref)"
  "distinct (tref_blocks ref) \<Longrightarrow> tidy (TableReference_free (Some ref))"
  by (cases ref; auto)+

lemma join_touched: "touched (JoinCondition_free c) \<subseteq> set (join_blocks c)"
  using cond_touched names_touched by (cases c) fastforce+

lemma join_tidy: "distinct (join_blocks c) \<Longrightarrow> tidy (JoinCondition_free c)"
  by (cases c) (auto simp: cond_tidy names_tidy)

lemma required_touched: "touched (free_required e) \<subseteq> set (opt_blocks expr_blocks e)"
  using expr_touched(1) by (cases e) (auto simp: free_required_def opt_blocks_def)

lemma required_tidy: "distinct (opt_blocks expr_blocks e) \<Longrightarrow> tidy (free_required e)"
  by (cases e) (auto simp: free_required_def opt_blocks_def expr_tidy)

lemma required_frees: "set (frees (free_required e)) \<subseteq> set (opt_blocks expr_blocks e)"
  using frees_touched required_touched by fast

lemma sra_touched: "touched (SRA_release s) \<subseteq> set (sra_blocks s)"
proof (induction s)
  case (FS_Table a ref)
  then show ?case using tref_tidy(1) [of ref] by auto
next
  case (FS_Project a s es ob gb)
  then show ?case using required_touched [of ob] required_touched [of gb] by (auto simp: Expression_freeList_def)
next
  case (FS_Select a s c)
  then show ?case using cond_touched [of c] by auto
next
  case (FS_Join a s1 s2 c)
  then show ?case using join_touched by (cases c) (fastforce simp: opt_blocks_def)+
qed auto

lemma sra_frees: "set (frees (SRA_release s)) \<subseteq> set (sra_blocks s)"
  using frees_touched sra_touched by fast

lemma sra_tidy: "distinct (sra_blocks s) \<Longrightarrow> tidy (SRA_release s)"
proof (induction s)
  case (FS_Table a ref)
  then show ?case
    using tref_tidy [of ref] partition_frees [of "tref_blocks ref" "TableReference_free (Some ref)" "[]"] tref_partition [of ref]
    by auto
next
  case (FS_Project a s es ob gb)
  then show ?case
    using required_touched [of ob] required_touched [of gb] required_frees [of ob] required_frees [of gb]
      required_tidy [of ob] required_tidy [of gb] sra_frees [of s]
    by (auto simp: Expression_freeList_def)
next
  case (FS_Select a s c)
  then show ?case
    using cond_touched [of c] cond_tidy [of c] partition_frees [OF cond_partition [of c]] sra_frees [of s] by auto
next
  case (FS_Join a s1 s2 c)
  have c: "touched (case c of None \<Rightarrow> [] | Some c \<Rightarrow> JoinCondition_free c) \<subseteq> set (opt_blocks join_blocks c)"
    using join_touched by (cases c) (auto simp: opt_blocks_def)
  moreover have "tidy (case c of None \<Rightarrow> [] | Some c \<Rightarrow> JoinCondition_free c)"
    using FS_Join.prems join_tidy by (cases c) (auto simp: opt_blocks_def)
  moreover have "set (frees (case c of None \<Rightarrow> [] | Some c \<Rightarrow> JoinCondition_free c)) \<subseteq> set (opt_blocks join_blocks c)"
    using frees_touched c by fast
  ultimately show ?case using FS_Join sra_frees [of s1] sra_frees [of s2] sra_touched [of s2] by auto
next
  case (FS_Binary a s1 s2)
  then show ?case using sra_frees [of s1] sra_frees [of s2] sra_touched [of s2] by auto
qed

lemma query_touched: "touched (Query_free q) \<subseteq> set (query_blocks q)"
proof (induction q rule: query_blocks.induct)
  case (1 a s)
  then show ?case using sra_touched [of s] by auto
next
  case (2 a t)
  then show ?case using table_touched [of t] by auto
next
  case (3 a i)
  then show ?case by (cases i) auto
next
  case (4 a b n cols vs)
  then show ?case using names_touched [of cols] by (cases vs) (auto simp: literal_touched)
next
  case (5 a b n c)
  then show ?case using cond_touched by (cases c) (auto simp: opt_blocks_def)
qed

lemma query_tidy: "distinct (query_blocks q) \<Longrightarrow> tidy (Query_free q)"
proof (induction q rule: query_blocks.induct)
  case (1 a s)
  then show ?case by (simp add: sra_tidy)
next
  case (2 a t)
  then show ?case by (simp add: table_tidy)
next
  case (3 a i)
  then show ?case by (cases i) auto
next
  case (4 a b n cols vs)
  have "set (frees (StrList_free cols)) \<subseteq> set (names_blocks cols)" using frees_touched names_touched by fast
  moreover have "set (frees (Literal_free v)) \<subseteq> set (literal_blocks v)" for v
    using frees_touched [of "Literal_free v"] by (simp add: literal_touched)
  ultimately show ?case
    using 4 names_touched [of cols] names_tidy [of cols]
    by (cases vs) (fastforce simp: literal_touched literal_tidy)+
next
  case (5 a b n c)
  then show ?case
    using cond_touched cond_tidy partition_frees [OF cond_partition] by (cases c) (fastforce simp: opt_blocks_def)+
qed

subsection \<open>Reading through NULL\<close>

text \<open>Every projection has an order and a grouping, and an insertion a value.\<close>

fun sra_complete :: "fsra \<Rightarrow> bool" where
  "sra_complete (FS_Table a ref) = True"
| "sra_complete (FS_Project a s es ob gb) \<longleftrightarrow> sra_complete s \<and> ob \<noteq> None \<and> gb \<noteq> None"
| "sra_complete (FS_Select a s c) = sra_complete s"
| "sra_complete (FS_Join a s1 s2 c) \<longleftrightarrow> sra_complete s1 \<and> sra_complete s2"
| "sra_complete (FS_Binary a s1 s2) \<longleftrightarrow> sra_complete s1 \<and> sra_complete s2"

fun query_complete :: "fquery \<Rightarrow> bool" where
  "query_complete (FSelect a s) = sra_complete s"
| "query_complete (FInsert_q a (FInsert b n cols vs)) \<longleftrightarrow> vs \<noteq> []"
| "query_complete _ = True"

lemma literal_null: "Null_deref \<notin> set (Literal_free v)"
  by (cases v) simp

lemma expr_null:
  "Null_deref \<notin> set (Expression_free e)" "Null_deref \<notin> set (expression_switch b n)" "Null_deref \<notin> set (Term_free t)"
  by (induction e and n and t arbitrary: and b rule: expr_blocks_node_blocks_term_blocks.induct)
    (simp_all add: literal_null)

lemma lists_null: "Null_deref \<notin> set (Literal_freeList vs)" "Null_deref \<notin> set (StrList_free names)"
  by (induction vs rule: Literal_freeList.induct, simp_all) (induction names rule: StrList_free.induct, simp_all)

lemma cond_null: "Null_deref \<notin> set (Condition_free c)"
  by (induction c) (simp_all add: lists_null Expression_freeList_def)

lemma constraints_null: "Null_deref \<notin> set (deleteConstraint_ts cs)"
  by (induction cs) (auto simp: literal_null cond_null split: fconstraint.splits)

lemma columns_null: "Null_deref \<notin> set (Column_freeList cols)"
  by (induction cols rule: Column_freeList.induct) (simp_all add: constraints_null)

lemma sra_null: "Null_deref \<in> set (SRA_release s) \<longleftrightarrow> \<not> sra_complete s"
proof (induction s)
  case (FS_Table a ref)
  then show ?case by (cases ref) simp
next
  case (FS_Project a s es ob gb)
  then show ?case by (auto simp: Expression_freeList_def free_required_def expr_null split: option.splits)
next
  case (FS_Join a s1 s2 c)
  have "Null_deref \<notin> set (JoinCondition_free j)" for j by (cases j) (simp_all add: cond_null lists_null)
  with FS_Join show ?case by (auto split: option.splits)
qed (simp_all add: cond_null)

lemma query_null: "Null_deref \<in> set (Query_free q) \<longleftrightarrow> \<not> query_complete q"
proof (induction q rule: query_blocks.induct)
  case (1 a s)
  then show ?case by (simp add: sra_null)
next
  case (2 a t)
  then show ?case by (cases t) (simp add: columns_null)
next
  case (3 a i)
  then show ?case by (cases i) simp
next
  case (4 a b n cols vs)
  then show ?case by (cases vs) (simp_all add: lists_null literal_null)
next
  case (5 a b n c)
  then show ?case by (cases c) (auto simp: cond_null)
qed

subsection \<open>The contract of a release\<close>

text \<open>What the functions that release a kind of term promise: each block is freed or leaks, only blocks of
  the term are touched and none after it is freed, and NULL is read exactly for incomplete terms.\<close>

locale releasing =
  fixes release :: "'a \<Rightarrow> event list" and blocks leaks :: "'a \<Rightarrow> nat list" and complete :: "'a \<Rightarrow> bool"
  assumes freed_or_leaked: "mset (blocks x) = mset (frees (release x)) + mset (leaks x)"
    and within: "touched (release x) \<subseteq> set (blocks x)"
    and orderly: "distinct (blocks x) \<Longrightarrow> tidy (release x)"
    and reads_null: "Null_deref \<in> set (release x) \<longleftrightarrow> \<not> complete x"
begin

lemma not_freed:
  assumes "distinct (blocks x)"
  shows "a \<notin> set (frees (release x)) \<longleftrightarrow> (a \<in> set (blocks x) \<longrightarrow> a \<in> set (leaks x))"
proof -
  have "distinct (frees (release x) @ leaks x)"
    using assms freed_or_leaked [of x] by (metis mset_append mset_eq_imp_distinct_iff)
  moreover have "set (blocks x) = set (frees (release x)) \<union> set (leaks x)"
    using freed_or_leaked [of x] by (metis set_mset_mset set_mset_union)
  ultimately show ?thesis by auto
qed

lemma run_release:
  assumes "distinct (blocks x)" and "\<forall>a \<in> set (blocks x). alloc a"
  shows "run (release x) (alloc, out) =
    (if complete x
     then Some (\<lambda>a. alloc a \<and> (a \<in> set (blocks x) \<longrightarrow> a \<in> set (leaks x)), out @ printed (release x))
     else None)"
proof (cases "complete x")
  case True
  then have "run (release x) (alloc, out) = Some (\<lambda>a. alloc a \<and> a \<notin> set (frees (release x)), out @ printed (release x))"
    using orderly [OF assms(1)] within [of x] assms(2) reads_null [of x] by (intro run_tidy) auto
  then show ?thesis using True by (simp add: not_freed [OF assms(1)])
next
  case False
  then show ?thesis using run_null reads_null by simp
qed

end

interpretation expressions: releasing Expression_free expr_blocks expr_leaks "\<lambda>_. True"
  by unfold_locales (simp_all add: expr_partition expr_touched expr_tidy expr_null)

interpretation conditions: releasing Condition_free cond_blocks cond_leaks "\<lambda>_. True"
  by unfold_locales (simp_all add: cond_partition cond_touched cond_tidy cond_null)

interpretation tables: releasing Table_free table_blocks table_leaks "\<lambda>_. True"
proof unfold_locales
  show "Null_deref \<in> set (Table_free t) \<longleftrightarrow> \<not> True" for t by (cases t) (simp add: columns_null)
qed (simp_all add: table_partition table_touched table_tidy)

interpretation selections: releasing SRA_release sra_blocks sra_leaks sra_complete
  by unfold_locales (simp_all add: sra_partition sra_touched sra_tidy sra_null)

interpretation queries: releasing Query_free query_blocks query_leaks query_complete
  by unfold_locales (simp_all add: query_partition query_touched query_tidy query_null)

end
