(* ===== verification/SqlProperties.thy ===== *)
theory SqlProperties
  imports SqlCorrect SqlFreeCorrect
begin

text \<open>
  The properties of the SQL terms. The concrete inputs are a heap of four nodes and the terms
  \<open>a intersect b\<close> and \<open>select x from a\<close> on it.
\<close>

definition heap4 :: heap where
  "heap4 = \<lparr>hp_next = 4, hp_live = (\<lambda>a. a < 4)\<rparr>"

definition table_a :: sra where "table_a = SRA_TABLE 0 (TableReference_make ''a'' None)"

definition table_b :: sra where "table_b = SRA_TABLE 1 (TableReference_make ''b'' None)"

lemma heap4_ok: "heap_ok heap4"
  by (simp add: heap_ok_def heap4_def)

text \<open>C36. The set operations on tables are translated without an undefined step, but not as SQL means
  them: a union is the union, an EXCEPT is the union as well, and an INTERSECT has the rows of
  its second operand (\<open>translated_rows\<close>).\<close>

theorem set_operations:
  assumes "set_term s" and "heap_ok h" and "\<forall>a \<in> nodes s. hp_live h a"
  shows "\<exists>r h'. SRA_desugar s h = Some (r, h') \<and> ra_rows db r = Some (translated_rows db s)"
  using desugar_set_term [OF assms] by blast

lemma set_operations_witness:
  "\<exists>r h'. SRA_desugar (SRA_BINARY 2 INTERSECT table_a table_b) heap4 = Some (r, h') \<and>
    ra_rows (\<lambda>n. if n = ''a'' then {1 :: nat, 2} else {2, 3}) r = Some {2, 3}"
proof -
  let ?s = "SRA_BINARY 2 INTERSECT table_a table_b"
  have "\<exists>r h'. SRA_desugar ?s heap4 = Some (r, h') \<and>
    ra_rows (\<lambda>n. if n = ''a'' then {1 :: nat, 2} else {2, 3}) r =
      Some (translated_rows (\<lambda>n. if n = ''a'' then {1 :: nat, 2} else {2, 3}) ?s)"
    by (rule set_operations [OF _ heap4_ok])
      (simp_all add: table_a_def table_b_def TableReference_make_def heap4_def)
  then show ?thesis by (simp add: table_b_def TableReference_make_def)
qed

text \<open>C37. No query can be translated: for every projection and every selection, on every operand, the
  translation frees a node of the operand that the translation of the operand has freed.\<close>

theorem no_query_is_translated:
  assumes "heap_ok h"
  shows "SRA_desugar (SRA_PROJECT a s f) h = None \<and> SRA_desugar (SRA_SELECT a s c) h = None"
  using desugar_twice [OF assms] by blast

lemma no_query_is_translated_witness:
  "SRA_desugar (fst (SRAProject table_a [Term ''x''] heap4)) (snd (SRAProject table_a [Term ''x''] heap4)) = None"
proof -
  have "heap_ok (snd (SRAProject table_a [Term ''x''] heap4))"
    by (simp add: SRAProject_def calloc_def heap4_def heap_ok_def)
  moreover obtain f where "fst (SRAProject table_a [Term ''x''] heap4) = SRA_PROJECT 4 table_a f"
    by (simp add: SRAProject_def calloc_def heap4_def)
  ultimately show ?thesis using no_query_is_translated by metis
qed

text \<open>C39. What the columns of a table are given: the size written in the declaration is dropped from a
  column without constraints and overwrites all constraints but the first of the others, and
  the offset of a column is the size of the one before it, not the sum of those before it.\<close>

theorem column_layout:
  assumes "i < length cols" and "0 < sint n"
  shows "co_constraints (fst (Column n name t cs)) = (case cs of [] \<Rightarrow> [] | c # _ \<Rightarrow> [c, CONS_SIZE (ucast n)]) \<and>
    co_offset (Column_getOffsets cols ! i) = (if i = 0 then 0 else Column_getSize (cols ! (i - 1))) \<and>
    length (Column_getOffsets cols) = length cols"
  using assms offsets_step [of i cols 0] length_offsets [of cols 0]
  by (simp add: Column_def Constraint_append_def ColumnSize_def Column_getOffsets_def split: list.split)

lemma column_layout_witness:
  "co_constraints (fst (Column 20 ''x'' TYPE_TEXT [])) = [] \<and>
    co_offset (Column_getOffsets (replicate 3 (fst (Column 20 ''x'' TYPE_TEXT []))) ! 2) = 250"
  using column_layout [of 2 "replicate 3 (fst (Column 20 ''x'' TYPE_TEXT []))" 20 "''x''" TYPE_TEXT "[]"]
  by (simp add: Column_getSize_def Column_def)

text \<open>C40. The type check accepts an expression exactly when all the terms at its leaves have one type,
  and answers with that type; otherwise it ends the process with status 1.\<close>

theorem expression_types:
  "(Expression_type e = Inr t \<longleftrightarrow> leaf_types e = {t}) \<and> ((\<nexists>t. leaf_types e = {t}) \<longleftrightarrow> Expression_type e = Inl 1)"
  using type_check(1) [of e] type_exit(1) [of e] by (cases "Expression_type e") auto

text \<open>C38. Releasing a query frees no block twice and touches none after it is freed. It returns unless a
  projection has no order or no grouping, or an insertion no value, which are read through NULL.
  When it returns, the blocks of the query that stay allocated are exactly those listed by
  \<open>query_leaks\<close>: the query itself, the structs of column references, what hangs below the two sides
  of a comparison, constraints, the columns of a projection, and the values of an insertion but the
  first, among others. Blocks of anything else are not touched.\<close>

theorem query_release_leaks:
  assumes "distinct (query_blocks q)" and "\<forall>a \<in> set (query_blocks q). alloc a"
  shows "run (Query_free q) (alloc, out) =
    (if query_complete q
     then Some (\<lambda>a. alloc a \<and> (a \<in> set (query_blocks q) \<longrightarrow> a \<in> set (query_leaks q)), out @ printed (Query_free q))
     else None)"
  by (rule queries.run_release [OF assms])

lemma query_release_leaks_witness:
  "run (Query_free (FDelete_q 0 (FDelete 1 2 (Some (FComp 3 (FExpr 4 (FTerm (FColref 5 (Some 6) (Some 7))) None)
      (FExpr 8 (FTerm (FLit (FLiteral 9 None))) None)))))) (\<lambda>a. a < 20, []) =
    Some (\<lambda>a. a < 20 \<and> a \<notin> {1, 2, 3, 4, 8}, [])"
  (is "run (Query_free ?q) _ = _")
proof -
  have "run (Query_free ?q) (\<lambda>a. a < 20, []) =
    (if query_complete ?q
     then Some (\<lambda>a. a < 20 \<and> (a \<in> set (query_blocks ?q) \<longrightarrow> a \<in> set (query_leaks ?q)), [] @ printed (Query_free ?q))
     else None)"
    by (rule query_release_leaks) (simp_all add: opt_blocks_def ptr_def)
  also have "\<dots> = Some (\<lambda>a. a < 20 \<and> a \<notin> {1, 2, 3, 4, 8}, [])"
    by (auto simp: opt_blocks_def ptr_def free_ptr_def fun_eq_iff)
  finally show ?thesis .
qed

end
