(* ===== verification/Simclist.thy ===== *)
theory Simclist
  imports Complex_Main Prelude
begin

section \<open>simclist.c: the list library\<close>

text \<open>
  The doubly linked lists of \<open>src/db/src/simclist/simclist.c\<close>, in which the program files of
  \<open>dbm-file.c\<close> keep their query results and registers. Entries live in a heap and are reached by
  pointers; a pointer is \<open>None\<close> when it is null. Access through a null or dangling pointer, a second
  \<open>free\<close>, a failing \<open>assert\<close> and a loop that does not end are \<open>None\<close>. An unsigned \<open>int\<close> is a
  natural number below \<open>2 ^ 32\<close>, its wrap-around written out. \<open>malloc\<close> never hands an address out
  twice; \<open>mem_ok\<close> says which of its calls succeed. The content of a fresh entry is indeterminate;
  the code writes every field of it before it reads one.
\<close>

subsection \<open>Memory\<close>

type_synonym ptr = "nat option"
type_synonym blocks = "nat \<rightharpoonup> bytes"

record list_entry_s =
  edata :: ptr
  enext :: ptr
  eprev :: ptr

record list_mem =
  entries :: "nat \<rightharpoonup> list_entry_s"
  blocks :: blocks
  arrays :: "nat set"
  brk :: nat
  mem_ok :: "nat \<Rightarrow> bool"

definition malloc_entry :: "list_mem \<Rightarrow> ptr \<times> list_mem" where
  "malloc_entry h =
     (if mem_ok h (brk h)
      then (Some (brk h), h\<lparr>entries := (entries h)(brk h \<mapsto> \<lparr>edata = None, enext = None, eprev = None\<rparr>),
                            brk := Suc (brk h)\<rparr>)
      else (None, h\<lparr>brk := Suc (brk h)\<rparr>))"

definition malloc_block :: "list_mem \<Rightarrow> bytes \<Rightarrow> ptr \<times> list_mem" where
  "malloc_block h bs =
     (if mem_ok h (brk h) then (Some (brk h), h\<lparr>blocks := (blocks h)(brk h \<mapsto> bs), brk := Suc (brk h)\<rparr>)
      else (None, h\<lparr>brk := Suc (brk h)\<rparr>))"

text \<open>An array of pointers is in the heap by its address; what is in it is kept by its owner.\<close>

definition malloc_array :: "list_mem \<Rightarrow> ptr \<times> list_mem" where
  "malloc_array h =
     (if mem_ok h (brk h) then (Some (brk h), h\<lparr>arrays := insert (brk h) (arrays h), brk := Suc (brk h)\<rparr>)
      else (None, h\<lparr>brk := Suc (brk h)\<rparr>))"

definition array_live :: "list_mem \<Rightarrow> ptr \<Rightarrow> bool" where
  "array_live h p = (case p of None \<Rightarrow> False | Some a \<Rightarrow> a \<in> arrays h)"

definition free_array :: "list_mem \<Rightarrow> ptr \<Rightarrow> list_mem option" where
  "free_array h p =
     (case p of
        None \<Rightarrow> Some h
      | Some a \<Rightarrow> if a \<notin> arrays h then None else Some (h\<lparr>arrays := arrays h - {a}\<rparr>))"

definition free_entry :: "list_mem \<Rightarrow> ptr \<Rightarrow> list_mem option" where
  "free_entry h p =
     (case p of
        None \<Rightarrow> Some h
      | Some a \<Rightarrow> if entries h a = None then None else Some (h\<lparr>entries := (entries h)(a := None)\<rparr>))"

definition free_block :: "list_mem \<Rightarrow> ptr \<Rightarrow> list_mem option" where
  "free_block h p =
     (case p of
        None \<Rightarrow> Some h
      | Some a \<Rightarrow> if blocks h a = None then None else Some (h\<lparr>blocks := (blocks h)(a := None)\<rparr>))"

definition get_entry :: "list_mem \<Rightarrow> ptr \<Rightarrow> list_entry_s option" where
  "get_entry h p = Option.bind p (entries h)"

definition put_entry :: "list_mem \<Rightarrow> ptr \<Rightarrow> (list_entry_s \<Rightarrow> list_entry_s) \<Rightarrow> list_mem option" where
  "put_entry h p f =
     (case p of
        None \<Rightarrow> None
      | Some a \<Rightarrow> Option.bind (entries h a) (\<lambda>e. Some (h\<lparr>entries := (entries h)(a \<mapsto> f e)\<rparr>)))"

definition set_edata :: "list_mem \<Rightarrow> ptr \<Rightarrow> ptr \<Rightarrow> list_mem option" where
  "set_edata h p v = put_entry h p (\<lambda>e. e\<lparr>edata := v\<rparr>)"

definition set_next :: "list_mem \<Rightarrow> ptr \<Rightarrow> ptr \<Rightarrow> list_mem option" where
  "set_next h p v = put_entry h p (\<lambda>e. e\<lparr>enext := v\<rparr>)"

definition set_prev :: "list_mem \<Rightarrow> ptr \<Rightarrow> ptr \<Rightarrow> list_mem option" where
  "set_prev h p v = put_entry h p (\<lambda>e. e\<lparr>eprev := v\<rparr>)"

definition assert_that :: "bool \<Rightarrow> unit option" where
  "assert_that b = (if b then Some () else None)"

subsection \<open>Lists\<close>

text \<open>The functions a user may install read the memory the data pointers lead to; \<open>None\<close> is a call
  that has no defined result.\<close>

type_synonym element_comparator = "blocks \<Rightarrow> ptr \<Rightarrow> ptr \<Rightarrow> int option"
type_synonym element_seeker = "blocks \<Rightarrow> ptr \<Rightarrow> ptr \<Rightarrow> int option"
type_synonym element_meter = "blocks \<Rightarrow> ptr \<Rightarrow> nat option"
type_synonym element_hash_computer = "blocks \<Rightarrow> ptr \<Rightarrow> u32 option"
type_synonym element_serializer = "blocks \<Rightarrow> ptr \<Rightarrow> (bytes \<times> u32) option"
type_synonym element_unserializer = "bytes \<Rightarrow> list_mem \<Rightarrow> (ptr \<times> u32 \<times> list_mem) option"

record list_attributes_s =
  comparator :: "element_comparator option"
  seeker :: "element_seeker option"
  meter :: "element_meter option"
  copy_data :: int
  hasher :: "element_hash_computer option"
  serializer :: "element_serializer option"
  unserializer :: "element_unserializer option"

text \<open>\<open>spare_array\<close> is the address of the array of spare entries and \<open>spareels\<close> its content, empty when
  its \<open>malloc\<close> failed.\<close>

record list_t =
  head_sentinel :: ptr
  tail_sentinel :: ptr
  mid :: ptr
  numels :: nat
  spare_array :: ptr
  spareels :: "ptr list"
  spareelsnum :: nat
  iter_active :: bool
  iter_pos :: nat
  iter_curentry :: ptr
  attrs :: list_attributes_s

abbreviation max_spare :: nat where "max_spare \<equiv> 5"

definition usub :: "nat \<Rightarrow> nat \<Rightarrow> nat" where
  "usub a b = (a + 2 ^ 32 - b) mod 2 ^ 32"

definition c_int :: "nat \<Rightarrow> int" where
  "c_int n = (if n < 2 ^ 31 then int n else int n - 2 ^ 32)"

subsection \<open>The representation check\<close>

text \<open>\<open>rep_half\<close> and \<open>rep_rest\<close> are the two loops of \<open>list_repOk\<close>; they return the counter and the
  pointer at their end.\<close>

fun rep_half :: "list_mem \<Rightarrow> nat \<Rightarrow> int \<Rightarrow> ptr \<Rightarrow> (int \<times> ptr) option" where
  "rep_half h 0 i s = Some (i, s)"
| "rep_half h (Suc k) i s = do {
     e \<leftarrow> get_entry h s;
     if enext e = None then Some (i, s) else do {
       e' \<leftarrow> get_entry h (enext e);
       if eprev e' \<noteq> s then Some (i, s) else rep_half h k (i + 1) (enext e) } }"

partial_function (option) rep_rest :: "list_mem \<Rightarrow> int \<Rightarrow> ptr \<Rightarrow> (int \<times> ptr) option" where
  "rep_rest h i s = do {
     e \<leftarrow> get_entry h s;
     if enext e = None then Some (i, s) else do {
       e' \<leftarrow> get_entry h (enext e);
       if eprev e' \<noteq> s then Some (i, s) else rep_rest h (i + 1) (enext e) } }"

definition list_repOk :: "list_mem \<Rightarrow> list_t \<Rightarrow> bool option" where
  "list_repOk h l =
     (if head_sentinel l = None \<or> tail_sentinel l = None \<or> head_sentinel l = tail_sentinel l then Some False
      else do {
        hd \<leftarrow> get_entry h (head_sentinel l);
        tl \<leftarrow> get_entry h (tail_sentinel l);
        if eprev hd = None \<and> enext tl = None
           \<and> (numels l > 0 \<or> mid l = None \<and> enext hd = tail_sentinel l \<and> eprev tl = head_sentinel l)
           \<and> spareelsnum l \<le> max_spare
        then if numels l \<ge> 1 then do {
               (i, s) \<leftarrow> rep_half h (nat (c_int (numels l - 1) div 2 + 1)) (- 1) (head_sentinel l);
               if i = c_int (numels l - 1) div 2 \<and> mid l = s then do {
                 (i, s) \<leftarrow> rep_rest h i s;
                 Some (i = c_int (numels l) \<and> s = tail_sentinel l) }
               else Some False }
             else Some True
        else Some False })"

definition list_attrOk :: "list_t \<Rightarrow> bool" where
  "list_attrOk l \<longleftrightarrow> copy_data (attrs l) = 0 \<or> meter (attrs l) \<noteq> None"

definition assert_repOk :: "list_mem \<Rightarrow> list_t \<Rightarrow> unit option" where
  "assert_repOk h l = do { ok \<leftarrow> list_repOk h l; assert_that ok }"

subsection \<open>Creation and attributes\<close>

definition list_attributes_setdefaults :: "list_t \<Rightarrow> (int \<times> list_t) option" where
  "list_attributes_setdefaults l = do {
     let l = l\<lparr>attrs := \<lparr>comparator = None, seeker = None, meter = None, copy_data = 0, hasher = None,
                        serializer = None, unserializer = None\<rparr>\<rparr>;
     assert_that (list_attrOk l);
     Some (0, l) }"

definition malloc_spares :: "list_mem \<Rightarrow> ptr \<times> ptr list \<times> list_mem" where
  "malloc_spares h =
     (let (p, h) = malloc_array h
      in (p, if p = None then [] else replicate max_spare None, h))"

definition list_init :: "list_t option \<Rightarrow> list_mem \<Rightarrow> (int \<times> list_t option \<times> list_mem) option" where
  "list_init lo h =
     (case lo of
        None \<Rightarrow> Some (- 1, None, h)
      | Some l \<Rightarrow> do {
          let l = l\<lparr>numels := 0\<rparr>;
          let (hs, h) = malloc_entry h;
          let (ts, h) = malloc_entry h;
          let l = l\<lparr>head_sentinel := hs, tail_sentinel := ts\<rparr>;
          h \<leftarrow> set_next h (head_sentinel l) (tail_sentinel l);
          h \<leftarrow> set_prev h (tail_sentinel l) (head_sentinel l);
          let l = l\<lparr>mid := None\<rparr>;
          h \<leftarrow> set_next h (tail_sentinel l) None;
          h \<leftarrow> set_prev h (head_sentinel l) None;
          h \<leftarrow> set_edata h (tail_sentinel l) None;
          h \<leftarrow> set_edata h (head_sentinel l) None;
          let l = l\<lparr>iter_active := False, iter_pos := 0, iter_curentry := None\<rparr>;
          let (p, sp, h) = malloc_spares h;
          let l = l\<lparr>spare_array := p, spareels := sp, spareelsnum := 0\<rparr>;
          (r, l) \<leftarrow> list_attributes_setdefaults l;
          assert_repOk h l;
          assert_that (list_attrOk l);
          Some (0, Some l, h) })"

definition set_attrs :: "list_t option \<Rightarrow> (list_attributes_s \<Rightarrow> list_attributes_s) \<Rightarrow> (int \<times> list_t option) option" where
  "set_attrs lo f =
     (case lo of
        None \<Rightarrow> Some (- 1, None)
      | Some l \<Rightarrow> do {
          let l = l\<lparr>attrs := f (attrs l)\<rparr>;
          assert_that (list_attrOk l);
          Some (0, Some l) })"

definition list_attributes_comparator where
  "list_attributes_comparator lo f = set_attrs lo (\<lambda>a. a\<lparr>comparator := f\<rparr>)"

definition list_attributes_seeker where
  "list_attributes_seeker lo f = set_attrs lo (\<lambda>a. a\<lparr>seeker := f\<rparr>)"

definition list_attributes_copy where
  "list_attributes_copy lo f c =
     (if f = None \<and> c \<noteq> 0 then Some (- 1, lo)
      else set_attrs lo (\<lambda>a. a\<lparr>meter := f, copy_data := c\<rparr>))"

definition list_attributes_hash_computer where
  "list_attributes_hash_computer lo f = set_attrs lo (\<lambda>a. a\<lparr>hasher := f\<rparr>)"

definition list_attributes_serializer where
  "list_attributes_serializer lo f = set_attrs lo (\<lambda>a. a\<lparr>serializer := f\<rparr>)"

definition list_attributes_unserializer where
  "list_attributes_unserializer lo f = set_attrs lo (\<lambda>a. a\<lparr>unserializer := f\<rparr>)"

subsection \<open>Positions\<close>

text \<open>
  \<open>float32 x\<close> is the single precision number nearest to a non-negative \<open>x\<close>, ties to even: 24 bits of
  mantissa, the unit in the last place a power of two. \<open>list_findpos\<close> compares such a quotient with
  a quarter, a half and three quarters; with no elements it is a NaN or an infinity, and the
  comparisons are false.
\<close>

definition round_even :: "rat \<Rightarrow> int" where
  "round_even x =
     (let n = \<lfloor>x\<rfloor>; d = x - of_int n
      in if d < 1 / 2 then n else if d > 1 / 2 then n + 1 else if even n then n else n + 1)"

definition float32_exponent :: "rat \<Rightarrow> int option" where
  "float32_exponent x = find (\<lambda>e. 2 ^ 23 * 2 powi e \<le> x \<and> x < 2 ^ 24 * 2 powi e) [- 149..104]"

definition float32 :: "rat \<Rightarrow> rat" where
  "float32 x =
     (case float32_exponent x of
        None \<Rightarrow> x
      | Some e \<Rightarrow> of_int (round_even (x / 2 powi e)) * 2 powi e)"

definition findpos_x :: "int \<Rightarrow> nat \<Rightarrow> rat" where
  "findpos_x posstart n = float32 (float32 (of_int (posstart + 1)) / float32 (of_nat n))"

definition findpos_quarter :: "int \<Rightarrow> nat \<Rightarrow> nat" where
  "findpos_quarter posstart n =
     (if n = 0 then 4
      else let x = findpos_x posstart n
           in if x \<le> 1 / 4 then 1 else if x < 1 / 2 then 2 else if x \<le> 3 / 4 then 3 else 4)"

fun walk_next :: "list_mem \<Rightarrow> nat \<Rightarrow> ptr \<Rightarrow> ptr option" where
  "walk_next h 0 p = Some p"
| "walk_next h (Suc k) p = do { e \<leftarrow> get_entry h p; walk_next h k (enext e) }"

fun walk_prev :: "list_mem \<Rightarrow> nat \<Rightarrow> ptr \<Rightarrow> ptr option" where
  "walk_prev h 0 p = Some p"
| "walk_prev h (Suc k) p = do { e \<leftarrow> get_entry h p; walk_prev h k (eprev e) }"

definition list_findpos :: "list_t \<Rightarrow> list_mem \<Rightarrow> int \<Rightarrow> ptr option" where
  "list_findpos l h posstart =
     (if posstart < - 1 \<or> posstart > c_int (numels l) then Some None
      else let q = findpos_quarter posstart (numels l); m = int (usub (numels l) 1 div 2)
           in if q = 1 then walk_next h (nat (posstart + 1)) (head_sentinel l)
              else if q = 2 then walk_prev h (nat (m - posstart)) (mid l)
              else if q = 3 then walk_next h (nat (posstart - m)) (mid l)
              else walk_prev h (nat (c_int (numels l) - posstart)) (tail_sentinel l))"

definition list_get_at :: "list_t \<Rightarrow> list_mem \<Rightarrow> nat \<Rightarrow> ptr option" where
  "list_get_at l h pos = do {
     tmp \<leftarrow> list_findpos l h (c_int pos);
     if tmp = None then Some None else do { e \<leftarrow> get_entry h tmp; Some (edata e) } }"

subsection \<open>Insertion\<close>

definition copy_of :: "list_t \<Rightarrow> list_mem \<Rightarrow> ptr \<Rightarrow> (ptr \<times> list_mem) option" where
  "copy_of l h dat = do {
     f \<leftarrow> meter (attrs l);
     datalen \<leftarrow> f (blocks h) dat;
     src \<leftarrow> Option.bind dat (blocks h);
     if datalen \<le> length src
     then let (p, h) = malloc_block h (take datalen src)
          in if p = None then None else Some (p, h)
     else None }"

definition new_entry :: "list_t \<Rightarrow> list_mem \<Rightarrow> (ptr \<times> list_t \<times> list_mem) option" where
  "new_entry l h =
     (if spareelsnum l > 0
      then if spareelsnum l - 1 < length (spareels l)
           then Some (spareels l ! (spareelsnum l - 1), l\<lparr>spareelsnum := spareelsnum l - 1\<rparr>, h) else None
      else let (p, h) = malloc_entry h in Some (p, l, h))"

definition mid_after_insert :: "list_t \<Rightarrow> list_mem \<Rightarrow> ptr \<Rightarrow> nat \<Rightarrow> ptr option" where
  "mid_after_insert l h lent pos =
     (if numels l = 1 then Some lent
      else if numels l mod 2 \<noteq> 0
      then if pos \<ge> usub (numels l) 1 div 2 then do { m \<leftarrow> get_entry h (mid l); Some (enext m) } else Some (mid l)
      else if pos \<le> usub (numels l) 1 div 2 then do { m \<leftarrow> get_entry h (mid l); Some (eprev m) } else Some (mid l))"

definition link_entry :: "list_mem \<Rightarrow> ptr \<Rightarrow> ptr \<Rightarrow> list_mem option" where
  "link_entry h prec lent = do {
     pe \<leftarrow> get_entry h prec;
     let succ = enext pe;
     h \<leftarrow> set_next h prec lent;
     h \<leftarrow> set_prev h lent prec;
     h \<leftarrow> set_next h lent succ;
     set_prev h succ lent }"

definition list_insert_at :: "list_t \<Rightarrow> list_mem \<Rightarrow> ptr \<Rightarrow> nat \<Rightarrow> (int \<times> list_t \<times> list_mem) option" where
  "list_insert_at l h dat pos =
     (if iter_active l \<or> pos > numels l then Some (- 1, l, h)
      else do {
        (lent, l, h) \<leftarrow> new_entry l h;
        if lent = None then Some (- 1, l, h) else do {
          (p, h) \<leftarrow> (if copy_data (attrs l) \<noteq> 0 then copy_of l h dat else Some (dat, h));
          h \<leftarrow> set_edata h lent p;
          prec \<leftarrow> list_findpos l h (c_int (usub pos 1));
          h \<leftarrow> link_entry h prec lent;
          let l = l\<lparr>numels := (numels l + 1) mod 2 ^ 32\<rparr>;
          m \<leftarrow> mid_after_insert l h lent pos;
          let l = l\<lparr>mid := m\<rparr>;
          assert_repOk h l;
          Some (1, l, h) } })"

definition list_append :: "list_t \<Rightarrow> list_mem \<Rightarrow> ptr \<Rightarrow> (int \<times> list_t \<times> list_mem) option" where
  "list_append l h dat = list_insert_at l h dat (numels l)"

definition list_prepend :: "list_t \<Rightarrow> list_mem \<Rightarrow> ptr \<Rightarrow> (int \<times> list_t \<times> list_mem) option" where
  "list_prepend l h dat = list_insert_at l h dat 0"

subsection \<open>Removal\<close>

definition push_spare :: "list_t \<Rightarrow> ptr \<Rightarrow> list_t option" where
  "push_spare l p =
     (if spareelsnum l < length (spareels l)
      then Some (l\<lparr>spareels := (spareels l)[spareelsnum l := p], spareelsnum := spareelsnum l + 1\<rparr>) else None)"

definition retire_entry :: "list_t \<Rightarrow> list_mem \<Rightarrow> ptr \<Rightarrow> (list_t \<times> list_mem) option" where
  "retire_entry l h p =
     (if spareelsnum l < max_spare then do { l \<leftarrow> push_spare l p; Some (l, h) }
      else do { h \<leftarrow> free_entry h p; Some (l, h) })"

definition free_data :: "list_t \<Rightarrow> list_mem \<Rightarrow> ptr \<Rightarrow> list_mem option" where
  "free_data l h p =
     (if copy_data (attrs l) \<noteq> 0 then do { e \<leftarrow> get_entry h p; free_block h (edata e) } else Some h)"

definition mid_before_drop :: "list_t \<Rightarrow> list_mem \<Rightarrow> nat \<Rightarrow> ptr option" where
  "mid_before_drop l h pos =
     (if numels l mod 2 \<noteq> 0
      then if numels l = 1 then Some None
           else if pos \<ge> numels l div 2 then do { m \<leftarrow> get_entry h (mid l); Some (eprev m) } else Some (mid l)
      else if pos < numels l div 2 then do { m \<leftarrow> get_entry h (mid l); Some (enext m) } else Some (mid l))"

definition unlink_entry :: "list_mem \<Rightarrow> ptr \<Rightarrow> list_mem option" where
  "unlink_entry h tmp = do {
     e \<leftarrow> get_entry h tmp;
     h \<leftarrow> set_next h (eprev e) (enext e);
     e \<leftarrow> get_entry h tmp;
     set_prev h (enext e) (eprev e) }"

definition list_drop_elem :: "list_t \<Rightarrow> list_mem \<Rightarrow> ptr \<Rightarrow> nat \<Rightarrow> (int \<times> list_t \<times> list_mem) option" where
  "list_drop_elem l h tmp pos =
     (if tmp = None then Some (- 1, l, h)
      else do {
        m \<leftarrow> mid_before_drop l h pos;
        let l = l\<lparr>mid := m\<rparr>;
        h \<leftarrow> unlink_entry h tmp;
        h \<leftarrow> free_data l h tmp;
        (l, h) \<leftarrow> retire_entry l h tmp;
        Some (0, l, h) })"

definition list_extract_at :: "list_t \<Rightarrow> list_mem \<Rightarrow> nat \<Rightarrow> (ptr \<times> list_t \<times> list_mem) option" where
  "list_extract_at l h pos =
     (if iter_active l \<or> pos \<ge> numels l then Some (None, l, h)
      else do {
        tmp \<leftarrow> list_findpos l h (c_int pos);
        e \<leftarrow> get_entry h tmp;
        h \<leftarrow> set_edata h tmp None;
        (r, l, h) \<leftarrow> list_drop_elem l h tmp pos;
        let l = l\<lparr>numels := usub (numels l) 1\<rparr>;
        assert_repOk h l;
        Some (edata e, l, h) })"

definition list_fetch :: "list_t \<Rightarrow> list_mem \<Rightarrow> (ptr \<times> list_t \<times> list_mem) option" where
  "list_fetch l h = list_extract_at l h 0"

definition list_delete_at :: "list_t \<Rightarrow> list_mem \<Rightarrow> nat \<Rightarrow> (int \<times> list_t \<times> list_mem) option" where
  "list_delete_at l h pos =
     (if iter_active l \<or> pos \<ge> numels l then Some (- 1, l, h)
      else do {
        delendo \<leftarrow> list_findpos l h (c_int pos);
        (r, l, h) \<leftarrow> list_drop_elem l h delendo pos;
        let l = l\<lparr>numels := usub (numels l) 1\<rparr>;
        assert_repOk h l;
        Some (0, l, h) })"

text \<open>The loops of \<open>list_clear\<close>: entries become spare as long as there is room, the others are
  freed.\<close>

partial_function (option) clear_spare ::
  "list_t \<Rightarrow> list_mem \<Rightarrow> ptr \<Rightarrow> (list_t \<times> list_mem \<times> ptr) option" where
  "clear_spare l h s =
     (if spareelsnum l < max_spare \<and> s \<noteq> tail_sentinel l
      then do {
        h \<leftarrow> free_data l h s;
        l \<leftarrow> push_spare l s;
        e \<leftarrow> get_entry h s;
        clear_spare l h (enext e) }
      else Some (l, h, s))"

partial_function (option) clear_free :: "list_t \<Rightarrow> list_mem \<Rightarrow> ptr \<Rightarrow> list_mem option" where
  "clear_free l h s =
     (if s \<noteq> tail_sentinel l
      then do {
        h \<leftarrow> free_data l h s;
        e \<leftarrow> get_entry h s;
        e' \<leftarrow> get_entry h (enext e);
        h \<leftarrow> free_entry h (eprev e');
        clear_free l h (enext e) }
      else Some h)"

definition list_clear :: "list_t \<Rightarrow> list_mem \<Rightarrow> (int \<times> list_t \<times> list_mem) option" where
  "list_clear l h =
     (let n = numels l
      in if iter_active l then Some (- 1, l, h)
         else do {
           e \<leftarrow> get_entry h (head_sentinel l);
           (l, h, s) \<leftarrow> clear_spare l h (enext e);
           h \<leftarrow> clear_free l h s;
           h \<leftarrow> set_next h (head_sentinel l) (tail_sentinel l);
           h \<leftarrow> set_prev h (tail_sentinel l) (head_sentinel l);
           let l = l\<lparr>numels := 0, mid := None\<rparr>;
           assert_repOk h l;
           Some (c_int n, l, h) })"

fun free_spares :: "list_t \<Rightarrow> list_mem \<Rightarrow> nat \<Rightarrow> list_mem option" where
  "free_spares l h 0 = Some h"
| "free_spares l h (Suc k) =
     (if array_live h (spare_array l) \<and> spareelsnum l - Suc k < length (spareels l)
      then do { h \<leftarrow> free_entry h (spareels l ! (spareelsnum l - Suc k)); free_spares l h k } else None)"

definition list_destroy :: "list_t \<Rightarrow> list_mem \<Rightarrow> list_mem option" where
  "list_destroy l h = do {
     (r, l, h) \<leftarrow> list_clear l h;
     h \<leftarrow> free_spares l h (spareelsnum l);
     h \<leftarrow> free_array h (spare_array l);
     h \<leftarrow> free_entry h (head_sentinel l);
     free_entry h (tail_sentinel l) }"

text \<open>\<open>retire_range\<close> is the loop of \<open>list_delete_range\<close> over the \<open>k\<close> entries to delete.\<close>

fun retire_range :: "list_t \<Rightarrow> list_mem \<Rightarrow> nat \<Rightarrow> ptr \<Rightarrow> (list_t \<times> list_mem \<times> ptr) option" where
  "retire_range l h 0 tmp = Some (l, h, tmp)"
| "retire_range l h (Suc k) tmp = do {
     e \<leftarrow> get_entry h tmp;
     h \<leftarrow> free_data l h tmp;
     (l, h) \<leftarrow> retire_entry l h tmp;
     retire_range l h k (enext e) }"

definition list_delete_range :: "list_t \<Rightarrow> list_mem \<Rightarrow> nat \<Rightarrow> nat \<Rightarrow> (int \<times> list_t \<times> list_mem) option" where
  "list_delete_range l h posstart posend =
     (if iter_active l \<or> posend < posstart \<or> posend \<ge> numels l then Some (- 1, l, h)
      else let numdel = posend - posstart + 1
           in if numdel = numels l then list_clear l h
              else do {
                tmp \<leftarrow> list_findpos l h (c_int posstart);
                e \<leftarrow> get_entry h tmp;
                let lastvalid = eprev e;
                let midposafter = usub (usub (numels l) 1) numdel div 2;
                let midposafter = (if midposafter < posstart then midposafter else midposafter + numdel);
                let movedx = c_int (usub midposafter (usub (numels l) 1 div 2));
                m \<leftarrow> (if movedx > 0 then walk_next h (nat movedx) (mid l)
                      else walk_prev h (nat (- movedx)) (mid l));
                let l = l\<lparr>mid := m\<rparr>;
                assert_that (posstart = 0 \<or> lastvalid \<noteq> head_sentinel l);
                (l, h, tmp) \<leftarrow> retire_range l h numdel tmp;
                assert_that (posend \<noteq> numels l \<or> tmp = tail_sentinel l);
                h \<leftarrow> set_next h lastvalid tmp;
                h \<leftarrow> set_prev h tmp lastvalid;
                let l = l\<lparr>numels := usub (numels l) numdel\<rparr>;
                assert_repOk h l;
                Some (c_int numdel, l, h) })"

end
