(* ===== verification/SimclistQuery.thy ===== *)
theory SimclistQuery
  imports Simclist "HOL-Library.Signed_Division"
begin

section \<open>simclist.c: looking at lists\<close>

text \<open>
  The operations of \<open>simclist.c\<close> that read a list or build one from others: sizes, search, extremes,
  concatenation, iteration, hashes, and the comparators, meters and hash functions the library has
  ready. Signed arithmetic that overflows has no defined meaning.
\<close>

definition c_range :: "int \<Rightarrow> int option" where
  "c_range a = (if - (2 ^ 31) \<le> a \<and> a < 2 ^ 31 then Some a else None)"

subsection \<open>Sizes and search\<close>

definition list_size :: "list_t \<Rightarrow> nat" where
  "list_size l = numels l"

definition list_empty :: "list_t \<Rightarrow> bool" where
  "list_empty l \<longleftrightarrow> numels l = 0"

definition entry_matches :: "list_t \<Rightarrow> list_mem \<Rightarrow> ptr \<Rightarrow> ptr \<Rightarrow> bool option" where
  "entry_matches l h dat x =
     (case comparator (attrs l) of
        Some f \<Rightarrow> do { r \<leftarrow> f (blocks h) dat x; Some (r = 0) }
      | None \<Rightarrow> Some (x = dat))"

partial_function (option) locate_from :: "list_t \<Rightarrow> list_mem \<Rightarrow> ptr \<Rightarrow> ptr \<Rightarrow> int \<Rightarrow> int option" where
  "locate_from l h dat el pos =
     (if el = tail_sentinel l then Some (- 1)
      else do {
        e \<leftarrow> get_entry h el;
        found \<leftarrow> entry_matches l h dat (edata e);
        if found then Some pos else locate_from l h dat (enext e) (pos + 1) })"

definition list_locate :: "list_t \<Rightarrow> list_mem \<Rightarrow> ptr \<Rightarrow> int option" where
  "list_locate l h dat = do {
     e \<leftarrow> get_entry h (head_sentinel l);
     locate_from l h dat (enext e) 0 }"

definition list_contains :: "list_t \<Rightarrow> list_mem \<Rightarrow> ptr \<Rightarrow> bool option" where
  "list_contains l h dat = do { pos \<leftarrow> list_locate l h dat; Some (pos \<ge> 0) }"

definition list_delete :: "list_t \<Rightarrow> list_mem \<Rightarrow> ptr \<Rightarrow> (int \<times> list_t \<times> list_mem) option" where
  "list_delete l h dat = do {
     pos \<leftarrow> list_locate l h dat;
     if pos < 0 then Some (- 1, l, h) else do {
       (r, l, h) \<leftarrow> list_delete_at l h (nat pos);
       if r < 0 then Some (- 1, l, h) else do {
         assert_repOk h l;
         Some (0, l, h) } } }"

partial_function (option) seek_from ::
  "list_t \<Rightarrow> list_mem \<Rightarrow> element_seeker \<Rightarrow> ptr \<Rightarrow> ptr \<Rightarrow> ptr option" where
  "seek_from l h f indicator iter =
     (if iter = tail_sentinel l then Some None
      else do {
        e \<leftarrow> get_entry h iter;
        r \<leftarrow> f (blocks h) (edata e) indicator;
        if r \<noteq> 0 then Some (edata e) else seek_from l h f indicator (enext e) })"

definition list_seek :: "list_t \<Rightarrow> list_mem \<Rightarrow> ptr \<Rightarrow> ptr option" where
  "list_seek l h indicator =
     (case seeker (attrs l) of
        None \<Rightarrow> Some None
      | Some f \<Rightarrow> do { e \<leftarrow> get_entry h (head_sentinel l); seek_from l h f indicator (enext e) })"

partial_function (option) minmax_from ::
  "list_t \<Rightarrow> list_mem \<Rightarrow> element_comparator \<Rightarrow> int \<Rightarrow> ptr \<Rightarrow> ptr \<Rightarrow> ptr option" where
  "minmax_from l h f versus s best =
     (if s = tail_sentinel l then Some best
      else do {
        e \<leftarrow> get_entry h s;
        r \<leftarrow> f (blocks h) best (edata e);
        v \<leftarrow> c_range (r * versus);
        minmax_from l h f versus (enext e) (if v > 0 then edata e else best) })"

definition list_get_minmax :: "list_t \<Rightarrow> list_mem \<Rightarrow> int \<Rightarrow> ptr option" where
  "list_get_minmax l h versus =
     (case comparator (attrs l) of
        None \<Rightarrow> Some None
      | Some f \<Rightarrow>
          if numels l = 0 then Some None else do {
            hd \<leftarrow> get_entry h (head_sentinel l);
            e \<leftarrow> get_entry h (enext hd);
            minmax_from l h f versus (enext e) (edata e) })"

definition list_get_max :: "list_t \<Rightarrow> list_mem \<Rightarrow> ptr option" where
  "list_get_max l h = list_get_minmax l h 1"

definition list_get_min :: "list_t \<Rightarrow> list_mem \<Rightarrow> ptr option" where
  "list_get_min l h = list_get_minmax l h (- 1)"

subsection \<open>Iteration\<close>

definition list_iterator_start :: "list_t \<Rightarrow> list_mem \<Rightarrow> (bool \<times> list_t) option" where
  "list_iterator_start l h =
     (if iter_active l then Some (False, l)
      else do {
        e \<leftarrow> get_entry h (head_sentinel l);
        Some (True, l\<lparr>iter_pos := 0, iter_active := True, iter_curentry := enext e\<rparr>) })"

definition list_iterator_next :: "list_t \<Rightarrow> list_mem \<Rightarrow> (ptr \<times> list_t) option" where
  "list_iterator_next l h =
     (if \<not> iter_active l then Some (None, l)
      else do {
        e \<leftarrow> get_entry h (iter_curentry l);
        Some (edata e, l\<lparr>iter_curentry := enext e, iter_pos := (iter_pos l + 1) mod 2 ^ 32\<rparr>) })"

definition list_iterator_hasnext :: "list_t \<Rightarrow> bool" where
  "list_iterator_hasnext l \<longleftrightarrow> iter_active l \<and> iter_pos l < numels l"

definition list_iterator_stop :: "list_t \<Rightarrow> bool \<times> list_t" where
  "list_iterator_stop l =
     (if \<not> iter_active l then (False, l) else (True, l\<lparr>iter_pos := 0, iter_active := False\<rparr>))"

subsection \<open>Concatenation\<close>

text \<open>The three lists are passed by address: \<open>ls\<close> says which list is at an address.\<close>

partial_function (option) copy_entries :: "list_mem \<Rightarrow> ptr \<Rightarrow> ptr \<Rightarrow> ptr \<Rightarrow> (ptr \<times> list_mem) option" where
  "copy_entries h el srcel stop =
     (if srcel = stop then Some (el, h)
      else do {
        let (p, h) = malloc_entry h;
        h \<leftarrow> set_next h el p;
        h \<leftarrow> set_prev h p el;
        e \<leftarrow> get_entry h srcel;
        h \<leftarrow> set_edata h p (edata e);
        copy_entries h p (enext e) stop })"

definition list_concat ::
  "(nat \<rightharpoonup> list_t) \<Rightarrow> list_mem \<Rightarrow> ptr \<Rightarrow> ptr \<Rightarrow> ptr \<Rightarrow> (int \<times> (nat \<rightharpoonup> list_t) \<times> list_mem) option" where
  "list_concat ls h p1 p2 pd =
     (if p1 = None \<or> p2 = None \<or> pd = None \<or> p1 = pd \<or> p2 = pd then Some (- 1, ls, h)
      else do {
        l1 \<leftarrow> Option.bind p1 ls;
        l2 \<leftarrow> Option.bind p2 ls;
        d \<leftarrow> Option.bind pd ls;
        (r, lo, h) \<leftarrow> list_init (Some d) h;
        d \<leftarrow> lo;
        let d = d\<lparr>numels := (numels l1 + numels l2) mod 2 ^ 32\<rparr>;
        if numels d = 0 then Some (0, ls(the pd \<mapsto> d), h) else do {
          e \<leftarrow> get_entry h (head_sentinel l1);
          (el, h) \<leftarrow> copy_entries h (head_sentinel d) (enext e) (tail_sentinel l1);
          let d = d\<lparr>mid := el\<rparr>;
          e \<leftarrow> get_entry h (head_sentinel l2);
          (el, h) \<leftarrow> copy_entries h el (enext e) (tail_sentinel l2);
          h \<leftarrow> set_next h el (tail_sentinel d);
          h \<leftarrow> set_prev h (tail_sentinel d) el;
          let err = c_int (usub (numels l2) (numels l1));
          m \<leftarrow> (if (err + 1) sdiv 2 > 0 then walk_next h (nat ((err + 1) sdiv 2)) (mid d)
                else if err sdiv 2 < 0 then walk_prev h (nat ((- err) sdiv 2)) (mid d)
                else Some (mid d));
          let d = d\<lparr>mid := m\<rparr>;
          ok1 \<leftarrow> list_repOk h l1;
          ok2 \<leftarrow> (if ok1 then list_repOk h l2 else Some False);
          ok \<leftarrow> (if ok1 \<and> ok2 then list_repOk h d else Some True);
          assert_that ok;
          Some (0, ls(the pd \<mapsto> d), h) } })"

subsection \<open>Hashes\<close>

text \<open>\<open>hash_step\<close> is the body of the loop: a signed addition, then an unsigned one.\<close>

definition hash_step :: "u32 \<Rightarrow> u32 \<Rightarrow> nat \<Rightarrow> u32 option" where
  "hash_step t x n = do {
     s \<leftarrow> c_range (sint t + sint (t XOR x));
     let t = word_of_int s;
     if n = 0 then None else Some (t + t mod of_nat n) }"

partial_function (option) hash_from ::
  "list_t \<Rightarrow> list_mem \<Rightarrow> element_hash_computer \<Rightarrow> ptr \<Rightarrow> u32 \<Rightarrow> u32 option" where
  "hash_from l h f x t =
     (if x = tail_sentinel l then Some t
      else do {
        e \<leftarrow> get_entry h x;
        v \<leftarrow> f (blocks h) (edata e);
        t \<leftarrow> hash_step t v (numels l);
        hash_from l h f (enext e) t })"

definition list_hash :: "list_t \<Rightarrow> list_mem \<Rightarrow> (int \<times> u32 option) option" where
  "list_hash l h =
     (case hasher (attrs l) of
        None \<Rightarrow> Some (- 1, None)
      | Some f \<Rightarrow> do {
          e \<leftarrow> get_entry h (head_sentinel l);
          t \<leftarrow> hash_from l h f (enext e) (of_nat (numels l * 2 + 100));
          Some (0, Some t) })"

subsection \<open>Ready-made functions\<close>

text \<open>
  The integer types are given by their size in bytes and their sign; integers are stored with the
  low byte first. The two floating point types are left out. A string is what a block has before
  its first zero.
\<close>

definition read_int :: "nat \<Rightarrow> bool \<Rightarrow> blocks \<Rightarrow> ptr \<Rightarrow> int option" where
  "read_int n sg m p = do {
     b \<leftarrow> Option.bind p m;
     if n \<le> length b
     then let v = sum_list (map (\<lambda>i. uint (b ! i) * 2 ^ (8 * i)) [0..<n])
          in Some (if sg \<and> v \<ge> 2 ^ (8 * n - 1) then v - 2 ^ (8 * n) else v)
     else None }"

definition list_comparator_number :: "nat \<Rightarrow> bool \<Rightarrow> element_comparator" where
  "list_comparator_number n sg m a b = do {
     x \<leftarrow> read_int n sg m a;
     y \<leftarrow> read_int n sg m b;
     Some (of_bool (x < y) - of_bool (x > y)) }"

definition read_string :: "blocks \<Rightarrow> ptr \<Rightarrow> bytes option" where
  "read_string m p = do {
     b \<leftarrow> Option.bind p m;
     if 0 \<in> set b then Some (takeWhile (\<lambda>c. c \<noteq> 0) b) else None }"

fun strcmp_bytes :: "bytes \<Rightarrow> bytes \<Rightarrow> int" where
  "strcmp_bytes [] [] = 0"
| "strcmp_bytes [] (y # ys) = - uint y"
| "strcmp_bytes (x # xs) [] = uint x"
| "strcmp_bytes (x # xs) (y # ys) = (if x = y then strcmp_bytes xs ys else uint x - uint y)"

definition list_comparator_string :: element_comparator where
  "list_comparator_string m a b = do {
     y \<leftarrow> read_string m b;
     x \<leftarrow> read_string m a;
     Some (strcmp_bytes y x) }"

definition list_meter_number :: "nat \<Rightarrow> element_meter" where
  "list_meter_number n m p = Some n"

definition list_meter_string :: element_meter where
  "list_meter_string m p = do { s \<leftarrow> read_string m p; Some (length s + 1) }"

definition list_hashcomputer_number :: "nat \<Rightarrow> bool \<Rightarrow> element_hash_computer" where
  "list_hashcomputer_number n sg m p = do { x \<leftarrow> read_int n sg m p; Some (word_of_int x) }"

text \<open>\<open>plus\<close> is a \<open>char\<close>: eight bits, read as a sg number. A negative one cannot be shifted left.\<close>

fun hash_string_from :: "bytes \<Rightarrow> nat \<Rightarrow> bytes \<Rightarrow> u32 \<Rightarrow> u32 option" where
  "hash_string_from str k [] t = Some t"
| "hash_string_from str k (c # cs) t = do {
     let plus = (if k \<noteq> 0 then ucast (t XOR scast c) else ucast (t XOR (scast c - scast (str ! 0))) :: 8 word);
     v \<leftarrow> (if sint plus < 0 then None else c_range (sint plus * 2 ^ (8 * (k mod 4))));
     s \<leftarrow> c_range (sint t + v);
     hash_string_from str (k + 1) cs (word_of_int s) }"

definition list_hashcomputer_string :: element_hash_computer where
  "list_hashcomputer_string m p = do { s \<leftarrow> read_string m p; hash_string_from s 0 s 123 }"

end
