(* ===== verification/SimclistFloat.thy ===== *)
theory SimclistFloat
  imports Simclist
begin

section \<open>simclist.c: the quarter a position is in\<close>

text \<open>
  \<open>list_findpos\<close> decides with a single precision quotient from which end of the list, or which side
  of the middle, it walks. Only the comparison with a half has to be right, and up to \<open>2 ^ 24\<close>
  elements it is: both numbers are then exact, and the largest quotient below a half is at least
  one unit of the last place away from it. With one element more it is not.
\<close>

lemma round_even_ge: "of_int z \<le> x \<Longrightarrow> z \<le> round_even x"
  by (simp add: round_even_def Let_def) linarith

lemma round_even_le:
  assumes "x \<le> of_int z"
  shows "round_even x \<le> z"
proof (cases "x = of_int z")
  case True
  then show ?thesis by (simp add: round_even_def)
next
  case False
  then have "\<lfloor>x\<rfloor> + 1 \<le> z" using assms by linarith
  then show ?thesis by (simp add: round_even_def Let_def)
qed

lemma round_even_int [simp]: "round_even (of_int z) = z"
  by (simp add: round_even_def)

text \<open>The exponent \<open>float32\<close> finds.\<close>

lemma float32_cases:
  obtains "float32 x = x"
  | e where "2 ^ 23 * 2 powi e \<le> x" "x < 2 ^ 24 * 2 powi e"
      "float32 x = of_int (round_even (x / 2 powi e)) * 2 powi e"
proof (cases "float32_exponent x")
  case None
  then show ?thesis using that(1) by (simp add: float32_def)
next
  case (Some e)
  then have "2 ^ 23 * 2 powi e \<le> x \<and> x < 2 ^ 24 * 2 powi e"
    unfolding float32_exponent_def find_Some_iff by blast
  then show ?thesis using Some that(2) [of e] by (simp add: float32_def)
qed

lemma powi_bounds: "(2::rat) powi (- 24) = 1 / 2 ^ 24" "(2::rat) powi (- 25) = 1 / 2 ^ 25"
  "(2::rat) powi (- 26) = 1 / 2 ^ 26"
  by (simp_all add: power_int_def power_one_over)

lemma powi_mono: "e \<le> f \<Longrightarrow> (2::rat) powi e \<le> 2 powi f"
  by (rule power_int_increasing) auto

lemma float32_nat:
  assumes "n \<le> 2 ^ 24"
  shows "float32 (of_nat n) = of_nat n"
proof (rule float32_cases [of "of_nat n"])
  fix e assume e: "2 ^ 23 * 2 powi e \<le> (of_nat n :: rat)" "of_nat n < 2 ^ 24 * (2 powi e :: rat)"
    and f: "float32 (of_nat n) = of_int (round_even (of_nat n / 2 powi e)) * 2 powi e"
  have n: "(of_nat n :: rat) \<le> 2 ^ 24" using assms by (metis of_nat_le_iff of_nat_numeral of_nat_power)
  have pos: "(2::rat) powi e > 0" by simp
  have "\<exists>z. (of_nat n :: rat) / 2 powi e = of_int z"
  proof (cases "e \<le> 0")
    case True
    then have "(of_nat n :: rat) / 2 powi e = of_int (int n * 2 ^ nat (- e))"
      by (simp add: power_int_def field_simps)
    then show ?thesis by blast
  next
    case False
    have "(2::rat) powi e < 2 powi 2" using e(1) n by (simp add: power_int_def)
    then have "e < 2" by (metis linorder_not_le not_less powi_mono)
    then have "e = 1" using False by simp
    then have "(of_nat n :: rat) = 2 ^ 24" using e(1) n by (simp add: power_int_def)
    then show ?thesis using \<open>e = 1\<close> by (intro exI [of _ "2 ^ 23"]) (simp add: power_int_def)
  qed
  then show ?thesis using f pos by (auto simp: field_simps)
qed simp

lemma float32_ge_half:
  assumes "1 / 2 \<le> x"
  shows "1 / 2 \<le> float32 x"
proof (rule float32_cases [of x])
  fix e assume e: "2 ^ 23 * 2 powi e \<le> x" "x < 2 ^ 24 * 2 powi e"
    and f: "float32 x = of_int (round_even (x / 2 powi e)) * 2 powi e"
  have "- 24 \<le> e"
  proof (rule ccontr)
    assume "\<not> - 24 \<le> e"
    then have "(2::rat) powi e \<le> 2 powi (- 25)" by (intro powi_mono) simp
    then show False using e assms by (simp add: powi_bounds)
  qed
  then have p: "(1::rat) / 2 ^ 24 \<le> 2 powi e" using powi_mono [of "- 24" e] by (simp add: powi_bounds)
  have "2 ^ 23 \<le> round_even (x / 2 powi e)" using e(1) by (intro round_even_ge) (simp add: field_simps)
  then have "(of_int (2 ^ 23) :: rat) \<le> of_int (round_even (x / 2 powi e))" by (rule of_int_le_iff [THEN iffD2])
  then have "2 ^ 23 * (1 / 2 ^ 24) \<le> of_int (round_even (x / 2 powi e)) * (2 powi e :: rat)"
    using p by (intro mult_mono) auto
  then show ?thesis using f by simp
qed (use assms in simp)

lemma float32_less_half:
  assumes "x \<le> 1 / 2 - 1 / 2 ^ 25"
  shows "float32 x < 1 / 2"
proof (rule float32_cases [of x])
  fix e assume e: "2 ^ 23 * 2 powi e \<le> x" "x < 2 ^ 24 * 2 powi e"
    and f: "float32 x = of_int (round_even (x / 2 powi e)) * 2 powi e"
  have "e < - 24"
  proof (rule ccontr)
    assume "\<not> e < - 24"
    then have "(2::rat) powi (- 24) \<le> 2 powi e" by (intro powi_mono) simp
    then show False using e assms by (simp add: powi_bounds)
  qed
  then consider "e = - 25" | "e \<le> - 26" by linarith
  then show ?thesis
  proof cases
    case 1
    then have "x / 2 powi e \<le> of_int (2 ^ 24 - 1)" using assms by (simp add: powi_bounds)
    then have "round_even (x / 2 powi e) \<le> 2 ^ 24 - 1" by (rule round_even_le)
    then have "of_int (round_even (x / 2 powi e)) \<le> (of_int (2 ^ 24 - 1) :: rat)" by (rule of_int_le_iff [THEN iffD2])
    then show ?thesis using f 1 by (simp add: powi_bounds)
  next
    case 2
    have "x / 2 powi e \<le> of_int (2 ^ 24)" using e(2) by (simp add: field_simps)
    then have "round_even (x / 2 powi e) \<le> 2 ^ 24" by (rule round_even_le)
    then have "of_int (round_even (x / 2 powi e)) \<le> (of_int (2 ^ 24) :: rat)" by (rule of_int_le_iff [THEN iffD2])
    then have "of_int (round_even (x / 2 powi e)) * (2 powi e :: rat) \<le> 2 ^ 24 * 2 powi (- 26)"
      using powi_mono [OF 2] by (intro mult_mono) auto
    then show ?thesis using f by (simp add: powi_bounds)
  qed
qed (use assms in simp)

text \<open>So the comparison is exact.\<close>

lemma findpos_x_less_half:
  assumes "- 1 \<le> p" and "p < 2 ^ 24" and "0 < n" and "n \<le> 2 ^ 24"
  shows "findpos_x p n < 1 / 2 \<longleftrightarrow> 2 * (p + 1) < int n"
proof -
  define k where "k = nat (p + 1)"
  have k: "p + 1 = int k" "k \<le> 2 ^ 24" using assms by (auto simp: k_def)
  have x: "findpos_x p n = float32 (of_nat k / of_nat n)"
    using float32_nat [of k] float32_nat [of n] k assms(4) by (simp add: findpos_x_def)
  show ?thesis
  proof (cases "2 * k < n")
    case True
    have "(of_nat n :: rat) \<le> 2 ^ 24" using assms(4)
      by (metis of_nat_le_iff of_nat_numeral of_nat_power)
    then have n: "1 / 2 ^ 25 \<le> 1 / (2 * of_nat n :: rat)" using assms(3) by (simp add: field_simps)
    have "2 * of_nat k + 1 \<le> (of_nat n :: rat)" using True
      by (metis Suc_eq_plus1 Suc_leI of_nat_1 of_nat_add of_nat_le_iff of_nat_mult of_nat_numeral)
    then have "of_nat k / of_nat n \<le> (1 / 2 - 1 / (2 * of_nat n) :: rat)" using assms(3) by (simp add: field_simps)
    then have "of_nat k / of_nat n \<le> (1 / 2 - 1 / 2 ^ 25 :: rat)" using n by linarith
    then show ?thesis using float32_less_half x k True by simp
  next
    case False
    then have "(of_nat n :: rat) \<le> 2 * of_nat k"
      by (metis linorder_not_le of_nat_le_iff of_nat_mult of_nat_numeral)
    then have "1 / 2 \<le> (of_nat k / of_nat n :: rat)" using assms(3) by (simp add: field_simps)
    then show ?thesis using float32_ge_half [of "of_nat k / of_nat n"] x k False by simp
  qed
qed

subsection \<open>One element too many\<close>

lemma float32_exponent_Some:
  assumes "2 ^ 23 * 2 powi e \<le> x" and "x < 2 ^ 24 * 2 powi e" and "- 149 \<le> e" and "e \<le> 104"
  shows "float32_exponent x = Some e"
proof -
  let ?P = "\<lambda>e. 2 ^ 23 * 2 powi e \<le> x \<and> x < 2 ^ 24 * 2 powi e"
  have step: "(2::rat) ^ 24 * 2 powi a = 2 ^ 23 * 2 powi (a + 1)" for a by (simp add: power_int_add)
  have unique: "a = e" if "?P a" for a
  proof (rule ccontr)
    assume "a \<noteq> e"
    then consider "a + 1 \<le> e" | "e + 1 \<le> a" by linarith
    then show False
    proof cases
      case 1
      then have "(2::rat) ^ 24 * 2 powi a \<le> 2 ^ 23 * 2 powi e" unfolding step using powi_mono by simp
      then show False using that assms(1) by linarith
    next
      case 2
      then have "(2::rat) ^ 24 * 2 powi e \<le> 2 ^ 23 * 2 powi a" unfolding step using powi_mono by simp
      then show False using that assms(2) by linarith
    qed
  qed
  have "e \<in> set [- 149..104]" unfolding set_upto using assms(3,4) by (simp only: atLeastAtMost_iff)
  then have "List.find ?P [- 149..104] \<noteq> None" using assms(1,2) unfolding find_None_iff by blast
  then obtain a where a: "List.find ?P [- 149..104] = Some a" by blast
  then have "?P a" unfolding find_Some_iff by blast
  then show ?thesis using a unique by (simp only: float32_exponent_def)
qed

lemma float32_value:
  assumes "2 ^ 23 * 2 powi e \<le> x" and "x < 2 ^ 24 * 2 powi e" and "- 149 \<le> e" and "e \<le> 104"
  shows "float32 x = of_int (round_even (x / 2 powi e)) * 2 powi e"
  by (simp add: float32_def float32_exponent_Some [OF assms])

lemma findpos_wrong_turn: "findpos_quarter (2 ^ 23 - 1) (2 ^ 24 + 1) = 3"
proof -
  have "float32 (of_nat (2 ^ 24 + 1)) = of_int (round_even (of_nat (2 ^ 24 + 1) / 2 powi 1)) * 2 powi 1"
    by (rule float32_value) simp_all
  moreover have "round_even (of_nat (2 ^ 24 + 1) / 2 powi 1 :: rat) = 2 ^ 23"
  proof -
    have "\<lfloor>of_nat (2 ^ 24 + 1) / 2 powi 1 :: rat\<rfloor> = 2 ^ 23" by (rule floor_unique) simp_all
    then show ?thesis by (simp add: round_even_def Let_def)
  qed
  ultimately have n: "float32 (of_nat (2 ^ 24 + 1)) = 2 ^ 24" by simp
  have p: "float32 (of_int (2 ^ 23 - 1 + 1)) = 2 ^ 23" using float32_nat [of "2 ^ 23"] by simp
  have "float32 (1 / 2) = of_int (round_even (1 / 2 / 2 powi (- 24))) * 2 powi (- 24)"
    by (rule float32_value) (simp_all add: powi_bounds)
  moreover have "(1 / 2 / 2 powi (- 24) :: rat) = of_int (2 ^ 23)" by (simp add: powi_bounds)
  ultimately have "float32 (1 / 2) = 1 / 2" by (simp only: round_even_int) (simp add: powi_bounds)
  then have "findpos_x (2 ^ 23 - 1) (2 ^ 24 + 1) = 1 / 2" unfolding findpos_x_def n p by simp
  then show ?thesis by (simp add: findpos_quarter_def)
qed

end
