(* ===== verification/SimclistRep.thy ===== *)
theory SimclistRep
  imports SimclistQuery SimclistFloat
begin

section \<open>Lists in the heap\<close>

text \<open>
  What it means that the entries of a heap hold a list: the sentinels and the entries between them
  are linked both ways (\<open>chain\<close>), \<open>mid\<close> is the entry in the middle, the spare entries are apart
  (\<open>list_rep\<close>). The operations of \<open>simclist.c\<close> are shown to keep this and to change the list they
  hold as the operation says. Everything up to \<open>2 ^ 24\<close> elements: beyond, \<open>list_findpos\<close> takes the
  wrong turn (\<open>SimclistCorrect\<close>).
\<close>

named_theorems list_mem_simps \<open>access to the entries of a heap\<close>

subsection \<open>Entries\<close>

lemma get_entry_simps [simp]:
  "get_entry h None = None" "get_entry h (Some a) = entries h a"
  by (simp_all add: get_entry_def)

lemma put_entry_Some [simp]:
  "put_entry h (Some a) f = map_option (\<lambda>e. h\<lparr>entries := (entries h)(a \<mapsto> f e)\<rparr>) (entries h a)"
  by (cases "entries h a") (simp_all add: put_entry_def)

lemma usub_le [simp]: "b \<le> a \<Longrightarrow> a < 2 ^ 32 \<Longrightarrow> usub a b = a - b"
  by (simp add: usub_def mod_if)

lemma c_int_small [simp]: "n < 2 ^ 31 \<Longrightarrow> c_int n = int n"
  by (simp add: c_int_def)

lemma c_int_pred: "n < 2 ^ 31 \<Longrightarrow> c_int (usub n 1) = int n - 1"
  by (cases n) (simp_all add: usub_def c_int_def)

subsection \<open>Chains\<close>

definition first_ptr :: "nat list \<Rightarrow> ptr \<Rightarrow> ptr" where
  "first_ptr as q = (case as of [] \<Rightarrow> q | b # _ \<Rightarrow> Some b)"

definition last_ptr :: "ptr \<Rightarrow> nat list \<Rightarrow> ptr" where
  "last_ptr p as = (if as = [] then p else Some (last as))"

lemma first_ptr_simps [simp]: "first_ptr [] q = q" "first_ptr (b # bs) q = Some b"
  by (simp_all add: first_ptr_def)

lemma first_ptr_append [simp]: "first_ptr (as @ bs) q = first_ptr as (first_ptr bs q)"
  by (cases as) simp_all

lemma last_ptr_simps [simp]:
  "last_ptr p [] = p" "last_ptr p (b # bs) = last_ptr (Some b) bs"
  "last_ptr p (as @ bs) = last_ptr (last_ptr p as) bs"
  by (simp_all add: last_ptr_def)

fun chain :: "(nat \<rightharpoonup> list_entry_s) \<Rightarrow> ptr \<Rightarrow> nat list \<Rightarrow> ptr \<Rightarrow> bool" where
  "chain m p [] q \<longleftrightarrow> True"
| "chain m p (a # as) q \<longleftrightarrow>
     (\<exists>d. m a = Some \<lparr>edata = d, enext = first_ptr as q, eprev = p\<rparr>) \<and> chain m (Some a) as q"

lemma chain_append [simp]:
  "chain m p (as @ bs) q \<longleftrightarrow> chain m p as (first_ptr bs q) \<and> chain m (last_ptr p as) bs q"
  by (induction as arbitrary: p) auto

lemma chain_upd [simp]: "a \<notin> set as \<Longrightarrow> chain (m(a := v)) p as q = chain m p as q"
  by (induction as arbitrary: p) auto

lemma chain_cong: "(\<And>a. a \<in> set as \<Longrightarrow> m a = m' a) \<Longrightarrow> chain m p as q = chain m' p as q"
  by (induction as arbitrary: p) auto

lemma chain_alloc: "chain m p as q \<Longrightarrow> a \<in> set as \<Longrightarrow> m a \<noteq> None"
  by (induction as arbitrary: p) auto

text \<open>The entry at an index, with its two neighbours.\<close>

lemma chain_nth:
  assumes "chain m p as q" and "i < length as"
  shows "\<exists>d. m (as ! i) = Some \<lparr>edata = d,
            enext = (if Suc i < length as then Some (as ! Suc i) else q),
            eprev = (if i = 0 then p else Some (as ! (i - 1)))\<rparr>"
  using assms
proof (induction as arbitrary: p i)
  case (Cons a as)
  show ?case
  proof (cases i)
    case 0
    then show ?thesis using Cons.prems by (cases as) auto
  next
    case (Suc j)
    then show ?thesis using Cons.prems Cons.IH [of "Some a" j] by (cases j) auto
  qed
qed simp

lemma chain_next:
  "chain m p as q \<Longrightarrow> Suc i < length as \<Longrightarrow> \<exists>e. m (as ! i) = Some e \<and> enext e = Some (as ! Suc i)"
  using chain_nth [of m p as q i] by auto

lemma chain_prev:
  "chain m p as q \<Longrightarrow> Suc i < length as \<Longrightarrow> \<exists>e. m (as ! Suc i) = Some e \<and> eprev e = Some (as ! i)"
  using chain_nth [of m p as q "Suc i"] by auto

lemma walk_next_chain:
  assumes "chain (entries h) p as q" and "i + k < length as"
  shows "walk_next h k (Some (as ! i)) = Some (Some (as ! (i + k)))"
  using assms(2)
proof (induction k arbitrary: i)
  case (Suc k)
  then obtain e where "entries h (as ! i) = Some e" "enext e = Some (as ! Suc i)"
    using chain_next [OF assms(1), of i] by auto
  then show ?case using Suc.IH [of "Suc i"] Suc.prems by simp
qed simp

lemma walk_prev_chain:
  assumes "chain (entries h) p as q" and "i < length as" and "k \<le> i"
  shows "walk_prev h k (Some (as ! i)) = Some (Some (as ! (i - k)))"
  using assms(2,3)
proof (induction k arbitrary: i)
  case (Suc k)
  then obtain j where j: "i = Suc j" by (cases i) auto
  then obtain e where "entries h (as ! i) = Some e" "eprev e = Some (as ! j)"
    using chain_prev [OF assms(1), of j] Suc.prems by auto
  then show ?case using Suc.IH [of j] Suc.prems j by simp
qed simp

subsection \<open>The list a heap holds\<close>

abbreviation nodes :: "list_t \<Rightarrow> nat list \<Rightarrow> nat list" where
  "nodes l es \<equiv> the (head_sentinel l) # es @ [the (tail_sentinel l)]"

definition spares :: "list_t \<Rightarrow> nat list" where
  "spares l = map the (take (spareelsnum l) (spareels l))"

definition mid_of :: "nat list \<Rightarrow> ptr" where
  "mid_of es = (if es = [] then None else Some (es ! ((length es - 1) div 2)))"

definition linked :: "(nat \<rightharpoonup> list_entry_s) \<Rightarrow> list_t \<Rightarrow> nat list \<Rightarrow> ptr list \<Rightarrow> bool" where
  "linked m l es ds \<longleftrightarrow>
     head_sentinel l \<noteq> None \<and> tail_sentinel l \<noteq> None \<and> chain m None (nodes l es) None
     \<and> map (\<lambda>a. map_option edata (m a)) (nodes l es) = map Some (None # ds @ [None])"

definition spares_ok :: "(nat \<rightharpoonup> list_entry_s) \<Rightarrow> list_t \<Rightarrow> bool" where
  "spares_ok m l \<longleftrightarrow>
     length (spareels l) = max_spare \<and> spareelsnum l \<le> max_spare
     \<and> None \<notin> set (take (spareelsnum l) (spareels l)) \<and> (\<forall>a \<in> set (spares l). m a \<noteq> None)"

definition list_rep :: "(nat \<rightharpoonup> list_entry_s) \<Rightarrow> list_t \<Rightarrow> nat list \<Rightarrow> ptr list \<Rightarrow> bool" where
  "list_rep m l es ds \<longleftrightarrow>
     linked m l es ds \<and> distinct (nodes l es @ spares l) \<and> spares_ok m l
     \<and> numels l = length es \<and> mid l = mid_of es"

text \<open>Nothing is allocated at or above \<open>brk\<close>.\<close>

definition mem_wf :: "list_mem \<Rightarrow> bool" where
  "mem_wf h \<longleftrightarrow> (\<forall>a \<ge> brk h. entries h a = None \<and> blocks h a = None)"

lemma list_repD:
  assumes "list_rep m l es ds"
  shows "chain m None (nodes l es) None" "distinct (nodes l es)" "numels l = length es"
    "mid l = mid_of es" "head_sentinel l = Some (the (head_sentinel l))"
    "tail_sentinel l = Some (the (tail_sentinel l))" "length ds = length es" "spareelsnum l \<le> max_spare"
  using assms map_eq_imp_length_eq
  by (fastforce simp: list_rep_def linked_def spares_ok_def)+

lemma list_rep_data:
  assumes "list_rep m l es ds" and "i < length es"
  shows "\<exists>e. m (es ! i) = Some e \<and> edata e = ds ! i"
proof -
  have "map (\<lambda>a. map_option edata (m a)) es = map Some ds"
    using assms(1) by (auto simp: list_rep_def linked_def)
  then have "map (\<lambda>a. map_option edata (m a)) es ! i = map Some ds ! i" by simp
  then show ?thesis using assms list_repD(7) [OF assms(1)] by simp
qed

lemma mid_less: "es \<noteq> [] \<Longrightarrow> (length es - Suc 0) div 2 < length es"
  by (cases es) auto

lemma list_rep_mid:
  "list_rep m l es ds \<Longrightarrow> es \<noteq> [] \<Longrightarrow> mid l = Some (nodes l es ! Suc ((length es - 1) div 2))"
  by (subst list_repD(4), assumption) (simp add: mid_of_def nth_append mid_less)

subsection \<open>Finding a position\<close>

lemma half_nat: "0 < n \<Longrightarrow> n < 2 ^ 32 \<Longrightarrow> usub n 1 div 2 = (n - 1) div 2"
  by simp

lemma findpos_quarter_cases: "findpos_quarter p n \<in> {1, 2, 3, 4}"
  by (simp add: findpos_quarter_def Let_def)

lemma findpos_ok:
  assumes rep: "list_rep (entries h) l es ds" and n: "length es \<le> 2 ^ 24"
    and p: "- 1 \<le> p" "p \<le> int (length es)" "p < 2 ^ 24"
  shows "list_findpos l h p = Some (Some (nodes l es ! nat (p + 1)))"
proof -
  let ?n = "length es" and ?m = "(length es - 1) div 2"
  define N where "N = nodes l es"
  have ch: "chain (entries h) None N None" using list_repD(1) [OF rep] by (simp add: N_def)
  have len: "length N = ?n + 2" by (simp add: N_def)
  have half: "es \<noteq> [] \<Longrightarrow> 2 * (p + 1) < int ?n \<Longrightarrow> p \<le> int ?m"
    "es \<noteq> [] \<Longrightarrow> \<not> 2 * (p + 1) < int ?n \<Longrightarrow> int ?m \<le> p"
    by (cases es; simp; linarith)+
  have q: "findpos_quarter p ?n = 2 \<Longrightarrow> es \<noteq> [] \<and> p \<le> int ?m"
    "findpos_quarter p ?n = 3 \<Longrightarrow> es \<noteq> [] \<and> int ?m \<le> p"
    using findpos_x_less_half [OF p(1,3), of ?n] n p half
    by (auto simp: findpos_quarter_def Let_def split: if_splits)
  have hd: "head_sentinel l = Some (N ! 0)" and tl: "tail_sentinel l = Some (N ! Suc ?n)"
    using list_repD(5,6) [OF rep] by (simp_all add: N_def nth_append)
  have md: "es \<noteq> [] \<Longrightarrow> mid l = Some (N ! Suc ?m)" unfolding N_def by (rule list_rep_mid [OF rep])
  have fwd: "walk_next h k (Some (N ! i)) = Some (Some (N ! nat (p + 1)))"
    if "i + k = nat (p + 1)" for i k
    using walk_next_chain [OF ch, of i k] that len p by simp
  have bwd: "walk_prev h k (Some (N ! i)) = Some (Some (N ! nat (p + 1)))"
    if "i = nat (p + 1) + k" "i \<le> Suc ?n" for i k
    using walk_prev_chain [OF ch, of i k] that len by simp
  have num: "numels l = ?n" "c_int (numels l) = int ?n" using list_repD(3) [OF rep] n by simp_all
  have m: "int (usub ?n 1 div 2) = int ?m" if "es \<noteq> []" using that n by (cases es) simp_all
  consider "findpos_quarter p ?n = 1" | "findpos_quarter p ?n = 2" | "findpos_quarter p ?n = 3"
    | "findpos_quarter p ?n = 4" using findpos_quarter_cases [of p ?n] by auto
  then have "list_findpos l h p = Some (Some (N ! nat (p + 1)))"
  proof cases
    case 1
    then show ?thesis using fwd [of 0] hd p num by (simp add: list_findpos_def)
  next
    case 2
    have "walk_prev h (nat (int ?m - p)) (mid l) = Some (Some (N ! nat (p + 1)))"
      unfolding md [OF conjunct1 [OF q(1) [OF 2]]] using q(1) [OF 2] p by (intro bwd) auto
    then show ?thesis using 2 q(1) [OF 2] m p num by (simp add: list_findpos_def)
  next
    case 3
    have "walk_next h (nat (p - int ?m)) (mid l) = Some (Some (N ! nat (p + 1)))"
      unfolding md [OF conjunct1 [OF q(2) [OF 3]]] using q(2) [OF 3] p by (intro fwd) auto
    then show ?thesis using 3 q(2) [OF 3] m p num by (simp add: list_findpos_def)
  next
    case 4
    have "walk_prev h (nat (int ?n - p)) (tail_sentinel l) = Some (Some (N ! nat (p + 1)))"
      unfolding tl using p by (intro bwd) auto
    then show ?thesis using 4 p num by (simp add: list_findpos_def)
  qed
  then show ?thesis by (simp add: N_def)
qed

subsection \<open>The check of the representation succeeds\<close>

lemma rep_half_chain:
  assumes "chain (entries h) p as None" and "distinct as" and "j + k < length as"
  shows "rep_half h k i (Some (as ! j)) = Some (i + int k, Some (as ! (j + k)))"
  using assms(3)
proof (induction k arbitrary: i j)
  case (Suc k)
  then obtain e e' where "entries h (as ! j) = Some e" "enext e = Some (as ! Suc j)"
      "entries h (as ! Suc j) = Some e'" "eprev e' = Some (as ! j)"
    using chain_next [OF assms(1), of j] chain_prev [OF assms(1), of j] by auto
  then show ?case using Suc.IH [of "Suc j" "i + 1"] Suc.prems by simp
qed simp

lemma rep_rest_chain:
  assumes "chain (entries h) p as None" and "j + k + 1 = length as"
  shows "rep_rest h i (Some (as ! j)) = Some (i + int k, Some (as ! (j + k)))"
  using assms(2)
proof (induction k arbitrary: i j)
  case 0
  then obtain e where "entries h (as ! j) = Some e" "enext e = None"
    using chain_nth [OF assms(1), of j] by auto
  then show ?case by (simp add: rep_rest.simps)
next
  case (Suc k)
  then obtain e e' where "entries h (as ! j) = Some e" "enext e = Some (as ! Suc j)"
      "entries h (as ! Suc j) = Some e'" "eprev e' = Some (as ! j)"
    using chain_next [OF assms(1), of j] chain_prev [OF assms(1), of j] by auto
  then show ?case using Suc.IH [of "Suc j" "i + 1"] Suc.prems by (simp add: rep_rest.simps)
qed

lemma list_repOk_rep:
  assumes rep: "list_rep (entries h) l es ds" and n: "length es < 2 ^ 31"
  shows "list_repOk h l = Some True"
proof -
  let ?n = "length es" and ?m = "(length es - 1) div 2"
  note ch = list_repD(1) [OF rep]
  have len: "length (nodes l es) = ?n + 2" by simp
  have d: "the (head_sentinel l) \<noteq> the (tail_sentinel l)" using list_repD(2) [OF rep] by simp
  obtain eh where eh: "entries h (the (head_sentinel l)) = Some eh" "eprev eh = None"
      "enext eh = Some ((es @ [the (tail_sentinel l)]) ! 0)"
    using chain_nth [OF ch, of 0] by auto
  obtain et where et: "entries h (the (tail_sentinel l)) = Some et" "enext et = None"
      "eprev et = Some ((the (head_sentinel l) # es) ! ?n)"
    using chain_nth [OF ch, of "Suc ?n"] by (auto simp: nth_append nth_Cons')
  have empty: "es = [] \<Longrightarrow> mid l = None \<and> enext eh = tail_sentinel l \<and> eprev et = head_sentinel l"
    using eh et list_repD(4,5,6) [OF rep] by (simp add: mid_of_def)
  have half: "es \<noteq> [] \<Longrightarrow> rep_half h (Suc ?m) (- 1) (head_sentinel l) = Some (int ?m, mid l)"
    using rep_half_chain [OF ch list_repD(2) [OF rep], of 0 "Suc ?m" "- 1"] mid_less [of es]
      list_rep_mid [OF rep] list_repD(5) [OF rep] by simp
  have rest: "es \<noteq> [] \<Longrightarrow> rep_rest h (int ?m) (mid l) = Some (int ?n, tail_sentinel l)"
    using rep_rest_chain [OF ch, of "Suc ?m" "?n - ?m" "int ?m"] mid_less [of es]
      list_rep_mid [OF rep] list_repD(6) [OF rep] by (simp add: nth_append)
  have k: "nat (int (?n - 1) div 2 + 1) = Suc ?m" "int (?n - 1) div 2 = int ?m" by (simp_all add: zdiv_int)
  show ?thesis
    using list_repD(3,8) [OF rep] list_repD(5,6) [OF rep] d eh et empty half rest k n
    by (cases "es = []") (auto simp: list_repOk_def simp del: rep_half.simps)
qed

lemma assert_repOk_rep:
  "list_rep (entries h) l es ds \<Longrightarrow> length es < 2 ^ 31 \<Longrightarrow> assert_repOk h l = Some ()"
  by (simp add: assert_repOk_def assert_that_def list_repOk_rep)

end
