(* ===== verification/SimclistOps.thy ===== *)
theory SimclistOps
  imports SimclistRep
begin

section \<open>The operations on the list a heap holds\<close>

text \<open>
  Every operation of \<open>Simclist\<close> on a heap that holds a list: it returns, it changes the list as its
  name says, the representation is kept (so no assertion of the code fails), and it touches no
  entry but those of its own list.
\<close>

subsection \<open>Footprints\<close>

definition footprint :: "list_t \<Rightarrow> nat list \<Rightarrow> nat set" where
  "footprint l es = set (nodes l es) \<union> set (spares l)"

definition frame :: "nat set \<Rightarrow> list_mem \<Rightarrow> list_mem \<Rightarrow> bool" where
  "frame A h h' \<longleftrightarrow>
     brk h \<le> brk h' \<and> mem_ok h' = mem_ok h \<and> (\<forall>a < brk h. a \<notin> A \<longrightarrow> entries h' a = entries h a)"

lemma frame_refl [simp]: "frame A h h"
  by (simp add: frame_def)

lemma frame_trans: "frame A h h' \<Longrightarrow> frame B h' h'' \<Longrightarrow> B \<subseteq> A \<union> {brk h..} \<Longrightarrow> frame A h h''"
  unfolding frame_def by (metis Un_iff atLeast_iff leD order.trans order_less_le_trans subsetD)

lemma list_rep_cong:
  assumes "\<And>a. a \<in> footprint l es \<Longrightarrow> m a = m' a"
  shows "list_rep m l es ds = list_rep m' l es ds"
proof -
  have "chain m None (nodes l es) None = chain m' None (nodes l es) None"
    using assms by (intro chain_cong) (auto simp: footprint_def)
  moreover have "map (\<lambda>a. map_option edata (m a)) (nodes l es) = map (\<lambda>a. map_option edata (m' a)) (nodes l es)"
    using assms by (intro map_cong) (auto simp: footprint_def)
  moreover have "(\<forall>a \<in> set (spares l). m a \<noteq> None) = (\<forall>a \<in> set (spares l). m' a \<noteq> None)"
    using assms by (auto simp: footprint_def)
  ultimately show ?thesis by (simp only: list_rep_def linked_def spares_ok_def)
qed

lemma list_rep_upd: "a \<notin> footprint l es \<Longrightarrow> list_rep (m(a := v)) l es ds = list_rep m l es ds"
  by (rule list_rep_cong) auto

lemma list_rep_alloc: "list_rep m l es ds \<Longrightarrow> a \<in> footprint l es \<Longrightarrow> m a \<noteq> None"
  using chain_alloc [OF list_repD(1)] by (auto simp: footprint_def list_rep_def spares_ok_def)

lemma footprint_below: "list_rep (entries h) l es ds \<Longrightarrow> mem_wf h \<Longrightarrow> a \<in> footprint l es \<Longrightarrow> a < brk h"
  using list_rep_alloc [of "entries h" l es ds a] by (fastforce simp: mem_wf_def linorder_not_less [symmetric])

lemma list_rep_frame:
  assumes "list_rep (entries h) l es ds" and "mem_wf h" and "frame A h h'" and "A \<inter> footprint l es = {}"
  shows "list_rep (entries h') l es ds"
  using assms footprint_below [OF assms(1,2)] list_rep_cong [of l es "entries h'" "entries h" ds]
  by (auto simp: frame_def)

lemma linked_chain: "linked m l es ds \<Longrightarrow> chain m None (nodes l es) None"
  unfolding linked_def by blast

lemma linked_fields:
  "head_sentinel l = head_sentinel l' \<Longrightarrow> tail_sentinel l = tail_sentinel l' \<Longrightarrow>
   linked m l es ds = linked m l' es ds"
  by (simp add: linked_def)

text \<open>Fields of the list that the entries do not depend on.\<close>

lemma list_rep_iter [simp]:
  "list_rep m (l\<lparr>iter_active := b\<rparr>) es ds = list_rep m l es ds"
  "list_rep m (l\<lparr>iter_pos := n\<rparr>) es ds = list_rep m l es ds"
  "list_rep m (l\<lparr>iter_curentry := p\<rparr>) es ds = list_rep m l es ds"
  "list_rep m (l\<lparr>attrs := a\<rparr>) es ds = list_rep m l es ds"
  by (simp_all add: list_rep_def linked_def spares_ok_def spares_def)

subsection \<open>Linking an entry in\<close>

lemma link_entry_between:
  assumes "entries h a = Some ea" "enext ea = Some b" "entries h b = Some eb" "entries h x = Some ex"
    and "a \<noteq> b" "x \<noteq> a" "x \<noteq> b"
  shows "link_entry h (Some a) (Some x) =
    Some (h\<lparr>entries := (entries h)(a \<mapsto> ea\<lparr>enext := Some x\<rparr>, x \<mapsto> ex\<lparr>eprev := Some a, enext := Some b\<rparr>,
                                    b \<mapsto> eb\<lparr>eprev := Some x\<rparr>)\<rparr>)"
  using assms by (simp add: link_entry_def set_next_def set_prev_def fun_upd_twist)

lemma chain_link:
  assumes "chain m p (as @ a # b # bs) q" and "distinct (as @ a # b # bs)" and "x \<notin> set (as @ a # b # bs)"
    and "m a = Some ea" "m b = Some eb"
  shows "chain (m(a \<mapsto> ea\<lparr>enext := Some x\<rparr>, x \<mapsto> ex\<lparr>eprev := Some a, enext := Some b\<rparr>,
                  b \<mapsto> eb\<lparr>eprev := Some x\<rparr>)) p (as @ a # x # b # bs) q"
  using assms by (auto intro: exI [of _ "edata ex"])

lemma list_split_at2:
  assumes "Suc k < length xs"
  obtains as a b bs where "xs = as @ a # b # bs" "length as = k" "a = xs ! k" "b = xs ! Suc k"
  using assms by (metis Cons_nth_drop_Suc Suc_lessD id_take_nth_drop length_take min.absorb2 less_imp_le)

abbreviation put_at :: "nat \<Rightarrow> 'a \<Rightarrow> 'a list \<Rightarrow> 'a list" where
  "put_at pos x xs \<equiv> take pos xs @ x # drop pos xs"

lemma set_put_at: "set (put_at pos x xs) = insert x (set xs)"
proof -
  have "set (as @ x # bs) = insert x (set (as @ bs))" for as bs by auto
  then show ?thesis by (simp only: append_take_drop_id)
qed

lemma distinct_put_at: "distinct (put_at pos x xs) \<longleftrightarrow> x \<notin> set xs \<and> distinct xs"
proof -
  have "distinct (as @ x # bs) \<longleftrightarrow> x \<notin> set (as @ bs) \<and> distinct (as @ bs)" for as bs by auto
  then show ?thesis by (simp only: append_take_drop_id)
qed

lemma map_put_at: "map f (put_at pos x xs) = put_at pos (f x) (map f xs)"
  by (simp add: take_map drop_map)

lemma nodes_put_at: "pos \<le> length es \<Longrightarrow> nodes l (put_at pos x es) = put_at (Suc pos) x (nodes l es)"
  by simp

lemma linked_link:
  assumes lk: "linked (entries h) l es ds" and d: "distinct (nodes l es)" and x: "x \<notin> set (nodes l es)"
    and ex: "entries h x = Some ex" and pos: "pos \<le> length es"
  obtains m' where "link_entry h (Some (nodes l es ! pos)) (Some x) = Some (h\<lparr>entries := m'\<rparr>)"
    "linked m' l (put_at pos x es) (put_at pos (edata ex) ds)"
    "\<And>a. a \<noteq> x \<Longrightarrow> a \<notin> set (nodes l es) \<Longrightarrow> m' a = entries h a" "m' x \<noteq> None"
proof -
  let ?m = "entries h" and ?ns = "nodes l es"
  have "Suc pos < length ?ns" using pos by simp
  then obtain as a b bs where ns: "?ns = as @ a # b # bs" "length as = pos" "a = ?ns ! pos" "b = ?ns ! Suc pos"
    by (rule list_split_at2)
  have ch: "chain ?m None ?ns None" using lk unfolding linked_def by blast
  obtain ea where ea: "?m a = Some ea" "enext ea = Some b" using ch unfolding ns(1) by auto
  obtain eb where eb: "?m b = Some eb" using ch unfolding ns(1) by auto
  have ab: "a \<noteq> b" "x \<noteq> a" "x \<noteq> b" using d x unfolding ns(1) by auto
  define m' where "m' = ?m(a \<mapsto> ea\<lparr>enext := Some x\<rparr>, x \<mapsto> ex\<lparr>eprev := Some a, enext := Some b\<rparr>,
                          b \<mapsto> eb\<lparr>eprev := Some x\<rparr>)"
  have put: "put_at (Suc pos) x ?ns = as @ a # x # b # bs" unfolding ns(1) using ns(2) by simp
  have "chain m' None (as @ a # x # b # bs) None"
    unfolding m'_def using ch d x ea eb unfolding ns(1) by (intro chain_link) auto
  then have ch': "chain m' None (nodes l (put_at pos x es)) None"
    unfolding nodes_put_at [OF pos] put .
  have data_same: "map_option edata (m' c) = map_option edata (?m c)" if "c \<noteq> x" for c
    using that ea eb by (simp add: m'_def)
  have data_x: "map_option edata (m' x) = Some (edata ex)" using ab by (simp add: m'_def)
  have old: "map (\<lambda>a. map_option edata (?m a)) ?ns = map Some (None # ds @ [None])"
    using lk unfolding linked_def by blast
  have len: "length ds = length es" using map_eq_imp_length_eq [OF old] by simp
  have same: "map (\<lambda>a. map_option edata (m' a)) ?ns = map (\<lambda>a. map_option edata (?m a)) ?ns"
    using x by (intro map_cong refl data_same) blast
  have "map (\<lambda>a. map_option edata (m' a)) (put_at (Suc pos) x ?ns) =
        put_at (Suc pos) (Some (edata ex)) (map Some (None # ds @ [None]))"
    using same old data_x by (simp only: map_put_at)
  also have "\<dots> = map Some (None # put_at pos (edata ex) ds @ [None])"
    using len pos by (simp add: take_map drop_map)
  finally have k2: "linked m' l (put_at pos x es) (put_at pos (edata ex) ds)"
    using lk ch' unfolding linked_def nodes_put_at [OF pos] by simp
  have k1: "link_entry h (Some (?ns ! pos)) (Some x) = Some (h\<lparr>entries := m'\<rparr>)"
    unfolding m'_def ns(3) [symmetric] by (rule link_entry_between [OF ea eb ex ab])
  have k3: "m' c = ?m c" if "c \<noteq> x" "c \<notin> set ?ns" for c
    using that unfolding ns(1) by (simp add: m'_def)
  have k4: "m' x \<noteq> None" using ab by (simp add: m'_def)
  show thesis by (rule that [OF k1 k2 k3 k4])
qed

text \<open>The neighbours of an element are elements.\<close>

lemma nodes_next:
  assumes "chain m None (nodes l es) None" and "Suc i < length es"
  shows "\<exists>e. m (es ! i) = Some e \<and> enext e = Some (es ! Suc i)"
  using chain_next [OF assms(1), of "Suc i"] assms(2) by (simp add: nth_append)

lemma nodes_prev:
  assumes "chain m None (nodes l es) None" and "Suc i < length es"
  shows "\<exists>e. m (es ! Suc i) = Some e \<and> eprev e = Some (es ! i)"
  using chain_prev [OF assms(1), of "Suc i"] assms(2) by (simp add: nth_append)

lemma put_at_nth:
  "i < length es \<Longrightarrow> pos \<le> length es \<Longrightarrow> put_at pos x es ! (if i < pos then i else Suc i) = es ! i"
  by (simp add: nth_append min_def)

lemma mid_insert_ok:
  assumes ch: "chain (entries h) None (nodes l (put_at pos x es)) None"
    and mid: "mid l = mid_of es" and num: "numels l = length es + 1" and n: "length es < 2 ^ 31"
    and pos: "pos \<le> length es"
  shows "mid_after_insert l h (Some x) pos = Some (mid_of (put_at pos x es))"
proof (cases "es = []")
  case True
  then show ?thesis using num by (simp add: mid_after_insert_def mid_of_def)
next
  case False
  let ?k = "(length es - 1) div 2" and ?es' = "put_at pos x es"
  have k: "?k < length es" using False by (cases es) auto
  have len: "length ?es' = length es + 1" using pos by simp
  have half: "usub (numels l) 1 div 2 = length es div 2" using num n by simp
  have old: "mid l = Some (?es' ! (if ?k < pos then ?k else Suc ?k))"
    unfolding put_at_nth [OF k pos] using mid False by (simp add: mid_of_def)
  have new: "mid_of ?es' = Some (?es' ! (length es div 2))" using len by (simp add: mid_of_def)
  show ?thesis
  proof (cases "even (length es)")
    case True
    then have odd: "numels l \<noteq> 1" "numels l mod 2 \<noteq> 0" and d: "length es div 2 = Suc ?k"
      using num k by presburger+
    show ?thesis
    proof (cases "pos \<ge> length es div 2")
      case True
      then obtain e where "entries h (?es' ! ?k) = Some e" "enext e = Some (?es' ! Suc ?k)"
        using nodes_next [OF ch, of ?k] d k len by auto
      moreover have "mid l = Some (?es' ! ?k)" using old True d by simp
      ultimately show ?thesis using odd half True d new by (simp add: mid_after_insert_def)
    next
      case False
      then have "mid l = Some (?es' ! Suc ?k)" using old d by simp
      then show ?thesis using odd half False d new by (simp add: mid_after_insert_def)
    qed
  next
    case False
    then have even: "numels l \<noteq> 1" "\<not> numels l mod 2 \<noteq> 0" and d: "length es div 2 = ?k"
      using num by (auto elim!: oddE)
    show ?thesis
    proof (cases "pos \<le> length es div 2")
      case True
      then obtain e where "entries h (?es' ! Suc ?k) = Some e" "eprev e = Some (?es' ! ?k)"
        using nodes_prev [OF ch, of ?k] d k len by auto
      moreover have "mid l = Some (?es' ! Suc ?k)" using old True d by simp
      ultimately show ?thesis using even half True d new by (simp add: mid_after_insert_def)
    next
      case False
      then have "mid l = Some (?es' ! ?k)" using old d by simp
      then show ?thesis using even half False d new by (simp add: mid_after_insert_def)
    qed
  qed
qed

subsection \<open>The entry to link in\<close>

definition has_room :: "list_t \<Rightarrow> list_mem \<Rightarrow> bool" where
  "has_room l h \<longleftrightarrow> spareelsnum l > 0 \<or> mem_ok h (brk h)"

lemma spares_pop:
  assumes "spares_ok m l" and "spareelsnum l = Suc k"
  obtains x where "spareels l ! k = Some x" "spares l = spares (l\<lparr>spareelsnum := k\<rparr>) @ [x]"
    "spares_ok m (l\<lparr>spareelsnum := k\<rparr>)" "k < length (spareels l)"
proof -
  have k: "k < length (spareels l)" and t: "take (Suc k) (spareels l) = take k (spareels l) @ [spareels l ! k]"
    using assms by (auto simp: spares_ok_def take_Suc_conv_app_nth)
  then obtain x where x: "spareels l ! k = Some x"
    using assms by (cases "spareels l ! k") (auto simp: spares_ok_def)
  show thesis
  proof (rule that [OF x _ _ k])
    show s: "spares l = spares (l\<lparr>spareelsnum := k\<rparr>) @ [x]" using assms t x by (simp add: spares_def)
    show "spares_ok m (l\<lparr>spareelsnum := k\<rparr>)" using assms t s by (auto simp: spares_ok_def)
  qed
qed

lemma new_entry_ok:
  assumes rep: "list_rep (entries h) l es ds" and wf: "mem_wf h" and room: "has_room l h"
  obtains x l1 h1 where "new_entry l h = Some (Some x, l1, h1)" "list_rep (entries h1) l1 es ds"
    "x \<notin> footprint l1 es" "entries h1 x \<noteq> None" "mem_wf h1" "frame {} h h1" "blocks h1 = blocks h"
    "insert x (footprint l1 es) = insert x (footprint l es)" "x \<in> footprint l es \<or> brk h \<le> x"
    "\<And>a. a \<noteq> x \<Longrightarrow> entries h1 a = entries h a" "l1 = l\<lparr>spareelsnum := spareelsnum l1\<rparr>"
proof (cases "spareelsnum l")
  case (Suc k)
  have sp: "spares_ok (entries h) l" using rep by (simp add: list_rep_def)
  obtain x where x: "spareels l ! k = Some x" "spares l = spares (l\<lparr>spareelsnum := k\<rparr>) @ [x]"
      "spares_ok (entries h) (l\<lparr>spareelsnum := k\<rparr>)" "k < length (spareels l)"
    by (rule spares_pop [OF sp Suc])
  have "list_rep (entries h) (l\<lparr>spareelsnum := k\<rparr>) es ds" and "x \<notin> footprint (l\<lparr>spareelsnum := k\<rparr>) es"
    and "insert x (footprint (l\<lparr>spareelsnum := k\<rparr>) es) = insert x (footprint l es)" and "x \<in> footprint l es"
    using rep x(2,3) by (auto simp: list_rep_def linked_def footprint_def)
  moreover have "entries h x \<noteq> None" using sp x(2) by (auto simp: spares_ok_def)
  moreover have "new_entry l h = Some (Some x, l\<lparr>spareelsnum := k\<rparr>, h)"
    using Suc x(1,4) by (simp add: new_entry_def)
  ultimately show thesis using wf by (intro that [of x "l\<lparr>spareelsnum := k\<rparr>" h]) auto
next
  case 0
  define h1 where "h1 = snd (malloc_entry h)"
  have ok: "mem_ok h (brk h)" using 0 room by (simp add: has_room_def)
  have fresh: "brk h \<notin> footprint l es" using footprint_below [OF rep wf] by blast
  have fr: "frame {} h h1" using ok by (simp add: h1_def malloc_entry_def frame_def)
  have rep1: "list_rep (entries h1) l es ds" by (rule list_rep_frame [OF rep wf fr]) simp
  show thesis
    using 0 ok wf fr rep1 fresh
    by (intro that [of "brk h" l h1]) (auto simp: new_entry_def h1_def malloc_entry_def mem_wf_def)
qed

subsection \<open>The array of spare entries\<close>

text \<open>Only creating and destroying a list touches the arrays of the heap; every other step keeps them and
  the address of the list's own.\<close>

named_theorems keeps_arrays \<open>the arrays stay\<close>

lemma put_entry_arrays [keeps_arrays]: "put_entry h p f = Some h' \<Longrightarrow> arrays h' = arrays h"
  by (auto simp: put_entry_def bind_eq_Some_conv split: option.splits)

lemma set_arrays [keeps_arrays]:
  "set_edata h p v = Some h' \<Longrightarrow> arrays h' = arrays h"
  "set_next h p v = Some h' \<Longrightarrow> arrays h' = arrays h"
  "set_prev h p v = Some h' \<Longrightarrow> arrays h' = arrays h"
  by (auto simp: set_edata_def set_next_def set_prev_def dest: put_entry_arrays)

lemma free_arrays [keeps_arrays]:
  "free_entry h p = Some h' \<Longrightarrow> arrays h' = arrays h"
  "free_block h p = Some h' \<Longrightarrow> arrays h' = arrays h"
  by (auto simp: free_entry_def free_block_def split: option.splits if_splits)

lemma malloc_arrays [keeps_arrays]:
  "malloc_entry h = (p, h') \<Longrightarrow> arrays h' = arrays h"
  "malloc_block h b = (p, h') \<Longrightarrow> arrays h' = arrays h"
  by (auto simp: malloc_entry_def malloc_block_def split: if_splits)

lemma new_entry_arrays [keeps_arrays]:
  "new_entry l h = Some (p, l', h') \<Longrightarrow> arrays h' = arrays h \<and> spare_array l' = spare_array l \<and> attrs l' = attrs l"
  by (auto simp: new_entry_def Let_def split: if_splits prod.splits dest: keeps_arrays)

lemma copy_of_arrays [keeps_arrays]: "copy_of l h d = Some (p, h') \<Longrightarrow> arrays h' = arrays h"
  by (auto simp: copy_of_def bind_eq_Some_conv Let_def split: if_splits prod.splits dest: keeps_arrays)

lemma link_entry_arrays [keeps_arrays]: "link_entry h p q = Some h' \<Longrightarrow> arrays h' = arrays h"
  by (auto simp: link_entry_def bind_eq_Some_conv Let_def dest!: keeps_arrays)

lemma list_insert_at_arrays:
  assumes "list_insert_at l h d pos = Some (r, l', h')"
  shows "arrays h' = arrays h \<and> spare_array l' = spare_array l"
proof -
  have "arrays h' = arrays h \<and> spare_array l' = spare_array l"
    if "\<not> (iter_active l \<or> numels l < pos)"
    using assms that
    by (auto simp: list_insert_at_def bind_eq_Some_conv Let_def split: if_splits dest!: keeps_arrays)
  then show ?thesis using assms by (cases "iter_active l \<or> numels l < pos") (auto simp: list_insert_at_def)
qed

subsection \<open>The data to store\<close>

text \<open>
  Without \<open>copy_data\<close> the entry holds the user's pointer. With it, the entry holds a pointer to a
  new block with the first bytes of the user's data, as many as the meter says.
\<close>

definition storable :: "list_t \<Rightarrow> list_mem \<Rightarrow> ptr \<Rightarrow> bool" where
  "storable l h d \<longleftrightarrow> copy_data (attrs l) = 0 \<or>
     (\<exists>f n a src. meter (attrs l) = Some f \<and> d = Some a \<and> f (blocks h) d = Some n \<and> blocks h a = Some src
        \<and> n \<le> length src \<and> (\<forall>i. mem_ok h i))"

definition stored_as :: "list_t \<Rightarrow> list_mem \<Rightarrow> ptr \<Rightarrow> ptr \<Rightarrow> list_mem \<Rightarrow> bool" where
  "stored_as l h d p h' \<longleftrightarrow>
     (if copy_data (attrs l) = 0 then p = d \<and> blocks h' = blocks h
      else \<exists>b n src. p = Some b \<and> brk h \<le> b \<and> Option.bind (meter (attrs l)) (\<lambda>f. f (blocks h) d) = Some n
             \<and> Option.bind d (blocks h) = Some src \<and> blocks h' = (blocks h)(b \<mapsto> take n src))"

lemma stored_as_blocks: "stored_as l h d p h' \<Longrightarrow> blocks h'' = blocks h' \<Longrightarrow> stored_as l h d p h''"
  unfolding stored_as_def by presburger

lemma store_ok:
  assumes "storable l h d" and "attrs l1 = attrs l" and "blocks h1 = blocks h" and "mem_wf h1" and "frame A h h1"
  obtains p h2 where
    "(if copy_data (attrs l1) \<noteq> 0 then copy_of l1 h1 d else Some (d, h1)) = Some (p, h2)"
    "entries h2 = entries h1" "mem_wf h2" "frame {} h1 h2" "stored_as l h d p h2"
proof (cases "copy_data (attrs l) = 0")
  case True
  then show thesis using assms by (intro that [of d h1]) (auto simp: stored_as_def)
next
  case False
  then obtain f n a src where f: "meter (attrs l) = Some f" "d = Some a" "f (blocks h) d = Some n"
      "blocks h a = Some src" "n \<le> length src" "\<forall>i. mem_ok h i"
    using assms(1) by (auto simp: storable_def)
  show thesis
    using False assms f
    by (intro that [of "Some (brk h1)" "snd (malloc_block h1 (take n src))"])
      (auto simp: copy_of_def malloc_block_def mem_wf_def frame_def stored_as_def)
qed

subsection \<open>Insertion\<close>

lemma set_edata_ok:
  assumes "entries h x = Some e"
  shows "set_edata h (Some x) p = Some (h\<lparr>entries := (entries h)(x \<mapsto> e\<lparr>edata := p\<rparr>)\<rparr>)"
  using assms by (simp add: set_edata_def)

lemma link_list_rep:
  assumes rep: "list_rep (entries h) l es ds" and x: "x \<notin> footprint l es" and xe: "entries h x = Some e"
    and pos: "pos \<le> length es" and n: "length es < 2 ^ 31"
  defines "es' \<equiv> put_at pos x es"
  obtains m where "link_entry h (Some (nodes l es ! pos)) (Some x) = Some (h\<lparr>entries := m\<rparr>)"
    "mid_after_insert (l\<lparr>numels := length es'\<rparr>) (h\<lparr>entries := m\<rparr>) (Some x) pos = Some (mid_of es')"
    "list_rep m (l\<lparr>numels := length es', mid := mid_of es'\<rparr>) es' (put_at pos (edata e) ds)"
    "footprint (l\<lparr>numels := length es', mid := mid_of es'\<rparr>) es' = insert x (footprint l es)"
    "\<And>a. a \<noteq> x \<Longrightarrow> a \<notin> footprint l es \<Longrightarrow> m a = entries h a"
proof -
  have lk: "linked (entries h) l es ds" and sp: "spares_ok (entries h) l" and dist0: "distinct (nodes l es @ spares l)"
    using rep unfolding list_rep_def by blast+
  have xn: "x \<notin> set (nodes l es)" "x \<notin> set (spares l)" using x unfolding footprint_def by blast+
  obtain m where m: "link_entry h (Some (nodes l es ! pos)) (Some x) = Some (h\<lparr>entries := m\<rparr>)"
    "linked m l es' (put_at pos (edata e) ds)"
    "\<And>a. a \<noteq> x \<Longrightarrow> a \<notin> set (nodes l es) \<Longrightarrow> m a = entries h a" "m x \<noteq> None"
    unfolding es'_def by (rule linked_link [OF lk list_repD(2) [OF rep] xn(1) xe pos]) blast
  define l' where "l' = l\<lparr>numels := length es', mid := mid_of es'\<rparr>"
  have fields: "head_sentinel l' = head_sentinel l" "tail_sentinel l' = tail_sentinel l" "spares l' = spares l"
    by (simp_all add: l'_def spares_def)
  have ns: "nodes l' es' = put_at (Suc pos) x (nodes l es)"
    using nodes_put_at [OF pos, of l] fields by (simp add: es'_def)
  have set_ns: "set (nodes l' es') = insert x (set (nodes l es))" unfolding ns by (rule set_put_at)
  have foot: "footprint l' es' = insert x (footprint l es)"
    unfolding footprint_def set_ns fields(3) by blast
  have "distinct (nodes l' es')" unfolding ns distinct_put_at using xn(1) dist0 by simp
  then have dist: "distinct (nodes l' es' @ spares l')"
    using dist0 xn(2) unfolding distinct_append set_ns fields(3) by blast
  have "m a \<noteq> None" if a: "a \<in> set (spares l)" for a
  proof -
    have "a \<noteq> x" "a \<notin> set (nodes l es)" using a xn(2) dist0 unfolding distinct_append by blast+
    then show ?thesis using m(3) sp a by (simp add: spares_ok_def)
  qed
  then have "spares_ok m l'" using sp fields unfolding spares_ok_def by (simp add: l'_def)
  then have rep': "list_rep m l' es' (put_at pos (edata e) ds)"
    using m(2) dist fields linked_fields [of l l'] by (simp add: list_rep_def l'_def)
  have "mid_after_insert (l\<lparr>numels := length es'\<rparr>) (h\<lparr>entries := m\<rparr>) (Some x) pos = Some (mid_of es')"
    unfolding es'_def
    by (rule mid_insert_ok)
      (use linked_chain [OF m(2)] list_repD(4) [OF rep] n pos in \<open>simp_all add: es'_def\<close>)
  moreover have "m a = entries h a" if "a \<noteq> x" "a \<notin> footprint l es" for a
    using that m(3) unfolding footprint_def by blast
  ultimately show thesis using m(1) rep' foot by (intro that [of m]) (simp_all only: l'_def)
qed

lemma list_insert_at_ok:
  assumes rep: "list_rep (entries h) l es ds" and wf: "mem_wf h" and it: "\<not> iter_active l"
    and pos: "pos \<le> length es" and n: "length es \<le> 2 ^ 24" and room: "has_room l h" and st: "storable l h d"
  obtains x p l' h' where "list_insert_at l h d pos = Some (1, l', h')"
    "list_rep (entries h') l' (put_at pos x es) (put_at pos p ds)" "stored_as l h d p h'" "mem_wf h'"
    "frame (footprint l es) h h'" "footprint l' (put_at pos x es) = insert x (footprint l es)"
    "x \<in> footprint l es \<or> brk h \<le> x" "\<And>a. a \<notin> insert x (footprint l es) \<Longrightarrow> entries h' a = entries h a"
    "attrs l' = attrs l" "\<not> iter_active l'"
proof -
  obtain x l1 h1 where ne: "new_entry l h = Some (Some x, l1, h1)" "list_rep (entries h1) l1 es ds"
    "x \<notin> footprint l1 es" "entries h1 x \<noteq> None" "mem_wf h1" "frame {} h h1" "blocks h1 = blocks h"
    "insert x (footprint l1 es) = insert x (footprint l es)" "x \<in> footprint l es \<or> brk h \<le> x"
    "\<And>a. a \<noteq> x \<Longrightarrow> entries h1 a = entries h a" "l1 = l\<lparr>spareelsnum := spareelsnum l1\<rparr>"
    by (rule new_entry_ok [OF rep wf room]) blast
  have l1: "attrs l1 = attrs l" "iter_active l1 = iter_active l" "numels l1 = length es"
    using list_repD(3) [OF rep] by (subst ne(11), simp)+
  obtain p h2 where cp: "(if copy_data (attrs l1) \<noteq> 0 then copy_of l1 h1 d else Some (d, h1)) = Some (p, h2)"
    "entries h2 = entries h1" "mem_wf h2" "frame {} h1 h2" "stored_as l h d p h2"
    by (rule store_ok [OF st l1(1) ne(7,5,6)])
  obtain e where e: "entries h2 x = Some e" using ne(4) cp(2) by auto
  define h3 where "h3 = h2\<lparr>entries := (entries h2)(x \<mapsto> e\<lparr>edata := p\<rparr>)\<rparr>"
  have rep3: "list_rep (entries h3) l1 es ds" using ne(2,3) cp(2) by (simp add: h3_def list_rep_upd)
  have fp: "list_findpos l1 h3 (c_int (usub pos 1)) = Some (Some (nodes l1 es ! pos))"
    using findpos_ok [OF rep3, of "int pos - 1"] n pos c_int_pred [of pos] by simp
  have xe: "entries h3 x = Some (e\<lparr>edata := p\<rparr>)" and n': "length es < 2 ^ 31" using n by (simp_all add: h3_def)
  define es' where "es' = put_at pos x es"
  define l3 where "l3 = l1\<lparr>numels := length es', mid := mid_of es'\<rparr>"
  obtain m where m: "link_entry h3 (Some (nodes l1 es ! pos)) (Some x) = Some (h3\<lparr>entries := m\<rparr>)"
    "mid_after_insert (l1\<lparr>numels := length es'\<rparr>) (h3\<lparr>entries := m\<rparr>) (Some x) pos = Some (mid_of es')"
    "list_rep m l3 es' (put_at pos p ds)" "footprint l3 es' = insert x (footprint l1 es)"
    "\<And>a. a \<noteq> x \<Longrightarrow> a \<notin> footprint l1 es \<Longrightarrow> m a = entries h3 a"
    using link_list_rep [OF rep3 ne(3) xe pos n'] unfolding es'_def l3_def by auto
  define h4 where "h4 = h3\<lparr>entries := m\<rparr>"
  have num: "(numels l1 + 1) mod 2 ^ 32 = length es'" "length es' < 2 ^ 31" using l1 n pos by (simp_all add: es'_def)
  have rep4: "list_rep (entries h4) l3 es' (put_at pos p ds)" using m(3) by (simp add: h4_def)
  have fr2: "frame (footprint l es) h h2"
    using ne(6) cp(4) frame_trans [OF ne(6) cp(4)] by (auto simp: frame_def)
  have other: "entries h4 a = entries h a" if "a \<notin> insert x (footprint l es)" for a
  proof -
    have "a \<noteq> x" "a \<notin> footprint l1 es" using that ne(8) by auto
    then show ?thesis using m(5) ne(10) cp(2) by (simp add: h4_def h3_def)
  qed
  have fr4: "frame (footprint l es) h h4"
    unfolding frame_def
  proof (intro conjI allI impI)
    fix a assume a: "a < brk h" "a \<notin> footprint l es"
    then have "a \<notin> insert x (footprint l es)" using ne(9) by auto
    then show "entries h4 a = entries h a" by (rule other)
  qed (use fr2 in \<open>simp_all add: h4_def h3_def frame_def\<close>)
  have wf4: "mem_wf h4"
    unfolding mem_wf_def
  proof (intro allI impI)
    fix a assume a: "brk h4 \<le> a"
    then have none: "entries h2 a = None" "blocks h4 a = None" using cp(3) by (auto simp: h4_def h3_def mem_wf_def)
    have "a \<noteq> x" using e none by auto
    moreover have "a \<notin> footprint l1 es" using none list_rep_alloc [OF rep3, of a] \<open>a \<noteq> x\<close> by (auto simp: h3_def)
    ultimately show "entries h4 a = None \<and> blocks h4 a = None" using m(5) none by (simp add: h4_def h3_def)
  qed
  have "list_insert_at l h d pos = Some (1, l3, h4)"
    using it pos list_repD(3) [OF rep] ne(1) cp(1) set_edata_ok [OF e, of p] fp m(1,2) num(1)
      assert_repOk_rep [OF rep4 num(2)]
    by (simp add: list_insert_at_def h3_def [symmetric] h4_def [symmetric] l3_def)
  moreover have "stored_as l h d p h4" using cp(5) by (rule stored_as_blocks) (simp add: h4_def h3_def)
  ultimately show thesis
    using wf4 fr4 l1 it ne(8,9) rep4 m(4) other
    by (intro that [of l3 h4 x p]) (simp_all only: es'_def, simp_all add: l3_def)
qed

end
