(* ===== verification/SimclistRemove.thy ===== *)
theory SimclistRemove
  imports SimclistOps
begin

section \<open>Removing from the list a heap holds\<close>

text \<open>
  The operations of \<open>simclist.c\<close> that take entries out of a list: one at a position, a range, all of
  them. An entry that leaves becomes a spare one or is freed, and with \<open>copy_data\<close> so is the block
  it points to.
\<close>

subsection \<open>Unlinking an entry\<close>

abbreviation cut_at :: "nat \<Rightarrow> 'a list \<Rightarrow> 'a list" where
  "cut_at pos xs \<equiv> take pos xs @ drop (Suc pos) xs"

lemma cut_at_nth:
  "pos < length xs \<Longrightarrow> i < length xs - 1 \<Longrightarrow> cut_at pos xs ! i = xs ! (if i < pos then i else Suc i)"
  by (simp add: nth_append min_def)

lemma cut_at_update: "cut_at pos (xs[pos := x]) = cut_at pos xs"
  by (simp add: drop_update_swap)

lemma map_cut_at: "map f (cut_at pos xs) = cut_at pos (map f xs)"
  by (simp add: take_map drop_map)

lemma nodes_cut_at: "pos < length es \<Longrightarrow> nodes l (cut_at pos es) = cut_at (Suc pos) (nodes l es)"
  by simp

lemma cut_at_split:
  assumes "pos < length xs"
  shows "set xs = insert (xs ! pos) (set (cut_at pos xs))"
    and "distinct xs \<Longrightarrow> distinct (cut_at pos xs) \<and> xs ! pos \<notin> set (cut_at pos xs)"
proof -
  have "set (as @ x # bs) = insert x (set (as @ bs))"
    and "distinct (as @ x # bs) \<Longrightarrow> distinct (as @ bs) \<and> x \<notin> set (as @ bs)" for as bs and x :: 'a by auto
  from this [of "take pos xs" "xs ! pos" "drop (Suc pos) xs"]
  show "set xs = insert (xs ! pos) (set (cut_at pos xs))"
    and "distinct xs \<Longrightarrow> distinct (cut_at pos xs) \<and> xs ! pos \<notin> set (cut_at pos xs)"
    unfolding id_take_nth_drop [OF assms, symmetric] by blast+
qed

lemma chain_unlink:
  assumes "chain m p (as @ a # x # b # bs) q" and "distinct (as @ a # x # b # bs)"
    and "m a = Some ea" "m b = Some eb"
  shows "chain (m(a \<mapsto> ea\<lparr>enext := Some b\<rparr>, b \<mapsto> eb\<lparr>eprev := Some a\<rparr>)) p (as @ a # b # bs) q"
  using assms by auto

lemma list_split_at3:
  assumes "Suc (Suc k) < length xs"
  obtains as a x b bs where "xs = as @ a # x # b # bs" "length as = k" "x = xs ! Suc k"
proof -
  obtain as a x cs where x: "xs = as @ a # x # cs" "length as = k" "x = xs ! Suc k"
    using list_split_at2 [of k xs] assms by (metis Suc_lessD)
  have "length xs = length (as @ a # x # cs)" by (rule arg_cong [OF x(1)])
  then have "length cs \<noteq> 0" using x(2) assms by simp
  then obtain b bs where "cs = b # bs" by (cases cs) auto
  then show thesis using x that by blast
qed

lemma linked_unlink:
  assumes lk: "linked (entries h) l es ds" and d: "distinct (nodes l es)" and pos: "pos < length es"
  obtains m where "unlink_entry h (Some (es ! pos)) = Some (h\<lparr>entries := m\<rparr>)"
    "linked m l (cut_at pos es) (cut_at pos ds)" "\<And>a. a \<notin> set (nodes l es) \<Longrightarrow> m a = entries h a"
    "m (es ! pos) = entries h (es ! pos)"
proof -
  let ?m = "entries h" and ?ns = "nodes l es"
  have "Suc (Suc pos) < length ?ns" using pos by simp
  then obtain as a x b bs where ns: "?ns = as @ a # x # b # bs" "length as = pos" "x = ?ns ! Suc pos"
    by (rule list_split_at3)
  have x: "x = es ! pos" using ns(3) pos by (simp add: nth_append)
  note ch = linked_chain [OF lk]
  obtain ea where ea: "?m a = Some ea" using ch unfolding ns(1) by auto
  obtain eb where eb: "?m b = Some eb" using ch unfolding ns(1) by auto
  obtain ex where ex: "?m x = Some ex" "enext ex = Some b" "eprev ex = Some a" using ch unfolding ns(1) by auto
  have ab: "a \<noteq> b" "x \<noteq> a" "x \<noteq> b" using d unfolding ns(1) by auto
  define m where "m = ?m(a \<mapsto> ea\<lparr>enext := Some b\<rparr>, b \<mapsto> eb\<lparr>eprev := Some a\<rparr>)"
  have cut: "cut_at (Suc pos) ?ns = as @ a # b # bs" unfolding ns(1) using ns(2) by simp
  have ch': "chain m None (nodes l (cut_at pos es)) None"
    unfolding nodes_cut_at [OF pos] cut m_def using ch d ea eb unfolding ns(1) by (rule chain_unlink)
  have data_same: "map_option edata (m c) = map_option edata (?m c)" for c using ea eb by (simp add: m_def)
  have old: "map (\<lambda>a. map_option edata (?m a)) ?ns = map Some (None # ds @ [None])"
    using lk unfolding linked_def by blast
  have len: "length ds = length es" using map_eq_imp_length_eq [OF old] by simp
  have "map (\<lambda>a. map_option edata (m a)) (cut_at (Suc pos) ?ns) = cut_at (Suc pos) (map Some (None # ds @ [None]))"
    using old by (simp only: data_same map_cut_at)
  also have "\<dots> = map Some (None # cut_at pos ds @ [None])" using len pos by (simp add: take_map drop_map)
  finally have k2: "linked m l (cut_at pos es) (cut_at pos ds)"
    using lk ch' unfolding linked_def nodes_cut_at [OF pos] by simp
  have k1: "unlink_entry h (Some (es ! pos)) = Some (h\<lparr>entries := m\<rparr>)"
    using ea eb ex ab unfolding x [symmetric] by (simp add: unlink_entry_def set_next_def set_prev_def m_def)
  have k3: "m c = ?m c" if "c \<notin> set ?ns" for c using that unfolding ns(1) by (simp add: m_def)
  have k4: "m (es ! pos) = ?m (es ! pos)" using ab unfolding x [symmetric] by (simp add: m_def)
  show thesis by (rule that [OF k1 k2 k3 k4])
qed

lemma mid_drop_ok:
  assumes ch: "chain (entries h) None (nodes l es) None" and mid: "mid l = mid_of es"
    and num: "numels l = length es" and pos: "pos < length es"
  shows "mid_before_drop l h pos = Some (mid_of (cut_at pos es))"
proof (cases "length es = 1")
  case True
  then show ?thesis using num pos by (simp add: mid_before_drop_def mid_of_def)
next
  case False
  have old: "mid l = Some (es ! ((length es - 1) div 2))" using mid pos by (auto simp: mid_of_def)
  have ne: "cut_at pos es \<noteq> []" using pos False by auto
  have len: "length (cut_at pos es) = length es - 1" using pos by simp
  have new: "mid_of (cut_at pos es) = Some (es ! (if i < pos then i else Suc i))"
    if "(length es - 1 - 1) div 2 = i" "i < length es - 1" for i
    unfolding cut_at_nth [OF pos that(2), symmetric] using ne len that(1) by (simp only: mid_of_def if_False)
  show ?thesis
  proof (cases "even (length es)")
    case True
    then obtain j where "length es = 2 * j" by (rule evenE)
    then obtain i where i: "length es = 2 * Suc i" using pos by (cases j) auto
    obtain e where "entries h (es ! i) = Some e" "enext e = Some (es ! Suc i)"
      using nodes_next [OF ch, of i] i by auto
    then show ?thesis using i num old new [of i] by (simp add: mid_before_drop_def)
  next
    case odd: False
    then obtain j where "length es = 2 * j + 1" by (rule oddE)
    then obtain i where i: "length es = 2 * Suc i + 1" using False by (cases j) auto
    obtain e where "entries h (es ! Suc i) = Some e" "eprev e = Some (es ! i)"
      using nodes_prev [OF ch, of i] i by auto
    then show ?thesis using i num old new [of i] by (auto simp: mid_before_drop_def)
  qed
qed

subsection \<open>Retiring an entry\<close>

definition disposable :: "list_t \<Rightarrow> list_mem \<Rightarrow> ptr \<Rightarrow> bool" where
  "disposable l h p \<longleftrightarrow> copy_data (attrs l) = 0 \<or> (\<forall>b. p = Some b \<longrightarrow> blocks h b \<noteq> None)"

definition dispose :: "list_t \<Rightarrow> blocks \<Rightarrow> ptr \<Rightarrow> blocks" where
  "dispose l m p = (if copy_data (attrs l) = 0 then m else case p of None \<Rightarrow> m | Some b \<Rightarrow> m(b := None))"

lemma free_data_ok:
  assumes "entries h x = Some e" and "disposable l h (edata e)"
  shows "free_data l h (Some x) = Some (h\<lparr>blocks := dispose l (blocks h) (edata e)\<rparr>)"
  using assms by (cases "edata e") (auto simp: free_data_def free_block_def disposable_def dispose_def)

lemma spares_push:
  assumes "spares_ok m l" and "spareelsnum l < max_spare" and "m x \<noteq> None"
  defines "l' \<equiv> l\<lparr>spareels := (spareels l)[spareelsnum l := Some x], spareelsnum := spareelsnum l + 1\<rparr>"
  shows "push_spare l (Some x) = Some l'" and "spares l' = spares l @ [x]" and "spares_ok m l'"
proof -
  have n: "spareelsnum l < length (spareels l)" using assms by (simp add: spares_ok_def)
  then show "push_spare l (Some x) = Some l'" by (simp add: push_spare_def l'_def)
  have t: "take (Suc (spareelsnum l)) ((spareels l)[spareelsnum l := Some x]) =
           take (spareelsnum l) (spareels l) @ [Some x]"
    using n by (simp add: take_Suc_conv_app_nth)
  then show s: "spares l' = spares l @ [x]" by (simp add: spares_def l'_def)
  show "spares_ok m l'" using assms(1,2,3) s t unfolding spares_ok_def by (auto simp: l'_def)
qed

text \<open>The count is brought up to date after the entry is gone, so the list is held but for its count.\<close>

abbreviation counted :: "nat list \<Rightarrow> list_t \<Rightarrow> list_t" where
  "counted es l \<equiv> l\<lparr>numels := length es\<rparr>"

lemma counted_fields [simp]:
  "spares (l\<lparr>numels := n\<rparr>) = spares l" "spares_ok m (l\<lparr>numels := n\<rparr>) = spares_ok m l"
  "linked m (l\<lparr>numels := n\<rparr>) es ds = linked m l es ds" "footprint (l\<lparr>numels := n\<rparr>) es = footprint l es"
  by (simp_all add: spares_def spares_ok_def linked_def footprint_def)

lemma retire_entry_ok:
  assumes rep: "list_rep (entries h) (counted es l) es ds" and x: "x \<notin> footprint l es" and xe: "entries h x \<noteq> None"
  obtains l' h' where "retire_entry l h (Some x) = Some (l', h')" "list_rep (entries h') (counted es l') es ds"
    "footprint l' es \<subseteq> insert x (footprint l es)" "\<And>a. a \<noteq> x \<Longrightarrow> entries h' a = entries h a"
    "blocks h' = blocks h" "brk h' = brk h" "mem_ok h' = mem_ok h" "entries h' x = None \<or> entries h' x = entries h x"
    "attrs l' = attrs l" "iter_active l' = iter_active l" "numels l' = numels l"
    "head_sentinel l' = head_sentinel l" "tail_sentinel l' = tail_sentinel l"
proof (cases "spareelsnum l < max_spare")
  case True
  have sp: "spares_ok (entries h) l" using rep unfolding list_rep_def by simp
  define l' where "l' = l\<lparr>spareels := (spareels l)[spareelsnum l := Some x], spareelsnum := spareelsnum l + 1\<rparr>"
  note push = spares_push [OF sp True xe, folded l'_def]
  have fields: "head_sentinel l' = head_sentinel l" "tail_sentinel l' = tail_sentinel l" "numels l' = numels l"
    "mid l' = mid l" "attrs l' = attrs l" "iter_active l' = iter_active l"
    by (simp_all add: l'_def)
  have foot: "footprint l' es = insert x (footprint l es)"
    unfolding footprint_def push(2) fields by auto
  have "distinct (nodes l' es @ spares l')"
    using rep x unfolding list_rep_def footprint_def push(2) fields by auto
  then have "list_rep (entries h) (counted es l') es ds"
    using rep push(3) fields linked_fields [of l l'] by (simp add: list_rep_def)
  moreover have "retire_entry l h (Some x) = Some (l', h)" using True push(1) by (simp add: retire_entry_def)
  ultimately show thesis using foot fields by (intro that [of l' h]) auto
next
  case False
  define h' where "h' = h\<lparr>entries := (entries h)(x := None)\<rparr>"
  have "retire_entry l h (Some x) = Some (l, h')"
    using False xe by (auto simp: retire_entry_def free_entry_def h'_def)
  then show thesis using rep x list_rep_upd [of x "counted es l" es]
    by (intro that [of l h']) (auto simp: h'_def)
qed

subsection \<open>Removing one entry\<close>

lemma unlink_list_rep:
  assumes rep: "list_rep (entries h) l es ds" and pos: "pos < length es"
  defines "es' \<equiv> cut_at pos es"
  obtains m where "unlink_entry h (Some (es ! pos)) = Some (h\<lparr>entries := m\<rparr>)"
    "list_rep m (counted es' (l\<lparr>mid := mid_of es'\<rparr>)) es' (cut_at pos ds)"
    "footprint l es = insert (es ! pos) (footprint l es')" "es ! pos \<notin> footprint l es'"
    "m (es ! pos) = entries h (es ! pos)" "\<And>a. a \<notin> footprint l es \<Longrightarrow> m a = entries h a"
proof -
  have lk: "linked (entries h) l es ds" and sp: "spares_ok (entries h) l" and dist0: "distinct (nodes l es @ spares l)"
    using rep unfolding list_rep_def by blast+
  obtain m where m: "unlink_entry h (Some (es ! pos)) = Some (h\<lparr>entries := m\<rparr>)"
    "linked m l es' (cut_at pos ds)" "\<And>a. a \<notin> set (nodes l es) \<Longrightarrow> m a = entries h a"
    "m (es ! pos) = entries h (es ! pos)"
    unfolding es'_def by (rule linked_unlink [OF lk list_repD(2) [OF rep] pos]) blast
  define l' where "l' = counted es' (l\<lparr>mid := mid_of es'\<rparr>)"
  have fields: "head_sentinel l' = head_sentinel l" "tail_sentinel l' = tail_sentinel l" "spares l' = spares l"
    by (simp_all add: l'_def spares_def)
  have x: "nodes l es ! Suc pos = es ! pos" and pos': "Suc pos < length (nodes l es)" using pos by (simp_all add: nth_append)
  have ns: "nodes l es' = cut_at (Suc pos) (nodes l es)" unfolding es'_def by (rule nodes_cut_at [OF pos])
  have set_ns: "set (nodes l es) = insert (es ! pos) (set (nodes l es'))"
    using cut_at_split(1) [OF pos'] unfolding ns x .
  have dn: "distinct (nodes l es')" "es ! pos \<notin> set (nodes l es')"
    using cut_at_split(2) [OF pos'] list_repD(2) [OF rep] unfolding ns x by blast+
  have dist: "distinct (nodes l' es' @ spares l')" and xf: "es ! pos \<notin> footprint l es'"
    using dist0 dn set_ns unfolding distinct_append fields footprint_def by blast+
  have "m a = entries h a" if "a \<in> set (spares l)" for a
    using m(3) that dist0 unfolding distinct_append by blast
  then have "spares_ok m l'" using sp fields unfolding spares_ok_def by (simp add: l'_def)
  then have rep': "list_rep m (counted es' (l\<lparr>mid := mid_of es'\<rparr>)) es' (cut_at pos ds)"
    using m(2) dist fields linked_fields [of l l'] by (simp add: list_rep_def l'_def)
  have foot: "footprint l es = insert (es ! pos) (footprint l es')"
    using set_ns unfolding footprint_def by blast
  have other: "m a = entries h a" if "a \<notin> footprint l es" for a
    using m(3) that unfolding footprint_def by blast
  show thesis by (rule that [OF m(1) rep' foot xf m(4) other])
qed

lemma list_drop_elem_ok:
  assumes rep: "list_rep (entries h) l es ds" and wf: "mem_wf h" and pos: "pos < length es"
    and dp: "disposable l h (ds ! pos)"
  obtains l' h' where "list_drop_elem l h (Some (es ! pos)) pos = Some (0, l', h')"
    "list_rep (entries h') (counted (cut_at pos es) l') (cut_at pos es) (cut_at pos ds)" "mem_wf h'"
    "frame (footprint l es) h h'" "footprint l' (cut_at pos es) \<subseteq> footprint l es"
    "blocks h' = dispose l (blocks h) (ds ! pos)" "attrs l' = attrs l" "iter_active l' = iter_active l"
    "numels l' = numels l" "brk h' = brk h"
proof -
  let ?es' = "cut_at pos es" and ?x = "es ! pos"
  define l1 where "l1 = l\<lparr>mid := mid_of ?es'\<rparr>"
  obtain m where m: "unlink_entry h (Some ?x) = Some (h\<lparr>entries := m\<rparr>)"
    "list_rep m (counted ?es' l1) ?es' (cut_at pos ds)" "footprint l es = insert ?x (footprint l ?es')"
    "?x \<notin> footprint l ?es'" "m ?x = entries h ?x" "\<And>a. a \<notin> footprint l es \<Longrightarrow> m a = entries h a"
    unfolding l1_def by (rule unlink_list_rep [OF rep pos]) blast
  obtain e where e: "entries h ?x = Some e" "edata e = ds ! pos" using list_rep_data [OF rep pos] by auto
  have l1: "footprint l1 ?es' = footprint l ?es'" "attrs l1 = attrs l" "iter_active l1 = iter_active l"
    "numels l1 = numels l" "dispose l1 = dispose l"
    by (auto simp: l1_def footprint_def spares_def dispose_def fun_eq_iff)
  define h2 where "h2 = h\<lparr>entries := m, blocks := dispose l (blocks h) (ds ! pos)\<rparr>"
  have fd: "free_data l1 (h\<lparr>entries := m\<rparr>) (Some ?x) = Some h2"
    using free_data_ok [of "h\<lparr>entries := m\<rparr>" ?x e l1] m(5) e dp l1
    by (simp add: h2_def disposable_def)
  have rep2: "list_rep (entries h2) (counted ?es' l1) ?es' (cut_at pos ds)" using m(2) by (simp add: h2_def)
  have x2: "?x \<notin> footprint l1 ?es'" "entries h2 ?x \<noteq> None" using m(4,5) e l1 by (simp_all add: h2_def)
  obtain l' h' where r: "retire_entry l1 h2 (Some ?x) = Some (l', h')"
    "list_rep (entries h') (counted ?es' l') ?es' (cut_at pos ds)"
    "footprint l' ?es' \<subseteq> insert ?x (footprint l1 ?es')" "\<And>a. a \<noteq> ?x \<Longrightarrow> entries h' a = entries h2 a"
    "blocks h' = blocks h2" "brk h' = brk h2" "mem_ok h' = mem_ok h2" "entries h' ?x = None \<or> entries h' ?x = entries h2 ?x"
    "attrs l' = attrs l1" "iter_active l' = iter_active l1" "numels l' = numels l1"
    by (rule retire_entry_ok [OF rep2 x2]) blast
  have "list_drop_elem l h (Some ?x) pos = Some (0, l', h')"
    using mid_drop_ok [OF list_repD(1,4,3) [OF rep] pos] m(1) fd r(1)
    by (simp add: list_drop_elem_def l1_def [symmetric])
  moreover have "frame (footprint l es) h h'"
    using m(3,6) r(4,6,7) by (auto simp: frame_def h2_def)
  moreover have "entries h' a = None" if "brk h \<le> a" for a
  proof -
    have "a \<notin> footprint l es" using footprint_below [OF rep wf, of a] that by auto
    then show ?thesis using m(3,6) r(4) wf that by (auto simp: h2_def mem_wf_def)
  qed
  moreover have "blocks h' a = None" if "brk h \<le> a" for a
    using r(5) wf that by (auto simp: h2_def mem_wf_def dispose_def split: option.splits)
  ultimately show thesis
    using r(2,3,5,6,9,10,11) m(3) l1 by (intro that [of l' h']) (simp_all add: mem_wf_def h2_def)
qed

lemma findpos_element:
  assumes "list_rep (entries h) l es ds" and "length es \<le> 2 ^ 24" and "pos < length es"
  shows "list_findpos l h (c_int pos) = Some (Some (es ! pos))"
  using findpos_ok [OF assms(1,2), of "int pos"] assms(2,3) by (simp add: nth_append nat_add_distrib)

lemma list_rep_counted:
  "list_rep m (counted es l) es ds \<Longrightarrow> n = length es \<Longrightarrow> list_rep m (l\<lparr>numels := n\<rparr>) es ds"
  by simp

lemma list_delete_at_ok:
  assumes rep: "list_rep (entries h) l es ds" and wf: "mem_wf h" and it: "\<not> iter_active l"
    and pos: "pos < length es" and n: "length es \<le> 2 ^ 24" and dp: "disposable l h (ds ! pos)"
  obtains l' h' where "list_delete_at l h pos = Some (0, l', h')"
    "list_rep (entries h') l' (cut_at pos es) (cut_at pos ds)" "mem_wf h'"
    "frame (footprint l es) h h'" "footprint l' (cut_at pos es) \<subseteq> footprint l es"
    "blocks h' = dispose l (blocks h) (ds ! pos)" "attrs l' = attrs l" "\<not> iter_active l'" "brk h' = brk h"
proof -
  obtain l1 h1 where d: "list_drop_elem l h (Some (es ! pos)) pos = Some (0, l1, h1)"
    "list_rep (entries h1) (counted (cut_at pos es) l1) (cut_at pos es) (cut_at pos ds)" "mem_wf h1"
    "frame (footprint l es) h h1" "footprint l1 (cut_at pos es) \<subseteq> footprint l es"
    "blocks h1 = dispose l (blocks h) (ds ! pos)" "attrs l1 = attrs l" "iter_active l1 = iter_active l"
    "numels l1 = numels l" "brk h1 = brk h"
    by (rule list_drop_elem_ok [OF rep wf pos dp]) blast
  have num: "numels l = length es" "usub (length es) 1 = length (cut_at pos es)"
    using list_repD(3) [OF rep] pos n by simp_all
  have "assert_repOk h1 (counted (cut_at pos es) l1) = Some ()"
    by (rule assert_repOk_rep [OF d(2)]) (use n in simp)
  then have "list_delete_at l h pos = Some (0, counted (cut_at pos es) l1, h1)"
    using it pos num d(1,9) findpos_element [OF rep n pos] by (simp add: list_delete_at_def)
  then show thesis using d it by (intro that [of "counted (cut_at pos es) l1" h1]) simp_all
qed

lemma list_rep_set_data:
  assumes rep: "list_rep m l es ds" and pos: "pos < length es" and e: "m (es ! pos) = Some e"
  shows "list_rep (m(es ! pos \<mapsto> e\<lparr>edata := p\<rparr>)) l es (ds[pos := p])"
proof -
  let ?m = "m(es ! pos \<mapsto> e\<lparr>edata := p\<rparr>)"
  have dist: "distinct (nodes l es)" and dist0: "distinct (nodes l es @ spares l)" and sp: "spares_ok m l"
    using rep unfolding list_rep_def by auto
  have k: "chain ?m q as r = chain m q as r" for q as r
  proof (induction as arbitrary: q)
    case (Cons a as)
    have "(\<exists>d. ?m a = Some \<lparr>edata = d, enext = x, eprev = q\<rparr>) = (\<exists>d. m a = Some \<lparr>edata = d, enext = x, eprev = q\<rparr>)"
      for x using e by (cases e) (auto simp: fun_upd_apply)
    then show ?case using Cons.IH by simp
  qed simp
  have "chain ?m None (nodes l es) None" unfolding k by (rule list_repD(1) [OF rep])
  moreover have "map (\<lambda>a. map_option edata (?m a)) (nodes l es) = map Some (None # ds[pos := p] @ [None])"
  proof (rule nth_equalityI)
    have old: "map (\<lambda>a. map_option edata (m a)) (nodes l es) = map Some (None # ds @ [None])"
      using rep unfolding list_rep_def linked_def by blast
    have len: "length ds = length es" by (rule list_repD(7) [OF rep])
    then show "length (map (\<lambda>a. map_option edata (?m a)) (nodes l es)) = length (map Some (None # ds[pos := p] @ [None]))"
      by simp
    fix i assume "i < length (map (\<lambda>a. map_option edata (?m a)) (nodes l es))"
    then have i: "i < length (nodes l es)" by simp
    have x: "nodes l es ! Suc pos = es ! pos" and pos': "Suc pos < length (nodes l es)" using pos by (simp_all add: nth_append)
    have oldi: "map_option edata (m (nodes l es ! i)) = map Some (None # ds @ [None]) ! i"
      unfolding old [symmetric] by (rule nth_map [OF i, symmetric])
    have new: "map Some (None # ds[pos := p] @ [None]) ! i = (if i = Suc pos then Some p else map Some (None # ds @ [None]) ! i)"
      using i pos len by (cases i) (auto simp: nth_append nth_list_update)
    have "nodes l es ! i = es ! pos \<longleftrightarrow> i = Suc pos"
      using nth_eq_iff_index_eq [OF dist i pos'] unfolding x .
    then have "map_option edata (?m (nodes l es ! i)) = map Some (None # ds[pos := p] @ [None]) ! i"
      unfolding new using oldi by simp
    then show "map (\<lambda>a. map_option edata (?m a)) (nodes l es) ! i = map Some (None # ds[pos := p] @ [None]) ! i"
      unfolding nth_map [OF i] .
  qed
  moreover have "spares_ok ?m l" using sp by (simp add: spares_ok_def)
  ultimately show ?thesis using rep unfolding list_rep_def linked_def by blast
qed

lemma list_extract_at_ok:
  assumes rep: "list_rep (entries h) l es ds" and wf: "mem_wf h" and it: "\<not> iter_active l"
    and pos: "pos < length es" and n: "length es \<le> 2 ^ 24"
  obtains l' h' where "list_extract_at l h pos = Some (ds ! pos, l', h')"
    "list_rep (entries h') l' (cut_at pos es) (cut_at pos ds)" "mem_wf h'"
    "frame (footprint l es) h h'" "footprint l' (cut_at pos es) \<subseteq> footprint l es"
    "blocks h' = blocks h" "attrs l' = attrs l" "\<not> iter_active l'" "brk h' = brk h"
proof -
  obtain e where e: "entries h (es ! pos) = Some e" "edata e = ds ! pos" using list_rep_data [OF rep pos] by auto
  define h1 where "h1 = h\<lparr>entries := (entries h)(es ! pos \<mapsto> e\<lparr>edata := None\<rparr>)\<rparr>"
  have rep1: "list_rep (entries h1) l es (ds[pos := None])"
    using list_rep_set_data [OF rep pos e(1)] by (simp add: h1_def)
  have xf: "es ! pos \<in> footprint l es" using pos by (simp add: footprint_def)
  have wf1: "mem_wf h1" and fr: "frame (footprint l es) h h1"
    using wf xf e(1) by (auto simp: mem_wf_def h1_def frame_def)
  have dl: "pos < length ds" using list_repD(7) [OF rep] pos by simp
  then have dp: "disposable l h1 (ds[pos := None] ! pos)" and dd: "dispose l (blocks h1) (ds[pos := None] ! pos) = blocks h"
    by (simp_all add: disposable_def dispose_def h1_def)
  obtain l2 h2 where d: "list_drop_elem l h1 (Some (es ! pos)) pos = Some (0, l2, h2)"
    "list_rep (entries h2) (counted (cut_at pos es) l2) (cut_at pos es) (cut_at pos ds)" "mem_wf h2"
    "frame (footprint l es) h1 h2" "footprint l2 (cut_at pos es) \<subseteq> footprint l es"
    "blocks h2 = blocks h" "attrs l2 = attrs l" "iter_active l2 = iter_active l"
    "numels l2 = numels l" "brk h2 = brk h1"
    by (rule list_drop_elem_ok [OF rep1 wf1 pos dp, unfolded cut_at_update dd]) blast
  have num: "numels l = length es" "usub (length es) 1 = length (cut_at pos es)"
    using list_repD(3) [OF rep] pos n by simp_all
  have "assert_repOk h2 (counted (cut_at pos es) l2) = Some ()"
    by (rule assert_repOk_rep [OF d(2)]) (use n in simp)
  then have "list_extract_at l h pos = Some (ds ! pos, counted (cut_at pos es) l2, h2)"
    using it pos num d(1,9) findpos_element [OF rep n pos] e set_edata_ok [OF e(1), of None, folded h1_def]
    by (simp add: list_extract_at_def)
  moreover have "frame (footprint l es) h h2" using fr d(4,10) by (auto simp: frame_def h1_def)
  ultimately show thesis using d it by (intro that [of "counted (cut_at pos es) l2" h2]) (simp_all add: h1_def)
qed

end
