(* ===== verification/SimclistClear.thy ===== *)
theory SimclistClear
  imports SimclistRemove
begin

section \<open>Clearing and destroying the list a heap holds\<close>

text \<open>
  \<open>list_clear\<close> empties a list, \<open>list_destroy\<close> gives back everything it has: no entry of the list is
  left in the heap, no other is touched, and with \<open>copy_data\<close> every block is freed once.
\<close>

subsection \<open>The blocks of a list\<close>

definition owned :: "list_t \<Rightarrow> list_mem \<Rightarrow> ptr list \<Rightarrow> bool" where
  "owned l h ds \<longleftrightarrow> copy_data (attrs l) = 0 \<or>
     distinct (List.filter (\<lambda>p. p \<noteq> None) ds) \<and> (\<forall>b. Some b \<in> set ds \<longrightarrow> blocks h b \<noteq> None)"

definition dispose_all :: "list_t \<Rightarrow> blocks \<Rightarrow> ptr list \<Rightarrow> blocks" where
  "dispose_all l m ds = fold (\<lambda>p m. dispose l m p) ds m"

lemma dispose_all_simps [simp]:
  "dispose_all l m [] = m" "dispose_all l m (p # ds) = dispose_all l (dispose l m p) ds"
  "dispose_all l m (ds @ ds') = dispose_all l (dispose_all l m ds) ds'"
  by (simp_all add: dispose_all_def)

lemma dispose_all_none: "copy_data (attrs l) = 0 \<Longrightarrow> dispose_all l m ds = m"
  by (induction ds arbitrary: m) (simp_all add: dispose_def)

lemma dispose_all_attrs: "attrs l' = attrs l \<Longrightarrow> dispose_all l' m ds = dispose_all l m ds"
  by (simp add: dispose_all_def dispose_def)

lemma dispose_all_None: "m a = None \<Longrightarrow> dispose_all l m ds a = None"
  by (induction ds arbitrary: m) (auto simp: dispose_def split: option.splits)

lemma owned_Cons:
  assumes "owned l h (p # ds)" and "blocks h' = dispose l (blocks h) p" and "attrs l' = attrs l"
  shows "disposable l h p" and "owned l' h' ds"
  using assms by (auto simp: owned_def disposable_def dispose_def split: option.splits)

lemma owned_append:
  "owned l h (ds @ ds') \<Longrightarrow> blocks h' = dispose_all l (blocks h) ds \<Longrightarrow> attrs l' = attrs l \<Longrightarrow> owned l' h' ds'"
proof (induction ds arbitrary: h)
  case (Cons p ds)
  let ?h = "h\<lparr>blocks := dispose l (blocks h) p\<rparr>"
  have "owned l ?h (ds @ ds')" by (rule owned_Cons(2) [of l h p]) (use Cons.prems in auto)
  then show ?case using Cons by simp
qed (auto simp: owned_def)

subsection \<open>Clearing\<close>

definition holds_data :: "list_mem \<Rightarrow> nat list \<Rightarrow> ptr list \<Rightarrow> bool" where
  "holds_data h es ds \<longleftrightarrow> map (\<lambda>a. map_option edata (entries h a)) es = map Some ds"

lemma holds_data_simps [simp]:
  "holds_data h [] ds = (ds = [])"
  "holds_data h (a # es) ds = (\<exists>e ds'. entries h a = Some e \<and> ds = edata e # ds' \<and> holds_data h es ds')"
  by (auto simp: holds_data_def map_eq_Cons_conv)

lemma holds_data_cong: "(\<And>a. a \<in> set es \<Longrightarrow> entries h a = entries h' a) \<Longrightarrow> holds_data h es ds = holds_data h' es ds"
  by (induction es arbitrary: ds) auto

lemma list_rep_holds: "list_rep (entries h) l es ds \<Longrightarrow> holds_data h es ds"
  by (auto simp: list_rep_def linked_def holds_data_def)

lemma clear_spare_ok:
  assumes "chain (entries h) p (es @ [t]) None" "tail_sentinel l = Some t" "t \<notin> set es"
    "spares_ok (entries h) l" "holds_data h es ds" "owned l h ds"
  shows "\<exists>k sp. let l' = l\<lparr>spareels := sp, spareelsnum := spareelsnum l + k\<rparr>
    in clear_spare l h (first_ptr es (Some t)) =
         Some (l', h\<lparr>blocks := dispose_all l (blocks h) (take k ds)\<rparr>, first_ptr (drop k es) (Some t))
       \<and> spares l' = spares l @ take k es \<and> spares_ok (entries h) l'"
  using assms
proof (induction es arbitrary: p l h ds)
  case Nil
  then show ?case by (intro exI [of _ 0] exI [of _ "spareels l"]) (simp add: clear_spare.simps)
next
  case (Cons x es)
  show ?case
  proof (cases "spareelsnum l < max_spare")
    case False
    then show ?thesis using Cons.prems
      by (intro exI [of _ 0] exI [of _ "spareels l"]) (simp add: clear_spare.simps)
  next
    case True
    obtain e ds' where e: "entries h x = Some e" "ds = edata e # ds'" "holds_data h es ds'"
      using Cons.prems(5) by auto
    define h1 where "h1 = h\<lparr>blocks := dispose l (blocks h) (edata e)\<rparr>"
    define l1 where "l1 = l\<lparr>spareels := (spareels l)[spareelsnum l := Some x], spareelsnum := spareelsnum l + 1\<rparr>"
    note push = spares_push [OF Cons.prems(4) True, of x, folded l1_def]
    have own: "disposable l h (edata e)" "owned l1 h1 ds'"
      using owned_Cons [of l h "edata e" ds' h1 l1] Cons.prems(6) e by (simp_all add: h1_def l1_def)
    have same: "entries h1 = entries h" "attrs l1 = attrs l" "tail_sentinel l1 = tail_sentinel l"
      by (simp_all add: h1_def l1_def)
    obtain k sp where k: "let l' = l1\<lparr>spareels := sp, spareelsnum := spareelsnum l1 + k\<rparr>
      in clear_spare l1 h1 (first_ptr es (Some t)) =
           Some (l', h1\<lparr>blocks := dispose_all l1 (blocks h1) (take k ds')\<rparr>, first_ptr (drop k es) (Some t))
         \<and> spares l' = spares l1 @ take k es \<and> spares_ok (entries h1) l'"
      using Cons.IH [of h1 "Some x" l1 ds'] Cons.prems e push own(2) same
      by (auto simp: holds_data_def)
    have step: "clear_spare l h (Some x) = clear_spare l1 h1 (first_ptr es (Some t))"
      using True Cons.prems e own(1) push(1) free_data_ok [of h x e l]
      by (subst clear_spare.simps) (auto simp: h1_def [symmetric] same)
    show ?thesis
      using k step e push(2) dispose_all_attrs [OF same(2)]
      by (intro exI [of _ "Suc k"] exI [of _ sp]) (simp add: Let_def h1_def l1_def)
  qed
qed

lemma clear_free_ok:
  assumes "chain (entries h) p (es @ [t]) None" "tail_sentinel l = Some t" "distinct (es @ [t])"
    "holds_data h es ds" "owned l h ds"
  shows "clear_free l h (first_ptr es (Some t)) =
    Some (h\<lparr>entries := entries h |` (- set es), blocks := dispose_all l (blocks h) ds\<rparr>)"
  using assms
proof (induction es arbitrary: p h ds)
  case Nil
  then show ?case by (simp add: clear_free.simps)
next
  case (Cons x es)
  obtain e ds' where e: "entries h x = Some e" "ds = edata e # ds'" "holds_data h es ds'"
    using Cons.prems(4) by auto
  define h1 where "h1 = h\<lparr>blocks := dispose l (blocks h) (edata e), entries := (entries h)(x := None)\<rparr>"
  have own: "disposable l h (edata e)" "owned l h1 ds'"
    using owned_Cons [of l h "edata e" ds' h1 l] Cons.prems(5) e by (simp_all add: h1_def)
  have nx: "enext e = first_ptr es (Some t)" and xt: "x \<noteq> t" "x \<notin> set es" using Cons.prems e by auto
  obtain e' where e': "get_entry h (first_ptr es (Some t)) = Some e'" "eprev e' = Some x"
    using Cons.prems(1) by (cases es) auto
  have hd: "holds_data h1 es ds'" using e(3) xt by (subst holds_data_cong [of es h1 h]) (auto simp: h1_def)
  have "chain (entries h) (Some x) (es @ [t]) None" using Cons.prems(1) by simp
  then have ch1: "chain (entries h1) (Some x) (es @ [t]) None"
    using xt chain_upd [of x "es @ [t]" "entries h" None] by (simp add: h1_def del: chain_append)
  have step: "clear_free l h (Some x) = clear_free l h1 (first_ptr es (Some t))"
    using Cons.prems(2) xt e own(1) nx e' free_data_ok [of h x e l]
    by (subst clear_free.simps) (auto simp: h1_def free_entry_def get_entry_def bind_eq_Some_conv)
  have "clear_free l h1 (first_ptr es (Some t)) =
    Some (h1\<lparr>entries := entries h1 |` (- set es), blocks := dispose_all l (blocks h1) ds'\<rparr>)"
    by (rule Cons.IH [OF ch1 Cons.prems(2) _ hd own(2)]) (use Cons.prems(3) in simp)
  moreover have "(entries h)(x := None) |` (- set es) = entries h |` (- insert x (set es))"
    by (auto simp: fun_eq_iff restrict_map_def)
  ultimately show ?case using step e by (simp add: h1_def)
qed

lemma list_rep_empty:
  assumes "head_sentinel l = Some hs" "tail_sentinel l = Some ts" "hs \<noteq> ts"
    and "m hs = Some \<lparr>edata = None, enext = Some ts, eprev = None\<rparr>"
    and "m ts = Some \<lparr>edata = None, enext = None, eprev = Some hs\<rparr>"
    and "spares_ok m l" "distinct (spares l)" "hs \<notin> set (spares l)" "ts \<notin> set (spares l)"
    and "numels l = 0" "mid l = None"
  shows "list_rep m l [] []"
  using assms by (simp add: list_rep_def linked_def mid_of_def)

text \<open>The two loops together: which entries are spare afterwards, which are gone.\<close>

lemma clear_loops:
  assumes rep: "list_rep (entries h) l es ds" and own: "owned l h ds"
  defines "s \<equiv> first_ptr es (tail_sentinel l)"
  obtains sp k l' h' where "Option.bind (clear_spare l h s) (\<lambda>(l, h, s). map_option (Pair l) (clear_free l h s)) = Some (l', h')"
    "l' = l\<lparr>spareels := sp, spareelsnum := spareelsnum l + k\<rparr>" "spares l' = spares l @ take k es"
    "h' = h\<lparr>entries := entries h |` (- set (drop k es)), blocks := dispose_all l (blocks h) ds\<rparr>"
    "spares_ok (entries h) l'"
proof -
  let ?t = "the (tail_sentinel l)" and ?hs = "the (head_sentinel l)"
  have ch: "chain (entries h) (Some ?hs) (es @ [?t]) None" using list_repD(1) [OF rep] by simp
  have t: "tail_sentinel l = Some ?t" by (rule list_repD(6) [OF rep])
  have dist: "distinct (es @ [?t])" using list_repD(2) [OF rep] by simp
  have hd: "holds_data h es ds" by (rule list_rep_holds [OF rep])
  have sok: "spares_ok (entries h) l" using rep unfolding list_rep_def by blast
  obtain k sp where k: "let l' = l\<lparr>spareels := sp, spareelsnum := spareelsnum l + k\<rparr>
    in clear_spare l h (first_ptr es (Some ?t)) =
         Some (l', h\<lparr>blocks := dispose_all l (blocks h) (take k ds)\<rparr>, first_ptr (drop k es) (Some ?t))
       \<and> spares l' = spares l @ take k es \<and> spares_ok (entries h) l'"
    using clear_spare_ok [OF ch t _ sok hd own] dist by (metis distinct_append disjoint_insert(2) list.simps(15))
  define l' where "l' = l\<lparr>spareels := sp, spareelsnum := spareelsnum l + k\<rparr>"
  define h1 where "h1 = h\<lparr>blocks := dispose_all l (blocks h) (take k ds)\<rparr>"
  have k': "clear_spare l h s = Some (l', h1, first_ptr (drop k es) (Some ?t))"
    "spares l' = spares l @ take k es" "spares_ok (entries h) l'"
    using k t unfolding Let_def l'_def h1_def s_def by auto
  have "es @ [?t] = take k es @ drop k es @ [?t]" by simp
  then have "chain (entries h) (Some ?hs) (take k es @ drop k es @ [?t]) None" using ch by metis
  then have ch1: "chain (entries h1) (last_ptr (Some ?hs) (take k es)) (drop k es @ [?t]) None"
    by (simp add: h1_def)
  have own1: "owned l' h1 (drop k ds)"
    by (rule owned_append [of l h "take k ds"]) (use own in \<open>simp_all add: h1_def l'_def\<close>)
  have "clear_free l' h1 (first_ptr (drop k es) (Some ?t)) =
    Some (h1\<lparr>entries := entries h1 |` (- set (drop k es)), blocks := dispose_all l' (blocks h1) (drop k ds)\<rparr>)"
  proof (rule clear_free_ok [OF ch1 _ _ _ own1])
    show "tail_sentinel l' = Some ?t" using t by (simp add: l'_def)
    show "distinct (drop k es @ [?t])" using dist by (auto dest: in_set_dropD)
    show "holds_data h1 (drop k es) (drop k ds)"
      using hd unfolding holds_data_def by (simp add: h1_def drop_map [symmetric])
  qed
  moreover have all: "dispose_all l' (blocks h1) (drop k ds) = dispose_all l (blocks h) ds"
    using dispose_all_simps(3) [of l "blocks h" "take k ds" "drop k ds"] dispose_all_attrs [of l' l]
    by (simp add: h1_def l'_def)
  ultimately have "Option.bind (clear_spare l h s) (\<lambda>(l, h, s). map_option (Pair l) (clear_free l h s)) =
    Some (l', h\<lparr>entries := entries h |` (- set (drop k es)), blocks := dispose_all l (blocks h) ds\<rparr>)"
    using k'(1) by (simp add: h1_def)
  then show thesis by (rule that [OF _ l'_def k'(2) refl k'(3)])
qed

lemma list_rep_sentinels:
  assumes "list_rep m l es ds"
  obtains hs ts where "head_sentinel l = Some hs" "tail_sentinel l = Some ts" "hs \<noteq> ts" "hs \<notin> set es" "ts \<notin> set es"
    "m hs = Some \<lparr>edata = None, enext = first_ptr es (Some ts), eprev = None\<rparr>"
    "m ts = Some \<lparr>edata = None, enext = None, eprev = last_ptr (Some hs) es\<rparr>"
proof -
  obtain hs ts where s: "head_sentinel l = Some hs" "tail_sentinel l = Some ts"
    using list_repD(5,6) [OF assms] by blast
  have "chain m None (hs # es @ [ts]) None" and "distinct (hs # es @ [ts])"
    using list_repD(1,2) [OF assms] s by simp_all
  moreover have "map_option edata (m hs) = Some None" "map_option edata (m ts) = Some None"
    using assms s by (auto simp: list_rep_def linked_def)
  ultimately show thesis using s by (intro that [of hs ts]) auto
qed

lemma list_clear_ok:
  assumes rep: "list_rep (entries h) l es ds" and wf: "mem_wf h" and it: "\<not> iter_active l"
    and own: "owned l h ds" and n: "length es < 2 ^ 31"
  obtains l' h' where "list_clear l h = Some (int (length es), l', h')" "list_rep (entries h') l' [] []"
    "mem_wf h'" "frame (footprint l es) h h'" "footprint l' [] \<subseteq> footprint l es"
    "blocks h' = dispose_all l (blocks h) ds" "attrs l' = attrs l" "\<not> iter_active l'" "brk h' = brk h"
    "head_sentinel l' = head_sentinel l" "tail_sentinel l' = tail_sentinel l"
    "\<And>a. a \<in> footprint l es \<Longrightarrow> a \<notin> footprint l' [] \<Longrightarrow> entries h' a = None"
proof -
  obtain hs ts where s: "head_sentinel l = Some hs" "tail_sentinel l = Some ts" "hs \<noteq> ts" "hs \<notin> set es" "ts \<notin> set es"
    "entries h hs = Some \<lparr>edata = None, enext = first_ptr es (Some ts), eprev = None\<rparr>"
    "entries h ts = Some \<lparr>edata = None, enext = None, eprev = last_ptr (Some hs) es\<rparr>"
    by (rule list_rep_sentinels [OF rep])
  obtain sp k l1 h2 where c: "Option.bind (clear_spare l h (first_ptr es (tail_sentinel l)))
      (\<lambda>(l, h, s). map_option (Pair l) (clear_free l h s)) = Some (l1, h2)"
    "l1 = l\<lparr>spareels := sp, spareelsnum := spareelsnum l + k\<rparr>" "spares l1 = spares l @ take k es"
    "h2 = h\<lparr>entries := entries h |` (- set (drop k es)), blocks := dispose_all l (blocks h) ds\<rparr>"
    "spares_ok (entries h) l1"
    by (rule clear_loops [OF rep own])
  obtain h1 s1 where cc: "clear_spare l h (first_ptr es (Some ts)) = Some (l1, h1, s1)" "clear_free l1 h1 s1 = Some h2"
    using c(1) s(2) by (auto simp: bind_Some_conv)
  define m where "m = (entries h |` (- set (drop k es)))(hs \<mapsto> \<lparr>edata = None, enext = Some ts, eprev = None\<rparr>,
    ts \<mapsto> \<lparr>edata = None, enext = None, eprev = Some hs\<rparr>)"
  define h3 where "h3 = h2\<lparr>entries := m\<rparr>"
  define l2 where "l2 = l1\<lparr>numels := 0, mid := None\<rparr>"
  have dist: "distinct ((hs # es @ [ts]) @ spares l)" using rep s(1,2) by (simp add: list_rep_def)
  have nd: "hs \<notin> set (drop k es)" "ts \<notin> set (drop k es)" using s(4,5) by (auto dest: in_set_dropD)
  have sub: "set (take k es) \<union> set (drop k es) = set es" by (metis append_take_drop_id set_append)
  have tk: "distinct (take k es @ drop k es)" using dist by simp
  have f2: "head_sentinel l2 = Some hs" "tail_sentinel l2 = Some ts" "spares l2 = spares l @ take k es"
    "numels l2 = 0" "mid l2 = None"
    using s(1,2) c(2,3) by (simp_all add: l2_def spares_def)
  have dsp: "distinct (spares l2)" "hs \<notin> set (spares l2)" "ts \<notin> set (spares l2)"
    "set (spares l2) \<inter> set (drop k es) = {}"
    using dist tk sub unfolding f2(3) distinct_append by (auto dest: in_set_takeD in_set_dropD)
  have "m a \<noteq> None" if "a \<in> set (spares l2)" for a
  proof -
    have "spares l2 = spares l1" using c(3) f2(3) by simp
    then have "entries h a \<noteq> None" using c(5) that by (simp add: spares_ok_def)
    moreover have "a \<notin> set (drop k es)" using that dsp(4) by blast
    ultimately show ?thesis by (simp add: m_def)
  qed
  then have sok: "spares_ok m l2" using c(5) by (simp add: spares_ok_def l2_def)
  have rep': "list_rep (entries h3) l2 [] []"
    by (rule list_rep_empty [OF f2(1,2) s(3) _ _ _ dsp(1,2,3) f2(4,5)]) (use sok s(3) in \<open>simp_all add: h3_def m_def\<close>)
  have it1: "\<not> iter_active l1" "head_sentinel l1 = Some hs" "tail_sentinel l1 = Some ts"
    using it s c(2) by simp_all
  have "list_clear l h = Some (int (length es), l2, h3)"
    using s it it1 list_repD(3) [OF rep] cc nd n assert_repOk_rep [OF rep'] c(4)
    by (simp add: list_clear_def set_next_def set_prev_def h3_def m_def l2_def)
  moreover have foot: "footprint l2 [] = {hs, ts} \<union> set (spares l) \<union> set (take k es)" "footprint l es = {hs, ts} \<union> set es \<union> set (spares l)"
    using f2(1,2,3) s(1,2) by (auto simp: footprint_def)
  moreover have "footprint l2 [] \<subseteq> footprint l es" unfolding foot using sub by blast
  moreover have "frame (footprint l es) h h3"
    unfolding foot frame_def using sub c(4) by (auto simp: h3_def m_def restrict_map_def)
  moreover have "mem_wf h3"
    using wf s(6,7) c(4) by (auto simp: mem_wf_def h3_def m_def restrict_map_def dispose_all_None)
  moreover have "entries h3 a = None" if "a \<in> footprint l es" "a \<notin> footprint l2 []" for a
  proof -
    have "a \<in> set (drop k es)" "a \<noteq> hs" "a \<noteq> ts" using that sub unfolding foot by blast+
    then show ?thesis by (simp add: h3_def m_def)
  qed
  ultimately show thesis
    using rep' f2 s(1,2) c(2,4) it by (intro that [of l2 h3]) (simp_all add: h3_def l2_def)
qed

subsection \<open>Destroying\<close>

lemma free_data_arrays [keeps_arrays]: "free_data l h p = Some h' \<Longrightarrow> arrays h' = arrays h"
  by (auto simp: free_data_def bind_eq_Some_conv split: if_splits dest: keeps_arrays)

lemma push_spare_arrays [keeps_arrays]: "push_spare l p = Some l' \<Longrightarrow> spare_array l' = spare_array l"
  by (auto simp: push_spare_def split: if_splits)

lemma clear_spare_arrays [keeps_arrays]:
  assumes "clear_spare l h s = Some r"
  shows "arrays (fst (snd r)) = arrays h \<and> spare_array (fst r) = spare_array l"
  using assms
proof (induction rule: clear_spare.raw_induct [rotated 1, consumes 1, case_names step])
  case (step f l h s r)
  obtain l' h' s' where "r = (l', h', s')" by (cases r)
  then show ?case using step
    by (cases "spareelsnum l < max_spare \<and> s \<noteq> tail_sentinel l")
      (auto simp: bind_Some_conv dest!: keeps_arrays)
qed

lemma clear_free_arrays [keeps_arrays]:
  assumes "clear_free l h s = Some h'"
  shows "arrays h' = arrays h"
  using assms
proof (induction rule: clear_free.raw_induct [rotated 1, consumes 1, case_names step])
  case (step f l h s r)
  then show ?case
    by (cases "s = tail_sentinel l") (auto simp: bind_Some_conv dest!: keeps_arrays)
qed

lemma list_clear_arrays:
  assumes "list_clear l h = Some (r, l', h')"
  shows "arrays h' = arrays h \<and> spare_array l' = spare_array l"
  using assms by (auto simp: list_clear_def Let_def bind_Some_conv split: if_splits dest!: keeps_arrays)

lemma spares_nth:
  assumes "spares_ok m l" and "i < spareelsnum l"
  shows "i < length (spareels l)" "spareels l ! i = Some (spares l ! i)" "length (spares l) = spareelsnum l"
proof -
  have t: "i < length (take (spareelsnum l) (spareels l))" using assms by (simp add: spares_ok_def)
  then have "take (spareelsnum l) (spareels l) ! i \<noteq> None"
    using assms(1) nth_mem [OF t] unfolding spares_ok_def by metis
  then show "spareels l ! i = Some (spares l ! i)" using t assms(2) by (auto simp: spares_def)
  show "i < length (spareels l)" "length (spares l) = spareelsnum l"
    using assms by (simp_all add: spares_ok_def spares_def)
qed

lemma free_spares_ok:
  assumes "spares_ok m l" "distinct (spares l)" "k \<le> spareelsnum l"
    and "\<And>a. a \<in> set (drop (spareelsnum l - k) (spares l)) \<Longrightarrow> entries h a \<noteq> None" and "array_live h (spare_array l)"
  shows "free_spares l h k =
    Some (h\<lparr>entries := entries h |` (- set (drop (spareelsnum l - k) (spares l)))\<rparr>)"
  using assms(3-5)
proof (induction k arbitrary: h)
  case 0
  then show ?case using spares_nth(3) [OF assms(1)] by (cases "spareelsnum l") (auto simp: spares_def)
next
  case (Suc k)
  define i where "i = spareelsnum l - Suc k"
  have i: "i < spareelsnum l" "spareelsnum l - k = Suc i" using Suc.prems by (auto simp: i_def)
  note sp = spares_nth [OF assms(1) i(1)]
  have d: "drop i (spares l) = spares l ! i # drop (Suc i) (spares l)"
    using sp(3) i(1) by (simp add: Cons_nth_drop_Suc)
  have "distinct (drop i (spares l))" by (rule distinct_drop [OF assms(2)])
  then have nin: "spares l ! i \<notin> set (drop (Suc i) (spares l))" unfolding d by simp
  define h1 where "h1 = h\<lparr>entries := (entries h)(spares l ! i := None)\<rparr>"
  have al: "entries h (spares l ! i) \<noteq> None" using Suc.prems(2) [of "spares l ! i"] d by (simp add: i_def [symmetric])
  have "free_entry h (spareels l ! i) = Some h1" using al sp(2) by (simp add: free_entry_def h1_def)
  moreover have "free_spares l h1 k = Some (h1\<lparr>entries := entries h1 |` (- set (drop (spareelsnum l - k) (spares l)))\<rparr>)"
  proof (rule Suc.IH)
    fix a assume "a \<in> set (drop (spareelsnum l - k) (spares l))"
    then have "a \<in> set (drop (Suc i) (spares l))" using i(2) by simp
    then have "a \<in> set (drop i (spares l))" "a \<noteq> spares l ! i" using d nin by auto
    then show "entries h1 a \<noteq> None" using Suc.prems(2) [of a] by (simp add: h1_def i_def [symmetric])
  qed (use Suc.prems in \<open>auto simp: h1_def array_live_def split: option.splits\<close>)
  moreover have "(entries h)(spares l ! i := None) |` (- set (drop (Suc i) (spares l))) =
    entries h |` (- set (drop i (spares l)))"
    unfolding d by (auto simp: fun_eq_iff restrict_map_def)
  ultimately show ?case using sp(1) i Suc.prems(3) by (simp add: i_def [symmetric] h1_def)
qed

lemma list_destroy_ok:
  assumes rep: "list_rep (entries h) l es ds" and wf: "mem_wf h" and it: "\<not> iter_active l"
    and own: "owned l h ds" and n: "length es < 2 ^ 31" and arr: "spare_array l = Some b" "b \<in> arrays h"
  obtains h' where "list_destroy l h = Some h'" "\<And>a. a \<in> footprint l es \<Longrightarrow> entries h' a = None"
    "frame (footprint l es) h h'" "mem_wf h'" "blocks h' = dispose_all l (blocks h) ds" "brk h' = brk h"
    "arrays h' = arrays h - {b}"
proof -
  obtain l1 h1 where c: "list_clear l h = Some (int (length es), l1, h1)" "list_rep (entries h1) l1 [] []"
    "mem_wf h1" "frame (footprint l es) h h1" "footprint l1 [] \<subseteq> footprint l es"
    "blocks h1 = dispose_all l (blocks h) ds" "attrs l1 = attrs l" "\<not> iter_active l1" "brk h1 = brk h"
    "head_sentinel l1 = head_sentinel l" "tail_sentinel l1 = tail_sentinel l"
    "\<And>a. a \<in> footprint l es \<Longrightarrow> a \<notin> footprint l1 [] \<Longrightarrow> entries h1 a = None"
    by (rule list_clear_ok [OF rep wf it own n]) blast
  obtain hs ts where s: "head_sentinel l1 = Some hs" "tail_sentinel l1 = Some ts" "hs \<noteq> ts"
    using list_rep_sentinels [OF c(2)] by metis
  have al: "entries h1 a \<noteq> None" if "a \<in> footprint l1 []" for a using list_rep_alloc [OF c(2) that] .
  have foot: "footprint l1 [] = {hs, ts} \<union> set (spares l1)" using s by (auto simp: footprint_def)
  have sok: "spares_ok (entries h1) l1" and dist: "distinct ([hs, ts] @ spares l1)"
    using c(2) s by (auto simp: list_rep_def)
  define h2 where "h2 = h1\<lparr>entries := entries h1 |` (- set (spares l1))\<rparr>"
  have arr1: "spare_array l1 = Some b" "arrays h1 = arrays h" "b \<in> arrays h1"
    using list_clear_arrays [OF c(1)] arr by auto
  have sp: "free_spares l1 h1 (spareelsnum l1) = Some h2"
    using free_spares_ok [OF sok, of "spareelsnum l1" h1] dist al foot arr1 by (simp add: h2_def array_live_def)
  have al2: "entries h2 hs \<noteq> None" "entries h2 ts \<noteq> None"
    using al [of hs] al [of ts] foot dist by (auto simp: h2_def restrict_map_def)
  define h' where "h' = h2\<lparr>arrays := arrays h2 - {b}, entries := (entries h2)(hs := None, ts := None)\<rparr>"
  have arr2: "arrays h2 = arrays h1" by (simp add: h2_def)
  have "list_destroy l h = Some h'"
    using c(1) sp s al2 arr1 arr2 by (simp add: list_destroy_def free_entry_def free_array_def h'_def)
  moreover have "entries h' a = None" if "a \<in> footprint l es" for a
    using c(12) [OF that] foot by (auto simp: h'_def h2_def restrict_map_def)
  moreover have "frame (footprint l es) h h'"
    using c(4,5) foot by (auto simp: frame_def h'_def h2_def restrict_map_def)
  ultimately show thesis
    using c(3,6,9) arr1(2) by (intro that [of h']) (auto simp: h'_def h2_def mem_wf_def restrict_map_def)
qed

end
