(* ===== verification/SimclistRange.thy ===== *)
theory SimclistRange
  imports SimclistClear
begin

section \<open>Deleting a range of the list a heap holds\<close>

text \<open>
  \<open>list_delete_range\<close> moves \<open>mid\<close> to where the middle will be, retires the entries of the range one by
  one and links the entry before the range to the one behind it.
\<close>

lemma retire_step:
  assumes sp: "spares_ok (entries h) l" and d: "distinct (spares l)" and x: "x \<notin> set (spares l)"
    and xe: "entries h x \<noteq> None"
  obtains l' h' sp' k' where "retire_entry l h (Some x) = Some (l', h')" "spares_ok (entries h') l'" "distinct (spares l')"
    "set (spares l') \<subseteq> insert x (set (spares l))" "\<And>a. a \<noteq> x \<Longrightarrow> entries h' a = entries h a"
    "blocks h' = blocks h" "brk h' = brk h" "mem_ok h' = mem_ok h" "entries h' x = None \<or> entries h' x = entries h x"
    "l' = l\<lparr>spareels := sp', spareelsnum := k'\<rparr>"
proof (cases "spareelsnum l < max_spare")
  case True
  define l' where "l' = l\<lparr>spareels := (spareels l)[spareelsnum l := Some x], spareelsnum := spareelsnum l + 1\<rparr>"
  note push = spares_push [OF sp True xe, folded l'_def]
  show thesis
  proof (rule that)
    show "retire_entry l h (Some x) = Some (l', h)" using True push(1) by (simp add: retire_entry_def)
    show "l' = l\<lparr>spareels := (spareels l)[spareelsnum l := Some x], spareelsnum := spareelsnum l + 1\<rparr>"
      by (rule l'_def)
  qed (use push d x in auto)
next
  case False
  define h' where "h' = h\<lparr>entries := (entries h)(x := None)\<rparr>"
  show thesis
  proof (rule that)
    show "retire_entry l h (Some x) = Some (l, h')"
      using False xe by (auto simp: retire_entry_def free_entry_def h'_def)
    show "l = l\<lparr>spareels := spareels l, spareelsnum := spareelsnum l\<rparr>" by simp
    show "spares_ok (entries h') l" using sp x by (auto simp: spares_ok_def h'_def)
  qed (use d in \<open>auto simp: h'_def\<close>)
qed

lemma retire_range_ok:
  assumes "chain (entries h) p D q" "spares_ok (entries h) l" "distinct (spares l)" "distinct D"
    "set D \<inter> set (spares l) = {}" "holds_data h D dd" "owned l h dd"
  shows "\<exists>l' h' sp' k'. retire_range l h (length D) (first_ptr D q) = Some (l', h', q)
    \<and> spares_ok (entries h') l' \<and> distinct (spares l') \<and> set (spares l') \<subseteq> set (spares l) \<union> set D
    \<and> (\<forall>a. a \<notin> set D \<longrightarrow> entries h' a = entries h a) \<and> (\<forall>a. entries h a = None \<longrightarrow> entries h' a = None)
    \<and> blocks h' = dispose_all l (blocks h) dd
    \<and> brk h' = brk h \<and> mem_ok h' = mem_ok h \<and> l' = l\<lparr>spareels := sp', spareelsnum := k'\<rparr>"
  using assms
proof (induction D arbitrary: p l h dd)
  case Nil
  then show ?case
    by (intro exI [of _ l] exI [of _ h] exI [of _ "spareels l"] exI [of _ "spareelsnum l"]) simp
next
  case (Cons x D)
  obtain e dd' where e: "entries h x = Some e" "dd = edata e # dd'" "holds_data h D dd'" using Cons.prems(6) by auto
  have nx: "enext e = first_ptr D q" and xD: "x \<notin> set D" using Cons.prems(1,4) e by auto
  define h1 where "h1 = h\<lparr>blocks := dispose l (blocks h) (edata e)\<rparr>"
  have fd: "free_data l h (Some x) = Some h1"
    using free_data_ok [of h x e l] owned_Cons(1) [of l h "edata e" dd' h1 l] Cons.prems(7) e by (simp add: h1_def)
  have s1: "spares_ok (entries h1) l" "x \<notin> set (spares l)" "entries h1 x \<noteq> None"
    using Cons.prems(2,5) e by (auto simp: h1_def)
  obtain l2 h2 sp2 k2 where r: "retire_entry l h1 (Some x) = Some (l2, h2)" "spares_ok (entries h2) l2" "distinct (spares l2)"
    "set (spares l2) \<subseteq> insert x (set (spares l))" "\<And>a. a \<noteq> x \<Longrightarrow> entries h2 a = entries h1 a"
    "blocks h2 = blocks h1" "brk h2 = brk h1" "mem_ok h2 = mem_ok h1" "entries h2 x = None \<or> entries h2 x = entries h1 x"
    "l2 = l\<lparr>spareels := sp2, spareelsnum := k2\<rparr>"
    by (rule retire_step [OF s1(1) Cons.prems(3) s1(2,3)]) blast
  have same: "entries h2 a = entries h a" if "a \<noteq> x" for a using r(5) that by (simp add: h1_def)
  have keep: "entries h2 a = None" if "entries h a = None" for a
    using same [of a] r(9) that e(1) by (cases "a = x") auto
  have ch2: "chain (entries h2) (Some x) D q"
    using Cons.prems(1) chain_cong [of D "entries h2" "entries h"] same xD by (metis chain.simps(2))
  have hd2: "holds_data h2 D dd'" using e(3) holds_data_cong [of D h2 h] same xD by metis
  have at2: "attrs l2 = attrs l" using r(10) by simp
  have own2: "owned l2 h2 dd'"
    by (rule owned_Cons(2) [of l h "edata e"]) (use Cons.prems(7) e r(6) at2 in \<open>simp_all add: h1_def\<close>)
  have dj: "set D \<inter> set (spares l2) = {}" using r(4) Cons.prems(5) xD by auto
  have dD: "distinct D" using Cons.prems(4) by simp
  obtain l' h' sp' k' where ih: "retire_range l2 h2 (length D) (first_ptr D q) = Some (l', h', q)"
    "spares_ok (entries h') l'" "distinct (spares l')" "set (spares l') \<subseteq> set (spares l2) \<union> set D"
    "\<forall>a. a \<notin> set D \<longrightarrow> entries h' a = entries h2 a" "\<forall>a. entries h2 a = None \<longrightarrow> entries h' a = None"
    "blocks h' = dispose_all l2 (blocks h2) dd'"
    "brk h' = brk h2" "mem_ok h' = mem_ok h2" "l' = l2\<lparr>spareels := sp', spareelsnum := k'\<rparr>"
    using Cons.IH [OF ch2 r(2,3) dD dj hd2 own2] by blast
  have "retire_range l h (length (x # D)) (first_ptr (x # D) q) = Some (l', h', q)"
    using e(1) nx fd r(1) ih(1) by simp
  moreover have "blocks h' = dispose_all l (blocks h) dd"
    using ih(7) r(6) e(2) dispose_all_attrs [OF at2] by (simp add: h1_def)
  moreover have "l' = l\<lparr>spareels := sp', spareelsnum := k'\<rparr>" using ih(10) r(10) by simp
  moreover have "set (spares l') \<subseteq> set (spares l) \<union> set (x # D)" using ih(4) r(4) by auto
  moreover have "\<forall>a. a \<notin> set (x # D) \<longrightarrow> entries h' a = entries h a" using ih(5) same by auto
  moreover have "brk h' = brk h" "mem_ok h' = mem_ok h" using ih(8,9) r(7,8) by (simp_all add: h1_def)
  ultimately show ?case using ih(2,3,6) keep by blast
qed

subsection \<open>Where the middle will be\<close>

abbreviation cut_range :: "nat \<Rightarrow> nat \<Rightarrow> 'a list \<Rightarrow> 'a list" where
  "cut_range s k xs \<equiv> take s xs @ drop (s + k) xs"

lemma mid_of_cut_range:
  assumes "s + k \<le> length es" and "k < length es"
  defines "i \<equiv> (length es - 1 - k) div 2"
  shows "mid_of (cut_range s k es) = Some (es ! (if i < s then i else i + k))"
proof -
  have len: "length (cut_range s k es) = length es - k" using assms by simp
  have ne: "cut_range s k es \<noteq> []" using len assms by (metis diff_is_0_eq leD length_0_conv)
  have i: "(length (cut_range s k es) - 1) div 2 = i" unfolding len i_def by (simp add: diff_right_commute)
  have "i < length es - k" unfolding i_def using assms by linarith
  then have "cut_range s k es ! i = es ! (if i < s then i else i + k)"
    using assms by (simp add: nth_append min_def add.commute)
  then show ?thesis using ne i by (simp add: mid_of_def del: length_append)
qed

lemma walk_mid:
  assumes rep: "list_rep (entries h) l es ds" and n: "length es < 2 ^ 31" and j: "j < length es"
  defines "d \<equiv> c_int (usub j ((length es - 1) div 2))"
  shows "(if d > 0 then walk_next h (nat d) (mid l) else walk_prev h (nat (- d)) (mid l)) = Some (Some (es ! j))"
proof -
  define k where "k = (length es - 1) div 2"
  define N where "N = nodes l es"
  have ch: "chain (entries h) None N None" unfolding N_def by (rule list_repD(1) [OF rep])
  have k: "k < length es" unfolding k_def using j by linarith
  have d: "d = int j - int k"
    unfolding d_def k_def [symmetric] using j k n by (auto simp: usub_def c_int_def mod_if)
  have "es \<noteq> []" using j by auto
  then have m: "mid l = Some (N ! Suc k)" unfolding N_def k_def by (rule list_rep_mid [OF rep])
  have x: "es ! j = N ! Suc j" and len: "length N = length es + 2" using j by (simp_all add: N_def nth_append)
  show ?thesis
  proof (cases "j > k")
    case True
    then have "walk_next h (j - k) (Some (N ! Suc k)) = Some (Some (N ! Suc j))"
      using walk_next_chain [OF ch, of "Suc k" "j - k"] len j by simp
    then show ?thesis using True d m x by (simp add: nat_diff_distrib)
  next
    case False
    then have "walk_prev h (k - j) (Some (N ! Suc k)) = Some (Some (N ! Suc j))"
      using walk_prev_chain [OF ch, of "Suc k" "k - j"] len k by (simp add: Suc_diff_le)
    then show ?thesis using False d m x by (simp add: nat_diff_distrib)
  qed
qed

subsection \<open>Closing the gap\<close>

lemma chain_cut:
  assumes "chain m p (as @ a # D @ b # bs) q" and "distinct (as @ a # D @ b # bs)"
    and "\<And>c. c \<in> set (as @ a # b # bs) \<Longrightarrow> m' c = m c" and "m a = Some ea" "m b = Some eb"
  shows "chain (m'(a \<mapsto> ea\<lparr>enext := Some b\<rparr>, b \<mapsto> eb\<lparr>eprev := Some a\<rparr>)) p (as @ a # b # bs) q"
proof -
  have as: "chain m' r as u = chain m r as u" and bs: "chain m' r bs u = chain m r bs u" for r u
    using assms(3) by (auto intro!: chain_cong)
  show ?thesis using assms(1,2,4,5) as bs by auto
qed

text \<open>The parts of a list around a range of it, with the entry before and the one behind the range.\<close>

lemma nodes_range:
  assumes "s + k \<le> length es" and "0 < k"
  obtains as a b bs where "nodes l es = as @ a # take k (drop s es) @ b # bs"
    "nodes l (cut_range s k es) = as @ a # b # bs" "length as = s" "a = nodes l es ! s"
    "first_ptr (drop (s + k) es) (Some (the (tail_sentinel l))) = Some b"
proof -
  let ?hs = "the (head_sentinel l)" and ?ts = "the (tail_sentinel l)"
  have "take s es @ take k (drop s es) @ drop (s + k) es = es"
    by (metis append_take_drop_id drop_drop add.commute)
  then have es: "nodes l es = (?hs # take s es) @ take k (drop s es) @ drop (s + k) es @ [?ts]"
    by (metis append_Cons append_assoc)
  have A: "?hs # take s es = butlast (?hs # take s es) @ [last (?hs # take s es)]" by simp
  obtain b bs where B: "drop (s + k) es @ [?ts] = b # bs" by (cases "drop (s + k) es @ [?ts]") auto
  define as where "as = butlast (?hs # take s es)"
  define a where "a = last (?hs # take s es)"
  have "s \<le> length es" using assms(1) by linarith
  then have len: "length as = s" by (cases es) (simp_all add: as_def)
  have k1: "nodes l es = as @ a # take k (drop s es) @ b # bs"
    unfolding es B by (subst A) (simp add: as_def a_def)
  have k2: "nodes l (cut_range s k es) = as @ a # b # bs"
    using A B by (simp add: as_def a_def)
  have "a = nodes l es ! s" unfolding k1 using len by (simp add: nth_append)
  moreover have "first_ptr (drop (s + k) es) (Some ?ts) = Some b" using B by (cases "drop (s + k) es") auto
  ultimately show thesis by (rule that [OF k1 k2 len])
qed

lemma linked_cut:
  assumes lk: "linked m l es ds" and d: "distinct (nodes l es)" and s: "s + k \<le> length es" "0 < k"
    and same: "\<And>c. c \<notin> set (take k (drop s es)) \<Longrightarrow> m' c = m c"
  obtains a b ea eb where "a = nodes l es ! s" "first_ptr (drop (s + k) es) (tail_sentinel l) = Some b"
    "m' a = Some ea" "m' b = Some eb" "a \<noteq> b"
    "linked (m'(a \<mapsto> ea\<lparr>enext := Some b\<rparr>, b \<mapsto> eb\<lparr>eprev := Some a\<rparr>)) l (cut_range s k es) (cut_range s k ds)"
proof -
  let ?D = "take k (drop s es)" and ?es' = "cut_range s k es" and ?ts = "the (tail_sentinel l)"
  obtain as a b bs where ns: "nodes l es = as @ a # ?D @ b # bs" "nodes l ?es' = as @ a # b # bs" "length as = s"
    "a = nodes l es ! s" "first_ptr (drop (s + k) es) (Some ?ts) = Some b" by (rule nodes_range [OF s])
  note ch = linked_chain [OF lk, unfolded ns(1)]
  have dn: "distinct (as @ a # ?D @ b # bs)" using d unfolding ns(1) .
  obtain ea where ea: "m a = Some ea" using ch by auto
  obtain eb where eb: "m b = Some eb" using ch by auto
  have keep: "m' c = m c" if "c \<in> set (as @ a # b # bs)" for c using same that dn by auto
  define m2 where "m2 = m'(a \<mapsto> ea\<lparr>enext := Some b\<rparr>, b \<mapsto> eb\<lparr>eprev := Some a\<rparr>)"
  have ch': "chain m2 None (nodes l ?es') None"
    unfolding ns(2) m2_def by (rule chain_cut [OF ch dn keep ea eb])
  have eq: "map_option edata (m2 c) = map_option edata (m c)" if "c \<in> set (nodes l ?es')" for c
    using keep [of c] that ea eb unfolding ns(2) by (auto simp: m2_def)
  have old: "map (\<lambda>a. map_option edata (m a)) (nodes l es) = map Some (None # ds @ [None])"
    using lk unfolding linked_def by blast
  have len: "length ds = length es" using map_eq_imp_length_eq [OF old] by simp
  have cut: "nodes l ?es' = cut_range (Suc s) k (nodes l es)" using s by simp
  have "map (\<lambda>a. map_option edata (m2 a)) (nodes l ?es') = map (\<lambda>a. map_option edata (m a)) (nodes l ?es')"
    by (intro map_cong refl eq)
  also have "\<dots> = cut_range (Suc s) k (map Some (None # ds @ [None]))"
    unfolding cut old [symmetric] by (simp only: map_append take_map drop_map)
  also have "\<dots> = map Some (None # cut_range s k ds @ [None])" using len s by (simp add: take_map drop_map)
  finally have k1: "linked m2 l ?es' (cut_range s k ds)" using lk ch' unfolding linked_def by blast
  have k2: "first_ptr (drop (s + k) es) (tail_sentinel l) = Some b"
    using ns(5) lk by (auto simp: linked_def)
  have k3: "a \<noteq> b" using dn by auto
  have k4: "m' a = Some ea" "m' b = Some eb" using keep ea eb by auto
  show thesis by (rule that [OF ns(4) k2 k4 k3 k1 [unfolded m2_def]])
qed

lemma distinct_filter_take_drop: "distinct (List.filter P xs) \<Longrightarrow> distinct (List.filter P (take k (drop s xs)))"
  by (metis append_take_drop_id distinct_append filter_append)

lemma list_delete_range_ok:
  assumes rep: "list_rep (entries h) l es ds" and wf: "mem_wf h" and it: "\<not> iter_active l"
    and own: "owned l h ds" and n: "length es \<le> 2 ^ 24"
    and s: "s \<le> t" "t < length es" "t - s + 1 < length es"
  defines "k \<equiv> t - s + 1"
  obtains l' h' where "list_delete_range l h s t = Some (int k, l', h')"
    "list_rep (entries h') l' (cut_range s k es) (cut_range s k ds)" "mem_wf h'" "frame (footprint l es) h h'"
    "blocks h' = dispose_all l (blocks h) (take k (drop s ds))" "attrs l' = attrs l" "\<not> iter_active l'"
    "footprint l' (cut_range s k es) \<subseteq> footprint l es"
proof -
  let ?D = "take k (drop s es)" and ?dd = "take k (drop s ds)" and ?es' = "cut_range s k es"
  have k: "s + k \<le> length es" "0 < k" "k < length es" "k = Suc (t - s)" "Suc t = s + k" using s by (auto simp: k_def)
  have num: "numels l = length es" and len: "length ds = length es"
    by (rule list_repD(3) [OF rep], rule list_repD(7) [OF rep])
  define i where "i = (length es - 1 - k) div 2"
  define j where "j = (if i < s then i else i + k)"
  have i: "i < length es - k" unfolding i_def using k by linarith
  have j: "j < length es" unfolding j_def using i k(1,3) by (cases "i < s") simp_all
  define l1 where "l1 = l\<lparr>mid := mid_of ?es'\<rparr>"
  have mid: "mid_of ?es' = Some (es ! j)" unfolding j_def i_def by (rule mid_of_cut_range [OF k(1,3)])
  have walk: "(if c_int (usub j ((length es - 1) div 2)) > 0
       then walk_next h (nat (c_int (usub j ((length es - 1) div 2)))) (mid l)
       else walk_prev h (nat (- c_int (usub j ((length es - 1) div 2)))) (mid l)) = Some (mid_of ?es')"
    unfolding mid by (rule walk_mid [OF rep _ j]) (use n in simp)
  have lk: "linked (entries h) l es ds" and sp: "spares_ok (entries h) l" and dist: "distinct (nodes l es @ spares l)"
    using rep unfolding list_rep_def by blast+
  have D: "length ?D = k" "?D ! 0 = es ! s" "?D \<noteq> []" using k(1,2) by auto
  obtain as' a' b' bs' where ns: "nodes l es = as' @ a' # ?D @ b' # bs'" "nodes l ?es' = as' @ a' # b' # bs'"
    "length as' = s" "a' = nodes l es ! s"
    "first_ptr (drop (s + k) es) (Some (the (tail_sentinel l))) = Some b'" by (rule nodes_range [OF k(1,2)])
  have chD: "chain (entries h1) (Some a') ?D (Some b')" if "entries h1 = entries h" for h1
    using linked_chain [OF lk] unfolding ns(1) that by simp
  have dD: "distinct ?D" "set ?D \<inter> set (spares l) = {}" "distinct (spares l)" "set ?D \<inter> set (nodes l ?es') = {}"
    using dist unfolding ns(1,2) distinct_append by auto
  have l1: "spares_ok (entries h) l1" "spares l1 = spares l" "attrs l1 = attrs l"
    "head_sentinel l1 = head_sentinel l" "tail_sentinel l1 = tail_sentinel l" "numels l1 = length es" "iter_active l1 = iter_active l"
    using sp num by (simp_all add: l1_def spares_ok_def spares_def)
  have hd: "holds_data h ?D ?dd"
    using list_rep_holds [OF rep] unfolding holds_data_def by (simp add: take_map [symmetric] drop_map [symmetric])
  have ownD: "owned l1 h ?dd" using own l1(3) unfolding owned_def
    by (auto dest!: in_set_takeD in_set_dropD intro: distinct_filter_take_drop)
  obtain l2 h2 sp2 k2 where r: "retire_range l1 h (length ?D) (first_ptr ?D (Some b')) = Some (l2, h2, Some b')"
    "spares_ok (entries h2) l2" "distinct (spares l2)" "set (spares l2) \<subseteq> set (spares l1) \<union> set ?D"
    "\<forall>a. a \<notin> set ?D \<longrightarrow> entries h2 a = entries h a" "\<forall>a. entries h a = None \<longrightarrow> entries h2 a = None"
    "blocks h2 = dispose_all l1 (blocks h) ?dd"
    "brk h2 = brk h" "mem_ok h2 = mem_ok h" "l2 = l1\<lparr>spareels := sp2, spareelsnum := k2\<rparr>"
    using retire_range_ok [OF chD [OF refl] l1(1) _ dD(1) _ hd ownD] dD(2,3) l1(2) by metis
  obtain a b ea eb where c: "a = nodes l es ! s" "first_ptr (drop (s + k) es) (tail_sentinel l) = Some b"
    "entries h2 a = Some ea" "entries h2 b = Some eb" "a \<noteq> b"
    "linked ((entries h2)(a \<mapsto> ea\<lparr>enext := Some b\<rparr>, b \<mapsto> eb\<lparr>eprev := Some a\<rparr>)) l ?es' (cut_range s k ds)"
    by (rule linked_cut [OF lk list_repD(2) [OF rep] k(1,2), of "entries h2"]) (use r(5) in auto)
  have b': "b' = b" using ns(5) c(2) list_repD(6) [OF rep] by simp
  define m where "m = (entries h2)(a \<mapsto> ea\<lparr>enext := Some b\<rparr>, b \<mapsto> eb\<lparr>eprev := Some a\<rparr>)"
  define h3 where "h3 = h2\<lparr>entries := m\<rparr>"
  define l3 where "l3 = l2\<lparr>numels := length ?es'\<rparr>"
  have l3: "head_sentinel l3 = head_sentinel l" "tail_sentinel l3 = tail_sentinel l" "spares l3 = spares l2"
    "numels l3 = length ?es'" "mid l3 = mid_of ?es'" "attrs l3 = attrs l" "iter_active l3 = iter_active l"
    using r(10) l1 by (simp_all add: l3_def l1_def spares_def)
  have ab: "a \<in> set (nodes l ?es')" "b \<in> set (nodes l ?es')" unfolding ns(2) using c(1) ns(4) b' by auto
  have subn: "set (nodes l ?es') \<subseteq> set (nodes l es)" "set ?D \<subseteq> set (nodes l es)" unfolding ns(1,2) by auto
  have sub2: "set (spares l2) \<subseteq> set (spares l) \<union> set ?D" using r(4) l1(2) by simp
  have dj: "set (nodes l es) \<inter> set (spares l) = {}" using dist unfolding distinct_append by blast
  have dist3: "distinct (nodes l3 ?es' @ spares l3)"
  proof -
    have "distinct (nodes l ?es')" using dist unfolding ns(1,2) by auto
    moreover have "set (nodes l ?es') \<inter> set (spares l2) = {}"
      using sub2 dD(4) dj subn(1) by blast
    ultimately show ?thesis using r(3) unfolding distinct_append l3 by blast
  qed
  have "spares_ok m l3" using r(2) unfolding spares_ok_def by (auto simp: l3_def m_def spares_def)
  then have rep3: "list_rep (entries h3) l3 ?es' (cut_range s k ds)"
    using dist3 l3 c(6) linked_fields [of l3 l] by (simp add: list_rep_def h3_def m_def)
  have foot: "footprint l3 ?es' \<subseteq> footprint l es"
    using sub2 subn unfolding footprint_def l3 by blast
  obtain e where e: "entries h (es ! s) = Some e" "eprev e = Some a"
    using chain_prev [OF linked_chain [OF lk], of s] k(1,2) c(1) by (auto simp: nth_append)
  have first: "first_ptr ?D (Some b') = Some (es ! s)" using D by (cases ?D) auto
  have lv: "s = 0 \<or> Some a \<noteq> head_sentinel l"
    using nth_eq_iff_index_eq [OF list_repD(2) [OF rep], of s 0] c(1) k(1,2)
    by (cases "head_sentinel l") auto
  have arith: "usub (length es) 1 = length es - 1" "usub (length es - 1) k = length es - 1 - k"
    "usub (length es) k = length ?es'" using k(1,2,3) n by simp_all
  have asr: "assert_repOk h3 l3 = Some ()" by (rule assert_repOk_rep [OF rep3]) (use n in simp)
  have r1: "retire_range l1 h k (Some (es ! s)) = Some (l2, h2, Some b)" using r(1) first D(1) b' by simp
  have l2: "head_sentinel l1 = head_sentinel l" "tail_sentinel l1 = tail_sentinel l" "numels l2 = length es"
    using r(10) l1 by simp_all
  have fp: "list_findpos l h (c_int s) = Some (Some (es ! s))"
    by (rule findpos_element [OF rep n]) (use s in simp)
  have k31: "c_int k = int k" using k(3) n by simp
  have "list_delete_range l h s t = Some (int k, l3, h3)"
    unfolding list_delete_range_def Let_def k_def [symmetric] num arith i_def [symmetric] j_def [symmetric] walk
    using it s(1,2) k(3) fp e lv r1 c(3,4,5) asr k31 l2
    by (simp add: assert_that_def set_next_def set_prev_def l1_def [symmetric] h3_def m_def l3_def arith(3) del: length_append)
  moreover have "frame (footprint l es) h h3"
  proof -
    have "a \<in> footprint l es" "b \<in> footprint l es" "set ?D \<subseteq> footprint l es"
      using ab subn unfolding footprint_def by blast+
    then show ?thesis using r(5,8,9) by (auto simp: frame_def h3_def m_def)
  qed
  moreover have "mem_wf h3"
    unfolding mem_wf_def
  proof (intro allI impI)
    fix x assume "brk h3 \<le> x"
    then have x: "brk h \<le> x" using r(8) by (simp add: h3_def)
    then have "entries h x = None" "dispose_all l1 (blocks h) ?dd x = None"
      using wf dispose_all_None by (auto simp: mem_wf_def)
    moreover have "entries h2 x = None" using r(6) calculation(1) by blast
    ultimately show "entries h3 x = None \<and> blocks h3 x = None" using c(3,4) r(7) by (auto simp: h3_def m_def)
  qed
  moreover have "blocks h3 = dispose_all l (blocks h) ?dd"
    using r(7) dispose_all_attrs [OF l1(3)] by (simp add: h3_def)
  ultimately show thesis using rep3 foot it l3(6,7) by (intro that [of l3 h3]) simp_all
qed

end
