(* ===== verification/SimclistCorrect.thy ===== *)
theory SimclistCorrect
  imports SimclistRange
begin

section \<open>Reading the list a heap holds\<close>

text \<open>
  Creation, access by position, search, extremes and iteration, on a heap that holds a list.
\<close>

subsection \<open>Creation and access\<close>

lemma list_init_ok:
  assumes wf: "mem_wf h" and ok: "mem_ok h (brk h)" "mem_ok h (brk h + 1)" "mem_ok h (brk h + 2)"
  obtains l' h' where "list_init (Some l) h = Some (0, Some l', h')" "list_rep (entries h') l' [] []"
    "mem_wf h'" "frame {} h h'" "blocks h' = blocks h" "footprint l' [] \<subseteq> {brk h..}"
    "\<And>a. a \<notin> footprint l' [] \<Longrightarrow> entries h' a = entries h a"
    "\<not> iter_active l'" "copy_data (attrs l') = 0" "comparator (attrs l') = None"
    "unserializer (attrs l') = None" "hasher (attrs l') = None" "serializer (attrs l') = None"
    "spare_array l' = Some (brk h + 2)" "arrays h' = insert (brk h + 2) (arrays h)" "brk h' = brk h + 3"
proof -
  let ?a = "brk h" and ?b = "Suc (brk h)"
  define m where "m = (entries h)(?a \<mapsto> \<lparr>edata = None, enext = Some ?b, eprev = None\<rparr>,
    ?b \<mapsto> \<lparr>edata = None, enext = None, eprev = Some ?a\<rparr>)"
  define h' where "h' = h\<lparr>entries := m, arrays := insert (brk h + 2) (arrays h), brk := brk h + 3\<rparr>"
  define l' where "l' = l\<lparr>numels := 0, head_sentinel := Some ?a, tail_sentinel := Some ?b, mid := None,
    iter_active := False, iter_pos := 0, iter_curentry := None, spare_array := Some (brk h + 2), spareels := replicate max_spare None, spareelsnum := 0,
    attrs := \<lparr>comparator = None, seeker = None, meter = None, copy_data = 0, hasher = None, serializer = None,
      unserializer = None\<rparr>\<rparr>"
  have rep: "list_rep (entries h') l' [] []"
    by (rule list_rep_empty [of _ ?a ?b]) (simp_all add: l'_def h'_def m_def spares_ok_def spares_def)
  have "list_init (Some l) h = Some (0, Some l', h')"
    using ok assert_repOk_rep [OF rep]
    by (simp add: list_init_def malloc_entry_def set_next_def set_prev_def set_edata_def malloc_spares_def malloc_array_def
        list_attributes_setdefaults_def list_attrOk_def assert_that_def Let_def h'_def l'_def m_def fun_upd_twist
        numeral_3_eq_3)
  moreover have "mem_wf h'" using wf by (auto simp: mem_wf_def h'_def m_def)
  moreover have "frame {} h h'" by (auto simp: frame_def h'_def m_def)
  moreover have "footprint l' [] = {?a, ?b}" by (auto simp: footprint_def l'_def spares_def)
  ultimately show thesis using rep by (intro that [of l' h']) (auto simp: l'_def h'_def m_def)
qed

lemma list_get_at_ok:
  assumes "list_rep (entries h) l es ds" and "length es \<le> 2 ^ 24" and "pos < length es"
  shows "list_get_at l h pos = Some (ds ! pos)"
  using findpos_element [OF assms] list_rep_data [OF assms(1,3)] by (auto simp: list_get_at_def)

subsection \<open>Search\<close>

lemma list_rep_loop:
  assumes "list_rep (entries h) l es ds"
  obtains eh t where "get_entry h (head_sentinel l) = Some eh" "enext eh = first_ptr es (Some t)"
    "tail_sentinel l = Some t" "t \<notin> set es" "chain (entries h) (head_sentinel l) es (Some t)" "holds_data h es ds"
proof -
  obtain hs ts where s: "head_sentinel l = Some hs" "tail_sentinel l = Some ts" "ts \<notin> set es"
    "entries h hs = Some \<lparr>edata = None, enext = first_ptr es (Some ts), eprev = None\<rparr>"
    using list_rep_sentinels [OF assms] by metis
  have "chain (entries h) None (hs # es @ [ts]) None" using list_repD(1) [OF assms] s by simp
  then show thesis using s list_rep_holds [OF assms] by (intro that [of _ ts]) auto
qed

definition first_index :: "('a \<Rightarrow> bool) \<Rightarrow> 'a list \<Rightarrow> int" where
  "first_index P xs = (if \<exists>x \<in> set xs. P x then int (length (takeWhile (\<lambda>x. \<not> P x) xs)) else - 1)"

lemma locate_from_ok:
  assumes "chain (entries h) p es (Some t)" "t \<notin> set es" "holds_data h es ds" "tail_sentinel l = Some t"
    and "\<forall>d \<in> set ds. entry_matches l h dat d = Some (P d)" and "0 \<le> k"
  shows "locate_from l h dat (first_ptr es (Some t)) k =
    Some (if \<exists>d \<in> set ds. P d then k + first_index P ds else - 1)"
  using assms
proof (induction es arbitrary: p ds k)
  case Nil
  then show ?case by (simp add: locate_from.simps)
next
  case (Cons x es)
  obtain e ds' where e: "entries h x = Some e" "ds = edata e # ds'" "holds_data h es ds'" using Cons.prems(3) by auto
  have nx: "enext e = first_ptr es (Some t)" and xt: "x \<noteq> t" using Cons.prems e by auto
  have "locate_from l h dat (first_ptr es (Some t)) (k + 1) =
    Some (if \<exists>d \<in> set ds'. P d then k + 1 + first_index P ds' else - 1)"
    by (rule Cons.IH [of "Some x"]) (use Cons.prems e in auto)
  then show ?case using Cons.prems(4,5) e nx xt
    by (subst locate_from.simps) (auto simp: first_index_def)
qed

lemma list_locate_ok:
  assumes rep: "list_rep (entries h) l es ds" and P: "\<forall>d \<in> set ds. entry_matches l h dat d = Some (P d)"
  shows "list_locate l h dat = Some (first_index P ds)"
proof -
  obtain eh t where s: "get_entry h (head_sentinel l) = Some eh" "enext eh = first_ptr es (Some t)"
    "tail_sentinel l = Some t" "t \<notin> set es" "chain (entries h) (head_sentinel l) es (Some t)" "holds_data h es ds"
    by (rule list_rep_loop [OF rep])
  show ?thesis
    using locate_from_ok [OF s(5,4,6,3) P, of 0] s(1,2) by (auto simp: list_locate_def first_index_def)
qed

lemma list_contains_ok:
  assumes "list_rep (entries h) l es ds" and "\<forall>d \<in> set ds. entry_matches l h dat d = Some (P d)"
  shows "list_contains l h dat = Some (\<exists>d \<in> set ds. P d)"
  using list_locate_ok [OF assms] by (auto simp: list_contains_def first_index_def)

text \<open>The position found is the first.\<close>

lemma first_index_pos:
  assumes "\<exists>x \<in> set xs. P x"
  shows "\<exists>i < length xs. first_index P xs = int i \<and> P (xs ! i) \<and> (\<forall>j < i. \<not> P (xs ! j))"
proof -
  let ?i = "length (takeWhile (\<lambda>x. \<not> P x) xs)"
  have "?i < length xs" using assms by (induction xs) auto
  moreover from this have "P (xs ! ?i)" using nth_length_takeWhile by fastforce
  moreover have "\<not> P (xs ! j)" if "j < ?i" for j
    using that takeWhile_nth [OF that] nth_mem [OF that] set_takeWhileD by metis
  ultimately show ?thesis using assms by (intro exI [of _ ?i]) (simp add: first_index_def)
qed

lemma list_delete_ok:
  assumes rep: "list_rep (entries h) l es ds" and wf: "mem_wf h" and it: "\<not> iter_active l"
    and n: "length es \<le> 2 ^ 24" and P: "\<forall>d \<in> set ds. entry_matches l h dat d = Some (P d)"
    and ex: "\<exists>d \<in> set ds. P d" and own: "owned l h ds"
  obtains i l' h' where "list_delete l h dat = Some (0, l', h')" "i < length ds" "P (ds ! i)" "\<forall>j < i. \<not> P (ds ! j)"
    "list_rep (entries h') l' (cut_at i es) (cut_at i ds)" "mem_wf h'"
proof -
  obtain i where i: "i < length ds" "first_index P ds = int i" "P (ds ! i)" "\<forall>j < i. \<not> P (ds ! j)"
    using first_index_pos [OF ex] by auto
  have ie: "i < length es" using i list_repD(7) [OF rep] by simp
  have "disposable l h (ds ! i)" using own nth_mem [OF i(1)] by (auto simp: owned_def disposable_def)
  then obtain l' h' where d: "list_delete_at l h i = Some (0, l', h')"
    "list_rep (entries h') l' (cut_at i es) (cut_at i ds)" "mem_wf h'"
    using list_delete_at_ok [OF rep wf it ie n] by metis
  have "assert_repOk h' l' = Some ()" by (rule assert_repOk_rep [OF d(2)]) (use n ie in simp)
  then have "list_delete l h dat = Some (0, l', h')"
    using list_locate_ok [OF rep P] i(2) d(1) by (simp add: list_delete_def)
  then show thesis using that d i by blast
qed

lemma seek_from_ok:
  assumes "chain (entries h) p es (Some t)" "t \<notin> set es" "holds_data h es ds" "tail_sentinel l = Some t"
    and "\<forall>d \<in> set ds. f (blocks h) d ind = Some (s d)"
  shows "seek_from l h f ind (first_ptr es (Some t)) =
    Some (Option.bind (List.find (\<lambda>d. s d \<noteq> 0) ds) (\<lambda>d. d))"
  using assms
proof (induction es arbitrary: p ds)
  case Nil
  then show ?case by (simp add: seek_from.simps)
next
  case (Cons x es)
  obtain e ds' where e: "entries h x = Some e" "ds = edata e # ds'" "holds_data h es ds'" using Cons.prems(3) by auto
  have nx: "enext e = first_ptr es (Some t)" and xt: "x \<noteq> t" using Cons.prems e by auto
  have "seek_from l h f ind (first_ptr es (Some t)) = Some (Option.bind (List.find (\<lambda>d. s d \<noteq> 0) ds') (\<lambda>d. d))"
    by (rule Cons.IH [of "Some x"]) (use Cons.prems e in auto)
  then show ?case using Cons.prems(4,5) e nx xt by (subst seek_from.simps) auto
qed

lemma list_seek_ok:
  assumes rep: "list_rep (entries h) l es ds" and f: "seeker (attrs l) = Some f"
    and s: "\<forall>d \<in> set ds. f (blocks h) d ind = Some (s d)"
  shows "list_seek l h ind = Some (Option.bind (List.find (\<lambda>d. s d \<noteq> 0) ds) (\<lambda>d. d))"
proof -
  obtain eh t where c: "get_entry h (head_sentinel l) = Some eh" "enext eh = first_ptr es (Some t)"
    "tail_sentinel l = Some t" "t \<notin> set es" "chain (entries h) (head_sentinel l) es (Some t)" "holds_data h es ds"
    by (rule list_rep_loop [OF rep])
  show ?thesis using seek_from_ok [OF c(5,4,6,3), of f ind s] s c(1,2) f by (simp add: list_seek_def)
qed

subsection \<open>Extremes\<close>

text \<open>The ready-made comparators order by a value; the sign of their answer is turned round.\<close>

definition compares :: "element_comparator \<Rightarrow> blocks \<Rightarrow> (ptr \<Rightarrow> int) \<Rightarrow> ptr set \<Rightarrow> bool" where
  "compares f m v D \<longleftrightarrow>
     (\<forall>a \<in> D. \<forall>b \<in> D. f m a b = Some (of_bool (v a < v b) - of_bool (v a > v b)))"

lemma compares_number:
  assumes "\<forall>p \<in> D. read_int n sg m p = Some (v p)"
  shows "compares (list_comparator_number n sg) m v D"
  using assms by (auto simp: compares_def list_comparator_number_def)

lemma minmax_from_ok:
  assumes "chain (entries h) p es (Some t)" "t \<notin> set es" "holds_data h es ds" "tail_sentinel l = Some t"
    and "compares f (blocks h) v (insert best (set ds))" and "w = 1 \<or> w = - 1"
  shows "\<exists>b \<in> insert best (set ds). minmax_from l h f w (first_ptr es (Some t)) best = Some b
    \<and> (\<forall>d \<in> insert best (set ds). v d * w \<le> v b * w)"
  using assms
proof (induction es arbitrary: p ds best)
  case Nil
  then show ?case by (simp add: minmax_from.simps)
next
  case (Cons x es)
  obtain e ds' where e: "entries h x = Some e" "ds = edata e # ds'" "holds_data h es ds'" using Cons.prems(3) by auto
  have nx: "enext e = first_ptr es (Some t)" and xt: "x \<noteq> t" using Cons.prems e by auto
  define r where "r = of_bool (v best < v (edata e)) - of_bool (v best > v (edata e)) * (1::int)"
  define best' where "best' = (if r * w > 0 then edata e else best)"
  have r: "f (blocks h) best (edata e) = Some r" "c_range (r * w) = Some (r * w)"
    using Cons.prems(5,6) e by (auto simp: compares_def r_def c_range_def)
  have better: "v (edata e) * w \<le> v best' * w" "v best * w \<le> v best' * w"
    using Cons.prems(6) by (auto simp: best'_def r_def)
  have "compares f (blocks h) v (insert best' (set ds'))"
    using Cons.prems(5) e by (auto simp: compares_def best'_def)
  then obtain b where b: "b \<in> insert best' (set ds')" "minmax_from l h f w (first_ptr es (Some t)) best' = Some b"
    "\<forall>d \<in> insert best' (set ds'). v d * w \<le> v b * w"
    using Cons.IH [of "Some x" ds' best'] Cons.prems e by auto
  have step: "minmax_from l h f w (Some x) best = minmax_from l h f w (first_ptr es (Some t)) best'"
    using e r nx xt Cons.prems(4) by (subst minmax_from.simps) (simp add: best'_def)
  have "b \<in> insert best (set ds)" using b(1) e by (auto simp: best'_def split: if_splits)
  moreover have "\<forall>d \<in> insert best (set ds). v d * w \<le> v b * w" using b(3) better e by force
  ultimately show ?case using step b(2) by auto
qed

lemma list_get_minmax_ok:
  assumes rep: "list_rep (entries h) l es ds" and ne: "es \<noteq> []" and f: "comparator (attrs l) = Some f"
    and c: "compares f (blocks h) v (set ds)" and w: "w = 1 \<or> w = - 1"
  shows "\<exists>b \<in> set ds. list_get_minmax l h w = Some b \<and> (\<forall>d \<in> set ds. v d * w \<le> v b * w)"
proof -
  obtain eh t where s: "get_entry h (head_sentinel l) = Some eh" "enext eh = first_ptr es (Some t)"
    "tail_sentinel l = Some t" "t \<notin> set es" "chain (entries h) (head_sentinel l) es (Some t)" "holds_data h es ds"
    by (rule list_rep_loop [OF rep])
  obtain x es' where es: "es = x # es'" using ne by (cases es) auto
  obtain e ds' where e: "entries h x = Some e" "ds = edata e # ds'" "holds_data h es' ds'" using s(6) es by auto
  have nx: "enext e = first_ptr es' (Some t)" and ch: "chain (entries h) (Some x) es' (Some t)" using s(5) es e by auto
  have "\<exists>b \<in> insert (edata e) (set ds'). minmax_from l h f w (first_ptr es' (Some t)) (edata e) = Some b
    \<and> (\<forall>d \<in> insert (edata e) (set ds'). v d * w \<le> v b * w)"
    by (rule minmax_from_ok [OF ch _ e(3) s(3) _ w]) (use s(4) es c e in auto)
  then show ?thesis using f s(1,2) es e nx list_repD(3) [OF rep] by (simp add: list_get_minmax_def)
qed

subsection \<open>Iteration\<close>

definition iter_at :: "list_t \<Rightarrow> nat list \<Rightarrow> nat \<Rightarrow> bool" where
  "iter_at l es k \<longleftrightarrow> iter_active l \<and> iter_pos l = k \<and> iter_curentry l = first_ptr (drop k es) (tail_sentinel l)"

lemma list_iterator_start_ok:
  assumes "list_rep (entries h) l es ds" and "\<not> iter_active l"
  shows "\<exists>l'. list_iterator_start l h = Some (True, l') \<and> list_rep (entries h) l' es ds \<and> iter_at l' es 0
    \<and> footprint l' es = footprint l es \<and> attrs l' = attrs l"
proof -
  obtain eh t where s: "get_entry h (head_sentinel l) = Some eh" "enext eh = first_ptr es (Some t)" "tail_sentinel l = Some t"
    using list_rep_loop [OF assms(1)] by metis
  then show ?thesis using assms
    by (auto simp: list_iterator_start_def iter_at_def footprint_def spares_def)
qed

lemma list_iterator_next_ok:
  assumes rep: "list_rep (entries h) l es ds" and it: "iter_at l es k" and k: "k < length es" and n: "length es < 2 ^ 32"
  shows "\<exists>l'. list_iterator_next l h = Some (ds ! k, l') \<and> list_rep (entries h) l' es ds \<and> iter_at l' es (Suc k)
    \<and> footprint l' es = footprint l es \<and> attrs l' = attrs l"
proof -
  obtain e where e: "entries h (es ! k) = Some e" "edata e = ds ! k" using list_rep_data [OF rep k] by auto
  have c: "iter_curentry l = Some (es ! k)" using it k by (simp add: iter_at_def Cons_nth_drop_Suc [symmetric])
  have nx: "enext e = first_ptr (drop (Suc k) es) (tail_sentinel l)"
  proof -
    obtain t where t: "tail_sentinel l = Some t" "chain (entries h) (head_sentinel l) es (Some t)"
      using list_rep_loop [OF rep] by metis
    then obtain d where "entries h (es ! k) = Some \<lparr>edata = d, enext = (if Suc k < length es then Some (es ! Suc k) else Some t),
        eprev = (if k = 0 then head_sentinel l else Some (es ! (k - 1)))\<rparr>"
      using chain_nth [OF t(2) k] by auto
    then show ?thesis using e t by (auto simp: Cons_nth_drop_Suc [symmetric])
  qed
  define l' where "l' = l\<lparr>iter_curentry := enext e, iter_pos := Suc k\<rparr>"
  have "iter_active l" "iter_pos l = k" using it by (simp_all add: iter_at_def)
  then have "list_iterator_next l h = Some (ds ! k, l')"
    using e c k n by (simp add: list_iterator_next_def l'_def)
  moreover have "iter_at l' es (Suc k)" using nx \<open>iter_active l\<close> by (simp add: iter_at_def l'_def)
  moreover have "list_rep (entries h) l' es ds" using rep by (simp add: l'_def)
  moreover have "footprint l' es = footprint l es" "attrs l' = attrs l"
    by (simp_all add: l'_def footprint_def spares_def)
  ultimately show ?thesis by blast
qed

lemma list_iterator_hasnext_ok:
  "list_rep (entries h) l es ds \<Longrightarrow> iter_at l es k \<Longrightarrow> list_iterator_hasnext l \<longleftrightarrow> k < length es"
  using list_repD(3) [of "entries h" l es ds] by (simp add: list_iterator_hasnext_def iter_at_def)

text \<open>Asking for one more element than there are reads the tail sentinel, asking again a null pointer.\<close>

lemma list_iterator_past_end:
  assumes rep: "list_rep (entries h) l es ds" and it: "iter_at l es (length es)"
  shows "\<exists>l'. list_iterator_next l h = Some (None, l') \<and> list_iterator_next l' h = None"
proof -
  obtain ts q where s: "tail_sentinel l = Some ts" "entries h ts = Some \<lparr>edata = None, enext = None, eprev = q\<rparr>"
    using list_rep_sentinels [OF rep] by metis
  then show ?thesis using it by (auto simp: list_iterator_next_def iter_at_def)
qed

end
