(* ===== verification/SimclistSpec.thy ===== *)
theory SimclistSpec
  imports SimclistCorrect
begin

section \<open>simclist.c: the lists it promises\<close>

text \<open>
  What a user of the library relies on: a list of pointers and the effect of each operation on it
  (\<open>list_spec\<close>). The heap implements it operation by operation, errors included, hence for every
  program of operations (\<open>implements\<close>), as long as the list stays below \<open>2 ^ 24\<close> elements.
\<close>

subsection \<open>Programs of operations\<close>

fun run_all :: "('o \<Rightarrow> 'c \<Rightarrow> ('r \<times> 'c) option) \<Rightarrow> 'o list \<Rightarrow> 'c \<Rightarrow> ('r list \<times> 'c) option" where
  "run_all run [] c = Some ([], c)"
| "run_all run (x # xs) c = do {
     (r, c) \<leftarrow> run x c;
     (rs, c) \<leftarrow> run_all run xs c;
     Some (r # rs, c) }"

fun spec_all :: "('o \<Rightarrow> 'a list \<Rightarrow> 'r \<times> 'a list) \<Rightarrow> 'o list \<Rightarrow> 'a list \<Rightarrow> 'r list \<times> 'a list" where
  "spec_all spec [] ds = ([], ds)"
| "spec_all spec (x # xs) ds =
     (let (r, ds) = spec x ds; (rs, ds) = spec_all spec xs ds in (r # rs, ds))"

locale implements =
  fixes holds :: "'c \<Rightarrow> 'a list \<Rightarrow> bool" and run :: "'o \<Rightarrow> 'c \<Rightarrow> ('r \<times> 'c) option"
    and spec :: "'o \<Rightarrow> 'a list \<Rightarrow> 'r \<times> 'a list" and cap :: nat
  assumes step: "holds c ds \<Longrightarrow> length ds < cap \<Longrightarrow>
      \<exists>c'. run x c = Some (fst (spec x ds), c') \<and> holds c' (snd (spec x ds))"
    and grows: "length (snd (spec x ds)) \<le> Suc (length ds)"
begin

lemma runs:
  assumes "holds c ds" and "length ds + length xs \<le> cap"
  shows "\<exists>c'. run_all run xs c = Some (fst (spec_all spec xs ds), c') \<and> holds c' (snd (spec_all spec xs ds))"
  using assms
proof (induction xs arbitrary: c ds)
  case (Cons x xs)
  obtain c' where c': "run x c = Some (fst (spec x ds), c')" "holds c' (snd (spec x ds))"
    using step [OF Cons.prems(1), of x] Cons.prems(2) by auto
  have "length (snd (spec x ds)) + length xs \<le> cap" using grows [of x ds] Cons.prems(2) by simp
  from Cons.IH [OF c'(2) this] c'(1) show ?case by (auto simp: split_beta)
qed simp

end

subsection \<open>The operations\<close>

datatype list_op =
    Append ptr | Prepend ptr | Insert_at ptr u32 | Get_at u32 | Fetch | Extract_at u32 | Delete_at u32
  | Delete_range u32 u32 | Clear

datatype list_answer = Code int | Data ptr

abbreviation answer :: "('r \<Rightarrow> list_answer) \<Rightarrow> ('r \<times> list_t \<times> list_mem) option \<Rightarrow> (list_answer \<times> list_t \<times> list_mem) option" where
  "answer f r \<equiv> map_option (\<lambda>(r, s). (f r, s)) r"

fun run_list_op :: "list_op \<Rightarrow> list_t \<times> list_mem \<Rightarrow> (list_answer \<times> list_t \<times> list_mem) option" where
  "run_list_op (Append d) (l, h) = answer Code (list_append l h d)"
| "run_list_op (Prepend d) (l, h) = answer Code (list_prepend l h d)"
| "run_list_op (Insert_at d pos) (l, h) = answer Code (list_insert_at l h d (unat pos))"
| "run_list_op (Get_at pos) (l, h) = answer Data (map_option (\<lambda>d. (d, l, h)) (list_get_at l h (unat pos)))"
| "run_list_op Fetch (l, h) = answer Data (list_fetch l h)"
| "run_list_op (Extract_at pos) (l, h) = answer Data (list_extract_at l h (unat pos))"
| "run_list_op (Delete_at pos) (l, h) = answer Code (list_delete_at l h (unat pos))"
| "run_list_op (Delete_range s t) (l, h) = answer Code (list_delete_range l h (unat s) (unat t))"
| "run_list_op Clear (l, h) = answer Code (list_clear l h)"

definition data_at :: "ptr list \<Rightarrow> nat \<Rightarrow> ptr" where
  "data_at ds pos = (if pos < length ds then ds ! pos else None)"

fun list_spec :: "list_op \<Rightarrow> ptr list \<Rightarrow> list_answer \<times> ptr list" where
  "list_spec (Append d) ds = (Code 1, ds @ [d])"
| "list_spec (Prepend d) ds = (Code 1, d # ds)"
| "list_spec (Insert_at d pos) ds = (if unat pos \<le> length ds then (Code 1, put_at (unat pos) d ds) else (Code (- 1), ds))"
| "list_spec (Get_at pos) ds = (Data (data_at ds (unat pos)), ds)"
| "list_spec Fetch ds = (Data (data_at ds 0), tl ds)"
| "list_spec (Extract_at pos) ds = (Data (data_at ds (unat pos)), cut_at (unat pos) ds)"
| "list_spec (Delete_at pos) ds = (if unat pos < length ds then (Code 0, cut_at (unat pos) ds) else (Code (- 1), ds))"
| "list_spec (Delete_range s t) ds =
     (if unat s \<le> unat t \<and> unat t < length ds
      then (Code (int (unat t - unat s + 1)), cut_range (unat s) (unat t - unat s + 1) ds) else (Code (- 1), ds))"
| "list_spec Clear ds = (Code (int (length ds)), [])"

subsection \<open>The heap implements them\<close>

definition heap_list :: "list_t \<times> list_mem \<Rightarrow> ptr list \<Rightarrow> bool" where
  "heap_list s ds \<longleftrightarrow> (case s of (l, h) \<Rightarrow>
     (\<exists>es. list_rep (entries h) l es ds) \<and> mem_wf h \<and> (\<forall>i. mem_ok h i) \<and> \<not> iter_active l \<and> copy_data (attrs l) = 0)"

lemma heap_listI:
  assumes "list_rep (entries h') l' es' ds'" "mem_wf h'" "frame A h h'" "\<not> iter_active l'" "attrs l' = attrs l"
    and "heap_list (l, h) ds"
  shows "heap_list (l', h') ds'"
  using assms by (auto simp: heap_list_def frame_def)

lemma heap_listE:
  assumes "heap_list (l, h) ds"
  obtains es where "list_rep (entries h) l es ds" "mem_wf h" "\<not> iter_active l" "has_room l h"
    "\<And>d. storable l h d" "\<And>p. disposable l h p" "\<And>ps. owned l h ps" "length es = length ds" "numels l = length ds"
    "copy_data (attrs l) = 0"
proof -
  obtain es where es: "list_rep (entries h) l es ds" using assms by (auto simp: heap_list_def)
  show thesis
    using assms list_repD(3,7) [OF es] es
    by (intro that [of es]) (auto simp: heap_list_def has_room_def storable_def disposable_def owned_def)
qed

lemma insert_implements:
  assumes hl: "heap_list (l, h) ds" and n: "length ds \<le> 2 ^ 24"
  shows "\<exists>l' h'. list_insert_at l h d pos = Some ((if pos \<le> length ds then 1 else - 1), l', h')
    \<and> heap_list (l', h') (if pos \<le> length ds then put_at pos d ds else ds)"
proof -
  obtain es where es: "list_rep (entries h) l es ds" "mem_wf h" "\<not> iter_active l" "has_room l h"
    "\<And>d. storable l h d" "length es = length ds" "numels l = length ds" "copy_data (attrs l) = 0"
    by (rule heap_listE [OF hl]) blast
  show ?thesis
  proof (cases "pos \<le> length ds")
    case True
    then have pos: "pos \<le> length es" "length es \<le> 2 ^ 24" using es(6) n by simp_all
    obtain x p l' h' where i: "list_insert_at l h d pos = Some (1, l', h')"
      "list_rep (entries h') l' (put_at pos x es) (put_at pos p ds)" "stored_as l h d p h'" "mem_wf h'"
      "frame (footprint l es) h h'" "attrs l' = attrs l" "\<not> iter_active l'"
      by (rule list_insert_at_ok [OF es(1,2,3) pos es(4,5)]) blast
    have "p = d" using i(3) es(8) by (simp add: stored_as_def)
    then show ?thesis using i True heap_listI [OF i(2,4,5,7,6) hl] by simp
  next
    case False
    then show ?thesis using es(7) hl by (simp add: list_insert_at_def)
  qed
qed

lemma get_implements:
  assumes hl: "heap_list (l, h) ds" and n: "length ds < 2 ^ 24" and u: "pos < 2 ^ 32"
  shows "list_get_at l h pos = Some (data_at ds pos)"
proof (cases "pos < length ds")
  case True
  obtain es where es: "list_rep (entries h) l es ds" "length es = length ds" by (rule heap_listE [OF hl]) blast
  then show ?thesis using list_get_at_ok [OF es(1), of pos] True n by (simp add: data_at_def)
next
  case False
  obtain es where es: "list_rep (entries h) l es ds" "length es = length ds" "numels l = length ds"
    by (rule heap_listE [OF hl]) blast
  obtain hs ts q q' where s: "head_sentinel l = Some hs" "tail_sentinel l = Some ts"
    "entries h hs = Some \<lparr>edata = None, enext = q, eprev = None\<rparr>"
    "entries h ts = Some \<lparr>edata = None, enext = None, eprev = q'\<rparr>"
    using list_rep_sentinels [OF es(1)] by metis
  have num: "c_int (numels l) = int (length es)" using es n by simp
  consider "c_int pos < - 1 \<or> c_int pos > int (length es)" | "c_int pos = - 1" | "c_int pos = int (length es)"
    using False es(2) u unfolding c_int_def by (cases "pos < 2 ^ 31") (simp_all, linarith+)
  then show ?thesis
  proof cases
    case 1
    then show ?thesis using False num by (simp add: list_get_at_def list_findpos_def data_at_def)
  next
    case 2
    have "list_findpos l h (- 1) = Some (Some (nodes l es ! nat (- 1 + 1)))"
      by (rule findpos_ok [OF es(1)]) (use es(2) n in simp_all)
    then have "list_findpos l h (c_int pos) = Some (Some hs)" using 2 s by simp
    then show ?thesis using False s by (simp add: list_get_at_def data_at_def)
  next
    case 3
    have "list_findpos l h (int (length es)) = Some (Some (nodes l es ! nat (int (length es) + 1)))"
      by (rule findpos_ok [OF es(1)]) (use es(2) n in simp_all)
    then have "list_findpos l h (c_int pos) = Some (Some ts)" using 3 s by (simp add: nth_append nat_add_distrib)
    then show ?thesis using False s by (simp add: list_get_at_def data_at_def)
  qed
qed

lemma extract_implements:
  assumes hl: "heap_list (l, h) ds" and n: "length ds < 2 ^ 24"
  shows "\<exists>l' h'. list_extract_at l h pos = Some (data_at ds pos, l', h') \<and> heap_list (l', h') (cut_at pos ds)"
proof -
  obtain es where es: "list_rep (entries h) l es ds" "mem_wf h" "\<not> iter_active l" "length es = length ds" "numels l = length ds"
    by (rule heap_listE [OF hl]) blast
  show ?thesis
  proof (cases "pos < length ds")
    case True
    then have "pos < length es" "length es \<le> 2 ^ 24" using es(4) n by simp_all
    then obtain l' h' where c: "list_extract_at l h pos = Some (ds ! pos, l', h')"
      "list_rep (entries h') l' (cut_at pos es) (cut_at pos ds)" "mem_wf h'" "frame (footprint l es) h h'"
      "attrs l' = attrs l" "\<not> iter_active l'"
      by (rule list_extract_at_ok [OF es(1,2,3)])
    then show ?thesis using True heap_listI [OF c(2,3,4,6,5) hl] by (simp add: data_at_def)
  next
    case False
    then show ?thesis using es(5) hl by (simp add: list_extract_at_def data_at_def)
  qed
qed

lemma delete_implements:
  assumes hl: "heap_list (l, h) ds" and n: "length ds < 2 ^ 24"
  shows "\<exists>l' h'. list_delete_at l h pos = Some ((if pos < length ds then 0 else - 1), l', h')
    \<and> heap_list (l', h') (if pos < length ds then cut_at pos ds else ds)"
proof -
  obtain es where es: "list_rep (entries h) l es ds" "mem_wf h" "\<not> iter_active l" "\<And>p. disposable l h p"
    "length es = length ds" "numels l = length ds" by (rule heap_listE [OF hl]) blast
  show ?thesis
  proof (cases "pos < length ds")
    case True
    then have "pos < length es" "length es \<le> 2 ^ 24" using es(5) n by simp_all
    then obtain l' h' where c: "list_delete_at l h pos = Some (0, l', h')"
      "list_rep (entries h') l' (cut_at pos es) (cut_at pos ds)" "mem_wf h'" "frame (footprint l es) h h'"
      "attrs l' = attrs l" "\<not> iter_active l'"
      by (rule list_delete_at_ok [OF es(1,2,3) _ _ es(4)])
    then show ?thesis using True heap_listI [OF c(2,3,4,6,5) hl] by simp
  next
    case False
    then show ?thesis using es(6) hl by (simp add: list_delete_at_def)
  qed
qed

lemma clear_implements:
  assumes hl: "heap_list (l, h) ds" and n: "length ds < 2 ^ 24"
  shows "\<exists>l' h'. list_clear l h = Some (int (length ds), l', h') \<and> heap_list (l', h') []"
proof -
  obtain es where es: "list_rep (entries h) l es ds" "mem_wf h" "\<not> iter_active l" "\<And>ps. owned l h ps"
    "length es = length ds" by (rule heap_listE [OF hl]) blast
  have n': "length es < 2 ^ 31" using es(5) n by simp
  obtain l' h' where c: "list_clear l h = Some (int (length es), l', h')" "list_rep (entries h') l' [] []" "mem_wf h'"
    "frame (footprint l es) h h'" "attrs l' = attrs l" "\<not> iter_active l'"
    by (rule list_clear_ok [OF es(1,2,3,4) n'])
  then show ?thesis using es(5) heap_listI [OF c(2,3,4,6,5) hl] by auto
qed

lemma delete_range_implements:
  fixes s t :: nat
  assumes hl: "heap_list (l, h) ds" and n: "length ds < 2 ^ 24"
  defines "ok \<equiv> s \<le> t \<and> t < length ds"
  shows "\<exists>l' h'. list_delete_range l h s t = Some ((if ok then int (t - s + 1) else - 1), l', h')
    \<and> heap_list (l', h') (if ok then cut_range s (t - s + 1) ds else ds)"
proof -
  obtain es where es: "list_rep (entries h) l es ds" "mem_wf h" "\<not> iter_active l" "\<And>ps. owned l h ps"
    "length es = length ds" "numels l = length ds" by (rule heap_listE [OF hl]) blast
  consider "\<not> ok" | "ok" "t - s + 1 = length ds" | "ok" "t - s + 1 < length ds" unfolding ok_def by linarith
  then show ?thesis
  proof cases
    case 1
    then have "t < s \<or> numels l \<le> t" unfolding ok_def es(6) by linarith
    then have "list_delete_range l h s t = Some (- 1, l, h)" by (simp add: list_delete_range_def)
    then show ?thesis using 1 hl by simp
  next
    case 2
    then have st: "s = 0" "t + 1 = length ds" unfolding ok_def by linarith+
    then have "list_delete_range l h s t = list_clear l h" using es(3,6) by (simp add: list_delete_range_def)
    then show ?thesis using 2 st clear_implements [OF hl n] by simp
  next
    case 3
    then have p: "length es \<le> 2 ^ 24" "s \<le> t" "t < length es" "t - s + 1 < length es" using n es(5) by (simp_all add: ok_def)
    obtain l' h' where c: "list_delete_range l h s t = Some (int (t - s + 1), l', h')"
      "list_rep (entries h') l' (cut_range s (t - s + 1) es) (cut_range s (t - s + 1) ds)" "mem_wf h'"
      "frame (footprint l es) h h'" "attrs l' = attrs l" "\<not> iter_active l'"
      by (rule list_delete_range_ok [OF es(1,2,3,4) p])
    then show ?thesis using 3(1) heap_listI [OF c(2,3,4,6,5) hl] by auto
  qed
qed

interpretation heap_lists: implements heap_list run_list_op list_spec "2 ^ 24"
proof
  fix s :: "list_t \<times> list_mem" and ds :: "ptr list" and x :: list_op
  assume hl: "heap_list s ds" and n: "length ds < 2 ^ 24"
  obtain l h where s: "s = (l, h)" by fastforce
  note hl = hl [unfolded s]
  have num: "numels l = length ds" by (rule heap_listE [OF hl]) blast
  show "\<exists>s'. run_list_op x s = Some (fst (list_spec x ds), s') \<and> heap_list s' (snd (list_spec x ds))"
  proof (cases x)
    case (Append d)
    then show ?thesis using insert_implements [OF hl less_imp_le [OF n], of d "length ds"] num s by (auto simp: list_append_def)
  next
    case (Prepend d)
    then show ?thesis using insert_implements [OF hl less_imp_le [OF n], of d 0] s by (auto simp: list_prepend_def)
  next
    case (Insert_at d pos)
    then show ?thesis using insert_implements [OF hl less_imp_le [OF n], of d "unat pos"] s by auto
  next
    case (Get_at pos)
    then show ?thesis using get_implements [OF hl n, of "unat pos"] hl s unsigned_less [of pos] by simp
  next
    case Fetch
    then show ?thesis using extract_implements [OF hl n, of 0] s by (auto simp: list_fetch_def drop_Suc)
  next
    case (Extract_at pos)
    then show ?thesis using extract_implements [OF hl n, of "unat pos"] s by auto
  next
    case (Delete_at pos)
    then show ?thesis using delete_implements [OF hl n, of "unat pos"] s by auto
  next
    case (Delete_range a b)
    then show ?thesis using delete_range_implements [OF hl n, of "unat a" "unat b"] s by auto
  next
    case Clear
    then show ?thesis using clear_implements [OF hl n] s by auto
  qed
next
  fix x :: list_op and ds :: "ptr list"
  show "length (snd (list_spec x ds)) \<le> Suc (length ds)" by (cases x) auto
qed

subsection \<open>Creating and filling a list\<close>

lemma init_heap_list:
  assumes "mem_wf h" and "\<forall>i. mem_ok h i"
  obtains l1 h1 where "list_init (Some l) h = Some (0, Some l1, h1)" "heap_list (l1, h1) []" "blocks h1 = blocks h"
    "unserializer (attrs l1) = None" "hasher (attrs l1) = None" "serializer (attrs l1) = None"
proof -
  obtain l1 h1 where i: "list_init (Some l) h = Some (0, Some l1, h1)" "list_rep (entries h1) l1 [] []" "mem_wf h1"
    "frame {} h h1" "blocks h1 = blocks h" "\<not> iter_active l1" "copy_data (attrs l1) = 0" "unserializer (attrs l1) = None"
    "hasher (attrs l1) = None" "serializer (attrs l1) = None"
    by (rule list_init_ok [OF assms(1), of l]) (use assms(2) in auto)
  then have "heap_list (l1, h1) []" using assms(2) by (auto simp: heap_list_def frame_def)
  then show thesis using that i(1,5,8-10) by blast
qed

text \<open>Appending, up to one element more than the lists that are answered right can have.\<close>

lemma list_append_ok:
  assumes "heap_list (l, h) ds" and "length ds \<le> 2 ^ 24"
  obtains l' h' where "list_append l h x = Some (1, l', h')" "heap_list (l', h') (ds @ [x])" "blocks h' = blocks h"
    "attrs l' = attrs l" "brk h \<le> brk h'"
proof -
  obtain es where es: "list_rep (entries h) l es ds" "mem_wf h" "\<not> iter_active l" "has_room l h"
    "storable l h x" "length es = length ds" "numels l = length ds" "copy_data (attrs l) = 0"
    by (rule heap_listE [OF assms(1)]) blast
  have n: "length ds \<le> length es" "length es \<le> 2 ^ 24" using es(6) assms(2) by simp_all
  obtain a p l1 h1 where i: "list_insert_at l h x (length ds) = Some (1, l1, h1)"
    "list_rep (entries h1) l1 (put_at (length ds) a es) (put_at (length ds) p ds)" "stored_as l h x p h1" "mem_wf h1"
    "frame (footprint l es) h h1" "attrs l1 = attrs l" "\<not> iter_active l1"
    by (rule list_insert_at_ok [OF es(1,2,3) n es(4,5)]) blast
  have p: "p = x" "blocks h1 = blocks h" using i(3) es(8) by (simp_all add: stored_as_def)
  have "heap_list (l1, h1) (ds @ [x])" using heap_listI [OF i(2,4,5,7,6) assms(1)] p by simp
  then show thesis using that i(1,5,6) p(2) es(7) by (simp add: list_append_def frame_def)
qed

lemma appends_ok:
  assumes "heap_list (l, h) ds" and "length ds + length xs \<le> 2 ^ 24 + 1"
  shows "\<exists>l' h'. run_all run_list_op (map Append xs) (l, h) = Some (replicate (length xs) (Code 1), l', h')
    \<and> heap_list (l', h') (ds @ xs) \<and> blocks h' = blocks h \<and> attrs l' = attrs l"
  using assms
proof (induction xs arbitrary: l h ds)
  case (Cons x xs)
  have n: "length ds \<le> 2 ^ 24" using Cons.prems(2) by simp
  obtain l1 h1 where i: "list_append l h x = Some (1, l1, h1)" "heap_list (l1, h1) (ds @ [x])" "blocks h1 = blocks h"
    "attrs l1 = attrs l" by (rule list_append_ok [OF Cons.prems(1) n])
  then obtain l2 h2 where r: "run_all run_list_op (map Append xs) (l1, h1) = Some (replicate (length xs) (Code 1), l2, h2)"
    "heap_list (l2, h2) ((ds @ [x]) @ xs)" "blocks h2 = blocks h1" "attrs l2 = attrs l1"
    using Cons.IH [of l1 h1 "ds @ [x]"] Cons.prems(2) by auto
  then show ?case using i(1,3,4) by simp
qed simp

end
