(* ===== verification/SimclistDump.thy ===== *)
theory SimclistDump
  imports SimclistSpec Util Pager
begin

section \<open>simclist.c: dumps of lists\<close>

text \<open>
  \<open>list_dump_*\<close> and \<open>list_restore_*\<close>. A file descriptor has the content of its file, a position and
  the number of bytes the file can have; one that cannot seek refuses \<open>lseek\<close>. A write that does not fit is
  short, and fails only when nothing fits. The machine has its low byte first, so that what \<open>htonl\<close> gives
  is written as \<open>enc4\<close>, and a plain integer reversed. \<open>size_t\<close> has \<open>szt\<close> bytes and the fields of a
  \<open>timeval\<close> have \<open>stv\<close>. Time and random number are parameters. \<open>errno\<close> is left out, and so are the
  buffers a serializer returns, which are released at once.
\<close>

subsection \<open>File descriptors\<close>

record dump_fd =
  fd_data :: bytes
  fd_pos :: nat
  fd_seekable :: bool
  fd_room :: nat

definition lseek :: "dump_fd \<Rightarrow> nat \<Rightarrow> dump_fd option" where
  "lseek fd p = (if fd_seekable fd then Some (fd\<lparr>fd_pos := p\<rparr>) else None)"

definition fd_write :: "dump_fd \<Rightarrow> bytes \<Rightarrow> bool \<times> dump_fd" where
  "fd_write fd bs =
     (if bs = [] then (True, fd)
      else if fd_room fd \<le> fd_pos fd then (False, fd)
      else let bs = take (fd_room fd - fd_pos fd) bs; p = fd_pos fd;
               c = fd_data fd @ replicate (p - length (fd_data fd)) 0
           in (True, fd\<lparr>fd_data := take p c @ bs @ drop (p + length bs) c, fd_pos := p + length bs\<rparr>))"

definition fd_read :: "dump_fd \<Rightarrow> nat \<Rightarrow> bytes \<times> dump_fd" where
  "fd_read fd n = (let bs = take n (drop (fd_pos fd) (fd_data fd)) in (bs, fd\<lparr>fd_pos := fd_pos fd + length bs\<rparr>))"

text \<open>A sequence of \<open>WRITE_ERRCHECK\<close> and one of \<open>READ_ERRCHECK\<close>.\<close>

fun write_all :: "dump_fd \<Rightarrow> bytes list \<Rightarrow> bool \<times> dump_fd" where
  "write_all fd [] = (True, fd)"
| "write_all fd (b # bs) = (let (ok, fd) = fd_write fd b in if ok then write_all fd bs else (False, fd))"

fun read_all :: "dump_fd \<Rightarrow> nat list \<Rightarrow> bytes list option \<times> dump_fd" where
  "read_all fd [] = (Some [], fd)"
| "read_all fd (n # ns) =
     (let (b, fd) = fd_read fd n
      in if length b \<noteq> n then (None, fd)
         else let (r, fd) = read_all fd ns in (map_option ((#) b) r, fd))"

subsection \<open>Dumping\<close>

abbreviation dump_version :: u16 where "dump_version \<equiv> 1"
abbreviation header_len :: nat where "header_len \<equiv> 30"

text \<open>\<open>dump_elements\<close> is the loop over the elements, with a serializer or straight from the data (the
  position is set back only with a serializer, \<open>back\<close>): it starts again when two elements differ in size.
  The size of an element is kept in 4 bytes, and \<open>size_t\<close> many are written.\<close>

definition size_prefix :: "nat \<Rightarrow> u32 \<Rightarrow> u32 \<Rightarrow> bytes list" where
  "size_prefix szt elemlen bufsize = (if elemlen = 0 then [take szt (rev (enc4 bufsize))] else [])"

partial_function (option) dump_elements ::
  "nat \<Rightarrow> bool \<Rightarrow> (ptr \<Rightarrow> (bytes \<times> u32) option) \<Rightarrow> list_t \<Rightarrow> list_mem \<Rightarrow> u32 \<Rightarrow> u32 \<Rightarrow> dump_fd \<Rightarrow> ptr \<Rightarrow>
   (bool \<times> u32 \<times> u32 \<times> dump_fd) option" where
  "dump_elements szt back elem l h elemlen totlistlen fd x =
     (if x = tail_sentinel l then Some (True, elemlen, totlistlen, fd)
      else do {
        e \<leftarrow> get_entry h x;
        (buf, bufsize) \<leftarrow> elem (edata e);
        let totlistlen = totlistlen + bufsize;
        if elemlen \<noteq> 0 \<and> elemlen \<noteq> bufsize
        then do {
          hd \<leftarrow> get_entry h (head_sentinel l);
          case (if back then lseek fd header_len else Some fd) of
            None \<Rightarrow> Some (False, 0, 0, fd)
          | Some fd \<Rightarrow> dump_elements szt back elem l h 0 0 fd (enext hd) }
        else do {
          assert_that (unat bufsize \<le> length buf);
          assert_that (elemlen \<noteq> 0 \<or> szt \<le> 4);
          let (ok, fd) = write_all fd (size_prefix szt elemlen bufsize @ [take (unat bufsize) buf]);
          if ok then dump_elements szt back elem l h elemlen totlistlen fd (enext e)
          else Some (False, elemlen, totlistlen, fd) } })"

definition metered :: "list_mem \<Rightarrow> element_meter \<Rightarrow> ptr \<Rightarrow> (bytes \<times> u32) option" where
  "metered h f d = do {
     n \<leftarrow> f (blocks h) d;
     Some (case Option.bind d (blocks h) of None \<Rightarrow> [] | Some bs \<Rightarrow> bs, of_nat n) }"

definition dump_content :: "nat \<Rightarrow> list_t \<Rightarrow> list_mem \<Rightarrow> dump_fd \<Rightarrow> (bool \<times> u32 \<times> u32 \<times> dump_fd) option" where
  "dump_content szt l h fd =
     (if numels l = 0 then Some (True, 0, 0, fd)
      else do {
        hd \<leftarrow> get_entry h (head_sentinel l);
        e \<leftarrow> get_entry h (enext hd);
        case serializer (attrs l) of
          Some f \<Rightarrow> do {
            (buf, elemlen) \<leftarrow> f (blocks h) (edata e);
            dump_elements szt True (f (blocks h)) l h elemlen 0 fd (enext hd) }
        | None \<Rightarrow>
            (case meter (attrs l) of
               None \<Rightarrow> Some (True, 0, 0, fd)
             | Some f \<Rightarrow> do {
                 n \<leftarrow> f (blocks h) (edata e);
                 dump_elements szt False (metered h f) l h (of_nat n) 0 fd (enext hd) }) })"

definition list_dump_filedescriptor ::
  "nat \<Rightarrow> u32 \<times> u32 \<Rightarrow> u32 \<Rightarrow> list_t \<Rightarrow> list_mem \<Rightarrow> dump_fd \<Rightarrow> (int \<times> dump_fd \<times> nat option) option" where
  "list_dump_filedescriptor szt time rndterm l h fd =
     (if meter (attrs l) = None \<and> serializer (attrs l) = None then Some (- 1, fd, None)
      else do {
        (rc, listhash) \<leftarrow> (if hasher (attrs l) \<noteq> None then list_hash l h else Some (0, Some 0));
        if rc \<noteq> 0 then Some (- 1, fd, None)
        else case lseek fd header_len of
          None \<Rightarrow> Some (- 1, fd, None)
        | Some fd \<Rightarrow> do {
            listhash \<leftarrow> listhash;
            (ok, elemlen, totlistlen, fd) \<leftarrow> dump_content szt l h fd;
            let (ok, fd) = (if ok then write_all fd [enc4 rndterm] else (False, fd));
            if \<not> ok then Some (- 1, fd, None) else do {
              let fd = (case lseek fd 0 of None \<Rightarrow> fd | Some fd \<Rightarrow> fd);
              let (ok, fd) = write_all fd [enc2 dump_version, enc4 (fst time), enc4 (snd time), enc4 rndterm,
                  enc4 totlistlen, enc4 (of_nat (numels l)), enc4 elemlen, rev (enc4 listhash)];
              Some (if ok then (0, fd, Some (32 + unat totlistlen)) else (- 1, fd, None)) } } })"

subsection \<open>Restoring\<close>

text \<open>\<open>restore_size\<close> is the size of the next element, read from the file when elements have a size each,
  and \<open>restore_buf\<close> the read into a buffer.\<close>

definition restore_size :: "u32 \<Rightarrow> dump_fd \<Rightarrow> u32 option \<times> dump_fd" where
  "restore_size elemlen fd =
     (if elemlen > 0 then (Some elemlen, fd)
      else case read_all fd [4] of (Some [b], fd) \<Rightarrow> (dec4 (rev b), fd) | (_, fd) \<Rightarrow> (None, fd))"

definition restore_buf :: "list_mem \<Rightarrow> dump_fd \<Rightarrow> ptr \<Rightarrow> nat \<Rightarrow> bytes option \<times> list_mem \<times> dump_fd" where
  "restore_buf h fd p n =
     (case p of
        None \<Rightarrow> if n = 0 then (Some [], h, fd) else (None, h, fd)
      | Some a \<Rightarrow>
          let (b, fd) = fd_read fd n
          in if length b = n then (Some b, h\<lparr>blocks := (blocks h)(a \<mapsto> b)\<rparr>, fd) else (None, h, fd))"

fun restore_copies ::
  "nat \<Rightarrow> u32 \<Rightarrow> list_t \<Rightarrow> list_mem \<Rightarrow> dump_fd \<Rightarrow> u32 \<Rightarrow> (bool \<times> u32 \<times> list_t \<times> list_mem \<times> dump_fd) option" where
  "restore_copies 0 elemlen l h fd tot = Some (True, tot, l, h, fd)"
| "restore_copies (Suc k) elemlen l h fd tot =
     (case restore_size elemlen fd of
        (None, fd) \<Rightarrow> Some (False, tot, l, h, fd)
      | (Some elsize, fd) \<Rightarrow>
          (let (buf, h) = malloc_block h (replicate (unat elsize) 0)
           in case restore_buf h fd buf (unat elsize) of
                (None, h, fd) \<Rightarrow> Some (False, tot, l, h, fd)
              | (Some b, h, fd) \<Rightarrow> do {
                  (rc, l, h) \<leftarrow> list_append l h buf;
                  restore_copies k elemlen l h fd (tot + elsize) }))"

fun restore_unserialized ::
  "element_unserializer \<Rightarrow> nat \<Rightarrow> u32 \<Rightarrow> ptr \<Rightarrow> list_t \<Rightarrow> list_mem \<Rightarrow> dump_fd \<Rightarrow> u32 \<Rightarrow> u32 \<Rightarrow>
   (bool \<times> u32 \<times> u32 \<times> list_t \<times> list_mem \<times> dump_fd) option" where
  "restore_unserialized f 0 elemlen buf l h fd totread totmem = Some (True, totread, totmem, l, h, fd)"
| "restore_unserialized f (Suc k) elemlen buf l h fd totread totmem =
     (case restore_size elemlen fd of
        (None, fd) \<Rightarrow> Some (False, totread, totmem, l, h, fd)
      | (Some elsize, fd) \<Rightarrow>
          (let (buf, h) = (if elemlen > 0 then (buf, h) else malloc_block h (replicate (unat elsize) 0))
           in case restore_buf h fd buf (unat elsize) of
                (None, h, fd) \<Rightarrow> Some (False, totread, totmem, l, h, fd)
              | (Some b, h, fd) \<Rightarrow> do {
                  (d, memsize, h) \<leftarrow> f b h;
                  (rc, l, h) \<leftarrow> list_append l h d;
                  restore_unserialized f k elemlen buf l h fd (totread + elsize) (totmem + memsize) }))"

definition restore_content ::
  "u32 \<Rightarrow> u32 \<Rightarrow> list_t \<Rightarrow> list_mem \<Rightarrow> dump_fd \<Rightarrow> (bool \<times> u32 \<times> u32 \<times> list_t \<times> list_mem \<times> dump_fd) option" where
  "restore_content nels elemlen l h fd =
     (case unserializer (attrs l) of
        None \<Rightarrow> do {
          (ok, tot, l, h, fd) \<leftarrow> restore_copies (unat nels) elemlen l h fd 0;
          let tot = (if elemlen > 0 then nels * elemlen else tot);
          Some (ok, tot, tot, l, h, fd) }
      | Some f \<Rightarrow> do {
          let (buf, h) = (if elemlen > 0 then malloc_block h (replicate (unat elemlen) 0) else (None, h));
          (ok, totread, totmem, l, h, fd) \<leftarrow> restore_unserialized f (unat nels) elemlen buf l h fd 0 0;
          Some (ok, if elemlen > 0 then nels * elemlen else totread, totmem, l, h, fd) })"

text \<open>\<open>cur_first\<close> says which of the two calls of \<open>lseek\<close> in the last comparison is made first, which C leaves
  open: made second, the position asked for is the end.\<close>

definition list_restore_filedescriptor ::
  "bool \<Rightarrow> list_t \<Rightarrow> list_mem \<Rightarrow> dump_fd \<Rightarrow> (int \<times> list_t \<times> list_mem \<times> dump_fd \<times> u32 option) option" where
  "list_restore_filedescriptor cur_first l h fd =
     (case read_all fd [2] of
        (Some [ver], fd) \<Rightarrow>
          if dec2 ver \<noteq> Some dump_version then Some (- 1, l, h, fd, None)
          else (case read_all fd [4, 4, 4, 4, 4, 4, 4] of
            (Some [sec, usec, rndterm, totlistlen, nels, elemlen, listhash], fd) \<Rightarrow> do {
              totlistlen \<leftarrow> dec4 totlistlen;
              nels \<leftarrow> dec4 nels;
              elemlen \<leftarrow> dec4 elemlen;
              (ok, totread, totmem, l, h, fd) \<leftarrow> restore_content nels elemlen l h fd;
              if \<not> ok then Some (- 1, l, h, fd, None)
              else case read_all fd [4] of
                (Some [tail], fd) \<Rightarrow>
                  if totread \<noteq> totlistlen \<and> dec4 tail = dec4 rndterm then Some (- 1, l, h, fd, None)
                  else let n = length (fd_data fd); fd' = (case lseek fd n of None \<Rightarrow> fd | Some fd \<Rightarrow> fd)
                       in if fd_seekable fd \<and> cur_first \<and> fd_pos fd \<noteq> n then Some (- 1, l, h, fd', None)
                          else Some (0, l, h, fd', Some totmem)
              | (_, fd) \<Rightarrow> Some (- 1, l, h, fd, None) }
          | (_, fd) \<Rightarrow> Some (- 1, l, h, fd, None))
      | (_, fd) \<Rightarrow> Some (- 1, l, h, fd, None))"

subsection \<open>What a dump says about itself\<close>

text \<open>\<open>ntohl\<close> takes the low four bytes of a field of a \<open>timeval\<close>. The number of bytes the dump occupies is
  not filled in.\<close>

record list_dump_info_t =
  version :: u16
  timestamp :: "u32 \<times> u32"
  list_size_field :: u32
  list_numels :: u32
  list_hash_field :: u32
  consistent :: bool

definition list_dump_getinfo_filedescriptor ::
  "nat \<Rightarrow> dump_fd \<Rightarrow> (int \<times> dump_fd \<times> list_dump_info_t option) option" where
  "list_dump_getinfo_filedescriptor stv fd =
     (case read_all fd [2] of
        (Some [ver], fd) \<Rightarrow> do {
          ver \<leftarrow> dec2 ver;
          if ver > dump_version then Some (- 1, fd, None)
          else case read_all fd [stv, stv, 4, 4, 4, 4, 4] of
            (Some [sec, usec, head, lsize, nels, elemlen, hash], fd) \<Rightarrow> do {
              sec \<leftarrow> dec4 (take 4 sec);
              usec \<leftarrow> dec4 (take 4 usec);
              lsize \<leftarrow> dec4 lsize;
              nels \<leftarrow> dec4 nels;
              elemlen \<leftarrow> dec4 elemlen;
              hash \<leftarrow> dec4 hash;
              let hop = (if elemlen > 0 then lsize else lsize + elemlen * nels);
              case lseek fd (fd_pos fd + unat hop) of
                None \<Rightarrow> Some (- 1, fd, None)
              | Some fd \<Rightarrow>
                  (case read_all fd [4] of
                     (Some [tail], fd) \<Rightarrow>
                       Some (0, fd, Some \<lparr>version = ver, timestamp = (sec, usec), list_size_field = lsize,
                         list_numels = nels, list_hash_field = hash, consistent = (dec4 head = dec4 tail)\<rparr>)
                   | (_, fd) \<Rightarrow> Some (- 1, fd, None)) }
          | (_, fd) \<Rightarrow> Some (- 1, fd, None) }
      | (_, fd) \<Rightarrow> Some (- 1, fd, None))"

subsection \<open>Files\<close>

text \<open>The return codes of the dump and the restore are dropped here.\<close>

definition open_fd :: "bytes \<Rightarrow> nat \<Rightarrow> dump_fd" where
  "open_fd c n = \<lparr>fd_data = c, fd_pos = 0, fd_seekable = True, fd_room = n\<rparr>"

definition list_dump_getinfo_file :: "nat \<Rightarrow> disk \<Rightarrow> string \<Rightarrow> (int \<times> list_dump_info_t option) option" where
  "list_dump_getinfo_file stv d filename =
     (case files d filename of
        None \<Rightarrow> Some (- 1, None)
      | Some c \<Rightarrow> do {
          (ret, fd, info) \<leftarrow> list_dump_getinfo_filedescriptor stv (open_fd c (room d));
          Some (ret, info) })"

definition list_dump_file ::
  "nat \<Rightarrow> u32 \<times> u32 \<Rightarrow> u32 \<Rightarrow> list_t \<Rightarrow> list_mem \<Rightarrow> disk \<Rightarrow> string \<Rightarrow> (int \<times> disk \<times> nat option) option" where
  "list_dump_file szt time rndterm l h d filename =
     (if files d filename = None \<and> \<not> may_create d filename then Some (- 1, d, None)
      else do {
        (rc, fd, len) \<leftarrow> list_dump_filedescriptor szt time rndterm l h (open_fd [] (room d));
        Some (0, d\<lparr>files := (files d)(filename \<mapsto> fd_data fd)\<rparr>, len) })"

definition list_restore_file ::
  "bool \<Rightarrow> list_t \<Rightarrow> list_mem \<Rightarrow> disk \<Rightarrow> string \<Rightarrow> (int \<times> list_t \<times> list_mem \<times> u32 option) option" where
  "list_restore_file cur_first l h d filename =
     (case files d filename of
        None \<Rightarrow> Some (- 1, l, h, None)
      | Some c \<Rightarrow> do {
          (rc, l, h, fd, len) \<leftarrow> list_restore_filedescriptor cur_first l h (open_fd c (room d));
          Some (0, l, h, len) })"

end
