(* ===== verification/SimclistDumpCorrect.thy ===== *)
theory SimclistDumpCorrect
  imports SimclistDump
begin

section \<open>simclist.c: a dump is restored\<close>

text \<open>
  Elements of one size, dumped and restored into an empty list: what the file holds and what the
  loops of the two functions do with it.
\<close>

subsection \<open>Writing\<close>

text \<open>\<open>padded\<close> is the content once the gap before the position has been filled.\<close>

definition padded :: "dump_fd \<Rightarrow> bytes" where
  "padded fd = fd_data fd @ replicate (fd_pos fd - length (fd_data fd)) 0"

definition grows_by :: "bytes \<Rightarrow> dump_fd \<Rightarrow> dump_fd \<Rightarrow> bool" where
  "grows_by bs fd fd' \<longleftrightarrow>
     padded fd' = padded fd @ bs \<and> fd_pos fd' = fd_pos fd + length bs \<and> length (fd_data fd') \<le> fd_pos fd'
     \<and> (if bs = [] then fd' = fd else fd_data fd' = padded fd') \<and> fd_seekable fd' = fd_seekable fd \<and> fd_room fd' = fd_room fd"

lemma grows_by_trans: "grows_by a fd fd' \<Longrightarrow> grows_by b fd' fd'' \<Longrightarrow> grows_by (a @ b) fd fd''"
  unfolding grows_by_def by (cases "a = []"; cases "b = []"; auto)

lemma fd_write_end:
  assumes "length (fd_data fd) \<le> fd_pos fd" and "fd_pos fd + length bs \<le> fd_room fd"
  shows "\<exists>fd'. fd_write fd bs = (True, fd') \<and> grows_by bs fd fd'"
proof (cases "bs = []")
  case True
  then show ?thesis using assms(1) by (simp add: fd_write_def grows_by_def)
next
  case False
  then have "fd_pos fd < fd_room fd" using assms(2) by (cases bs) auto
  then show ?thesis using False assms by (simp add: fd_write_def grows_by_def padded_def Let_def)
qed

lemma write_all_end:
  assumes "length (fd_data fd) \<le> fd_pos fd" and "fd_pos fd + length (concat bss) \<le> fd_room fd"
  shows "\<exists>fd'. write_all fd bss = (True, fd') \<and> grows_by (concat bss) fd fd'"
  using assms
proof (induction bss arbitrary: fd)
  case Nil
  then show ?case by (simp add: grows_by_def)
next
  case (Cons b bss)
  obtain fd1 where w: "fd_write fd b = (True, fd1)" "grows_by b fd fd1"
    using fd_write_end [of fd b] Cons.prems by auto
  obtain fd2 where "write_all fd1 bss = (True, fd2)" "grows_by (concat bss) fd1 fd2"
    using Cons.IH [of fd1] w(2) Cons.prems(2) by (auto simp: grows_by_def)
  then show ?case using w grows_by_trans by (auto intro: grows_by_trans)
qed

lemma write_all_inside:
  assumes "fd_pos fd + length (concat bss) \<le> length (fd_data fd)" and "length (fd_data fd) \<le> fd_room fd"
  shows "write_all fd bss = (True, fd\<lparr>fd_data := take (fd_pos fd) (fd_data fd) @ concat bss @
    drop (fd_pos fd + length (concat bss)) (fd_data fd), fd_pos := fd_pos fd + length (concat bss)\<rparr>)"
  using assms
proof (induction bss arbitrary: fd)
  case (Cons b bss)
  define fd1 where "fd1 = fd\<lparr>fd_data := take (fd_pos fd) (fd_data fd) @ b @ drop (fd_pos fd + length b) (fd_data fd),
    fd_pos := fd_pos fd + length b\<rparr>"
  have w: "fd_write fd b = (True, fd1)"
  proof (cases "b = []")
    case False
    then have "fd_pos fd < fd_room fd" using Cons.prems by (cases b) auto
    then show ?thesis using False Cons.prems by (simp add: fd_write_def fd1_def Let_def)
  qed (simp add: fd_write_def fd1_def)
  have "write_all fd1 bss = (True, fd1\<lparr>fd_data := take (fd_pos fd1) (fd_data fd1) @ concat bss @
    drop (fd_pos fd1 + length (concat bss)) (fd_data fd1), fd_pos := fd_pos fd1 + length (concat bss)\<rparr>)"
    by (rule Cons.IH) (use Cons.prems in \<open>simp_all add: fd1_def\<close>)
  then show ?case using w Cons.prems by (simp add: fd1_def ac_simps)
qed simp

lemma dump_elements_ok:
  assumes "chain (entries h) p es (Some t)" "t \<notin> set es" "holds_data h es ds" "tail_sentinel l = Some t"
    and "\<forall>d \<in> set ds. elem d = Some (buf d, n) \<and> unat n \<le> length (buf d)" and "n \<noteq> 0"
    and "length (fd_data fd) \<le> fd_pos fd" and "fd_pos fd + unat n * length ds \<le> fd_room fd"
  shows "\<exists>fd'. dump_elements szt back elem l h n tot fd (first_ptr es (Some t)) =
      Some (True, n, tot + of_nat (length ds) * n, fd')
    \<and> grows_by (concat (map (\<lambda>d. take (unat n) (buf d)) ds)) fd fd'"
  using assms
proof (induction es arbitrary: p ds tot fd)
  case Nil
  then show ?case by (auto simp: dump_elements.simps grows_by_def)
next
  case (Cons x es)
  obtain e ds' where e: "entries h x = Some e" "ds = edata e # ds'" "holds_data h es ds'" using Cons.prems(3) by auto
  have nx: "enext e = first_ptr es (Some t)" and xt: "x \<noteq> t" using Cons.prems e by auto
  have el: "elem (edata e) = Some (buf (edata e), n)" "unat n \<le> length (buf (edata e))" using Cons.prems(5) e(2) by auto
  obtain fd1 where w: "write_all fd [take (unat n) (buf (edata e))] = (True, fd1)"
    "grows_by (take (unat n) (buf (edata e))) fd fd1"
    using write_all_end [of fd "[take (unat n) (buf (edata e))]"] Cons.prems(7,8) el(2) e(2) by auto
  have "\<exists>fd'. dump_elements szt back elem l h n (tot + n) fd1 (first_ptr es (Some t)) =
      Some (True, n, (tot + n) + of_nat (length ds') * n, fd')
    \<and> grows_by (concat (map (\<lambda>d. take (unat n) (buf d)) ds')) fd1 fd'"
    by (rule Cons.IH [of "Some x"]) (use Cons.prems e w(2) el(2) in \<open>auto simp: grows_by_def\<close>)
  then obtain fd2 where "dump_elements szt back elem l h n (tot + n) fd1 (first_ptr es (Some t)) =
      Some (True, n, (tot + n) + of_nat (length ds') * n, fd2)"
    "grows_by (concat (map (\<lambda>d. take (unat n) (buf d)) ds')) fd1 fd2" by blast
  then show ?case using e(1,2) nx xt el w Cons.prems(4,6) grows_by_trans [OF w(2)]
    by (subst dump_elements.simps) (auto simp: assert_that_def size_prefix_def algebra_simps)
qed

subsection \<open>Reading\<close>

lemma fd_read_part:
  assumes "fd_data fd = a @ b @ c" and "fd_pos fd = length a"
  shows "fd_read fd (length b) = (b, fd\<lparr>fd_pos := length (a @ b)\<rparr>)"
  using assms by (simp add: fd_read_def)

lemma read_all_parts:
  assumes "fd_data fd = a @ concat bs @ c" and "fd_pos fd = length a" and "ns = map length bs"
  shows "read_all fd ns = (Some bs, fd\<lparr>fd_pos := length (a @ concat bs)\<rparr>)"
  using assms
proof (induction bs arbitrary: fd a ns)
  case (Cons b bs)
  define fd1 where "fd1 = fd\<lparr>fd_pos := length (a @ b)\<rparr>"
  have "fd_read fd (length b) = (b, fd1)" using fd_read_part [of fd a b "concat bs @ c"] Cons.prems by (simp add: fd1_def)
  moreover have "read_all fd1 (map length bs) = (Some bs, fd1\<lparr>fd_pos := length ((a @ b) @ concat bs)\<rparr>)"
    by (rule Cons.IH) (use Cons.prems in \<open>simp_all add: fd1_def\<close>)
  ultimately show ?case using Cons.prems(3) by (simp add: fd1_def)
qed simp

lemma block_heap_list:
  assumes "heap_list (l, h) ds"
  shows "malloc_block h bs = (Some (brk h), h\<lparr>blocks := (blocks h)(brk h \<mapsto> bs), brk := Suc (brk h)\<rparr>)"
    and "heap_list (l, h\<lparr>blocks := (blocks h)(brk h \<mapsto> bs), brk := Suc (brk h)\<rparr>) ds"
  using assms by (auto simp: heap_list_def malloc_block_def mem_wf_def)

lemma restore_copies_ok:
  assumes "heap_list (l, h) ds" and "length ds + length bss \<le> 2 ^ 24 + 1" and "n \<noteq> 0" and "\<forall>b \<in> set bss. length b = unat n"
    and "fd_data fd = a @ concat bss @ c" and "fd_pos fd = length a"
  shows "\<exists>l' h' ps. restore_copies (length bss) n l h fd tot =
      Some (True, tot + of_nat (length bss) * n, l', h', fd\<lparr>fd_pos := length (a @ concat bss)\<rparr>)
    \<and> heap_list (l', h') (ds @ ps) \<and> map (\<lambda>p. Option.bind p (blocks h')) ps = map Some bss
    \<and> (\<forall>b < brk h. blocks h' b = blocks h b) \<and> brk h \<le> brk h'"
  using assms
proof (induction bss arbitrary: l h ds fd a tot)
  case Nil
  then show ?case by (intro exI [of _ l] exI [of _ h] exI [of _ "[]"]) simp
next
  case (Cons b bss)
  define h1 where "h1 = h\<lparr>blocks := (blocks h)(brk h \<mapsto> b), brk := Suc (brk h)\<rparr>"
  define fd1 where "fd1 = fd\<lparr>fd_pos := length (a @ b)\<rparr>"
  have b: "length b = unat n" using Cons.prems(4) by simp
  have r: "fd_read fd (unat n) = (b, fd1)" using fd_read_part [of fd a b "concat bss @ c"] Cons.prems(5,6) b by (simp add: fd1_def)
  note h1 = block_heap_list [OF Cons.prems(1)]
  have hl: "heap_list (l, h1) ds" unfolding h1_def by (rule h1(2))
  have len: "length ds \<le> 2 ^ 24" using Cons.prems(2) by simp
  obtain l2 h2 where ap: "list_append l h1 (Some (brk h)) = Some (1, l2, h2)" "heap_list (l2, h2) (ds @ [Some (brk h)])"
    "blocks h2 = blocks h1" "brk h1 \<le> brk h2" by (rule list_append_ok [OF hl len])
  have "length (ds @ [Some (brk h)]) + length bss \<le> 2 ^ 24 + 1" using Cons.prems(2) by simp
  from Cons.IH [OF ap(2) this Cons.prems(3), of fd1 "a @ b" "tot + n"] Cons.prems(4,5)
  obtain l3 h3 ps where ih: "restore_copies (length bss) n l2 h2 fd1 (tot + n) =
      Some (True, tot + n + of_nat (length bss) * n, l3, h3, fd1\<lparr>fd_pos := length ((a @ b) @ concat bss)\<rparr>)"
    "heap_list (l3, h3) ((ds @ [Some (brk h)]) @ ps)" "map (\<lambda>p. Option.bind p (blocks h3)) ps = map Some bss"
    "\<forall>b < brk h2. blocks h3 b = blocks h2 b" "brk h2 \<le> brk h3" by (auto simp: fd1_def)
  have comm: "h\<lparr>brk := Suc (brk h), blocks := (blocks h)(brk h \<mapsto> b)\<rparr> = h1" by (simp add: h1_def)
  have "restore_copies (length (b # bss)) n l h fd tot =
      Some (True, tot + of_nat (length (b # bss)) * n, l3, h3, fd\<lparr>fd_pos := length (a @ concat (b # bss))\<rparr>)"
    using Cons.prems(3) r b ap(1) ih(1)
    by (simp add: restore_size_def word_neq_0_conv h1(1) restore_buf_def comm fd1_def algebra_simps)
  moreover have "blocks h3 (brk h) = Some b" "\<forall>b < brk h. blocks h3 b = blocks h b" "brk h \<le> brk h3"
    using ih(4,5) ap(3,4) by (simp_all add: h1_def)
  ultimately show ?case using ih(2,3) by (intro exI [of _ l3] exI [of _ h3] exI [of _ "Some (brk h) # ps"]) simp
qed

subsection \<open>A file written and read\<close>

definition header_fields :: "u32 \<times> u32 \<Rightarrow> u32 \<Rightarrow> u32 \<Rightarrow> nat \<Rightarrow> u32 \<Rightarrow> bytes list" where
  "header_fields time rndterm tot k elemlen =
     [enc4 (fst time), enc4 (snd time), enc4 rndterm, enc4 tot, enc4 (of_nat k), enc4 elemlen, rev (enc4 0)]"

definition dump_file_of :: "u32 \<times> u32 \<Rightarrow> u32 \<Rightarrow> nat \<Rightarrow> bytes list \<Rightarrow> bytes" where
  "dump_file_of time rndterm n bss =
     enc2 dump_version @ concat (header_fields time rndterm (of_nat (length bss * n)) (length bss) (if bss = [] then 0 else of_nat n))
       @ concat bss @ enc4 rndterm"

definition sized :: "list_mem \<Rightarrow> element_meter \<Rightarrow> nat \<Rightarrow> ptr list \<Rightarrow> bytes list \<Rightarrow> bool" where
  "sized h f n ds bss \<longleftrightarrow> 0 < n \<and> n * length ds < 2 ^ 32 \<and> map (\<lambda>d. Option.bind d (blocks h)) ds = map Some bss
     \<and> (\<forall>b \<in> set bss. length b = n) \<and> (\<forall>d \<in> set ds. f (blocks h) d = Some n)"

lemma length_sized: "\<forall>b \<in> set bss. length b = n \<Longrightarrow> length (concat bss) = length bss * n"
  by (induction bss) auto

lemma length_header [simp]: "length (concat (header_fields time r tot k e)) = 28"
  by (simp add: header_fields_def)

lemma dump_content_ok:
  assumes hl: "heap_list (l, h) ds" and m: "meter (attrs l) = Some f" "serializer (attrs l) = None" and sz: "sized h f n ds bss"
    and fd: "length (fd_data fd) \<le> fd_pos fd" "fd_pos fd + n * length ds \<le> fd_room fd"
  shows "\<exists>fd'. dump_content szt l h fd = Some (True, if bss = [] then 0 else of_nat n, of_nat (length bss * n), fd')
    \<and> grows_by (concat bss) fd fd'"
proof (cases ds)
  case Nil
  moreover have "numels l = length ds" by (rule heap_listE [OF hl])
  moreover have "bss = []" using sz Nil by (simp add: sized_def)
  ultimately show ?thesis using fd(1) by (simp add: dump_content_def grows_by_def)
next
  case (Cons d ds')
  obtain es where es: "list_rep (entries h) l es ds" "length es = length ds" "numels l = length ds" by (rule heap_listE [OF hl]) blast
  obtain eh t where s: "get_entry h (head_sentinel l) = Some eh" "enext eh = first_ptr es (Some t)" "tail_sentinel l = Some t"
    "t \<notin> set es" "chain (entries h) (head_sentinel l) es (Some t)" "holds_data h es ds"
    by (rule list_rep_loop [OF es(1)]) blast
  obtain x es' where x: "es = x # es'" using es(2) Cons by (cases es) auto
  obtain e where e: "entries h x = Some e" "edata e = d" using s(6) x Cons by auto
  define buf where "buf d = (case Option.bind d (blocks h) of None \<Rightarrow> [] | Some b \<Rightarrow> b)" for d
  have n32: "n < 2 ^ 32" and n0: "0 < n" using sz Cons by (auto simp: sized_def)
  have un: "unat (of_nat n :: u32) = n" using n32 by (simp add: unat_of_nat_small)
  have len: "length ds = length bss" using sz map_eq_imp_length_eq unfolding sized_def by blast
  have "map buf ds = map (case_option [] id) (map (\<lambda>d. Option.bind d (blocks h)) ds)" by (simp add: buf_def id_def)
  also have "\<dots> = bss" using sz unfolding sized_def by (simp add: comp_def)
  finally have bufs: "map buf ds = bss" .
  have el: "\<forall>d \<in> set ds. metered h f d = Some (buf d, of_nat n) \<and> unat (of_nat n :: u32) \<le> length (buf d)"
  proof
    fix d assume d: "d \<in> set ds"
    then have "buf d \<in> set bss" using bufs by auto
    then show "metered h f d = Some (buf d, of_nat n) \<and> unat (of_nat n :: u32) \<le> length (buf d)"
      using d sz un by (auto simp: metered_def sized_def buf_def)
  qed
  have nz: "(of_nat n :: u32) \<noteq> 0" using un n0 by (metis less_not_refl unat_0)
  have "fd_pos fd + unat (of_nat n :: u32) * length ds \<le> fd_room fd" using fd(2) un by simp
  from dump_elements_ok [OF s(5,4,6,3) el nz fd(1) this, of szt False 0]
  obtain fd' where "dump_elements szt False (metered h f) l h (of_nat n) 0 fd (first_ptr es (Some t)) =
      Some (True, of_nat n, of_nat (length ds) * of_nat n, fd')"
    "grows_by (concat (map (\<lambda>d. take (unat (of_nat n :: u32)) (buf d)) ds)) fd fd'" by auto
  moreover have "map (\<lambda>d. take (unat (of_nat n :: u32)) (buf d)) ds = bss"
    unfolding bufs [symmetric]
  proof (rule map_cong [OF refl])
    fix d assume "d \<in> set ds"
    then have "buf d \<in> set bss" using bufs by auto
    then show "take (unat (of_nat n :: u32)) (buf d) = buf d" using sz un by (simp add: sized_def)
  qed
  ultimately have de: "dump_elements szt False (metered h f) l h (of_nat n) 0 fd (first_ptr es (Some t)) =
      Some (True, of_nat n, of_nat (length bss * n), fd')" "grows_by (concat bss) fd fd'"
    using len by simp_all
  have "bss \<noteq> []" using len Cons by auto
  moreover have "f (blocks h) d = Some n" using sz Cons by (simp add: sized_def)
  moreover have "numels l \<noteq> 0" using es(3) Cons by simp
  ultimately have "dump_content szt l h fd = Some (True, if bss = [] then 0 else of_nat n, of_nat (length bss * n), fd')"
    using s(1,2) x e m de(1) by (simp add: dump_content_def get_entry_def)
  then show ?thesis using de(2) by blast
qed

lemma list_dump_ok:
  assumes hl: "heap_list (l, h) ds" and m: "meter (attrs l) = Some f" "serializer (attrs l) = None" "hasher (attrs l) = None"
    and sz: "sized h f n ds bss" and r: "34 + n * length ds \<le> r"
  shows "\<exists>fd. list_dump_filedescriptor szt time rndterm l h (open_fd [] r) = Some (0, fd, Some (32 + n * length ds))
    \<and> fd_data fd = dump_file_of time rndterm n bss"
proof -
  let ?fd = "\<lparr>fd_data = [], fd_pos = 30, fd_seekable = True, fd_room = r\<rparr>"
  have num: "numels l = length ds" by (rule heap_listE [OF hl])
  have len: "length ds = length bss" using sz map_eq_imp_length_eq unfolding sized_def by blast
  have cl: "length (concat bss) = n * length ds" using length_sized [of bss n] sz len by (simp add: sized_def)
  define el :: u32 where "el = (if bss = [] then 0 else of_nat n)"
  define tot :: u32 where "tot = of_nat (length bss * n)"
  obtain fd1 where c: "dump_content szt l h ?fd = Some (True, el, tot, fd1)" "grows_by (concat bss) ?fd fd1"
    using dump_content_ok [OF hl m(1,2) sz, of ?fd szt] r unfolding el_def tot_def by auto
  obtain fd2 where w: "write_all fd1 [enc4 rndterm] = (True, fd2)" "grows_by (enc4 rndterm) fd1 fd2"
    using write_all_end [of fd1 "[enc4 rndterm]"] c(2) r cl by (auto simp: grows_by_def)
  have "enc4 rndterm \<noteq> []" by (simp add: enc4_def)
  then have d2: "fd_data fd2 = replicate 30 0 @ concat bss @ enc4 rndterm" "fd_seekable fd2" "fd_room fd2 = r"
  proof -
    have "padded ?fd = replicate 30 0" by (simp add: padded_def)
    then show "fd_data fd2 = replicate 30 0 @ concat bss @ enc4 rndterm" "fd_seekable fd2" "fd_room fd2 = r"
      using c(2) w(2) \<open>enc4 rndterm \<noteq> []\<close> by (simp_all add: grows_by_def)
  qed
  define hs where "hs = enc2 dump_version # header_fields time rndterm tot (length bss) el"
  have hl30: "length (concat hs) = 30" by (simp add: hs_def)
  have "write_all (fd2\<lparr>fd_pos := 0\<rparr>) hs = (True, fd2\<lparr>fd_data := concat hs @ concat bss @ enc4 rndterm, fd_pos := 30\<rparr>)"
    using write_all_inside [of "fd2\<lparr>fd_pos := 0\<rparr>" hs] d2 r cl hl30 by simp
  moreover have "32 + unat tot = 32 + n * length ds"
    using sz len unat_of_nat_small [of "length bss * n", where 'a = 32]
    by (simp add: tot_def sized_def mult.commute del: of_nat_mult)
  ultimately have "list_dump_filedescriptor szt time rndterm l h (open_fd [] r) =
      Some (0, fd2\<lparr>fd_data := concat hs @ concat bss @ enc4 rndterm, fd_pos := 30\<rparr>, Some (32 + n * length ds))"
    using m c(1) w(1) d2(2) num len
    by (simp add: list_dump_filedescriptor_def open_fd_def lseek_def hs_def header_fields_def)
  then show ?thesis by (simp add: dump_file_of_def hs_def tot_def el_def)
qed

lemma dec4_rev_zero: "dec4 (rev (enc4 0)) = Some 0"
  by (simp add: enc4_def)

lemma list_restore_ok:
  assumes hl: "heap_list (l, h) []" and u: "unserializer (attrs l) = None" and n: "0 < n" "length bss * n < 2 ^ 32"
    and len: "length bss \<le> 2 ^ 24" and sz: "\<forall>b \<in> set bss. length b = n"
  shows "\<exists>l' h' fd' ps. list_restore_filedescriptor cur_first l h (open_fd (dump_file_of time rndterm n bss) r) =
      Some (0, l', h', fd', Some (of_nat (length bss * n)))
    \<and> heap_list (l', h') ps \<and> map (\<lambda>p. Option.bind p (blocks h')) ps = map Some bss
    \<and> (\<forall>b < brk h. blocks h' b = blocks h b)"
proof -
  define el :: u32 where "el = (if bss = [] then 0 else of_nat n)"
  define tot :: u32 where "tot = of_nat (length bss * n)"
  define hf where "hf = header_fields time rndterm tot (length bss) el"
  define c where "c = dump_file_of time rndterm n bss"
  have c: "c = enc2 dump_version @ concat hf @ concat bss @ enc4 rndterm" by (simp add: c_def dump_file_of_def hf_def tot_def el_def)
  define fd where "fd p = (open_fd c r)\<lparr>fd_pos := p\<rparr>" for p
  have r1: "read_all (fd 0) [2] = (Some [enc2 dump_version], fd 2)"
    using read_all_parts [of "fd 0" "[]" "[enc2 dump_version]" _ "[2]"] by (simp add: fd_def open_fd_def c)
  have hl28: "length (concat hf) = 28" by (simp add: hf_def)
  have r2: "read_all (fd 2) [4, 4, 4, 4, 4, 4, 4] = (Some hf, fd 30)"
    using read_all_parts [of "fd 2" "enc2 dump_version" hf "concat bss @ enc4 rndterm" "[4, 4, 4, 4, 4, 4, 4]"] hl28
    by (simp add: fd_def open_fd_def c) (simp add: hf_def header_fields_def)
  have nn: "unat (of_nat (length bss) :: u32) = length bss" using len by (simp add: unat_of_nat_small)
  have un: "bss \<noteq> [] \<Longrightarrow> unat (of_nat n :: u32) = n" using n by (cases bss) (auto simp: unat_of_nat_small)
  have "\<exists>l' h' ps. restore_content (of_nat (length bss)) el l h (fd 30) = Some (True, tot, tot, l', h', fd (30 + length (concat bss)))
    \<and> heap_list (l', h') ps \<and> map (\<lambda>p. Option.bind p (blocks h')) ps = map Some bss \<and> (\<forall>b < brk h. blocks h' b = blocks h b)"
  proof (cases "bss = []")
    case True
    then show ?thesis using hl u
      by (intro exI [of _ l] exI [of _ h] exI [of _ "[]"]) (simp add: restore_content_def el_def tot_def)
  next
    case False
    have el: "el \<noteq> 0" "unat el = n" using un [OF False] n(1) False by (auto simp: el_def)
    have "fd_data (fd 30) = (enc2 dump_version @ concat hf) @ concat bss @ enc4 rndterm"
      "fd_pos (fd 30) = length (enc2 dump_version @ concat hf)" by (simp_all add: fd_def open_fd_def c hl28)
    from restore_copies_ok [OF hl _ el(1) _ this, of 0] len sz el(2)
    obtain l' h' ps where x: "restore_copies (length bss) el l h (fd 30) 0 =
        Some (True, of_nat (length bss) * el, l', h', (fd 30)\<lparr>fd_pos := length ((enc2 dump_version @ concat hf) @ concat bss)\<rparr>)"
      "heap_list (l', h') ps" "map (\<lambda>p. Option.bind p (blocks h')) ps = map Some bss" "\<forall>b < brk h. blocks h' b = blocks h b"
      by auto
    have "of_nat (length bss) * el = tot" using False by (simp add: tot_def el_def)
    moreover have "(fd 30)\<lparr>fd_pos := length ((enc2 dump_version @ concat hf) @ concat bss)\<rparr> = fd (30 + length (concat bss))"
      using hl28 by (simp add: fd_def)
    ultimately have "restore_content (of_nat (length bss)) el l h (fd 30) =
        Some (True, tot, tot, l', h', fd (30 + length (concat bss)))"
      using x(1) u el(1) nn by (simp add: restore_content_def word_neq_0_conv)
    then show ?thesis using x(2-4) by blast
  qed
  then obtain l' h' ps where rc: "restore_content (of_nat (length bss)) el l h (fd 30) =
      Some (True, tot, tot, l', h', fd (30 + length (concat bss)))"
    "heap_list (l', h') ps" "map (\<lambda>p. Option.bind p (blocks h')) ps = map Some bss" "\<forall>b < brk h. blocks h' b = blocks h b"
    by blast
  have r3: "read_all (fd (30 + length (concat bss))) [4] = (Some [enc4 rndterm], fd (34 + length (concat bss)))"
    using read_all_parts [of "fd (30 + length (concat bss))" "enc2 dump_version @ concat hf @ concat bss" "[enc4 rndterm]" "[]" "[4]"] hl28
    by (simp add: fd_def open_fd_def c)
  have lc: "length c = 34 + length (concat bss)" using hl28 by (simp add: c)
  have "list_restore_filedescriptor cur_first l h (fd 0) = Some (0, l', h', fd (length c), Some tot)"
    using r1 r2 r3 rc(1) lc
    by (simp add: list_restore_filedescriptor_def hf_def header_fields_def lseek_def) (simp add: fd_def open_fd_def)
  moreover have "fd 0 = open_fd c r" by (simp add: fd_def open_fd_def)
  ultimately show ?thesis using rc(2-4) unfolding c_def tot_def by auto
qed

end
