(* ===== verification/SimclistFile.thy ===== *)
theory SimclistFile
  imports DbmFile SimclistSpec
begin

section \<open>The lists of a program file\<close>

text \<open>
  What \<open>dbm-file.c\<close> does with its two lists on the heap: \<open>__chidb_dbm_file_load\<close> creates them and
  appends a block for every line of results and every register, \<open>chidb_dbm_file_close\<close> walks
  through each, frees what its entries hold, and destroys it. \<open>DbmFile\<close> has the same lists as values,
  and what the lines mean is taken from there; here are the allocations each line makes, those
  nothing frees included: the copy of a register's line, the array of its tokens, the text of
  a string. What the lines of the other sections allocate is left out.
\<close>

subsection \<open>Loading and closing\<close>

definition file_lists_init :: "list_t \<Rightarrow> list_t \<Rightarrow> list_mem \<Rightarrow> (list_t \<times> list_t \<times> list_mem) option" where
  "file_lists_init q r h = do {
     (rc, qo, h) \<leftarrow> list_init (Some q) h;
     (rc, ro, h) \<leftarrow> list_init (Some r) h;
     q \<leftarrow> qo;
     r \<leftarrow> ro;
     Some (q, r, h) }"

definition write_block :: "list_mem \<Rightarrow> Simclist.ptr \<Rightarrow> bytes \<Rightarrow> list_mem option" where
  "write_block h p b =
     (case p of
        None \<Rightarrow> None
      | Some a \<Rightarrow> if blocks h a = None then None else Some (h\<lparr>blocks := (blocks h)(a \<mapsto> b)\<rparr>))"

text \<open>The copy of a line once \<open>chidb_tokenize\<close> has cut it into tokens, and the text \<open>strdup\<close> copies for a
  string register.\<close>

definition marked_line :: "string \<Rightarrow> string" where
  "marked_line line = takeWhile isspace line @ snd (mark_tokens (dropWhile isspace line)) @ [Nul]"

definition register_text :: "file_register \<Rightarrow> bytes option" where
  "register_text r = (case fr_reg r of Reg_String s \<Rightarrow> if fr_has_value r then Some s else None | _ \<Rightarrow> None)"

text \<open>The tests of \<open>__chidb_dbm_file_parse_register\<close> before the type; when one fails the copy of the
  line is freed, when the type is unknown it is not.\<close>

definition register_number_ok :: "string list \<Rightarrow> bool" where
  "register_number_ok tokens \<longleftrightarrow>
     (length tokens = 2 \<or> length tokens = 3) \<and>
     \<not> ((tokens ! 0) ! 0 \<noteq> CHR ''R'' \<and> (tokens ! 0) ! 1 \<noteq> CHR ''_'') \<and>
     (case atoi (c_string (drop 2 (tokens ! 0))) of None \<Rightarrow> False | Some n \<Rightarrow> 0 \<le> sint n)"

text \<open>\<open>layout\<close> is the representation of a register in its block, given the address of its text.\<close>

definition parse_register_mem ::
  "(nat \<Rightarrow> string) \<Rightarrow> (file_register \<Rightarrow> Simclist.ptr \<Rightarrow> bytes) \<Rightarrow> string \<Rightarrow> Simclist.ptr \<Rightarrow> list_mem \<Rightarrow> (int \<times> list_mem) option" where
  "parse_register_mem slack layout line reg h =
     (let (linedup, h) = malloc_block h (bytes_of (marked_line line))
      in if linedup = None then Some (CHIDB_ENOMEM, h)
         else do {
           let (arr, h) = malloc_array h;
           assert_that (arr \<noteq> None);
           tokens \<leftarrow> chidb_tokenize slack line;
           (rc, res) \<leftarrow> chidb_dbm_file_parse_register slack line;
           if rc = CHIDB_OK then do {
             r \<leftarrow> res;
             let (val, h) = (case register_text r of None \<Rightarrow> (None, h) | Some s \<Rightarrow> malloc_block h (s @ [0]));
             h \<leftarrow> write_block h reg (layout r val);
             Some (CHIDB_OK, h) }
           else if register_number_ok tokens then do { assert_that (reg \<noteq> None); Some (rc, h) }
           else do { h \<leftarrow> free_block h linedup; Some (rc, h) } })"

text \<open>The lines of the sections of results and of registers. A row is stored in a block as long as its
  line; the bytes behind its end are never read. \<open>sql\<close> says that the program was SQL.\<close>

datatype file_line = Result_line string | Register_line string

fun add_line ::
  "(nat \<Rightarrow> string) \<Rightarrow> (file_register \<Rightarrow> Simclist.ptr \<Rightarrow> bytes) \<Rightarrow> bool \<Rightarrow> file_line
    \<Rightarrow> u32 \<times> list_t \<times> list_t \<times> list_mem \<Rightarrow> (int \<times> u32 \<times> list_t \<times> list_t \<times> list_mem) option" where
  "add_line slack layout sql (Result_line line) (nCols, q, r, h) = do {
     (rc, row, n) \<leftarrow> chidb_dbm_file_read_rr line;
     let (p, h) = malloc_block h (bytes_of row @ [0]);
     assert_that (p \<noteq> None);
     if rc \<noteq> CHIDB_OK then Some (rc, nCols, q, r, h)
     else if nCols = 0 \<or> sql then do {
       (_, q, h) \<leftarrow> list_append q h p;
       Some (CHIDB_OK, n, q, r, h) }
     else if nCols \<noteq> n then Some (CHIDB_EPARSE, nCols, q, r, h)
     else do {
       (_, q, h) \<leftarrow> list_append q h p;
       Some (CHIDB_OK, nCols, q, r, h) } }"
| "add_line slack layout sql (Register_line line) (nCols, q, r, h) =
     (let (reg, h) = malloc_block h []
      in do {
        (rc, h) \<leftarrow> parse_register_mem slack layout line reg h;
        if rc \<noteq> CHIDB_OK then do { h \<leftarrow> free_block h reg; Some (rc, nCols, q, r, h) }
        else do {
          (_, r, h) \<leftarrow> list_append r h reg;
          Some (CHIDB_OK, nCols, q, r, h) } })"

fun add_lines ::
  "(nat \<Rightarrow> string) \<Rightarrow> (file_register \<Rightarrow> Simclist.ptr \<Rightarrow> bytes) \<Rightarrow> bool \<Rightarrow> file_line list
    \<Rightarrow> u32 \<times> list_t \<times> list_t \<times> list_mem \<Rightarrow> (int \<times> u32 \<times> list_t \<times> list_t \<times> list_mem) option" where
  "add_lines slack layout sql [] s = Some (CHIDB_OK, s)"
| "add_lines slack layout sql (x # xs) s = do {
     (rc, s) \<leftarrow> add_line slack layout sql x s;
     if rc \<noteq> CHIDB_OK then Some (rc, s) else add_lines slack layout sql xs s }"

partial_function (option) free_elements :: "list_t \<Rightarrow> list_mem \<Rightarrow> (list_t \<times> list_mem) option" where
  "free_elements l h =
     (if list_iterator_hasnext l
      then do {
        (p, l) \<leftarrow> list_iterator_next l h;
        h \<leftarrow> free_block h p;
        free_elements l h }
      else Some (l, h))"

definition close_list :: "list_t \<Rightarrow> list_mem \<Rightarrow> list_mem option" where
  "close_list l h = do {
     (started, l) \<leftarrow> list_iterator_start l h;
     (l, h) \<leftarrow> free_elements l h;
     let (stopped, l) = list_iterator_stop l;
     list_destroy l h }"

definition file_lists_close :: "list_t \<Rightarrow> list_t \<Rightarrow> list_mem \<Rightarrow> list_mem option" where
  "file_lists_close q r h = do { h \<leftarrow> close_list q h; close_list r h }"

text \<open>A file is loaded, and closed when the load has succeeded.\<close>

definition file_lists ::
  "(nat \<Rightarrow> string) \<Rightarrow> (file_register \<Rightarrow> Simclist.ptr \<Rightarrow> bytes) \<Rightarrow> bool \<Rightarrow> list_t \<Rightarrow> list_t \<Rightarrow> file_line list
    \<Rightarrow> list_mem \<Rightarrow> (int \<times> list_mem) option" where
  "file_lists slack layout sql q r xs h = do {
     (q, r, h) \<leftarrow> file_lists_init q r h;
     (rc, nCols, q, r, h) \<leftarrow> add_lines slack layout sql xs (0, q, r, h);
     if rc \<noteq> CHIDB_OK then Some (rc, h)
     else do { h \<leftarrow> file_lists_close q r h; Some (CHIDB_OK, h) } }"

text \<open>The lines that load: the rows have as many columns as the first (or the program was SQL), the
  registers parse. What a line leaves behind: of a register its line, and the text of a string.\<close>

fun lines_ok :: "(nat \<Rightarrow> string) \<Rightarrow> bool \<Rightarrow> u32 \<Rightarrow> file_line list \<Rightarrow> bool" where
  "lines_ok slack sql nCols [] = True"
| "lines_ok slack sql nCols (Result_line line # xs) =
     (case chidb_dbm_file_read_rr line of
        None \<Rightarrow> False
      | Some (rc, row, n) \<Rightarrow> (nCols = 0 \<or> sql \<or> nCols = n) \<and> lines_ok slack sql n xs)"
| "lines_ok slack sql nCols (Register_line line # xs) =
     ((case chidb_dbm_file_parse_register slack line of
         Some (rc, Some r) \<Rightarrow> rc = CHIDB_OK
       | _ \<Rightarrow> False) \<and> lines_ok slack sql nCols xs)"

fun line_leaks :: "(nat \<Rightarrow> string) \<Rightarrow> file_line \<Rightarrow> bytes list" where
  "line_leaks slack (Result_line line) = []"
| "line_leaks slack (Register_line line) =
     bytes_of (marked_line line) #
       (case chidb_dbm_file_parse_register slack line of
          Some (_, Some r) \<Rightarrow> (case register_text r of None \<Rightarrow> [] | Some s \<Rightarrow> [s @ [0]])
        | _ \<Rightarrow> [])"

fun array_leaks :: "file_line list \<Rightarrow> nat" where
  "array_leaks [] = 0"
| "array_leaks (Result_line line # xs) = array_leaks xs"
| "array_leaks (Register_line line # xs) = Suc (array_leaks xs)"

subsection \<open>Closing one list\<close>

definition without :: "blocks \<Rightarrow> ptr set \<Rightarrow> blocks" where
  "without m D = (\<lambda>b. if Some b \<in> D then None else m b)"

lemma free_elements_ok:
  assumes "list_rep (entries h) l es ds" "iter_at l es k" "k \<le> length es" "length es < 2 ^ 31"
    and "distinct ds" "\<forall>p \<in> set (drop k ds). \<exists>b. p = Some b \<and> blocks h b \<noteq> None"
  shows "\<exists>l'. free_elements l h = Some (l', h\<lparr>blocks := without (blocks h) (set (drop k ds))\<rparr>)
    \<and> list_rep (entries h) l' es ds \<and> footprint l' es = footprint l es \<and> attrs l' = attrs l"
  using assms
proof (induction "length es - k" arbitrary: k l h)
  case 0
  then have "k = length es" by simp
  moreover have "length ds = length es" by (rule list_repD(7) [OF 0(2)])
  ultimately have "free_elements l h = Some (l, h)" "without (blocks h) (set (drop k ds)) = blocks h"
    using list_iterator_hasnext_ok [OF 0(2,3)] by (simp_all add: free_elements.simps without_def)
  then show ?case using 0(2) by simp
next
  case (Suc n)
  then have k: "k < length es" by simp
  have len: "length ds = length es" by (rule list_repD(7) [OF Suc.prems(1)])
  obtain l1 where l1: "list_iterator_next l h = Some (ds ! k, l1)" "list_rep (entries h) l1 es ds" "iter_at l1 es (Suc k)"
    "footprint l1 es = footprint l es" "attrs l1 = attrs l"
    using list_iterator_next_ok [OF Suc.prems(1,2) k] Suc.prems(4) by auto
  have dk: "drop k ds = ds ! k # drop (Suc k) ds" using k len by (simp add: Cons_nth_drop_Suc)
  then obtain b where b: "ds ! k = Some b" "blocks h b \<noteq> None" using Suc.prems(6) by auto
  define h1 where "h1 = h\<lparr>blocks := (blocks h)(b := None)\<rparr>"
  have "distinct (drop k ds)" by (rule distinct_drop [OF Suc.prems(5)])
  then have nb: "Some b \<notin> set (drop (Suc k) ds)" using dk b by simp
  have "\<exists>l'. free_elements l1 h1 = Some (l', h1\<lparr>blocks := without (blocks h1) (set (drop (Suc k) ds))\<rparr>)
    \<and> list_rep (entries h1) l' es ds \<and> footprint l' es = footprint l1 es \<and> attrs l' = attrs l1"
  proof (rule Suc.hyps(1))
    show "n = length es - Suc k" using Suc.hyps(2) by simp
    show "\<forall>p \<in> set (drop (Suc k) ds). \<exists>b. p = Some b \<and> blocks h1 b \<noteq> None"
    proof
      fix p assume p: "p \<in> set (drop (Suc k) ds)"
      then obtain c where "p = Some c" "blocks h c \<noteq> None" using Suc.prems(6) dk by auto
      then show "\<exists>b. p = Some b \<and> blocks h1 b \<noteq> None" using p nb by (auto simp: h1_def)
    qed
  qed (use Suc.prems l1 k in \<open>simp_all add: h1_def\<close>)
  moreover have "without ((blocks h)(b := None)) (set (drop (Suc k) ds)) = without (blocks h) (set (drop k ds))"
    using dk b by (auto simp: without_def fun_eq_iff)
  moreover have "free_elements l h = free_elements l1 h1"
    using list_iterator_hasnext_ok [OF Suc.prems(1,2)] k l1(1) b
    by (subst free_elements.simps) (auto simp: free_block_def h1_def)
  ultimately show ?case using l1(4,5) by (auto simp: h1_def)
qed

lemma iterator_array [keeps_arrays]:
  "list_iterator_start l h = Some (b, l') \<Longrightarrow> spare_array l' = spare_array l"
  "list_iterator_next l h = Some (p, l') \<Longrightarrow> spare_array l' = spare_array l"
  "list_iterator_stop l = (b, l') \<Longrightarrow> spare_array l' = spare_array l"
  by (auto simp: list_iterator_start_def list_iterator_next_def list_iterator_stop_def bind_eq_Some_conv split: if_splits)

lemma free_elements_arrays [keeps_arrays]:
  assumes "free_elements l h = Some (l', h')"
  shows "arrays h' = arrays h \<and> spare_array l' = spare_array l"
proof -
  have "arrays (snd r) = arrays h \<and> spare_array (fst r) = spare_array l" if "free_elements l h = Some r" for r
    using that
  proof (induction rule: free_elements.raw_induct [rotated 1, consumes 1, case_names step])
    case (step f l h r)
    obtain l' h' where r: "r = (l', h')" by (cases r)
    show ?case
    proof (cases "list_iterator_hasnext l")
      case True
      then obtain p l1 h1 where s: "list_iterator_next l h = Some (p, l1)" "free_block h p = Some h1" "f l1 h1 = Some r"
        using step.hyps by (auto simp: bind_Some_conv)
      show ?thesis using step.IH [OF s(3)] keeps_arrays(1-5) iterator_array(2) [OF s(1)] free_arrays(2) [OF s(2)] by simp
    next
      case False
      then show ?thesis using step.hyps r by auto
    qed
  qed
  from this [OF assms] show ?thesis by simp
qed

lemma close_list_ok:
  assumes rep: "list_rep (entries h) l es ds" and wf: "mem_wf h" and it: "\<not> iter_active l"
    and n: "length es < 2 ^ 31" and c: "copy_data (attrs l) = 0"
    and d: "distinct ds" "\<forall>p \<in> set ds. \<exists>b. p = Some b \<and> blocks h b \<noteq> None"
    and arr: "spare_array l = Some b" "b \<in> arrays h"
  obtains h' where "close_list l h = Some h'" "\<And>a. entries h' a = (if a \<in> footprint l es then None else entries h a)"
    "blocks h' = without (blocks h) (set ds)" "brk h' = brk h" "mem_ok h' = mem_ok h"
    "arrays h' = arrays h - {b}"
proof -
  obtain l1 where l1: "list_iterator_start l h = Some (True, l1)" "list_rep (entries h) l1 es ds" "iter_at l1 es 0"
    "footprint l1 es = footprint l es" "attrs l1 = attrs l"
    using list_iterator_start_ok [OF rep it] by auto
  define h1 where "h1 = h\<lparr>blocks := without (blocks h) (set ds)\<rparr>"
  obtain l2 where l2: "free_elements l1 h = Some (l2, h1)" "list_rep (entries h) l2 es ds"
    "footprint l2 es = footprint l es" "attrs l2 = attrs l"
    using free_elements_ok [OF l1(2,3) _ n d(1)] d(2) l1(4,5) by (auto simp: h1_def)
  define l3 where "l3 = snd (list_iterator_stop l2)"
  have l3: "list_rep (entries h1) l3 es ds" "\<not> iter_active l3" "footprint l3 es = footprint l es" "attrs l3 = attrs l"
    using l2 by (auto simp: l3_def list_iterator_stop_def h1_def footprint_def spares_def)
  have wf1: "mem_wf h1" using wf by (auto simp: mem_wf_def h1_def without_def)
  have own: "owned l3 h1 ds" using c l3(4) by (simp add: owned_def)
  have arr3: "spare_array l3 = Some b" "b \<in> arrays h1" "arrays h1 = arrays h"
    using iterator_array(1) [OF l1(1)] free_elements_arrays [OF l2(1)] arr
    by (auto simp: l3_def list_iterator_stop_def h1_def)
  obtain h' where h': "list_destroy l3 h1 = Some h'" "\<And>a. a \<in> footprint l3 es \<Longrightarrow> entries h' a = None"
    "frame (footprint l3 es) h1 h'" "mem_wf h'" "blocks h' = dispose_all l3 (blocks h1) ds" "brk h' = brk h1"
    "arrays h' = arrays h1 - {b}"
    by (rule list_destroy_ok [OF l3(1) wf1 l3(2) own n arr3(1,2)]) blast
  have "close_list l h = Some h'"
    using l1(1) l2(1) h'(1) by (simp add: close_list_def l3_def split_beta)
  moreover have "entries h' a = (if a \<in> footprint l es then None else entries h a)" for a
  proof (cases "a < brk h")
    case True
    then show ?thesis using h'(2,3) l3(3) by (auto simp: frame_def h1_def)
  next
    case False
    then show ?thesis using h'(4,6) wf by (auto simp: mem_wf_def h1_def)
  qed
  moreover have "blocks h' = without (blocks h) (set ds)"
    using h'(5) dispose_all_none [of l3] c l3(4) by (simp add: h1_def)
  ultimately show thesis using h'(3,6,7) arr3(3) that [of h'] by (simp add: h1_def frame_def)
qed

subsection \<open>Both lists\<close>

text \<open>
  \<open>two_lists g h q eq dq r er dr\<close>: the heap \<open>h\<close> is the heap \<open>g\<close> with the two lists, their arrays and the
  blocks their entries hold, and nothing else; \<open>g\<close> is what a release of the lists must leave.
\<close>

definition plain_list :: "list_mem \<Rightarrow> list_t \<Rightarrow> nat list \<Rightarrow> Simclist.ptr list \<Rightarrow> bool" where
  "plain_list h l es ds \<longleftrightarrow> list_rep (entries h) l es ds \<and> \<not> iter_active l \<and> copy_data (attrs l) = 0"

definition two_lists :: "list_mem \<Rightarrow> list_mem \<Rightarrow> list_t \<Rightarrow> nat list \<Rightarrow> Simclist.ptr list \<Rightarrow> list_t \<Rightarrow> nat list
    \<Rightarrow> Simclist.ptr list \<Rightarrow> bool" where
  "two_lists g h q eq dq r er dr \<longleftrightarrow>
     plain_list h q eq dq \<and> plain_list h r er dr \<and> mem_wf h \<and> (\<forall>i. mem_ok h i) \<and> (\<forall>a \<in> arrays h. a < brk h)
     \<and> footprint q eq \<inter> footprint r er = {}
     \<and> (\<forall>a. a \<notin> footprint q eq \<longrightarrow> a \<notin> footprint r er \<longrightarrow> entries h a = entries g a)
     \<and> (\<forall>a \<in> footprint q eq \<union> footprint r er. entries g a = None)
     \<and> distinct dq \<and> distinct dr \<and> set dq \<inter> set dr = {}
     \<and> (\<forall>p \<in> set dq \<union> set dr. \<exists>b. p = Some b \<and> blocks g b = None \<and> blocks h b \<noteq> None)
     \<and> (\<forall>b. Some b \<notin> set dq \<union> set dr \<longrightarrow> blocks h b = blocks g b)
     \<and> (\<exists>a b. spare_array q = Some a \<and> spare_array r = Some b \<and> a \<noteq> b \<and> a \<notin> arrays g \<and> b \<notin> arrays g
          \<and> arrays h = insert a (insert b (arrays g)))"

lemma two_listsD:
  assumes "two_lists g h q eq dq r er dr"
  shows "list_rep (entries h) q eq dq" and "\<not> iter_active q" and "copy_data (attrs q) = 0"
    and "list_rep (entries h) r er dr" and "\<not> iter_active r" and "copy_data (attrs r) = 0"
    and "mem_wf h" and "\<And>i. mem_ok h i" and "\<And>a. a \<in> arrays h \<Longrightarrow> a < brk h"
    and "footprint q eq \<inter> footprint r er = {}"
    and "\<And>a. a \<notin> footprint q eq \<Longrightarrow> a \<notin> footprint r er \<Longrightarrow> entries h a = entries g a"
    and "\<And>a. a \<in> footprint q eq \<union> footprint r er \<Longrightarrow> entries g a = None"
    and "distinct dq" and "distinct dr" and "set dq \<inter> set dr = {}"
    and "\<And>p. p \<in> set dq \<union> set dr \<Longrightarrow> \<exists>b. p = Some b \<and> blocks g b = None \<and> blocks h b \<noteq> None"
    and "\<And>b. Some b \<notin> set dq \<union> set dr \<Longrightarrow> blocks h b = blocks g b"
    and "\<exists>a b. spare_array q = Some a \<and> spare_array r = Some b \<and> a \<noteq> b \<and> a \<notin> arrays g \<and> b \<notin> arrays g
          \<and> arrays h = insert a (insert b (arrays g))"
proof -
  note t = assms [unfolded two_lists_def plain_list_def]
  show "list_rep (entries h) q eq dq" using t by (elim conjE)
  show "\<not> iter_active q" using t by (elim conjE)
  show "copy_data (attrs q) = 0" using t by (elim conjE)
  show "list_rep (entries h) r er dr" using t by (elim conjE)
  show "\<not> iter_active r" using t by (elim conjE)
  show "copy_data (attrs r) = 0" using t by (elim conjE)
  show "mem_wf h" using t by (elim conjE)
  show "footprint q eq \<inter> footprint r er = {}" using t by (elim conjE)
  show "distinct dq" using t by (elim conjE)
  show "distinct dr" using t by (elim conjE)
  show "set dq \<inter> set dr = {}" using t by (elim conjE)
  show "\<exists>a b. spare_array q = Some a \<and> spare_array r = Some b \<and> a \<noteq> b \<and> a \<notin> arrays g \<and> b \<notin> arrays g
          \<and> arrays h = insert a (insert b (arrays g))" using t by (elim conjE)
  have i: "\<forall>i. mem_ok h i" using t by (elim conjE)
  have a: "\<forall>a \<in> arrays h. a < brk h" using t by (elim conjE)
  have e: "\<forall>a. a \<notin> footprint q eq \<longrightarrow> a \<notin> footprint r er \<longrightarrow> entries h a = entries g a" using t by (elim conjE)
  have n: "\<forall>a \<in> footprint q eq \<union> footprint r er. entries g a = None" using t by (elim conjE)
  have d: "\<forall>p \<in> set dq \<union> set dr. \<exists>b. p = Some b \<and> blocks g b = None \<and> blocks h b \<noteq> None" using t by (elim conjE)
  have o: "\<forall>b. Some b \<notin> set dq \<union> set dr \<longrightarrow> blocks h b = blocks g b" using t by (elim conjE)
  show "\<And>i. mem_ok h i" "\<And>a. a \<in> arrays h \<Longrightarrow> a < brk h" using i a by blast+
  show "\<And>a. a \<notin> footprint q eq \<Longrightarrow> a \<notin> footprint r er \<Longrightarrow> entries h a = entries g a" using e by blast
  show "\<And>a. a \<in> footprint q eq \<union> footprint r er \<Longrightarrow> entries g a = None" using n by blast
  show "\<And>p. p \<in> set dq \<union> set dr \<Longrightarrow> \<exists>b. p = Some b \<and> blocks g b = None \<and> blocks h b \<noteq> None" using d by blast
  show "\<And>b. Some b \<notin> set dq \<union> set dr \<Longrightarrow> blocks h b = blocks g b" using o by blast
qed

lemma two_listsI:
  assumes "list_rep (entries h) q eq dq" and "\<not> iter_active q" and "copy_data (attrs q) = 0"
    and "list_rep (entries h) r er dr" and "\<not> iter_active r" and "copy_data (attrs r) = 0"
    and "mem_wf h" and "\<And>i. mem_ok h i" and "\<And>a. a \<in> arrays h \<Longrightarrow> a < brk h"
    and "footprint q eq \<inter> footprint r er = {}"
    and "\<And>a. a \<notin> footprint q eq \<Longrightarrow> a \<notin> footprint r er \<Longrightarrow> entries h a = entries g a"
    and "\<And>a. a \<in> footprint q eq \<union> footprint r er \<Longrightarrow> entries g a = None"
    and "distinct dq" and "distinct dr" and "set dq \<inter> set dr = {}"
    and "\<And>p. p \<in> set dq \<union> set dr \<Longrightarrow> \<exists>b. p = Some b \<and> blocks g b = None \<and> blocks h b \<noteq> None"
    and "\<And>b. Some b \<notin> set dq \<union> set dr \<Longrightarrow> blocks h b = blocks g b"
    and "\<exists>a b. spare_array q = Some a \<and> spare_array r = Some b \<and> a \<noteq> b \<and> a \<notin> arrays g \<and> b \<notin> arrays g
          \<and> arrays h = insert a (insert b (arrays g))"
  shows "two_lists g h q eq dq r er dr"
  unfolding two_lists_def plain_list_def
  by (intro conjI allI ballI impI; (rule assms; assumption?)?)

lemma two_lists_swap:
  assumes "two_lists g h q eq dq r er dr"
  shows "two_lists g h r er dr q eq dq"
proof -
  note t = two_listsD [OF assms]
  show ?thesis
  proof (rule two_listsI)
    show "footprint r er \<inter> footprint q eq = {}" "set dr \<inter> set dq = {}" using t(10,15) by blast+
    show "\<exists>a b. spare_array r = Some a \<and> spare_array q = Some b \<and> a \<noteq> b \<and> a \<notin> arrays g \<and> b \<notin> arrays g
          \<and> arrays h = insert a (insert b (arrays g))" 
      using t(18) by (elim exE) (auto simp: insert_commute)
    show "entries h a = entries g a" if "a \<notin> footprint r er" "a \<notin> footprint q eq" for a using t(11) that by blast
    show "entries g a = None" if "a \<in> footprint r er \<union> footprint q eq" for a using t(12) that by blast
    show "\<exists>b. p = Some b \<and> blocks g b = None \<and> blocks h b \<noteq> None" if "p \<in> set dr \<union> set dq" for p using t(16) that by blast
    show "blocks h b = blocks g b" if "Some b \<notin> set dr \<union> set dq" for b using t(17) that by blast
  qed (fact t)+
qed

lemma two_lists_fresh:
  assumes tl: "two_lists g h q eq dq r er dr" and a: "brk h \<le> a"
  shows "blocks g a = None" and "a \<notin> arrays g" and "Some a \<notin> set dq \<union> set dr" and "blocks h a = None"
proof -
  note t = two_listsD [OF tl]
  show h: "blocks h a = None" using t(7) a by (simp add: mem_wf_def)
  show n: "Some a \<notin> set dq \<union> set dr" using t(16) [of "Some a"] h by blast
  show "blocks g a = None" using t(17) [OF n] h by simp
  show "a \<notin> arrays g" using t(18) t(9) [of a] a by auto
qed

text \<open>The lists do not notice what happens to other blocks and arrays.\<close>

lemma two_lists_other:
  assumes tl: "two_lists g h q eq dq r er dr"
    and h: "entries h' = entries h" "\<And>i. mem_ok h' i" "mem_wf h'" "arrays h' = arrays h \<union> A" "\<And>a. a \<in> arrays h' \<Longrightarrow> a < brk h'"
    and g: "entries g' = entries g" "arrays g' = arrays g \<union> A" "A \<inter> arrays h = {}"
    and data: "\<And>b. Some b \<in> set dq \<union> set dr \<Longrightarrow> blocks g' b = blocks g b \<and> blocks h' b = blocks h b"
    and other: "\<And>b. Some b \<notin> set dq \<union> set dr \<Longrightarrow> blocks h' b = blocks g' b"
  shows "two_lists g' h' q eq dq r er dr"
proof -
  note t = two_listsD [OF tl]
  show ?thesis
  proof (rule two_listsI)
    show "list_rep (entries h') q eq dq" "list_rep (entries h') r er dr" using t(1,4) h(1) by simp_all
    show "entries h' a = entries g' a" if "a \<notin> footprint q eq" "a \<notin> footprint r er" for a
      using t(11) that h(1) g(1) by simp
    show "entries g' a = None" if "a \<in> footprint q eq \<union> footprint r er" for a using t(12) [OF that] g(1) by simp
    show "\<exists>b. p = Some b \<and> blocks g' b = None \<and> blocks h' b \<noteq> None" if p: "p \<in> set dq \<union> set dr" for p
      using t(16) [OF p] data p by auto
    obtain a b where ab: "spare_array q = Some a" "spare_array r = Some b" "a \<noteq> b" "a \<notin> arrays g" "b \<notin> arrays g"
      "arrays h = insert a (insert b (arrays g))" using t(18) by blast
    then show "\<exists>a b. spare_array q = Some a \<and> spare_array r = Some b \<and> a \<noteq> b \<and> a \<notin> arrays g' \<and> b \<notin> arrays g' \<and>
        arrays h' = insert a (insert b (arrays g'))"
      using h(4) g(2,3) by auto
  qed (use t(2,3,5,6,10,13,14,15) h(2,3,5) other in blast)+
qed

text \<open>A block, an array that nobody frees; the content of a block that belongs to no list.\<close>

lemma two_lists_leak_block:
  assumes tl: "two_lists g h q eq dq r er dr"
  shows "malloc_block h c = (Some (brk h), h\<lparr>blocks := (blocks h)(brk h \<mapsto> c), brk := Suc (brk h)\<rparr>)"
    and "two_lists (g\<lparr>blocks := (blocks g)(brk h \<mapsto> c)\<rparr>) (h\<lparr>blocks := (blocks h)(brk h \<mapsto> c), brk := Suc (brk h)\<rparr>) q eq dq r er dr"
proof -
  note t = two_listsD [OF tl]
  show "malloc_block h c = (Some (brk h), h\<lparr>blocks := (blocks h)(brk h \<mapsto> c), brk := Suc (brk h)\<rparr>)"
    using t(8) by (simp add: malloc_block_def)
  have n: "Some (brk h) \<notin> set dq \<union> set dr" by (rule two_lists_fresh(3) [OF tl order_refl])
  show "two_lists (g\<lparr>blocks := (blocks g)(brk h \<mapsto> c)\<rparr>) (h\<lparr>blocks := (blocks h)(brk h \<mapsto> c), brk := Suc (brk h)\<rparr>) q eq dq r er dr"
  proof (rule two_lists_other [OF tl, of _ "{}"])
    show "a < brk (h\<lparr>blocks := (blocks h)(brk h \<mapsto> c), brk := Suc (brk h)\<rparr>)"
      if "a \<in> arrays (h\<lparr>blocks := (blocks h)(brk h \<mapsto> c), brk := Suc (brk h)\<rparr>)" for a
      using t(9) [of a] that by simp
    fix b assume "Some b \<in> set dq \<union> set dr"
    then have "b \<noteq> brk h" using n by blast
    then show "blocks (g\<lparr>blocks := (blocks g)(brk h \<mapsto> c)\<rparr>) b = blocks g b \<and>
        blocks (h\<lparr>blocks := (blocks h)(brk h \<mapsto> c), brk := Suc (brk h)\<rparr>) b = blocks h b" by simp
  next
    fix b assume "Some b \<notin> set dq \<union> set dr"
    then show "blocks (h\<lparr>blocks := (blocks h)(brk h \<mapsto> c), brk := Suc (brk h)\<rparr>) b =
        blocks (g\<lparr>blocks := (blocks g)(brk h \<mapsto> c)\<rparr>) b" using t(17) [of b] by simp
  qed (use t(7,8) in \<open>simp_all add: mem_wf_def\<close>)
qed

lemma two_lists_leak_array:
  assumes tl: "two_lists g h q eq dq r er dr"
  shows "malloc_array h = (Some (brk h), h\<lparr>arrays := insert (brk h) (arrays h), brk := Suc (brk h)\<rparr>)"
    and "two_lists (g\<lparr>arrays := insert (brk h) (arrays g)\<rparr>) (h\<lparr>arrays := insert (brk h) (arrays h), brk := Suc (brk h)\<rparr>) q eq dq r er dr"
proof -
  note t = two_listsD [OF tl]
  show "malloc_array h = (Some (brk h), h\<lparr>arrays := insert (brk h) (arrays h), brk := Suc (brk h)\<rparr>)"
    using t(8) by (simp add: malloc_array_def)
  show "two_lists (g\<lparr>arrays := insert (brk h) (arrays g)\<rparr>) (h\<lparr>arrays := insert (brk h) (arrays h), brk := Suc (brk h)\<rparr>) q eq dq r er dr"
  proof (rule two_lists_other [OF tl, of _ "{brk h}"])
    show "{brk h} \<inter> arrays h = {}" using t(9) by blast
    show "a < brk (h\<lparr>arrays := insert (brk h) (arrays h), brk := Suc (brk h)\<rparr>)"
      if "a \<in> arrays (h\<lparr>arrays := insert (brk h) (arrays h), brk := Suc (brk h)\<rparr>)" for a
      using t(9) [of a] that by auto
    fix b assume "Some b \<notin> set dq \<union> set dr"
    then show "blocks (h\<lparr>arrays := insert (brk h) (arrays h), brk := Suc (brk h)\<rparr>) b =
        blocks (g\<lparr>arrays := insert (brk h) (arrays g)\<rparr>) b" using t(17) [of b] by simp
  qed (use t(7,8) in \<open>simp_all add: mem_wf_def\<close>)
qed

lemma two_lists_write:
  assumes tl: "two_lists g h q eq dq r er dr" and p: "blocks g p \<noteq> None"
  shows "write_block h (Some p) c = Some (h\<lparr>blocks := (blocks h)(p \<mapsto> c)\<rparr>)"
    and "two_lists (g\<lparr>blocks := (blocks g)(p \<mapsto> c)\<rparr>) (h\<lparr>blocks := (blocks h)(p \<mapsto> c)\<rparr>) q eq dq r er dr"
proof -
  note t = two_listsD [OF tl]
  have n: "Some p \<notin> set dq \<union> set dr" using t(16) [of "Some p"] p by auto
  have al: "blocks h p \<noteq> None" using t(17) [OF n] p by simp
  then show "write_block h (Some p) c = Some (h\<lparr>blocks := (blocks h)(p \<mapsto> c)\<rparr>)" by (simp add: write_block_def)
  have lt: "p < brk h" using t(7) al by (metis mem_wf_def not_le)
  show "two_lists (g\<lparr>blocks := (blocks g)(p \<mapsto> c)\<rparr>) (h\<lparr>blocks := (blocks h)(p \<mapsto> c)\<rparr>) q eq dq r er dr"
  proof (rule two_lists_other [OF tl, of _ "{}"])
    show "a < brk (h\<lparr>blocks := (blocks h)(p \<mapsto> c)\<rparr>)" if "a \<in> arrays (h\<lparr>blocks := (blocks h)(p \<mapsto> c)\<rparr>)" for a
      using t(9) [of a] that by simp
    fix b assume "Some b \<in> set dq \<union> set dr"
    then have "b \<noteq> p" using n by blast
    then show "blocks (g\<lparr>blocks := (blocks g)(p \<mapsto> c)\<rparr>) b = blocks g b \<and> blocks (h\<lparr>blocks := (blocks h)(p \<mapsto> c)\<rparr>) b = blocks h b"
      by simp
  next
    fix b assume "Some b \<notin> set dq \<union> set dr"
    then show "blocks (h\<lparr>blocks := (blocks h)(p \<mapsto> c)\<rparr>) b = blocks (g\<lparr>blocks := (blocks g)(p \<mapsto> c)\<rparr>) b"
      using t(17) [of b] by simp
  qed (use t(7,8) lt in \<open>simp_all add: mem_wf_def\<close>)
qed

text \<open>A block that belonged to no list goes into the first of the two.\<close>

lemma two_lists_append:
  assumes tl: "two_lists g h q eq dq r er dr" and p: "blocks g p \<noteq> None" and n: "length eq \<le> 2 ^ 24"
  obtains q' h' x where "list_append q h (Some p) = Some (1, q', h')" "brk h \<le> brk h'"
    "two_lists (g\<lparr>blocks := (blocks g)(p := None)\<rparr>) h' q' (eq @ [x]) (dq @ [Some p]) r er dr"
proof -
  note t = two_listsD [OF tl]
  have np: "Some p \<notin> set dq \<union> set dr" using t(16) [of "Some p"] p by auto
  have al: "blocks h p \<noteq> None" using t(17) [OF np] p by simp
  have st: "has_room q h" "storable q h (Some p)" using t(3,8) by (auto simp: has_room_def storable_def)
  obtain x p' q' h' where i: "list_insert_at q h (Some p) (length eq) = Some (1, q', h')"
    "list_rep (entries h') q' (put_at (length eq) x eq) (put_at (length eq) p' dq)" "stored_as q h (Some p) p' h'" "mem_wf h'"
    "frame (footprint q eq) h h'" "footprint q' (put_at (length eq) x eq) = insert x (footprint q eq)"
    "x \<in> footprint q eq \<or> brk h \<le> x" "\<And>a. a \<notin> insert x (footprint q eq) \<Longrightarrow> entries h' a = entries h a"
    "attrs q' = attrs q" "\<not> iter_active q'"
    by (rule list_insert_at_ok [OF t(1,7,2) order_refl n st]) blast+
  have len: "length dq = length eq" "numels q = length eq" using list_repD(3,7) [OF t(1)] by auto
  have p': "p' = Some p" and bl: "blocks h' = blocks h" using i(3) t(3) by (auto simp: stored_as_def)
  have b: "brk h \<le> brk h'" "mem_ok h' = mem_ok h" using i(5) by (simp_all add: frame_def)
  have ar: "arrays h' = arrays h" "spare_array q' = spare_array q" using list_insert_at_arrays [OF i(1)] by auto
  have xr: "x \<notin> footprint r er"
    using i(7) t(10) footprint_below [OF t(4,7), of x] by fastforce
  have gx: "entries g x = None"
  proof (cases "x \<in> footprint q eq")
    case True
    then show ?thesis using t(12) by blast
  next
    case False
    then have "entries h x = None" using i(7) t(7) by (auto simp: mem_wf_def)
    then show ?thesis using t(11) [OF False xr] by simp
  qed
  have "two_lists (g\<lparr>blocks := (blocks g)(p := None)\<rparr>) h' q' (eq @ [x]) (dq @ [Some p]) r er dr"
  proof (rule two_listsI)
    show "list_rep (entries h') q' (eq @ [x]) (dq @ [Some p])" using i(2) len p' by simp
    have same: "entries h' a = entries h a" if "a \<in> footprint r er" for a
    proof (rule i(8))
      show "a \<notin> insert x (footprint q eq)" using that xr t(10) by blast
    qed
    show "list_rep (entries h') r er dr"
      using t(4) same list_rep_cong [of r er "entries h'" "entries h" dr] by blast
    have foot: "footprint q' (eq @ [x]) = insert x (footprint q eq)" using i(6) len by simp
    show "footprint q' (eq @ [x]) \<inter> footprint r er = {}" unfolding foot using xr t(10) by blast
    show "entries h' a = entries (g\<lparr>blocks := (blocks g)(p := None)\<rparr>) a"
      if "a \<notin> footprint q' (eq @ [x])" "a \<notin> footprint r er" for a
      using i(8) [of a] t(11) [of a] that foot by simp
    show "entries (g\<lparr>blocks := (blocks g)(p := None)\<rparr>) a = None" if "a \<in> footprint q' (eq @ [x]) \<union> footprint r er" for a
      using t(12) [of a] gx that foot by auto
    show "distinct (dq @ [Some p])" "set (dq @ [Some p]) \<inter> set dr = {}" using t(13,15) np by auto
    show "\<exists>b. p' = Some b \<and> blocks (g\<lparr>blocks := (blocks g)(p := None)\<rparr>) b = None \<and> blocks h' b \<noteq> None"
      if "p' \<in> set (dq @ [Some p]) \<union> set dr" for p'
      using that t(16) [of p'] al bl by auto
    show "blocks h' b = blocks (g\<lparr>blocks := (blocks g)(p := None)\<rparr>) b" if "Some b \<notin> set (dq @ [Some p]) \<union> set dr" for b
      using that t(17) [of b] bl by simp
    show "a < brk h'" if "a \<in> arrays h'" for a using t(9) [of a] that ar b by simp
    show "\<exists>a b. spare_array q' = Some a \<and> spare_array r = Some b \<and> a \<noteq> b \<and> a \<notin> arrays (g\<lparr>blocks := (blocks g)(p := None)\<rparr>)
        \<and> b \<notin> arrays (g\<lparr>blocks := (blocks g)(p := None)\<rparr>) \<and> arrays h' = insert a (insert b (arrays (g\<lparr>blocks := (blocks g)(p := None)\<rparr>)))"
      using t(18) ar by simp
  qed (use t(3,5,6,8,14) i(4,9,10) b(2) in simp_all)
  moreover have "list_append q h (Some p) = Some (1, q', h')" using i(1) len by (simp add: list_append_def)
  ultimately show thesis using that b(1) by blast
qed

subsection \<open>The lines\<close>

text \<open>\<open>g\<close> with the blocks and arrays that are left behind.\<close>

definition leaked :: "list_mem \<Rightarrow> (nat \<times> bytes) list \<Rightarrow> nat set \<Rightarrow> list_mem" where
  "leaked g lk A = g\<lparr>blocks := blocks g ++ map_of lk, arrays := arrays g \<union> A\<rparr>"

lemma leaked_none [simp]: "leaked g [] {} = g"
  by (simp add: leaked_def)

lemma leaked_leaked:
  assumes "set (map fst lk) \<inter> set (map fst lk') = {}"
  shows "leaked (leaked g lk A) lk' A' = leaked g (lk @ lk') (A \<union> A')"
proof -
  have "dom (map_of lk) \<inter> dom (map_of lk') = {}" using assms by (simp add: dom_map_of_conv_image_fst)
  then have "map_of lk ++ map_of lk' = map_of lk' ++ map_of lk" by (rule map_add_comm)
  then show ?thesis by (simp add: leaked_def Un_assoc del: map_add_assoc add: map_add_assoc [symmetric])
qed

lemma two_lists_row:
  assumes tl: "two_lists g h q eq dq r er dr" and n: "length eq \<le> 2 ^ 24"
  obtains q' h' x hb where "malloc_block h b = (Some (brk h), hb)"
    "list_append q hb (Some (brk h)) = Some (1, q', h')" "brk h \<le> brk h'"
    "two_lists g h' q' (eq @ [x]) (dq @ [Some (brk h)]) r er dr"
proof -
  note m = two_lists_leak_block [OF tl, of b]
  obtain q' h' x where a: "list_append q (snd (malloc_block h b)) (Some (brk h)) = Some (1, q', h')"
    "brk (snd (malloc_block h b)) \<le> brk h'"
    "two_lists (g\<lparr>blocks := ((blocks g)(brk h \<mapsto> b))(brk h := None)\<rparr>) h' q' (eq @ [x]) (dq @ [Some (brk h)]) r er dr"
    by (rule two_lists_append [OF m(2) _ n, of "brk h"]) (simp_all add: m(1))
  have "((blocks g)(brk h \<mapsto> b))(brk h := None) = blocks g"
    using two_lists_fresh(1) [OF tl order_refl] by (simp add: fun_eq_iff)
  then have "two_lists g h' q' (eq @ [x]) (dq @ [Some (brk h)]) r er dr" using a(3) by simp
  then show thesis using that a(1,2) m(1) by simp
qed

lemma parse_register_mem_ok:
  assumes tl: "two_lists g h q eq dq r er dr" and p: "chidb_dbm_file_parse_register slack line = Some (CHIDB_OK, Some reg)"
    and b: "blocks g p \<noteq> None" "p < brk h"
  obtains h' lk a c where "parse_register_mem slack layout line (Some p) h = Some (CHIDB_OK, h')"
    "two_lists (leaked g lk {a}\<lparr>blocks := (blocks (leaked g lk {a}))(p \<mapsto> c)\<rparr>) h' q eq dq r er dr"
    "map snd lk = line_leaks slack (Register_line line)" "distinct (map fst lk)"
    "\<forall>x \<in> insert a (set (map fst lk)). brk h \<le> x \<and> x < brk h'"
proof -
  obtain tokens where tok: "chidb_tokenize slack line = Some tokens"
    using p by (auto simp: chidb_dbm_file_parse_register_def bind_eq_Some_conv)
  let ?l = "bytes_of (marked_line line)"
  define h1 where "h1 = h\<lparr>blocks := (blocks h)(brk h \<mapsto> ?l), brk := Suc (brk h)\<rparr>"
  define g1 where "g1 = g\<lparr>blocks := (blocks g)(brk h \<mapsto> ?l)\<rparr>"
  have m1: "malloc_block h ?l = (Some (brk h), h1)" "two_lists g1 h1 q eq dq r er dr"
    using two_lists_leak_block [OF tl, of ?l] by (simp_all add: h1_def g1_def)
  define h2 where "h2 = h1\<lparr>arrays := insert (brk h1) (arrays h1), brk := Suc (brk h1)\<rparr>"
  define g2 where "g2 = g1\<lparr>arrays := insert (brk h1) (arrays g1)\<rparr>"
  have m2: "malloc_array h1 = (Some (brk h1), h2)" "two_lists g2 h2 q eq dq r er dr"
    using two_lists_leak_array [OF m1(2)] by (simp_all add: h2_def g2_def)
  have brk: "brk h1 = Suc (brk h)" "brk h2 = Suc (Suc (brk h))" by (simp_all add: h1_def h2_def)
  have b2: "blocks g2 p \<noteq> None" using b by (simp add: g2_def g1_def)
  show thesis
  proof (cases "register_text reg")
    case None
    let ?c = "layout reg None" and ?lk = "[(brk h, ?l)]"
    have w: "write_block h2 (Some p) ?c = Some (h2\<lparr>blocks := (blocks h2)(p \<mapsto> ?c)\<rparr>)"
      "two_lists (g2\<lparr>blocks := (blocks g2)(p \<mapsto> ?c)\<rparr>) (h2\<lparr>blocks := (blocks h2)(p \<mapsto> ?c)\<rparr>) q eq dq r er dr"
      using two_lists_write [OF m2(2) b2, of ?c] by simp_all
    have "g2 = leaked g ?lk {brk h1}" by (simp add: g2_def g1_def leaked_def)
    then show thesis
      using that [of "h2\<lparr>blocks := (blocks h2)(p \<mapsto> ?c)\<rparr>" ?lk "brk h1" ?c] w m1(1) m2(1) tok p None brk
      by (simp add: parse_register_mem_def assert_that_def)
  next
    case (Some s)
    define h3 where "h3 = h2\<lparr>blocks := (blocks h2)(brk h2 \<mapsto> s @ [0]), brk := Suc (brk h2)\<rparr>"
    define g3 where "g3 = g2\<lparr>blocks := (blocks g2)(brk h2 \<mapsto> s @ [0])\<rparr>"
    have m3: "malloc_block h2 (s @ [0]) = (Some (brk h2), h3)" "two_lists g3 h3 q eq dq r er dr"
      using two_lists_leak_block [OF m2(2), of "s @ [0]"] by (simp_all add: h3_def g3_def)
    let ?c = "layout reg (Some (brk h2))" and ?lk = "[(brk h, ?l), (brk h2, s @ [0])]"
    have b3: "blocks g3 p \<noteq> None" using b2 by (simp add: g3_def)
    have w: "write_block h3 (Some p) ?c = Some (h3\<lparr>blocks := (blocks h3)(p \<mapsto> ?c)\<rparr>)"
      "two_lists (g3\<lparr>blocks := (blocks g3)(p \<mapsto> ?c)\<rparr>) (h3\<lparr>blocks := (blocks h3)(p \<mapsto> ?c)\<rparr>) q eq dq r er dr"
      using two_lists_write [OF m3(2) b3, of ?c] by simp_all
    have "g3 = leaked g ?lk {brk h1}" using brk by (simp add: g3_def g2_def g1_def leaked_def fun_upd_twist)
    moreover have "brk h3 = Suc (Suc (Suc (brk h)))" using brk by (simp add: h3_def)
    ultimately show thesis
      using that [of "h3\<lparr>blocks := (blocks h3)(p \<mapsto> ?c)\<rparr>" ?lk "brk h1" ?c] w m1(1) m2(1) m3(1) tok p Some brk
      by (simp add: parse_register_mem_def assert_that_def)
  qed
qed

text \<open>One register line: its block goes into the list, the rest is left behind.\<close>

lemma two_lists_register:
  assumes tl: "two_lists g h q eq dq r er dr" and p: "chidb_dbm_file_parse_register slack line = Some (CHIDB_OK, Some reg)"
    and n: "length er \<le> 2 ^ 24"
  obtains r' h' x lk a where
    "add_line slack layout sql (Register_line line) (nCols, q, r, h) = Some (CHIDB_OK, nCols, q, r', h')"
    "two_lists (leaked g lk {a}) h' q eq dq r' (er @ [x]) (dr @ [Some (brk h)])"
    "map snd lk = line_leaks slack (Register_line line)" "distinct (map fst lk)"
    "\<forall>x \<in> insert a (set (map fst lk)). brk h \<le> x \<and> x < brk h'" "brk h \<le> brk h'"
proof -
  let ?p = "brk h"
  define h1 where "h1 = h\<lparr>blocks := (blocks h)(?p \<mapsto> []), brk := Suc ?p\<rparr>"
  define g1 where "g1 = g\<lparr>blocks := (blocks g)(?p \<mapsto> [])\<rparr>"
  have m: "malloc_block h [] = (Some ?p, h1)" "two_lists g1 h1 q eq dq r er dr"
    using two_lists_leak_block [OF tl, of "[]"] by (simp_all add: h1_def g1_def)
  obtain h2 lk a c where r: "parse_register_mem slack layout line (Some ?p) h1 = Some (CHIDB_OK, h2)"
    "two_lists (leaked g1 lk {a}\<lparr>blocks := (blocks (leaked g1 lk {a}))(?p \<mapsto> c)\<rparr>) h2 q eq dq r er dr"
    "map snd lk = line_leaks slack (Register_line line)" "distinct (map fst lk)"
    "\<forall>x \<in> insert a (set (map fst lk)). brk h1 \<le> x \<and> x < brk h2"
    by (rule parse_register_mem_ok [OF m(2) p, of ?p layout]) (simp_all add: g1_def h1_def)
  let ?g2 = "leaked g1 lk {a}\<lparr>blocks := (blocks (leaked g1 lk {a}))(?p \<mapsto> c)\<rparr>"
  obtain r' h' x where ap: "list_append r h2 (Some ?p) = Some (1, r', h')" "brk h2 \<le> brk h'"
    "two_lists (?g2\<lparr>blocks := (blocks ?g2)(?p := None)\<rparr>) h' r' (er @ [x]) (dr @ [Some ?p]) q eq dq"
    by (rule two_lists_append [OF two_lists_swap [OF r(2)] _ n, of ?p]) simp_all
  have fst: "?p \<notin> set (map fst lk)" using r(5) by (auto simp: h1_def)
  have "?g2\<lparr>blocks := (blocks ?g2)(?p := None)\<rparr> = leaked g lk {a}"
  proof -
    have "map_of lk ?p = None" using fst by (simp add: map_of_eq_None_iff)
    then have "(blocks g1 ++ map_of lk)(?p := None) = blocks g ++ map_of lk"
      using two_lists_fresh(1) [OF tl order_refl] by (auto simp: fun_eq_iff g1_def map_add_def split: option.split)
    then show ?thesis by (simp add: leaked_def g1_def)
  qed
  then have "two_lists (leaked g lk {a}) h' q eq dq r' (er @ [x]) (dr @ [Some ?p])"
    using two_lists_swap [OF ap(3)] by simp
  moreover have "add_line slack layout sql (Register_line line) (nCols, q, r, h) = Some (CHIDB_OK, nCols, q, r', h')"
    using m(1) r(1) ap(1) by simp
  moreover have "\<forall>x \<in> insert a (set (map fst lk)). ?p \<le> x \<and> x < brk h'" "?p \<le> brk h'"
    using r(5) ap(2) by (auto simp: h1_def)
  ultimately show thesis using that r(3,4) by blast
qed

text \<open>All lines, in any order.\<close>

lemma add_lines_ok:
  assumes "two_lists g h q eq dq r er dr" and "lines_ok slack sql nCols xs"
    and "length eq + length xs \<le> 2 ^ 24" and "length er + length xs \<le> 2 ^ 24"
  shows "\<exists>nCols' h' q' eq' dq' r' er' dr' lk A.
    add_lines slack layout sql xs (nCols, q, r, h) = Some (CHIDB_OK, nCols', q', r', h') \<and>
    two_lists (leaked g lk A) h' q' eq' dq' r' er' dr' \<and>
    map snd lk = concat (map (line_leaks slack) xs) \<and> distinct (map fst lk) \<and>
    (\<forall>x \<in> A \<union> set (map fst lk). brk h \<le> x \<and> x < brk h') \<and> finite A \<and> card A = array_leaks xs \<and>
    length eq' \<le> length eq + length xs \<and> length er' \<le> length er + length xs \<and> brk h \<le> brk h'"
  using assms
proof (induction xs arbitrary: g h q eq dq r er dr nCols)
  case Nil
  then show ?case by (intro exI [of _ nCols] exI [of _ h] exI [of _ q] exI [of _ eq] exI [of _ dq] exI [of _ r]
        exI [of _ er] exI [of _ dr] exI [of _ "[]"] exI [of _ "{}"]) simp
next
  case (Cons x xs)
  show ?case
  proof (cases x)
    case (Result_line line)
    obtain rc row n where rr: "chidb_dbm_file_read_rr line = Some (rc, row, n)"
      "nCols = 0 \<or> sql \<or> nCols = n" "lines_ok slack sql n xs"
      using Cons.prems(2) Result_line by (auto split: option.splits)
    have rc: "rc = CHIDB_OK" using rr(1) by (auto simp: chidb_dbm_file_read_rr_def split: prod.splits if_splits)
    obtain q1 h1 y hb where a: "malloc_block h (bytes_of row @ [0]) = (Some (brk h), hb)"
      "list_append q hb (Some (brk h)) = Some (1, q1, h1)" "brk h \<le> brk h1"
      "two_lists g h1 q1 (eq @ [y]) (dq @ [Some (brk h)]) r er dr"
      by (rule two_lists_row [OF Cons.prems(1), of "bytes_of row @ [0]"]) (use Cons.prems(3) in auto)
    have l: "add_line slack layout sql x (nCols, q, r, h) = Some (CHIDB_OK, n, q1, r, h1)"
      using Result_line rr(1,2) rc a(1,2) by (auto simp: assert_that_def)
    obtain nCols' h' q' eq' dq' r' er' dr' lk A where t:
      "add_lines slack layout sql xs (n, q1, r, h1) = Some (CHIDB_OK, nCols', q', r', h')"
      "two_lists (leaked g lk A) h' q' eq' dq' r' er' dr'"
      "map snd lk = concat (map (line_leaks slack) xs)" "distinct (map fst lk)"
      "\<forall>x \<in> A \<union> set (map fst lk). brk h1 \<le> x \<and> x < brk h'" "finite A" "card A = array_leaks xs"
      "length eq' \<le> length (eq @ [y]) + length xs" "length er' \<le> length er + length xs" "brk h1 \<le> brk h'"
      using Cons.IH [OF a(4) rr(3)] Cons.prems(3,4) by auto
    have "add_lines slack layout sql (x # xs) (nCols, q, r, h) = Some (CHIDB_OK, nCols', q', r', h')"
      using l t(1) by simp
    moreover have "\<forall>x \<in> A \<union> set (map fst lk). brk h \<le> x \<and> x < brk h'" using t(5) le_trans [OF a(3)] by blast
    moreover have "map snd lk = concat (map (line_leaks slack) (x # xs))" "card A = array_leaks (x # xs)"
      using t(3,7) Result_line by simp_all
    ultimately show ?thesis using t(2,4,6,8,9,10) a(3)
      by (intro exI [of _ nCols'] exI [of _ h'] exI [of _ q'] exI [of _ eq'] exI [of _ dq'] exI [of _ r'] exI [of _ er']
          exI [of _ dr'] exI [of _ lk] exI [of _ A]) simp
  next
    case (Register_line line)
    obtain reg where p: "chidb_dbm_file_parse_register slack line = Some (CHIDB_OK, Some reg)" and ok: "lines_ok slack sql nCols xs"
      using Cons.prems(2) Register_line by (auto split: option.splits prod.splits)
    obtain r1 h1 y lk1 a where s:
      "add_line slack layout sql (Register_line line) (nCols, q, r, h) = Some (CHIDB_OK, nCols, q, r1, h1)"
      "two_lists (leaked g lk1 {a}) h1 q eq dq r1 (er @ [y]) (dr @ [Some (brk h)])"
      "map snd lk1 = line_leaks slack (Register_line line)" "distinct (map fst lk1)"
      "\<forall>x \<in> insert a (set (map fst lk1)). brk h \<le> x \<and> x < brk h1" "brk h \<le> brk h1"
      by (rule two_lists_register [OF Cons.prems(1) p, where layout = layout and sql = sql and nCols = nCols])
        (use Cons.prems(4) in auto)
    obtain nCols' h' q' eq' dq' r' er' dr' lk A where t:
      "add_lines slack layout sql xs (nCols, q, r1, h1) = Some (CHIDB_OK, nCols', q', r', h')"
      "two_lists (leaked (leaked g lk1 {a}) lk A) h' q' eq' dq' r' er' dr'"
      "map snd lk = concat (map (line_leaks slack) xs)" "distinct (map fst lk)"
      "\<forall>x \<in> A \<union> set (map fst lk). brk h1 \<le> x \<and> x < brk h'" "finite A" "card A = array_leaks xs"
      "length eq' \<le> length eq + length xs" "length er' \<le> length (er @ [y]) + length xs" "brk h1 \<le> brk h'"
      using Cons.IH [OF s(2) ok] Cons.prems(3,4) by auto
    have dis: "set (map fst lk1) \<inter> set (map fst lk) = {}" "a \<notin> A"
    proof -
      have lo: "x < brk h1" if "x \<in> insert a (set (map fst lk1))" for x using s(5) that by blast
      have hi: "brk h1 \<le> x" if "x \<in> A \<union> set (map fst lk)" for x using t(5) that by blast
      show "set (map fst lk1) \<inter> set (map fst lk) = {}" using lo hi by (meson UnI2 disjoint_iff insertI2 not_le)
      show "a \<notin> A" using lo [of a] hi [of a] by auto
    qed
    have "two_lists (leaked g (lk1 @ lk) ({a} \<union> A)) h' q' eq' dq' r' er' dr'"
      using t(2) leaked_leaked [OF dis(1)] by simp
    moreover have "add_lines slack layout sql (x # xs) (nCols, q, r, h) = Some (CHIDB_OK, nCols', q', r', h')"
      using s(1) t(1) Register_line by simp
    moreover have "map snd (lk1 @ lk) = concat (map (line_leaks slack) (x # xs))" using s(3) t(3) Register_line by simp
    moreover have "distinct (map fst (lk1 @ lk))" using s(4) t(4) dis(1) by simp
    moreover have "\<forall>x \<in> ({a} \<union> A) \<union> set (map fst (lk1 @ lk)). brk h \<le> x \<and> x < brk h'"
    proof
      fix x assume "x \<in> ({a} \<union> A) \<union> set (map fst (lk1 @ lk))"
      then consider "x \<in> insert a (set (map fst lk1))" | "x \<in> A \<union> set (map fst lk)" by auto
      then show "brk h \<le> x \<and> x < brk h'"
      proof cases
        case 1
        then have "brk h \<le> x \<and> x < brk h1" using s(5) by blast
        then show ?thesis using t(10) by simp
      next
        case 2
        then have "brk h1 \<le> x \<and> x < brk h'" using t(5) by blast
        then show ?thesis using s(6) by simp
      qed
    qed
    moreover have "finite ({a} \<union> A)" "card ({a} \<union> A) = array_leaks (x # xs)" using t(6,7) dis(2) Register_line by simp_all
    ultimately show ?thesis using t(8,9,10) s(6)
      by (intro exI [of _ nCols'] exI [of _ h'] exI [of _ q'] exI [of _ eq'] exI [of _ dq'] exI [of _ r'] exI [of _ er']
          exI [of _ dr'] exI [of _ "lk1 @ lk"] exI [of _ "{a} \<union> A"]) simp
  qed
qed

subsection \<open>Creating and closing both lists\<close>

lemma file_lists_init_ok:
  assumes wf: "mem_wf h" and ok: "\<forall>i. mem_ok h i" and arr: "\<forall>a \<in> arrays h. a < brk h"
  obtains q' r' h' where "file_lists_init q r h = Some (q', r', h')" "two_lists h h' q' [] [] r' [] []" "brk h \<le> brk h'"
proof -
  obtain q1 h1 where q1: "list_init (Some q) h = Some (0, Some q1, h1)" "list_rep (entries h1) q1 [] []"
    "mem_wf h1" "frame {} h h1" "blocks h1 = blocks h" "footprint q1 [] \<subseteq> {brk h..}"
    "\<And>a. a \<notin> footprint q1 [] \<Longrightarrow> entries h1 a = entries h a" "\<not> iter_active q1" "copy_data (attrs q1) = 0"
    "spare_array q1 = Some (brk h + 2)" "arrays h1 = insert (brk h + 2) (arrays h)" "brk h1 = brk h + 3"
    by (rule list_init_ok [OF wf, of q]) (use ok in auto)
  have ok1: "mem_ok h1 i" for i using ok q1(4) by (auto simp: frame_def)
  obtain r1 h2 where r1: "list_init (Some r) h1 = Some (0, Some r1, h2)" "list_rep (entries h2) r1 [] []"
    "mem_wf h2" "frame {} h1 h2" "blocks h2 = blocks h1" "footprint r1 [] \<subseteq> {brk h1..}"
    "\<And>a. a \<notin> footprint r1 [] \<Longrightarrow> entries h2 a = entries h1 a" "\<not> iter_active r1" "copy_data (attrs r1) = 0"
    "spare_array r1 = Some (brk h1 + 2)" "arrays h2 = insert (brk h1 + 2) (arrays h1)" "brk h2 = brk h1 + 3"
    by (rule list_init_ok [OF q1(3), of r]) (use ok1 in auto)
  have below: "a < brk h1" if "a \<in> footprint q1 []" for a by (rule footprint_below [OF q1(2,3) that])
  have disj: "footprint q1 [] \<inter> footprint r1 [] = {}" using below r1(6) by fastforce
  have rep: "list_rep (entries h2) q1 [] []" by (rule list_rep_frame [OF q1(2,3) r1(4)]) simp
  have "two_lists h h2 q1 [] [] r1 [] []"
  proof (rule two_listsI)
    show "mem_ok h2 i" for i using ok1 r1(4) by (simp add: frame_def)
    show "entries h2 a = entries h a" if "a \<notin> footprint q1 []" "a \<notin> footprint r1 []" for a
      using q1(7) [OF that(1)] r1(7) [OF that(2)] by simp
    show "entries h a = None" if "a \<in> footprint q1 [] \<union> footprint r1 []" for a
      using that q1(6,12) r1(6) wf by (auto simp: mem_wf_def)
    show "a < brk h2" if "a \<in> arrays h2" for a using that arr q1(11,12) r1(11,12) by auto
    show "\<exists>a b. spare_array q1 = Some a \<and> spare_array r1 = Some b \<and> a \<noteq> b \<and> a \<notin> arrays h \<and> b \<notin> arrays h \<and>
        arrays h2 = insert a (insert b (arrays h))"
      using arr q1(10,11,12) r1(10,11,12) by (auto simp: insert_commute)
  qed (use q1 r1 rep disj in simp_all)
  moreover have "file_lists_init q r h = Some (q1, r1, h2)" using q1(1) r1(1) by (simp add: file_lists_init_def)
  ultimately show thesis using that q1(12) r1(12) by simp
qed

lemma file_lists_close_ok:
  assumes tl: "two_lists g h q eq dq r er dr" and n: "length eq < 2 ^ 31" "length er < 2 ^ 31"
  obtains h' where "file_lists_close q r h = Some h'" "entries h' = entries g" "blocks h' = blocks g" "arrays h' = arrays g"
proof -
  note t = two_listsD [OF tl]
  obtain a b where ab: "spare_array q = Some a" "spare_array r = Some b" "a \<noteq> b" "a \<notin> arrays g" "b \<notin> arrays g"
    "arrays h = insert a (insert b (arrays g))" using t(18) by blast
  have dq: "\<forall>p \<in> set dq. \<exists>b. p = Some b \<and> blocks h b \<noteq> None" using t(16) by blast
  obtain h1 where h1: "close_list q h = Some h1" "\<And>a. entries h1 a = (if a \<in> footprint q eq then None else entries h a)"
    "blocks h1 = without (blocks h) (set dq)" "brk h1 = brk h" "mem_ok h1 = mem_ok h" "arrays h1 = arrays h - {a}"
    by (rule close_list_ok [OF t(1,7,2) n(1) t(3,13) dq ab(1)]) (use ab(6) in auto)
  have rep: "list_rep (entries h1) r er dr"
  proof -
    have "entries h1 a = entries h a" if "a \<in> footprint r er" for a using that t(10) h1(2) by auto
    then show ?thesis using t(4) list_rep_cong [of r er "entries h1" "entries h" dr] by blast
  qed
  have wf1: "mem_wf h1" using t(7) h1(2,3,4) by (auto simp: mem_wf_def without_def)
  have dr: "\<forall>p \<in> set dr. \<exists>b. p = Some b \<and> blocks h1 b \<noteq> None"
  proof
    fix p assume p: "p \<in> set dr"
    then obtain b where "p = Some b" "blocks h b \<noteq> None" using t(16) by blast
    then show "\<exists>b. p = Some b \<and> blocks h1 b \<noteq> None" using p t(15) h1(3) by (auto simp: without_def)
  qed
  obtain h2 where h2: "close_list r h1 = Some h2" "\<And>a. entries h2 a = (if a \<in> footprint r er then None else entries h1 a)"
    "blocks h2 = without (blocks h1) (set dr)" "arrays h2 = arrays h1 - {b}"
    by (rule close_list_ok [OF rep wf1 t(5) n(2) t(6,14) dr ab(2)]) (use ab h1(6) in auto)
  have "entries h2 a = entries g a" for a
  proof (cases "a \<in> footprint q eq \<union> footprint r er")
    case True
    then show ?thesis using h1(2) h2(2) t(12) [OF True] by auto
  next
    case False
    then show ?thesis using h1(2) h2(2) t(11) [of a] by auto
  qed
  moreover have "blocks h2 b = blocks g b" for b
  proof (cases "Some b \<in> set dq \<union> set dr")
    case True
    then show ?thesis using t(16) [OF True] h1(3) h2(3) by (auto simp: without_def)
  next
    case False
    then show ?thesis using h1(3) h2(3) t(17) [OF False] by (auto simp: without_def)
  qed
  moreover have "arrays h2 = arrays g" using h1(6) h2(4) ab(3-6) by auto
  moreover have "file_lists_close q r h = Some h2" using h1(1) h2(1) by (simp add: file_lists_close_def)
  ultimately show thesis using that by blast
qed

end
