(* ===== verification/SimclistSort.thy ===== *)
theory SimclistSort
  imports SimclistCorrect "HOL-Library.Multiset"
begin

section \<open>simclist.c: sorting\<close>

text \<open>
  \<open>list_sort\<close> exchanges the data of entries that stay where they are: quicksort around a pivot
  \<open>rand()\<close> picks, selection sort for at most 24 entries. The results of \<open>rand()\<close> are a parameter,
  \<open>rnd k\<close> for the \<open>k\<close>-th call, and \<open>w\<close> is \<open>-versus\<close>.
\<close>

subsection \<open>The code\<close>

abbreviation min_quicksort :: nat where "min_quicksort \<equiv> 24"

definition compare_entries :: "list_mem \<Rightarrow> element_comparator \<Rightarrow> int \<Rightarrow> ptr \<Rightarrow> ptr \<Rightarrow> int option" where
  "compare_entries h f w a b = do {
     ea \<leftarrow> get_entry h a;
     eb \<leftarrow> get_entry h b;
     r \<leftarrow> f (blocks h) (edata ea) (edata eb);
     c_range (r * w) }"

definition swap_data :: "list_mem \<Rightarrow> ptr \<Rightarrow> ptr \<Rightarrow> list_mem option" where
  "swap_data h a b = do {
     ea \<leftarrow> get_entry h a;
     eb \<leftarrow> get_entry h b;
     h \<leftarrow> set_edata h a (edata eb);
     set_edata h b (edata ea) }"

partial_function (option) select_from ::
  "list_mem \<Rightarrow> element_comparator \<Rightarrow> int \<Rightarrow> ptr \<Rightarrow> ptr \<Rightarrow> ptr \<Rightarrow> ptr option" where
  "select_from h f w toswap cursor lel = do {
     le \<leftarrow> get_entry h lel;
     if cursor = enext le then Some toswap else do {
       v \<leftarrow> compare_entries h f w toswap cursor;
       ce \<leftarrow> get_entry h cursor;
       select_from h f w (if v > 0 then cursor else toswap) (enext ce) lel } }"

partial_function (option) selectionsort_from ::
  "list_mem \<Rightarrow> element_comparator \<Rightarrow> int \<Rightarrow> ptr \<Rightarrow> ptr \<Rightarrow> list_mem option" where
  "selectionsort_from h f w firstunsorted lel =
     (if firstunsorted = lel then Some h
      else do {
        e \<leftarrow> get_entry h firstunsorted;
        toswap \<leftarrow> select_from h f w firstunsorted (enext e) lel;
        h \<leftarrow> (if toswap \<noteq> firstunsorted then swap_data h firstunsorted toswap else Some h);
        e \<leftarrow> get_entry h firstunsorted;
        selectionsort_from h f w (enext e) lel })"

definition list_sort_selectionsort ::
  "list_mem \<Rightarrow> element_comparator \<Rightarrow> int \<Rightarrow> nat \<Rightarrow> ptr \<Rightarrow> nat \<Rightarrow> ptr \<Rightarrow> list_mem option" where
  "list_sort_selectionsort h f w first fel lst lel =
     (if lst \<le> first then Some h else selectionsort_from h f w fel lel)"

text \<open>The two inner loops, the outer loop of the partition, and the loops that move what is left on
  the longer side across the pivot.\<close>

partial_function (option) scan_left :: "list_mem \<Rightarrow> element_comparator \<Rightarrow> int \<Rightarrow> ptr \<Rightarrow> ptr \<Rightarrow> ptr option" where
  "scan_left h f w left pivot =
     (if left = pivot then Some left
      else do {
        v \<leftarrow> compare_entries h f w left pivot;
        if v \<le> 0 then do { e \<leftarrow> get_entry h left; scan_left h f w (enext e) pivot } else Some left })"

partial_function (option) scan_right :: "list_mem \<Rightarrow> element_comparator \<Rightarrow> int \<Rightarrow> ptr \<Rightarrow> ptr \<Rightarrow> ptr option" where
  "scan_right h f w right pivot =
     (if right = pivot then Some right
      else do {
        v \<leftarrow> compare_entries h f w right pivot;
        if v \<ge> 0 then do { e \<leftarrow> get_entry h right; scan_right h f w (eprev e) pivot } else Some right })"

partial_function (option) exchange ::
  "list_mem \<Rightarrow> element_comparator \<Rightarrow> int \<Rightarrow> ptr \<Rightarrow> ptr \<Rightarrow> ptr \<Rightarrow> (list_mem \<times> ptr \<times> ptr) option" where
  "exchange h f w left right pivot =
     (if left \<noteq> pivot \<and> right \<noteq> pivot
      then do {
        left \<leftarrow> scan_left h f w left pivot;
        right \<leftarrow> scan_right h f w right pivot;
        if left \<noteq> pivot \<and> right \<noteq> pivot
        then do {
          h \<leftarrow> swap_data h left right;
          le \<leftarrow> get_entry h left;
          re \<leftarrow> get_entry h right;
          exchange h f w (enext le) (eprev re) pivot }
        else exchange h f w left right pivot }
      else Some (h, left, right))"

definition rotate_data :: "list_mem \<Rightarrow> ptr \<Rightarrow> ptr \<Rightarrow> ptr \<Rightarrow> list_mem option" where
  "rotate_data h out beside pivot = do {
     oe \<leftarrow> get_entry h out;
     be \<leftarrow> get_entry h beside;
     h \<leftarrow> set_edata h out (edata be);
     pe \<leftarrow> get_entry h pivot;
     h \<leftarrow> set_edata h beside (edata pe);
     set_edata h pivot (edata oe) }"

partial_function (option) compact_left ::
  "list_mem \<Rightarrow> element_comparator \<Rightarrow> int \<Rightarrow> ptr \<Rightarrow> ptr \<Rightarrow> nat \<Rightarrow> (list_mem \<times> ptr \<times> nat) option" where
  "compact_left h f w left pivot pivotid =
     (if left = pivot then Some (h, pivot, pivotid)
      else do {
        v \<leftarrow> compare_entries h f w left pivot;
        if v > 0 then do {
          pe \<leftarrow> get_entry h pivot;
          h \<leftarrow> rotate_data h left (eprev pe) pivot;
          let pivotid = usub pivotid 1;
          if eprev pe = left then Some (h, eprev pe, pivotid)
          else compact_left h f w left (eprev pe) pivotid }
        else do {
          e \<leftarrow> get_entry h left;
          compact_left h f w (enext e) pivot pivotid } })"

partial_function (option) compact_right ::
  "list_mem \<Rightarrow> element_comparator \<Rightarrow> int \<Rightarrow> ptr \<Rightarrow> ptr \<Rightarrow> nat \<Rightarrow> (list_mem \<times> ptr \<times> nat) option" where
  "compact_right h f w right pivot pivotid =
     (if right = pivot then Some (h, pivot, pivotid)
      else do {
        v \<leftarrow> compare_entries h f w right pivot;
        if v < 0 then do {
          pe \<leftarrow> get_entry h pivot;
          h \<leftarrow> rotate_data h right (enext pe) pivot;
          let pivotid = (pivotid + 1) mod 2 ^ 32;
          if enext pe = right then Some (h, enext pe, pivotid)
          else compact_right h f w right (enext pe) pivotid }
        else do {
          e \<leftarrow> get_entry h right;
          compact_right h f w (eprev e) pivot pivotid } })"

definition partition_entries ::
  "list_mem \<Rightarrow> element_comparator \<Rightarrow> int \<Rightarrow> nat \<Rightarrow> nat \<Rightarrow> ptr \<Rightarrow> nat \<Rightarrow> ptr \<Rightarrow> (list_mem \<times> ptr \<times> nat) option" where
  "partition_entries h f w pivotid first fel lst lel = do {
     pivot \<leftarrow> (if pivotid < (lst - first + 1) div 2 then walk_next h pivotid fel
              else walk_prev h (lst - first - pivotid) lel);
     (h, left, right) \<leftarrow> exchange h f w fel lel pivot;
     if right = pivot then compact_left h f w left pivot pivotid
     else compact_right h f w right pivot pivotid }"

partial_function (option) list_sort_quicksort ::
  "(nat \<Rightarrow> nat) \<Rightarrow> nat \<Rightarrow> list_mem \<Rightarrow> element_comparator \<Rightarrow> int \<Rightarrow> nat \<Rightarrow> ptr \<Rightarrow> nat \<Rightarrow> ptr \<Rightarrow>
   (list_mem \<times> nat) option" where
  "list_sort_quicksort rnd k h f w first fel lst lel =
     (if lst \<le> first then Some (h, k)
      else if lst - first + 1 \<le> min_quicksort
      then do { h \<leftarrow> list_sort_selectionsort h f w first fel lst lel; Some (h, k) }
      else do {
        (h, pivot, pivotid) \<leftarrow> partition_entries h f w (rnd k mod (lst - first + 1)) first fel lst lel;
        pe \<leftarrow> get_entry h pivot;
        (h, k) \<leftarrow> (if pivotid > 0
                   then list_sort_quicksort rnd (k + 1) h f w first fel (first + pivotid - 1) (eprev pe)
                   else Some (h, k + 1));
        pe \<leftarrow> get_entry h pivot;
        if first + pivotid < lst
        then list_sort_quicksort rnd k h f w (first + pivotid + 1) (enext pe) lst lel
        else Some (h, k) })"

definition list_sort ::
  "(nat \<Rightarrow> nat) \<Rightarrow> nat \<Rightarrow> list_t \<Rightarrow> list_mem \<Rightarrow> int \<Rightarrow> (int \<times> list_mem \<times> nat) option" where
  "list_sort rnd k l h versus =
     (case comparator (attrs l) of
        None \<Rightarrow> Some (- 1, h, k)
      | Some f \<Rightarrow>
          if iter_active l then Some (- 1, h, k)
          else if numels l \<le> 1 then Some (0, h, k)
          else do {
            hd \<leftarrow> get_entry h (head_sentinel l);
            tl \<leftarrow> get_entry h (tail_sentinel l);
            (h, k) \<leftarrow> list_sort_quicksort rnd k h f (- versus) 0 (enext hd) (numels l - 1) (eprev tl);
            assert_repOk h l;
            Some (0, h, k) })"

end
