(* ===== verification/SimclistSortCorrect.thy ===== *)
theory SimclistSortCorrect
  imports SimclistSort
begin

section \<open>Sorting a list orders its elements\<close>

text \<open>
  The sorts see the data of the entries as an array, with the pointers as indices. A comparator is
  given by a key: with \<open>w\<close> the sign of its answer tells which of two keys is larger.
\<close>

subsection \<open>The array\<close>

definition ordered_by :: "element_comparator \<Rightarrow> blocks \<Rightarrow> int \<Rightarrow> (ptr \<Rightarrow> int) \<Rightarrow> ptr set \<Rightarrow> bool" where
  "ordered_by f m w key D \<longleftrightarrow>
     (\<forall>a \<in> D. \<forall>b \<in> D. \<exists>r. f m a b = Some r \<and> c_range (r * w) = Some (r * w)
        \<and> (0 < r * w \<longleftrightarrow> key b < key a) \<and> (r * w < 0 \<longleftrightarrow> key a < key b))"

lemma compares_ordered:
  assumes "compares f m v D" and "w = 1 \<or> w = - 1"
  shows "ordered_by f m w (\<lambda>p. - w * v p) D"
  unfolding ordered_by_def
proof (intro ballI)
  fix a b assume "a \<in> D" "b \<in> D"
  then have "f m a b = Some (of_bool (v a < v b) - of_bool (v a > v b))"
    using assms(1) by (simp add: compares_def)
  then show "\<exists>r. f m a b = Some r \<and> c_range (r * w) = Some (r * w)
      \<and> (0 < r * w \<longleftrightarrow> - w * v b < - w * v a) \<and> (r * w < 0 \<longleftrightarrow> - w * v a < - w * v b)"
    using assms(2) by (auto simp: c_range_def)
qed

definition slot :: "list_t \<Rightarrow> nat list \<Rightarrow> nat \<Rightarrow> ptr" where
  "slot l es i = Some (nodes l es ! Suc i)"

text \<open>\<open>sort_inv\<close>: since \<open>h0\<close> only entries of the list have changed, and they hold \<open>ds\<close>, a rearrangement
  of \<open>D\<close>.\<close>

definition sort_inv ::
  "element_comparator \<Rightarrow> int \<Rightarrow> (ptr \<Rightarrow> int) \<Rightarrow> list_mem \<Rightarrow> list_t \<Rightarrow> nat list \<Rightarrow> ptr multiset \<Rightarrow> list_mem \<Rightarrow> ptr list \<Rightarrow> bool" where
  "sort_inv f w key h0 l es D h ds \<longleftrightarrow>
     list_rep (entries h) l es ds \<and> mset ds = D \<and> ordered_by f (blocks h0) w key (set_mset D)
     \<and> (\<exists>m. h = h0\<lparr>entries := m\<rparr> \<and> (\<forall>a. a \<notin> set es \<longrightarrow> m a = entries h0 a))"

lemma slot_eq: "list_rep m l es ds \<Longrightarrow> i \<le> length es \<Longrightarrow> j \<le> length es \<Longrightarrow> slot l es i = slot l es j \<longleftrightarrow> i = j"
  using nth_eq_iff_index_eq [OF list_repD(2), of m l es ds "Suc i" "Suc j"] by (simp add: slot_def)

lemma slot_element: "i < length es \<Longrightarrow> slot l es i = Some (es ! i)"
  by (simp add: slot_def nth_append)

lemma slot_next:
  assumes "list_rep (entries h) l es ds" and "i < length es"
  obtains e where "get_entry h (slot l es i) = Some e" "enext e = slot l es (Suc i)" "edata e = ds ! i"
proof -
  have "Suc (Suc i) < length (nodes l es)" using assms(2) by simp
  from chain_next [OF list_repD(1) [OF assms(1)] this] list_rep_data [OF assms]
  show thesis using that assms(2) by (auto simp: slot_def nth_append)
qed

lemma slot_prev:
  assumes "list_rep (entries h) l es ds" and "Suc i < length es"
  obtains e where "get_entry h (slot l es (Suc i)) = Some e" "eprev e = slot l es i"
proof -
  have "Suc (Suc i) < length (nodes l es)" using assms(2) by simp
  from chain_prev [OF list_repD(1) [OF assms(1)] this]
  show thesis using that assms(2) by (auto simp: slot_def)
qed

lemma sort_invD:
  assumes "sort_inv f w key h0 l es D h ds"
  shows "list_rep (entries h) l es ds" "length ds = length es" "blocks h = blocks h0"
  using assms list_repD(7) unfolding sort_inv_def by auto

lemma compare_at:
  assumes inv: "sort_inv f w key h0 l es D h ds" and ij: "i < length es" "j < length es"
  obtains u where "compare_entries h f w (slot l es i) (slot l es j) = Some u"
    "0 < u \<longleftrightarrow> key (ds ! j) < key (ds ! i)" "u < 0 \<longleftrightarrow> key (ds ! i) < key (ds ! j)"
proof -
  note rep = sort_invD(1) [OF inv]
  obtain ea where ea: "get_entry h (slot l es i) = Some ea" "edata ea = ds ! i" by (rule slot_next [OF rep ij(1)])
  obtain eb where eb: "get_entry h (slot l es j) = Some eb" "edata eb = ds ! j" by (rule slot_next [OF rep ij(2)])
  have "ds ! i \<in># D" "ds ! j \<in># D" using inv ij sort_invD(2) [OF inv] by (auto simp: sort_inv_def)
  then obtain r where "f (blocks h0) (ds ! i) (ds ! j) = Some r" "c_range (r * w) = Some (r * w)"
    "0 < r * w \<longleftrightarrow> key (ds ! j) < key (ds ! i)" "r * w < 0 \<longleftrightarrow> key (ds ! i) < key (ds ! j)"
    using inv unfolding sort_inv_def ordered_by_def by blast
  then show thesis using ea eb sort_invD(3) [OF inv] that by (simp add: compare_entries_def)
qed

lemma set_edata_at:
  assumes "list_rep (entries h) l es ds" and "i < length es"
  obtains m where "set_edata h (slot l es i) p = Some (h\<lparr>entries := m\<rparr>)" "list_rep m l es (ds[i := p])"
    "\<And>a. a \<notin> set es \<Longrightarrow> m a = entries h a"
proof -
  obtain e where e: "entries h (es ! i) = Some e" using list_rep_data [OF assms] by auto
  show thesis
    using list_rep_set_data [OF assms e, of p] set_edata_ok [OF e, of p] assms(2) nth_mem [OF assms(2)]
    by (intro that [of "(entries h)(es ! i \<mapsto> e\<lparr>edata := p\<rparr>)"]) (auto simp: slot_element)
qed

lemma swap_data_at:
  assumes inv: "sort_inv f w key h0 l es D h ds" and ij: "i < length es" "j < length es"
  obtains h' where "swap_data h (slot l es i) (slot l es j) = Some h'"
    "sort_inv f w key h0 l es D h' (ds[i := ds ! j, j := ds ! i])"
proof -
  note rep = sort_invD(1) [OF inv]
  obtain ea where ea: "get_entry h (slot l es i) = Some ea" "edata ea = ds ! i" by (rule slot_next [OF rep ij(1)])
  obtain eb where eb: "get_entry h (slot l es j) = Some eb" "edata eb = ds ! j" by (rule slot_next [OF rep ij(2)])
  obtain m1 where m1: "set_edata h (slot l es i) (ds ! j) = Some (h\<lparr>entries := m1\<rparr>)" "list_rep m1 l es (ds[i := ds ! j])"
    "\<And>a. a \<notin> set es \<Longrightarrow> m1 a = entries h a"
    by (rule set_edata_at [OF rep ij(1)]) blast
  have rep1: "list_rep (entries (h\<lparr>entries := m1\<rparr>)) l es (ds[i := ds ! j])" using m1(2) by simp
  obtain m2 where m2: "set_edata (h\<lparr>entries := m1\<rparr>) (slot l es j) (ds ! i) = Some (h\<lparr>entries := m1, entries := m2\<rparr>)"
    "list_rep m2 l es (ds[i := ds ! j, j := ds ! i])" "\<And>a. a \<notin> set es \<Longrightarrow> m2 a = m1 a"
    by (rule set_edata_at [OF rep1 ij(2), of "ds ! i"]) auto
  have "mset (ds[i := ds ! j, j := ds ! i]) = mset ds"
    using ij sort_invD(2) [OF inv] by (intro mset_swap) auto
  then show thesis
    using inv ea eb m1 m2 by (intro that [of "h\<lparr>entries := m2\<rparr>"]) (auto simp: swap_data_def sort_inv_def)
qed

lemma rotate_list:
  assumes "i < length ds" "q < length ds" "p < length ds" "i \<noteq> p" "q \<noteq> p"
  shows "mset (ds[i := ds ! q, q := ds ! p, p := ds ! i]) = mset ds"
proof (cases "i = q")
  case True
  then show ?thesis using assms mset_swap [of p ds q] by (simp add: list_update_swap)
next
  case False
  have "ds[i := ds ! q, q := ds ! p, p := ds ! i] =
    (ds[i := ds ! q, q := ds ! i])[q := (ds[i := ds ! q, q := ds ! i]) ! p, p := (ds[i := ds ! q, q := ds ! i]) ! q]"
    using assms False by simp
  also have "mset \<dots> = mset (ds[i := ds ! q, q := ds ! i])" using assms by (intro mset_swap) auto
  also have "\<dots> = mset ds" using assms by (intro mset_swap) auto
  finally show ?thesis .
qed

lemma rotate_data_at:
  assumes inv: "sort_inv f w key h0 l es D h ds" and iqp: "i < length es" "q < length es" "p < length es" "i \<noteq> p" "q \<noteq> p"
  obtains h' where "rotate_data h (slot l es i) (slot l es q) (slot l es p) = Some h'"
    "sort_inv f w key h0 l es D h' (ds[i := ds ! q, q := ds ! p, p := ds ! i])"
proof -
  note rep = sort_invD(1) [OF inv]
  have len: "length ds = length es" by (rule sort_invD(2) [OF inv])
  obtain eo where eo: "get_entry h (slot l es i) = Some eo" "edata eo = ds ! i" by (rule slot_next [OF rep iqp(1)])
  obtain eb where eb: "get_entry h (slot l es q) = Some eb" "edata eb = ds ! q" by (rule slot_next [OF rep iqp(2)])
  obtain m1 where m1: "set_edata h (slot l es i) (ds ! q) = Some (h\<lparr>entries := m1\<rparr>)" "list_rep m1 l es (ds[i := ds ! q])"
    "\<And>a. a \<notin> set es \<Longrightarrow> m1 a = entries h a"
    by (rule set_edata_at [OF rep iqp(1)]) blast
  have rep1: "list_rep (entries (h\<lparr>entries := m1\<rparr>)) l es (ds[i := ds ! q])" using m1(2) by simp
  obtain ep where ep: "get_entry (h\<lparr>entries := m1\<rparr>) (slot l es p) = Some ep" "edata ep = ds ! p"
    by (rule slot_next [OF rep1 iqp(3)]) (use iqp(4) in simp)
  obtain m2 where m2: "set_edata (h\<lparr>entries := m1\<rparr>) (slot l es q) (ds ! p) = Some (h\<lparr>entries := m2\<rparr>)"
    "list_rep m2 l es (ds[i := ds ! q, q := ds ! p])" "\<And>a. a \<notin> set es \<Longrightarrow> m2 a = m1 a"
    by (rule set_edata_at [OF rep1 iqp(2), of "ds ! p"]) auto
  have rep2: "list_rep (entries (h\<lparr>entries := m2\<rparr>)) l es (ds[i := ds ! q, q := ds ! p])" using m2(2) by simp
  obtain m3 where m3: "set_edata (h\<lparr>entries := m2\<rparr>) (slot l es p) (ds ! i) = Some (h\<lparr>entries := m3\<rparr>)"
    "list_rep m3 l es (ds[i := ds ! q, q := ds ! p, p := ds ! i])" "\<And>a. a \<notin> set es \<Longrightarrow> m3 a = m2 a"
    by (rule set_edata_at [OF rep2 iqp(3), of "ds ! i"]) auto
  have "mset (ds[i := ds ! q, q := ds ! p, p := ds ! i]) = mset ds"
    using iqp len by (intro rotate_list) auto
  then show thesis
    using inv eo eb ep m1 m2 m3 by (intro that [of "h\<lparr>entries := m3\<rparr>"]) (auto simp: rotate_data_def sort_inv_def)
qed

subsection \<open>Segments\<close>

text \<open>\<open>same_outside a b\<close>: only the elements from \<open>a\<close> to \<open>b\<close> have been rearranged.\<close>

definition same_outside :: "nat \<Rightarrow> nat \<Rightarrow> 'a list \<Rightarrow> 'a list \<Rightarrow> bool" where
  "same_outside a b ds ds' \<longleftrightarrow> length ds' = length ds \<and> (\<forall>t < length ds. t < a \<or> b < t \<longrightarrow> ds' ! t = ds ! t)"

definition segment_sorted :: "(ptr \<Rightarrow> int) \<Rightarrow> nat \<Rightarrow> nat \<Rightarrow> ptr list \<Rightarrow> bool" where
  "segment_sorted key a b ds \<longleftrightarrow> (\<forall>s t. a \<le> s \<longrightarrow> s \<le> t \<longrightarrow> t \<le> b \<longrightarrow> key (ds ! s) \<le> key (ds ! t))"

lemma same_outside_refl [simp]: "same_outside a b ds ds"
  by (simp add: same_outside_def)

lemma same_outside_trans:
  "same_outside a b ds ds' \<Longrightarrow> same_outside a' b' ds' ds'' \<Longrightarrow> a \<le> a' \<Longrightarrow> b' \<le> b \<Longrightarrow> same_outside a b ds ds''"
  by (auto simp: same_outside_def)

lemma same_outside_update [simp]:
  "a \<le> i \<Longrightarrow> i \<le> b \<Longrightarrow> same_outside a b ds (ds'[i := x]) = same_outside a b ds ds'"
  by (auto simp: same_outside_def nth_list_update)

text \<open>A rearrangement of a segment has the elements of the segment.\<close>

lemma segment_set:
  assumes so: "same_outside a b ds ds'" and ms: "mset ds' = mset ds" and b: "b < length ds" and t: "a \<le> t" "t \<le> b"
  shows "\<exists>s. a \<le> s \<and> s \<le> b \<and> ds' ! t = ds ! s"
proof -
  define seg where "seg xs = take (Suc b - a) (drop a xs)" for xs :: "'a list"
  have parts: "mset xs = mset (take a xs) + mset (seg xs) + mset (drop (Suc b) xs)" for xs :: "'a list"
  proof -
    have "xs = take a xs @ seg xs @ drop (Suc b) xs"
      using t by (simp add: seg_def drop_drop [symmetric] del: drop_drop)
        (metis append_take_drop_id drop_drop le_add_diff_inverse2 le_SucI le_trans)
    then show ?thesis by (metis mset_append union_assoc)
  qed
  have len: "length ds' = length ds" using so by (simp add: same_outside_def)
  have "take a ds' = take a ds" "drop (Suc b) ds' = drop (Suc b) ds"
    using so b t by (auto simp: same_outside_def intro!: nth_equalityI)
  then have "mset (seg ds') = mset (seg ds)" using parts [of ds'] parts [of ds] ms by simp
  then have "set (seg ds') = set (seg ds)" by (rule mset_eq_setD)
  moreover have "ds' ! t \<in> set (seg ds')"
    using t b len by (auto simp: seg_def in_set_conv_nth intro!: exI [of _ "t - a"])
  ultimately obtain i where "i < length (seg ds)" "seg ds ! i = ds' ! t" by (auto simp: in_set_conv_nth)
  then show ?thesis using b by (intro exI [of _ "a + i"]) (auto simp: seg_def)
qed

subsection \<open>Selection sort\<close>

lemma select_from_ok:
  assumes inv: "sort_inv f w key h0 l es D h ds" and "m < length es" "c \<le> Suc b" "b < length es"
  shows "\<exists>m'. select_from h f w (slot l es m) (slot l es c) (slot l es b) = Some (slot l es m')
    \<and> (m' = m \<or> c \<le> m' \<and> m' \<le> b) \<and> key (ds ! m') \<le> key (ds ! m) \<and> (\<forall>t. c \<le> t \<longrightarrow> t \<le> b \<longrightarrow> key (ds ! m') \<le> key (ds ! t))"
  using assms(2,3)
proof (induction "Suc b - c" arbitrary: c m)
  note rep = sort_invD(1) [OF inv]
  obtain be where be: "get_entry h (slot l es b) = Some be" "enext be = slot l es (Suc b)" by (rule slot_next [OF rep assms(4)])
  {
    case 0
    then have "c = Suc b" by simp
    then show ?case using be by (intro exI [of _ m]) (auto simp: select_from.simps)
  next
    case (Suc n)
    then have c: "c \<le> b" by simp
    have cs: "slot l es c \<noteq> enext be" using slot_eq [OF rep, of c "Suc b"] c assms(4) be by simp
    obtain u where u: "compare_entries h f w (slot l es m) (slot l es c) = Some u"
      "0 < u \<longleftrightarrow> key (ds ! c) < key (ds ! m)" "u < 0 \<longleftrightarrow> key (ds ! m) < key (ds ! c)"
      by (rule compare_at [OF inv, of m c]) (use Suc.prems(1) c assms(4) in auto)
    obtain ce where ce: "get_entry h (slot l es c) = Some ce" "enext ce = slot l es (Suc c)"
      by (rule slot_next [OF rep, of c]) (use c assms(4) in auto)
    define m1 where "m1 = (if u > 0 then c else m)"
    have n1: "n = Suc b - Suc c" and m1: "m1 < length es" using Suc.hyps(2) Suc.prems(1) c assms(4) by (auto simp: m1_def)
    obtain m' where m': "select_from h f w (slot l es m1) (slot l es (Suc c)) (slot l es b) = Some (slot l es m')"
      "m' = m1 \<or> Suc c \<le> m' \<and> m' \<le> b" "key (ds ! m') \<le> key (ds ! m1)"
      "\<forall>t. Suc c \<le> t \<longrightarrow> t \<le> b \<longrightarrow> key (ds ! m') \<le> key (ds ! t)"
      using Suc.hyps(1) [OF n1 m1] c by blast
    have "select_from h f w (slot l es m) (slot l es c) (slot l es b) = Some (slot l es m')"
      using be cs u(1) ce m'(1) by (subst select_from.simps) (simp add: m1_def if_distrib)
    moreover have "m' = m \<or> c \<le> m' \<and> m' \<le> b" using m'(2) c by (auto simp: m1_def split: if_splits)
    moreover have le: "key (ds ! m') \<le> key (ds ! m)" "key (ds ! m') \<le> key (ds ! c)"
      using m'(3) u by (auto simp: m1_def split: if_splits)
    moreover have "key (ds ! m') \<le> key (ds ! t)" if "c \<le> t" "t \<le> b" for t
      using that m'(4) le(2) by (cases "t = c") auto
    ultimately show ?case by blast
  }
qed

lemma selectionsort_from_ok:
  assumes "sort_inv f w key h0 l es D h ds" and "a \<le> i" "i \<le> b" "b < length es"
    and "segment_sorted key a (i - 1) ds" and "\<forall>s t. a \<le> s \<longrightarrow> s < i \<longrightarrow> i \<le> t \<longrightarrow> t \<le> b \<longrightarrow> key (ds ! s) \<le> key (ds ! t)"
  shows "\<exists>h' ds'. selectionsort_from h f w (slot l es i) (slot l es b) = Some h' \<and> sort_inv f w key h0 l es D h' ds'
    \<and> same_outside a b ds ds' \<and> segment_sorted key a b ds'"
  using assms
proof (induction "b - i" arbitrary: i h ds)
  case 0
  then have i: "i = b" by simp
  have "segment_sorted key a b ds"
    unfolding segment_sorted_def
  proof (intro allI impI)
    fix s t assume st: "a \<le> s" "s \<le> t" "t \<le> b"
    show "key (ds ! s) \<le> key (ds ! t)"
    proof (cases "t = b \<and> s < b")
      case True
      then show ?thesis using 0(7) st i by auto
    next
      case False
      then show ?thesis using 0(6) st i unfolding segment_sorted_def by (cases "s = t") auto
    qed
  qed
  then show ?case using 0(2) i by (intro exI [of _ h] exI [of _ ds]) (simp add: selectionsort_from.simps)
next
  case (Suc n)
  note inv = Suc.prems(1) and rep = sort_invD(1) [OF Suc.prems(1)]
  have ib: "i < b" "i < length es" using Suc.hyps(2) Suc.prems by auto
  have len: "length ds = length es" by (rule sort_invD(2) [OF inv])
  have nb: "slot l es i \<noteq> slot l es b" using slot_eq [OF rep, of i b] ib Suc.prems(4) by simp
  obtain e where e: "get_entry h (slot l es i) = Some e" "enext e = slot l es (Suc i)" by (rule slot_next [OF rep ib(2)])
  obtain m where m: "select_from h f w (slot l es i) (slot l es (Suc i)) (slot l es b) = Some (slot l es m)"
    "m = i \<or> Suc i \<le> m \<and> m \<le> b" "key (ds ! m) \<le> key (ds ! i)"
    "\<forall>t. Suc i \<le> t \<longrightarrow> t \<le> b \<longrightarrow> key (ds ! m) \<le> key (ds ! t)"
    using select_from_ok [OF inv ib(2), of "Suc i" b] ib Suc.prems(4) by auto
  have mb: "i \<le> m" "m \<le> b" "m < length es" using m(2) ib Suc.prems(4) by auto
  define ds1 where "ds1 = ds[i := ds ! m, m := ds ! i]"
  obtain h1 where h1: "(if slot l es m \<noteq> slot l es i then swap_data h (slot l es i) (slot l es m) else Some h) = Some h1"
    "sort_inv f w key h0 l es D h1 ds1"
  proof (cases "m = i")
    case True
    then show thesis using that [of h] inv by (simp add: ds1_def)
  next
    case False
    then have "slot l es m \<noteq> slot l es i" using slot_eq [OF rep, of m i] mb ib by simp
    then show thesis using swap_data_at [OF inv ib(2) mb(3)] that by (auto simp: ds1_def)
  qed
  note rep1 = sort_invD(1) [OF h1(2)]
  obtain e1 where e1: "get_entry h1 (slot l es i) = Some e1" "enext e1 = slot l es (Suc i)" by (rule slot_next [OF rep1 ib(2)])
  have el: "ds1 ! t = (if t = m then ds ! i else if t = i then ds ! m else ds ! t)" if "t < length es" for t
    using that len mb ib by (auto simp: ds1_def nth_list_update)
  have least: "key (ds1 ! i) \<le> key (ds1 ! t)" if "i \<le> t" "t \<le> b" for t
    using that m(3,4) mb ib Suc.prems(4) el [of i] el [of t] by (auto split: if_splits)
  have pre: "ds1 ! s = ds ! s" if "s < i" for s using that el [of s] mb ib by auto
  have suf: "\<exists>t'. i \<le> t' \<and> t' \<le> b \<and> ds1 ! t = ds ! t'" if "i \<le> t" "t \<le> b" for t
  proof -
    have "ds1 ! t = ds ! (if t = m then i else if t = i then m else t)" using that el [of t] Suc.prems(4) by auto
    then show ?thesis using that mb ib by (intro exI [of _ "if t = m then i else if t = i then m else t"]) auto
  qed
  have cross: "key (ds1 ! s) \<le> key (ds1 ! t)" if "a \<le> s" "s < i" "i \<le> t" "t \<le> b" for s t
    using suf [OF that(3,4)] pre [OF that(2)] Suc.prems(6) that(1,2) by auto
  have sorted1: "segment_sorted key a (Suc i - 1) ds1"
    unfolding segment_sorted_def
  proof (intro allI impI)
    fix s t assume st: "a \<le> s" "s \<le> t" "t \<le> Suc i - 1"
    consider "s = t" | "s < i" "t = i" | "s < t" "t < i" using st by fastforce
    then show "key (ds1 ! s) \<le> key (ds1 ! t)"
    proof cases
      case 2
      then show ?thesis using cross [of s i] st ib by simp
    next
      case 3
      then show ?thesis using Suc.prems(5) st pre [of s] pre [of t] unfolding segment_sorted_def by auto
    qed simp
  qed
  have cross1: "\<forall>s t. a \<le> s \<longrightarrow> s < Suc i \<longrightarrow> Suc i \<le> t \<longrightarrow> t \<le> b \<longrightarrow> key (ds1 ! s) \<le> key (ds1 ! t)"
    using cross least by (metis Suc_leD less_antisym)
  have n1: "n = b - Suc i" and ai: "a \<le> Suc i" using Suc.hyps(2) Suc.prems(2) by auto
  obtain h' ds' where ih: "selectionsort_from h1 f w (slot l es (Suc i)) (slot l es b) = Some h'" "sort_inv f w key h0 l es D h' ds'"
    "same_outside a b ds1 ds'" "segment_sorted key a b ds'"
    using Suc.hyps(1) [OF n1 h1(2) ai _ Suc.prems(4) sorted1 cross1] ib by auto
  have "selectionsort_from h f w (slot l es i) (slot l es b) = Some h'"
    using nb e m(1) h1(1) e1 ih(1) by (subst selectionsort_from.simps) simp
  moreover have "same_outside a b ds ds1" using Suc.prems(2) mb ib by (simp add: ds1_def)
  then have "same_outside a b ds ds'" using ih(3) same_outside_trans by blast
  ultimately show ?case using ih(2,4) by blast
qed

subsection \<open>The partition\<close>

text \<open>\<open>parted\<close>: what is left of \<open>i\<close> is not above the pivot, what is right of \<open>j\<close> not below it.\<close>

definition parted :: "(ptr \<Rightarrow> int) \<Rightarrow> nat \<Rightarrow> nat \<Rightarrow> nat \<Rightarrow> nat \<Rightarrow> nat \<Rightarrow> ptr list \<Rightarrow> bool" where
  "parted key a b p i j ds \<longleftrightarrow>
     (\<forall>t. a \<le> t \<longrightarrow> t < i \<longrightarrow> key (ds ! t) \<le> key (ds ! p)) \<and> (\<forall>t. j < t \<longrightarrow> t \<le> b \<longrightarrow> key (ds ! p) \<le> key (ds ! t))"

lemma scan_left_ok:
  assumes inv: "sort_inv f w key h0 l es D h ds" and "i \<le> p" and p: "p < length es"
  shows "\<exists>i'. scan_left h f w (slot l es i) (slot l es p) = Some (slot l es i') \<and> i \<le> i' \<and> i' \<le> p
    \<and> (\<forall>t. i \<le> t \<longrightarrow> t < i' \<longrightarrow> key (ds ! t) \<le> key (ds ! p)) \<and> (i' < p \<longrightarrow> key (ds ! p) < key (ds ! i'))"
  using assms(2)
proof (induction "p - i" arbitrary: i)
  case 0
  then show ?case by (intro exI [of _ i]) (auto simp: scan_left.simps)
next
  case (Suc n)
  note rep = sort_invD(1) [OF inv]
  have i: "i < p" "i < length es" using Suc.hyps(2) p by auto
  have nip: "slot l es i \<noteq> slot l es p" using slot_eq [OF rep, of i p] i p by simp
  obtain u where u: "compare_entries h f w (slot l es i) (slot l es p) = Some u"
    "0 < u \<longleftrightarrow> key (ds ! p) < key (ds ! i)" by (rule compare_at [OF inv i(2) p])
  obtain e where e: "get_entry h (slot l es i) = Some e" "enext e = slot l es (Suc i)" by (rule slot_next [OF rep i(2)])
  show ?case
  proof (cases "u \<le> 0")
    case False
    then show ?thesis using nip u i by (subst scan_left.simps) (auto intro!: exI [of _ i])
  next
    case True
    have n1: "n = p - Suc i" "Suc i \<le> p" using Suc.hyps(2) i by auto
    obtain i' where i': "scan_left h f w (slot l es (Suc i)) (slot l es p) = Some (slot l es i')" "Suc i \<le> i'" "i' \<le> p"
      "\<forall>t. Suc i \<le> t \<longrightarrow> t < i' \<longrightarrow> key (ds ! t) \<le> key (ds ! p)" "i' < p \<longrightarrow> key (ds ! p) < key (ds ! i')"
      using Suc.hyps(1) [OF n1] by blast
    have "\<forall>t. i \<le> t \<longrightarrow> t < i' \<longrightarrow> key (ds ! t) \<le> key (ds ! p)"
      using i'(4) u(2) True by (metis Suc_leI le_neq_implies_less linorder_not_less)
    then show ?thesis using nip u(1) True e i' by (subst scan_left.simps) auto
  qed
qed

lemma scan_right_ok:
  assumes inv: "sort_inv f w key h0 l es D h ds" and "p \<le> j" and "j < length es"
  shows "\<exists>j'. scan_right h f w (slot l es j) (slot l es p) = Some (slot l es j') \<and> p \<le> j' \<and> j' \<le> j
    \<and> (\<forall>t. j' < t \<longrightarrow> t \<le> j \<longrightarrow> key (ds ! p) \<le> key (ds ! t)) \<and> (p < j' \<longrightarrow> key (ds ! j') < key (ds ! p))"
  using assms(2,3)
proof (induction "j - p" arbitrary: j)
  case 0
  then show ?case by (intro exI [of _ j]) (auto simp: scan_right.simps)
next
  case (Suc n)
  note rep = sort_invD(1) [OF inv]
  obtain k where k: "j = Suc k" using Suc.hyps(2) by (cases j) auto
  have pj: "p < j" "p < length es" using Suc.hyps(2) Suc.prems by auto
  have nip: "slot l es j \<noteq> slot l es p" using slot_eq [OF rep, of j p] pj Suc.prems by simp
  obtain u where u: "compare_entries h f w (slot l es j) (slot l es p) = Some u"
    "u < 0 \<longleftrightarrow> key (ds ! j) < key (ds ! p)" by (rule compare_at [OF inv Suc.prems(2) pj(2)])
  obtain e where e: "get_entry h (slot l es j) = Some e" "eprev e = slot l es k"
    unfolding k by (rule slot_prev [OF rep, of k]) (use k Suc.prems in auto)
  show ?case
  proof (cases "0 \<le> u")
    case False
    then show ?thesis using nip u pj by (subst scan_right.simps) (auto intro!: exI [of _ j])
  next
    case True
    have n1: "n = k - p" "p \<le> k" "k < length es" using Suc.hyps(2) pj k Suc.prems by auto
    obtain j' where j': "scan_right h f w (slot l es k) (slot l es p) = Some (slot l es j')" "p \<le> j'" "j' \<le> k"
      "\<forall>t. j' < t \<longrightarrow> t \<le> k \<longrightarrow> key (ds ! p) \<le> key (ds ! t)" "p < j' \<longrightarrow> key (ds ! j') < key (ds ! p)"
      using Suc.hyps(1) [OF n1] by blast
    have "\<forall>t. j' < t \<longrightarrow> t \<le> j \<longrightarrow> key (ds ! p) \<le> key (ds ! t)"
      using j'(4) u(2) True k by (metis le_SucE linorder_not_less)
    then show ?thesis using nip u(1) True e j' k by (subst scan_right.simps) auto
  qed
qed

lemma exchange_ok:
  assumes "sort_inv f w key h0 l es D h ds" and "a \<le> i" "i \<le> p" "p \<le> j" "j \<le> b" "b < length es"
    and "parted key a b p i j ds"
  shows "\<exists>h' ds' i' j'. exchange h f w (slot l es i) (slot l es j) (slot l es p) = Some (h', slot l es i', slot l es j')
    \<and> sort_inv f w key h0 l es D h' ds' \<and> same_outside a b ds ds' \<and> a \<le> i' \<and> i' \<le> p \<and> p \<le> j' \<and> j' \<le> b
    \<and> (i' = p \<or> j' = p) \<and> parted key a b p i' j' ds'"
  using assms
proof (induction "j - i" arbitrary: i j h ds rule: less_induct)
  case less
  note inv = less.prems(1) and rep = sort_invD(1) [OF less.prems(1)]
  have len: "length ds = length es" by (rule sort_invD(2) [OF inv])
  have p: "p < length es" using less.prems by simp
  have eqs: "slot l es x = slot l es p \<longleftrightarrow> x = p" if "x < length es" for x
    using slot_eq [OF rep, of x p] that p by simp
  show ?case
  proof (cases "i = p \<or> j = p")
    case True
    then show ?thesis using less.prems eqs
      by (intro exI [of _ h] exI [of _ ds] exI [of _ i] exI [of _ j]) (auto simp: exchange.simps)
  next
    case False
    obtain i1 where i1: "scan_left h f w (slot l es i) (slot l es p) = Some (slot l es i1)" "i \<le> i1" "i1 \<le> p"
      "\<forall>t. i \<le> t \<longrightarrow> t < i1 \<longrightarrow> key (ds ! t) \<le> key (ds ! p)" "i1 < p \<longrightarrow> key (ds ! p) < key (ds ! i1)"
      using scan_left_ok [OF inv less.prems(3) p] by blast
    have jl: "j < length es" using less.prems by simp
    obtain j1 where j1: "scan_right h f w (slot l es j) (slot l es p) = Some (slot l es j1)" "p \<le> j1" "j1 \<le> j"
      "\<forall>t. j1 < t \<longrightarrow> t \<le> j \<longrightarrow> key (ds ! p) \<le> key (ds ! t)" "p < j1 \<longrightarrow> key (ds ! j1) < key (ds ! p)"
      using scan_right_ok [OF inv less.prems(4) jl] by blast
    have pt: "parted key a b p i1 j1 ds"
      using less.prems(7) i1(4) j1(4) unfolding parted_def by (metis linorder_not_less)
    have il: "i < length es" "i1 < length es" "j1 < length es" using i1 j1 p jl less.prems by auto
    show ?thesis
    proof (cases "i1 = p \<or> j1 = p")
      case True
      then have "exchange h f w (slot l es i1) (slot l es j1) (slot l es p) = Some (h, slot l es i1, slot l es j1)"
        using eqs il by (subst exchange.simps) auto
      then have "exchange h f w (slot l es i) (slot l es j) (slot l es p) = Some (h, slot l es i1, slot l es j1)"
        using False True eqs il jl i1(1) j1(1) by (subst exchange.simps) auto
      then show ?thesis using True inv pt i1 j1 less.prems by (intro exI [of _ h] exI [of _ ds] exI [of _ i1] exI [of _ j1]) auto
    next
      case F1: False
      define ds1 where "ds1 = ds[i1 := ds ! j1, j1 := ds ! i1]"
      obtain h1 where h1: "swap_data h (slot l es i1) (slot l es j1) = Some h1" "sort_inv f w key h0 l es D h1 ds1"
        unfolding ds1_def by (rule swap_data_at [OF inv il(2,3)])
      note rep1 = sort_invD(1) [OF h1(2)]
      obtain le where le: "get_entry h1 (slot l es i1) = Some le" "enext le = slot l es (Suc i1)" by (rule slot_next [OF rep1 il(2)])
      obtain k where k: "j1 = Suc k" using F1 j1(2) by (cases j1) auto
      obtain re where re: "get_entry h1 (slot l es j1) = Some re" "eprev re = slot l es k"
        unfolding k by (rule slot_prev [OF rep1, of k]) (use k il in auto)
      have lt: "i1 < p" "p < j1" using F1 i1(3) j1(2) by auto
      have el: "ds1 ! t = (if t = j1 then ds ! i1 else if t = i1 then ds ! j1 else ds ! t)" if "t < length es" for t
        using that len il by (auto simp: ds1_def nth_list_update)
      have dp: "ds1 ! p = ds ! p" using el [OF p] lt by simp
      have "parted key a b p (Suc i1) k ds1"
        unfolding parted_def dp
      proof (intro conjI allI impI)
        fix t assume t: "a \<le> t" "t < Suc i1"
        then show "key (ds1 ! t) \<le> key (ds ! p)"
          using el [of t] pt lt j1(5) il unfolding parted_def by (cases "t = i1") auto
      next
        fix t assume t: "k < t" "t \<le> b"
        then show "key (ds ! p) \<le> key (ds1 ! t)"
          using el [of t] pt lt i1(5) k less.prems(6) unfolding parted_def by (cases "t = j1") auto
      qed
      moreover have "k - Suc i1 < j - i" "a \<le> Suc i1" "Suc i1 \<le> p" "p \<le> k" "k \<le> b" using lt k i1 j1 less.prems by auto
      ultimately obtain h' ds' i' j' where ih: "exchange h1 f w (slot l es (Suc i1)) (slot l es k) (slot l es p) = Some (h', slot l es i', slot l es j')"
        "sort_inv f w key h0 l es D h' ds'" "same_outside a b ds1 ds'" "a \<le> i'" "i' \<le> p" "p \<le> j'" "j' \<le> b"
        "i' = p \<or> j' = p" "parted key a b p i' j' ds'"
        using less.hyps [OF _ h1(2) _ _ _ _ less.prems(6)] by blast
      have "exchange h f w (slot l es i) (slot l es j) (slot l es p) = Some (h', slot l es i', slot l es j')"
        using False F1 eqs il jl i1(1) j1(1) h1(1) le re ih(1) by (subst exchange.simps) auto
      moreover have "same_outside a b ds ds1" using lt i1 j1 less.prems by (simp add: ds1_def)
      then have "same_outside a b ds ds'" using ih(3) same_outside_trans by blast
      ultimately show ?thesis using ih by blast
    qed
  qed
qed

lemma compact_left_ok:
  assumes "sort_inv f w key h0 l es D h ds" and "a \<le> i" "i \<le> p" "p \<le> b" "b < length es" "b < 2 ^ 31"
    and "parted key a b p i p ds"
  shows "\<exists>h' ds' p'. compact_left h f w (slot l es i) (slot l es p) (p - a) = Some (h', slot l es p', p' - a)
    \<and> sort_inv f w key h0 l es D h' ds' \<and> same_outside a b ds ds' \<and> a \<le> p' \<and> p' \<le> b \<and> parted key a b p' p' p' ds'"
  using assms
proof (induction "p - i" arbitrary: i p h ds)
  case 0
  then have "i = p" by simp
  then show ?case using 0 by (intro exI [of _ h] exI [of _ ds] exI [of _ p]) (simp add: compact_left.simps)
next
  case (Suc n)
  note inv = Suc.prems(1) and rep = sort_invD(1) [OF Suc.prems(1)]
  have len: "length ds = length es" by (rule sort_invD(2) [OF inv])
  have pl: "p < length es" "i < p" "i < length es" using Suc.prems Suc.hyps(2) by auto
  obtain q where q: "p = Suc q" using pl by (cases p) auto
  have ql: "q < length es" "i \<le> q" using q pl by auto
  have nip: "slot l es i \<noteq> slot l es p" using slot_eq [OF rep, of i p] pl by simp
  obtain u where u: "compare_entries h f w (slot l es i) (slot l es p) = Some u"
    "0 < u \<longleftrightarrow> key (ds ! p) < key (ds ! i)" by (rule compare_at [OF inv pl(3,1)])
  show ?case
  proof (cases "u > 0")
    case False
    obtain e where e: "get_entry h (slot l es i) = Some e" "enext e = slot l es (Suc i)" by (rule slot_next [OF rep pl(3)])
    have n1: "n = p - Suc i" "a \<le> Suc i" "Suc i \<le> p" using Suc.hyps(2) Suc.prems pl by auto
    have "parted key a b p (Suc i) p ds"
      using Suc.prems(7) u(2) False unfolding parted_def by (metis less_SucE linorder_not_less)
    then obtain h' ds' p' where ih: "compact_left h f w (slot l es (Suc i)) (slot l es p) (p - a) = Some (h', slot l es p', p' - a)"
      "sort_inv f w key h0 l es D h' ds'" "same_outside a b ds ds'" "a \<le> p'" "p' \<le> b" "parted key a b p' p' p' ds'"
      using Suc.hyps(1) [OF n1(1) inv n1(2,3) Suc.prems(4,5,6)] by blast
    then show ?thesis using nip u(1) False e by (subst compact_left.simps) auto
  next
    case True
    obtain pe where pe: "get_entry h (slot l es p) = Some pe" "eprev pe = slot l es q"
      unfolding q by (rule slot_prev [OF rep, of q]) (use q pl in auto)
    define ds1 where "ds1 = ds[i := ds ! q, q := ds ! p, p := ds ! i]"
    obtain h1 where h1: "rotate_data h (slot l es i) (slot l es q) (slot l es p) = Some h1" "sort_inv f w key h0 l es D h1 ds1"
      unfolding ds1_def by (rule rotate_data_at [OF inv pl(3) ql(1) pl(1)]) (use pl q in auto)
    have so1: "same_outside a b ds ds1" using Suc.prems pl q ql by (simp add: ds1_def)
    have el: "ds1 ! t = (if t = p then ds ! i else if t = q then ds ! p else if t = i then ds ! q else ds ! t)"
      if "t < length es" for t using that len pl ql q by (auto simp: ds1_def nth_list_update)
    have dq: "ds1 ! q = ds ! p" using el [OF ql(1)] q by simp
    have pt: "parted key a b q i q ds1"
      unfolding parted_def dq
    proof (intro conjI allI impI)
      fix t assume t: "a \<le> t" "t < i"
      then show "key (ds1 ! t) \<le> key (ds ! p)"
        using el [of t] Suc.prems(7) pl ql q unfolding parted_def by auto
    next
      fix t assume t: "q < t" "t \<le> b"
      then show "key (ds ! p) \<le> key (ds1 ! t)"
        using el [of t] Suc.prems(5,7) True u(2) q ql unfolding parted_def by (cases "t = p") auto
    qed
    have pid: "usub (p - a) 1 = q - a" using q ql Suc.prems by (simp add: Suc_diff_le)
    show ?thesis
    proof (cases "q = i")
      case qi: True
      then have "compact_left h f w (slot l es i) (slot l es p) (p - a) = Some (h1, slot l es q, q - a)"
        using nip u(1) True pe h1(1) pid by (subst compact_left.simps) simp
      moreover have "parted key a b q q q ds1" using pt qi by simp
      moreover have "a \<le> q" "q \<le> b" using qi q Suc.prems by auto
      ultimately show ?thesis using h1(2) so1 by blast
    next
      case qi: False
      have ne: "slot l es q \<noteq> slot l es i" using slot_eq [OF rep, of q i] ql pl qi by simp
      have n1: "n = q - i" "i \<le> q" "q \<le> b" using Suc.hyps(2) q ql Suc.prems by auto
      obtain h' ds' p' where ih: "compact_left h1 f w (slot l es i) (slot l es q) (q - a) = Some (h', slot l es p', p' - a)"
        "sort_inv f w key h0 l es D h' ds'" "same_outside a b ds1 ds'" "a \<le> p'" "p' \<le> b" "parted key a b p' p' p' ds'"
        using Suc.hyps(1) [OF n1(1) h1(2) Suc.prems(2) n1(2,3) Suc.prems(5,6) pt] by blast
      have "compact_left h f w (slot l es i) (slot l es p) (p - a) = Some (h', slot l es p', p' - a)"
        using nip u(1) True pe h1(1) pid ne ih(1) by (subst compact_left.simps) simp
      moreover have "same_outside a b ds ds'" using so1 ih(3) same_outside_trans by blast
      ultimately show ?thesis using ih by blast
    qed
  qed
qed

lemma compact_right_ok:
  assumes "sort_inv f w key h0 l es D h ds" and "a \<le> p" "p \<le> j" "j \<le> b" "b < length es" "b < 2 ^ 31"
    and "parted key a b p p j ds"
  shows "\<exists>h' ds' p'. compact_right h f w (slot l es j) (slot l es p) (p - a) = Some (h', slot l es p', p' - a)
    \<and> sort_inv f w key h0 l es D h' ds' \<and> same_outside a b ds ds' \<and> a \<le> p' \<and> p' \<le> b \<and> parted key a b p' p' p' ds'"
  using assms
proof (induction "j - p" arbitrary: j p h ds)
  case 0
  then have "j = p" by simp
  then show ?case using 0 by (intro exI [of _ h] exI [of _ ds] exI [of _ p]) (simp add: compact_right.simps)
next
  case (Suc n)
  note inv = Suc.prems(1) and rep = sort_invD(1) [OF Suc.prems(1)]
  have len: "length ds = length es" by (rule sort_invD(2) [OF inv])
  have pl: "p < length es" "p < j" "j < length es" using Suc.prems Suc.hyps(2) by auto
  define q where "q = Suc p"
  have ql: "q < length es" "q \<le> j" using q_def pl by auto
  have nip: "slot l es j \<noteq> slot l es p" using slot_eq [OF rep, of j p] pl by simp
  obtain u where u: "compare_entries h f w (slot l es j) (slot l es p) = Some u"
    "u < 0 \<longleftrightarrow> key (ds ! j) < key (ds ! p)" by (rule compare_at [OF inv pl(3,1)])
  show ?case
  proof (cases "u < 0")
    case False
    obtain k where k: "j = Suc k" using pl by (cases j) auto
    obtain e where e: "get_entry h (slot l es j) = Some e" "eprev e = slot l es k"
      unfolding k by (rule slot_prev [OF rep, of k]) (use k pl in auto)
    have n1: "n = k - p" "p \<le> k" "k \<le> b" using Suc.hyps(2) Suc.prems pl k by auto
    have "parted key a b p p k ds"
      using Suc.prems(7) u(2) False k unfolding parted_def by (metis linorder_not_less not_less_eq order_antisym_conv)
    then obtain h' ds' p' where ih: "compact_right h f w (slot l es k) (slot l es p) (p - a) = Some (h', slot l es p', p' - a)"
      "sort_inv f w key h0 l es D h' ds'" "same_outside a b ds ds'" "a \<le> p'" "p' \<le> b" "parted key a b p' p' p' ds'"
      using Suc.hyps(1) [OF n1(1) inv Suc.prems(2) n1(2,3) Suc.prems(5,6)] by blast
    then show ?thesis using nip u(1) False e by (subst compact_right.simps) auto
  next
    case True
    obtain pe where pe: "get_entry h (slot l es p) = Some pe" "enext pe = slot l es q"
      unfolding q_def by (rule slot_next [OF rep pl(1)])
    define ds1 where "ds1 = ds[j := ds ! q, q := ds ! p, p := ds ! j]"
    obtain h1 where h1: "rotate_data h (slot l es j) (slot l es q) (slot l es p) = Some h1" "sort_inv f w key h0 l es D h1 ds1"
      unfolding ds1_def by (rule rotate_data_at [OF inv pl(3) ql(1) pl(1)]) (use pl q_def in auto)
    have so1: "same_outside a b ds ds1" using Suc.prems pl q_def ql by (simp add: ds1_def)
    have el: "ds1 ! t = (if t = p then ds ! j else if t = q then ds ! p else if t = j then ds ! q else ds ! t)"
      if "t < length es" for t using that len pl ql q_def by (auto simp: ds1_def nth_list_update)
    have dq: "ds1 ! q = ds ! p" using el [OF ql(1)] q_def by simp
    have pt: "parted key a b q q j ds1"
      unfolding parted_def dq
    proof (intro conjI allI impI)
      fix t assume t: "a \<le> t" "t < q"
      then show "key (ds1 ! t) \<le> key (ds ! p)"
        using el [of t] Suc.prems(5,7) True u(2) q_def ql pl unfolding parted_def by (cases "t = p") auto
    next
      fix t assume t: "j < t" "t \<le> b"
      then show "key (ds ! p) \<le> key (ds1 ! t)"
        using el [of t] Suc.prems(5,7) pl ql q_def unfolding parted_def by auto
    qed
    have pid: "(p - a + 1) mod 2 ^ 32 = q - a" using q_def pl Suc.prems by simp
    show ?thesis
    proof (cases "q = j")
      case qj: True
      then have "compact_right h f w (slot l es j) (slot l es p) (p - a) = Some (h1, slot l es q, q - a)"
        using nip u(1) True pe h1(1) pid by (subst compact_right.simps) simp
      moreover have "parted key a b q q q ds1" using pt qj by simp
      moreover have "a \<le> q" "q \<le> b" using qj Suc.prems pl by auto
      ultimately show ?thesis using h1(2) so1 by blast
    next
      case qj: False
      have ne: "slot l es q \<noteq> slot l es j" using slot_eq [OF rep, of q j] ql pl qj by simp
      have n1: "n = j - q" "a \<le> q" "q \<le> j" using Suc.hyps(2) q_def ql Suc.prems by auto
      obtain h' ds' p' where ih: "compact_right h1 f w (slot l es j) (slot l es q) (q - a) = Some (h', slot l es p', p' - a)"
        "sort_inv f w key h0 l es D h' ds'" "same_outside a b ds1 ds'" "a \<le> p'" "p' \<le> b" "parted key a b p' p' p' ds'"
        using Suc.hyps(1) [OF n1(1) h1(2) n1(2,3) Suc.prems(4,5,6) pt] by blast
      have "compact_right h f w (slot l es j) (slot l es p) (p - a) = Some (h', slot l es p', p' - a)"
        using nip u(1) True pe h1(1) pid ne ih(1) by (subst compact_right.simps) simp
      moreover have "same_outside a b ds ds'" using so1 ih(3) same_outside_trans by blast
      ultimately show ?thesis using ih by blast
    qed
  qed
qed

lemma partition_entries_ok:
  assumes inv: "sort_inv f w key h0 l es D h ds" and ab: "a \<le> b" "b < length es" "b < 2 ^ 31" and pid: "pid \<le> b - a"
  shows "\<exists>h' ds' p. partition_entries h f w pid a (slot l es a) b (slot l es b) = Some (h', slot l es p, p - a)
    \<and> sort_inv f w key h0 l es D h' ds' \<and> same_outside a b ds ds' \<and> a \<le> p \<and> p \<le> b \<and> parted key a b p p p ds'"
proof -
  note rep = sort_invD(1) [OF inv]
  define N where "N = nodes l es"
  have ch: "chain (entries h) None N None" unfolding N_def by (rule list_repD(1) [OF rep])
  have len: "length N = length es + 2" by (simp add: N_def)
  have sl: "slot l es i = Some (N ! Suc i)" for i by (simp add: slot_def N_def)
  define p where "p = a + pid"
  have p: "a \<le> p" "p \<le> b" "p < length es" using ab pid by (auto simp: p_def)
  have start: "(if pid < (b - a + 1) div 2 then walk_next h pid (slot l es a) else walk_prev h (b - a - pid) (slot l es b)) =
    Some (slot l es p)"
    using walk_next_chain [OF ch, of "Suc a" pid] walk_prev_chain [OF ch, of "Suc b" "b - a - pid"] len ab pid
    by (auto simp: sl p_def Suc_diff_le)
  have "parted key a b p a b ds" by (simp add: parted_def)
  then obtain h1 ds1 i j where ex: "exchange h f w (slot l es a) (slot l es b) (slot l es p) = Some (h1, slot l es i, slot l es j)"
    "sort_inv f w key h0 l es D h1 ds1" "same_outside a b ds ds1" "a \<le> i" "i \<le> p" "p \<le> j" "j \<le> b"
    "i = p \<or> j = p" "parted key a b p i j ds1"
    using exchange_ok [OF inv order_refl p(1,2) order_refl ab(2)] by blast
  have pa: "pid = p - a" by (simp add: p_def)
  have eq: "slot l es j = slot l es p \<longleftrightarrow> j = p" using slot_eq [OF rep, of j p] ex(7) ab p by simp
  show ?thesis
  proof (cases "j = p")
    case True
    then obtain h' ds' p' where c: "compact_left h1 f w (slot l es i) (slot l es p) (p - a) = Some (h', slot l es p', p' - a)"
      "sort_inv f w key h0 l es D h' ds'" "same_outside a b ds1 ds'" "a \<le> p'" "p' \<le> b" "parted key a b p' p' p' ds'"
      using compact_left_ok [OF ex(2,4,5) p(2) ab(2,3)] ex(9) by blast
    have "same_outside a b ds ds'" using ex(3) c(3) same_outside_trans by blast
    moreover have "partition_entries h f w pid a (slot l es a) b (slot l es b) = Some (h', slot l es p', p' - a)"
      unfolding partition_entries_def start using ex(1) eq True c(1) pa by simp
    ultimately show ?thesis using c by blast
  next
    case False
    then have "i = p" using ex(8) by simp
    then obtain h' ds' p' where c: "compact_right h1 f w (slot l es j) (slot l es p) (p - a) = Some (h', slot l es p', p' - a)"
      "sort_inv f w key h0 l es D h' ds'" "same_outside a b ds1 ds'" "a \<le> p'" "p' \<le> b" "parted key a b p' p' p' ds'"
      using compact_right_ok [OF ex(2) p(1) ex(6,7) ab(2,3)] ex(9) by blast
    have "same_outside a b ds ds'" using ex(3) c(3) same_outside_trans by blast
    moreover have "partition_entries h f w pid a (slot l es a) b (slot l es b) = Some (h', slot l es p', p' - a)"
      unfolding partition_entries_def start using ex(1) eq False c(1) pa by simp
    ultimately show ?thesis using c by blast
  qed
qed

subsection \<open>Quicksort\<close>

lemma sorted_join:
  assumes "parted key a b p p p ds"
    and "\<And>s t. a \<le> s \<Longrightarrow> s \<le> t \<Longrightarrow> t < p \<Longrightarrow> key (ds ! s) \<le> key (ds ! t)"
    and "\<And>s t. p < s \<Longrightarrow> s \<le> t \<Longrightarrow> t \<le> b \<Longrightarrow> key (ds ! s) \<le> key (ds ! t)"
  shows "segment_sorted key a b ds"
  unfolding segment_sorted_def
proof (intro allI impI)
  fix s t assume st: "a \<le> s" "s \<le> t" "t \<le> b"
  consider "t < p" | "p < s" | "s \<le> p" "p \<le> t" by linarith
  then show "key (ds ! s) \<le> key (ds ! t)"
  proof cases
    case 3
    have "key (ds ! s) \<le> key (ds ! p)" using assms(1) 3 st unfolding parted_def by (cases "s = p") auto
    also have "key (ds ! p) \<le> key (ds ! t)" using assms(1) 3 st unfolding parted_def by (cases "t = p") auto
    finally show ?thesis .
  qed (use assms st in auto)
qed

text \<open>Rearranging one side of the pivot leaves the list parted.\<close>

lemma parted_left:
  assumes pt: "parted key a b p p p ds" and so: "same_outside a (p - 1) ds ds'" and ms: "mset ds' = mset ds"
    and p: "a < p" "p \<le> b" "b < length ds"
  shows "parted key a b p p p ds'"
proof -
  have out: "ds' ! t = ds ! t" if "p \<le> t" "t \<le> b" for t
    using that so p unfolding same_outside_def by auto
  show ?thesis
    unfolding parted_def
  proof (intro conjI allI impI)
    fix t assume t: "a \<le> t" "t < p"
    have "p - 1 < length ds" "t \<le> p - 1" using p t by auto
    then obtain s where "a \<le> s" "s \<le> p - 1" "ds' ! t = ds ! s"
      using segment_set [OF so ms _ t(1)] by blast
    then show "key (ds' ! t) \<le> key (ds' ! p)" using pt out [of p] p unfolding parted_def by auto
  next
    fix t assume "p < t" "t \<le> b"
    then show "key (ds' ! p) \<le> key (ds' ! t)" using pt out [of p] out [of t] p unfolding parted_def by auto
  qed
qed

lemma parted_right:
  assumes pt: "parted key a b p p p ds" and so: "same_outside (p + 1) b ds ds'" and ms: "mset ds' = mset ds"
    and p: "a \<le> p" "p < b" "b < length ds"
  shows "parted key a b p p p ds'"
proof -
  have out: "ds' ! t = ds ! t" if "t \<le> p" for t
    using that so p unfolding same_outside_def by auto
  show ?thesis
    unfolding parted_def
  proof (intro conjI allI impI)
    fix t assume "p < t" "t \<le> b"
    then obtain s where "p + 1 \<le> s" "s \<le> b" "ds' ! t = ds ! s"
      using segment_set [OF so ms p(3), of t] by auto
    then show "key (ds' ! p) \<le> key (ds' ! t)" using pt out [of p] p unfolding parted_def by auto
  next
    fix t assume "a \<le> t" "t < p"
    then show "key (ds' ! t) \<le> key (ds' ! p)" using pt out [of p] out [of t] p unfolding parted_def by auto
  qed
qed

lemma list_sort_quicksort_ok:
  assumes "sort_inv f w key h0 l es D h ds" and "a \<le> b" "b < length es" "length es < 2 ^ 31"
  shows "\<exists>h' ds' k'. list_sort_quicksort rnd k h f w a (slot l es a) b (slot l es b) = Some (h', k')
    \<and> sort_inv f w key h0 l es D h' ds' \<and> same_outside a b ds ds' \<and> segment_sorted key a b ds'"
  using assms(1,2,3)
proof (induction "b - a" arbitrary: a b h ds k rule: less_induct)
  case less
  note inv = less.prems(1)
  show ?case
  proof (cases "b \<le> a")
    case True
    then have "b = a" using less.prems(2) by simp
    then have "segment_sorted key a b ds"
      unfolding segment_sorted_def by (metis le_antisym le_trans order_refl)
    then show ?thesis using True inv by (intro exI [of _ h] exI [of _ ds] exI [of _ k]) (simp add: list_sort_quicksort.simps)
  next
    case ab: False
    show ?thesis
    proof (cases "b - a + 1 \<le> min_quicksort")
      case True
      have "segment_sorted key a (a - 1) ds" by (auto simp: segment_sorted_def) (metis diff_le_self le_antisym le_trans order_refl)
      then obtain h' ds' where "selectionsort_from h f w (slot l es a) (slot l es b) = Some h'" "sort_inv f w key h0 l es D h' ds'"
        "same_outside a b ds ds'" "segment_sorted key a b ds'"
        using selectionsort_from_ok [OF inv order_refl less.prems(2,3)] by auto
      then show ?thesis using ab True
        by (intro exI [of _ h'] exI [of _ ds'] exI [of _ k])
          (simp add: list_sort_quicksort.simps list_sort_selectionsort_def)
    next
      case big: False
      have b31: "b < 2 ^ 31" and pid: "rnd k mod (b - a + 1) \<le> b - a"
        using less.prems(3) assms(4) by (simp_all add: less_Suc_eq_le [symmetric])
      obtain h1 ds1 p where p: "partition_entries h f w (rnd k mod (b - a + 1)) a (slot l es a) b (slot l es b) = Some (h1, slot l es p, p - a)"
        "sort_inv f w key h0 l es D h1 ds1" "same_outside a b ds ds1" "a \<le> p" "p \<le> b" "parted key a b p p p ds1"
        using partition_entries_ok [OF inv less.prems(2,3) b31 pid] by blast
      have pl: "p < length es" and len1: "length ds1 = length es" using p(5) less.prems(3) sort_invD(2) [OF p(2)] by auto
      obtain e1 where e1: "get_entry h1 (slot l es p) = Some e1" by (rule slot_next [OF sort_invD(1) [OF p(2)] pl])
      have prev1: "eprev e1 = slot l es (p - 1)" if "a < p"
        using slot_prev [OF sort_invD(1) [OF p(2)], of "p - 1"] that pl e1 by (metis Suc_diff_1 less_nat_zero_code not_gr_zero option.inject)
      obtain h2 ds2 k2 where l2: "(if p - a > 0
          then list_sort_quicksort rnd (k + 1) h1 f w a (slot l es a) (a + (p - a) - 1) (eprev e1) else Some (h1, k + 1)) = Some (h2, k2)"
        "sort_inv f w key h0 l es D h2 ds2" "same_outside a b ds ds2" "parted key a b p p p ds2"
        "\<And>s t. a \<le> s \<Longrightarrow> s \<le> t \<Longrightarrow> t < p \<Longrightarrow> key (ds2 ! s) \<le> key (ds2 ! t)"
      proof (cases "a < p")
        case False
        then show thesis using that [of h1 "k + 1" ds1] p by simp
      next
        case True
        have n1: "p - 1 - a < b - a" "a \<le> p - 1" "p - 1 < length es" using True p(5) pl ab by auto
        obtain h2 ds2 k2 where r: "list_sort_quicksort rnd (k + 1) h1 f w a (slot l es a) (p - 1) (slot l es (p - 1)) = Some (h2, k2)"
          "sort_inv f w key h0 l es D h2 ds2" "same_outside a (p - 1) ds1 ds2" "segment_sorted key a (p - 1) ds2"
          using less.hyps [OF n1(1) p(2) n1(2,3)] by blast
        have "mset ds2 = mset ds1" using r(2) p(2) by (simp add: sort_inv_def)
        then have "parted key a b p p p ds2" using parted_left [OF p(6) r(3)] True p(5) less.prems(3) len1 by simp
        moreover have "same_outside a b ds ds2" using p(3) r(3) p(5) same_outside_trans [of a b ds ds1 a "p - 1" ds2] by simp
        moreover have "key (ds2 ! s) \<le> key (ds2 ! t)" if "a \<le> s" "s \<le> t" "t < p" for s t
          using r(4) that unfolding segment_sorted_def by (metis Suc_diff_1 gr_zeroI less_Suc_eq_le not_less_zero)
        ultimately show thesis using that [of h2 k2 ds2] r(1,2) True prev1 by simp
      qed
      have len2: "length ds2 = length es" by (rule sort_invD(2) [OF l2(2)])
      obtain e2 where e2: "get_entry h2 (slot l es p) = Some e2" "enext e2 = slot l es (p + 1)"
        by (rule slot_next [OF sort_invD(1) [OF l2(2)] pl]) simp
      have step: "list_sort_quicksort rnd k h f w a (slot l es a) b (slot l es b) =
        (if p < b then list_sort_quicksort rnd k2 h2 f w (p + 1) (slot l es (p + 1)) b (slot l es b) else Some (h2, k2))"
        using ab big p(1,4) e1 l2(1) e2 by (subst list_sort_quicksort.simps) simp
      show ?thesis
      proof (cases "p < b")
        case False
        then have "segment_sorted key a b ds2" using sorted_join [OF l2(4,5)] by simp
        then show ?thesis using step False l2(2,3) by auto
      next
        case True
        have n1: "b - (p + 1) < b - a" "p + 1 \<le> b" using True p(4) by auto
        obtain h3 ds3 k3 where r: "list_sort_quicksort rnd k2 h2 f w (p + 1) (slot l es (p + 1)) b (slot l es b) = Some (h3, k3)"
          "sort_inv f w key h0 l es D h3 ds3" "same_outside (p + 1) b ds2 ds3" "segment_sorted key (p + 1) b ds3"
          using less.hyps [OF n1(1) l2(2) n1(2) less.prems(3)] by blast
        have "mset ds3 = mset ds2" using r(2) l2(2) by (simp add: sort_inv_def)
        then have pt: "parted key a b p p p ds3" using parted_right [OF l2(4) r(3)] True p(4) less.prems(3) len2 by simp
        have out: "ds3 ! s = ds2 ! s" if "s < p" for s
          using r(3) that pl len2 unfolding same_outside_def by auto
        have "key (ds3 ! s) \<le> key (ds3 ! t)" if "a \<le> s" "s \<le> t" "t < p" for s t
          using l2(5) [OF that] out that by simp
        moreover have "key (ds3 ! s) \<le> key (ds3 ! t)" if "p < s" "s \<le> t" "t \<le> b" for s t
          using r(4) that unfolding segment_sorted_def by auto
        ultimately have "segment_sorted key a b ds3" by (rule sorted_join [OF pt])
        moreover have "same_outside a b ds ds3" using l2(3) r(3) p(4) same_outside_trans [of a b ds ds2 "p + 1" b ds3] by simp
        ultimately show ?thesis using step True r(1,2) by auto
      qed
    qed
  qed
qed

subsection \<open>The sort of a list\<close>

lemma list_sort_ok:
  assumes rep: "list_rep (entries h) l es ds" and it: "\<not> iter_active l" and n: "length es < 2 ^ 31"
    and f: "comparator (attrs l) = Some f" and c: "compares f (blocks h) v (set ds)" and w: "versus = 1 \<or> versus = - 1"
  shows "\<exists>h' ds' k'. list_sort rnd k l h versus = Some (0, h', k') \<and> list_rep (entries h') l es ds' \<and> mset ds' = mset ds
    \<and> sorted (map (\<lambda>p. versus * v p) ds') \<and> (\<exists>m. h' = h\<lparr>entries := m\<rparr> \<and> (\<forall>a. a \<notin> set es \<longrightarrow> m a = entries h a))"
proof (cases "length es \<le> 1")
  case True
  have "h = h\<lparr>entries := entries h\<rparr>" by simp
  moreover have "sorted (map (\<lambda>p. versus * v p) ds)"
  proof -
    have "length ds \<le> 1" using list_repD(7) [OF rep] True by simp
    then show ?thesis by (cases ds rule: remdups_adj.cases) auto
  qed
  moreover have "list_sort rnd k l h versus = Some (0, h, k)"
    using it f list_repD(3) [OF rep] True by (simp add: list_sort_def)
  ultimately show ?thesis using rep by blast
next
  case False
  let ?key = "\<lambda>p. - (- versus) * v p" and ?b = "length es - 1"
  have ord: "ordered_by f (blocks h) (- versus) ?key (set ds)" by (rule compares_ordered [OF c]) (use w in auto)
  have "h = h\<lparr>entries := entries h\<rparr>" by simp
  then have inv: "sort_inv f (- versus) ?key h l es (mset ds) h ds"
    using rep ord unfolding sort_inv_def by (auto intro: exI [of _ "entries h"])
  have b: "0 \<le> ?b" "?b < length es" using False by auto
  obtain h' ds' k' where q: "list_sort_quicksort rnd k h f (- versus) 0 (slot l es 0) ?b (slot l es ?b) = Some (h', k')"
    "sort_inv f (- versus) ?key h l es (mset ds) h' ds'" "segment_sorted ?key 0 ?b ds'"
    using list_sort_quicksort_ok [OF inv b n] by blast
  note rep' = sort_invD(1) [OF q(2)]
  have len: "length ds' = length es" by (rule sort_invD(2) [OF q(2)])
  have ends: "\<exists>e. get_entry h (head_sentinel l) = Some e \<and> enext e = slot l es 0"
    "\<exists>e. get_entry h (tail_sentinel l) = Some e \<and> eprev e = slot l es ?b"
  proof -
    obtain hs ts where s: "head_sentinel l = Some hs" "tail_sentinel l = Some ts"
      "entries h hs = Some \<lparr>edata = None, enext = first_ptr es (Some ts), eprev = None\<rparr>"
      "entries h ts = Some \<lparr>edata = None, enext = None, eprev = last_ptr (Some hs) es\<rparr>"
      using list_rep_sentinels [OF rep] by metis
    have "first_ptr es (Some ts) = slot l es 0" "last_ptr (Some hs) es = slot l es ?b"
      using False by (cases es; auto simp: slot_def last_ptr_def last_conv_nth nth_append)+
    then show "\<exists>e. get_entry h (head_sentinel l) = Some e \<and> enext e = slot l es 0"
      "\<exists>e. get_entry h (tail_sentinel l) = Some e \<and> eprev e = slot l es ?b" using s by auto
  qed
  have "list_sort rnd k l h versus = Some (0, h', k')"
    using f it False list_repD(3) [OF rep] ends q(1) assert_repOk_rep [OF rep' n] by (auto simp: list_sort_def)
  moreover have "sorted (map (\<lambda>p. versus * v p) ds')"
    using q(3) len unfolding sorted_iff_nth_mono segment_sorted_def by auto
  ultimately show ?thesis using q(2) rep' unfolding sort_inv_def by blast
qed

end
