(* ===== verification/SimclistProperties.thy ===== *)
theory SimclistProperties
  imports SimclistDumpCorrect SimclistFile SimclistSortCorrect
begin

section \<open>Properties of the linked lists\<close>

text \<open>
  What programs that use the library get, from \<open>list_init\<close> on, each with a concrete input at which it
  applies.
\<close>

subsection \<open>A heap to start from\<close>

definition mem0 :: "blocks \<Rightarrow> list_mem" where
  "mem0 m = \<lparr>entries = Map.empty, blocks = m, arrays = {}, brk = 1000, mem_ok = (\<lambda>_. True)\<rparr>"

definition junk_list :: list_t where
  "junk_list = \<lparr>head_sentinel = None, tail_sentinel = None, mid = None, numels = 7, spare_array = None, spareels = [], spareelsnum = 9,
     iter_active = True, iter_pos = 3, iter_curentry = None,
     attrs = \<lparr>comparator = None, seeker = None, meter = None, copy_data = 1, hasher = None, serializer = None,
       unserializer = None\<rparr>\<rparr>"

lemma mem0_ok: "(\<And>a. a \<ge> 1000 \<Longrightarrow> m a = None) \<Longrightarrow> mem_wf (mem0 m)" "\<forall>i. mem_ok (mem0 m) i" "blocks (mem0 m) = m"
  by (simp_all add: mem_wf_def mem0_def)

subsection \<open>Programs of operations\<close>

text \<open>C31. A list starts empty and then behaves as a list: any program of appends, insertions, reads,
  extractions, deletions of one element or of a range, and clears returns, and its answers are those of the
  list of pointers \<open>list_spec\<close>, errors included; sentinels, spare entries and the middle pointer do not
  show. A program has at most \<open>2 ^ 24\<close> operations, so its list stays within what \<open>list_findpos\<close> can search.\<close>

theorem list_programs:
  assumes "mem_wf h" and "\<forall>i. mem_ok h i" and "length ops \<le> 2 ^ 24"
  shows "\<exists>l1 h1 s. list_init (Some l) h = Some (0, Some l1, h1) \<and>
    run_all run_list_op ops (l1, h1) = Some (fst (spec_all list_spec ops []), s)"
proof -
  obtain l1 h1 where i: "list_init (Some l) h = Some (0, Some l1, h1)" "heap_list (l1, h1) []"
    by (rule init_heap_list [OF assms(1,2)])
  then show ?thesis using heap_lists.runs [OF i(2), of ops] assms(3) by auto
qed

lemma list_programs_witness:
  "\<exists>l1 h1 s. list_init (Some junk_list) (mem0 Map.empty) = Some (0, Some l1, h1) \<and>
    run_all run_list_op [Append (Some 5), Append (Some 6), Prepend (Some 4), Insert_at (Some 9) 8, Get_at 2,
      Delete_at 0, Extract_at 0, Get_at 0, Clear] (l1, h1) =
    Some ([Code 1, Code 1, Code 1, Code (- 1), Data (Some 6), Code 0, Data (Some 5), Data (Some 6), Code 1], s)"
  using list_programs [OF mem0_ok(1,2), of Map.empty "[Append (Some 5), Append (Some 6), Prepend (Some 4),
    Insert_at (Some 9) 8, Get_at 2, Delete_at 0, Extract_at 0, Get_at 0, Clear]" junk_list]
  by (simp add: data_at_def)

subsection \<open>How long a list may be\<close>

text \<open>The position is searched through a quotient of two \<open>float\<close>s, which have 24 bits: one element more than
  \<open>2 ^ 24\<close> is lost in the number of elements.\<close>

lemma misread:
  assumes hl: "heap_list (l, h) ds" and n: "length ds = 2 ^ 24 + 1"
  shows "list_get_at l h (2 ^ 23 - 1) = Some (ds ! (2 ^ 23))"
proof -
  obtain es where es: "list_rep (entries h) l es ds" "length es = length ds" by (rule heap_listE [OF hl]) blast
  have num: "numels l = 2 ^ 24 + 1" using list_repD(3) [OF es(1)] es(2) n by simp
  have "mid l = Some (es ! (2 ^ 23))" using es n by (auto simp: list_rep_def mid_of_def)
  moreover have "findpos_quarter (c_int (2 ^ 23 - 1)) (numels l) = 3"
    unfolding num using findpos_wrong_turn by (simp add: c_int_def)
  ultimately have f: "list_findpos l h (c_int (2 ^ 23 - 1)) = Some (Some (es ! (2 ^ 23)))"
    using num by (simp add: list_findpos_def c_int_def usub_def)
  have "2 ^ 23 < length es" using es(2) n by simp
  then show ?thesis using f list_rep_data [OF es(1), of "2 ^ 23"] by (auto simp: list_get_at_def)
qed

text \<open>C34. A list filled by appends answers every position with its element as long as it has at most
  \<open>2 ^ 24\<close> elements. With one element more, position \<open>2 ^ 23 - 1\<close> answers with its successor:
  rounding the number of elements makes \<open>list_findpos\<close> walk forward from the middle, where the
  position is behind it.\<close>

theorem list_length_bound:
  assumes "mem_wf h" and "\<forall>i. mem_ok h i" and "length ds \<le> 2 ^ 24 + 1"
  shows "\<exists>l1 h1 l2 h2. list_init (Some l) h = Some (0, Some l1, h1) \<and>
    run_all run_list_op (map Append ds) (l1, h1) = Some (replicate (length ds) (Code 1), l2, h2) \<and>
    (length ds \<le> 2 ^ 24 \<longrightarrow> (\<forall>pos < length ds. list_get_at l2 h2 pos = Some (ds ! pos))) \<and>
    (length ds = 2 ^ 24 + 1 \<longrightarrow> list_get_at l2 h2 (2 ^ 23 - 1) = Some (ds ! (2 ^ 23)))"
proof -
  obtain l1 h1 where i: "list_init (Some l) h = Some (0, Some l1, h1)" "heap_list (l1, h1) []"
    by (rule init_heap_list [OF assms(1,2)])
  obtain l2 h2 where r: "run_all run_list_op (map Append ds) (l1, h1) = Some (replicate (length ds) (Code 1), l2, h2)"
    "heap_list (l2, h2) ds" using appends_ok [OF i(2), of ds] assms(3) by auto
  have "list_get_at l2 h2 pos = Some (ds ! pos)" if "length ds \<le> 2 ^ 24" "pos < length ds" for pos
  proof -
    obtain es where es: "list_rep (entries h2) l2 es ds" "length es = length ds" by (rule heap_listE [OF r(2)]) blast
    have "length es \<le> 2 ^ 24" "pos < length es" using that es(2) by simp_all
    then show ?thesis by (rule list_get_at_ok [OF es(1)])
  qed
  then show ?thesis using i(1) r misread [OF r(2)] by blast
qed

lemma list_length_bound_witness:
  "\<exists>l1 h1 l2 h2 rs. list_init (Some junk_list) (mem0 Map.empty) = Some (0, Some l1, h1) \<and>
    run_all run_list_op (map Append (map Some [0..<2 ^ 24 + 1])) (l1, h1) = Some (rs, l2, h2) \<and>
    list_get_at l2 h2 (2 ^ 23 - 1) = Some (Some (2 ^ 23))"
proof -
  let ?ds = "map Some [0..<2 ^ 24 + 1] :: Simclist.ptr list"
  have n: "length ?ds = 2 ^ 24 + 1" by (simp only: length_map length_upt)
  have "[0..<2 ^ 24 + 1] ! (2 ^ 23) = 0 + (2 ^ 23 :: nat)" by (rule nth_upt) simp
  moreover have "?ds ! (2 ^ 23) = Some ([0..<2 ^ 24 + 1] ! (2 ^ 23))" by (rule nth_map) (simp only: length_upt, simp)
  ultimately have "?ds ! (2 ^ 23) = Some (2 ^ 23)" by (simp only: add_0)
  then show ?thesis
    using list_length_bound [OF mem0_ok(1,2), of Map.empty ?ds junk_list] n by (metis order_refl)
qed

subsection \<open>Sorting\<close>

lemma comparator_heap_list:
  assumes "heap_list (l, h) ds"
  obtains l' where "list_attributes_comparator (Some l) (Some f) = Some (0, Some l')" "heap_list (l', h) ds"
    "comparator (attrs l') = Some f"
proof -
  let ?l = "l\<lparr>attrs := (attrs l)\<lparr>comparator := Some f\<rparr>\<rparr>"
  have "list_attributes_comparator (Some l) (Some f) = Some (0, Some ?l)" "heap_list (?l, h) ds"
    using assms by (auto simp: list_attributes_comparator_def set_attrs_def list_attrOk_def assert_that_def heap_list_def)
  then show thesis using that by simp
qed

text \<open>C32. A list of pointers to numbers, compared by the comparator of the library, is sorted by
  \<open>list_sort\<close> whatever numbers \<open>rand()\<close> returns: the call returns 0, the list then holds the same
  pointers, as often as before, and their numbers ascend for \<open>versus = 1\<close> and descend for
  \<open>versus = -1\<close>; the numbers themselves are not touched.\<close>

theorem list_sort_numbers:
  assumes "mem_wf h" and "\<forall>i. mem_ok h i" and "length ds \<le> 2 ^ 24"
    and "\<forall>p \<in> set ds. read_int n sg (blocks h) p = Some (v p)" and "versus = 1 \<or> versus = - 1"
  shows "\<exists>l1 h1 l2 l3 h3 h4 k' ds'. list_init (Some l) h = Some (0, Some l1, h1) \<and>
    list_attributes_comparator (Some l1) (Some (list_comparator_number n sg)) = Some (0, Some l2) \<and>
    run_all run_list_op (map Append ds) (l2, h1) = Some (replicate (length ds) (Code 1), l3, h3) \<and>
    list_sort rnd k l3 h3 versus = Some (0, h4, k') \<and>
    (\<forall>pos < length ds. list_get_at l3 h4 pos = Some (ds' ! pos)) \<and>
    mset ds' = mset ds \<and> sorted (map (\<lambda>p. versus * v p) ds') \<and> blocks h4 = blocks h"
proof -
  let ?f = "list_comparator_number n sg"
  obtain l1 h1 where i: "list_init (Some l) h = Some (0, Some l1, h1)" "heap_list (l1, h1) []" "blocks h1 = blocks h"
    by (rule init_heap_list [OF assms(1,2)])
  obtain l2 where c: "list_attributes_comparator (Some l1) (Some ?f) = Some (0, Some l2)" "heap_list (l2, h1) []"
    "comparator (attrs l2) = Some ?f" by (rule comparator_heap_list [OF i(2)])
  obtain l3 h3 where r: "run_all run_list_op (map Append ds) (l2, h1) = Some (replicate (length ds) (Code 1), l3, h3)"
    "heap_list (l3, h3) ds" "blocks h3 = blocks h1" "attrs l3 = attrs l2"
    using appends_ok [OF c(2), of ds] assms(3) by auto
  obtain es where es: "list_rep (entries h3) l3 es ds" "\<not> iter_active l3" "length es = length ds"
    by (rule heap_listE [OF r(2)]) blast
  have len: "length es < 2 ^ 31" "length es \<le> 2 ^ 24" using es(3) assms(3) by simp_all
  have "compares ?f (blocks h3) v (set ds)" using compares_number assms(4) i(3) r(3) by simp
  then obtain h4 ds' k' where s: "list_sort rnd k l3 h3 versus = Some (0, h4, k')" "list_rep (entries h4) l3 es ds'"
    "mset ds' = mset ds" "sorted (map (\<lambda>p. versus * v p) ds')" "\<exists>m. h4 = h3\<lparr>entries := m\<rparr>"
    using list_sort_ok [OF es(1,2) len(1), of ?f v versus] c(3) r(4) assms(5) by metis
  have "\<forall>pos < length ds. list_get_at l3 h4 pos = Some (ds' ! pos)"
    using list_get_at_ok [OF s(2) len(2)] es(3) by simp
  moreover have "blocks h4 = blocks h" using s(5) r(3) i(3) by auto
  ultimately show ?thesis using i(1) c(1) r(1) s(1,3,4) by blast
qed

text \<open>Three bytes, read as signed numbers: 5, -1 and 3.\<close>

lemma list_sort_numbers_witness:
  "\<exists>l1 h1 l2 l3 h3 h4 k'. list_init (Some junk_list) (mem0 [1 \<mapsto> [5], 2 \<mapsto> [255], 3 \<mapsto> [3]]) = Some (0, Some l1, h1) \<and>
    list_attributes_comparator (Some l1) (Some (list_comparator_number 1 True)) = Some (0, Some l2) \<and>
    run_all run_list_op (map Append [Some 1, Some 2, Some 3]) (l2, h1) = Some ([Code 1, Code 1, Code 1], l3, h3) \<and>
    list_sort (\<lambda>_. 0) 0 l3 h3 1 = Some (0, h4, k') \<and> map (list_get_at l3 h4) [0, 1, 2] = [Some (Some 2), Some (Some 3), Some (Some 1)]"
proof -
  let ?m = "[1 \<mapsto> [5], 2 \<mapsto> [255], 3 \<mapsto> [3]] :: blocks"
  let ?v = "\<lambda>p. if p = Some 1 then 5 else if p = Some 2 then - 1 else 3 :: int"
  let ?ds = "[Some 1, Some 2, Some 3] :: Simclist.ptr list"
  have ok: "mem_wf (mem0 ?m)" "\<forall>i. mem_ok (mem0 ?m) i" "length ?ds \<le> 2 ^ 24"
    "\<forall>p \<in> set ?ds. read_int 1 True (blocks (mem0 ?m)) p = Some (?v p)" by (simp_all add: mem0_ok read_int_def)
  obtain l1 h1 l2 l3 h3 h4 k' ds' where s: "list_init (Some junk_list) (mem0 ?m) = Some (0, Some l1, h1)"
    "list_attributes_comparator (Some l1) (Some (list_comparator_number 1 True)) = Some (0, Some l2)"
    "run_all run_list_op (map Append ?ds) (l2, h1) = Some (replicate (length ?ds) (Code 1), l3, h3)"
    "list_sort (\<lambda>_. 0) 0 l3 h3 1 = Some (0, h4, k')" "\<forall>pos < length ?ds. list_get_at l3 h4 pos = Some (ds' ! pos)"
    "mset ds' = mset ?ds" "sorted (map (\<lambda>p. 1 * ?v p) ds')"
    using list_sort_numbers [OF ok disjI1 [OF refl], of junk_list "\<lambda>_. 0" 0] by blast
  have "length ds' = 3" using mset_eq_length [OF s(6)] by simp
  then obtain a b c where abc: "ds' = [a, b, c]" by (auto simp: numeral_3_eq_3 length_Suc_conv)
  have "{#a, b, c#} = {#Some 1, Some 2, Some 3#}" using s(6) abc by simp
  then have "[a, b, c] = [Some 2, Some 3, Some 1]"
    using s(7) abc by (auto simp: add_eq_conv_ex split: if_splits)
  then have "map (list_get_at l3 h4) [0, 1, 2] = [Some (Some 2), Some (Some 3), Some (Some 1)]"
    using s(5) abc by simp
  moreover have "replicate (length ?ds) (Code 1) = [Code 1, Code 1, Code 1]" by simp
  ultimately show ?thesis using s(1-4) by metis
qed

subsection \<open>The lists of a program file\<close>

text \<open>C35. Closing a program file releases its two lists, and leaks what its register lines allocated besides.
  Creating the lists, adding result rows and register lines that parse to them in any order (the rows with equal numbers of columns,
  unless the program is SQL), then freeing their elements one by one and destroying both, reads no
  freed memory and frees nothing twice. Of the entries, the sentinels and spares, the two arrays of spare entries, the
  rows and the registers nothing is left. Left are, for every register line, the copy of the line, the
  array of its tokens and, when it has one, the text of its string, each at an address of its own.\<close>

theorem file_lists_leak_registers:
  assumes "mem_wf h" and "\<forall>i. mem_ok h i" and "\<forall>a \<in> arrays h. a < brk h"
    and "length xs \<le> 2 ^ 24" and "lines_ok slack sql 0 xs"
  shows "\<exists>h' lk A. file_lists slack layout sql q r xs h = Some (CHIDB_OK, h') \<and> entries h' = entries h \<and>
    blocks h' = blocks h ++ map_of lk \<and> map snd lk = concat (map (line_leaks slack) xs) \<and> distinct (map fst lk) \<and>
    arrays h' = arrays h \<union> A \<and> finite A \<and> card A = array_leaks xs \<and> (\<forall>a \<in> A \<union> set (map fst lk). brk h \<le> a)"
proof -
  obtain q1 r1 h1 where i: "file_lists_init q r h = Some (q1, r1, h1)" "two_lists h h1 q1 [] [] r1 [] []" "brk h \<le> brk h1"
    by (rule file_lists_init_ok [OF assms(1-3)])
  obtain n h2 q2 eq dq r2 er dr lk A where a: "add_lines slack layout sql xs (0, q1, r1, h1) = Some (CHIDB_OK, n, q2, r2, h2)"
    "two_lists (leaked h lk A) h2 q2 eq dq r2 er dr" "map snd lk = concat (map (line_leaks slack) xs)"
    "distinct (map fst lk)" "\<forall>x \<in> A \<union> set (map fst lk). brk h1 \<le> x \<and> x < brk h2" "finite A" "card A = array_leaks xs"
    "length eq \<le> length xs" "length er \<le> length xs"
    using add_lines_ok [OF i(2) assms(5), where layout = layout] assms(4) by auto
  obtain h3 where c: "file_lists_close q2 r2 h2 = Some h3" "entries h3 = entries (leaked h lk A)"
    "blocks h3 = blocks (leaked h lk A)" "arrays h3 = arrays (leaked h lk A)"
    by (rule file_lists_close_ok [OF a(2)]) (use a(8,9) assms(4) in auto)
  have "\<forall>x \<in> A \<union> set (map fst lk). brk h \<le> x" using a(5) le_trans [OF i(3)] by blast
  moreover have "file_lists slack layout sql q r xs h = Some (CHIDB_OK, h3)"
    using i(1) a(1) c(1) by (simp add: file_lists_def)
  ultimately show ?thesis using a(3,4,6,7) c(2-4)
    by (intro exI [of _ h3] exI [of _ lk] exI [of _ A]) (simp add: leaked_def)
qed

lemma file_lists_leak_registers_witness:
  "\<exists>h' lk A. file_lists (\<lambda>_. ''x'') (\<lambda>_ _. []) False junk_list junk_list
      [Result_line ''1'', Register_line ''R_0 string hi'', Register_line ''R_1 null''] (mem0 [3 \<mapsto> [7]]) = Some (CHIDB_OK, h') \<and>
    entries h' = Map.empty \<and> blocks h' = [3 \<mapsto> [7]] ++ map_of lk \<and> arrays h' = A \<and> card A = 2 \<and>
    map snd lk = [[82, 95, 48, 0, 115, 116, 114, 105, 110, 103, 0, 104, 105, 0], [104, 105, 0], [82, 95, 49, 0, 110, 117, 108, 108, 0]]"
proof -
  let ?xs = "[Result_line ''1'', Register_line ''R_0 string hi'', Register_line ''R_1 null'']"
  have ok: "lines_ok (\<lambda>_. ''x'') False 0 ?xs" by code_simp
  have leaks: "concat (map (line_leaks (\<lambda>_. ''x'')) ?xs) =
    [[82, 95, 48, 0, 115, 116, 114, 105, 110, 103, 0, 104, 105, 0], [104, 105, 0], [82, 95, 49, 0, 110, 117, 108, 108, 0]]"
    by code_simp
  have "mem_wf (mem0 [3 \<mapsto> [7]])" "\<forall>i. mem_ok (mem0 [3 \<mapsto> [7]]) i" "\<forall>a \<in> arrays (mem0 [3 \<mapsto> [7]]). a < brk (mem0 [3 \<mapsto> [7]])"
    "length ?xs \<le> 2 ^ 24" by (simp_all add: mem0_ok) (simp add: mem0_def)
  from file_lists_leak_registers [OF this ok, of "\<lambda>_ _. []" junk_list junk_list, unfolded leaks]
  obtain h' lk A where w: "file_lists (\<lambda>_. ''x'') (\<lambda>_ _. []) False junk_list junk_list ?xs (mem0 [3 \<mapsto> [7]]) = Some (CHIDB_OK, h')"
    "entries h' = entries (mem0 [3 \<mapsto> [7]])" "blocks h' = blocks (mem0 [3 \<mapsto> [7]]) ++ map_of lk"
    "map snd lk = [[82, 95, 48, 0, 115, 116, 114, 105, 110, 103, 0, 104, 105, 0], [104, 105, 0], [82, 95, 49, 0, 110, 117, 108, 108, 0]]"
    "arrays h' = arrays (mem0 [3 \<mapsto> [7]]) \<union> A" "card A = array_leaks ?xs"
    by (elim exE conjE) (rule that)
  then show ?thesis by (intro exI [of _ h'] exI [of _ lk] exI [of _ A]) (simp add: mem0_def)
qed

subsection \<open>Dumps\<close>

text \<open>C33. A list of elements of one size, dumped to a file and restored from it into a new list, gives as many
  elements with the same content at the same positions, whatever the width of \<open>size_t\<close>, the time, the random
  terminator and the order of evaluation; the length reported by the restore is that of the elements. The
  length reported by the dump is two bytes short of the file.\<close>

theorem dump_roundtrip:
  assumes "heap_list (l, h) ds" and "length ds \<le> 2 ^ 24"
    and "meter (attrs l) = Some f" and "serializer (attrs l) = None" and "hasher (attrs l) = None"
    and "map (\<lambda>p. Option.bind p (blocks h)) ds = map Some bss" and "\<forall>b \<in> set bss. length b = n"
    and "\<forall>p \<in> set ds. f (blocks h) p = Some n" and "0 < n" and "n * length ds < 2 ^ 32"
    and "34 + n * length ds \<le> room d" and "may_create d file"
  shows "\<exists>d' c r1 h1 r2 h2. list_dump_file szt time rndterm l h d file = Some (0, d', Some (32 + n * length ds)) \<and>
    files d' file = Some c \<and> length c = 34 + n * length ds \<and>
    list_init (Some r) h = Some (0, Some r1, h1) \<and>
    list_restore_file cur_first r1 h1 d' file = Some (0, r2, h2, Some (of_nat (n * length ds))) \<and>
    list_size r2 = length ds \<and>
    (\<forall>pos < length ds. \<exists>p. list_get_at r2 h2 pos = Some p \<and> Option.bind p (blocks h2) = Some (bss ! pos))"
proof -
  have len: "length ds = length bss" by (rule map_eq_imp_length_eq [OF assms(6)])
  have "sized h f n ds bss" using assms(6-10) by (simp add: sized_def)
  then obtain fd where du: "list_dump_filedescriptor szt time rndterm l h (open_fd [] (room d)) = Some (0, fd, Some (32 + n * length ds))"
    "fd_data fd = dump_file_of time rndterm n bss"
    using list_dump_ok [OF assms(1,3,4,5) _ assms(11)] by blast
  let ?c = "dump_file_of time rndterm n bss"
  have "mem_wf h" "\<forall>i. mem_ok h i" using assms(1) by (simp_all add: heap_list_def)
  then obtain r1 h1 where i: "list_init (Some r) h = Some (0, Some r1, h1)" "heap_list (r1, h1) []" "unserializer (attrs r1) = None"
    by (rule init_heap_list) blast
  obtain r2 h2 fd' ps where re: "list_restore_filedescriptor cur_first r1 h1 (open_fd ?c (room d)) =
      Some (0, r2, h2, fd', Some (of_nat (length bss * n)))" "heap_list (r2, h2) ps" "map (\<lambda>p. Option.bind p (blocks h2)) ps = map Some bss"
    using list_restore_ok [OF i(2,3) assms(9) _ _ assms(7), of cur_first time rndterm "room d"] assms(2,10) len
    by (auto simp: mult.commute)
  have pl: "length ps = length bss" by (rule map_eq_imp_length_eq [OF re(3)])
  obtain es where es: "list_rep (entries h2) r2 es ps" "length es = length ps" "numels r2 = length ps"
    by (rule heap_listE [OF re(2)]) blast
  have "\<exists>p. list_get_at r2 h2 pos = Some p \<and> Option.bind p (blocks h2) = Some (bss ! pos)" if "pos < length ds" for pos
  proof -
    have pos: "pos < length ps" "pos < length bss" using that len pl by simp_all
    have "length es \<le> 2 ^ 24" "pos < length es" using es(2) assms(2) len pl pos by simp_all
    then have "list_get_at r2 h2 pos = Some (ps ! pos)" by (rule list_get_at_ok [OF es(1)])
    moreover have "Option.bind (ps ! pos) (blocks h2) = Some (bss ! pos)"
      using arg_cong [OF re(3), of "\<lambda>xs. xs ! pos"] pos by simp
    ultimately show ?thesis by blast
  qed
  moreover have "length ?c = 34 + n * length ds"
    using length_sized [OF assms(7)] len by (simp add: dump_file_of_def)
  moreover have "list_size r2 = length ds" using es(3) len pl by (simp add: list_size_def)
  moreover have "list_dump_file szt time rndterm l h d file = Some (0, d\<lparr>files := (files d)(file \<mapsto> ?c)\<rparr>, Some (32 + n * length ds))"
    using du assms(12) by (simp add: list_dump_file_def)
  moreover have "list_restore_file cur_first r1 h1 (d\<lparr>files := (files d)(file \<mapsto> ?c)\<rparr>) file =
      Some (0, r2, h2, Some (of_nat (n * length ds)))"
    using re(1) len by (simp add: list_restore_file_def mult.commute)
  ultimately show ?thesis using i(1) by (intro exI [of _ "d\<lparr>files := (files d)(file \<mapsto> ?c)\<rparr>"] exI [of _ ?c]) auto
qed

text \<open>A list of two bytes.\<close>

lemma dump_roundtrip_witness:
  "\<exists>l h d' r1 h1 r2 h2 p q. heap_list (l, h) [Some 1, Some 2] \<and>
    list_dump_file 8 (7, 0) 99 l h \<lparr>files = Map.empty, may_create = (\<lambda>_. True), room = 100\<rparr> ''f'' = Some (0, d', Some 34) \<and>
    list_init (Some junk_list) h = Some (0, Some r1, h1) \<and>
    list_restore_file True r1 h1 d' ''f'' = Some (0, r2, h2, Some 2) \<and>
    list_get_at r2 h2 0 = Some p \<and> Option.bind p (blocks h2) = Some [65] \<and>
    list_get_at r2 h2 1 = Some q \<and> Option.bind q (blocks h2) = Some [66]"
proof -
  let ?m = "[1 \<mapsto> [65], 2 \<mapsto> [66]] :: blocks"
  let ?d = "\<lparr>files = Map.empty, may_create = (\<lambda>_. True), room = 100\<rparr> :: disk"
  have ok: "mem_wf (mem0 ?m)" "\<forall>i. mem_ok (mem0 ?m) i" by (simp_all add: mem0_ok)
  obtain l0 h0 where i: "heap_list (l0, h0) []" "blocks h0 = ?m" "hasher (attrs l0) = None" "serializer (attrs l0) = None"
    by (rule init_heap_list [OF ok, of junk_list]) (auto simp: mem0_ok)
  let ?l0 = "l0\<lparr>attrs := (attrs l0)\<lparr>meter := Some (list_meter_number 1)\<rparr>\<rparr>"
  have "heap_list (?l0, h0) []" using i(1) by (auto simp: heap_list_def)
  then obtain l h where a: "heap_list (l, h) [Some 1, Some 2]" "blocks h = ?m" "attrs l = attrs ?l0"
    using appends_ok [of ?l0 h0 "[]" "[Some 1, Some 2]"] i(2) by auto
  obtain d' r1 h1 r2 h2 where r: "list_dump_file 8 (7, 0) 99 l h ?d ''f'' = Some (0, d', Some (32 + 1 * length [Some 1, Some (2::nat)]))"
    "list_init (Some junk_list) h = Some (0, Some r1, h1)"
    "list_restore_file True r1 h1 d' ''f'' = Some (0, r2, h2, Some (of_nat (1 * length [Some 1, Some (2::nat)])))"
    "\<forall>pos < length [Some 1, Some (2::nat)]. \<exists>p. list_get_at r2 h2 pos = Some p \<and> Option.bind p (blocks h2) = Some ([[65], [66]] ! pos)"
    using dump_roundtrip [OF a(1), of "list_meter_number 1" "[[65], [66]]" 1 ?d "''f''" 8 "(7, 0)" 99 junk_list True] a(2,3) i(3,4)
    by (auto simp: list_meter_number_def)
  have "\<exists>p. list_get_at r2 h2 0 = Some p \<and> Option.bind p (blocks h2) = Some [65]"
    "\<exists>q. list_get_at r2 h2 1 = Some q \<and> Option.bind q (blocks h2) = Some [66]"
    using r(4) by (auto dest: spec [of _ 0] spec [of _ 1])
  moreover have "list_dump_file 8 (7, 0) 99 l h ?d ''f'' = Some (0, d', Some 34)"
    "list_restore_file True r1 h1 d' ''f'' = Some (0, r2, h2, Some 2)" using r(1,3) by simp_all
  ultimately show ?thesis using a(1) r(2) by blast
qed

end
