(* ===== verification/Spec2Isabelle.thy ===== *)
theory Spec2Isabelle
  imports DbmProperties IrcProperties SqlProperties SimclistProperties
begin

text \<open>
  This development verifies the two programs of the repository: \<open>chidb\<close>, a small relational
  database (\<open>src/db\<close>), and an IRC server (\<open>src/irc\<close>). Both are C programs; the theories translate
  the functions by their names, and the correspondence is listed here.

  \<^bold>\<open>The database.\<close> A database file is an array of pages; \<open>pager.c\<close> reads and writes them;
  \<open>btree.c\<close> keeps in them B-trees of cells, and \<open>record.c\<close> packs rows into the data of cells.
  \<open>dbm.c\<close> and \<open>dbm-ops.c\<close> run programs of a register machine, whose cursors
  (\<open>dbm-cursor.c\<close>) walk B-trees. \<open>api.c\<close> is the interface of the library: it parses a statement
  (\<open>libchisql\<close>), generates a program for it (\<open>codegen.c\<close>) and steps through the program. The terms
  of \<open>libchisql\<close> are built by its parser and are printed, checked and translated to relational
  algebra there; the code generator does not use them yet.

  \<^item> \<open>Prelude\<close>, \<open>Codes\<close>: bytes, blocks of memory and loops over them; the return codes.
  \<^item> \<open>Util\<close> (\<open>util.c\<close>, \<open>util.h\<close>): big-endian integers and varints, with their round trips.
  \<^item> \<open>Pager\<close> (\<open>pager.c\<close>): every operation over a model of the disk. The interface \<open>page_store\<close>
    states that a store of pages returns what was last written, and the pager is shown to be one.
  \<^item> \<open>Node\<close>, \<open>NodeRep\<close> (the first half of \<open>btree.c\<close>): a node is its page in memory and the header
    fields; \<open>node_rep\<close> says which list of cells a page holds, and the two operations on cells
    are shown to be indexing and insertion in that list.
  \<^item> \<open>Btree\<close> (the rest of \<open>btree.c\<close>): opening, search, insertion with splits. \<open>BtreeSpec\<close> has the
    abstract tree, \<open>BtreeRep\<close> the relation \<open>tree_rep\<close> between pages and abstract trees and the
    refinement of the search, \<open>BtreeInsert\<close> the refinement of insertion, \<open>BtreeFile\<close> the files that
    are opened or refused. \<open>BtreeOrder\<close> shows that insertion keeps a tree ordered, and \<open>BtreePrint\<close>
    (the walk of \<open>util.c\<close> over a tree, and \<open>copy\<close>) that the walk therefore lists it. In \<open>BtreeTable\<close> the interface \<open>table_map\<close> (a map that grows by
    insertions) is interpreted by the B-tree.
  \<^item> \<open>Records\<close>, \<open>RecordRep\<close> (\<open>record.c\<close>): the builder, packing and unpacking; a record is related
    to the list of its values.
  \<^item> \<open>Cursor\<close>, \<open>CursorCorrect\<close> (\<open>dbm-cursor.c\<close>): the path of a cursor lives on a heap of list
    nodes, since the defects of this file are defects of aliasing.
  \<^item> \<open>Dbm\<close>, \<open>DbmCorrect\<close> (\<open>dbm-types.h\<close>, \<open>dbm.c\<close>, \<open>dbm-ops.c\<close>): statements, the handler of each
    instruction and the run loop; the invariant \<open>stmt_ok\<close> is kept by every handler. \<open>exec_steps\<close> is the
    loop with its instructions counted, so that a run that goes on for ever and one that is undefined are told apart.
  \<^item> \<open>Api\<close>, \<open>ApiCorrect\<close> (\<open>api.c\<close>, \<open>codegen.c\<close>, \<open>optimizer.c\<close>): the library functions; what preparing,
    stepping through and explaining a statement gives.
  \<^item> \<open>DbmFile\<close>, \<open>DbmFileCorrect\<close> (\<open>dbm-file.c\<close>, the tokenizer of \<open>util.c\<close>, the printing routines of \<open>dbm.c\<close>):
    program files; the parsers of lines undo their printing, and a printed program loads.
  \<^item> \<open>Shell\<close>, \<open>ShellCorrect\<close> (\<open>src/db/src/shell\<close>): the commands of the shell and what they print.
  \<^item> \<open>Simclist\<close>, \<open>SimclistQuery\<close>, \<open>SimclistSort\<close> (\<open>simclist.c\<close>): the linked lists in which program files
    keep their lines, with entries, spare entries and copied elements on a heap. \<open>SimclistRep\<close> has the
    relation \<open>list_rep\<close> between a heap and the list it holds, \<open>SimclistFloat\<close> the \<open>float\<close> arithmetic with
    which a position is searched; \<open>SimclistOps\<close>, \<open>SimclistRemove\<close>, \<open>SimclistClear\<close>, \<open>SimclistRange\<close>,
    \<open>SimclistCorrect\<close> and \<open>SimclistSortCorrect\<close> show what each operation does to that list and which entries
    it touches, and \<open>SimclistSpec\<close> that the heap implements an abstract list (interface \<open>implements\<close>).
    \<open>SimclistDump\<close> has the dumps of lists to files, and \<open>SimclistDumpCorrect\<close> that they are restored.
    \<open>SimclistFile\<close> has what \<open>dbm-file.c\<close> does with its two lists and what result and register lines allocate, freed or
    not; \<open>DbmFile\<close> has the lists as values. \<open>SimclistProperties\<close> has the properties.
  \<^item> \<open>Samples\<close>, \<open>DbmProperties\<close>: concrete inputs, and the properties of the machine, of prepared
    statements, program files, cursors and the shell. Those of tables, nodes and records are below.
  \<^item> \<open>SqlTerms\<close>, \<open>SqlSchema\<close>, \<open>SqlAlgebra\<close>, with \<open>SqlCorrect\<close> and \<open>SqlProperties\<close>
    (\<open>libchisql\<close>): literals, expressions and conditions; columns, tables and the statements that are
    not queries; the two algebras and the translation between them. \<open>SqlFree\<close> and \<open>SqlFreeCorrect\<close>
    have the functions that release terms, as the accesses they make to the blocks of a term, and what
    they free and leave.

  \<^bold>\<open>The IRC server.\<close> A client is served by a loop that cuts the bytes it receives into messages,
  parses each and calls a handler; the handlers work on a table of users and one of channels
  that all clients share, and answer by replies of a fixed form.

  \<^item> \<open>IrcMessage\<close>, \<open>IrcMessageCorrect\<close> (\<open>message.c\<close>): framing and parsing.
  \<^item> \<open>IrcUser\<close>, \<open>IrcChannel\<close>, \<open>IrcReply\<close> (\<open>user.c\<close>, \<open>channel.c\<close>, \<open>reply.c\<close>): the tables over heaps of
    users and channels, and the replies; what is sent is kept as a list of events.
  \<^item> \<open>IrcServer\<close> (\<open>server.c\<close>): the handlers, registration, the loop of a client, and the step
    relation \<open>irc_step\<close> that interleaves the clients message by message. \<open>IrcServerCorrect\<close> shows that
    its reachable states satisfy the invariant \<open>server_ok\<close>, \<open>IrcDirectory\<close> that the table of users
    simulates a map from nicks to clients; \<open>IrcBehaviour\<close> and \<open>IrcProperties\<close> have
    what each handler does.

  \<^bold>\<open>Conventions.\<close> Machine integers are words of their width in C (\<open>u8\<close>, \<open>u16\<close>, \<open>u32\<close>), and the
  arithmetic wraps where the C arithmetic does. A block of memory is a list of bytes, an index
  into it an integer. A step whose behaviour C leaves undefined (an access outside a block, a
  null or freed pointer, a variable read before it is set) is \<open>None\<close>; an \<open>exit\<close> is \<open>Inl\<close> of the
  status. One read behind an array is recorded instead: what \<open>send_reply\<close> sends of a reply that is too long is
  the event \<open>Send_past\<close>, with the number of bytes from behind the array. A function that changes memory, the disk or a table takes the state and returns it
  changed. Return codes are the integers of the C macros. Bytes that \<open>malloc\<close> leaves unspecified are
  arguments, and so are the sizes of the blocks it gives (\<open>usable\<close>, at least the size asked for), where
  a result depends on them. Allocation succeeds, except in the linked lists, where \<open>mem_ok\<close> says which
  calls do.

  \<^bold>\<open>Bounds and fuel.\<close> Keys are shown to survive below \<open>2 ^ 28\<close>, the capacity of four varint bytes.
  The properties of tables assume pages of 1024 bytes, the size \<open>chidb_Btree_open\<close> gives a new file,
  and offsets below \<open>2 ^ 32\<close>, the range of the unsigned arithmetic on them. The search and the run
  loop may not return, and are partial functions with no fuel: that they return is part of the
  properties (for the run loop, of programs that jump forward: as many instructions as the program has are enough). A linked list is searched rightly up to \<open>2 ^ 24\<close> elements, which is shown to be the
  limit, and sorted below \<open>2 ^ 31\<close>. The loop of an IRC client recurses on the bytes left to read. The replies of the
  server are formatted into 512 characters and sent from 513; the input buffers have 4096.

  \<^bold>\<open>Not modelled.\<close> The scanner and the parser of SQL: the C of them is generated by flex and bison
  and is not in the repository; what they return is a parameter of \<open>Api\<close>. Of the
  linked list library the ready-made functions for \<open>float\<close> and \<open>double\<close> and the sort by threads are left out;
  \<open>rand()\<close> is a parameter. Of the shell the options are
  taken as read and the line editor as the list of its lines; messages on the standard error are left
  out, as are the logging functions. In program files \<open>mkstemp\<close> is a parameter, and a file is read as it was
  when it was opened. \<open>row.c\<close> of \<open>libchisql\<close> is not part of
  the build and does not compile. Of the IRC server the sockets, threads and locks are
  left out: a message is handled in one step, so the races inside a message do not show.
\<close>

section \<open>Tables\<close>

lemma put_rows_root: "put_rows table_put s rs = Some s' \<Longrightarrow> snd (snd s') = snd (snd s)"
  by (induction rs arbitrary: s)
    (auto simp: bind_Some_conv table_put_def split: prod.splits option.splits if_splits)

text \<open>A table made from an empty file and filled with rows.\<close>

lemma filled_table:
  assumes "files d f = Some []" and "(2 * length rows + 1) * 1024 \<le> room d"
    and "(2 * length rows + 1) * 1024 < 2 ^ 32" and "l \<le> 1006"
    and "\<forall>r \<in> set rows. table_row l r" and "distinct (map fst rows)"
  obtains d1 pg1 d2 pg2 where "chidb_Btree_open d f = Some (CHIDB_OK, d1, Some pg1)"
    and "put_rows table_put (d1, pg1, 1) rows = Some (d2, pg2, 1)"
    and "table_inv l 0 (d2, pg2, 1)" and "table_get (d2, pg2, 1) = map_of rows"
proof -
  obtain d1 pg1 where o': "chidb_Btree_open d f = Some (CHIDB_OK, d1, Some pg1)"
    and inv: "table_inv l (length rows) (d1, pg1, 1)" and new: "\<And>k. table_get (d1, pg1, 1) k = None"
    using new_table [OF assms(1-4)] by blast
  obtain s where s: "put_rows table_put (d1, pg1, 1) rows = Some s" "table_inv l 0 s"
    "table_get s = table_get (d1, pg1, 1) ++ map_of rows"
    using btree.put_rows_ok [of l 0 rows "(d1, pg1, 1)"] inv new assms(5,6) by auto
  obtain d2 pg2 where s2: "s = (d2, pg2, 1)"
    using put_rows_root [OF s(1)] by (cases s) simp
  have "table_get s = map_of rows" using s(3) new by (simp add: map_add_def fun_eq_iff split: option.split)
  then show ?thesis using that o' s(1,2) s2 by blast
qed

text \<open>C1. A table made from an empty file: after any sequence of insertions of rows of one size
  with distinct keys below \<open>2 ^ 28\<close>, every insertion has answered \<open>CHIDB_OK\<close>, every search
  returns, and it answers with exactly the rows inserted, whatever splits the insertions took.\<close>

theorem table_of_rows:
  assumes "files d f = Some []" and "(2 * length rows + 1) * 1024 \<le> room d"
    and "(2 * length rows + 1) * 1024 < 2 ^ 32" and "l \<le> 1006"
    and "\<forall>r \<in> set rows. table_row l r" and "distinct (map fst rows)"
  shows "\<exists>d1 pg1 d2 pg2. chidb_Btree_open d f = Some (CHIDB_OK, d1, Some pg1) \<and>
    put_rows table_put (d1, pg1, 1) rows = Some (d2, pg2, 1) \<and>
    (\<forall>k. chidb_Btree_find d2 pg2 1 k = Some (find_result (map_of rows k)))"
proof -
  obtain d1 pg1 d2 pg2 where "chidb_Btree_open d f = Some (CHIDB_OK, d1, Some pg1)"
    and "put_rows table_put (d1, pg1, 1) rows = Some (d2, pg2, 1)"
    and "table_inv l 0 (d2, pg2, 1)" "table_get (d2, pg2, 1) = map_of rows"
    using filled_table [OF assms] by blast
  then show ?thesis using find_table_get [of l 0 d2 pg2 1] by auto
qed

lemma table_of_rows_witness:
  "\<exists>d1 pg1 d2 pg2. chidb_Btree_open disk0 ''db'' = Some (CHIDB_OK, d1, Some pg1) \<and>
    put_rows table_put (d1, pg1, 1) [(7, [1, 2]), (3, [4, 5])] = Some (d2, pg2, 1) \<and>
    (\<forall>k. chidb_Btree_find d2 pg2 1 k = Some (find_result (map_of [(7, [1, 2]), (3, [4, 5])] k)))"
  by (rule table_of_rows [where l = 2]) (auto simp: table_row_def)

text \<open>C2. The order of the insertions does not show: two tables filled with the same rows in
  different orders answer every search alike, though their pages differ.\<close>

theorem table_any_order:
  assumes "table_inv l (length rows) (d, pg, nroot)" and "\<forall>r \<in> set rows. table_row l r"
    and "\<forall>r \<in> set rows. table_get (d, pg, nroot) (fst r) = None"
    and "distinct (map fst rows)" and "mset rows' = mset rows"
  shows "\<exists>d1 pg1 d2 pg2. put_rows table_put (d, pg, nroot) rows = Some (d1, pg1, nroot) \<and>
    put_rows table_put (d, pg, nroot) rows' = Some (d2, pg2, nroot) \<and>
    (\<forall>k. chidb_Btree_find d1 pg1 nroot k = chidb_Btree_find d2 pg2 nroot k)"
proof -
  obtain s1 s2 where s: "put_rows table_put (d, pg, nroot) rows = Some s1"
    "put_rows table_put (d, pg, nroot) rows' = Some s2" "table_get s1 = table_get s2"
    "table_inv l 0 s1" "table_inv l 0 s2"
    using btree.put_rows_perm [of l 0 rows "(d, pg, nroot)" rows'] assms by auto
  obtain d1 pg1 d2 pg2 where "s1 = (d1, pg1, nroot)" "s2 = (d2, pg2, nroot)"
    using put_rows_root [OF s(1)] put_rows_root [OF s(2)] by (cases s1; cases s2) simp
  with s show ?thesis using find_table_get [of l 0] by auto
qed

lemma table_any_order_witness:
  "\<exists>d pg d1 pg1 d2 pg2. chidb_Btree_open disk0 ''db'' = Some (CHIDB_OK, d, Some pg) \<and>
    put_rows table_put (d, pg, 1) [(7, [1]), (3, [2])] = Some (d1, pg1, 1) \<and>
    put_rows table_put (d, pg, 1) [(3, [2]), (7, [1])] = Some (d2, pg2, 1) \<and>
    (\<forall>k. chidb_Btree_find d1 pg1 1 k = chidb_Btree_find d2 pg2 1 k)"
proof -
  obtain d pg where o': "chidb_Btree_open disk0 ''db'' = Some (CHIDB_OK, d, Some pg)"
    and inv: "table_inv 1 2 (d, pg, 1)" and new: "\<And>k. table_get (d, pg, 1) k = None"
    using new_table [of disk0 "''db''" 2 1] by auto
  have "\<exists>d1 pg1 d2 pg2. put_rows table_put (d, pg, 1) [(7, [1]), (3, [2])] = Some (d1, pg1, 1) \<and>
    put_rows table_put (d, pg, 1) [(3, [2]), (7, [1])] = Some (d2, pg2, 1) \<and>
    (\<forall>k. chidb_Btree_find d1 pg1 1 k = chidb_Btree_find d2 pg2 1 k)"
    by (rule table_any_order [where l = 1]) (use inv new in \<open>simp_all add: table_row_def numeral_2_eq_2 [symmetric]\<close>)
  with o' show ?thesis by blast
qed

text \<open>C3. The walk over a table prints its rows in the order of their keys, whatever the order of the
  insertions and the splits they took: for a table made from an empty file, and a printer that
  prints a line for each row, the text is the lines of the sorted rows.\<close>

theorem table_listing:
  assumes "files d f = Some []" and "(2 * length rows + 1) * 1024 \<le> room d"
    and "(2 * length rows + 1) * 1024 < 2 ^ 32" and "l \<le> 1006"
    and "\<forall>r \<in> set rows. table_row l r" and "distinct (map fst rows)"
    and "\<forall>r \<in> set rows. \<forall>btn. printer btn (leaf_cell r) = Some (line r)"
  shows "\<exists>d1 pg1 d2 pg2. chidb_Btree_open d f = Some (CHIDB_OK, d1, Some pg1) \<and>
    put_rows table_put (d1, pg1, 1) rows = Some (d2, pg2, 1) \<and>
    chidb_Btree_print d2 pg2 printer False 1 = Some (CHIDB_OK, concat (map line (sort_key fst rows)))"
proof -
  obtain d1 pg1 d2 pg2 where o': "chidb_Btree_open d f = Some (CHIDB_OK, d1, Some pg1)"
    and s: "put_rows table_put (d1, pg1, 1) rows = Some (d2, pg2, 1)"
    and inv: "table_inv l 0 (d2, pg2, 1)" and get: "table_get (d2, pg2, 1) = map_of rows"
    using filled_table [OF assms(1-6)] by blast
  from print_table [OF inv get assms(6)] assms(7) show ?thesis
    using o' s by (auto simp: prints_rows_def)
qed

lemma table_listing_witness:
  "\<exists>d1 pg1 d2 pg2. chidb_Btree_open disk0 ''db'' = Some (CHIDB_OK, d1, Some pg1) \<and>
    put_rows table_put (d1, pg1, 1) [(7, [1, 2]), (3, [4, 5])] = Some (d2, pg2, 1) \<and>
    chidb_Btree_print d2 pg2 (\<lambda>_ c. Some (show_int (bc_key c) @ '';'')) False 1 = Some (CHIDB_OK, ''3;7;'')"
proof -
  let ?line = "\<lambda>r :: u32 \<times> bytes. show_int (fst r) @ '';''"
  have "show_nat 3 = ''3''" "show_nat 7 = ''7''" by (simp_all add: show_nat.simps char_of_def bit_0)
  then have "concat (map ?line (sort_key fst [(7, [1, 2]), (3, [4, 5])])) = ''3;7;''" by (simp add: show_int_def)
  moreover have "\<exists>d1 pg1 d2 pg2. chidb_Btree_open disk0 ''db'' = Some (CHIDB_OK, d1, Some pg1) \<and>
    put_rows table_put (d1, pg1, 1) [(7, [1, 2]), (3, [4, 5])] = Some (d2, pg2, 1) \<and>
    chidb_Btree_print d2 pg2 (\<lambda>_ c. Some (show_int (bc_key c) @ '';'')) False 1 =
      Some (CHIDB_OK, concat (map ?line (sort_key fst [(7, [1, 2]), (3, [4, 5])])))"
    by (rule table_listing [where l = 2]) (auto simp: table_row_def leaf_cell_def)
  ultimately show ?thesis by (simp only:)
qed

text \<open>C4. Search refines the lookup of the abstract tree, found or not, and it returns.\<close>

theorem find_refines:
  assumes "tree_rep d pg t"
  shows "chidb_Btree_find d pg (root_page t) key = Some (find_result (lookup t key))"
  using assms by (rule find_rep)

lemma find_refines_witness:
  "\<exists>d pg. tree_rep d pg (Leaf 1 []) \<and> chidb_Btree_find d pg 1 5 = Some (CHIDB_ENOTFOUND, None)"
proof -
  obtain m where "tree_rep (disk0\<lparr>files := (files disk0)(''db'' \<mapsto> m)\<rparr>) (new_pager ''db'') (Leaf 1 [])"
    using open_empty_file [of disk0 "''db''"] by auto
  then show ?thesis using find_refines [where t = "Leaf 1 []" and key = 5] by (auto simp: find_result_def)
qed

text \<open>C5. Insertion of a new key refines the abstract insertion: it answers \<open>CHIDB_OK\<close>, the pages
  then hold the tree with the row placed in its leaf (split when the leaf is full), the map of
  the tree is updated at that key only, and the leaves stay sorted.\<close>

theorem insert_refines:
  assumes "tree_rep d pg t" and "sorted_leaves t" and "lookup t (fst r) = None" and "can_insert d pg r t"
  shows "\<exists>d' pg'. chidb_Btree_insertInTable d pg (root_page t) (fst r) (snd r) (of_nat (length (snd r)))
      = Some (CHIDB_OK, d', pg') \<and>
    tree_rep d' pg' (insert_row pg r t) \<and> root_page (insert_row pg r t) = root_page t \<and>
    lookup (insert_row pg r t) = (lookup t)(fst r \<mapsto> snd r) \<and> sorted_leaves (insert_row pg r t)"
  using insert_rep [OF assms(1,3,4)] insert_row_correct [OF assms(2,3)] by metis

lemma insert_refines_witness:
  "\<exists>d pg d' pg'. tree_rep d pg (Leaf 1 []) \<and>
    chidb_Btree_insertInTable d pg 1 5 [1, 2] 2 = Some (CHIDB_OK, d', pg') \<and>
    tree_rep d' pg' (Leaf 1 [(5, [1, 2])])"
proof -
  obtain m where t: "tree_rep (disk0\<lparr>files := (files disk0)(''db'' \<mapsto> m)\<rparr>) (new_pager ''db'') (Leaf 1 [])"
    using open_empty_file [of disk0 "''db''"] by auto
  have "can_insert (disk0\<lparr>files := (files disk0)(''db'' \<mapsto> m)\<rparr>) (new_pager ''db'') (5, [1, 2]) (Leaf 1 [])"
    by (simp add: can_insert_def row_ok_def rows_size_def leaf_room_def header_offset_def)
  moreover have "insert_row (new_pager ''db'') (5, [1, 2]) (Leaf 1 []) = Leaf 1 [(5, [1, 2])]"
    by (simp add: insert_row_def rows_size_def leaf_room_def header_offset_def)
  ultimately show ?thesis using insert_refines [OF t, of "(5, [1, 2])"] t by auto
qed

text \<open>C6. A key that is present is refused with \<open>CHIDB_EDUPLICATE\<close> when its leaf has room, and
  the disk and the pager are unchanged.\<close>

theorem duplicate_refused:
  assumes "tree_rep d pg t" and "sorted_leaves t" and "lookup t (fst r) \<noteq> None" and "row_ok r"
    and "leaf_of t (fst r) = (p, kvs)" and "rows_size (r # kvs) \<le> leaf_room pg p"
  shows "chidb_Btree_insertInTable d pg (root_page t) (fst r) (snd r) (of_nat (length (snd r)))
    = Some (CHIDB_EDUPLICATE, d, pg)"
  using assms by (rule insert_duplicate)

lemma duplicate_refused_witness:
  "\<exists>d pg. tree_rep d pg (Leaf 1 [(5, [1])]) \<and>
    chidb_Btree_insertInTable d pg 1 5 [9] 1 = Some (CHIDB_EDUPLICATE, d, pg)"
proof -
  obtain d where t: "tree_rep d (new_pager ''db'') (Leaf 1 [(5, [1])])"
    by (rule one_row_table [of disk0 "''db''" "[1]"]) auto
  let ?r = "(5 :: u32, [9 :: u8])"
  have "chidb_Btree_insertInTable d (new_pager ''db'') (root_page (Leaf 1 [(5, [1])])) (fst ?r) (snd ?r)
      (of_nat (length (snd ?r))) = Some (CHIDB_EDUPLICATE, d, new_pager ''db'')"
    by (rule duplicate_refused [OF t])
      (auto simp: row_ok_def rows_size_def leaf_room_def header_offset_def)
  with t show ?thesis by auto
qed

text \<open>C7. The loop that splits looks at no key: in a full leaf a key that is present is stored a
  second time and the answer is \<open>CHIDB_OK\<close>.\<close>

theorem duplicate_in_full_leaf:
  assumes "tree_rep d pg t" and "row_ok r" and "leaf_of t (fst r) = (p, kvs)" and "fst r \<in> fst ` set kvs"
    and "leaf_room pg p < rows_size (r # kvs)" and "can_grow d pg 2" and "halves_fit pg r kvs"
  shows "\<exists>d' pg'. chidb_Btree_insertInTable d pg (root_page t) (fst r) (snd r) (of_nat (length (snd r)))
      = Some (CHIDB_OK, d', pg') \<and>
    rep d' pg' (split_leaf pg p r kvs)"
  using insert_full_leaf [OF assms(1-3) _ assms(6,7)] assms(5) by (metis not_le)

lemma duplicate_in_full_leaf_witness:
  "\<exists>d pg d' pg'. tree_rep d pg (Leaf 1 [(5, replicate 900 1)]) \<and>
    chidb_Btree_insertInTable d pg 1 5 (replicate 900 2) 900 = Some (CHIDB_OK, d', pg') \<and>
    rep d' pg' (split_leaf pg 1 (5, replicate 900 2) [(5, replicate 900 1)])"
proof -
  let ?r = "(5 :: u32, replicate 900 (2 :: u8))"
  obtain d where t: "tree_rep d (new_pager ''db'') (Leaf 1 [(5, replicate 900 1)])" and r: "room d = 1048576"
    by (rule one_row_table [of disk0 "''db''" "replicate 900 1"]) auto
  have "\<exists>d' pg'. chidb_Btree_insertInTable d (new_pager ''db'') (root_page (Leaf 1 [(5, replicate 900 1)])) (fst ?r) (snd ?r)
      (of_nat (length (snd ?r))) = Some (CHIDB_OK, d', pg') \<and>
      rep d' pg' (split_leaf (new_pager ''db'') 1 ?r [(5, replicate 900 1)])"
    by (rule duplicate_in_full_leaf [OF t])
      (use r in \<open>auto simp: row_ok_def rows_size_def leaf_room_def header_offset_def can_grow_def halves_fit_def\<close>)
  with t show ?thesis by auto
qed

section \<open>Database files\<close>

text \<open>C8. Opening an empty file makes it a one-page database: the call answers \<open>CHIDB_OK\<close>, the
  file holds one page of 1024 bytes with a valid header, and page 1 is an empty table leaf.\<close>

theorem open_creates:
  assumes "files d f = Some []" and "1024 \<le> room d"
  shows "\<exists>m. chidb_Btree_open d f = Some (CHIDB_OK, d\<lparr>files := (files d)(f \<mapsto> m)\<rparr>, Some (new_pager f)) \<and>
    length m = 1024 \<and> valid_header m 1024 \<and>
    tree_rep (d\<lparr>files := (files d)(f \<mapsto> m)\<rparr>) (new_pager f) (Leaf 1 [])"
  using open_empty_file [OF assms] by metis

lemma open_creates_witness:
  "\<exists>m. chidb_Btree_open disk0 ''db'' = Some (CHIDB_OK, disk0\<lparr>files := (files disk0)(''db'' \<mapsto> m)\<rparr>, Some (new_pager ''db'')) \<and>
    length m = 1024 \<and> valid_header m 1024 \<and>
    tree_rep (disk0\<lparr>files := (files disk0)(''db'' \<mapsto> m)\<rparr>) (new_pager ''db'') (Leaf 1 [])"
  by (rule open_creates) simp_all

text \<open>C9. A database file of \<open>k\<close> pages is opened with \<open>k - 1\<close> pages, since the number of pages is
  computed from the size of the file less one: the last page is out of reach, and its number is
  handed out again by the next allocation.\<close>

theorem reopen_loses_last_page:
  assumes "files d f = Some c" and "valid_header c ps" and "ps \<noteq> 0"
    and "length c = k * unat ps" and "length c \<le> 2 ^ 32" and "k < 2 ^ 32"
  shows "\<exists>pg. chidb_Btree_open d f = Some (CHIDB_OK, d, Some pg) \<and> unat (pg_n_pages pg) = k - 1 \<and>
    chidb_Pager_readPage d pg (of_nat k) = Some (CHIDB_EPAGENO, None) \<and>
    fst (snd (chidb_Pager_allocatePage pg)) = of_nat k"
proof -
  obtain j where j: "k = Suc j" using assms(2,4) by (cases k) (auto simp: valid_header_def)
  have uj: "unat (of_nat j :: u32) = j" and uk: "unat (of_nat k :: u32) = k"
    using assms(6) j by (intro unat_of_nat_small; simp)+
  have "\<not> has_page \<lparr>pg_f = Some f, pg_n_pages = of_nat j, pg_page_size = ps\<rparr> (of_nat k)"
    unfolding has_page_unat uk by (simp add: uj j)
  then show ?thesis
    using reopen_pages [OF assms(1-5)] uj by (auto simp: j readPage_bad chidb_Pager_allocatePage_def Let_def)
qed

lemma reopen_loses_last_page_witness:
  "\<exists>d m. files d ''db'' = Some m \<and> length m = 1024 \<and>
    (\<exists>pg. chidb_Btree_open d ''db'' = Some (CHIDB_OK, d, Some pg) \<and> unat (pg_n_pages pg) = 1 - 1 \<and>
      chidb_Pager_readPage d pg (of_nat 1) = Some (CHIDB_EPAGENO, None) \<and>
      fst (snd (chidb_Pager_allocatePage pg)) = of_nat 1)"
proof -
  obtain m where m: "length m = 1024" "valid_header m 1024"
    using open_empty_file [of disk0 "''db''"] by auto
  let ?d = "disk0\<lparr>files := (files disk0)(''db'' \<mapsto> m)\<rparr>"
  have "\<exists>pg. chidb_Btree_open ?d ''db'' = Some (CHIDB_OK, ?d, Some pg) \<and> unat (pg_n_pages pg) = 1 - 1 \<and>
      chidb_Pager_readPage ?d pg (of_nat 1) = Some (CHIDB_EPAGENO, None) \<and>
      fst (snd (chidb_Pager_allocatePage pg)) = of_nat 1"
    by (rule reopen_loses_last_page [OF _ m(2)]) (simp_all add: m(1))
  with m(1) show ?thesis by (intro exI [of _ ?d] exI [of _ m]) simp
qed

text \<open>C10. A copy of a database has one byte more than the file it was made from, and that byte makes
  up for the one the opening leaves out: a file of \<open>k\<close> pages copied is opened with all \<open>k\<close>.\<close>

theorem copied_file_has_all_pages:
  assumes "files d from = Some c" and "valid_header c ps" and "ps \<noteq> 0"
    and "length c = k * unat ps" and "length c < 2 ^ 32" and "length c < room d"
    and "from \<noteq> to" and "files d to \<noteq> None \<or> may_create d to"
  shows "\<exists>d' pg. copy d from to = (True, d') \<and> files d' from = Some c \<and>
    chidb_Btree_open d' to = Some (CHIDB_OK, d', Some pg) \<and> unat (pg_n_pages pg) = k"
proof -
  let ?d = "d\<lparr>files := (files d)(to \<mapsto> c @ [- 1])\<rparr>"
  have pos: "0 < unat ps" using assms(3) by (simp add: unat_gt_0)
  then have "k \<le> length c" using assms(4) by (simp add: Suc_leI)
  with assms(5) have "unat (of_nat k :: u32) = k" by (intro unat_of_nat_small) simp
  moreover have "(length (c @ [- 1]) - 1) div unat ps = k" using assms(4) pos by simp
  moreover have "chidb_Btree_open ?d to = Some (CHIDB_OK, ?d,
      Some \<lparr>pg_f = Some to, pg_n_pages = of_nat ((length (c @ [- 1]) - 1) div unat ps), pg_page_size = ps\<rparr>)"
    by (rule open_valid [OF _ valid_header_append [OF assms(2)] assms(3)]) (use assms(5) in simp_all)
  moreover have "copy d from to = (True, ?d)"
    by (rule copy_result [OF assms(1,7,8)]) (use assms(6) in simp)
  ultimately show ?thesis using assms(1,7) by auto
qed

lemma copied_file_has_all_pages_witness:
  "\<exists>d m d' pg. files d ''db'' = Some m \<and> length m = 1024 \<and> copy d ''db'' ''copy'' = (True, d') \<and>
    files d' ''db'' = Some m \<and> chidb_Btree_open d' ''copy'' = Some (CHIDB_OK, d', Some pg) \<and> unat (pg_n_pages pg) = 1"
proof -
  obtain m where m: "length m = 1024" "valid_header m 1024"
    using open_empty_file [of disk0 "''db''"] by auto
  let ?d = "disk0\<lparr>files := (files disk0)(''db'' \<mapsto> m)\<rparr>"
  have "\<exists>d' pg. copy ?d ''db'' ''copy'' = (True, d') \<and> files d' ''db'' = Some m \<and>
      chidb_Btree_open d' ''copy'' = Some (CHIDB_OK, d', Some pg) \<and> unat (pg_n_pages pg) = 1"
    by (rule copied_file_has_all_pages [OF _ m(2)]) (simp_all add: m(1) disk0_def)
  moreover have "files ?d ''db'' = Some m" by simp
  ultimately show ?thesis using m(1) by metis
qed

text \<open>C11. A file that is not empty and whose first 100 bytes are not a valid header is refused with
  \<open>CHIDB_ECORRUPTHEADER\<close>; the file is unchanged and no B-tree is returned.\<close>

theorem open_refuses:
  assumes "files d f = Some c" and "c \<noteq> []" and "\<nexists>ps. valid_header c ps"
  shows "chidb_Btree_open d f = Some (CHIDB_ECORRUPTHEADER, d, None)"
  using assms by (rule open_invalid)

lemma open_refuses_witness:
  "chidb_Btree_open (disk0\<lparr>files := (files disk0)(''db'' \<mapsto> [1, 2, 3])\<rparr>) ''db'' =
    Some (CHIDB_ECORRUPTHEADER, disk0\<lparr>files := (files disk0)(''db'' \<mapsto> [1, 2, 3])\<rparr>, None)"
  by (rule open_refuses [where c = "[1, 2, 3]"]) (simp_all add: valid_header_def)

section \<open>Nodes and pages\<close>

text \<open>C12. Inserting a cell at index \<open>i\<close> of a node with room is the insertion in the list of its
  cells: the cells before \<open>i\<close> stay, those from \<open>i\<close> on move up by one.\<close>

theorem insertCell_is_list_insertion:
  assumes "node_rep btn cs" and "cell_ok (bn_type btn) c" and "i \<le> length cs"
    and "int (length (enc_cell c)) + 2 \<le> node_free btn"
  shows "\<exists>btn'. chidb_Btree_insertCell btn (of_nat i) c = Some (CHIDB_OK, btn') \<and>
    node_rep btn' (take i cs @ c # drop i cs)"
  using insertCell_rep [OF assms] by metis

lemma insertCell_is_list_insertion_witness:
  "\<exists>btn btn'. chidb_Btree_createNode (new_pager ''db'') 2 PGTYPE_INDEX_LEAF = Some btn \<and>
    chidb_Btree_insertCell btn (of_nat 0) \<lparr>bc_type = PGTYPE_INDEX_LEAF, bc_key = 7, bc_fields = IndexLeaf 9\<rparr>
      = Some (CHIDB_OK, btn') \<and>
    node_rep btn' [\<lparr>bc_type = PGTYPE_INDEX_LEAF, bc_key = 7, bc_fields = IndexLeaf 9\<rparr>]"
proof -
  let ?c = "\<lparr>bc_type = PGTYPE_INDEX_LEAF, bc_key = 7, bc_fields = IndexLeaf 9\<rparr>"
  obtain btn where btn: "chidb_Btree_createNode (new_pager ''db'') 2 PGTYPE_INDEX_LEAF = Some btn"
    "node_rep btn []" "bn_type btn = PGTYPE_INDEX_LEAF"
    "node_free btn = uint (pg_page_size (new_pager ''db'')) - header_offset 2 - hdr_size PGTYPE_INDEX_LEAF"
    by (rule createNode_rep [of PGTYPE_INDEX_LEAF "new_pager ''db''" 2]) (auto simp: is_leaf_def)
  have "\<exists>btn'. chidb_Btree_insertCell btn (of_nat 0) ?c = Some (CHIDB_OK, btn') \<and>
      node_rep btn' (take 0 [] @ ?c # drop 0 [])"
    by (rule insertCell_is_list_insertion [OF btn(2)])
      (simp_all add: btn(3,4) cell_ok_def enc_cell_def header_offset_def hdr_size_def is_internal_def)
  with btn(1) show ?thesis by auto
qed

text \<open>Reading a cell is indexing in that list; an index past the number of cells is refused,
  but the index equal to it, one past the last cell, is not.\<close>

theorem getCell_is_indexing:
  assumes "node_rep btn cs"
  shows "(unat i < length cs \<longrightarrow> chidb_Btree_getCell btn i = Some (CHIDB_OK, Some (cs ! unat i))) \<and>
    (length cs < unat i \<longrightarrow> chidb_Btree_getCell btn i = Some (CHIDB_ECELLNO, None)) \<and>
    (unat i = length cs \<longrightarrow> chidb_Btree_getCell btn i \<noteq> Some (CHIDB_ECELLNO, None))"
proof -
  have n: "unat (bn_n_cells btn) = length cs" using node_repD(3) [OF assms] .
  then have "length cs < unat i \<longleftrightarrow> bn_n_cells btn < i" by (simp add: word_less_nat_alt)
  then show ?thesis
    using getCell_rep [OF assms, of i]
    by (auto simp: chidb_Btree_getCell_def bind_Some_conv)
qed

lemma getCell_is_indexing_witness:
  "\<exists>btn. chidb_Btree_createNode (new_pager ''db'') 2 PGTYPE_INDEX_LEAF = Some btn \<and>
    chidb_Btree_getCell btn 1 = Some (CHIDB_ECELLNO, None) \<and>
    chidb_Btree_getCell btn 0 \<noteq> Some (CHIDB_ECELLNO, None)"
proof -
  obtain btn where btn: "chidb_Btree_createNode (new_pager ''db'') 2 PGTYPE_INDEX_LEAF = Some btn" "node_rep btn []"
    by (rule createNode_rep [of PGTYPE_INDEX_LEAF "new_pager ''db''" 2]) (auto simp: is_leaf_def)
  then show ?thesis
    using getCell_is_indexing [OF btn(2), of 1] getCell_is_indexing [OF btn(2), of 0] by auto
qed

text \<open>C13. A node written to its page is read back as the same node: its type, its right page and
  every cell, by index.\<close>

theorem node_roundtrip:
  assumes "pager_ok d pg" and "node_rep btn cs" and "has_page pg (mp_npage (bn_page btn))"
    and "length (bn_data btn) = unat (pg_page_size pg)"
  shows "\<exists>d' btn'. chidb_Btree_writeNode d pg btn = Some (CHIDB_OK, d') \<and>
    chidb_Btree_getNodeByPage d' pg (mp_npage (bn_page btn)) = Some (CHIDB_OK, Some btn') \<and>
    bn_type btn' = bn_type btn \<and> bn_right_page btn' = bn_right_page btn \<and> bn_n_cells btn' = bn_n_cells btn \<and>
    (\<forall>i < length cs. chidb_Btree_getCell btn' (of_nat i) = Some (CHIDB_OK, Some (cs ! i)))"
proof -
  obtain m where w: "chidb_Btree_writeNode d pg btn = Some (CHIDB_OK, disk_put d pg (mp_npage (bn_page btn)) m)"
    and st: "stored (disk_put d pg (mp_npage (bn_page btn)) m) pg (set_data m btn)"
    and rep: "node_rep (set_data m btn) cs"
    using writeNode_rep [OF assms] by blast
  have g: "chidb_Btree_getNodeByPage (disk_put d pg (mp_npage (bn_page btn)) m) pg (mp_npage (bn_page btn))
      = Some (CHIDB_OK, Some (set_data m btn))"
    using getNodeByPage_stored [OF pager_ok_put [OF assms(1)] st rep] by simp
  have "chidb_Btree_getCell (set_data m btn) (of_nat i) = Some (CHIDB_OK, Some (cs ! i))" if "i < length cs" for i
  proof -
    have "length cs < 2 ^ 16"
      using node_repD(3) [OF assms(2)] unat_lt_u16 [of "bn_n_cells btn"] by simp
    then have "unat (of_nat i :: u16) = i" using that by (intro unat_of_nat_small) simp
    then show ?thesis using getCell_rep [OF rep, of "of_nat i"] that by simp
  qed
  with w g show ?thesis by auto
qed

lemma node_roundtrip_witness:
  "\<exists>btn d' btn'. chidb_Btree_createNode (new_pager ''db'') 1 PGTYPE_TABLE_INTERNAL = Some btn \<and>
    chidb_Btree_writeNode disk0 (new_pager ''db'') btn = Some (CHIDB_OK, d') \<and>
    chidb_Btree_getNodeByPage d' (new_pager ''db'') 1 = Some (CHIDB_OK, Some btn') \<and>
    bn_type btn' = PGTYPE_TABLE_INTERNAL"
proof -
  let ?pg = "new_pager ''db''"
  obtain btn where btn: "chidb_Btree_createNode ?pg 1 PGTYPE_TABLE_INTERNAL = Some btn" "node_rep btn []"
    "bn_type btn = PGTYPE_TABLE_INTERNAL" "mp_npage (bn_page btn) = 1"
    "length (bn_data btn) = unat (pg_page_size ?pg)"
    by (rule createNode_rep [of PGTYPE_TABLE_INTERNAL ?pg 1]) (auto simp: is_internal_def)
  have "pager_ok disk0 ?pg" "has_page ?pg (mp_npage (bn_page btn))"
    using btn(4) by (simp_all add: pager_ok_def pager_content_def has_page_def)
  from node_roundtrip [OF this(1) btn(2) this(2) btn(5)] btn show ?thesis by auto
qed

text \<open>C14. The pager is a store of pages: after any sequence of page writes, all of them in range,
  each page reads back as the last block written to it, and the others as before.\<close>

theorem pager_last_write_wins:
  assumes "pager_ok d pg" and "\<forall>(n, bs) \<in> set ws. has_page pg n \<and> length bs = unat (pg_page_size pg)"
    and "has_page pg m"
  shows "\<exists>s'. put_all store_put (d, pg) ws = Some s' \<and>
    store_get s' m = (case map_of (rev ws) m of Some bs \<Rightarrow> Some bs | None \<Rightarrow> store_get (d, pg) m)"
  using pager.put_all_some [of "(d, pg)" ws] pager.get_put_all [of "(d, pg)" ws m] assms by auto

lemma pager_last_write_wins_witness:
  "\<exists>s'. put_all store_put (disk0, pager0) [(2, [1, 2]), (3, [5, 6]), (2, [3, 4])] = Some s' \<and>
    store_get s' 2 = Some [3, 4]"
  using pager_last_write_wins [OF pager0_ok, of "[(2, [1, 2]), (3, [5, 6]), (2, [3, 4])]" 2]
  by (simp add: has_page_def pager0_def del: put_all.simps)

text \<open>C15. What is written at a place as a varint is read back there reduced to its low 28 bits, so
  a key of \<open>2 ^ 28\<close> or more comes back as another key.\<close>

theorem varint_truncates:
  assumes "putVarint32 m p v = Some m'"
  shows "getVarint32 m' p = Some (v AND mask 28) \<and> length m' = length m"
  using getVarint32_putVarint32 [OF assms] assms by (auto simp: putVarint32_eq dest: mem_put_length)

lemma varint_truncates_witness:
  "\<exists>m'. putVarint32 [0, 0, 0, 0, 9] 0 0x10000005 = Some m' \<and> getVarint32 m' 0 = Some 5"
proof -
  obtain m' where m': "putVarint32 [0, 0, 0, 0, 9] 0 0x10000005 = Some m'"
    by (simp add: putVarint32_def wr_def)
  moreover have "(0x10000005 :: u32) AND mask 28 = 5" by (simp add: mask_eq_exp_minus_1)
  ultimately show ?thesis using varint_truncates [OF m'] by auto
qed

section \<open>Records\<close>

text \<open>C16. A record built value by value, packed, and unpacked from the packed bytes (whatever
  follows them) gives back every value under its index: NULLs, integers of the three widths and
  texts of up to 1024 bytes, in a record whose header is below 255 bytes.\<close>

theorem record_roundtrip:
  assumes "values_ok vs"
  shows "\<exists>b dbr. append_values junk (snd (chidb_DBRecord_create_empty junk junk4 dbr0 (of_nat (length vs)))) vs = Some b \<and>
    chidb_DBRecord_pack junk (snd (chidb_DBRecord_finalize junk b)) = Some (CHIDB_OK, packed vs) \<and>
    chidb_DBRecord_unpack junk4 (packed vs @ rest) = Some (CHIDB_OK, dbr) \<and>
    (\<forall>i < length vs. field_value dbr (of_nat i) = Some (vs ! i))"
proof -
  obtain b where b: "append_values junk (snd (chidb_DBRecord_create_empty junk junk4 dbr0 (of_nat (length vs)))) vs = Some b"
    "rec_ok (snd (chidb_DBRecord_finalize junk b)) vs"
    using build_ok [OF assms] by blast
  obtain dbr where dbr: "chidb_DBRecord_unpack junk4 (packed vs @ rest) = Some (CHIDB_OK, dbr)" "rec_ok dbr vs"
    using unpack_ok [OF assms] by blast
  have "field_value dbr (of_nat i) = Some (vs ! i)" if "i < length vs" for i
  proof -
    have "unat (of_nat i :: u8) = i"
      using that assms by (intro unat_of_nat_small) (simp add: values_ok_def)
    then show ?thesis using field_value_ok [OF dbr(2), of "of_nat i"] that by simp
  qed
  with b(1) pack_ok [OF b(2)] dbr(1) show ?thesis by blast
qed

lemma record_roundtrip_witness:
  "\<exists>b dbr. append_values (\<lambda>_. 0) (snd (chidb_DBRecord_create_empty (\<lambda>_. 0) (\<lambda>_. 0) record0 3)) [VInt16 515, VNull, VText [104, 105]] = Some b \<and>
    chidb_DBRecord_pack (\<lambda>_. 0) (snd (chidb_DBRecord_finalize (\<lambda>_. 0) b)) = Some (CHIDB_OK, packed [VInt16 515, VNull, VText [104, 105]]) \<and>
    chidb_DBRecord_unpack (\<lambda>_. 0) (packed [VInt16 515, VNull, VText [104, 105]] @ [7]) = Some (CHIDB_OK, dbr) \<and>
    field_value dbr 2 = Some (VText [104, 105])"
proof -
  let ?vs = "[VInt16 515, VNull, VText [104, 105]]"
  have ok: "values_ok ?vs" by (simp add: values_ok_def)
  show ?thesis
    using record_roundtrip [OF ok, of "\<lambda>_. 0" "\<lambda>_. 0" record0 "[7]"] by (fastforce dest: spec [of _ 2])
qed

end
